(* ===== verification/Prelude.thy ===== *)
theory Prelude
  imports
    Main
    "HOL-Library.Word"
    "HOL-Library.Multiset"
    "HOL-Library.List_Lexorder"
    "HOL-Library.Product_Lexorder"
    "HOL-Library.Char_ord"
begin

unbundle bit_operations_syntax

text \<open>
  Shared vocabulary of the development: the names of the Rust types the components use,
  the arithmetic of Rust's \<^verbatim>\<open>usize\<close>, results as sums, and the generic
  lemmas on stable sorting, index ranks and counting that the component proofs rest on.

  A Rust \<^verbatim>\<open>Result<T, E>\<close> is \<open>'e + 'a\<close>, with \<open>Inl\<close> the error. A
  \<^verbatim>\<open>usize\<close> is a \<open>nat\<close>; where the source saturates, the bound
  \<open>usize_max\<close> of the 64-bit targets is written out. A \<^verbatim>\<open>[u8; 32]\<close> is a list
  of bytes, so that \<^verbatim>\<open>Ord\<close> on arrays and slices is the lexicographic order of
  \<^verbatim>\<open>List_Lexorder\<close>. Rust's \<^verbatim>\<open>sort_by_key\<close> is stable and is
  \<open>sort_key\<close>. A \<^verbatim>\<open>HashMap\<close> is an association list with distinct keys whose
  order stands for the unspecified iteration order, and a \<^verbatim>\<open>HashSet\<close> is a distinct
  list.
\<close>

type_synonym u8 = "8 word"
type_synonym u32 = "32 word"
type_synonym u64 = "64 word"
type_synonym bytes = "u8 list"
type_synonym key = "u8 list"
type_synonym ('e, 'a) result = "'e + 'a"

named_theorems results "unfolding rules for fallible steps"

subsection \<open>Results\<close>

definition bind_result :: "('e, 'a) result \<Rightarrow> ('a \<Rightarrow> ('e, 'b) result) \<Rightarrow> ('e, 'b) result" where
  "bind_result r k = (case r of Inl e \<Rightarrow> Inl e | Inr x \<Rightarrow> k x)"

definition map_err :: "('e \<Rightarrow> 'f) \<Rightarrow> ('e, 'a) result \<Rightarrow> ('f, 'a) result" where
  "map_err f r = (case r of Inl e \<Rightarrow> Inl (f e) | Inr x \<Rightarrow> Inr x)"

definition ok_or :: "'a option \<Rightarrow> 'e \<Rightarrow> ('e, 'a) result" where
  "ok_or x e = (case x of None \<Rightarrow> Inl e | Some v \<Rightarrow> Inr v)"

lemma bind_result_simps [simp]:
  "bind_result (Inl e) k = Inl e"
  "bind_result (Inr x) k = k x"
  by (simp_all add: bind_result_def)

lemma map_err_simps [simp]:
  "map_err f (Inl e) = Inl (f e)"
  "map_err f (Inr x) = Inr x"
  by (simp_all add: map_err_def)

lemma ok_or_simps [simp]:
  "ok_or None e = Inl e"
  "ok_or (Some v) e = Inr v"
  by (simp_all add: ok_or_def)

lemma bind_result_Inr_iff [results]:
  "bind_result r k = Inr y \<longleftrightarrow> (\<exists>x. r = Inr x \<and> k x = Inr y)"
  by (cases r) auto

lemma bind_result_Inl_iff [results]:
  "bind_result r k = Inl e \<longleftrightarrow> r = Inl e \<or> (\<exists>x. r = Inr x \<and> k x = Inl e)"
  by (cases r) auto

lemma map_err_Inr_iff [results]: "map_err f r = Inr y \<longleftrightarrow> r = Inr y"
  by (cases r) auto

lemma map_err_Inl_iff [results]: "map_err f r = Inl e \<longleftrightarrow> (\<exists>e'. r = Inl e' \<and> e = f e')"
  by (cases r) auto

lemma ok_or_Inr_iff [results]: "ok_or x e = Inr y \<longleftrightarrow> x = Some y"
  by (cases x) auto

text \<open>Collecting the results of a fallible map stops at the first error.\<close>

fun collect_result :: "('a \<Rightarrow> ('e, 'b) result) \<Rightarrow> 'a list \<Rightarrow> ('e, 'b list) result" where
  "collect_result f [] = Inr []"
| "collect_result f (x # xs) = bind_result (f x) (\<lambda>y. bind_result (collect_result f xs) (\<lambda>ys. Inr (y # ys)))"

lemma collect_result_Inr_iff [results]:
  "collect_result f xs = Inr ys \<longleftrightarrow> list_all2 (\<lambda>x y. f x = Inr y) xs ys"
  by (induction xs arbitrary: ys) (auto simp: results list_all2_Cons1)

lemma collect_result_Inl:
  "collect_result f xs = Inl e \<Longrightarrow> \<exists>x \<in> set xs. f x = Inl e"
  by (induction xs) (auto simp: results)

lemma collect_result_all_ok:
  "(\<And>x. x \<in> set xs \<Longrightarrow> f x = Inr (g x)) \<Longrightarrow> collect_result f xs = Inr (map g xs)"
  by (induction xs) auto

text \<open>
  Fallible operations on a state: an asynchronous method is a function from the state of the
  world to its result and the next state, and \<open>bind_op\<close> is the source's \<^verbatim>\<open>.await?\<close>.
\<close>

type_synonym ('s, 'e, 'a) op = "'s \<Rightarrow> ('e, 'a) result \<times> 's"

definition ok_op :: "'a \<Rightarrow> ('s, 'e, 'a) op" where
  "ok_op x s = (Inr x, s)"

definition err_op :: "'e \<Rightarrow> ('s, 'e, 'a) op" where
  "err_op e s = (Inl e, s)"

definition bind_op :: "('s, 'e, 'a) op \<Rightarrow> ('a \<Rightarrow> ('s, 'e, 'b) op) \<Rightarrow> ('s, 'e, 'b) op" where
  "bind_op m f s = (case m s of (Inl e, s') \<Rightarrow> (Inl e, s') | (Inr x, s') \<Rightarrow> f x s')"

lemma op_simps [simp]: "ok_op x s = (Inr x, s)" "err_op e s = (Inl e, s)"
  by (simp_all add: ok_op_def err_op_def)

lemma bind_op_Inr_iff [results]:
  "bind_op m f s = (Inr y, s'') \<longleftrightarrow> (\<exists>x s'. m s = (Inr x, s') \<and> f x s' = (Inr y, s''))"
  by (auto simp: bind_op_def split: prod.splits sum.splits)

lemma bind_op_InlD:
  "bind_op m f s = (Inl e, s'') \<Longrightarrow> m s = (Inl e, s'') \<or> (\<exists>x s'. m s = (Inr x, s') \<and> f x s' = (Inl e, s''))"
  by (auto simp: bind_op_def split: prod.splits sum.splits)

subsection \<open>Unsigned machine sizes\<close>

definition usize_max :: nat where
  "usize_max = 2 ^ 64 - 1"

definition sat_add :: "nat \<Rightarrow> nat \<Rightarrow> nat" where
  "sat_add a b = min (a + b) usize_max"

definition sat_mul :: "nat \<Rightarrow> nat \<Rightarrow> nat" where
  "sat_mul a b = min (a * b) usize_max"

lemma sat_add_le: "sat_add a b \<le> a + b" "sat_add a b \<le> usize_max"
  by (simp_all add: sat_add_def)

lemma sat_add_exact: "a + b \<le> usize_max \<Longrightarrow> sat_add a b = a + b"
  by (simp add: sat_add_def)

lemma le_sat_add: "a \<le> usize_max \<Longrightarrow> a \<le> sat_add a b"
  by (simp add: sat_add_def)

lemma sat_mul_exact: "a * b \<le> usize_max \<Longrightarrow> sat_mul a b = a * b"
  by (simp add: sat_mul_def)

lemma le_sat_mul: "a \<le> usize_max \<Longrightarrow> 0 < b \<Longrightarrow> a \<le> sat_mul a b"
  by (simp add: sat_mul_def)

subsection \<open>Stable sorting of indices\<close>

text \<open>
  A list sorted by a key with a stable sort from an increasing list is strictly sorted by
  the key and then by the element: the order in which ties keep their input position.
\<close>

definition key_less :: "('a::linorder \<Rightarrow> 'k::linorder) \<Rightarrow> 'a \<Rightarrow> 'a \<Rightarrow> bool" where
  "key_less f x y \<longleftrightarrow> f x < f y \<or> (f x = f y \<and> x < y)"

lemma key_less_asym: "key_less f x y \<Longrightarrow> \<not> key_less f y x"
  by (auto simp: key_less_def)

lemma key_less_trans: "key_less f x y \<Longrightarrow> key_less f y z \<Longrightarrow> key_less f x z"
  by (auto simp: key_less_def)

lemma key_less_total: "x \<noteq> y \<Longrightarrow> key_less f x y \<or> key_less f y x"
  by (auto simp: key_less_def)

lemma insort_key_key_less:
  assumes "sorted_wrt (key_less f) ys" and "\<forall>y \<in> set ys. x < y"
  shows "sorted_wrt (key_less f) (insort_key f x ys)"
  using assms
proof (induction ys)
  case Nil
  then show ?case by simp
next
  case (Cons y ys)
  show ?case
  proof (cases "f x \<le> f y")
    case True
    with Cons.prems have "key_less f x y" by (auto simp: key_less_def)
    moreover have "\<forall>z \<in> set ys. key_less f y z" using Cons.prems by simp
    ultimately have "\<forall>z \<in> set ys. key_less f x z" by (blast intro: key_less_trans)
    with True Cons.prems \<open>key_less f x y\<close> show ?thesis by simp
  next
    case False
    with Cons show ?thesis by (auto simp: set_insort_key key_less_def)
  qed
qed

lemma sort_key_key_less:
  "sorted_wrt (<) xs \<Longrightarrow> sorted_wrt (key_less f) (sort_key f xs)"
  by (induction xs) (auto intro: insort_key_key_less)

lemma sorted_wrt_lt_upt: "sorted_wrt (<) [m..<n]"
  by (simp add: sorted_wrt_upt)

lemmas sort_key_upt = sort_key_key_less [OF sorted_wrt_lt_upt]

text \<open>In a strictly sorted list, the elements below the \<open>k\<close>-th one are the first \<open>k\<close>.\<close>

lemma sorted_wrt_below_nth:
  assumes "sorted_wrt R xs" and "\<And>x y. R x y \<Longrightarrow> \<not> R y x" and "k < length xs"
  shows "{x \<in> set xs. R x (xs ! k)} = set (take k xs)"
proof -
  have split: "xs = take k xs @ xs ! k # drop (Suc k) xs"
    using assms(3) by (simp add: id_take_nth_drop)
  have "sorted_wrt R (take k xs @ xs ! k # drop (Suc k) xs)"
    using assms(1) split by simp
  then have lo: "\<forall>x \<in> set (take k xs). R x (xs ! k)"
    and hi: "\<forall>x \<in> set (drop (Suc k) xs). R (xs ! k) x"
    by (auto simp: sorted_wrt_append)
  have "set xs = set (take k xs) \<union> {xs ! k} \<union> set (drop (Suc k) xs)"
    by (subst split) auto
  with lo hi show ?thesis using assms(2) by blast
qed

lemma card_below_nth:
  assumes "sorted_wrt R xs" and "\<And>x y. R x y \<Longrightarrow> \<not> R y x" and "k < length xs" and "distinct xs"
  shows "card {x \<in> set xs. R x (xs ! k)} = k"
  using sorted_wrt_below_nth [OF assms(1,2,3)] assms(3,4)
  by (simp add: distinct_card)

lemma set_take_rank:
  assumes "sorted_wrt R xs" and "\<And>x y. R x y \<Longrightarrow> \<not> R y x" and "distinct xs"
  shows "set (take k xs) = {x \<in> set xs. card {y \<in> set xs. R y x} < k}"
proof (intro set_eqI iffI)
  fix x
  assume "x \<in> set (take k xs)"
  then obtain i where i: "i < k" "i < length xs" "x = xs ! i" by (auto simp: in_set_conv_nth)
  then show "x \<in> {x \<in> set xs. card {y \<in> set xs. R y x} < k}"
    using card_below_nth [OF assms(1,2) i(2) assms(3)] by simp
next
  fix x
  assume x: "x \<in> {x \<in> set xs. card {y \<in> set xs. R y x} < k}"
  then obtain i where i: "i < length xs" "x = xs ! i" by (auto simp: in_set_conv_nth)
  then have "i < k" using x card_below_nth [OF assms(1,2) i(1) assms(3)] by simp
  with i show "x \<in> set (take k xs)" by (auto simp: in_set_conv_nth intro!: exI [of _ i])
qed

lemma sort_key_strict:
  assumes "distinct (map f xs)"
  shows "sorted_wrt (\<lambda>x y. f x < f y) (sort_key f xs)"
proof -
  have "distinct (map f (sort_key f xs))" using assms by (simp add: distinct_map)
  then have "sorted_wrt (<) (map f (sort_key f xs))" by (simp add: strict_sorted_iff)
  then show ?thesis by (simp add: sorted_wrt_map)
qed

text \<open>A list sorted by an injective key depends only on the multiset of its elements.\<close>

lemma sort_key_mset_cong:
  assumes "mset xs = mset ys" and "inj_on f (set xs)"
  shows "sort_key f xs = sort_key f ys"
proof -
  have "set ys = set xs" using assms(1) by (rule mset_eq_setD [symmetric])
  then have inj: "inj_on f (set (sort_key f xs) \<union> set (sort_key f ys))"
    using assms(2) by simp
  have "sort (map f xs) = map f (sort_key f xs)" by (rule properties_for_sort) simp_all
  moreover have "sort (map f xs) = map f (sort_key f ys)"
    by (rule properties_for_sort) (simp_all add: assms(1))
  ultimately have "map f (sort_key f xs) = map f (sort_key f ys)" by simp
  then show ?thesis using inj by (rule map_inj_on)
qed

lemma sorted_map_weaken:
  assumes "sorted (map f xs)" and "\<And>x y. f x \<le> f y \<Longrightarrow> g x \<le> g y"
  shows "sorted (map g xs)"
  using assms(1) by (simp add: sorted_map) (rule sorted_wrt_mono_rel, use assms(2) in auto)

section \<open>Invariants of transition systems\<close>

locale transition_invariant =
  fixes step :: "'s \<Rightarrow> 's \<Rightarrow> bool"
    and inv :: "'s \<Rightarrow> bool"
  assumes preserved: "inv s \<Longrightarrow> step s s' \<Longrightarrow> inv s'"
begin

lemma reachable_inv:
  assumes "step\<^sup>*\<^sup>* s s'" and "inv s"
  shows "inv s'"
  using assms by (induction rule: rtranclp_induct) (auto intro: preserved)

end

end
