(* ===== verification/Payment_Policy.thy ===== *)
theory Payment_Policy
  imports Prelude
begin

text \<open>
  The single-node payment policy of \<^verbatim>\<open>ant-core/src/payment_policy.rs\<close>: quotes are
  ranked by price with a stable sort, the upper median is paid three times its price and
  every other quote nothing. Amounts are words of any width: the portable adapter uses
  \<^verbatim>\<open>u128\<close>, the native one \<^verbatim>\<open>U256\<close>. The protocol constant
  \<^verbatim>\<open>CLOSE_GROUP_SIZE\<close> belongs to another crate and is the parameter \<open>cgs\<close>.
\<close>

definition SINGLE_NODE_PAYMENT_MULTIPLIER :: u64 where
  "SINGLE_NODE_PAYMENT_MULTIPLIER = 3"

definition checked_mul_multiplier :: "'l::len word \<Rightarrow> u64 \<Rightarrow> 'l word option" where
  "checked_mul_multiplier self multiplier =
     (if unat self * unat multiplier < 2 ^ LENGTH('l)
      then Some (self * of_nat (unat multiplier)) else None)"

datatype payment_plan_error = InvalidQuoteCount nat | PriceOverflow

record ranked_quotes =
  quote_indices :: "nat list"
  ranked_position :: nat

definition rank_quotes :: "'p::linorder list \<Rightarrow> ranked_quotes option" where
  "rank_quotes prices =
     (if prices = [] then None
      else Some \<lparr>quote_indices = sort_key (\<lambda>index. prices ! index) [0..<length prices],
                 ranked_position = length prices div 2\<rparr>)"

definition median_quote_index :: "'p::linorder list \<Rightarrow> nat option" where
  "median_quote_index prices =
     map_option (\<lambda>ranked. quote_indices ranked ! ranked_position ranked) (rank_quotes prices)"

definition enhanced_payment_amount :: "'l::len word \<Rightarrow> (payment_plan_error, 'l word) result" where
  "enhanced_payment_amount price =
     ok_or (checked_mul_multiplier price SINGLE_NODE_PAYMENT_MULTIPLIER) PriceOverflow"

record 'p planned_quote =
  quote_index :: nat
  amount :: 'p

record 'p single_node_payment_plan =
  plan_quotes :: "'p planned_quote list"
  paid_position :: nat

definition from_prices ::
  "nat \<Rightarrow> 'l::len word list \<Rightarrow> (payment_plan_error, 'l word single_node_payment_plan) result" where
  "from_prices cgs prices =
     (if \<not> (1 \<le> length prices \<and> length prices \<le> cgs) then Inl (InvalidQuoteCount (length prices))
      else bind_result (ok_or (rank_quotes prices) (InvalidQuoteCount (length prices)))
        (\<lambda>ranked.
          let paid_quote_index = quote_indices ranked ! ranked_position ranked
          in bind_result (enhanced_payment_amount (prices ! paid_quote_index))
            (\<lambda>amt. Inr \<lparr>
               plan_quotes = map (\<lambda>i. \<lparr>quote_index = i,
                                   amount = (if i = paid_quote_index then amt else 0)\<rparr>)
                            (quote_indices ranked),
               paid_position = ranked_position ranked\<rparr>)))"

definition paid_quote :: "'p single_node_payment_plan \<Rightarrow> 'p planned_quote" where
  "paid_quote plan = plan_quotes plan ! paid_position plan"

subsection \<open>Ranking\<close>

lemma rank_quotes_Some:
  assumes "rank_quotes prices = Some ranked"
  shows "prices \<noteq> []"
    and "ranked_position ranked = length prices div 2"
    and "mset (quote_indices ranked) = mset [0..<length prices]"
    and "sorted_wrt (key_less (\<lambda>i. prices ! i)) (quote_indices ranked)"
    and "ranked_position ranked < length (quote_indices ranked)"
  using assms by (auto simp: rank_quotes_def sort_key_upt split: if_splits)

lemma rank_quotes_index_set:
  assumes "rank_quotes prices = Some ranked"
  shows "set (quote_indices ranked) = {..<length prices}"
    and "distinct (quote_indices ranked)"
    and "length (quote_indices ranked) = length prices"
  using assms by (auto simp: rank_quotes_def split: if_splits)

lemma median_quote_index_eq_None_iff: "median_quote_index prices = None \<longleftrightarrow> prices = []"
  by (simp add: median_quote_index_def rank_quotes_def)

lemma median_quote_index_in_range:
  "median_quote_index prices = Some m \<Longrightarrow> m < length prices"
proof -
  assume "median_quote_index prices = Some m"
  then obtain ranked where r: "rank_quotes prices = Some ranked"
    and m: "m = quote_indices ranked ! ranked_position ranked"
    by (auto simp: median_quote_index_def)
  have "m \<in> set (quote_indices ranked)"
    using rank_quotes_Some(5) [OF r] m by simp
  then show ?thesis using rank_quotes_index_set(1) [OF r] by simp
qed

subsection \<open>Amounts\<close>

lemma checked_mul_multiplier_Some_iff:
  fixes price :: "'l::len word"
  shows "checked_mul_multiplier price m = Some r \<longleftrightarrow>
     unat price * unat m < 2 ^ LENGTH('l) \<and> unat r = unat price * unat m"
proof -
  have "unat (price * of_nat (unat m)) = (unat price * unat m) mod 2 ^ LENGTH('l)"
    by (simp add: unat_word_ariths unat_of_nat mod_mult_right_eq del: of_nat_unat)
  then show ?thesis
    by (auto simp: checked_mul_multiplier_def intro: word_unat_eq_iff [THEN iffD2])
qed

lemma unat_multiplier: "unat SINGLE_NODE_PAYMENT_MULTIPLIER = 3"
  by (simp add: SINGLE_NODE_PAYMENT_MULTIPLIER_def)

lemma enhanced_payment_amount_Inr_iff:
  fixes price :: "'l::len word"
  shows "enhanced_payment_amount price = Inr a \<longleftrightarrow>
     3 * unat price < 2 ^ LENGTH('l) \<and> unat a = 3 * unat price"
  by (simp add: enhanced_payment_amount_def results checked_mul_multiplier_Some_iff
      unat_multiplier mult.commute)

lemma enhanced_payment_amount_cases:
  fixes price :: "'l::len word"
  shows "enhanced_payment_amount price = Inl e \<longleftrightarrow>
     2 ^ LENGTH('l) \<le> 3 * unat price \<and> e = PriceOverflow"
  by (auto simp: enhanced_payment_amount_def checked_mul_multiplier_def ok_or_def
      unat_multiplier mult.commute split: if_splits)

text \<open>The plan in terms of the ranking: one equation for every outcome.\<close>

lemma from_prices_unfold:
  assumes "median_quote_index prices = Some m" and "length prices \<le> cgs"
  shows "from_prices cgs prices = bind_result (enhanced_payment_amount (prices ! m))
     (\<lambda>amt. Inr \<lparr>plan_quotes = map (\<lambda>i. \<lparr>quote_index = i, amount = (if i = m then amt else 0)\<rparr>)
                          (sort_key (\<lambda>i. prices ! i) [0..<length prices]),
                 paid_position = length prices div 2\<rparr>)"
proof -
  have "prices \<noteq> []" using assms(1) by (auto simp: median_quote_index_def rank_quotes_def)
  then have "1 \<le> length prices" by (cases prices) auto
  with assms \<open>prices \<noteq> []\<close> show ?thesis
    by (auto simp: from_prices_def median_quote_index_def rank_quotes_def Let_def)
qed

lemma from_prices_InrD:
  assumes "from_prices cgs prices = Inr plan"
  obtains m amt where "median_quote_index prices = Some m" and "length prices \<le> cgs"
    and "enhanced_payment_amount (prices ! m) = Inr amt"
    and "plan_quotes plan = map (\<lambda>i. \<lparr>quote_index = i, amount = (if i = m then amt else 0)\<rparr>)
           (sort_key (\<lambda>i. prices ! i) [0..<length prices])"
    and "paid_position plan = length prices div 2"
proof -
  from assms have n: "1 \<le> length prices" "length prices \<le> cgs"
    by (auto simp: from_prices_def split: if_splits)
  then obtain m where m: "median_quote_index prices = Some m"
    using median_quote_index_eq_None_iff [of prices] by (cases prices) auto
  from assms show thesis
    unfolding from_prices_unfold [OF m n(2)] by (auto simp: results intro: that [OF m n(2)])
qed

lemma median_is_sorted_nth:
  "median_quote_index prices = Some m \<Longrightarrow>
     m = sort_key (\<lambda>i. prices ! i) [0..<length prices] ! (length prices div 2)"
  by (auto simp: median_quote_index_def rank_quotes_def split: if_splits)

lemma paid_quote_eq:
  assumes "from_prices cgs prices = Inr plan" and "median_quote_index prices = Some m"
  shows "\<exists>amt. enhanced_payment_amount (prices ! m) = Inr amt \<and>
    paid_quote plan = \<lparr>quote_index = m, amount = amt\<rparr>"
proof -
  from assms obtain amt where amt: "enhanced_payment_amount (prices ! m) = Inr amt"
    and qs: "plan_quotes plan = map (\<lambda>i. \<lparr>quote_index = i, amount = (if i = m then amt else 0)\<rparr>)
           (sort_key (\<lambda>i. prices ! i) [0..<length prices])"
    and pos: "paid_position plan = length prices div 2"
    by (auto elim: from_prices_InrD)
  have "length prices div 2 < length (sort_key (\<lambda>i. prices ! i) [0..<length prices])"
    using median_quote_index_in_range [OF assms(2)] by simp
  then have "paid_quote plan = \<lparr>quote_index = m, amount = amt\<rparr>"
    using median_is_sorted_nth [OF assms(2)] by (simp add: paid_quote_def qs pos)
  with amt show ?thesis by blast
qed

lemma paid_quote_is_median:
  assumes "from_prices cgs prices = Inr plan"
  shows "median_quote_index prices = Some (quote_index (paid_quote plan))"
proof -
  from assms obtain m where "median_quote_index prices = Some m" by (rule from_prices_InrD)
  with paid_quote_eq [OF assms this] show ?thesis by auto
qed

text \<open>
  The quote paid is the upper median of the prices with ties kept in input order:
  exactly \<open>n div 2\<close> of the \<open>n\<close> quotes rank before it, by price and then by position.
\<close>

theorem median_quote_rank:
  assumes "median_quote_index prices = Some m"
  shows "m < length prices \<and>
    card {j. j < length prices \<and>
            (prices ! j < prices ! m \<or> (prices ! j = prices ! m \<and> j < m))} = length prices div 2"
proof -
  from assms obtain ranked where r: "rank_quotes prices = Some ranked"
    and m: "m = quote_indices ranked ! ranked_position ranked"
    by (auto simp: median_quote_index_def)
  note facts = rank_quotes_Some [OF r] rank_quotes_index_set [OF r]
  have "card {j \<in> set (quote_indices ranked). key_less (\<lambda>i. prices ! i) j m}
      = ranked_position ranked"
    unfolding m by (rule card_below_nth) (use facts key_less_asym in blast)+
  moreover have "{j \<in> set (quote_indices ranked). key_less (\<lambda>i. prices ! i) j m}
      = {j. j < length prices \<and>
            (prices ! j < prices ! m \<or> (prices ! j = prices ! m \<and> j < m))}"
    using facts by (auto simp: key_less_def)
  ultimately show ?thesis
    using facts(2) median_quote_index_in_range [OF assms] by simp
qed

theorem median_quote_rank_witness:
  "median_quote_index [30, 10, 40, 20 :: u64] = Some 0 \<and>
   card {j. j < length [30, 10, 40, 20 :: u64] \<and>
     ([30, 10, 40, 20 :: u64] ! j < [30, 10, 40, 20] ! 0 \<or>
      ([30, 10, 40, 20 :: u64] ! j = [30, 10, 40, 20] ! 0 \<and> j < 0))} = 4 div 2"
proof -
  have h: "median_quote_index [30, 10, 40, 20 :: u64] = Some 0" by code_simp
  show ?thesis using h median_quote_rank [OF h] by simp
qed



text \<open>
  Planning fails in exactly two ways: a quote count outside \<open>1..cgs\<close>, or three times
  the median price not fitting the amount type. The price of an unpaid quote never matters.
\<close>

theorem payment_plan_error:
  fixes prices :: "'l::len word list"
  shows "from_prices cgs prices = Inl e \<longleftrightarrow>
    (if length prices < 1 \<or> cgs < length prices then e = InvalidQuoteCount (length prices)
     else e = PriceOverflow \<and>
       2 ^ LENGTH('l) \<le> 3 * unat (prices ! the (median_quote_index prices)))"
proof (cases "length prices < 1 \<or> cgs < length prices")
  case True
  then show ?thesis by (auto simp: from_prices_def)
next
  case False
  then obtain m where m: "median_quote_index prices = Some m"
    using median_quote_index_eq_None_iff [of prices] by (cases prices) auto
  from False show ?thesis
    by (auto simp: from_prices_unfold [OF m] results enhanced_payment_amount_cases m)
qed

end
