(* ===== verification/Quote_Policy.thy ===== *)
theory Quote_Policy
  imports Payment_Policy
begin

text \<open>
  The witnessed quote and storage-target policy of \<^verbatim>\<open>ant-core/src/quote_policy.rs\<close>.
  A peer is its 32 identity bytes. \<^verbatim>\<open>Voters\<close> is an association list from a peer to
  the distinct responders whose close-group view lists it. \<^verbatim>\<open>CLOSE_GROUP_SIZE\<close>
  and \<^verbatim>\<open>CLOSE_GROUP_MAJORITY\<close> are the parameters \<open>cgs\<close> and \<open>cgm\<close>
  (7 and 4 in ADR-0002). Discovery is an effectful call of the transport: a function of the
  transport's state that returns a result and the next state.
\<close>

definition PUT_TARGET_WIDTH :: nat where
  "PUT_TARGET_WIDTH = 20"

definition SINGLE_NODE_MIN_QUOTE_COUNT :: nat where
  "SINGLE_NODE_MIN_QUOTE_COUNT = 1"

type_synonym voters = "(key \<times> key list) list"

record responder_view =
  responder :: key
  closest :: "key list"

definition distance :: "key \<Rightarrow> key \<Rightarrow> key" where
  "distance peer address = map2 (XOR) peer address"

definition quote_launch_budget :: "nat \<Rightarrow> nat \<Rightarrow> nat \<Rightarrow> nat \<Rightarrow> nat" where
  "quote_launch_budget cgs successes in_flight remaining =
     min (cgs - sat_add successes in_flight) remaining"

definition witness_quorum :: "nat \<Rightarrow> nat \<Rightarrow> nat" where
  "witness_quorum cgs missing_views = max ((cgs * 2 + 2) div 3 - missing_views) 1"

text \<open>\<^verbatim>\<open>voters.entry(peer).or_default().insert(responder)\<close>.\<close>

fun vote :: "voters \<Rightarrow> key \<Rightarrow> key \<Rightarrow> voters" where
  "vote [] peer voter = [(peer, [voter])]"
| "vote ((p, vs) # rest) peer voter =
     (if p = peer then (p, List.insert voter vs) # rest else (p, vs) # vote rest peer voter)"

definition witness_votes :: "responder_view list \<Rightarrow> voters" where
  "witness_votes views =
     fold (\<lambda>view voters. fold (\<lambda>peer voters. vote voters peer (responder view)) (closest view) voters)
       views []"

definition consensus_peers :: "voters \<Rightarrow> key \<Rightarrow> nat \<Rightarrow> key list" where
  "consensus_peers voters address quorum =
     sort_key (\<lambda>p. (distance p address, - int (length (the (map_of voters p))), p))
       (map fst (filter (\<lambda>(_, votes). quorum \<le> length votes) voters))"

datatype witness_error =
    InconclusiveCloseGroup nat nat
  | TooFewInitialPeers nat

definition validate_initial_peers :: "nat \<Rightarrow> nat \<Rightarrow> (witness_error, unit) result" where
  "validate_initial_peers cgs initial_count =
     (if initial_count < cgs then Inl (TooFewInitialPeers initial_count) else Inr ())"

definition validate_witnessed_peers ::
  "nat \<Rightarrow> nat \<Rightarrow> nat \<Rightarrow> nat \<Rightarrow> (witness_error, unit) result" where
  "validate_witnessed_peers cgs initial_count candidates required =
     (if candidates < required then Inl (InconclusiveCloseGroup candidates required)
      else validate_initial_peers cgs initial_count)"

definition validate_width ::
  "('t \<Rightarrow> nat) \<Rightarrow> (nat \<Rightarrow> nat \<Rightarrow> 'e) \<Rightarrow> 't \<Rightarrow> nat \<Rightarrow> ('e, 't) result" where
  "validate_width count_of insufficient result width =
     (let found = count_of result
      in if found < width then Inl (insufficient found width) else Inr result)"

definition discover_put_peers ::
  "nat \<Rightarrow> ('s \<Rightarrow> nat \<Rightarrow> ('e, 't) result \<times> 's) \<Rightarrow> ('t \<Rightarrow> nat) \<Rightarrow> (nat \<Rightarrow> nat \<Rightarrow> 'e) \<Rightarrow>
     's \<Rightarrow> ('e, 't) result \<times> 's" where
  "discover_put_peers cgs discover count_of insufficient s =
     (case discover s PUT_TARGET_WIDTH of (r, s1) \<Rightarrow>
        (case bind_result r (\<lambda>result. validate_width count_of insufficient result PUT_TARGET_WIDTH) of
           Inr result \<Rightarrow> (Inr result, s1)
         | Inl _ \<Rightarrow>
             (case discover s1 cgs of (r2, s2) \<Rightarrow>
                (bind_result r2 (\<lambda>result. validate_width count_of insufficient result cgs), s2))))"

definition scope_views :: "nat \<Rightarrow> key list \<Rightarrow> responder_view list \<Rightarrow> responder_view list" where
  "scope_views cgs initial views = filter (\<lambda>view. responder view \<in> set (take cgs initial)) views"

definition already_stored :: "nat \<Rightarrow> nat \<Rightarrow> key list \<Rightarrow> key list \<Rightarrow> key \<Rightarrow> bool" where
  "already_stored cgs cgm payable holders address =
     (let responses = sort_key snd
            (map (\<lambda>peer. (False, distance peer address)) payable @
             map (\<lambda>peer. (True, distance peer address)) holders)
      in cgm \<le> length (filter fst (take cgs responses)))"

text \<open>
  The subsets \<^verbatim>\<open>visit_subsets\<close> hands to its visitor, in order. The caller passes a
  subset size of at most the quote count, so the source's subtractions do not underflow; the
  second branch, where \<^verbatim>\<open>current\<close> is already longer than a subset, is not reached.
\<close>

function visit_subsets :: "nat \<Rightarrow> nat \<Rightarrow> nat \<Rightarrow> nat list \<Rightarrow> nat list list" where
  "visit_subsets quote_count subset_size start current =
     (if length current = subset_size then [current]
      else if subset_size < length current then []
      else
        let last_start = quote_count - (subset_size - length current)
        in concat (map (\<lambda>index. visit_subsets quote_count subset_size (index + 1) (current @ [index]))
                    [start..<last_start + 1]))"
  by pat_completeness auto
termination
  by (relation "measure (\<lambda>(n, k, s, c). k - length c)") auto

declare visit_subsets.simps [simp del]

type_synonym best_subset = "(nat \<times> nat list) option"

text \<open>The visitor: the support of the subset's paid median, and the update of the best subset.\<close>

definition subset_support ::
  "(key \<times> 'p::linorder) list \<Rightarrow> nat list \<Rightarrow> voters \<Rightarrow> nat list \<Rightarrow> nat option" where
  "subset_support quotes order voters indices =
     (case median_quote_index (map (\<lambda>index. snd (quotes ! (order ! index))) indices) of
        None \<Rightarrow> None
      | Some median \<Rightarrow>
          map_option length (map_of voters (fst (quotes ! (order ! (indices ! median))))))"

definition visit_quotes ::
  "(key \<times> 'p::linorder) list \<Rightarrow> nat list \<Rightarrow> voters \<Rightarrow> nat \<Rightarrow> nat list \<Rightarrow>
     best_subset \<Rightarrow> best_subset" where
  "visit_quotes quotes order voters required indices best =
     (case subset_support quotes order voters indices of
        None \<Rightarrow> best
      | Some support \<Rightarrow>
          if support < required then best
          else (case best of
                  None \<Rightarrow> Some (support, indices)
                | Some (best_support, previous) \<Rightarrow>
                    if support < best_support then best
                    else if best_support = support \<and> previous \<le> indices then best
                    else Some (support, indices)))"

fun select_loop ::
  "(key \<times> 'p::linorder) list \<Rightarrow> nat list \<Rightarrow> voters \<Rightarrow> nat \<Rightarrow> nat list \<Rightarrow> nat list option" where
  "select_loop quotes order voters required [] = None"
| "select_loop quotes order voters required (size_now # sizes) =
     (case fold (visit_quotes quotes order voters required)
             (visit_subsets (length quotes) size_now 0 []) None of
        Some (_, indices) \<Rightarrow> Some (map (\<lambda>index. order ! index) indices)
      | None \<Rightarrow> select_loop quotes order voters required sizes)"

definition quote_order :: "(key \<times> 'p) list \<Rightarrow> key \<Rightarrow> nat list" where
  "quote_order quotes address =
     sort_key (\<lambda>index. distance (fst (quotes ! index)) address) [0..<length quotes]"

definition select_witnessed_quotes ::
  "nat \<Rightarrow> (key \<times> 'p::linorder) list \<Rightarrow> key \<Rightarrow> voters \<Rightarrow> nat \<Rightarrow> nat list option" where
  "select_witnessed_quotes cgs quotes address voters required =
     (let order = quote_order quotes address;
          max_count = min cgs (length quotes)
      in select_loop quotes order voters required
           (rev [SINGLE_NODE_MIN_QUOTE_COUNT..<max_count + 1]))"

definition order_put_peers :: "key \<Rightarrow> key list \<Rightarrow> voters \<Rightarrow> nat \<Rightarrow> key list option" where
  "order_put_peers paid_issuer peers voters required =
     (case map_of voters paid_issuer of
        None \<Rightarrow> None
      | Some supporters \<Rightarrow>
          (case partition (\<lambda>peer. peer \<in> set supporters) peers of
             (supporting, fallback) \<Rightarrow>
               if length supporting < required then None else Some (supporting @ fallback)))"

subsection \<open>The vote box: what a client of the votes may rely on\<close>

locale vote_box =
  fixes empty_box :: 'v
    and cast :: "'v \<Rightarrow> 'k \<Rightarrow> 'k \<Rightarrow> 'v"
    and box_voters :: "'v \<Rightarrow> 'k \<Rightarrow> 'k set"
    and box_ok :: "'v \<Rightarrow> bool"
  assumes ok_empty: "box_ok empty_box"
    and ok_cast: "box_ok v \<Longrightarrow> box_ok (cast v p r)"
    and voters_empty: "box_voters empty_box p = {}"
    and voters_cast: "box_ok v \<Longrightarrow>
          box_voters (cast v p r) q = (if q = p then insert r (box_voters v q) else box_voters v q)"
begin

lemma ok_fold_cast: "box_ok v \<Longrightarrow> box_ok (fold (\<lambda>p v. cast v p r) ps v)"
  by (induction ps arbitrary: v) (auto intro: ok_cast)

lemma voters_fold_cast:
  "box_ok v \<Longrightarrow> box_voters (fold (\<lambda>p v. cast v p r) ps v) q =
     (if q \<in> set ps then insert r (box_voters v q) else box_voters v q)"
  by (induction ps arbitrary: v) (auto simp: voters_cast ok_cast)

lemma tally_from:
  "box_ok v \<Longrightarrow>
     box_ok (fold (\<lambda>x v. fold (\<lambda>p v. cast v p (who x)) (listed x) v) xs v) \<and>
     box_voters (fold (\<lambda>x v. fold (\<lambda>p v. cast v p (who x)) (listed x) v) xs v) q =
       box_voters v q \<union> {who x | x. x \<in> set xs \<and> q \<in> set (listed x)}"
proof (induction xs arbitrary: v)
  case Nil
  then show ?case by simp
next
  case (Cons x xs)
  let ?v = "fold (\<lambda>p v. cast v p (who x)) (listed x) v"
  have "box_ok ?v" using Cons.prems by (rule ok_fold_cast)
  from Cons.IH [OF this] voters_fold_cast [OF Cons.prems, of "who x" "listed x" q]
  show ?case by auto
qed

lemma tally:
  "box_ok (fold (\<lambda>x v. fold (\<lambda>p v. cast v p (who x)) (listed x) v) xs empty_box)"
  "box_voters (fold (\<lambda>x v. fold (\<lambda>p v. cast v p (who x)) (listed x) v) xs empty_box) q =
     {who x | x. x \<in> set xs \<and> q \<in> set (listed x)}"
  using tally_from [OF ok_empty, of who listed xs q] by (simp_all add: voters_empty)

end

definition voters_of :: "voters \<Rightarrow> key \<Rightarrow> key set" where
  "voters_of voters peer = (case map_of voters peer of None \<Rightarrow> {} | Some vs \<Rightarrow> set vs)"

definition voters_ok :: "voters \<Rightarrow> bool" where
  "voters_ok voters \<longleftrightarrow> distinct (map fst voters) \<and>
     (\<forall>(_, vs) \<in> set voters. distinct vs \<and> vs \<noteq> [])"

lemma fst_vote: "fst ` set (vote v p r) = insert p (fst ` set v)"
  by (induction v p r rule: vote.induct) auto

lemma map_of_vote:
  "map_of (vote v p r) q =
     (if q = p then Some (case map_of v p of None \<Rightarrow> [r] | Some vs \<Rightarrow> List.insert r vs)
      else map_of v q)"
  by (induction v p r rule: vote.induct) auto

lemma distinct_vote: "distinct (map fst v) \<Longrightarrow> distinct (map fst (vote v p r))"
proof (induction v p r rule: vote.induct)
  case (2 p vs rest peer voter)
  then show ?case using fst_vote [of rest peer voter] by auto
qed simp

lemma set_vote_entries:
  "\<forall>(_, vs) \<in> set v. distinct vs \<and> vs \<noteq> [] \<Longrightarrow> \<forall>(_, vs) \<in> set (vote v p r). distinct vs \<and> vs \<noteq> []"
  by (induction v p r rule: vote.induct) (auto simp: List.insert_def)

lemma voters_ok_vote: "voters_ok v \<Longrightarrow> voters_ok (vote v p r)"
  using distinct_vote [of v p r] set_vote_entries [of v p r] by (simp add: voters_ok_def)

lemma voters_of_vote:
  "voters_of (vote v p r) q = (if q = p then insert r (voters_of v q) else voters_of v q)"
  by (simp add: voters_of_def map_of_vote split: option.split)

interpretation ballots: vote_box "[]" vote voters_of voters_ok
proof unfold_locales
  show "voters_ok []" by (simp add: voters_ok_def)
  show "voters_of [] p = {}" for p by (simp add: voters_of_def)
qed (simp_all add: voters_ok_vote voters_of_vote)

lemma witness_votes_ok: "voters_ok (witness_votes views)"
  unfolding witness_votes_def by (rule ballots.tally(1))

lemma voters_of_witness_votes:
  "voters_of (witness_votes views) peer =
     {responder view | view. view \<in> set views \<and> peer \<in> set (closest view)}"
  unfolding witness_votes_def by (rule ballots.tally(2))

lemma voters_ok_map_of:
  "voters_ok v \<Longrightarrow> map_of v p = Some vs \<Longrightarrow> distinct vs \<and> vs \<noteq> []"
  using map_of_SomeD [of v p vs] by (fastforce simp only: voters_ok_def split_beta snd_conv)

text \<open>
  A peer's vote count is the number of distinct responders whose view lists it, and a
  peer no view lists has no entry at all; repeated listings and repeated views add nothing.
\<close>

theorem witness_votes_count:
  "map_option length (map_of (witness_votes views) peer) =
     (let witnesses = {responder view | view. view \<in> set views \<and> peer \<in> set (closest view)}
      in if witnesses = {} then None else Some (card witnesses))"
proof (cases "map_of (witness_votes views) peer")
  case None
  then have "voters_of (witness_votes views) peer = {}" by (simp add: voters_of_def)
  then show ?thesis using None by (simp only: voters_of_witness_votes) simp
next
  case (Some vs)
  then have "voters_of (witness_votes views) peer = set vs" by (simp add: voters_of_def)
  moreover have "distinct vs" "vs \<noteq> []"
    using voters_ok_map_of [OF witness_votes_ok Some] by auto
  ultimately show ?thesis
    using Some by (simp add: voters_of_witness_votes [symmetric] distinct_card Let_def)
qed

subsection \<open>Distances\<close>

lemma length_distance [simp]: "length a = length t \<Longrightarrow> length (distance a t) = length t"
  by (simp add: distance_def)

lemma xor_word_cancel: "(a :: 'a::len word) XOR t = b XOR t \<Longrightarrow> a = b"
  by (metis xor.assoc xor.right_neutral xor_self_eq)

lemma distance_inject:
  assumes "distance a t = distance b t" and "length a = length t" and "length b = length t"
  shows "a = b"
  using assms
proof (induction t arbitrary: a b)
  case Nil
  then show ?case by simp
next
  case (Cons x t)
  then obtain y ys z zs where "a = y # ys" and "b = z # zs" by (cases a; cases b) auto
  with Cons show ?case by (auto simp: distance_def intro: xor_word_cancel)
qed

subsection \<open>Consensus peers\<close>

lemma consensus_key_inj:
  "inj_on (\<lambda>p. (distance p address, - int (length (the (map_of voters p))), p)) A"
  by (auto simp: inj_on_def)

lemma map_of_mset_cong:
  assumes "mset v = mset w" and "distinct (map fst v)"
  shows "map_of v = map_of w"
proof -
  have "distinct (map fst w)" using assms by (metis mset_eq_imp_distinct_iff mset_map)
  moreover have "set v = set w" using assms(1) by (rule mset_eq_setD)
  ultimately show ?thesis using assms(2) by (simp add: map_of_inject_set)
qed

text \<open>
  The consensus peers are exactly the peers with at least \<open>quorum\<close> votes, each once,
  nearest to the address first, and the list does not depend on the iteration order of the
  vote map.
\<close>

theorem consensus_peers_correct:
  assumes "distinct (map fst voters)" and "mset voters = mset shuffled"
  shows "consensus_peers shuffled address quorum = consensus_peers voters address quorum \<and>
    set (consensus_peers voters address quorum) =
      {p. \<exists>vs. map_of voters p = Some vs \<and> quorum \<le> length vs} \<and>
    distinct (consensus_peers voters address quorum) \<and>
    sorted (map (\<lambda>p. distance p address) (consensus_peers voters address quorum))"
proof (intro conjI)
  let ?sel = "\<lambda>v. map fst (filter (\<lambda>(_, votes). quorum \<le> length votes) v)"
  have "mset (?sel shuffled) = mset (?sel voters)"
    using assms(2) by (simp only: mset_map mset_filter)
  moreover have "map_of shuffled = map_of voters"
    using map_of_mset_cong [OF assms(2,1)] by simp
  ultimately show "consensus_peers shuffled address quorum = consensus_peers voters address quorum"
    by (simp only: consensus_peers_def) (rule sort_key_mset_cong [OF _ consensus_key_inj])
  show "set (consensus_peers voters address quorum) =
      {p. \<exists>vs. map_of voters p = Some vs \<and> quorum \<le> length vs}"
    using assms(1) by (force simp: consensus_peers_def dest: map_of_SomeD)
  have "distinct (?sel voters)" using assms(1) by (rule distinct_map_filter)
  then show "distinct (consensus_peers voters address quorum)"
    by (simp add: consensus_peers_def)
  have "sorted (map (\<lambda>p. (distance p address, - int (length (the (map_of voters p))), p))
      (consensus_peers voters address quorum))"
    by (simp add: consensus_peers_def)
  then show "sorted (map (\<lambda>p. distance p address) (consensus_peers voters address quorum))"
    by (rule sorted_map_weaken) (auto simp: less_eq_prod_def)
qed

theorem consensus_peers_correct_witness:
  "distinct (map fst [([1 :: u8], [[5 :: u8], [6]]), ([2], [[5]])]) \<and>
   consensus_peers [([2], [[5]]), ([1], [[5], [6]])] [0 :: u8] 2 =
     consensus_peers [([1], [[5], [6]]), ([2], [[5]])] [0] 2"
proof -
  have h: "distinct (map fst [([1 :: u8], [[5 :: u8], [6]]), ([2], [[5]])])" by simp
  have m: "mset [([1 :: u8], [[5 :: u8], [6]]), ([2], [[5]])] = mset [([2], [[5]]), ([1], [[5], [6]])]"
    by simp
  show ?thesis using h consensus_peers_correct [OF h m, of "[0]" 2] by blast
qed

subsection \<open>Subsets in visiting order\<close>

definition index_subsets :: "nat \<Rightarrow> nat \<Rightarrow> nat list set" where
  "index_subsets n k = {xs. sorted_wrt (<) xs \<and> length xs = k \<and> set xs \<subseteq> {..<n}}"

lemma increasing_tail:
  assumes "sorted_wrt (<) (i # ys)" and "set (i # ys) \<subseteq> {s..<n}"
  shows "set ys \<subseteq> {i + 1..<(n :: nat)}"
proof
  fix x
  assume "x \<in> set ys"
  then have "i < x" using assms(1) by simp
  moreover have "x < n" using assms(2) \<open>x \<in> set ys\<close> by (meson atLeastLessThan_iff list.set_intros(2) subsetD)
  ultimately show "x \<in> {i + 1..<n}" by simp
qed

lemma increasing_head_room:
  assumes "sorted_wrt (<) (i # ys)" and "set (i # ys) \<subseteq> {s..<n}"
  shows "i + length (i # ys) \<le> (n :: nat)"
proof -
  have "distinct ys" using assms(1) by (simp add: strict_sorted_iff)
  then have "length ys \<le> card {i + 1..<n}"
    using increasing_tail [OF assms] by (metis card_mono distinct_card finite_atLeastLessThan)
  moreover have "i < n" using assms(2) by simp
  ultimately show ?thesis by simp
qed

lemma set_visit_subsets:
  assumes "length current \<le> k" and "k - length current \<le> n"
  shows "set (visit_subsets n k start current) =
    {current @ ys | ys. sorted_wrt (<) ys \<and> length ys = k - length current \<and> set ys \<subseteq> {start..<n}}"
  using assms
proof (induction n k start current rule: visit_subsets.induct)
  case (1 n k start current)
  let ?r = "k - length current"
  show ?case
  proof (cases "length current = k")
    case True
    then show ?thesis by (auto simp: visit_subsets.simps)
  next
    case False
    with "1.prems" have r: "0 < ?r" "?r \<le> n" by auto
    have "set (visit_subsets n k start current) =
        (\<Union>i \<in> {start..<n - ?r + 1}. set (visit_subsets n k (i + 1) (current @ [i])))"
      using False "1.prems" by (subst visit_subsets.simps) (simp add: Let_def del: upt_Suc)
    also have "\<dots> = (\<Union>i \<in> {start..<n - ?r + 1}. {current @ i # ys | ys.
        sorted_wrt (<) ys \<and> length ys = ?r - 1 \<and> set ys \<subseteq> {i + 1..<n}})"
    proof (rule SUP_cong [OF refl])
      fix i
      assume "i \<in> {start..<n - ?r + 1}"
      then have "i \<in> set [start..<n - ?r + 1]" by (simp del: upt_Suc)
      from "1.IH" [OF False _ refl this] False "1.prems"
      show "set (visit_subsets n k (i + 1) (current @ [i])) = {current @ i # ys | ys.
        sorted_wrt (<) ys \<and> length ys = ?r - 1 \<and> set ys \<subseteq> {i + 1..<n}}" by simp
    qed
    also have "\<dots> = {current @ ys | ys. sorted_wrt (<) ys \<and> length ys = ?r \<and> set ys \<subseteq> {start..<n}}"
      (is "?L = ?R")
    proof (intro equalityI subsetI)
      fix xs
      assume "xs \<in> ?L"
      then obtain i ys where xs: "xs = current @ i # ys" "i \<in> {start..<n - ?r + 1}"
        "sorted_wrt (<) ys" "length ys = ?r - 1" "set ys \<subseteq> {i + 1..<n}" by auto
      then have "sorted_wrt (<) (i # ys) \<and> length (i # ys) = ?r \<and> set (i # ys) \<subseteq> {start..<n}"
        using r by auto
      with xs(1) show "xs \<in> ?R" by blast
    next
      fix xs
      assume "xs \<in> ?R"
      then obtain zs where zs: "xs = current @ zs" "sorted_wrt (<) zs" "length zs = ?r"
        "set zs \<subseteq> {start..<n}" by blast
      with r obtain i ys where iy: "zs = i # ys" by (cases zs) auto
      have "i + length (i # ys) \<le> n"
        by (rule increasing_head_room) (use zs iy in auto)
      then have "i \<in> {start..<n - ?r + 1}" using zs iy by auto
      moreover have "sorted_wrt (<) ys \<and> length ys = ?r - 1 \<and> set ys \<subseteq> {i + 1..<n}"
        using zs iy increasing_tail [of i ys start n] by simp
      ultimately show "xs \<in> ?L" using zs(1) iy by blast
    qed
    finally show ?thesis .
  qed
qed

lemma set_visit_all_subsets:
  "k \<le> n \<Longrightarrow> set (visit_subsets n k 0 []) = index_subsets n k"
  by (subst set_visit_subsets) (auto simp: index_subsets_def atLeast0LessThan)

subsection \<open>Selection\<close>

text \<open>
  The specification of the selection: a subset is \<open>payable\<close> when the issuer of its paid
  median has at least \<open>required\<close> votes; of the payable subsets of one size the best has
  the most votes behind its median, and the lexicographically smallest indices on a tie.
\<close>

definition payable :: "(nat list \<Rightarrow> nat option) \<Rightarrow> nat \<Rightarrow> nat list \<Rightarrow> bool" where
  "payable spt required xs \<longleftrightarrow> (\<exists>t. spt xs = Some t \<and> required \<le> t)"

definition best_payable :: "(nat list \<Rightarrow> nat option) \<Rightarrow> nat \<Rightarrow> nat list set \<Rightarrow> nat list \<Rightarrow> bool" where
  "best_payable spt required S xs \<longleftrightarrow> xs \<in> S \<and> payable spt required xs \<and>
     (\<forall>ys \<in> S. payable spt required ys \<longrightarrow>
        the (spt ys) < the (spt xs) \<or> (the (spt ys) = the (spt xs) \<and> xs \<le> ys))"

lemma visit_quotes_best:
  assumes "spt = subset_support quotes order voters"
  shows "(case fold (visit_quotes quotes order voters required) xss None of
      None \<Rightarrow> \<forall>xs \<in> set xss. \<not> payable spt required xs
    | Some (t, xs) \<Rightarrow> spt xs = Some t \<and> best_payable spt required (set xss) xs)"
proof (induction xss rule: rev_induct)
  case Nil
  then show ?case by simp
next
  case (snoc ys xss)
  let ?b = "fold (visit_quotes quotes order voters required) xss None"
  show ?case
  proof (cases "payable spt required ys")
    case False
    then have "visit_quotes quotes order voters required ys ?b = ?b"
      by (auto simp: visit_quotes_def payable_def assms split: option.split)
    with snoc False show ?thesis
      by (auto simp: best_payable_def split: option.splits)
  next
    case True
    then obtain t where t: "spt ys = Some t" "required \<le> t" by (auto simp: payable_def)
    then have v: "visit_quotes quotes order voters required ys ?b =
        (case ?b of None \<Rightarrow> Some (t, ys)
         | Some (bs, prev) \<Rightarrow> if t < bs then ?b else if bs = t \<and> prev \<le> ys then ?b else Some (t, ys))"
      by (simp add: visit_quotes_def assms)
    show ?thesis
    proof (cases ?b)
      case None
      with snoc True t v show ?thesis by (auto simp: best_payable_def)
    next
      case (Some b)
      obtain bs prev where b: "b = (bs, prev)" by (cases b)
      from snoc Some b have prev: "spt prev = Some bs" "best_payable spt required (set xss) prev"
        by auto
      show ?thesis
      proof (cases "t < bs \<or> (bs = t \<and> prev \<le> ys)")
        case True
        then have "visit_quotes quotes order voters required ys ?b = Some (bs, prev)"
          using v Some b by auto
        moreover have "best_payable spt required (set (xss @ [ys])) prev"
          using prev t True by (auto simp: best_payable_def)
        ultimately show ?thesis using prev by simp
      next
        case False
        then have "visit_quotes quotes order voters required ys ?b = Some (t, ys)"
          using v Some b by auto
        moreover have "best_payable spt required (set (xss @ [ys])) ys"
          using prev t False \<open>payable spt required ys\<close> unfolding best_payable_def
          by (auto dest!: bspec)
        ultimately show ?thesis using t by simp
      qed
    qed
  qed
qed

lemma select_loop_spec:
  assumes "spt = subset_support quotes order voters" and "\<forall>k \<in> set sizes. k \<le> length quotes"
    and "sorted_wrt (>) sizes"
  shows "case select_loop quotes order voters required sizes of
      None \<Rightarrow> \<forall>k \<in> set sizes. \<forall>xs \<in> index_subsets (length quotes) k. \<not> payable spt required xs
    | Some sel \<Rightarrow> \<exists>k \<in> set sizes. \<exists>xs. sel = map (\<lambda>index. order ! index) xs \<and>
        best_payable spt required (index_subsets (length quotes) k) xs \<and>
        (\<forall>k' \<in> set sizes. k < k' \<longrightarrow> (\<forall>ys \<in> index_subsets (length quotes) k'. \<not> payable spt required ys))"
  using assms(2,3)
proof (induction sizes)
  case Nil
  then show ?case by simp
next
  case (Cons k sizes)
  let ?b = "fold (visit_quotes quotes order voters required)
      (visit_subsets (length quotes) k 0 []) None"
  have visited: "set (visit_subsets (length quotes) k 0 []) = index_subsets (length quotes) k"
    using Cons.prems by (simp add: set_visit_all_subsets)
  note best = visit_quotes_best [OF assms(1), where required = required and
      xss = "visit_subsets (length quotes) k 0 []", unfolded visited]
  show ?case
  proof (cases ?b)
    case None
    then have none: "\<forall>xs \<in> index_subsets (length quotes) k. \<not> payable spt required xs"
      using best by simp
    have "k' < k" if "k' \<in> set sizes" for k' using Cons.prems that by simp
    with Cons None none show ?thesis by (auto split: option.splits)
  next
    case (Some b)
    obtain t xs where b: "b = (t, xs)" by (cases b)
    with Some best have "best_payable spt required (index_subsets (length quotes) k) xs" by simp
    moreover have "\<forall>k' \<in> set sizes. \<not> k < k'" using Cons.prems by auto
    ultimately show ?thesis using Some b by auto
  qed
qed

lemma select_sizes:
  "\<forall>k \<in> set (rev [SINGLE_NODE_MIN_QUOTE_COUNT..<min cgs n + 1]). k \<le> n"
  "sorted_wrt (>) (rev [SINGLE_NODE_MIN_QUOTE_COUNT..<min cgs n + 1])"
  "set (rev [SINGLE_NODE_MIN_QUOTE_COUNT..<min cgs n + 1]) = {1..min cgs n}"
  by (auto simp: sorted_wrt_rev SINGLE_NODE_MIN_QUOTE_COUNT_def simp del: upt_Suc)

lemma select_witnessed_quotes_cases:
  defines "spt \<equiv> \<lambda>quotes address voters. subset_support quotes (quote_order quotes address) voters"
  shows "case select_witnessed_quotes cgs quotes address voters required of
      None \<Rightarrow> \<forall>k. 1 \<le> k \<and> k \<le> min cgs (length quotes) \<longrightarrow>
        (\<forall>xs \<in> index_subsets (length quotes) k. \<not> payable (spt quotes address voters) required xs)
    | Some sel \<Rightarrow> \<exists>k xs. 1 \<le> k \<and> k \<le> min cgs (length quotes) \<and>
        sel = map (\<lambda>index. quote_order quotes address ! index) xs \<and>
        best_payable (spt quotes address voters) required (index_subsets (length quotes) k) xs \<and>
        (\<forall>k'. k < k' \<and> k' \<le> min cgs (length quotes) \<longrightarrow>
           (\<forall>ys \<in> index_subsets (length quotes) k'. \<not> payable (spt quotes address voters) required ys))"
proof -
  let ?sizes = "rev [SINGLE_NODE_MIN_QUOTE_COUNT..<min cgs (length quotes) + 1]"
  have eq: "select_witnessed_quotes cgs quotes address voters required =
      select_loop quotes (quote_order quotes address) voters required ?sizes"
    by (simp add: select_witnessed_quotes_def Let_def)
  note spec = select_loop_spec [where quotes = quotes and order = "quote_order quotes address"
      and voters = voters and required = required and sizes = ?sizes, OF refl select_sizes(1,2),
      unfolded select_sizes(3), folded eq]
  show ?thesis
  proof (cases "select_witnessed_quotes cgs quotes address voters required")
    case None
    with spec show ?thesis by (auto simp: spt_def)
  next
    case (Some sel)
    with spec obtain k xs where "k \<in> {1..min cgs (length quotes)}"
      "sel = map (\<lambda>index. quote_order quotes address ! index) xs"
      "best_payable (spt quotes address voters) required (index_subsets (length quotes) k) xs"
      "\<forall>k' \<in> {1..min cgs (length quotes)}. k < k' \<longrightarrow> (\<forall>ys \<in> index_subsets (length quotes) k'.
         \<not> payable (spt quotes address voters) required ys)"
      unfolding spt_def by auto
    with Some show ?thesis by (auto intro!: exI [of _ k] exI [of _ xs])
  qed
qed

text \<open>
  C14: a selection is a subset of the quotes, taken in XOR order, whose paid median has at
  least the required number of witnesses; no larger subset (up to the close-group size) is
  payable, and no payable subset of the same size has a better supported median, or an
  equally supported one and a smaller index list. There is no selection exactly when no
  subset of one to close-group-size quotes is payable.
\<close>

theorem select_witnessed_quotes_optimal:
  "case select_witnessed_quotes cgs quotes address voters required of
      None \<Rightarrow> \<forall>k. 1 \<le> k \<and> k \<le> min cgs (length quotes) \<longrightarrow>
        (\<forall>xs \<in> index_subsets (length quotes) k.
           \<not> payable (subset_support quotes (quote_order quotes address) voters) required xs)
    | Some sel \<Rightarrow> \<exists>k xs. 1 \<le> k \<and> k \<le> min cgs (length quotes) \<and>
        sel = map (\<lambda>index. quote_order quotes address ! index) xs \<and>
        best_payable (subset_support quotes (quote_order quotes address) voters) required
          (index_subsets (length quotes) k) xs \<and>
        (\<forall>k'. k < k' \<and> k' \<le> min cgs (length quotes) \<longrightarrow>
           (\<forall>ys \<in> index_subsets (length quotes) k'.
              \<not> payable (subset_support quotes (quote_order quotes address) voters) required ys))"
  by (rule select_witnessed_quotes_cases)

theorem select_witnessed_quotes_optimal_witness:
  "select_witnessed_quotes 7 [([1 :: u8], 1 :: u64), ([2], 2), ([3], 3)] [0]
       [([1], [[7], [8]]), ([2], [[7], [8]])] 2 = Some [0, 1, 2] \<and>
   (\<exists>k xs. 1 \<le> k \<and> k \<le> 3 \<and> best_payable
      (subset_support [([1 :: u8], 1 :: u64), ([2], 2), ([3], 3)]
        (quote_order [([1 :: u8], 1 :: u64), ([2], 2), ([3], 3)] [0])
        [([1], [[7], [8]]), ([2], [[7], [8]])]) 2 (index_subsets 3 k) xs)"
proof -
  have h: "select_witnessed_quotes 7 [([1 :: u8], 1 :: u64), ([2], 2), ([3], 3)] [0]
       [([1], [[7], [8]]), ([2], [[7], [8]])] 2 = Some [0, 1, 2]" by code_simp
  from select_witnessed_quotes_optimal [of 7 "[([1 :: u8], 1 :: u64), ([2], 2), ([3], 3)]" "[0]"
      "[([1], [[7], [8]]), ([2], [[7], [8]])]" 2, unfolded h] obtain k xs where
    "1 \<le> k" "k \<le> min 7 (length [([1 :: u8], 1 :: u64), ([2], 2), ([3], 3)])"
    "best_payable (subset_support [([1 :: u8], 1 :: u64), ([2], 2), ([3], 3)]
        (quote_order [([1 :: u8], 1 :: u64), ([2], 2), ([3], 3)] [0])
        [([1], [[7], [8]]), ([2], [[7], [8]])]) 2
        (index_subsets (length [([1 :: u8], 1 :: u64), ([2], 2), ([3], 3)]) k) xs" by auto
  then show ?thesis using h
    by (intro conjI exI [of _ k] exI [of _ xs]) (simp_all add: numeral_3_eq_3)
qed

lemma mset_quote_order: "mset (quote_order quotes address) = mset [0..<length quotes]"
  by (simp add: quote_order_def)

lemma quote_order_indices:
  "distinct (quote_order quotes address)" "set (quote_order quotes address) = {..<length quotes}"
  "length (quote_order quotes address) = length quotes"
  by (auto simp: quote_order_def)

lemma subset_support_SomeD:
  assumes "subset_support quotes order voters xs = Some t"
  obtains m vs where "median_quote_index (map (\<lambda>i. snd (quotes ! (order ! i))) xs) = Some m"
    and "m < length xs" and "map_of voters (fst (quotes ! (order ! (xs ! m)))) = Some vs"
    and "t = length vs"
  using assms median_quote_index_in_range [of "map (\<lambda>i. snd (quotes ! (order ! i))) xs"]
  by (force simp: subset_support_def split: option.splits)

lemma index_subset_selects:
  assumes "xs \<in> index_subsets (length quotes) k"
  shows "distinct (map (\<lambda>i. quote_order quotes address ! i) xs)"
    and "set (map (\<lambda>i. quote_order quotes address ! i) xs) \<subseteq> {..<length quotes}"
proof -
  have xs: "distinct xs" "set xs \<subseteq> {..<length (quote_order quotes address)}"
    using assms by (simp_all add: index_subsets_def strict_sorted_iff quote_order_indices)
  then have "inj_on (\<lambda>i. quote_order quotes address ! i) (set xs)"
    using quote_order_indices(1) [of quotes address]
    by (auto simp: inj_on_def nth_eq_iff_index_eq subset_eq)
  with xs(1) show "distinct (map (\<lambda>i. quote_order quotes address ! i) xs)"
    by (simp add: distinct_map)
  have "quote_order quotes address ! i \<in> set (quote_order quotes address)" if "i \<in> set xs" for i
    using xs(2) that by (auto intro: nth_mem)
  then show "set (map (\<lambda>i. quote_order quotes address ! i) xs) \<subseteq> {..<length quotes}"
    by (auto simp: quote_order_indices)
qed

text \<open>
  C13: selection and payment compose: whatever selection the policy makes, the payment plan
  over the selected quotes pays an issuer that at least \<open>required\<close> responders witnessed,
  and the selected quotes are distinct positions of the quotes offered.
\<close>

theorem selected_payment_is_witnessed:
  fixes quotes :: "(key \<times> 'l::len word) list"
  assumes "select_witnessed_quotes cgs quotes address voters required = Some sel"
    and "from_prices cgs (map (\<lambda>i. snd (quotes ! i)) sel) = Inr plan"
  shows "distinct sel \<and> set sel \<subseteq> {..<length quotes} \<and> 1 \<le> length sel \<and> length sel \<le> cgs \<and>
    (\<exists>vs. map_of voters (fst (quotes ! (sel ! quote_index (paid_quote plan)))) = Some vs \<and>
          required \<le> length vs)"
proof -
  let ?o = "quote_order quotes address"
  from select_witnessed_quotes_cases [of cgs quotes address voters required, unfolded assms(1)]
  obtain k xs where
    k: "1 \<le> k" "k \<le> min cgs (length quotes)" and sel: "sel = map (\<lambda>i. ?o ! i) xs" and
    best: "best_payable (subset_support quotes ?o voters) required (index_subsets (length quotes) k) xs"
    by auto
  from best have xs: "xs \<in> index_subsets (length quotes) k"
    and "payable (subset_support quotes ?o voters) required xs"
    by (simp_all add: best_payable_def)
  then obtain t where t: "subset_support quotes ?o voters xs = Some t" "required \<le> t"
    by (auto simp: payable_def)
  from t(1) obtain m vs where
    m: "median_quote_index (map (\<lambda>i. snd (quotes ! (?o ! i))) xs) = Some m" "m < length xs" and
    vs: "map_of voters (fst (quotes ! (?o ! (xs ! m)))) = Some vs" "t = length vs"
    by (rule subset_support_SomeD)
  have "map (\<lambda>i. snd (quotes ! i)) sel = map (\<lambda>i. snd (quotes ! (?o ! i))) xs"
    by (simp add: sel comp_def)
  moreover have "median_quote_index (map (\<lambda>i. snd (quotes ! i)) sel) =
      Some (quote_index (paid_quote plan))"
    by (rule paid_quote_is_median [OF assms(2)])
  ultimately have "quote_index (paid_quote plan) = m" using m(1) by simp
  then have "fst (quotes ! (sel ! quote_index (paid_quote plan))) = fst (quotes ! (?o ! (xs ! m)))"
    using m(2) by (simp add: sel)
  with vs t(2) k xs index_subset_selects [OF xs, of address] show ?thesis
    by (auto simp: sel index_subsets_def)
qed

theorem selected_payment_is_witnessed_witness:
  "\<exists>plan. select_witnessed_quotes 7 [([1 :: u8], 1 :: 128 word), ([2], 2), ([3], 3)] [0]
       [([1], [[7], [8]]), ([2], [[7], [8]])] 2 = Some [0, 1, 2] \<and>
     from_prices 7 [1 :: 128 word, 2, 3] = Inr plan \<and>
     (\<exists>vs. map_of [([1 :: u8], [[7 :: u8], [8]]), ([2], [[7], [8]])]
        (fst ([([1 :: u8], 1 :: 128 word), ([2], 2), ([3], 3)] !
                ([0, 1, 2] ! quote_index (paid_quote plan)))) = Some vs \<and> 2 \<le> length vs)"
proof -
  let ?q = "[([1 :: u8], 1 :: 128 word), ([2], 2), ([3], 3)]"
  have h: "select_witnessed_quotes 7 ?q [0] [([1], [[7], [8]]), ([2], [[7], [8]])] 2 =
      Some [0, 1, 2]" by code_simp
  have "median_quote_index [1 :: 128 word, 2, 3] = Some 1"
    by (simp add: median_quote_index_def rank_quotes_def upt_rec)
  then obtain plan where "from_prices 7 [1 :: 128 word, 2, 3] = Inr plan"
    by (simp add: from_prices_unfold enhanced_payment_amount_def checked_mul_multiplier_def
        unat_multiplier)
  moreover from this have "from_prices 7 (map (\<lambda>i. snd (?q ! i)) [0, 1, 2]) = Inr plan"
    by (simp add: numeral_2_eq_2)
  ultimately show ?thesis using h selected_payment_is_witnessed [OF h] by blast
qed

subsection \<open>Storage votes, PUT order and discovery\<close>

lemma length_filter_set:
  assumes "distinct xs"
  shows "length (filter P xs) = card {x \<in> set xs. P x}"
  using assms by (metis distinct_card distinct_filter set_filter)

text \<open>
  For distinct responders, the chunk counts as already stored exactly when at least
  \<open>cgm\<close> of the holders are among the \<open>cgs\<close> responders nearest the address; a holder
  farther away never counts.
\<close>

theorem already_stored_iff:
  assumes "distinct (payable_peers @ holders)"
    and "\<forall>p \<in> set (payable_peers @ holders). length p = length address"
  shows "already_stored cgs cgm payable_peers holders address \<longleftrightarrow>
    cgm \<le> card {h \<in> set holders. card {p \<in> set (payable_peers @ holders).
                   distance p address < distance h address} < cgs}"
proof -
  define d where "d = (\<lambda>p. distance p address)"
  define A where "A = set (payable_peers @ holders)"
  define tag where "tag = (\<lambda>p. (p \<in> set holders, d p))"
  let ?L = "map (\<lambda>p. (False, d p)) payable_peers @ map (\<lambda>p. (True, d p)) holders"
  have inj: "inj_on d A"
    using assms(2) by (auto simp: inj_on_def d_def A_def intro: distance_inject)
  then have inj_tag: "inj_on tag A" by (auto simp: inj_on_def tag_def)
  have sub: "set holders \<subseteq> A" by (simp add: A_def)
  have L: "?L = map tag (payable_peers @ holders)" using assms(1) by (auto simp: tag_def)
  have dist: "distinct (sort_key snd ?L)"
    using assms(1) inj_tag by (simp only: L distinct_sort distinct_map A_def)
  have set_L: "set (sort_key snd ?L) = tag ` A" by (simp only: set_sort L set_map A_def)
  have "map snd ?L = map d (payable_peers @ holders)" by simp
  then have "distinct (map snd ?L)" using assms(1) inj by (simp only: distinct_map A_def)
  then have srt: "sorted_wrt (\<lambda>x y. snd x < snd y) (sort_key snd ?L)" by (rule sort_key_strict)
  have rank: "card {y \<in> tag ` A. snd y < d h} = card {p \<in> A. d p < d h}" for h
  proof -
    have "{y \<in> tag ` A. snd y < d h} = tag ` {p \<in> A. d p < d h}" by (auto simp: tag_def)
    moreover have "inj_on tag {p \<in> A. d p < d h}" by (rule inj_on_subset [OF inj_tag]) blast
    ultimately show ?thesis by (simp only: card_image)
  qed
  have "length (filter fst (take cgs (sort_key snd ?L))) =
      card {x \<in> set (take cgs (sort_key snd ?L)). fst x}"
    by (rule length_filter_set) (use dist in simp)
  also have "set (take cgs (sort_key snd ?L)) =
      {x \<in> tag ` A. card {y \<in> tag ` A. snd y < snd x} < cgs}"
    using set_take_rank [OF srt _ dist, of cgs, unfolded set_L] by (simp add: order_less_not_sym)
  also have "{x \<in> {x \<in> tag ` A. card {y \<in> tag ` A. snd y < snd x} < cgs}. fst x} =
      tag ` {h \<in> set holders. card {p \<in> A. d p < d h} < cgs}"
    using sub by (auto simp: tag_def rank [unfolded tag_def])
  also have "card \<dots> = card {h \<in> set holders. card {p \<in> A. d p < d h} < cgs}"
    by (rule card_image, rule inj_on_subset [OF inj_tag]) (use sub in blast)
  finally show ?thesis by (simp add: already_stored_def Let_def d_def A_def)
qed

theorem already_stored_iff_witness:
  "distinct ([[5 :: u8], [6]] @ [[1], [2], [9]]) \<and>
   already_stored 3 2 [[5 :: u8], [6]] [[1], [2], [9]] [0] =
     (2 \<le> card {h \<in> set [[1 :: u8], [2], [9]].
        card {p \<in> set ([[5], [6]] @ [[1], [2], [9]]). distance p [0] < distance h [0]} < 3})"
proof -
  have h: "distinct ([[5 :: u8], [6]] @ [[1], [2], [9]])"
    "\<forall>p \<in> set ([[5 :: u8], [6]] @ [[1], [2], [9]]). length p = length [0 :: u8]"
    by simp_all
  show ?thesis using h(1) already_stored_iff [OF h, of 3 2] by blast
qed

text \<open>
  The PUT order is a rearrangement of the peers in which the peers that witnessed the
  paid issuer come first, at least \<open>required\<close> of them, and both groups keep their order;
  there is none exactly when the issuer has no votes or too few witnesses are among the peers.
\<close>

theorem order_put_peers_correct:
  "order_put_peers issuer peers voters required =
     (if map_of voters issuer = None \<or>
         length (filter (\<lambda>p. p \<in> voters_of voters issuer) peers) < required then None
      else Some (filter (\<lambda>p. p \<in> voters_of voters issuer) peers @
                 filter (\<lambda>p. p \<notin> voters_of voters issuer) peers))"
  by (auto simp: order_put_peers_def voters_of_def comp_def split: option.split)

lemma validate_width_Inr: "validate_width c i r w = Inr r' \<longleftrightarrow> r' = r \<and> w \<le> c r"
  by (auto simp: validate_width_def Let_def)

text \<open>
  Discovery succeeds only with the full width it asked for: twenty peers from one
  lookup, or a close group from the second lookup when the first failed or fell short; and
  a wide enough first lookup makes no second one.
\<close>

theorem discover_put_peers_width:
  assumes "discover_put_peers cgs discover count_of insufficient s = (Inr found, s')"
  shows "(discover s 20 = (Inr found, s') \<and> 20 \<le> count_of found) \<or>
    (\<exists>r s1. discover s 20 = (r, s1) \<and> (\<forall>x. r = Inr x \<longrightarrow> count_of x < 20) \<and>
       discover s1 cgs = (Inr found, s') \<and> cgs \<le> count_of found)"
  using assms
  by (auto simp: discover_put_peers_def PUT_TARGET_WIDTH_def results validate_width_def Let_def
      split: prod.splits sum.splits if_splits)

theorem discover_put_peers_width_witness:
  "discover_put_peers 7 (\<lambda>(s :: nat) w. (if w = 20 then Inl ''lookup failed'' else Inr (8 :: nat), s + 1))
     (\<lambda>n. n) (\<lambda>_ _. ''short'') 0 = (Inr 8, 2) \<and> 7 \<le> (8 :: nat)"
proof -
  let ?d = "\<lambda>(s :: nat) w. (if w = 20 then Inl ''lookup failed'' else Inr (8 :: nat), s + 1)"
  have h: "discover_put_peers 7 ?d (\<lambda>n. n) (\<lambda>_ _. ''short'') 0 = (Inr 8, 2)"
    by (simp add: discover_put_peers_def PUT_TARGET_WIDTH_def validate_width_def)
  show ?thesis using h discover_put_peers_width [OF h] by auto
qed

end
