(* ===== verification/Data_Error.thy ===== *)
theory Data_Error
  imports Prelude
begin

text \<open>
  The error type of the data operations (\<^verbatim>\<open>ant-core/src/data/error.rs\<close>), the
  transfer failure policy (\<^verbatim>\<open>ant-core/src/transfer_policy.rs\<close>) and the
  classification of errors as capacity signals
  (\<^verbatim>\<open>classify_error\<close> of \<^verbatim>\<open>ant-core/src/data/client/mod.rs\<close>). Every
  variant of the source is a constructor; the human-readable texts the variants carry are
  not modelled, the structured payloads are.
\<close>

datatype error =
    Network
  | Storage
  | Payment
  | InsufficientFunds "256 word" "256 word"
  | Protocol
  | RemotePut
  | CloseGroupShortfall
  | InvalidData
  | NotFound
  | Serialization
  | Crypto
  | Io
  | Config
  | Timeout
  | InsufficientPeers
  | ClientUpdateRequired
  | StorerUpdateRequired
  | SignatureVerification
  | Encryption
  | Cancelled
  | AlreadyStored
  | BadQuoteBinding
  | BadQuoteCommitment
  | InsufficientDiskSpace
  | MerkleBatchTooLarge nat nat
  | PointerFinal
  | PointerForked
  | CostEstimationInconclusive
  | PartialUpload "key list" nat "key list" nat nat "256 word \<times> nat" "error option"

datatype outcome = Outcome_Success | Outcome_Timeout | Outcome_NetworkError | Outcome_ApplicationError

datatype failure_kind = Failure_Timeout | Failure_Network | Failure_Application

fun failure_outcome :: "failure_kind \<Rightarrow> outcome" where
  "failure_outcome Failure_Timeout = Outcome_Timeout"
| "failure_outcome Failure_Network = Outcome_NetworkError"
| "failure_outcome Failure_Application = Outcome_ApplicationError"

datatype put_rejection =
  Rejected_Full | Rejected_PriceFloor | Rejected_OtherRemote | Rejected_Timeout | Rejected_Dial

datatype put_shortfall_kind = ResponseTimeout | RemoteRejection | PeerChurn

definition put_shortfall :: "nat \<Rightarrow> nat \<Rightarrow> bool \<Rightarrow> put_shortfall_kind" where
  "put_shortfall timeouts dials has_remote_rejection =
     (if 0 < timeouts then ResponseTimeout
      else if dials = 0 \<and> has_remote_rejection then RemoteRejection
      else PeerChurn)"

fun shortfall_failure_kind :: "put_shortfall_kind \<Rightarrow> failure_kind" where
  "shortfall_failure_kind ResponseTimeout = Failure_Network"
| "shortfall_failure_kind RemoteRejection = Failure_Application"
| "shortfall_failure_kind PeerChurn = Failure_Application"

datatype rpc_error = Rpc_Transport | Rpc_Timeout | Rpc_Remote

fun rpc_put_rejection :: "rpc_error \<Rightarrow> put_rejection" where
  "rpc_put_rejection Rpc_Timeout = Rejected_Timeout"
| "rpc_put_rejection Rpc_Transport = Rejected_Dial"
| "rpc_put_rejection Rpc_Remote = Rejected_OtherRemote"

fun error_failure_kind :: "error \<Rightarrow> failure_kind" where
  "error_failure_kind Timeout = Failure_Timeout"
| "error_failure_kind Network = Failure_Network"
| "error_failure_kind InsufficientPeers = Failure_Network"
| "error_failure_kind Io = Failure_Network"
| "error_failure_kind Protocol = Failure_Network"
| "error_failure_kind Storage = Failure_Network"
| "error_failure_kind (PartialUpload _ _ _ _ _ _ _) = Failure_Network"
| "error_failure_kind AlreadyStored = Failure_Application"
| "error_failure_kind Encryption = Failure_Application"
| "error_failure_kind Crypto = Failure_Application"
| "error_failure_kind Payment = Failure_Application"
| "error_failure_kind (InsufficientFunds _ _) = Failure_Application"
| "error_failure_kind Serialization = Failure_Application"
| "error_failure_kind InvalidData = Failure_Application"
| "error_failure_kind NotFound = Failure_Application"
| "error_failure_kind SignatureVerification = Failure_Application"
| "error_failure_kind Config = Failure_Application"
| "error_failure_kind InsufficientDiskSpace = Failure_Application"
| "error_failure_kind CostEstimationInconclusive = Failure_Application"
| "error_failure_kind Cancelled = Failure_Application"
| "error_failure_kind ClientUpdateRequired = Failure_Application"
| "error_failure_kind StorerUpdateRequired = Failure_Application"
| "error_failure_kind PointerFinal = Failure_Application"
| "error_failure_kind PointerForked = Failure_Application"
| "error_failure_kind BadQuoteBinding = Failure_Application"
| "error_failure_kind BadQuoteCommitment = Failure_Application"
| "error_failure_kind (MerkleBatchTooLarge _ _) = Failure_Application"
| "error_failure_kind RemotePut = Failure_Application"
| "error_failure_kind CloseGroupShortfall = Failure_Application"

definition classify_error :: "error \<Rightarrow> outcome" where
  "classify_error e = failure_outcome (error_failure_kind e)"

text \<open>Classification never reports a success, so every error is either a capacity signal or neutral.\<close>

lemma classify_error_not_success: "classify_error e \<noteq> Outcome_Success"
  by (cases "error_failure_kind e") (simp_all add: classify_error_def)

end
