(* ===== verification/Pointer.thy ===== *)
theory Pointer
  imports Data_Error
begin

text \<open>
  The pointer read and write policy of \<^verbatim>\<open>ant-core/src/data/client/pointer.rs\<close>:
  quorums, the tally of the states a close group names, what settles a read, finality, the
  verdict on a write and on each reply. The signed record itself (\<^verbatim>\<open>Pointer\<close>,
  \<^verbatim>\<open>PointerTarget\<close>) belongs to the \<^verbatim>\<open>ant_protocol\<close> crate: the record
  \<open>pointer_api\<close> holds the operations the client calls on it, and \<open>merge_rule\<close> the
  documented law of its merge order that the reads rely on. A group's answers are a list in
  the order in which they complete, which is arbitrary.
\<close>

record pointer_target =
  kind_tag :: u8
  target_address :: key

datatype target_kind = PointerKind | ChunkKind

record 'p pointer_api =
  p_state_id :: "'p \<Rightarrow> key"
  p_replaces :: "'p \<Rightarrow> 'p \<Rightarrow> bool"
  p_is_terminal :: "'p \<Rightarrow> bool"
  p_counter :: "'p \<Rightarrow> u64"
  p_target :: "'p \<Rightarrow> pointer_target"
  p_address :: "'p \<Rightarrow> key"
  p_from_bytes :: "bytes \<Rightarrow> 'p option"
  p_kind :: "pointer_target \<Rightarrow> target_kind option"
  p_from_tag :: "u8 \<Rightarrow> target_kind option"

definition read_quorum :: "nat \<Rightarrow> nat" where
  "read_quorum peers = peers div 2 + 1"

definition write_quorum :: "nat \<Rightarrow> nat" where
  "write_quorum peers = min (read_quorum peers + 1) peers"

definition corroboration :: "nat \<Rightarrow> nat" where
  "corroboration peers = min peers 2"

definition quorum_width :: "nat \<Rightarrow> nat \<Rightarrow> nat" where
  "quorum_width found close_group_size = max found close_group_size"

subsection \<open>Asking the group\<close>

record answered =
  ans_count :: nat
  ans_last_error :: "error option"
  ans_refusal :: "error option"
  ans_refusals :: nat

definition no_answers :: answered where
  "no_answers = \<lparr>ans_count = 0, ans_last_error = None, ans_refusal = None, ans_refusals = 0\<rparr>"

definition answered_failure :: "answered \<Rightarrow> error option" where
  "answered_failure a = (case ans_refusal a of Some e \<Rightarrow> Some e | None \<Rightarrow> ans_last_error a)"

definition worth_retrying :: "error \<Rightarrow> bool" where
  "worth_retrying e \<longleftrightarrow>
     (case e of CloseGroupShortfall \<Rightarrow> True | Network \<Rightarrow> True | Timeout \<Rightarrow> True
      | InsufficientPeers \<Rightarrow> True | RemotePut \<Rightarrow> True | _ \<Rightarrow> False)"

definition note_failure :: "error \<Rightarrow> answered \<Rightarrow> answered" where
  "note_failure e a =
     (if \<not> worth_retrying e then
        (if ans_refusal a = None
         then a\<lparr>ans_refusals := ans_refusals a + 1, ans_refusal := Some e\<rparr>
         else a\<lparr>ans_refusals := ans_refusals a + 1, ans_last_error := Some e\<rparr>)
      else a\<lparr>ans_last_error := Some e\<rparr>)"

fun ask_the_group ::
  "nat \<Rightarrow> ('k \<Rightarrow> 'a \<Rightarrow> bool \<times> 'k) \<Rightarrow> (error, 'a) result list \<Rightarrow> answered \<Rightarrow> 'k \<Rightarrow> answered \<times> 'k" where
  "ask_the_group wanted keep [] a k = (a, k)"
| "ask_the_group wanted keep (Inr answer # rest) a k =
     (let a' = a\<lparr>ans_count := ans_count a + 1\<rparr>; (settled, k') = keep k answer
      in if settled \<and> wanted \<le> ans_count a' then (a', k')
         else ask_the_group wanted keep rest a' k')"
| "ask_the_group wanted keep (Inl e # rest) a k =
     ask_the_group wanted keep rest (note_failure e a) k"

subsection \<open>The tally of a read\<close>

type_synonym 'p replies = "('p \<times> nat) list"

fun replies_add :: "'p pointer_api \<Rightarrow> 'p replies \<Rightarrow> 'p option \<Rightarrow> 'p replies" where
  "replies_add api seen None = seen"
| "replies_add api [] (Some reply) = [(reply, 1)]"
| "replies_add api ((held, n) # rest) (Some reply) =
     (if p_state_id api held = p_state_id api reply then (held, n + 1) # rest
      else (held, n) # replies_add api rest (Some reply))"

fun reduce :: "('a \<Rightarrow> 'a \<Rightarrow> 'a) \<Rightarrow> 'a list \<Rightarrow> 'a option" where
  "reduce f [] = None"
| "reduce f (x # xs) = Some (foldl f x xs)"

definition corroborated :: "'p pointer_api \<Rightarrow> 'p replies \<Rightarrow> nat \<Rightarrow> 'p option" where
  "corroborated api seen needed =
     reduce (\<lambda>best next. if p_replaces api next best then next else best)
       (map fst (filter (\<lambda>(_, n). needed \<le> n) seen))"

definition replies_any :: "'p replies \<Rightarrow> bool" where
  "replies_any seen \<longleftrightarrow> seen \<noteq> []"

definition finals :: "'p pointer_api \<Rightarrow> 'p replies \<Rightarrow> 'p replies" where
  "finals api seen = filter (\<lambda>(record, _). p_is_terminal api record) seen"

definition final_majority :: "'p pointer_api \<Rightarrow> 'p replies \<Rightarrow> nat \<Rightarrow> 'p option" where
  "final_majority api seen majority =
     map_option fst (find (\<lambda>(_, n). majority \<le> n) (finals api seen))"

datatype 'p chosen_state = Chosen_State "'p option" | Chosen_Forked

definition chosen :: "'p pointer_api \<Rightarrow> 'p replies \<Rightarrow> nat \<Rightarrow> nat \<Rightarrow> 'p chosen_state" where
  "chosen api seen needed majority =
     (case final_majority api seen majority of
        Some held \<Rightarrow> Chosen_State (Some held)
      | None \<Rightarrow>
          if 2 \<le> length (finals api seen) then Chosen_Forked
          else Chosen_State (corroborated api seen needed))"

definition settled :: "'p pointer_api \<Rightarrow> 'p replies \<Rightarrow> nat \<Rightarrow> nat \<Rightarrow> bool" where
  "settled api seen needed majority =
     (if finals api seen \<noteq> [] then final_majority api seen majority \<noteq> None
      else (case corroborated api seen needed of
              None \<Rightarrow> \<not> replies_any seen
            | Some best \<Rightarrow>
                \<not> list_ex (\<lambda>(record, n). n < needed \<and> p_replaces api record best) seen))"

definition collect_read ::
  "'p pointer_api \<Rightarrow> (error, 'p option) result list \<Rightarrow> nat \<Rightarrow> answered \<times> 'p replies" where
  "collect_read api answers peers =
     (let needed = corroboration peers; majority = read_quorum peers
      in ask_the_group (read_quorum peers)
           (\<lambda>replies found. let replies' = replies_add api replies found
                            in (settled api replies' needed majority, replies'))
           answers no_answers [])"

text \<open>What \<^verbatim>\<open>pointer_get\<close> makes of the answers of the \<open>found\<close> peers it asked.\<close>

definition read_verdict ::
  "'p pointer_api \<Rightarrow> nat \<Rightarrow> answered \<Rightarrow> 'p replies \<Rightarrow> (error, 'p option) result" where
  "read_verdict api width a replies =
     (let wanted = read_quorum width; needed = corroboration width
      in if ans_count a = 0 then
           Inl (case answered_failure a of Some e \<Rightarrow> e | None \<Rightarrow> Protocol)
         else if ans_count a < wanted then Inl CloseGroupShortfall
         else (case chosen api replies needed wanted of
                 Chosen_Forked \<Rightarrow> Inl PointerForked
               | Chosen_State state \<Rightarrow>
                   if state = None \<and> replies_any replies then Inl CloseGroupShortfall
                   else Inr state))"

definition read_answers ::
  "'p pointer_api \<Rightarrow> nat \<Rightarrow> nat \<Rightarrow> (error, 'p option) result list \<Rightarrow> (error, 'p option) result" where
  "read_answers api close_group_size found answers =
     (let width = quorum_width found close_group_size;
          (a, replies) = collect_read api answers width
      in read_verdict api width a replies)"

subsection \<open>Finality\<close>

record final_state =
  fs_state_id :: key
  fs_kind_tag :: u8
  fs_target :: key
  fs_holders :: nat

definition final_state_of :: "'p pointer_api \<Rightarrow> 'p \<Rightarrow> nat \<Rightarrow> final_state" where
  "final_state_of api record holders =
     (let tgt = p_target api record
      in \<lparr>fs_state_id = p_state_id api record, fs_kind_tag = kind_tag tgt,
          fs_target = target_address tgt, fs_holders = holders\<rparr>)"

definition fs_transferred_to :: "'p pointer_api \<Rightarrow> final_state \<Rightarrow> key option" where
  "fs_transferred_to api state =
     (case p_from_tag api (fs_kind_tag state) of
        Some PointerKind \<Rightarrow> Some (fs_target state)
      | _ \<Rightarrow> None)"

datatype finality_status =
    Open "u64 option"
  | Settling final_state
  | Final final_state
  | Unconfirmed final_state
  | Forked "final_state list" "final_state option"

record pointer_finality =
  pf_address :: key
  pf_group :: nat
  pf_answered :: nat
  pf_status :: finality_status

definition is_final :: "pointer_finality \<Rightarrow> bool" where
  "is_final f = (case pf_status f of Final _ \<Rightarrow> True | _ \<Rightarrow> False)"

definition pf_transferred_to :: "'p pointer_api \<Rightarrow> pointer_finality \<Rightarrow> key option" where
  "pf_transferred_to api f =
     (case pf_status f of Final state \<Rightarrow> fs_transferred_to api state | _ \<Rightarrow> None)"

definition finality_status_of :: "'p pointer_api \<Rightarrow> 'p replies \<Rightarrow> nat \<Rightarrow> nat \<Rightarrow> finality_status" where
  "finality_status_of api replies grp answered_by =
     (let majority = read_quorum grp;
          fs = sort_key (\<lambda>state. - int (fs_holders state))
                 (map (\<lambda>(record, n). final_state_of api record n) (finals api replies));
          held_by_majority = find (\<lambda>state. majority \<le> fs_holders state) fs
      in case fs of
           [] \<Rightarrow> Open (map_option (p_counter api) (corroborated api replies (corroboration grp)))
         | [only] \<Rightarrow>
             if majority \<le> fs_holders only \<and> grp \<le> answered_by then Final only
             else if majority \<le> fs_holders only then Unconfirmed only
             else Settling only
         | _ \<Rightarrow> Forked fs held_by_majority)"

text \<open>The whole group is asked, whatever it says: \<^verbatim>\<open>keep\<close> never settles.\<close>

definition finality_answers ::
  "'p pointer_api \<Rightarrow> nat \<Rightarrow> nat \<Rightarrow> key \<Rightarrow> (error, 'p option) result list \<Rightarrow>
     (error, pointer_finality) result" where
  "finality_answers api close_group_size found address answers =
     (let (a, replies) = ask_the_group found (\<lambda>replies r. (False, replies_add api replies r))
                           answers no_answers [];
          width = quorum_width found close_group_size
      in if ans_count a < read_quorum width then
           Inl (case answered_failure a of
                  Some e \<Rightarrow> if ans_count a = 0 then e else CloseGroupShortfall
                | None \<Rightarrow> CloseGroupShortfall)
         else Inr \<lparr>pf_address = address, pf_group = width, pf_answered = ans_count a,
                   pf_status = finality_status_of api replies width (ans_count a)\<rparr>)"

definition rival_final :: "'p pointer_api \<Rightarrow> pointer_finality \<Rightarrow> 'p \<Rightarrow> error option" where
  "rival_final api finality ours =
     (case pf_status finality of
        Open _ \<Rightarrow> None
      | Settling state \<Rightarrow> if fs_state_id state \<noteq> p_state_id api ours then Some PointerFinal else None
      | Final state \<Rightarrow> if fs_state_id state \<noteq> p_state_id api ours then Some PointerFinal else None
      | Unconfirmed state \<Rightarrow>
          if fs_state_id state \<noteq> p_state_id api ours then Some PointerFinal else None
      | Forked _ _ \<Rightarrow> Some PointerForked)"

definition final_already :: "pointer_finality \<Rightarrow> error option" where
  "final_already finality =
     (case pf_status finality of
        Open _ \<Rightarrow> None
      | Settling _ \<Rightarrow> Some PointerFinal
      | Final _ \<Rightarrow> Some PointerFinal
      | Unconfirmed _ \<Rightarrow> Some PointerFinal
      | Forked _ _ \<Rightarrow> Some PointerForked)"

definition after_failed_transfer ::
  "'p pointer_api \<Rightarrow> error \<Rightarrow> (error, pointer_finality) result \<Rightarrow> 'p \<Rightarrow>
     (error, pointer_finality) result" where
  "after_failed_transfer api put finality record =
     (case finality of
        Inl _ \<Rightarrow> Inl put
      | Inr f \<Rightarrow>
          (case rival_final api f record of
             Some refusal \<Rightarrow> Inl refusal
           | None \<Rightarrow>
               (case pf_status f of
                  Final state \<Rightarrow>
                    if fs_state_id state = p_state_id api record then Inr f else Inl put
                | Unconfirmed state \<Rightarrow>
                    if fs_state_id state = p_state_id api record then Inr f else Inl put
                | _ \<Rightarrow> Inl put)))"

subsection \<open>Replies and writes\<close>

datatype put_ack = Stored | Stale

definition judge_write :: "nat \<Rightarrow> nat \<Rightarrow> bool \<Rightarrow> answered \<Rightarrow> (error, unit) result" where
  "judge_write stored wanted moved a =
     (if wanted \<le> stored then Inr ()
      else if moved then Inl InvalidData
      else if stored = 0 \<and> corroboration wanted \<le> ans_refusals a \<and> ans_refusal a \<noteq> None
        then Inl (the (ans_refusal a))
      else if 0 < ans_count a \<or> 0 < ans_refusals a then Inl CloseGroupShortfall
      else Inl (case ans_last_error a of Some e \<Rightarrow> e | None \<Rightarrow> Protocol))"

datatype put_response =
    Put_Success key key
  | Put_Unchanged key key
  | Put_Stale key
  | Put_PaymentRequired
  | Put_Error

datatype get_response =
    Get_Success bytes
  | Get_NotFound key
  | Get_Error

datatype message_body =
    PointerPutResponse put_response
  | PointerGetResponse get_response
  | OtherBody

fun read_put_reply :: "message_body \<Rightarrow> key \<Rightarrow> key \<Rightarrow> (error, put_ack) result option" where
  "read_put_reply (PointerPutResponse (Put_Success address state)) expected_address expected_state =
     Some (if address = expected_address \<and> state = expected_state then Inr Stored else Inl InvalidData)"
| "read_put_reply (PointerPutResponse (Put_Unchanged address state)) expected_address expected_state =
     Some (if address = expected_address \<and> state = expected_state then Inr Stored else Inl InvalidData)"
| "read_put_reply (PointerPutResponse (Put_Stale address)) expected_address expected_state =
     Some (if address = expected_address then Inr Stale else Inl InvalidData)"
| "read_put_reply (PointerPutResponse Put_PaymentRequired) expected_address expected_state =
     Some (Inl Payment)"
| "read_put_reply (PointerPutResponse Put_Error) expected_address expected_state = Some (Inl RemotePut)"
| "read_put_reply _ expected_address expected_state = None"

fun read_get_reply ::
  "'p pointer_api \<Rightarrow> message_body \<Rightarrow> key \<Rightarrow> (error, 'p option) result option" where
  "read_get_reply api (PointerGetResponse (Get_Success bs)) address =
     Some (case p_from_bytes api bs of
             Some record \<Rightarrow> if p_address api record = address then Inr (Some record) else Inl InvalidData
           | None \<Rightarrow> Inl InvalidData)"
| "read_get_reply api (PointerGetResponse (Get_NotFound absent)) address =
     Some (if absent = address then Inr None else Inl InvalidData)"
| "read_get_reply api (PointerGetResponse Get_Error) address = Some (Inl Protocol)"
| "read_get_reply api _ address = None"

subsection \<open>Quorum arithmetic\<close>

lemma quorum_sum: "0 < peers \<Longrightarrow> peers + corroboration peers \<le> write_quorum peers + read_quorum peers"
  by (auto simp: write_quorum_def read_quorum_def corroboration_def min_def)

lemma corroboration_le_read_quorum: "corroboration peers \<le> read_quorum peers"
  by (auto simp: read_quorum_def corroboration_def)

lemma quorum_sets_intersect:
  assumes "finite G" and "card G \<le> peers" and "W \<subseteq> G" and "R \<subseteq> G" and "0 < peers"
    and "write_quorum peers \<le> card W" and "read_quorum peers \<le> card R"
  shows "corroboration peers \<le> card (W \<inter> R)"
proof -
  have fin: "finite W" "finite R" using assms(1,3,4) finite_subset by auto
  have "card (W \<union> R) \<le> peers" using assms(1-4) by (meson Un_least card_mono le_trans)
  moreover have "card W + card R = card (W \<union> R) + card (W \<inter> R)"
    using fin by (rule card_Un_Int)
  ultimately show ?thesis using quorum_sum [OF assms(5)] assms(6,7) by linarith
qed

text \<open>
  A write quorum and a read quorum of one close group always share at least as many
  peers as a read needs to corroborate a state (two, for a group of two or more).
\<close>

theorem write_and_read_quorums_overlap:
  assumes "finite G" and "card G \<le> peers" and "0 < peers" and "W \<subseteq> G" and "R \<subseteq> G"
    and "write_quorum peers \<le> card W" and "read_quorum peers \<le> card R"
  shows "corroboration peers \<le> card (W \<inter> R)"
  using assms by (intro quorum_sets_intersect [where G = G])

theorem write_and_read_quorums_overlap_witness:
  "write_quorum 7 \<le> card {0..<5 :: nat} \<and> read_quorum 7 \<le> card {3..<7 :: nat} \<and>
   corroboration 7 \<le> card ({0..<5 :: nat} \<inter> {3..<7})"
proof -
  have h: "write_quorum 7 \<le> card {0..<5 :: nat}" "read_quorum 7 \<le> card {3..<7 :: nat}"
    by (simp_all add: write_quorum_def read_quorum_def)
  have "corroboration 7 \<le> card ({0..<5 :: nat} \<inter> {3..<7})"
    by (rule write_and_read_quorums_overlap [where G = "{0..<7}" and peers = 7]) (use h in auto)
  with h show ?thesis by blast
qed

subsection \<open>What asking the group consumes\<close>

fun oks :: "('e, 'a) result list \<Rightarrow> 'a list" where
  "oks [] = []"
| "oks (Inr x # rest) = x # oks rest"
| "oks (Inl e # rest) = oks rest"

lemma oks_append [simp]: "oks (xs @ ys) = oks xs @ oks ys"
  by (induction xs rule: oks.induct) auto

lemma set_oks: "x \<in> set (oks xs) \<longleftrightarrow> Inr x \<in> set xs"
  by (induction xs rule: oks.induct) auto

lemma oks_map: "oks (map f xs) = map (\<lambda>x. projr (f x)) (filter (\<lambda>x. \<not> isl (f x)) xs)"
proof (induction xs)
  case (Cons x xs)
  then show ?case by (cases "f x") auto
qed simp

lemma note_failure_count [simp]: "ans_count (note_failure e a) = ans_count a"
  by (simp add: note_failure_def)

lemma ask_the_group_prefix:
  assumes "ask_the_group wanted keep answers a k = (a', k')"
  shows "\<exists>ys zs. answers = ys @ zs \<and> ans_count a' = ans_count a + length (oks ys) \<and>
    k' = foldl (\<lambda>k x. snd (keep k x)) k (oks ys) \<and>
    (zs \<noteq> [] \<longrightarrow> wanted \<le> ans_count a' \<and>
       (\<exists>xs x. oks ys = xs @ [x] \<and> fst (keep (foldl (\<lambda>k x. snd (keep k x)) k xs) x)))"
  using assms
proof (induction wanted keep answers a k rule: ask_the_group.induct)
  case (1 wanted keep a k)
  then show ?case by simp
next
  case (2 wanted keep answer rest a k)
  obtain st k1 where kp: "keep k answer = (st, k1)" by (cases "keep k answer")
  let ?a = "a\<lparr>ans_count := ans_count a + 1\<rparr>"
  show ?case
  proof (cases "st \<and> wanted \<le> ans_count ?a")
    case True
    with 2 kp have "a' = ?a" "k' = k1" by auto
    with True kp show ?thesis
      by (intro exI [of _ "[Inr answer]"] exI [of _ rest]) auto
  next
    case False
    with 2 kp have "ask_the_group wanted keep rest ?a k1 = (a', k')" by auto
    from "2.IH" [OF refl kp [symmetric] refl False this] obtain ys zs where
      *: "rest = ys @ zs" "ans_count a' = ans_count ?a + length (oks ys)"
      "k' = foldl (\<lambda>k x. snd (keep k x)) k1 (oks ys)"
      "zs \<noteq> [] \<longrightarrow> wanted \<le> ans_count a' \<and>
        (\<exists>xs x. oks ys = xs @ [x] \<and> fst (keep (foldl (\<lambda>k x. snd (keep k x)) k1 xs) x))"
      by blast
    have "\<exists>xs x. oks (Inr answer # ys) = xs @ [x] \<and>
          fst (keep (foldl (\<lambda>k x. snd (keep k x)) k xs) x)" if "zs \<noteq> []"
    proof -
      from *(4) that obtain xs x where
        "oks ys = xs @ [x]" "fst (keep (foldl (\<lambda>k x. snd (keep k x)) k1 xs) x)" by blast
      with kp show ?thesis by (intro exI [of _ "answer # xs"] exI [of _ x]) simp
    qed
    with * kp show ?thesis
      by (intro exI [of _ "Inr answer # ys"] exI [of _ zs]) (simp del: oks.simps add: oks.simps(2))
  qed
next
  case (3 wanted keep e rest a k)
  from 3 obtain ys zs where
    *: "rest = ys @ zs" "ans_count a' = ans_count a + length (oks ys)"
    "k' = foldl (\<lambda>k x. snd (keep k x)) k (oks ys)"
    "zs \<noteq> [] \<longrightarrow> wanted \<le> ans_count a' \<and>
      (\<exists>xs x. oks ys = xs @ [x] \<and> fst (keep (foldl (\<lambda>k x. snd (keep k x)) k xs) x))"
    by auto
  then show ?case by (intro exI [of _ "Inl e # ys"] exI [of _ zs]) simp
qed

subsection \<open>The tally\<close>

locale tally =
  fixes add_to :: "'t \<Rightarrow> 'r \<Rightarrow> 't"
    and names :: "'r \<Rightarrow> 's \<Rightarrow> bool"
    and count_of :: "'t \<Rightarrow> 's \<Rightarrow> nat"
  assumes count_add: "count_of (add_to t r) s = count_of t s + (if names r s then 1 else 0)"
begin

lemma count_foldl:
  "count_of (foldl add_to t rs) s = count_of t s + length (filter (\<lambda>r. names r s) rs)"
  by (induction rs arbitrary: t) (auto simp: count_add)

end

definition names_state :: "'p pointer_api \<Rightarrow> 'p option \<Rightarrow> key \<Rightarrow> bool" where
  "names_state api r s = (case r of None \<Rightarrow> False | Some q \<Rightarrow> p_state_id api q = s)"

definition state_count :: "'p pointer_api \<Rightarrow> 'p replies \<Rightarrow> key \<Rightarrow> nat" where
  "state_count api seen s = sum_list (map snd (filter (\<lambda>(p, _). p_state_id api p = s) seen))"

lemma state_count_Cons:
  "state_count api ((p, n) # seen) s = (if p_state_id api p = s then n else 0) + state_count api seen s"
  by (simp add: state_count_def)

lemma names_state_simps [simp]:
  "\<not> names_state api None s" "names_state api (Some q) s \<longleftrightarrow> p_state_id api q = s"
  by (simp_all add: names_state_def)

interpretation state_tally: tally "replies_add api" "names_state api" "state_count api" for api
proof unfold_locales
  fix t r s
  show "state_count api (replies_add api t r) s = state_count api t s + (if names_state api r s then 1 else 0)"
    by (induction api t r rule: replies_add.induct)
      (auto simp: state_count_Cons state_count_def)
qed

abbreviation tally_replies :: "'p pointer_api \<Rightarrow> 'p option list \<Rightarrow> 'p replies" where
  "tally_replies api rs \<equiv> foldl (replies_add api) [] rs"

abbreviation named_by :: "'p pointer_api \<Rightarrow> 'p option list \<Rightarrow> key \<Rightarrow> nat" where
  "named_by api rs s \<equiv> length (filter (\<lambda>r. names_state api r s) rs)"

definition tally_ok :: "'p pointer_api \<Rightarrow> 'p replies \<Rightarrow> bool" where
  "tally_ok api seen \<longleftrightarrow> distinct (map (\<lambda>(p, _). p_state_id api p) seen) \<and> (\<forall>(_, n) \<in> set seen. 0 < n)"

lemma replies_add_ids:
  "(\<lambda>(p, _). p_state_id api p) ` set (replies_add api seen (Some q)) =
     insert (p_state_id api q) ((\<lambda>(p, _). p_state_id api p) ` set seen)"
  by (induction api seen "Some q" rule: replies_add.induct) (auto split: if_splits)

lemma replies_add_records:
  "fst ` set (replies_add api seen r) \<subseteq> fst ` set seen \<union> {q. r = Some q}"
  by (induction api seen r rule: replies_add.induct) auto

lemma replies_add_ok: "tally_ok api seen \<Longrightarrow> tally_ok api (replies_add api seen r)"
proof (induction api seen r rule: replies_add.induct)
  case (3 api held n rest reply)
  then show ?case
    using replies_add_ids [of api rest reply] by (auto simp: tally_ok_def)
qed (auto simp: tally_ok_def)

lemma tally_replies_ok: "tally_ok api (tally_replies api rs)"
  by (induction rs rule: rev_induct) (auto simp: replies_add_ok tally_ok_def [of api "[]"])

lemma tally_replies_records: "p \<in> fst ` set (tally_replies api rs) \<Longrightarrow> Some p \<in> set rs"
proof (induction rs rule: rev_induct)
  case (snoc r rs)
  then show ?case using replies_add_records [of api "tally_replies api rs" r] by auto
qed simp

lemma state_count_entry:
  "tally_ok api seen \<Longrightarrow> (p, n) \<in> set seen \<Longrightarrow> state_count api seen (p_state_id api p) = n"
proof (induction seen)
  case (Cons e seen)
  obtain q m where e: "e = (q, m)" by (cases e)
  from Cons.prems(1) have ok: "tally_ok api seen" by (auto simp: tally_ok_def)
  have absent: "state_count api seen s = 0" if "s \<notin> (\<lambda>(p, _). p_state_id api p) ` set seen" for s
    using that by (auto simp: state_count_def filter_empty_conv image_iff)
  show ?case
  proof (cases "(p, n) = (q, m)")
    case True
    with Cons.prems e show ?thesis by (auto simp: state_count_Cons tally_ok_def absent)
  next
    case False
    with Cons.prems e have "(p, n) \<in> set seen" by auto
    moreover from this Cons.prems(1) e have "p_state_id api q \<noteq> p_state_id api p"
      by (force simp: tally_ok_def)
    ultimately show ?thesis using Cons.IH [OF ok] e by (simp add: state_count_Cons)
  qed
qed simp

lemma state_count_nil [simp]: "state_count api [] s = 0"
  by (simp add: state_count_def)

lemma state_count_tally: "state_count api (tally_replies api rs) s = named_by api rs s"
  using state_tally.count_foldl [of api "[]" rs s] by simp

text \<open>Every entry of a tally counts the peers that named its state.\<close>

lemma tally_entry:
  assumes "(p, n) \<in> set (tally_replies api rs)"
  shows "n = named_by api rs (p_state_id api p)" and "Some p \<in> set rs" and "0 < n"
  using state_count_entry [OF tally_replies_ok assms] state_count_tally [of api rs]
    tally_replies_records [of p api rs] assms tally_replies_ok [of api rs]
  by (force simp: tally_ok_def)+

lemma tally_complete:
  assumes "0 < named_by api rs s"
  shows "\<exists>p. (p, named_by api rs s) \<in> set (tally_replies api rs) \<and> p_state_id api p = s"
proof -
  have "state_count api (tally_replies api rs) s \<noteq> 0" using assms by (simp only: state_count_tally)
  then have "filter (\<lambda>(p, _). p_state_id api p = s) (tally_replies api rs) \<noteq> []"
    unfolding state_count_def by (metis list.map(1) sum_list.Nil)
  then obtain p n where "(p, n) \<in> set (tally_replies api rs)" "p_state_id api p = s"
    by (auto simp: filter_empty_conv)
  with tally_entry(1) [of p n api rs] show ?thesis by auto
qed

lemma tally_unique:
  assumes "(p, n) \<in> set (tally_replies api rs)" and "(q, m) \<in> set (tally_replies api rs)"
    and "p_state_id api p = p_state_id api q"
  shows "(p, n) = (q, m)"
  using assms tally_replies_ok [of api rs]
  by (auto simp: tally_ok_def distinct_map inj_on_def)

lemma named_by_mono: "named_by api xs s \<le> named_by api (xs @ ys) s"
  by simp

lemma named_by_le: "named_by api rs s + named_by api rs t \<le> length rs" if "s \<noteq> t"
proof (induction rs)
  case (Cons r rs)
  then show ?case using that by (cases r) auto
qed simp

lemma tally_nil_iff: "tally_replies api rs = [] \<longleftrightarrow> (\<forall>r \<in> set rs. r = None)"
proof (induction rs rule: rev_induct)
  case (snoc r rs)
  have "replies_add api (tally_replies api rs) (Some q) \<noteq> []" for q
    by (cases "tally_replies api rs") (auto split: if_splits)
  with snoc show ?case by (cases r) auto
qed simp

subsection \<open>What a read settles on\<close>

lemma foldl_choice:
  assumes "\<And>best nxt. f best nxt = best \<or> f best nxt = nxt"
  shows "foldl f x xs \<in> insert x (set xs)"
proof (induction xs arbitrary: x)
  case (Cons y xs)
  from Cons [of "f x y"] assms [of x y] show ?case by auto
qed simp

lemma corroborated_SomeD:
  assumes "corroborated api seen needed = Some q"
  shows "\<exists>n. (q, n) \<in> set seen \<and> needed \<le> n"
proof -
  let ?xs = "map fst (filter (\<lambda>(_, n). needed \<le> n) seen)"
  from assms obtain y ys where xs: "?xs = y # ys"
    and q: "q = foldl (\<lambda>best nxt. if p_replaces api nxt best then nxt else best) y ys"
    unfolding corroborated_def by (cases ?xs) auto
  have "q \<in> set ?xs"
    unfolding xs q list.set by (rule foldl_choice) auto
  then show ?thesis by auto
qed

lemma corroborated_None_iff: "corroborated api seen needed = None \<longleftrightarrow> (\<forall>(_, n) \<in> set seen. n < needed)"
proof -
  have "corroborated api seen needed = None \<longleftrightarrow> filter (\<lambda>(_, n). needed \<le> n) seen = []"
    unfolding corroborated_def by (cases "filter (\<lambda>(_, n). needed \<le> n) seen") auto
  then show ?thesis by (auto simp: filter_empty_conv not_le)
qed

lemma foldl_dominated:
  assumes "\<And>p q. p \<in> insert x (set xs) \<Longrightarrow> q \<in> insert x (set xs) \<Longrightarrow> P p \<Longrightarrow> \<not> P q \<Longrightarrow> r p q \<and> \<not> r q p"
    and "\<exists>p \<in> insert x (set xs). P p"
  shows "P (foldl (\<lambda>best nxt. if r nxt best then nxt else best) x xs)"
  using assms
proof (induction xs arbitrary: x)
  case (Cons y xs)
  let ?b = "if r y x then y else x"
  from Cons.prems(2) consider "P x \<or> P y" | "\<exists>p \<in> set xs. P p" by auto
  then have "\<exists>p \<in> insert ?b (set xs). P p"
  proof cases
    case 1
    then have "P ?b" using Cons.prems(1) [of x y] Cons.prems(1) [of y x] by (cases "P x"; cases "P y") simp_all
    then show ?thesis by (rule bexI) simp
  qed simp
  moreover have "r p q \<and> \<not> r q p"
    if "p \<in> insert ?b (set xs)" "q \<in> insert ?b (set xs)" "P p" "\<not> P q" for p q
  proof -
    have "insert ?b (set xs) \<subseteq> insert x (set (y # xs))" by auto
    with that show ?thesis using Cons.prems(1) [of p q] by (meson subsetD)
  qed
  ultimately have "P (foldl (\<lambda>best nxt. if r nxt best then nxt else best) ?b xs)"
    by (intro Cons.IH) blast+
  then show ?case by simp
qed simp

text \<open>A corroborated state that beats every rival is the one chosen, whatever the order.\<close>

lemma corroborated_dominant:
  assumes "(s, n) \<in> set seen" and "needed \<le> n" and "P s"
    and "\<And>p q. p \<in> fst ` set seen \<Longrightarrow> q \<in> fst ` set seen \<Longrightarrow> P p \<Longrightarrow> \<not> P q \<Longrightarrow>
           p_replaces api p q \<and> \<not> p_replaces api q p"
  shows "\<exists>q. corroborated api seen needed = Some q \<and> P q"
proof -
  let ?xs = "map fst (filter (\<lambda>(_, n). needed \<le> n) seen)"
  have s: "s \<in> set ?xs" using assms(1,2) by force
  then obtain y ys where xs: "?xs = y # ys" by (cases ?xs) auto
  have sub: "insert y (set ys) \<subseteq> fst ` set seen" using arg_cong [OF xs, of set] by auto
  have "P (foldl (\<lambda>best nxt. if p_replaces api nxt best then nxt else best) y ys)"
  proof (rule foldl_dominated)
    show "\<exists>p \<in> insert y (set ys). P p" using s xs assms(3) by auto
  next
    fix p q assume "p \<in> insert y (set ys)" "q \<in> insert y (set ys)" "P p" "\<not> P q"
    with assms(4) [of p q] sub show "p_replaces api p q \<and> \<not> p_replaces api q p" by blast
  qed
  then show ?thesis using xs by (simp add: corroborated_def)
qed

lemma collect_read_prefix:
  assumes "collect_read api answers width = (a, replies)"
  shows "\<exists>ys zs. answers = ys @ zs \<and> ans_count a = length (oks ys) \<and>
    replies = tally_replies api (oks ys) \<and>
    (zs \<noteq> [] \<longrightarrow> read_quorum width \<le> length (oks ys) \<and>
       settled api replies (corroboration width) (read_quorum width))"
proof -
  let ?keep = "\<lambda>replies found. let replies' = replies_add api replies found
     in (settled api replies' (corroboration width) (read_quorum width), replies')"
  have fold: "foldl (\<lambda>k x. snd (?keep k x)) k xs = foldl (replies_add api) k xs" for k xs
    by (simp add: Let_def)
  from assms have "ask_the_group (read_quorum width) ?keep answers no_answers [] = (a, replies)"
    by (simp add: collect_read_def Let_def)
  from ask_the_group_prefix [OF this] obtain ys zs where
    *: "answers = ys @ zs" "ans_count a = ans_count no_answers + length (oks ys)"
    "replies = foldl (\<lambda>k x. snd (?keep k x)) [] (oks ys)"
    "zs \<noteq> [] \<longrightarrow> read_quorum width \<le> ans_count a \<and>
       (\<exists>xs x. oks ys = xs @ [x] \<and> fst (?keep (foldl (\<lambda>k x. snd (?keep k x)) [] xs) x))"
    by blast
  have n: "ans_count a = length (oks ys)" and r: "replies = tally_replies api (oks ys)"
    using * fold by (auto simp: no_answers_def)
  have "settled api replies (corroboration width) (read_quorum width)" if "zs \<noteq> []"
  proof -
    from *(4) that obtain xs x where "oks ys = xs @ [x]"
      "fst (?keep (foldl (\<lambda>k x. snd (?keep k x)) [] xs) x)" by blast
    with r show ?thesis unfolding fold by (simp add: Let_def)
  qed
  with *(1,4) n r show ?thesis by (intro exI [of _ ys] exI [of _ zs]) simp
qed

lemma find_SomeD: "find P xs = Some x \<Longrightarrow> x \<in> set xs \<and> P x"
  by (induction xs) (auto split: if_splits)

lemma final_majority_SomeD:
  assumes "final_majority api seen majority = Some q"
  shows "\<exists>n. (q, n) \<in> set seen \<and> majority \<le> n \<and> p_is_terminal api q"
  using assms by (auto simp: final_majority_def finals_def dest!: find_SomeD)

lemma find_NoneD: "find P xs = None \<Longrightarrow> x \<in> set xs \<Longrightarrow> \<not> P x"
  by (induction xs) (auto split: if_splits)

lemma read_answers_cases:
  obtains ys zs a where "answers = ys @ zs" and "ans_count a = length (oks ys)"
    and "zs \<noteq> [] \<longrightarrow> read_quorum (quorum_width found cgs) \<le> length (oks ys) \<and>
       settled api (tally_replies api (oks ys)) (corroboration (quorum_width found cgs))
         (read_quorum (quorum_width found cgs))"
    and "read_answers api cgs found answers =
           read_verdict api (quorum_width found cgs) a (tally_replies api (oks ys))"
proof -
  obtain a replies where c: "collect_read api answers (quorum_width found cgs) = (a, replies)"
    by (cases "collect_read api answers (quorum_width found cgs)")
  from collect_read_prefix [OF c] obtain ys zs where
    "answers = ys @ zs" "ans_count a = length (oks ys)" and r: "replies = tally_replies api (oks ys)"
    "zs \<noteq> [] \<longrightarrow> read_quorum (quorum_width found cgs) \<le> length (oks ys) \<and>
       settled api replies (corroboration (quorum_width found cgs)) (read_quorum (quorum_width found cgs))"
    by blast
  moreover have "read_answers api cgs found answers = read_verdict api (quorum_width found cgs) a replies"
    using c by (simp add: read_answers_def Let_def)
  ultimately show thesis using that by blast
qed

lemma read_quorum_pos [simp]: "0 < read_quorum n"
  by (simp add: read_quorum_def)

lemma read_verdict_InrD:
  assumes "read_verdict api width a replies = Inr res"
  shows "read_quorum width \<le> ans_count a"
    and "chosen api replies (corroboration width) (read_quorum width) = Chosen_State res"
    and "res = None \<Longrightarrow> replies = []"
  using assms by (auto simp: read_verdict_def Let_def replies_any_def split: if_splits chosen_state.splits)

lemma chosen_StateD:
  assumes "chosen api seen needed majority = Chosen_State (Some q)" and "needed \<le> majority"
  shows "\<exists>n. (q, n) \<in> set seen \<and> needed \<le> n"
  using assms final_majority_SomeD [of api seen majority] corroborated_SomeD [of api seen needed q]
  by (fastforce simp: chosen_def split: option.splits if_splits)

lemma read_answers_corroborated:
  assumes "read_answers api cgs found answers = Inr res"
  shows "\<exists>seen rest. answers = seen @ rest \<and> read_quorum (quorum_width found cgs) \<le> length (oks seen) \<and>
    (case res of
       None \<Rightarrow> \<forall>r \<in> set (oks seen). r = None
     | Some q \<Rightarrow> Some q \<in> set (oks seen) \<and>
         corroboration (quorum_width found cgs) \<le> named_by api (oks seen) (p_state_id api q))"
proof -
  obtain ys zs a where ys: "answers = ys @ zs" "ans_count a = length (oks ys)"
    and v: "read_answers api cgs found answers =
       read_verdict api (quorum_width found cgs) a (tally_replies api (oks ys))"
    by (rule read_answers_cases [of answers found cgs api])
  note v' = read_verdict_InrD [OF v [unfolded assms, symmetric]]
  have "case res of None \<Rightarrow> \<forall>r \<in> set (oks ys). r = None
     | Some q \<Rightarrow> Some q \<in> set (oks ys) \<and>
         corroboration (quorum_width found cgs) \<le> named_by api (oks ys) (p_state_id api q)"
  proof (cases res)
    case None
    then show ?thesis using v'(3) tally_nil_iff [of api "oks ys"] by simp
  next
    case (Some q)
    with v'(2) corroboration_le_read_quorum obtain n where
      "(q, n) \<in> set (tally_replies api (oks ys))" "corroboration (quorum_width found cgs) \<le> n"
      using chosen_StateD by metis
    with tally_entry [of q n api "oks ys"] Some show ?thesis by simp
  qed
  with ys v'(1) show ?thesis by (intro exI [of _ ys] exI [of _ zs]) simp
qed

text \<open>
  A read never rests on one peer's word. A state it returns was named by at least a
  corroborating number of the peers that answered before it settled, and it reports that
  there is no record only when a read quorum answered and every one of them had none.
\<close>

theorem read_is_corroborated:
  assumes "read_answers api cgs found answers = Inr res"
  shows "\<exists>seen rest. answers = seen @ rest \<and> read_quorum (quorum_width found cgs) \<le> length (oks seen) \<and>
    (case res of
       None \<Rightarrow> \<forall>r \<in> set (oks seen). r = None
     | Some q \<Rightarrow> Some q \<in> set (oks seen) \<and>
         corroboration (quorum_width found cgs) \<le> named_by api (oks seen) (p_state_id api q))"
  using assms by (rule read_answers_corroborated)

definition demo_api :: "nat pointer_api" where
  "demo_api = \<lparr>p_state_id = (\<lambda>n. [of_nat n]), p_replaces = (\<lambda>a b. b < a), p_is_terminal = (\<lambda>n. 100 \<le> n mod 256),
     p_counter = of_nat, p_target = (\<lambda>n. \<lparr>kind_tag = 0, target_address = [of_nat n]\<rparr>),
     p_address = (\<lambda>_. [0]), p_from_bytes = (\<lambda>bs. if bs = [] then None else Some (unat (hd bs))),
     p_kind = (\<lambda>t. if kind_tag t = 0 then Some ChunkKind else Some PointerKind),
     p_from_tag = (\<lambda>t. if t = 0 then Some ChunkKind else Some PointerKind)\<rparr>"

theorem read_is_corroborated_witness:
  "read_answers demo_api 3 3 [Inr (Some 5), Inr (Some 4), Inr (Some 5)] = Inr (Some 5) \<and>
   (\<exists>seen rest. ([Inr (Some 5), Inr (Some 4), Inr (Some 5)] :: (error, nat option) result list) = seen @ rest \<and> 2 \<le> length (oks seen) \<and>
      Some 5 \<in> set (oks seen) \<and> 2 \<le> named_by demo_api (oks seen) [5])"
proof -
  have r: "read_answers demo_api 3 3 [Inr (Some 5), Inr (Some 4), Inr (Some 5)] = Inr (Some 5)"
    by code_simp
  have q: "read_quorum (quorum_width 3 3) = 2" "corroboration (quorum_width 3 3) = 2"
    "p_state_id demo_api 5 = [5]"
    by code_simp+
  show ?thesis using read_is_corroborated [OF r] r unfolding q by (simp add: q)
qed

lemma oks_map_take:
  assumes "distinct order"
  shows "length (oks (map answer order)) = card {x \<in> set order. \<not> isl (answer x)}"
proof -
  have "length (oks (map answer order)) = length (filter (\<lambda>x. \<not> isl (answer x)) order)"
    by (simp add: oks_map)
  also have "\<dots> = card {x \<in> set order. \<not> isl (answer x)}"
    using assms by (simp add: distinct_length_filter Int_def conj_commute)
  finally show ?thesis .
qed

lemma named_by_filter:
  "named_by api (oks (map answer order)) s =
     length (filter (\<lambda>x. \<not> isl (answer x) \<and> names_state api (projr (answer x)) s) order)"
  by (simp add: oks_map filter_map comp_def conj_commute)

lemma named_by_map:
  assumes "distinct order"
  shows "named_by api (oks (map answer order)) s =
    card {x \<in> set order. \<not> isl (answer x) \<and> names_state api (projr (answer x)) s}"
  using assms unfolding named_by_filter by (simp add: distinct_length_filter Int_def conj_commute)

text \<open>The answers a read saw before it settled hold enough copies of a written state.\<close>

lemma written_state_is_counted:
  assumes "distinct order" and "finite G" and "card G \<le> peers" and "set order \<subseteq> G" and "W \<subseteq> G"
    and "0 < peers" and "write_quorum peers \<le> card W"
    and "read_quorum peers \<le> length (oks (map answer order))"
    and "\<And>w r. w \<in> W \<inter> set order \<Longrightarrow> answer w = Inr r \<Longrightarrow> names_state api r s"
  shows "corroboration peers \<le> named_by api (oks (map answer order)) s"
proof -
  let ?R = "{x \<in> set order. \<not> isl (answer x)}"
  have "corroboration peers \<le> card (W \<inter> ?R)"
    using assms(2-8) oks_map_take [OF assms(1), of answer]
    by (intro quorum_sets_intersect [where G = G]) auto
  also have "W \<inter> ?R \<subseteq> {x \<in> set order. \<not> isl (answer x) \<and> names_state api (projr (answer x)) s}"
    using assms(9) by (auto simp: isl_def)
  then have "card (W \<inter> ?R) \<le> card {x \<in> set order. \<not> isl (answer x) \<and> names_state api (projr (answer x)) s}"
    by (intro card_mono) auto
  finally show ?thesis by (simp add: named_by_map [OF assms(1)])
qed

lemma chosen_dominant:
  assumes seen: "seen = tally_replies api rs"
    and c: "0 < needed" "needed \<le> named_by api rs s"
    and dom: "\<And>p q. Some p \<in> set rs \<Longrightarrow> Some q \<in> set rs \<Longrightarrow> p_state_id api p = s \<Longrightarrow> p_state_id api q \<noteq> s \<Longrightarrow>
        p_replaces api p q \<and> \<not> p_replaces api q p \<and> \<not> p_is_terminal api q"
    and maj: "needed \<le> majority"
  shows "\<exists>q. chosen api seen needed majority = Chosen_State (Some q) \<and> p_state_id api q = s"
proof -
  from c have "0 < named_by api rs s" by linarith
  from tally_complete [OF this] obtain p where
    p: "(p, named_by api rs s) \<in> set seen" "p_state_id api p = s" using seen by blast
  have named: "Some q \<in> set rs" if "(q, n) \<in> set seen" for q n using tally_entry(2) that seen by metis
  have fin: "p_state_id api q = s" if "(q, n) \<in> set seen" "p_is_terminal api q" for q n
    using dom [of p q] named [OF p(1)] named [OF that(1)] p(2) that(2) by blast
  obtain q where q: "corroborated api seen needed = Some q" "p_state_id api q = s"
    using corroborated_dominant [OF p(1) c(2), of "\<lambda>q. p_state_id api q = s" api] p(2) dom named by fastforce
  have "length (finals api seen) < 2"
  proof (rule ccontr)
    assume "\<not> length (finals api seen) < 2"
    then obtain x y fs where f: "finals api seen = x # y # fs"
      by (metis One_nat_def Suc_1 length_Cons lessI less_2_cases_iff list.exhaust list.size(3) zero_less_Suc)
    have d: "distinct (finals api seen)"
      using tally_replies_ok [of api rs] seen by (auto simp: finals_def tally_ok_def distinct_map)
    have "x \<in> set (finals api seen)" "y \<in> set (finals api seen)" using f by auto
    then have "p_state_id api (fst x) = s" "p_state_id api (fst y) = s" "x \<in> set seen" "y \<in> set seen"
      using fin by (auto simp: finals_def)
    then have "x = y" using tally_unique [of "fst x" "snd x" api rs "fst y" "snd y"] seen by simp
    with f d show False by simp
  qed
  then show ?thesis
    using q fin final_majority_SomeD [of api seen majority]
    by (cases "final_majority api seen majority") (fastforce simp: chosen_def)+
qed

text \<open>
  C16: a completed write is what every later read returns. Let a write quorum \<open>W\<close> of the
  close group \<open>G\<close> hold the state \<open>s\<close>, let every other state a peer may name be replaced
  by it and not be final, and let the peers of \<open>order\<close> answer in that order, each with a
  record, with an absence or with a failure. Whatever the order and wherever the read
  settles, it returns the written state as soon as a read quorum answered, and an error
  otherwise; never an older state and never an absence.
\<close>

theorem read_returns_written_state:
  assumes "distinct order" and "order \<noteq> []" and "set order \<subseteq> G" and "finite G" and "W \<subseteq> G"
    and "card G \<le> quorum_width (length order) cgs"
    and "write_quorum (quorum_width (length order) cgs) \<le> card W"
    and "\<And>w r. w \<in> W \<inter> set order \<Longrightarrow> answer w = Inr r \<Longrightarrow> names_state api r s"
    and "\<And>p q. Some p \<in> set (oks (map answer order)) \<Longrightarrow> Some q \<in> set (oks (map answer order)) \<Longrightarrow>
           p_state_id api p = s \<Longrightarrow> p_state_id api q \<noteq> s \<Longrightarrow>
           p_replaces api p q \<and> \<not> p_replaces api q p \<and> \<not> p_is_terminal api q"
  shows "if read_quorum (quorum_width (length order) cgs) \<le> length (oks (map answer order))
         then \<exists>q. read_answers api cgs (length order) (map answer order) = Inr (Some q) \<and> p_state_id api q = s
         else \<exists>e. read_answers api cgs (length order) (map answer order) = Inl e"
proof -
  let ?w = "quorum_width (length order) cgs"
  have w: "0 < ?w" using assms(2) by (auto simp: quorum_width_def less_max_iff_disj)
  obtain ys zs a where ys: "map answer order = ys @ zs" "ans_count a = length (oks ys)"
    and z: "zs \<noteq> [] \<longrightarrow> read_quorum ?w \<le> length (oks ys)"
    and v: "read_answers api cgs (length order) (map answer order) =
       read_verdict api ?w a (tally_replies api (oks ys))"
    using read_answers_cases [of "map answer order" "length order" cgs api] by metis
  show ?thesis
  proof (cases "read_quorum ?w \<le> length (oks (map answer order))")
    case True
    with z ys(1) have rq: "read_quorum ?w \<le> length (oks ys)" by (cases zs) auto
    let ?o = "take (length ys) order"
    have yo: "ys = map answer ?o"
      using arg_cong [OF ys(1), of "take (length ys)"] by (simp add: take_map)
    have sub: "set ?o \<subseteq> set order" by (rule set_take_subset)
    have "corroboration ?w \<le> named_by api (oks (map answer ?o)) s"
      using assms(1,3-8) sub w rq yo by (intro written_state_is_counted [where G = G and W = W]) auto
    moreover have "0 < corroboration ?w" using w by (simp add: corroboration_def)
    moreover have "set (oks ys) \<subseteq> set (oks (map answer order))" using ys(1) by simp
    ultimately obtain q where "chosen api (tally_replies api (oks ys)) (corroboration ?w) (read_quorum ?w) =
        Chosen_State (Some q)" "p_state_id api q = s"
      using chosen_dominant [OF refl, where needed = "corroboration ?w" and api = api and rs = "oks ys"
          and s = s and majority = "read_quorum ?w"] assms(9)
        corroboration_le_read_quorum [of ?w] yo by (metis subsetD)
    moreover have "0 < ans_count a" using rq ys(2) read_quorum_pos [of ?w] by linarith
    ultimately show ?thesis using True rq ys(2) v by (simp add: read_verdict_def Let_def)
  next
    case False
    with z ys(1) have "length (oks ys) < read_quorum ?w" by (cases zs) auto
    with False v ys(2) show ?thesis by (auto simp: read_verdict_def Let_def)
  qed
qed

theorem read_returns_written_state_witness:
  "\<exists>q. read_answers demo_api 7 7 (map (\<lambda>n. if n = 0 then Inl Timeout else if n < 3 then Inr (Some 4)
       else Inr (Some 5)) [0, 1, 3, 2, 4, 5, 6 :: nat]) = Inr (Some q) \<and> p_state_id demo_api q = [5]"
proof -
  let ?answer = "\<lambda>n :: nat. if n = 0 then Inl Timeout else if n < 3 then Inr (Some (4 :: nat)) else Inr (Some 5)"
  let ?order = "[0, 1, 3, 2, 4, 5, 6] :: nat list"
  have o: "oks (map ?answer ?order) = [Some 4, Some 5, Some 4, Some 5, Some 5, Some 5]" by simp
  have "if read_quorum (quorum_width (length ?order) 7) \<le> length (oks (map ?answer ?order))
     then \<exists>q. read_answers demo_api 7 (length ?order) (map ?answer ?order) = Inr (Some q) \<and>
            p_state_id demo_api q = [5]
     else \<exists>e. read_answers demo_api 7 (length ?order) (map ?answer ?order) = Inl e"
  proof (rule read_returns_written_state [where G = "{0..<7}" and W = "{0, 3, 4, 5, 6}"])
    show "write_quorum (quorum_width (length ?order) 7) \<le> card {0, 3, 4, 5, 6 :: nat}"
      by (simp add: write_quorum_def read_quorum_def quorum_width_def)
    show "names_state demo_api r [5]"
      if "w \<in> {0, 3, 4, 5, 6} \<inter> set ?order" "?answer w = Inr r" for w r
      using that by (auto simp: demo_api_def split: if_splits)
    show "p_replaces demo_api p q \<and> \<not> p_replaces demo_api q p \<and> \<not> p_is_terminal demo_api q"
      if "Some p \<in> set (oks (map ?answer ?order))" "Some q \<in> set (oks (map ?answer ?order))"
        "p_state_id demo_api p = [5]" "p_state_id demo_api q \<noteq> [5]" for p q
      using that unfolding o by (auto simp: demo_api_def)
  qed (auto simp: quorum_width_def)
  moreover have "length ?order = 7" by simp
  ultimately show ?thesis unfolding o by (simp only: quorum_width_def read_quorum_def) simp
qed

subsection \<open>Finality and writes\<close>

fun note_answer :: "answered \<Rightarrow> (error, 'a) result \<Rightarrow> answered" where
  "note_answer a (Inl e) = note_failure e a"
| "note_answer a (Inr _) = a\<lparr>ans_count := ans_count a + 1\<rparr>"

lemma ask_everyone:
  "ask_the_group wanted (\<lambda>k x. (False, f k x)) answers a k =
     (foldl note_answer a answers, foldl f k (oks answers))"
  by (induction wanted "\<lambda>k x. (False, f k x)" answers a k rule: ask_the_group.induct) auto

lemma note_answers_count [simp]:
  "ans_count (foldl note_answer a xs) = ans_count a + length (oks xs)"
  by (induction xs arbitrary: a rule: oks.induct) auto

lemma finality_answers_InrD:
  assumes "finality_answers api cgs found address answers = Inr f"
  shows "pf_answered f = length (oks answers)" and "pf_group f = quorum_width found cgs"
    and "read_quorum (quorum_width found cgs) \<le> length (oks answers)"
    and "pf_status f = finality_status_of api (tally_replies api (oks answers)) (quorum_width found cgs)
           (length (oks answers))"
  using assms
  by (auto simp: finality_answers_def ask_everyone no_answers_def Let_def split: if_splits)

lemma sort_key_singleton:
  assumes "sort_key f xs = [x]"
  shows "xs = [x]"
proof -
  have "length xs = 1" "set xs = {x}"
    using arg_cong [OF assms, of length] arg_cong [OF assms, of set] by simp_all
  then show ?thesis by (cases xs) auto
qed

lemma finality_single:
  assumes "finality_status_of api seen grp n = Final st"
  shows "\<exists>record. finals api seen = [(record, fs_holders st)] \<and> st = final_state_of api record (fs_holders st) \<and>
    read_quorum grp \<le> fs_holders st \<and> grp \<le> n"
proof -
  let ?fs = "map (\<lambda>(record, n). final_state_of api record n) (finals api seen)"
  let ?srt = "sort_key (\<lambda>state. - int (fs_holders state)) ?fs"
  from assms have s: "?srt = [st]" and q: "read_quorum grp \<le> fs_holders st" "grp \<le> n"
    by (auto simp: finality_status_of_def Let_def split: list.splits if_splits)
  from sort_key_singleton [OF s] have "?fs = [st]" .
  then obtain e where e: "finals api seen = [e]" "(\<lambda>(record, n). final_state_of api record n) e = st"
    by auto
  then show ?thesis using q by (cases e) (auto simp: final_state_of_def Let_def)
qed

lemma named_terminal_in_finals:
  assumes "Some q \<in> set rs" and "p_is_terminal api q"
    and "\<And>p. p_state_id api p = p_state_id api q \<Longrightarrow> p_is_terminal api p = p_is_terminal api q"
  shows "\<exists>p n. (p, n) \<in> set (finals api (tally_replies api rs)) \<and> p_state_id api p = p_state_id api q"
proof -
  from assms(1) have "0 < named_by api rs (p_state_id api q)"
    by (simp add: filter_empty_conv) (metis names_state_simps(2))
  from tally_complete [OF this] obtain p where
    p: "(p, named_by api rs (p_state_id api q)) \<in> set (tally_replies api rs)" "p_state_id api p = p_state_id api q"
    by blast
  with assms(2) assms(3) [of p]
  have "(p, named_by api rs (p_state_id api q)) \<in> set (finals api (tally_replies api rs))"
    unfolding finals_def by (simp only: set_filter) blast
  with p(2) show ?thesis by blast
qed

text \<open>
  Finality is reported only on the whole group's word. When the client reports a record
  as final, every peer of the group answered (a shortened group counts its missing members),
  a majority of them hold one terminal record of that state, and no answer named any other
  terminal state.
\<close>

theorem final_report_is_unanimous_about_finals:
  assumes "finality_answers api cgs found address answers = Inr f" and "pf_status f = Final st"
    and "\<And>p q. p_state_id api p = p_state_id api q \<Longrightarrow> p_is_terminal api p = p_is_terminal api q"
  shows "quorum_width found cgs \<le> length (oks answers) \<and>
    read_quorum (quorum_width found cgs) \<le> named_by api (oks answers) (fs_state_id st) \<and>
    (\<exists>q. Some q \<in> set (oks answers) \<and> p_is_terminal api q \<and> p_state_id api q = fs_state_id st) \<and>
    (\<forall>q. Some q \<in> set (oks answers) \<and> p_is_terminal api q \<longrightarrow> p_state_id api q = fs_state_id st)"
proof -
  let ?seen = "tally_replies api (oks answers)"
  note d = finality_answers_InrD [OF assms(1)]
  from finality_single [of api ?seen "quorum_width found cgs" "length (oks answers)" st] d(4) assms(2)
  obtain rec where f: "finals api ?seen = [(rec, fs_holders st)]"
    and st: "st = final_state_of api rec (fs_holders st)"
    and m: "read_quorum (quorum_width found cgs) \<le> fs_holders st" "quorum_width found cgs \<le> length (oks answers)"
    by auto
  from st have id: "fs_state_id st = p_state_id api rec"
    by (metis final_state.select_convs(1) final_state_of_def)
  have "(rec, fs_holders st) \<in> set (finals api ?seen)" using f by simp
  then have mem: "(rec, fs_holders st) \<in> set ?seen" "p_is_terminal api rec" by (auto simp: finals_def)
  have "p_state_id api q = fs_state_id st" if "Some q \<in> set (oks answers)" "p_is_terminal api q" for q
  proof -
    from named_terminal_in_finals [OF that assms(3)] obtain p n where
      "(p, n) \<in> set (finals api ?seen)" "p_state_id api p = p_state_id api q" by blast
    with f id show ?thesis by simp
  qed
  then have only: "\<forall>q. Some q \<in> set (oks answers) \<and> p_is_terminal api q \<longrightarrow> p_state_id api q = fs_state_id st"
    by blast
  from tally_entry(1,2) [OF mem(1)] mem(2) id
  have "\<exists>q. Some q \<in> set (oks answers) \<and> p_is_terminal api q \<and> p_state_id api q = fs_state_id st"
    and "fs_holders st = named_by api (oks answers) (fs_state_id st)" by metis+
  with m only show ?thesis by simp
qed

theorem final_report_is_unanimous_about_finals_witness:
  "\<exists>f st. finality_answers demo_api 3 3 [0] [Inr (Some 4), Inr (Some 100), Inr (Some 100)] = Inr f \<and>
     pf_status f = Final st \<and> 2 \<le> named_by demo_api [Some 4, Some 100, Some 100] (fs_state_id st)"
proof -
  let ?answers = "[Inr (Some (4 :: nat)), Inr (Some 100), Inr (Some 100)] :: (error, nat option) result list"
  let ?st = "\<lparr>fs_state_id = [100], fs_kind_tag = 0, fs_target = [100], fs_holders = 2\<rparr>"
  let ?f = "\<lparr>pf_address = [0], pf_group = 3, pf_answered = 3, pf_status = Final ?st\<rparr>"
  have f: "finality_answers demo_api 3 3 [0] ?answers = Inr ?f" by code_simp
  have st: "pf_status ?f = Final ?st" by simp
  have law: "p_is_terminal demo_api p = p_is_terminal demo_api q"
    if "p_state_id demo_api p = p_state_id demo_api q" for p q
  proof -
    have "unat (of_nat p :: 8 word) = unat (of_nat q :: 8 word)" using that by (simp add: demo_api_def)
    then show ?thesis by (simp add: demo_api_def unat_of_nat)
  qed
  have "read_quorum (quorum_width 3 3) = 2" "oks ?answers = [Some 4, Some 100, Some 100]" by code_simp+
  with final_report_is_unanimous_about_finals [OF f st law] f st show ?thesis by auto
qed

text \<open>What a round of writes makes of its replies.\<close>

definition refusals_of :: "(error, 'a) result list \<Rightarrow> error list" where
  "refusals_of answers = [e. Inl e \<leftarrow> answers, \<not> worth_retrying e]"

lemma note_answers_refusals:
  "ans_refusals (foldl note_answer a xs) = ans_refusals a + length (refusals_of xs)"
proof (induction xs arbitrary: a)
  case (Cons x xs)
  then show ?case by (cases x) (auto simp: refusals_of_def note_failure_def)
qed (simp add: refusals_of_def)

lemma note_answers_refusal:
  "ans_refusal (foldl note_answer a xs) =
     (case ans_refusal a of Some e \<Rightarrow> Some e
      | None \<Rightarrow> (case refusals_of xs of [] \<Rightarrow> None | e # _ \<Rightarrow> Some e))"
proof (induction xs arbitrary: a)
  case (Cons x xs)
  then show ?case by (cases x) (auto simp: refusals_of_def note_failure_def split: option.splits)
qed (auto simp: refusals_of_def split: option.splits)

lemma last_error_retryable:
  assumes "refusals_of xs = []" and "oks xs = []" and "xs \<noteq> []"
  shows "\<exists>e. ans_last_error (foldl note_answer no_answers xs) = Some e \<and> worth_retrying e"
proof -
  from assms(3) obtain ys x where "xs = ys @ [x]" by (metis rev_exhaust)
  with assms(1,2) show ?thesis by (cases x) (auto simp: refusals_of_def note_failure_def split: if_splits)
qed

text \<open>
  The verdict on a round of writes to a whole group. It is a success exactly when a
  write quorum stored the record; an error that ends the write without another attempt is
  one of three: the group has moved past the record, a corroborating number of peers
  refused while none stored it, or nobody said anything at all. In particular a single
  peer's refusal never ends a paid write.
\<close>

theorem write_verdict:
  "(judge_write stored wanted moved (foldl note_answer no_answers replies) = Inr () \<longleftrightarrow> wanted \<le> stored) \<and>
    (\<forall>e. judge_write stored wanted moved (foldl note_answer no_answers replies) = Inl e \<and> \<not> worth_retrying e \<longrightarrow>
       moved \<or> (stored = 0 \<and> corroboration wanted \<le> length (refusals_of replies) \<and> e \<in> set (refusals_of replies)) \<or>
       replies = [])"
proof -
  define a where "a = foldl note_answer no_answers replies"
  have r: "ans_refusals a = length (refusals_of replies)" "ans_count a = length (oks replies)"
    "ans_refusal a = (case refusals_of replies of [] \<Rightarrow> None | e # _ \<Rightarrow> Some e)"
    by (simp_all add: a_def note_answers_refusals note_answers_refusal no_answers_def)
  have s: "worth_retrying CloseGroupShortfall" by (simp add: worth_retrying_def)
  have l: "\<exists>e. ans_last_error a = Some e \<and> worth_retrying e"
    if "refusals_of replies = []" "oks replies = []" "replies \<noteq> []"
    using last_error_retryable [OF that] by (simp add: a_def)
  have "moved \<or> (stored = 0 \<and> corroboration wanted \<le> length (refusals_of replies) \<and> e \<in> set (refusals_of replies)) \<or>
       replies = []" if "judge_write stored wanted moved a = Inl e" "\<not> worth_retrying e" for e
    using that s l r by (auto simp: judge_write_def split: if_splits list.splits option.splits)
  moreover have "judge_write stored wanted moved a = Inr () \<longleftrightarrow> wanted \<le> stored"
    by (simp add: judge_write_def)
  ultimately show ?thesis unfolding a_def by blast
qed

theorem write_verdict_witness:
  "judge_write 0 5 False (foldl note_answer no_answers
       ([Inl Payment, Inl Timeout, Inl Payment] :: (error, put_ack) result list)) = Inl Payment \<and>
   corroboration 5 \<le> length (refusals_of ([Inl Payment, Inl Timeout, Inl Payment] :: (error, put_ack) result list))"
proof -
  let ?r = "[Inl Payment, Inl Timeout, Inl Payment] :: (error, put_ack) result list"
  have j: "judge_write 0 5 False (foldl note_answer no_answers ?r) = Inl Payment"
    by code_simp
  have "\<not> worth_retrying Payment" by code_simp
  with j conjunct2 [OF write_verdict [of 0 5 False ?r], THEN spec, of Payment]
  show ?thesis by simp
qed

end
