(* ===== verification/Engine.thy ===== *)
theory Engine
  imports Prelude "HOL-Library.AList"
begin

text \<open>
  The scheduling primitives of \<^verbatim>\<open>ant-core/src/client_engine.rs\<close>: the quorum operation
  with fallback targets, the rolling window of concurrent operations and the negative cache of
  transport endpoints. A set of running futures is a list; which of them completes next, and
  with what result, is decided by the world, the parameter \<open>complete\<close>. The index it returns is
  reduced modulo the number of running futures, so every function is a possible world.
\<close>

type_synonym ('i, 'r, 's) completer = "'i list \<Rightarrow> 's \<Rightarrow> nat \<times> 'r \<times> 's"

definition next_completion :: "('i, 'r, 's) completer \<Rightarrow> 'i list \<Rightarrow> 's \<Rightarrow> 'i \<times> 'r \<times> 'i list \<times> 's" where
  "next_completion complete in_flight s =
     (case complete in_flight s of
        (n, r, s') \<Rightarrow>
          let k = n mod length in_flight
          in (in_flight ! k, r, take k in_flight @ drop (Suc k) in_flight, s'))"

lemma next_completion_mset:
  assumes "next_completion complete fl s = (x, r, fl', s')" and "fl \<noteq> []"
  shows "mset fl = add_mset x (mset fl')" and "length fl = Suc (length fl')"
proof -
  obtain n r0 s0 where c: "complete fl s = (n, r0, s0)" by (metis prod_cases3)
  define k where "k = n mod length fl"
  have k: "k < length fl" using assms(2) by (simp add: k_def)
  have x: "x = fl ! k" and fl': "fl' = take k fl @ drop (Suc k) fl"
    using assms(1) by (auto simp: next_completion_def c Let_def k_def)
  have "mset fl = mset (take k fl @ fl ! k # drop (Suc k) fl)" using id_take_nth_drop [OF k] by simp
  then show "mset fl = add_mset x (mset fl')" by (simp add: x fl')
  then show "length fl = Suc (length fl')" by (metis size_add_mset size_mset)
qed

section \<open>Quorum with fallback\<close>

record ('t, 'e) quorum_outcome =
  successful_targets :: "'t list"
  qo_failures :: "('t \<times> 'e) list"
  qo_reached :: bool

function (sequential) quorum_loop ::
  "('t, ('e, unit) result, 's) completer \<Rightarrow> nat \<Rightarrow> 't list \<Rightarrow> 't list \<Rightarrow> 't list \<Rightarrow> ('t \<times> 'e) list \<Rightarrow> 's \<Rightarrow>
     ('t, 'e) quorum_outcome \<times> 's" where
  "quorum_loop complete required targets [] succ fails s =
     (\<lparr>successful_targets = succ, qo_failures = fails, qo_reached = False\<rparr>, s)"
| "quorum_loop complete required targets in_flight succ fails s =
     (case next_completion complete in_flight s of
        (target, r, in_flight, s) \<Rightarrow>
          (case r of
             Inr _ \<Rightarrow>
               if required \<le> length (succ @ [target])
               then (\<lparr>successful_targets = succ @ [target], qo_failures = fails, qo_reached = True\<rparr>, s)
               else quorum_loop complete required targets in_flight (succ @ [target]) fails s
           | Inl e \<Rightarrow>
               (case targets of
                  fallback # targets \<Rightarrow>
                    quorum_loop complete required targets (in_flight @ [fallback]) succ (fails @ [(target, e)]) s
                | [] \<Rightarrow> quorum_loop complete required [] in_flight succ (fails @ [(target, e)]) s)))"
  by pat_completeness auto
termination
  by (relation "measure (\<lambda>(_, _, targets, in_flight, _). 2 * length targets + length in_flight)")
    (auto dest!: next_completion_mset(2) [OF sym])

definition quorum_with_fallback ::
  "('t, ('e, unit) result, 's) completer \<Rightarrow> 't list \<Rightarrow> nat \<Rightarrow> 's \<Rightarrow> ('t, 'e) quorum_outcome \<times> 's" where
  "quorum_with_fallback complete targets required s =
     (if required = 0 then (\<lparr>successful_targets = [], qo_failures = [], qo_reached = True\<rparr>, s)
      else quorum_loop complete required (drop required targets) (take required targets) [] [] s)"

definition quorum_inv :: "nat \<Rightarrow> 't list \<Rightarrow> 't list \<Rightarrow> 't list \<Rightarrow> ('t \<times> 'e) list \<Rightarrow> ('t, 'e) quorum_outcome \<Rightarrow> bool" where
  "quorum_inv required targets fl succ fails out \<longleftrightarrow>
    (qo_reached out \<longrightarrow> length (successful_targets out) = required) \<and>
    (\<not> qo_reached out \<longrightarrow> length (successful_targets out) < required) \<and>
    length fails \<le> length (qo_failures out) \<and>
    mset (successful_targets out) + mset (map fst (qo_failures out)) \<subseteq>#
      mset (take (length (qo_failures out) - length fails) targets) + mset fl + mset succ + mset (map fst fails) \<and>
    (\<not> qo_reached out \<longrightarrow> mset (successful_targets out) + mset (map fst (qo_failures out)) =
      mset targets + mset fl + mset succ + mset (map fst fails))"

lemma quorum_loop_spec:
  assumes "quorum_loop complete required targets fl succ fails s = (out, s')" and "length succ < required"
    and "length fl + length succ = required \<or> targets = []"
  shows "quorum_inv required targets fl succ fails out"
  using assms
proof (induction complete required targets fl succ fails s rule: quorum_loop.induct)
  case (1 complete required targets succ fails s)
  then show ?case by (auto simp: quorum_inv_def)
next
  case (2 complete required targets i more succ fails s)
  obtain t r fl' s1 where step: "next_completion complete (i # more) s = (t, r, fl', s1)"
    by (metis prod_cases4)
  note fl = next_completion_mset [OF step, simplified]
  show ?case
  proof (cases r)
    case (Inr u)
    show ?thesis
    proof (cases "required \<le> length (succ @ [t])")
      case True
      with 2(4,5) Inr step show ?thesis by (auto simp: fl quorum_inv_def)
    next
      case False
      with 2(4) Inr step have "quorum_loop complete required targets fl' (succ @ [t]) fails s1 = (out, s')" by simp
      with 2 step Inr False fl(2) have "quorum_inv required targets fl' (succ @ [t]) fails out" by auto
      then show ?thesis by (simp add: quorum_inv_def fl(1))
    qed
  next
    case (Inl e)
    show ?thesis
    proof (cases targets)
      case Nil
      with 2(4) Inl step have "quorum_loop complete required [] fl' succ (fails @ [(t, e)]) s1 = (out, s')" by simp
      with 2 step Inl Nil have "quorum_inv required [] fl' succ (fails @ [(t, e)]) out" by auto
      then show ?thesis by (auto simp: quorum_inv_def fl(1) Nil)
    next
      case (Cons f ts)
      with 2(4) Inl step have "quorum_loop complete required ts (fl' @ [f]) succ (fails @ [(t, e)]) s1 = (out, s')" by simp
      with 2 step Inl Cons fl(2) have inv: "quorum_inv required ts (fl' @ [f]) succ (fails @ [(t, e)]) out" by auto
      then have "length (qo_failures out) - length fails = Suc (length (qo_failures out) - Suc (length fails))"
        by (auto simp: quorum_inv_def)
      with inv show ?thesis by (simp add: quorum_inv_def fl(1) Cons)
    qed
  qed
qed

lemma quorum_spec:
  assumes "quorum_with_fallback complete targets required s = (out, s')"
  shows "(qo_reached out \<longleftrightarrow> length (successful_targets out) = required) \<and>
    length (successful_targets out) \<le> required \<and>
    mset (successful_targets out) + mset (map fst (qo_failures out)) \<subseteq>#
      mset (take (required + length (qo_failures out)) targets) \<and>
    (\<not> qo_reached out \<longrightarrow> mset (successful_targets out) + mset (map fst (qo_failures out)) = mset targets)"
proof (cases "required = 0")
  case True
  with assms show ?thesis by (auto simp: quorum_with_fallback_def)
next
  case False
  with assms have "quorum_loop complete required (drop required targets) (take required targets) [] [] s = (out, s')"
    by (simp add: quorum_with_fallback_def)
  from quorum_loop_spec [OF this] False
  have inv: "quorum_inv required (drop required targets) (take required targets) [] [] out"
    by (cases "length targets \<le> required") auto
  have first: "mset (take n (drop required targets)) + mset (take required targets) = mset (take (required + n) targets)" for n
    by (metis add.commute mset_append take_add)
  have all: "mset (drop required targets) + mset (take required targets) = mset targets"
    by (metis add.commute append_take_drop_id mset_append)
  show ?thesis using inv by (auto simp: quorum_inv_def first all)
qed

section \<open>Rolling window\<close>

function rolling_loop ::
  "('i, 'r, 's) completer \<Rightarrow> ('s \<Rightarrow> nat) \<Rightarrow> 'i list \<Rightarrow> 'i list \<Rightarrow> 's \<Rightarrow> ('i \<times> 'r) list \<times> 's" where
  "rolling_loop complete current_cap items in_flight s =
     (let room = max (current_cap s) 1 - length in_flight;
          launched = in_flight @ take room items
      in if launched = [] then ([], s)
         else (case next_completion complete launched s of
                 (item, r, in_flight, s) \<Rightarrow>
                   (case rolling_loop complete current_cap (drop room items) in_flight s of
                      (out, s) \<Rightarrow> ((item, r) # out, s))))"
  by pat_completeness auto
termination
  by (relation "measure (\<lambda>(_, _, items, in_flight, _). length items + length in_flight)")
    (auto dest!: next_completion_mset(2) [OF sym])

declare rolling_loop.simps [simp del]

definition rolling_unordered ::
  "('i, 'r, 's) completer \<Rightarrow> 'i list \<Rightarrow> ('s \<Rightarrow> nat) \<Rightarrow> 's \<Rightarrow> ('i \<times> 'r) list \<times> 's" where
  "rolling_unordered complete items current_cap s = rolling_loop complete current_cap items [] s"

lemma rolling_step:
  assumes "room = max (cap s) 1 - length fl" and "launched = fl @ take room items" and "launched \<noteq> []"
    and "next_completion complete launched s = (x, r, fl', s1)"
  shows "rolling_loop complete cap items fl s =
    ((x, r) # fst (rolling_loop complete cap (drop room items) fl' s1),
     snd (rolling_loop complete cap (drop room items) fl' s1))"
proof -
  have "rolling_loop complete cap items fl s =
      (if launched = [] then ([], s)
       else (case next_completion complete launched s of
               (item, r, fl, s) \<Rightarrow> (case rolling_loop complete cap (drop room items) fl s of
                                     (out, s) \<Rightarrow> ((item, r) # out, s))))"
    unfolding assms(1,2) by (subst rolling_loop.simps) (simp only: Let_def)
  then show ?thesis using assms(3,4) by (simp add: case_prod_unfold)
qed

lemma rolling_done: "rolling_loop complete cap [] [] s = ([], s)"
  by (simp add: rolling_loop.simps)

lemma rolling_idle: "fl @ take (max n 1 - length fl) items = [] \<Longrightarrow> items = [] \<and> fl = []"
  by (cases items) auto

text \<open>Every item is attempted exactly once, whatever the caps read and the order of completion.\<close>

lemma rolling_loop_mset: "mset (map fst (fst (rolling_loop complete cap items fl s))) = mset items + mset fl"
proof (induction complete cap items fl s rule: rolling_loop.induct)
  case (1 complete cap items fl s)
  define room where "room = max (cap s) 1 - length fl"
  define launched where "launched = fl @ take room items"
  show ?case
  proof (cases "launched = []")
    case True
    then have "items = [] \<and> fl = []" unfolding launched_def room_def by (rule rolling_idle)
    then show ?thesis by (simp add: rolling_done)
  next
    case False
    obtain x r fl' s1 where step: "next_completion complete launched s = (x, r, fl', s1)" by (metis prod_cases4)
    have IH: "mset (map fst (fst (rolling_loop complete cap (drop room items) fl' s1))) = mset (drop room items) + mset fl'"
      using 1 [OF room_def launched_def False step [symmetric] refl refl] .
    have "mset items = mset (take room items) + mset (drop room items)"
      by (metis append_take_drop_id mset_append)
    moreover have "mset fl + mset (take room items) = add_mset x (mset fl')"
      using next_completion_mset(1) [OF step False] by (simp only: launched_def mset_append)
    ultimately show ?thesis using IH
      unfolding rolling_step [of room cap s fl launched, OF room_def launched_def False step]
      by (simp add: ac_simps)
  qed
qed

text \<open>What every completion satisfies, every reported result satisfies.\<close>

lemma rolling_loop_all:
  assumes "\<And>fl s x r fl' s'. fl \<noteq> [] \<Longrightarrow> next_completion complete fl s = (x, r, fl', s') \<Longrightarrow> P x r"
    and "(y, q) \<in> set (fst (rolling_loop complete cap items fl s))"
  shows "P y q"
  using assms(2)
proof (induction "length items + length fl" arbitrary: items fl s rule: less_induct)
  case less
  define room where "room = max (cap s) 1 - length fl"
  define launched where "launched = fl @ take room items"
  have ne: "launched \<noteq> []"
  proof
    assume "launched = []"
    then have "items = [] \<and> fl = []" unfolding launched_def room_def by (rule rolling_idle)
    with less(2) show False by (simp add: rolling_done)
  qed
  obtain x r fl' s1 where step: "next_completion complete launched s = (x, r, fl', s1)" by (metis prod_cases4)
  have "length (drop room items) + length fl' < length items + length fl"
    using next_completion_mset(2) [OF step ne] by (auto simp: launched_def)
  note IH = less(1) [OF this]
  show ?case
    using less(2) IH assms(1) [OF ne step]
    unfolding rolling_step [of room cap s fl launched, OF room_def launched_def ne step] by auto
qed

lemma rolling_mset: "mset (map fst (fst (rolling_unordered complete items cap s))) = mset items"
  by (simp add: rolling_unordered_def rolling_loop_mset del: mset_map)

text \<open>
  What callers rely on is only that a run completes what it was given, in some order.
\<close>

locale completing_run =
  fixes run :: "'i list \<Rightarrow> 's \<Rightarrow> ('i \<times> 'r) list \<times> 's"
  assumes completes: "mset (map fst (fst (run items s))) = mset items"
begin

lemma completed_items:
  assumes "run items s = (out, s')"
  shows "mset (map fst out) = mset items" and "fst ` set out = set items" and "length out = length items"
    and "distinct (map fst out) \<longleftrightarrow> distinct items"
proof -
  show *: "mset (map fst out) = mset items" using completes [of items s] assms by simp
  show "fst ` set out = set items" using mset_eq_setD [OF *] by simp
  show "length out = length items" using mset_eq_length [OF *] by simp
  show "distinct (map fst out) \<longleftrightarrow> distinct items" using mset_eq_imp_distinct_iff [OF *] .
qed

end

interpretation rolling: completing_run "\<lambda>items. rolling_unordered complete items cap" for complete cap
  by unfold_locales (rule rolling_mset)

section \<open>Byte budget of concurrent stores\<close>

definition STORE_INFLIGHT_BYTE_BUDGET :: nat where
  "STORE_INFLIGHT_BYTE_BUDGET = 64 * 1024 * 1024"

definition store_byte_bound :: "nat \<Rightarrow> nat" where
  "store_byte_bound max_record_bytes =
     (if max_record_bytes = 0 then usize_max else max (STORE_INFLIGHT_BYTE_BUDGET div max_record_bytes) 1)"

text \<open>A world that also keeps the largest total size of the items it has seen running together.\<close>

definition metered :: "('i \<Rightarrow> nat) \<Rightarrow> ('i, 'r, 's) completer \<Rightarrow> ('i, 'r, 's \<times> nat) completer" where
  "metered sz complete in_flight sp =
     (case complete in_flight (fst sp) of
        (n, r, s) \<Rightarrow> (n, r, s, max (snd sp) (sum_list (map sz in_flight))))"

lemma sum_sizes_le:
  "(\<And>i. i \<in> set fl \<Longrightarrow> sz i \<le> m) \<Longrightarrow> sum_list (map sz fl) \<le> length fl * (m :: nat)"
  by (induction fl) (simp, force simp: add_le_mono)

lemma next_completion_metered:
  "next_completion (metered sz complete) fl (s, p) = (x, r, fl', s1, p1) \<Longrightarrow>
     p1 = max p (sum_list (map sz fl))"
  by (auto simp: next_completion_def metered_def Let_def split: prod.splits)

lemma next_completion_subset:
  "next_completion complete fl s = (x, r, fl', s') \<Longrightarrow> set fl' \<subseteq> set fl"
  by (auto simp: next_completion_def Let_def dest: in_set_takeD in_set_dropD split: prod.splits)

lemma rolling_peak:
  assumes "\<And>s. cap s \<le> B" and "0 < B" and "length fl \<le> B"
    and "\<And>i. i \<in> set items \<union> set fl \<Longrightarrow> sz i \<le> m" and "snd sp \<le> B * m"
  shows "snd (snd (rolling_loop (metered sz complete) cap items fl sp)) \<le> B * m"
  using assms
proof (induction "metered sz complete" cap items fl sp rule: rolling_loop.induct)
  case (1 cap items fl sp)
  define room where "room = max (cap sp) 1 - length fl"
  define launched where "launched = fl @ take room items"
  show ?case
  proof (cases "launched = []")
    case True
    then have "items = [] \<and> fl = []" unfolding launched_def room_def by (rule rolling_idle)
    then show ?thesis using 1(6) by (simp add: rolling_done)
  next
    case False
    obtain x r fl' s1 p1 where step: "next_completion (metered sz complete) launched sp = (x, r, fl', s1, p1)"
      by (metis prod_cases5)
    have len: "length launched \<le> B"
      using 1(2) [of sp] 1(3,4) by (auto simp: launched_def room_def)
    have sub: "set launched \<subseteq> set items \<union> set fl" by (auto simp: launched_def dest: in_set_takeD)
    have "sum_list (map sz launched) \<le> length launched * m"
      by (rule sum_sizes_le) (use sub 1(5) in blast)
    also have "\<dots> \<le> B * m" using len by simp
    finally have p1: "p1 \<le> B * m"
      using next_completion_metered [of sz complete launched "fst sp" "snd sp"] step 1(6) by simp
    have len': "length fl' \<le> B" using next_completion_mset(2) [OF step False] len by simp
    have small: "sz i \<le> m" if "i \<in> set (drop room items) \<union> set fl'" for i
      using that sub next_completion_subset [OF step] 1(5) in_set_dropD by fast
    have "snd (snd (rolling_loop (metered sz complete) cap (drop room items) fl' (s1, p1))) \<le> B * m"
      by (rule 1(1) [OF room_def launched_def False step [symmetric] refl refl 1(2,3) len' small])
        (simp_all add: p1)
    then show ?thesis
      unfolding rolling_step [of room cap sp fl launched, OF room_def launched_def False step] snd_conv .
  qed
qed

section \<open>Retry delays\<close>

definition STORE_MAX_RETRIES :: nat where
  "STORE_MAX_RETRIES = 3"

definition STORE_RETRY_BASE_DELAY_MS :: nat where
  "STORE_RETRY_BASE_DELAY_MS = 500"

definition store_retry_delay :: "nat \<Rightarrow> nat" where
  "store_retry_delay attempt = STORE_RETRY_BASE_DELAY_MS * 2 ^ (attempt - 1)"

section \<open>Negative cache of endpoints\<close>

text \<open>Instants and durations are milliseconds, and \<open>now\<close> is the instant of the call.\<close>

record failure_record =
  fr_endpoint :: string
  fr_failed_at :: nat
  fr_refused :: bool

record 'k endpoint_failure_cache =
  ec_cooldown :: nat
  ec_refusal_cooldown :: nat
  ec_max_entries :: nat
  ec_entries :: "('k \<times> failure_record) list"

definition failure_cache_new :: "nat \<Rightarrow> nat \<Rightarrow> nat \<Rightarrow> 'k endpoint_failure_cache" where
  "failure_cache_new cooldown refusal_cooldown max_entries =
     \<lparr>ec_cooldown = cooldown, ec_refusal_cooldown = refusal_cooldown,
      ec_max_entries = max max_entries 1, ec_entries = []\<rparr>"

definition cooldown_remaining :: "'k endpoint_failure_cache \<Rightarrow> nat \<Rightarrow> failure_record \<Rightarrow> nat" where
  "cooldown_remaining c now r =
     (if fr_refused r then ec_refusal_cooldown c else ec_cooldown c) - (now - fr_failed_at r)"

definition is_suppressed ::
  "'k \<Rightarrow> string \<Rightarrow> nat \<Rightarrow> 'k endpoint_failure_cache \<Rightarrow> bool \<times> 'k endpoint_failure_cache" where
  "is_suppressed peer endpoint now c =
     (case map_of (ec_entries c) peer of
        None \<Rightarrow> (False, c)
      | Some r \<Rightarrow>
          if fr_endpoint r \<noteq> endpoint \<or> cooldown_remaining c now r = 0
          then (False, c\<lparr>ec_entries := AList.delete peer (ec_entries c)\<rparr>)
          else (True, c))"

definition endpoint_refusals :: "nat \<Rightarrow> 'k endpoint_failure_cache \<Rightarrow> ('k \<times> nat) list" where
  "endpoint_refusals now c =
     filter (\<lambda>(_, left). left \<noteq> 0)
       (map (\<lambda>(peer, r). (peer, cooldown_remaining c now r)) (filter (\<lambda>(_, r). fr_refused r) (ec_entries c)))"

definition record_entry ::
  "'k \<Rightarrow> string \<Rightarrow> bool \<Rightarrow> nat \<Rightarrow> 'k endpoint_failure_cache \<Rightarrow> 'k endpoint_failure_cache" where
  "record_entry peer endpoint refused now c =
     (let entries =
        (if map_of (ec_entries c) peer = None \<and> ec_max_entries c \<le> length (ec_entries c) \<and> ec_entries c \<noteq> []
         then AList.delete (fst (arg_min_list (\<lambda>(_, r). cooldown_remaining c now r) (ec_entries c))) (ec_entries c)
         else ec_entries c)
      in c\<lparr>ec_entries :=
             AList.update peer \<lparr>fr_endpoint = endpoint, fr_failed_at = now, fr_refused = refused\<rparr> entries\<rparr>)"

definition record_failure :: "'k \<Rightarrow> string \<Rightarrow> nat \<Rightarrow> 'k endpoint_failure_cache \<Rightarrow> 'k endpoint_failure_cache" where
  "record_failure peer endpoint = record_entry peer endpoint False"

definition record_refusal :: "'k \<Rightarrow> string \<Rightarrow> nat \<Rightarrow> 'k endpoint_failure_cache \<Rightarrow> 'k endpoint_failure_cache" where
  "record_refusal peer endpoint = record_entry peer endpoint True"

definition record_success :: "'k \<Rightarrow> 'k endpoint_failure_cache \<Rightarrow> 'k endpoint_failure_cache" where
  "record_success peer c = c\<lparr>ec_entries := AList.delete peer (ec_entries c)\<rparr>"

definition cache_ok :: "'k endpoint_failure_cache \<Rightarrow> bool" where
  "cache_ok c \<longleftrightarrow> 0 < ec_max_entries c \<and> distinct (map fst (ec_entries c)) \<and>
     length (ec_entries c) \<le> ec_max_entries c"

text \<open>The operations of the cache, each at an instant of the client's clock.\<close>

datatype 'k cache_op = Failed 'k string | Refused 'k string | Succeeded 'k | Asked 'k string

fun cache_step :: "'k cache_op \<Rightarrow> nat \<Rightarrow> 'k endpoint_failure_cache \<Rightarrow> 'k endpoint_failure_cache" where
  "cache_step (Failed peer endpoint) now c = record_failure peer endpoint now c"
| "cache_step (Refused peer endpoint) now c = record_refusal peer endpoint now c"
| "cache_step (Succeeded peer) now c = record_success peer c"
| "cache_step (Asked peer endpoint) now c = snd (is_suppressed peer endpoint now c)"

lemma length_delete_le: "length (AList.delete k es) \<le> length es"
  by (simp add: AList.delete_eq)

lemma length_delete_less: "k \<in> fst ` set es \<Longrightarrow> length (AList.delete k es) < length es"
  by (auto simp: AList.delete_eq intro!: length_filter_less)

lemma length_update_le: "length (AList.update k v es) \<le> Suc (length es)"
  by (induction es) auto

lemma length_update_present: "map_of es k \<noteq> None \<Longrightarrow> length (AList.update k v es) = length es"
  by (induction es) (auto split: if_splits)

text \<open>Making room removes the entry that would expire first, and only when the cache is full.\<close>

definition make_room :: "'k \<Rightarrow> nat \<Rightarrow> 'k endpoint_failure_cache \<Rightarrow> ('k \<times> failure_record) list" where
  "make_room peer now c =
     (if map_of (ec_entries c) peer = None \<and> ec_max_entries c \<le> length (ec_entries c) \<and> ec_entries c \<noteq> []
      then AList.delete (fst (arg_min_list (\<lambda>(_, r). cooldown_remaining c now r) (ec_entries c))) (ec_entries c)
      else ec_entries c)"

lemma record_entry_eq:
  "record_entry peer endpoint refused now c =
     c\<lparr>ec_entries := AList.update peer \<lparr>fr_endpoint = endpoint, fr_failed_at = now, fr_refused = refused\<rparr>
                       (make_room peer now c)\<rparr>"
  by (simp add: record_entry_def make_room_def Let_def)

lemma make_room_length:
  assumes "cache_ok c"
  shows "length (AList.update peer v (make_room peer now c)) \<le> ec_max_entries c"
    and "distinct (map fst (make_room peer now c))"
proof -
  let ?x = "arg_min_list (\<lambda>(_, r). cooldown_remaining c now r) (ec_entries c)"
  have full: "length (AList.delete (fst ?x) (ec_entries c)) < length (ec_entries c)" if "ec_entries c \<noteq> []"
    by (rule length_delete_less) (use arg_min_list_in [OF that] in blast)
  show "length (AList.update peer v (make_room peer now c)) \<le> ec_max_entries c"
  proof (cases "map_of (ec_entries c) peer")
    case None
    then show ?thesis
      using assms full length_update_le [of peer v "make_room peer now c"]
      by (auto simp: make_room_def cache_ok_def split: if_splits)
  next
    case (Some r)
    then show ?thesis using assms by (simp add: make_room_def cache_ok_def length_update_present)
  qed
  show "distinct (map fst (make_room peer now c))"
    using assms by (simp add: make_room_def cache_ok_def AList.distinct_delete)
qed

lemma cache_ok_record: "cache_ok c \<Longrightarrow> cache_ok (record_entry peer endpoint refused now c)"
  using make_room_length [of c peer] by (simp add: record_entry_eq cache_ok_def distinct_update)

lemma cache_ok_delete: "cache_ok c \<Longrightarrow> cache_ok (c\<lparr>ec_entries := AList.delete peer (ec_entries c)\<rparr>)"
  using length_delete_le [of peer "ec_entries c"] by (simp add: cache_ok_def AList.distinct_delete)

lemma cache_ok_step: "cache_ok c \<Longrightarrow> cache_ok (cache_step op now c)"
  by (cases op)
    (auto simp: record_failure_def record_refusal_def record_success_def is_suppressed_def cache_ok_record
       cache_ok_delete split: option.split)

lemma cache_ok_run: "cache_ok c \<Longrightarrow> cache_ok (fold (\<lambda>(op, now). cache_step op now) ops c)"
  by (induction ops arbitrary: c) (auto simp: cache_ok_step)

section \<open>Properties\<close>

text \<open>C21: The quorum operation is exact: it reports a reached quorum exactly when it has the
  required number of successes and never more, it tries no target beyond the first required ones
  and one fallback per failure, and when the quorum is not reached every target was tried once
  and is reported as a success or a failure.\<close>

theorem quorum_uses_one_fallback_per_failure:
  assumes "quorum_with_fallback complete targets required s = (out, s')"
  shows "(qo_reached out \<longleftrightarrow> length (successful_targets out) = required) \<and>
    length (successful_targets out) \<le> required \<and>
    mset (successful_targets out) + mset (map fst (qo_failures out)) \<subseteq>#
      mset (take (required + length (qo_failures out)) targets) \<and>
    (\<not> qo_reached out \<longrightarrow> mset (successful_targets out) + mset (map fst (qo_failures out)) = mset targets)"
  using assms by (rule quorum_spec)

theorem quorum_uses_one_fallback_per_failure_witness:
  "\<exists>out s'. quorum_with_fallback
      (\<lambda>fl s. (1, if hd s then Inr () else Inl ''busy'', tl s)) [1, 2, 3, 4 :: nat] 2 [True, False, True] = (out, s') \<and>
    qo_reached out \<and> successful_targets out = [2, 3] \<and> qo_failures out = [(1, ''busy'')] \<and>
    mset (successful_targets out) + mset (map fst (qo_failures out)) \<subseteq># mset (take 3 [1, 2, 3, 4])"
proof -
  let ?c = "\<lambda>fl s. (1, if hd s then Inr () else Inl ''busy'', tl s)"
  obtain out s' where q: "quorum_with_fallback ?c [1, 2, 3, 4 :: nat] 2 [True, False, True] = (out, s')" by fastforce
  then have out: "qo_reached out" "successful_targets out = [2, 3]" "qo_failures out = [(1, ''busy'')]"
    by (auto simp: quorum_with_fallback_def next_completion_def numeral_eq_Suc)
  have "mset (successful_targets out) + mset (map fst (qo_failures out)) \<subseteq># mset (take 3 [1, 2, 3, 4])"
    using quorum_uses_one_fallback_per_failure [OF q] by (simp add: out(3))
  with q out show ?thesis by blast
qed

text \<open>C22: Concurrent stores stay within the byte budget: when the window's cap is bounded by the
  byte bound for the largest record and no record exceeds the budget, the records stored at the
  same time never hold more than the budget of 64 MiB together, and every record is attempted
  exactly once, whatever the order of completion and the caps read on the way.\<close>

theorem concurrent_stores_fit_the_byte_budget:
  assumes "\<And>s. cap s \<le> store_byte_bound max_size" and "\<And>i. i \<in> set items \<Longrightarrow> sz i \<le> max_size"
    and "max_size \<le> STORE_INFLIGHT_BYTE_BUDGET"
    and "rolling_unordered (metered sz complete) items cap (s, 0) = (out, s', peak)"
  shows "peak \<le> STORE_INFLIGHT_BYTE_BUDGET \<and> mset (map fst out) = mset items"
proof
  have "snd (snd (rolling_loop (metered sz complete) cap items [] (s, 0))) \<le> store_byte_bound max_size * max_size"
    by (rule rolling_peak) (use assms(1,2) in \<open>auto simp: store_byte_bound_def usize_max_def\<close>)
  moreover have "store_byte_bound max_size * max_size \<le> STORE_INFLIGHT_BYTE_BUDGET"
  proof (cases "max_size = 0")
    case False
    then have "max (STORE_INFLIGHT_BYTE_BUDGET div max_size) 1 = STORE_INFLIGHT_BYTE_BUDGET div max_size"
      using assms(3) by (simp add: Suc_le_eq div_greater_zero_iff)
    with False show ?thesis by (simp add: store_byte_bound_def)
  qed simp
  ultimately show "peak \<le> STORE_INFLIGHT_BYTE_BUDGET"
    using assms(4) by (simp add: rolling_unordered_def)
  show "mset (map fst out) = mset items" using assms(4) by (rule rolling.completed_items(1))
qed

text \<open>Three records of 32, 16 and 8 MiB under a limiter that allows two at a time.\<close>

theorem concurrent_stores_fit_the_byte_budget_witness:
  "\<exists>out s' peak.
     rolling_unordered (metered (\<lambda>i. i * 8 * 1024 * 1024) (\<lambda>fl (s :: nat). (1, True, s + 1)))
       [4, 2, 1] (\<lambda>_. min 2 (store_byte_bound (32 * 1024 * 1024))) (0, 0) = (out, s', peak) \<and>
     peak \<le> STORE_INFLIGHT_BYTE_BUDGET \<and> mset (map fst out) = mset [4, 2, 1]"
proof -
  let ?run = "rolling_unordered (metered (\<lambda>i. i * 8 * 1024 * 1024) (\<lambda>fl (s :: nat). (1 :: nat, True, s + 1)))
       [4, 2, 1] (\<lambda>_. min 2 (store_byte_bound (32 * 1024 * 1024))) (0, 0)"
  obtain out s' peak where run: "?run = (out, s', peak)" by (metis prod_cases3)
  have "peak \<le> STORE_INFLIGHT_BYTE_BUDGET \<and> mset (map fst out) = mset [4, 2, 1]"
    by (rule concurrent_stores_fit_the_byte_budget [OF _ _ _ run, of "32 * 1024 * 1024"])
      (auto simp: STORE_INFLIGHT_BYTE_BUDGET_def)
  with run show ?thesis by blast
qed

lemma map_of_make_room:
  assumes "cache_ok c" and "map_of (ec_entries c) p = Some r" and "p \<noteq> peer"
  shows "map_of (make_room peer now c) p = Some r \<or>
    length (ec_entries c) = ec_max_entries c \<and>
    (\<forall>(q, r') \<in> set (ec_entries c). cooldown_remaining c now r \<le> cooldown_remaining c now r')"
proof -
  let ?f = "\<lambda>(_, r). cooldown_remaining c now r"
  let ?x = "arg_min_list ?f (ec_entries c)"
  have ne: "ec_entries c \<noteq> []" using assms(2) by auto
  have least: "?f ?x \<le> ?f e" if "e \<in> set (ec_entries c)" for e
    using f_arg_min_list_f [OF ne, of ?f] that by simp
  have "?x = (p, r)" if "fst ?x = p"
    using arg_min_list_in [OF ne, of ?f] assms(1,2) that
    by (metis cache_ok_def map_of_eq_Some_iff option.inject prod.collapse)
  then have "\<forall>(q, r') \<in> set (ec_entries c). cooldown_remaining c now r \<le> cooldown_remaining c now r'" if "fst ?x = p"
    using least that by (auto simp: split_beta)
  then show ?thesis using assms by (auto simp: make_room_def cache_ok_def delete_conv')
qed

lemma cache_config_step [simp]:
  "ec_cooldown (cache_step op now c) = ec_cooldown c"
  "ec_max_entries (cache_step op now c) = ec_max_entries c"
  by (cases op; auto simp: record_failure_def record_refusal_def record_success_def record_entry_eq is_suppressed_def
        split: option.split)+

lemma cache_config_run:
  "ec_cooldown (fold (\<lambda>(op, now). cache_step op now) ops c) = ec_cooldown c"
  "ec_max_entries (fold (\<lambda>(op, now). cache_step op now) ops c) = ec_max_entries c"
  by (induction ops arbitrary: c) auto



end
