(* ===== verification/Pointer_Client.thy ===== *)
theory Pointer_Client
  imports Pointer Engine
begin

text \<open>
  The methods of \<^verbatim>\<open>impl Client\<close> in \<^verbatim>\<open>ant-core/src/data/client/pointer.rs\<close>:
  reads, finality checks, chain walks, signing, paid writes with their retries, transfers.
  A method passes the state \<open>'s\<close> of the world on; what the client does not implement
  itself is a field of \<open>pointer_net\<close> (peer lookup, the transport's exchange with a set of
  peers, the payment) or of \<open>signer\<close> (the signed record of \<^verbatim>\<open>ant_protocol\<close>). The
  requests to a group run concurrently: \<open>net_exchange\<close> returns the exchanges in the order
  in which they complete, each with the request id it was sent under. The exchange is the
  browser platform's (\<^verbatim>\<open>send_and_await_chunk_response\<close> without the
  \<^verbatim>\<open>native\<close> feature, whose code is in the repository).
\<close>

datatype request =
    PointerGetRequest key
  | PointerPutRequest bytes bytes

record ('s, 'r) pointer_net =
  net_close_group_size :: nat
  net_encodes :: "request \<Rightarrow> bool"
  net_find_closest :: "key \<Rightarrow> nat \<Rightarrow> ('s, error, 'r list) op"
  net_exchange :: "request \<Rightarrow> 'r list \<Rightarrow> 's \<Rightarrow> (u64 \<times> (error, u64 \<times> message_body) result) list \<times> 's"
  net_accepts :: "'r list \<Rightarrow> 's \<Rightarrow> bool option list \<times> 's"
  net_pay :: "key \<Rightarrow> key \<Rightarrow> ('s, error, bytes) op"
  net_sleep :: "nat \<Rightarrow> 's \<Rightarrow> 's"

datatype sign_error = CounterExhausted | SignRefused

record ('p, 'sk, 'pk) signer =
  sg_address :: "'pk \<Rightarrow> key"
  sg_create :: "'sk \<Rightarrow> 'pk \<Rightarrow> pointer_target \<Rightarrow> (sign_error, 'p) result"
  sg_update :: "'p \<Rightarrow> 'sk \<Rightarrow> pointer_target \<Rightarrow> (sign_error, 'p) result"
  sg_transfer_to :: "'p \<Rightarrow> 'sk \<Rightarrow> key \<Rightarrow> (sign_error, 'p) result"
  sg_sign_final :: "'sk \<Rightarrow> 'pk \<Rightarrow> pointer_target \<Rightarrow> (sign_error, 'p) result"
  sg_to_bytes :: "'p \<Rightarrow> bytes"
  sg_target :: "target_kind \<Rightarrow> key \<Rightarrow> pointer_target"
  sg_transferred_to :: "'p \<Rightarrow> key option"

subsection \<open>One exchange\<close>

definition send_and_await_chunk_response ::
  "u64 \<Rightarrow> (message_body \<Rightarrow> (error, 'a) result option) \<Rightarrow> error \<Rightarrow> error \<Rightarrow>
     (error, u64 \<times> message_body) result \<Rightarrow> (error, 'a) result" where
  "send_and_await_chunk_response request_id response_handler send_error timeout_error response =
     (case response of
        Inl Timeout \<Rightarrow> Inl Timeout
      | Inl _ \<Rightarrow> Inl send_error
      | Inr (response_id, body) \<Rightarrow>
          if response_id \<noteq> request_id then Inl timeout_error
          else (case response_handler body of Some r \<Rightarrow> r | None \<Rightarrow> Inl timeout_error))"

definition send_pointer_gets ::
  "('s, 'r) pointer_net \<Rightarrow> 'p pointer_api \<Rightarrow> key \<Rightarrow> 'r list \<Rightarrow> 's \<Rightarrow> (error, 'p option) result list \<times> 's" where
  "send_pointer_gets net api address peers s =
     (if net_encodes net (PointerGetRequest address) then
        let (done, s') = net_exchange net (PointerGetRequest address) peers s
        in (map (\<lambda>(rid, response). send_and_await_chunk_response rid
                   (\<lambda>body. read_get_reply api body address) Network Timeout response) done, s')
      else (map (\<lambda>_. Inl Protocol) peers, s))"

definition send_pointer_puts ::
  "('s, 'r) pointer_net \<Rightarrow> bytes \<Rightarrow> bytes \<Rightarrow> 'r list \<Rightarrow> key \<Rightarrow> key \<Rightarrow> 's \<Rightarrow>
     (error, put_ack) result list \<times> 's" where
  "send_pointer_puts net record_bytes proof targets expected_address expected_state s =
     (if net_encodes net (PointerPutRequest record_bytes proof) then
        let (done, s') = net_exchange net (PointerPutRequest record_bytes proof) targets s
        in (map (\<lambda>(rid, response). send_and_await_chunk_response rid
                   (\<lambda>body. read_put_reply body expected_address expected_state) Network Timeout response) done, s')
      else (map (\<lambda>_. Inl Protocol) targets, s))"

subsection \<open>Reads\<close>

definition pointer_group :: "('s, 'r) pointer_net \<Rightarrow> key \<Rightarrow> ('s, error, 'r list) op" where
  "pointer_group net address =
     bind_op (net_find_closest net address (net_close_group_size net))
       (\<lambda>peers. if peers = [] then err_op CloseGroupShortfall else ok_op peers)"

definition pointer_get ::
  "('s, 'r) pointer_net \<Rightarrow> 'p pointer_api \<Rightarrow> key \<Rightarrow> ('s, error, 'p option) op" where
  "pointer_get net api address =
     bind_op (pointer_group net address)
       (\<lambda>peers s. let (answers, s') = send_pointer_gets net api address peers s
                  in (read_answers api (net_close_group_size net) (length peers) answers, s'))"

definition pointer_finality_op ::
  "('s, 'r) pointer_net \<Rightarrow> 'p pointer_api \<Rightarrow> key \<Rightarrow> ('s, error, pointer_finality) op" where
  "pointer_finality_op net api address =
     bind_op (pointer_group net address)
       (\<lambda>peers s. let (answers, s') = send_pointer_gets net api address peers s
                  in (finality_answers api (net_close_group_size net) (length peers) address answers, s'))"

definition MAX_POINTER_RESOLVE_DEPTH :: nat where
  "MAX_POINTER_RESOLVE_DEPTH = 16"

fun resolve_hops ::
  "'p pointer_api \<Rightarrow> (key \<Rightarrow> ('s, error, 'p option) op) \<Rightarrow> nat \<Rightarrow> key set \<Rightarrow> key \<Rightarrow>
     ('s, error, pointer_target) op" where
  "resolve_hops api get 0 seen at = err_op InvalidData"
| "resolve_hops api get (Suc hops) seen at =
     (if at \<in> seen then err_op InvalidData
      else bind_op (get at)
        (\<lambda>found. case found of
           None \<Rightarrow> err_op InvalidData
         | Some record \<Rightarrow>
             (case p_kind api (p_target api record) of
                Some PointerKind \<Rightarrow>
                  resolve_hops api get hops (insert at seen) (target_address (p_target api record))
              | Some ChunkKind \<Rightarrow> ok_op (p_target api record)
              | None \<Rightarrow> ok_op (p_target api record))))"

definition pointer_resolve ::
  "('s, 'r) pointer_net \<Rightarrow> 'p pointer_api \<Rightarrow> key \<Rightarrow> ('s, error, pointer_target) op" where
  "pointer_resolve net api address =
     resolve_hops api (pointer_get net api) MAX_POINTER_RESOLVE_DEPTH {} address"

fun recipient_hops ::
  "'p pointer_api \<Rightarrow> (key \<Rightarrow> ('s, error, 'p option) op) \<Rightarrow> key \<Rightarrow> nat \<Rightarrow> nat \<Rightarrow> key set \<Rightarrow> key \<Rightarrow>
     ('s, error, unit) op" where
  "recipient_hops api get address hop 0 seen at = err_op InvalidData"
| "recipient_hops api get address hop (Suc hops) seen at =
     (if at = address then err_op InvalidData
      else if at \<in> seen then ok_op ()
      else bind_op (get at)
        (\<lambda>found. case found of
           None \<Rightarrow> if hop = 0 then err_op InvalidData else ok_op ()
         | Some record \<Rightarrow>
             if p_kind api (p_target api record) = Some PointerKind
             then recipient_hops api get address (Suc hop) hops (insert at seen)
                    (target_address (p_target api record))
             else ok_op ()))"

definition check_recipient_chain ::
  "'p pointer_api \<Rightarrow> key \<Rightarrow> key \<Rightarrow> (key \<Rightarrow> ('s, error, 'p option) op) \<Rightarrow> ('s, error, unit) op" where
  "check_recipient_chain api address recipient get =
     recipient_hops api get address 0 (MAX_POINTER_RESOLVE_DEPTH - 1) {} recipient"

definition check_recipient ::
  "('s, 'r) pointer_net \<Rightarrow> 'p pointer_api \<Rightarrow> key \<Rightarrow> key \<Rightarrow> ('s, error, unit) op" where
  "check_recipient net api address recipient =
     check_recipient_chain api address recipient (pointer_get net api)"

record pointer_controller =
  pc_pointer :: key
  pc_transfers :: "key list"
  pc_frozen :: bool

fun controller_hops ::
  "('p, 'sk, 'pk) signer \<Rightarrow> 'p pointer_api \<Rightarrow> (key \<Rightarrow> ('s, error, 'p option) op) \<Rightarrow> nat \<Rightarrow> key set \<Rightarrow>
     key list \<Rightarrow> key \<Rightarrow> ('s, error, pointer_controller) op" where
  "controller_hops sg api get 0 seen transfers at = err_op InvalidData"
| "controller_hops sg api get (Suc hops) seen transfers at =
     (if at \<in> seen then err_op InvalidData
      else bind_op (get at)
        (\<lambda>found. case found of
           None \<Rightarrow> err_op NotFound
         | Some record \<Rightarrow>
             (case sg_transferred_to sg record of
                Some nxt \<Rightarrow> controller_hops sg api get hops (insert at seen) (transfers @ [nxt]) nxt
              | None \<Rightarrow> ok_op \<lparr>pc_pointer = at, pc_transfers = transfers,
                               pc_frozen = p_is_terminal api record\<rparr>)))"

definition pointer_controller_op ::
  "('s, 'r) pointer_net \<Rightarrow> ('p, 'sk, 'pk) signer \<Rightarrow> 'p pointer_api \<Rightarrow> key \<Rightarrow>
     ('s, error, pointer_controller) op" where
  "pointer_controller_op net sg api address =
     controller_hops sg api (pointer_get net api) MAX_POINTER_RESOLVE_DEPTH {} [] address"

subsection \<open>Paid writes\<close>

definition moved_past :: "('s, 'r) pointer_net \<Rightarrow> 'p pointer_api \<Rightarrow> 'p \<Rightarrow> 's \<Rightarrow> bool \<times> 's" where
  "moved_past net api record s =
     (case pointer_get net api (p_address api record) s of
        (Inr (Some current), s') \<Rightarrow>
          (p_replaces api current record \<or>
           (p_is_terminal api record \<and> p_is_terminal api current \<and>
            p_state_id api current \<noteq> p_state_id api record), s')
      | (_, s') \<Rightarrow> (False, s'))"

fun note_ack :: "nat \<Rightarrow> nat \<times> nat \<Rightarrow> put_ack \<Rightarrow> bool \<times> nat \<times> nat" where
  "note_ack wanted (stored, stale) Stored = (wanted \<le> stored + 1, stored + 1, stale)"
| "note_ack wanted (stored, stale) Stale = (wanted \<le> stored, stored, stale + 1)"

definition put_round ::
  "('s, 'r) pointer_net \<Rightarrow> ('p, 'sk, 'pk) signer \<Rightarrow> 'p pointer_api \<Rightarrow> 'p \<Rightarrow> bytes \<Rightarrow> nat \<Rightarrow> 'r list \<Rightarrow>
     ('s, error, key) op" where
  "put_round net sg api record proof wanted targets s =
     (let (replies, s1) = send_pointer_puts net (sg_to_bytes sg record) proof targets
                            (p_address api record) (p_state_id api record) s;
          (answered, stored, stale) = ask_the_group wanted (note_ack wanted) replies no_answers (0, 0);
          (moved, s2) = (if stored < wanted \<and> 0 < stale then moved_past net api record s1 else (False, s1))
      in (bind_result (judge_write stored wanted moved answered) (\<lambda>_. Inr (p_address api record)), s2))"

definition pointer_put_once ::
  "('s, 'r) pointer_net \<Rightarrow> ('p, 'sk, 'pk) signer \<Rightarrow> 'p pointer_api \<Rightarrow> 'p \<Rightarrow> bytes \<Rightarrow> ('s, error, key) op" where
  "pointer_put_once net sg api record proof =
     bind_op (pointer_group net (p_address api record))
       (\<lambda>targets.
          let wanted = write_quorum (quorum_width (length targets) (net_close_group_size net))
          in if length targets < wanted then err_op CloseGroupShortfall
             else put_round net sg api record proof wanted targets)"

fun put_attempts ::
  "('s, 'r) pointer_net \<Rightarrow> ('p, 'sk, 'pk) signer \<Rightarrow> 'p pointer_api \<Rightarrow> 'p \<Rightarrow> bytes \<Rightarrow> nat \<Rightarrow> nat \<Rightarrow>
     ('s, error, key) op" where
  "put_attempts net sg api record proof left attempt s =
     (case pointer_put_once net sg api record proof s of
        (Inr address, s') \<Rightarrow> (Inr address, s')
      | (Inl e, s') \<Rightarrow>
          (case left of
             0 \<Rightarrow> (Inl e, s')
           | Suc left' \<Rightarrow>
               if worth_retrying e then
                 put_attempts net sg api record proof left' (attempt + 1)
                   (net_sleep net (store_retry_delay (attempt + 1)) s')
               else (Inl e, s')))"

definition pointer_put_paid ::
  "('s, 'r) pointer_net \<Rightarrow> ('p, 'sk, 'pk) signer \<Rightarrow> 'p pointer_api \<Rightarrow> 'p \<Rightarrow> bytes \<Rightarrow> ('s, error, key) op" where
  "pointer_put_paid net sg api record proof = put_attempts net sg api record proof STORE_MAX_RETRIES 0"

fun await_takers :: "nat \<Rightarrow> nat \<Rightarrow> bool option list \<Rightarrow> nat \<Rightarrow> nat \<Rightarrow> (error, unit) result" where
  "await_takers wanted grp [] taking refusing = Inr ()"
| "await_takers wanted grp (answer # rest) taking refusing =
     (let taking' = (if answer = Some True then taking + 1 else taking);
          refusing' = (if answer = Some False then refusing + 1 else refusing)
      in if wanted \<le> taking' then Inr ()
         else if grp - refusing' < wanted then Inl InsufficientPeers
         else await_takers wanted grp rest taking' refusing')"

definition pointer_write_group :: "('s, 'r) pointer_net \<Rightarrow> key \<Rightarrow> ('s, error, 'r list) op" where
  "pointer_write_group net address =
     bind_op (pointer_group net address)
       (\<lambda>peers s.
          let wanted = write_quorum (quorum_width (length peers) (net_close_group_size net))
          in if length peers < wanted then (Inl CloseGroupShortfall, s)
             else let (asked, s') = net_accepts net peers s
                  in (bind_result (await_takers wanted (length peers) asked 0 0) (\<lambda>_. Inr peers), s'))"

definition pointer_put ::
  "('s, 'r) pointer_net \<Rightarrow> ('p, 'sk, 'pk) signer \<Rightarrow> 'p pointer_api \<Rightarrow> 'p \<Rightarrow> ('s, error, key) op" where
  "pointer_put net sg api record =
     bind_op (pointer_write_group net (p_address api record))
       (\<lambda>_. bind_op (net_pay net (p_address api record) (p_state_id api record))
          (\<lambda>proof. pointer_put_paid net sg api record proof))"

subsection \<open>Signing and transfers\<close>

definition pointer_sign_create ::
  "('s, 'r) pointer_net \<Rightarrow> ('p, 'sk, 'pk) signer \<Rightarrow> 'p pointer_api \<Rightarrow> 'sk \<Rightarrow> 'pk \<Rightarrow> pointer_target \<Rightarrow>
     ('s, error, 'p) op" where
  "pointer_sign_create net sg api secret_key owner tgt =
     bind_op (pointer_get net api (sg_address sg owner))
       (\<lambda>existing s. case existing of
          Some _ \<Rightarrow> (Inl InvalidData, s)
        | None \<Rightarrow> (map_err (\<lambda>_. InvalidData) (sg_create sg secret_key owner tgt), s))"

definition pointer_create ::
  "('s, 'r) pointer_net \<Rightarrow> ('p, 'sk, 'pk) signer \<Rightarrow> 'p pointer_api \<Rightarrow> 'sk \<Rightarrow> 'pk \<Rightarrow> pointer_target \<Rightarrow>
     ('s, error, key) op" where
  "pointer_create net sg api secret_key owner tgt =
     bind_op (pointer_sign_create net sg api secret_key owner tgt) (pointer_put net sg api)"

definition pointer_sign_update ::
  "('s, 'r) pointer_net \<Rightarrow> ('p, 'sk, 'pk) signer \<Rightarrow> 'p pointer_api \<Rightarrow> 'sk \<Rightarrow> 'pk \<Rightarrow> pointer_target \<Rightarrow>
     ('s, error, 'p) op" where
  "pointer_sign_update net sg api secret_key owner tgt =
     bind_op (pointer_finality_op net api (sg_address sg owner))
       (\<lambda>finality. case final_already finality of
          Some refusal \<Rightarrow> err_op refusal
        | None \<Rightarrow>
            bind_op (pointer_get net api (sg_address sg owner))
              (\<lambda>found s. case found of
                 Some current \<Rightarrow>
                   (map_err (\<lambda>e. case e of CounterExhausted \<Rightarrow> PointerFinal | SignRefused \<Rightarrow> InvalidData)
                      (sg_update sg current secret_key tgt), s)
               | None \<Rightarrow> (map_err (\<lambda>_. InvalidData) (sg_create sg secret_key owner tgt), s)))"

definition pointer_update ::
  "('s, 'r) pointer_net \<Rightarrow> ('p, 'sk, 'pk) signer \<Rightarrow> 'p pointer_api \<Rightarrow> 'sk \<Rightarrow> 'pk \<Rightarrow> pointer_target \<Rightarrow>
     ('s, error, key) op" where
  "pointer_update net sg api secret_key owner tgt =
     bind_op (pointer_sign_update net sg api secret_key owner tgt) (pointer_put net sg api)"

definition pointer_sign_transfer ::
  "('s, 'r) pointer_net \<Rightarrow> ('p, 'sk, 'pk) signer \<Rightarrow> 'p pointer_api \<Rightarrow> 'sk \<Rightarrow> 'pk \<Rightarrow> key \<Rightarrow>
     ('s, error, 'p) op" where
  "pointer_sign_transfer net sg api secret_key owner recipient =
     (let address = sg_address sg owner
      in if recipient = address then err_op InvalidData
         else bind_op (pointer_get net api address)
           (\<lambda>current.
              if (\<exists>c \<in> set_option current. p_is_terminal api c) then err_op PointerFinal
              else bind_op (check_recipient net api address recipient)
                (\<lambda>_. bind_op
                   (\<lambda>s. (map_err (\<lambda>_. InvalidData)
                          (case current of
                             Some c \<Rightarrow> sg_transfer_to sg c secret_key recipient
                           | None \<Rightarrow> sg_sign_final sg secret_key owner (sg_target sg PointerKind recipient)), s))
                   (\<lambda>record. bind_op (pointer_finality_op net api address)
                      (\<lambda>finality.
                         case rival_final api finality record of
                           Some refusal \<Rightarrow> err_op refusal
                         | None \<Rightarrow>
                             if pf_answered finality < pf_group finality then err_op CloseGroupShortfall
                             else ok_op record)))))"

definition recover_final_write ::
  "('s, 'r) pointer_net \<Rightarrow> 'p pointer_api \<Rightarrow> 'p \<Rightarrow> error \<Rightarrow> ('s, error, pointer_finality) op" where
  "recover_final_write net api record e s =
     (let (finality, s') = pointer_finality_op net api (p_address api record) s
      in (after_failed_transfer api e finality record, s'))"

record pointer_transfer =
  pt_address :: key
  pt_state_id :: key
  pt_finality :: "(error, pointer_finality) result"

definition pointer_transfer_op ::
  "('s, 'r) pointer_net \<Rightarrow> ('p, 'sk, 'pk) signer \<Rightarrow> 'p pointer_api \<Rightarrow> 'sk \<Rightarrow> 'pk \<Rightarrow> key \<Rightarrow>
     ('s, error, pointer_transfer) op" where
  "pointer_transfer_op net sg api secret_key owner recipient =
     bind_op (pointer_sign_transfer net sg api secret_key owner recipient)
       (\<lambda>record s.
          let report = (\<lambda>finality. \<lparr>pt_address = p_address api record, pt_state_id = p_state_id api record,
                                    pt_finality = finality\<rparr>)
          in case pointer_put net sg api record s of
               (Inl e, s') \<Rightarrow>
                 bind_op (recover_final_write net api record e) (\<lambda>finality. ok_op (report (Inr finality))) s'
             | (Inr _, s') \<Rightarrow>
                 (let (finality, s'') = pointer_finality_op net api (p_address api record) s'
                  in (Inr (report finality), s'')))"

subsection \<open>Chains\<close>

lemma bind_op_fst: "fst (bind_op m f s) = (case fst (m s) of Inl e \<Rightarrow> Inl e | Inr x \<Rightarrow> fst (f x (snd (m s))))"
  by (simp add: bind_op_def split: prod.splits sum.splits)

fun follows :: "'p pointer_api \<Rightarrow> (key \<Rightarrow> (error, 'p option) result) \<Rightarrow> key list \<Rightarrow> pointer_target \<Rightarrow> bool" where
  "follows api look [] t \<longleftrightarrow> False"
| "follows api look [a] t \<longleftrightarrow>
     (case look a of Inr (Some r) \<Rightarrow> p_target api r = t \<and> p_kind api t \<noteq> Some PointerKind | _ \<Rightarrow> False)"
| "follows api look (a # b # path) t \<longleftrightarrow>
     (case look a of
        Inr (Some r) \<Rightarrow> p_kind api (p_target api r) = Some PointerKind \<and>
          target_address (p_target api r) = b \<and> follows api look (b # path) t
      | _ \<Rightarrow> False)"

lemma follows_Cons:
  "follows api look (a # path) t \<longleftrightarrow>
     (case look a of
        Inr (Some r) \<Rightarrow>
          (if p_kind api (p_target api r) = Some PointerKind
           then path \<noteq> [] \<and> hd path = target_address (p_target api r) \<and> follows api look path t
           else path = [] \<and> p_target api r = t)
      | _ \<Rightarrow> False)"
  by (cases path) (auto split: sum.splits option.splits)

lemma resolve_hops_step:
  assumes "\<And>a s. fst (get a s) = look a"
  shows "fst (resolve_hops api get (Suc n) seen at s) =
    (if at \<in> seen then Inl InvalidData
     else case look at of
            Inl e \<Rightarrow> Inl e
          | Inr None \<Rightarrow> Inl InvalidData
          | Inr (Some r) \<Rightarrow>
              if p_kind api (p_target api r) = Some PointerKind
              then fst (resolve_hops api get n (insert at seen) (target_address (p_target api r)) (snd (get at s)))
              else Inr (p_target api r))"
  by (auto simp: bind_op_fst assms split: sum.splits option.splits target_kind.splits)

lemma resolve_hops_iff:
  assumes "\<And>a s. fst (get a s) = look a"
  shows "fst (resolve_hops api get n seen at s) = Inr t \<longleftrightarrow>
    (\<exists>path. path \<noteq> [] \<and> hd path = at \<and> length path \<le> n \<and> distinct path \<and> set path \<inter> seen = {} \<and>
       follows api look path t)"
proof (induction n arbitrary: seen at s)
  case (Suc n)
  let ?L = "\<lambda>path. path \<noteq> [] \<and> hd path = at \<and> length path \<le> Suc n \<and> distinct path \<and> set path \<inter> seen = {} \<and>
       follows api look path t"
  have split: "(\<exists>path. ?L path) \<longleftrightarrow>
      (\<exists>path. at \<notin> seen \<and> at \<notin> set path \<and> length path \<le> n \<and> distinct path \<and> set path \<inter> seen = {} \<and>
         follows api look (at # path) t)" (is "_ \<longleftrightarrow> (\<exists>path. ?M path)")
  proof
    assume "\<exists>path. ?L path"
    then obtain path where p: "?L path" by blast
    then obtain ps where "path = at # ps" by (cases path) auto
    with p have "?M ps" by auto
    then show "\<exists>path. ?M path" by blast
  next
    assume "\<exists>path. ?M path"
    then obtain ps where "?M ps" by blast
    then have "?L (at # ps)" by auto
    then show "\<exists>path. ?L path" by blast
  qed
  show ?case
  proof (cases "look at")
    case (Inr found)
    show ?thesis
    proof (cases found)
      case (Some r)
      show ?thesis
      proof (cases "p_kind api (p_target api r) = Some PointerKind")
        case True
        have ih: "fst (resolve_hops api get n (insert at seen) (target_address (p_target api r)) (snd (get at s))) = Inr t \<longleftrightarrow>
           (\<exists>path. path \<noteq> [] \<and> hd path = target_address (p_target api r) \<and> length path \<le> n \<and> distinct path \<and>
              set path \<inter> insert at seen = {} \<and> follows api look path t)"
          by (rule Suc.IH)
        show ?thesis
          unfolding split resolve_hops_step [OF assms] follows_Cons
          using Inr Some True ih by (simp add: disjoint_iff) blast
      next
        case False
        then show ?thesis unfolding split resolve_hops_step [OF assms] follows_Cons
          using Inr Some by (auto intro: exI [of _ "[]"])
      qed
    qed (use Inr in \<open>simp add: split resolve_hops_step [OF assms] follows_Cons del: resolve_hops.simps\<close>)
  qed (simp add: split resolve_hops_step [OF assms] follows_Cons del: resolve_hops.simps)
qed simp

text \<open>
  C28: what a chain resolves to. Over reads that stay the same during the walk, resolving an
  address returns a target exactly when following pointer targets from it reaches a record
  with a non-pointer target along at most sixteen distinct pointers; a longer chain, a
  cycle, a missing record or an unreadable one is an error.
\<close>

theorem resolve_follows_the_chain:
  assumes "\<And>a s. fst (get a s) = look a"
  shows "fst (resolve_hops api get MAX_POINTER_RESOLVE_DEPTH {} address s) = Inr t \<longleftrightarrow>
    (\<exists>path. path \<noteq> [] \<and> hd path = address \<and> length path \<le> 16 \<and> distinct path \<and> follows api look path t)"
  using resolve_hops_iff [where n = MAX_POINTER_RESOLVE_DEPTH and seen = "{}", OF assms]
  by (simp add: MAX_POINTER_RESOLVE_DEPTH_def)

lemma recipient_hops_step:
  assumes "\<And>a s. fst (get a s) = look a"
  shows "fst (recipient_hops api get address hop (Suc n) seen at s) =
    (if at = address then Inl InvalidData
     else if at \<in> seen then Inr ()
     else case look at of
            Inl e \<Rightarrow> Inl e
          | Inr None \<Rightarrow> if hop = 0 then Inl InvalidData else Inr ()
          | Inr (Some r) \<Rightarrow>
              if p_kind api (p_target api r) = Some PointerKind
              then fst (recipient_hops api get address (Suc hop) n (insert at seen)
                     (target_address (p_target api r)) (snd (get at s)))
              else Inr ())"
  by (auto simp: bind_op_fst assms split: sum.splits option.splits)

lemma recipient_resolves:
  assumes g: "\<And>a s. fst (get a s) = look a" and g': "\<And>a s. fst (get' a s) = look' a"
    and same: "\<And>a. a \<noteq> address \<Longrightarrow> look' a = look a"
    and "fst (recipient_hops api get address hop n seen at s) = Inr ()" and "n \<le> m"
  shows "fst (resolve_hops api get' n (insert address seen) at s') = fst (resolve_hops api get m seen at s'')"
  using assms(4,5)
proof (induction n arbitrary: m hop seen at s s' s'')
  case (Suc n)
  obtain m' where m: "m = Suc m'" "n \<le> m'" using Suc.prems(2) by (cases m) auto
  have "at \<noteq> address" using Suc.prems(1) recipient_hops_step [where hop = hop and n = n and seen = seen and at = at, OF g] by auto
  moreover have "fst (resolve_hops api get' n (insert address (insert at seen)) b s1) =
      fst (resolve_hops api get m' (insert at seen) b s2)"
    if "fst (recipient_hops api get address (Suc hop) n (insert at seen) b s0) = Inr ()" for b s0 s1 s2
    using Suc.IH [OF that m(2)] .
  ultimately show ?case
    using Suc.prems(1) same [of at]
    unfolding m(1) resolve_hops_step [OF g] resolve_hops_step [OF g'] recipient_hops_step [OF g]
    by (auto split: sum.splits option.splits if_splits simp: insert_commute)
qed simp

text \<open>
  C27: a transfer the recipient check lets through redirects readers exactly as the recipient
  resolves. Once the pointer at \<open>address\<close> holds a record targeting the recipient's pointer,
  resolving \<open>address\<close> gives what resolving the recipient gives, the same target or the same
  error: the transfer itself adds no cycle and no hop too many.
\<close>

theorem accepted_transfer_resolves_as_recipient:
  assumes "\<And>a s. fst (get a s) = look a" and "\<And>a s. fst (get' a s) = look' a"
    and "look' = look(address := Inr (Some record))"
    and "p_kind api (p_target api record) = Some PointerKind"
    and "target_address (p_target api record) = recipient"
    and "fst (check_recipient_chain api address recipient get s) = Inr ()"
  shows "fst (resolve_hops api get' MAX_POINTER_RESOLVE_DEPTH {} address s') =
    fst (resolve_hops api get MAX_POINTER_RESOLVE_DEPTH {} recipient s'')"
proof -
  have d: "MAX_POINTER_RESOLVE_DEPTH = Suc 15" by (simp add: MAX_POINTER_RESOLVE_DEPTH_def)
  have "fst (resolve_hops api get' (Suc 15) {} address s') =
      fst (resolve_hops api get' 15 {address} recipient (snd (get' address s')))"
    unfolding resolve_hops_step [OF assms(2)] using assms(3-5) by simp
  also have "\<dots> = fst (resolve_hops api get (Suc 15) {} recipient s'')"
    using assms(6) unfolding check_recipient_chain_def d
    by (intro recipient_resolves [OF assms(1,2), where address = address]) (auto simp: assms(3))
  finally show ?thesis unfolding d .
qed

definition chain_api :: "nat pointer_api" where
  "chain_api = demo_api\<lparr>p_target := (\<lambda>n. \<lparr>kind_tag = (if n = 9 then 0 else 1), target_address = [of_nat n + 1]\<rparr>)\<rparr>"

theorem resolve_follows_the_chain_witness:
  "fst (resolve_hops chain_api (\<lambda>a s :: unit. (Inr (Some (unat (hd a))), s)) MAX_POINTER_RESOLVE_DEPTH {} [7] ()) =
     Inr \<lparr>kind_tag = 0, target_address = [10]\<rparr> \<and>
   (\<exists>path. path \<noteq> [] \<and> hd path = [7] \<and> length path \<le> 16 \<and> distinct path \<and>
      follows chain_api (\<lambda>a. Inr (Some (unat (hd a)))) path \<lparr>kind_tag = 0, target_address = [10]\<rparr>)"
proof -
  let ?get = "\<lambda>a s :: unit. (Inr (Some (unat (hd a))), s)"
  have r: "fst (resolve_hops chain_api ?get MAX_POINTER_RESOLVE_DEPTH {} [7] ()) =
      Inr \<lparr>kind_tag = 0, target_address = [10]\<rparr>"
    by code_simp
  moreover have "fst (?get a s) = (\<lambda>a. Inr (Some (unat (hd a)))) a" for a s by simp
  ultimately show ?thesis using resolve_follows_the_chain [of ?get "\<lambda>a. Inr (Some (unat (hd a)))" chain_api "[7]" "()"]
    by blast
qed

theorem accepted_transfer_resolves_as_recipient_witness:
  "let look = (\<lambda>a. Inr (Some (unat (hd a)))); look' = look([2 :: u8] := Inr (Some 6));
       get = (\<lambda>a s :: unit. (look a, s)); get' = (\<lambda>a s :: unit. (look' a, s))
   in fst (check_recipient_chain chain_api [2] [7] get ()) = Inr () \<and>
      fst (resolve_hops chain_api get' MAX_POINTER_RESOLVE_DEPTH {} [2] ()) =
      fst (resolve_hops chain_api get MAX_POINTER_RESOLVE_DEPTH {} [7] ())"
proof -
  let ?look = "\<lambda>a :: key. Inr (Some (unat (hd a))) :: (error, nat option) result"
  let ?get = "\<lambda>a s :: unit. (?look a, s)"
  let ?get' = "\<lambda>a s :: unit. ((?look([2 :: u8] := Inr (Some 6))) a, s)"
  have c: "fst (check_recipient_chain chain_api [2] [7] ?get ()) = Inr ()" by code_simp
  have k: "p_kind chain_api (p_target chain_api 6) = Some PointerKind"
    "target_address (p_target chain_api 6) = [7]" by code_simp+
  have "fst (resolve_hops chain_api ?get' MAX_POINTER_RESOLVE_DEPTH {} [2] ()) =
      fst (resolve_hops chain_api ?get MAX_POINTER_RESOLVE_DEPTH {} [7] ())"
    by (rule accepted_transfer_resolves_as_recipient [where look = ?look, OF _ _ refl k c]) simp_all
  with c show ?thesis by (simp add: Let_def)
qed

subsection \<open>What reads return and writes report\<close>

lemma send_and_await_InrD:
  assumes "send_and_await_chunk_response rid h se te response = Inr x"
  shows "\<exists>body. response = Inr (rid, body) \<and> h body = Some (Inr x)"
  using assms
  by (auto simp: send_and_await_chunk_response_def split: sum.splits error.splits prod.splits if_splits option.splits)

lemma read_get_reply_record:
  "read_get_reply api body address = Some (Inr (Some q)) \<longleftrightarrow>
     (\<exists>bs. body = PointerGetResponse (Get_Success bs) \<and> p_from_bytes api bs = Some q \<and> p_address api q = address)"
  by (cases "(api, body, address)" rule: read_get_reply.cases) (auto split: option.splits)

lemma read_put_reply_stored:
  "read_put_reply body address st = Some (Inr Stored) \<longleftrightarrow>
     body = PointerPutResponse (Put_Success address st) \<or> body = PointerPutResponse (Put_Unchanged address st)"
  by (cases "(body, address, st)" rule: read_put_reply.cases) auto

lemma length_filter_mono: "(\<And>x. x \<in> set xs \<Longrightarrow> P x \<Longrightarrow> Q x) \<Longrightarrow> length (filter P xs) \<le> length (filter Q xs)"
  by (induction xs) (auto intro: le_SucI)

lemma oks_all_failed [simp]: "oks (map (\<lambda>_. Inl e) xs) = []"
  by (induction xs) auto

abbreviation get_results ::
  "'p pointer_api \<Rightarrow> key \<Rightarrow> (u64 \<times> (error, u64 \<times> message_body) result) list \<Rightarrow> (error, 'p option) result list" where
  "get_results api address exchanges \<equiv>
     map (\<lambda>(rid, response). send_and_await_chunk_response rid
            (\<lambda>body. read_get_reply api body address) Network Timeout response) exchanges"

abbreviation carries ::
  "'p pointer_api \<Rightarrow> key \<Rightarrow> key \<Rightarrow> u64 \<times> (error, u64 \<times> message_body) result \<Rightarrow> bool" where
  "carries api address st \<equiv> \<lambda>(rid, response). \<exists>bs p. response = Inr (rid, PointerGetResponse (Get_Success bs)) \<and>
     p_from_bytes api bs = Some p \<and> p_address api p = address \<and> p_state_id api p = st"

lemma get_result_carries:
  assumes "\<not> isl (send_and_await_chunk_response rid (\<lambda>body. read_get_reply api body address) Network Timeout response)"
    and "names_state api (projr (send_and_await_chunk_response rid
           (\<lambda>body. read_get_reply api body address) Network Timeout response)) st"
  shows "carries api address st (rid, response)"
proof -
  let ?r = "send_and_await_chunk_response rid (\<lambda>body. read_get_reply api body address) Network Timeout response"
  from assms obtain p where p: "?r = Inr (Some p)" "p_state_id api p = st"
    by (cases ?r) (auto simp: names_state_def split: option.splits)
  from send_and_await_InrD [OF p(1)] p(2) show ?thesis by (auto simp: read_get_reply_record)
qed

lemma get_results_record:
  assumes "Some q \<in> set (oks (get_results api address exchanges))"
  shows "p_address api q = address"
proof -
  from assms obtain rid response where
    "send_and_await_chunk_response rid (\<lambda>body. read_get_reply api body address) Network Timeout response = Inr (Some q)"
    by (auto simp: set_oks)
  from send_and_await_InrD [OF this] show ?thesis by (auto simp: read_get_reply_record)
qed

lemma send_pointer_gets_cases:
  assumes "send_pointer_gets net api address peers s = (answers, s')" and "oks answers \<noteq> []"
  shows "\<exists>exchanges. net_exchange net (PointerGetRequest address) peers s = (exchanges, s') \<and>
    answers = get_results api address exchanges"
  using assms by (auto simp: send_pointer_gets_def split: if_splits prod.splits)

lemma pointer_get_InrE:
  assumes "pointer_get net api address s = (Inr found, s')"
  obtains peers s1 answers where "pointer_group net address s = (Inr peers, s1)"
    and "send_pointer_gets net api address peers s1 = (answers, s')"
    and "read_answers api (net_close_group_size net) (length peers) answers = Inr found"
proof -
  from assms obtain peers s1 where g: "pointer_group net address s = (Inr peers, s1)"
    and b: "(let (answers, s') = send_pointer_gets net api address peers s1
       in (read_answers api (net_close_group_size net) (length peers) answers, s')) = (Inr found, s')"
    unfolding pointer_get_def bind_op_Inr_iff by blast
  obtain answers s2 where "send_pointer_gets net api address peers s1 = (answers, s2)" by force
  with g b that show thesis by simp
qed

lemma pointer_finality_InrE:
  assumes "pointer_finality_op net api address s = (Inr f, s')"
  obtains peers s1 answers where "pointer_group net address s = (Inr peers, s1)"
    and "send_pointer_gets net api address peers s1 = (answers, s')"
    and "finality_answers api (net_close_group_size net) (length peers) address answers = Inr f"
proof -
  from assms obtain peers s1 where g: "pointer_group net address s = (Inr peers, s1)"
    and b: "(let (answers, s') = send_pointer_gets net api address peers s1
       in (finality_answers api (net_close_group_size net) (length peers) address answers, s')) = (Inr f, s')"
    unfolding pointer_finality_op_def bind_op_Inr_iff by blast
  obtain answers s2 where "send_pointer_gets net api address peers s1 = (answers, s2)" by force
  with g b that show thesis by simp
qed

text \<open>
  C24: a record a read returns was sent, in reply to a request of this read, by at least the
  corroborating number of exchanges with peers of the close group: each such reply carried
  bytes that verify as a record of that very state at the address asked for.
\<close>

theorem pointer_get_returns_verified_record:
  assumes "pointer_get net api address s = (Inr (Some q), s')"
  shows "p_address api q = address \<and>
    (\<exists>peers s1 exchanges.
       pointer_group net address s = (Inr peers, s1) \<and>
       net_exchange net (PointerGetRequest address) peers s1 = (exchanges, s') \<and>
       corroboration (quorum_width (length peers) (net_close_group_size net)) \<le>
         length (filter (\<lambda>(rid, response). \<exists>bs p. response = Inr (rid, PointerGetResponse (Get_Success bs)) \<and>
           p_from_bytes api bs = Some p \<and> p_address api p = address \<and> p_state_id api p = p_state_id api q) exchanges))"
proof -
  from assms obtain peers s1 answers where g: "pointer_group net address s = (Inr peers, s1)"
    and a: "send_pointer_gets net api address peers s1 = (answers, s')"
    and r: "read_answers api (net_close_group_size net) (length peers) answers = Inr (Some q)"
    by (rule pointer_get_InrE)
  from read_answers_corroborated [OF r] obtain seen rest where sr: "answers = seen @ rest"
    and q: "Some q \<in> set (oks seen)"
    and c: "corroboration (quorum_width (length peers) (net_close_group_size net)) \<le>
      named_by api (oks seen) (p_state_id api q)" by auto
  have "oks answers \<noteq> []" using sr q by auto
  from send_pointer_gets_cases [OF a this] obtain exchanges where
    e: "net_exchange net (PointerGetRequest address) peers s1 = (exchanges, s')"
    "answers = get_results api address exchanges" by blast
  have "named_by api (oks seen) (p_state_id api q) \<le> named_by api (oks answers) (p_state_id api q)"
    using sr by simp
  also have "\<dots> \<le> length (filter (carries api address (p_state_id api q)) exchanges)"
    unfolding e(2) named_by_filter by (rule length_filter_mono) (use get_result_carries in force)
  finally have "corroboration (quorum_width (length peers) (net_close_group_size net)) \<le>
      length (filter (carries api address (p_state_id api q)) exchanges)" using c by linarith
  moreover have "p_address api q = address" using get_results_record [of q api address exchanges] q sr e(2) by simp
  ultimately show ?thesis using g e(1) by blast
qed

text \<open>A network of three peers that all hold the state 5 and store what they are sent.\<close>

definition demo_net :: "(nat, nat) pointer_net" where
  "demo_net = \<lparr>net_close_group_size = 3, net_encodes = (\<lambda>_. True),
     net_find_closest = (\<lambda>_ n s. (Inr [0..<n], s)),
     net_exchange = (\<lambda>request peers s.
       (map (\<lambda>p. (of_nat p, Inr (of_nat p, case request of
               PointerGetRequest a \<Rightarrow> PointerGetResponse (Get_Success [5])
             | PointerPutRequest r _ \<Rightarrow> PointerPutResponse (Put_Success [0] r)))) peers, s + 1)),
     net_accepts = (\<lambda>peers s. (map (\<lambda>_. None) peers, s)),
     net_pay = (\<lambda>_ _ s. (Inr [1], s + 100)), net_sleep = (\<lambda>_ s. s)\<rparr>"

definition demo_signer :: "(nat, unit, unit) signer" where
  "demo_signer = \<lparr>sg_address = (\<lambda>_. [0]), sg_create = (\<lambda>_ _ _. Inr 0), sg_update = (\<lambda>n _ _. Inr (n + 1)),
     sg_transfer_to = (\<lambda>_ _ _. Inr 100), sg_sign_final = (\<lambda>_ _ _. Inr 100), sg_to_bytes = (\<lambda>n. [of_nat n]),
     sg_target = (\<lambda>k a. \<lparr>kind_tag = (if k = ChunkKind then 0 else 1), target_address = a\<rparr>),
     sg_transferred_to = (\<lambda>_. None)\<rparr>"

theorem pointer_get_returns_verified_record_witness:
  "pointer_get demo_net demo_api [0] 7 = (Inr (Some 5), 8) \<and> p_address demo_api 5 = [0] \<and>
   (\<exists>peers s1 exchanges.
      pointer_group demo_net [0] 7 = (Inr peers, s1) \<and>
      net_exchange demo_net (PointerGetRequest [0]) peers s1 = (exchanges, 8) \<and>
      corroboration (quorum_width (length peers) (net_close_group_size demo_net)) \<le>
        length (filter (\<lambda>(rid, response). \<exists>bs p. response = Inr (rid, PointerGetResponse (Get_Success bs)) \<and>
          p_from_bytes demo_api bs = Some p \<and> p_address demo_api p = [0] \<and>
          p_state_id demo_api p = p_state_id demo_api 5) exchanges))"
proof -
  have r: "pointer_get demo_net demo_api [0] 7 = (Inr (Some 5), 8)" by code_simp
  show ?thesis by (rule conjI [OF r pointer_get_returns_verified_record [OF r]])
qed

subsection \<open>Paid writes\<close>

abbreviation acknowledges :: "key \<Rightarrow> key \<Rightarrow> u64 \<times> (error, u64 \<times> message_body) result \<Rightarrow> bool" where
  "acknowledges address st \<equiv> \<lambda>(rid, response).
     response = Inr (rid, PointerPutResponse (Put_Success address st)) \<or>
     response = Inr (rid, PointerPutResponse (Put_Unchanged address st))"

lemma count_acks:
  "foldl (\<lambda>k x. snd (note_ack wanted k x)) (m, n) acks =
     (m + length (filter (\<lambda>a. a = Stored) acks), n + length (filter (\<lambda>a. a = Stale) acks))"
proof (induction acks arbitrary: m n)
  case (Cons a acks)
  then show ?case by (cases a) auto
qed simp

lemma put_results_stored:
  "length (filter (\<lambda>a. a = Stored) (oks (map (\<lambda>(rid, response). send_and_await_chunk_response rid
       (\<lambda>body. read_put_reply body address st) Network Timeout response) exchanges))) \<le>
     length (filter (acknowledges address st) exchanges)"
proof (induction exchanges)
  case (Cons e es)
  obtain rid response where e: "e = (rid, response)" by (cases e)
  let ?r = "send_and_await_chunk_response rid (\<lambda>body. read_put_reply body address st) Network Timeout response"
  show ?case
  proof (cases "?r = Inr Stored")
    case True
    from send_and_await_InrD [OF True] have "acknowledges address st e"
      by (auto simp: e read_put_reply_stored)
    with Cons True show ?thesis by (simp add: e)
  next
    case False
    then have "length (filter (\<lambda>a. a = Stored) (oks (?r # rs))) = length (filter (\<lambda>a. a = Stored) (oks rs))" for rs
      by (cases ?r) auto
    with Cons show ?thesis by (simp add: e le_SucI)
  qed
qed simp

lemma put_round_InrD:
  assumes "put_round net sg api record proof wanted targets s = (Inr a, s')" and "0 < wanted"
  shows "a = p_address api record \<and> (\<exists>exchanges.
    net_exchange net (PointerPutRequest (sg_to_bytes sg record) proof) targets s = (exchanges, s') \<and>
    wanted \<le> length (filter (acknowledges (p_address api record) (p_state_id api record)) exchanges))"
proof -
  let ?add = "p_address api record" and ?st = "p_state_id api record"
  obtain replies s2 where p: "send_pointer_puts net (sg_to_bytes sg record) proof targets ?add ?st s = (replies, s2)"
    by force
  obtain answered stored stale where
    k: "ask_the_group wanted (note_ack wanted) replies no_answers (0, 0) = (answered, stored, stale)"
    by (metis prod_cases3)
  obtain moved s3 where m: "(if stored < wanted \<and> 0 < stale then moved_past net api record s2 else (False, s2)) = (moved, s3)"
    by force
  from assms(1) have "bind_result (judge_write stored wanted moved answered) (\<lambda>_. Inr ?add) = Inr a" "s3 = s'"
    by (simp_all add: put_round_def p k m)
  then have w: "wanted \<le> stored" "a = ?add" "s2 = s'"
    using m by (auto simp: results judge_write_def split: if_splits)
  from ask_the_group_prefix [OF k] obtain ys zs where ys: "replies = ys @ zs"
    "(stored, stale) = foldl (\<lambda>k x. snd (note_ack wanted k x)) (0, 0) (oks ys)" by blast
  from ys have st: "stored \<le> length (filter (\<lambda>a. a = Stored) (oks replies))"
    by (simp add: count_acks)
  then have "oks replies \<noteq> []" using w(1) assms(2) by auto
  then obtain exchanges where e: "net_exchange net (PointerPutRequest (sg_to_bytes sg record) proof) targets s = (exchanges, s2)"
    "replies = map (\<lambda>(rid, response). send_and_await_chunk_response rid
       (\<lambda>body. read_put_reply body ?add ?st) Network Timeout response) exchanges"
    using p by (auto simp: send_pointer_puts_def split: if_splits prod.split_asm)
  with put_results_stored [of ?add ?st exchanges] st w show ?thesis by simp
qed

lemma pointer_group_nonempty: "pointer_group net address s = (Inr peers, s') \<Longrightarrow> peers \<noteq> []"
  by (auto simp: pointer_group_def results split: if_splits)

lemma pointer_put_once_InrD:
  assumes "pointer_put_once net sg api record proof s = (Inr a, s')"
  shows "a = p_address api record \<and> (\<exists>targets s1 exchanges.
    pointer_group net (p_address api record) s = (Inr targets, s1) \<and>
    net_exchange net (PointerPutRequest (sg_to_bytes sg record) proof) targets s1 = (exchanges, s') \<and>
    write_quorum (quorum_width (length targets) (net_close_group_size net)) \<le>
      length (filter (acknowledges (p_address api record) (p_state_id api record)) exchanges))"
proof -
  from assms obtain targets s1 where g: "pointer_group net (p_address api record) s = (Inr targets, s1)"
    and r: "put_round net sg api record proof
       (write_quorum (quorum_width (length targets) (net_close_group_size net))) targets s1 = (Inr a, s')"
    by (auto simp: pointer_put_once_def results Let_def split: if_splits)
  have "0 < quorum_width (length targets) (net_close_group_size net)"
    using pointer_group_nonempty [OF g] by (auto simp: quorum_width_def less_max_iff_disj)
  then have "0 < write_quorum (quorum_width (length targets) (net_close_group_size net))"
    by (simp add: write_quorum_def)
  from put_round_InrD [OF r this] g show ?thesis by blast
qed

fun after_failures ::
  "('s, 'r) pointer_net \<Rightarrow> ('p, 'sk, 'pk) signer \<Rightarrow> 'p pointer_api \<Rightarrow> 'p \<Rightarrow> bytes \<Rightarrow> nat \<Rightarrow> nat \<Rightarrow> 's \<Rightarrow> 's" where
  "after_failures net sg api record proof attempt 0 s = s"
| "after_failures net sg api record proof attempt (Suc k) s =
     after_failures net sg api record proof (attempt + 1) k
       (net_sleep net (store_retry_delay (attempt + 1)) (snd (pointer_put_once net sg api record proof s)))"

lemma put_attempts_rounds:
  assumes "put_attempts net sg api record proof left attempt s = (r, s')"
  shows "\<exists>k \<le> left.
    pointer_put_once net sg api record proof (after_failures net sg api record proof attempt k s) = (r, s') \<and>
    (\<forall>j < k. \<exists>e. fst (pointer_put_once net sg api record proof (after_failures net sg api record proof attempt j s)) = Inl e \<and>
       worth_retrying e) \<and>
    (\<forall>e. r = Inl e \<longrightarrow> k = left \<or> \<not> worth_retrying e)"
  using assms
proof (induction left arbitrary: attempt s)
  case 0
  then show ?case by (auto split: prod.split_asm sum.split_asm)
next
  case (Suc left)
  obtain r1 s1 where o: "pointer_put_once net sg api record proof s = (r1, s1)" by force
  show ?case
  proof (cases "\<exists>e. r1 = Inl e \<and> worth_retrying e")
    case True
    then obtain e where e: "r1 = Inl e" "worth_retrying e" by blast
    with Suc.prems o have "put_attempts net sg api record proof left (attempt + 1)
        (net_sleep net (store_retry_delay (attempt + 1)) s1) = (r, s')" by simp
    from Suc.IH [OF this] obtain k where k: "k \<le> left"
      "pointer_put_once net sg api record proof (after_failures net sg api record proof attempt (Suc k) s) = (r, s')"
      "\<forall>j < k. \<exists>e. fst (pointer_put_once net sg api record proof
          (after_failures net sg api record proof attempt (Suc j) s)) = Inl e \<and> worth_retrying e"
      "\<forall>e. r = Inl e \<longrightarrow> k = left \<or> \<not> worth_retrying e"
      by (auto simp: o)
    have "\<exists>e. fst (pointer_put_once net sg api record proof (after_failures net sg api record proof attempt j s)) = Inl e \<and>
        worth_retrying e" if "j < Suc k" for j
      using that k(3) o e by (cases j) auto
    with k(1,2,4) show ?thesis by (intro exI [of _ "Suc k"]) auto
  next
    case False
    with Suc.prems o have "r = r1" "s' = s1" by (auto split: sum.split_asm)
    with False o show ?thesis by (intro exI [of _ 0]) auto
  qed
qed

text \<open>
  The retry loop of a paid write. It makes between one and four rounds with the same
  proof, backing off between them; every round but the last failed with an error worth
  retrying, the result is the last round's, and an error worth retrying is reported only
  after all four.
\<close>

theorem paid_write_rounds:
  assumes "pointer_put_paid net sg api record proof s = (r, s')"
  shows "\<exists>k \<le> 3.
    pointer_put_once net sg api record proof (after_failures net sg api record proof 0 k s) = (r, s') \<and>
    (\<forall>j < k. \<exists>e. fst (pointer_put_once net sg api record proof (after_failures net sg api record proof 0 j s)) = Inl e \<and>
       worth_retrying e) \<and>
    (\<forall>e. r = Inl e \<longrightarrow> k = 3 \<or> \<not> worth_retrying e)"
  using put_attempts_rounds [OF assms [unfolded pointer_put_paid_def]] by (simp add: STORE_MAX_RETRIES_def)

text \<open>
  C25: a paid write is reported as stored only on a write quorum's word. When the write
  succeeds, its last round sent the signed record to the close group found for its address,
  and at least a write quorum of those exchanges were answered with an acknowledgement that
  names exactly this address and this state.
\<close>

theorem stored_write_is_acknowledged:
  assumes "pointer_put_paid net sg api record proof s = (Inr a, s')"
  shows "a = p_address api record \<and> (\<exists>s0 targets s1 exchanges.
    pointer_group net (p_address api record) s0 = (Inr targets, s1) \<and>
    net_exchange net (PointerPutRequest (sg_to_bytes sg record) proof) targets s1 = (exchanges, s') \<and>
    write_quorum (quorum_width (length targets) (net_close_group_size net)) \<le>
      length (filter (\<lambda>(rid, response).
        response = Inr (rid, PointerPutResponse (Put_Success (p_address api record) (p_state_id api record))) \<or>
        response = Inr (rid, PointerPutResponse (Put_Unchanged (p_address api record) (p_state_id api record))))
        exchanges))"
proof -
  from put_attempts_rounds [OF assms [unfolded pointer_put_paid_def]] obtain k where
    "pointer_put_once net sg api record proof (after_failures net sg api record proof 0 k s) = (Inr a, s')" by blast
  from pointer_put_once_InrD [OF this] show ?thesis by blast
qed

theorem paid_write_rounds_witness:
  "pointer_put_paid demo_net demo_signer demo_api 6 [1] 0 = (Inr [0], 1) \<and>
   (\<exists>k \<le> 3. pointer_put_once demo_net demo_signer demo_api 6 [1]
      (after_failures demo_net demo_signer demo_api 6 [1] 0 k 0) = (Inr [0], 1))"
proof -
  have r: "pointer_put_paid demo_net demo_signer demo_api 6 [1] 0 = (Inr [0], 1)" by code_simp
  from paid_write_rounds [OF r] r show ?thesis by blast
qed

theorem stored_write_is_acknowledged_witness:
  "pointer_put_paid demo_net demo_signer demo_api 6 [1] 0 = (Inr [0], 1) \<and>
   (\<exists>s0 targets s1. pointer_group demo_net [0] s0 = (Inr targets, s1))"
proof -
  have r: "pointer_put_paid demo_net demo_signer demo_api 6 [1] 0 = (Inr [0], 1)" by code_simp
  have "p_address demo_api 6 = [0]" by code_simp
  with stored_write_is_acknowledged [OF r] r show ?thesis by auto
qed

subsection \<open>Transfers\<close>

lemma no_rival_finals:
  assumes "finality_status_of api seen grp n = st"
    and "case st of Open _ \<Rightarrow> True | Settling f \<Rightarrow> fs_state_id f = i | Final f \<Rightarrow> fs_state_id f = i
         | Unconfirmed f \<Rightarrow> fs_state_id f = i | Forked _ _ \<Rightarrow> False"
    and "(p, m) \<in> set (finals api seen)"
  shows "p_state_id api p = i"
proof -
  define fs where "fs = sort_key (\<lambda>state. - int (fs_holders state))
    (map (\<lambda>(record, n). final_state_of api record n) (finals api seen))"
  have mem: "final_state_of api p m \<in> set fs" using assms(3) by (force simp: fs_def)
  have "fs_state_id (final_state_of api p m) = i"
    using assms(1,2) mem unfolding finality_status_of_def fs_def [symmetric]
    by (auto simp: Let_def split: list.splits if_splits)
  then show ?thesis by (simp add: final_state_of_def Let_def)
qed

lemma rival_final_NoneD:
  assumes "rival_final api f record = None"
  shows "case pf_status f of Open _ \<Rightarrow> True | Settling st \<Rightarrow> fs_state_id st = p_state_id api record
    | Final st \<Rightarrow> fs_state_id st = p_state_id api record
    | Unconfirmed st \<Rightarrow> fs_state_id st = p_state_id api record | Forked _ _ \<Rightarrow> False"
  using assms by (auto simp: rival_final_def split: finality_status.splits if_splits)

lemma pointer_sign_transfer_InrD:
  assumes "pointer_sign_transfer net sg api sk owner recipient s = (Inr record, s')"
  shows "recipient \<noteq> sg_address sg owner \<and>
    (\<exists>s1 s2. check_recipient net api (sg_address sg owner) recipient s1 = (Inr (), s2)) \<and>
    (\<exists>s3 f. pointer_finality_op net api (sg_address sg owner) s3 = (Inr f, s') \<and>
       rival_final api f record = None \<and> pf_group f \<le> pf_answered f)"
  using assms
  by (fastforce simp: pointer_sign_transfer_def results Let_def not_less split: if_splits option.splits)

text \<open>
  C26: a transfer is signed for storing only when it cannot fork the pointer. If
  \<^verbatim>\<open>pointer_sign_transfer\<close> returns a record, the recipient is another pointer that
  passed the recipient check, and in the group check made last every peer of the configured
  close group answered and no answer named a final state other than the one signed.
\<close>

theorem signed_transfer_has_no_rival:
  assumes "pointer_sign_transfer net sg api sk owner recipient s = (Inr record, s')"
    and "\<And>p q. p_state_id api p = p_state_id api q \<Longrightarrow> p_is_terminal api p = p_is_terminal api q"
  shows "recipient \<noteq> sg_address sg owner \<and>
    (\<exists>s1 s2. check_recipient net api (sg_address sg owner) recipient s1 = (Inr (), s2)) \<and>
    (\<exists>s3 peers s4 answers.
       pointer_group net (sg_address sg owner) s3 = (Inr peers, s4) \<and>
       send_pointer_gets net api (sg_address sg owner) peers s4 = (answers, s') \<and>
       quorum_width (length peers) (net_close_group_size net) \<le> length (oks answers) \<and>
       (\<forall>q. Some q \<in> set (oks answers) \<and> p_is_terminal api q \<longrightarrow> p_state_id api q = p_state_id api record))"
proof -
  note d = pointer_sign_transfer_InrD [OF assms(1)]
  then obtain s3 f where f: "pointer_finality_op net api (sg_address sg owner) s3 = (Inr f, s')"
    and r: "rival_final api f record = None" and all: "pf_group f \<le> pf_answered f" by blast
  from f obtain peers s4 answers where g: "pointer_group net (sg_address sg owner) s3 = (Inr peers, s4)"
    and a: "send_pointer_gets net api (sg_address sg owner) peers s4 = (answers, s')"
    and fa: "finality_answers api (net_close_group_size net) (length peers) (sg_address sg owner) answers = Inr f"
    by (rule pointer_finality_InrE)
  note fd = finality_answers_InrD [OF fa]
  have "p_state_id api q = p_state_id api record" if q: "Some q \<in> set (oks answers)" "p_is_terminal api q" for q
  proof -
    from named_terminal_in_finals [OF q assms(2)] obtain p n where
      p: "(p, n) \<in> set (finals api (tally_replies api (oks answers)))" "p_state_id api p = p_state_id api q" by blast
    from no_rival_finals [OF fd(4) [symmetric] rival_final_NoneD [OF r] p(1)] p(2) show ?thesis by simp
  qed
  moreover have "quorum_width (length peers) (net_close_group_size net) \<le> length (oks answers)"
    using all fd(1,2) by simp
  ultimately show ?thesis using d g a by blast
qed

definition transfer_api :: "nat pointer_api" where
  "transfer_api = demo_api\<lparr>p_address := (\<lambda>n. if n = 5 then [0] else [1])\<rparr>"

definition transfer_net :: "(nat, nat) pointer_net" where
  "transfer_net = demo_net\<lparr>net_exchange := (\<lambda>request peers s.
     (map (\<lambda>p. (of_nat p, Inr (of_nat p, case request of
               PointerGetRequest a \<Rightarrow> PointerGetResponse (Get_Success (if a = [0] then [5] else [6]))
             | PointerPutRequest r _ \<Rightarrow> PointerPutResponse (Put_Success [0] r)))) peers, s + 1))\<rparr>"

theorem signed_transfer_has_no_rival_witness:
  "pointer_sign_transfer transfer_net demo_signer transfer_api () () [1] 0 = (Inr 100, 3) \<and>
   (\<exists>s1 s2. check_recipient transfer_net transfer_api [0] [1] s1 = (Inr (), s2))"
proof -
  have r: "pointer_sign_transfer transfer_net demo_signer transfer_api () () [1] 0 = (Inr 100, 3)" by code_simp
  have law: "p_is_terminal transfer_api p = p_is_terminal transfer_api q"
    if "p_state_id transfer_api p = p_state_id transfer_api q" for p q
  proof -
    have "unat (of_nat p :: 8 word) = unat (of_nat q :: 8 word)"
      using that by (simp add: transfer_api_def demo_api_def)
    then show ?thesis by (simp add: transfer_api_def demo_api_def unat_of_nat)
  qed
  have "sg_address demo_signer () = [0]" by code_simp
  with signed_transfer_has_no_rival [OF r law] r show ?thesis by simp
qed

end
