(* ===== verification/Float64.thy ===== *)
theory Float64
  imports Complex_Main Prelude
begin

text \<open>
  The parts of Rust's \<^verbatim>\<open>f64\<close> and \<^verbatim>\<open>std::time::Duration\<close> that the client
  computes with: IEEE 754 binary64 values with round-to-nearest, ties to even, over exact
  rationals (the two zeros are one value, which no operation used here can tell apart), and
  durations as whole nanoseconds. A panic of the standard library is the value \<open>None\<close>.
\<close>

datatype f64 = Fin rat | PInf | NInf | NaN

definition pow2 :: "int \<Rightarrow> rat" where
  "pow2 e = (if 0 \<le> e then 2 ^ nat e else 1 / 2 ^ nat (- e))"

definition round_even :: "rat \<Rightarrow> int" where
  "round_even q =
     (let f = \<lfloor>q\<rfloor>; d = q - of_int f
      in if d < 1 / 2 then f else if 1 / 2 < d then f + 1 else if even f then f else f + 1)"

function bit_len :: "int \<Rightarrow> int" where
  "bit_len n = (if n \<le> 0 then 0 else 1 + bit_len (n div 2))"
  by auto
termination by (relation "measure nat") auto

declare bit_len.simps [simp del]

definition exponent_of :: "rat \<Rightarrow> int" where
  "exponent_of q =
     (let (a, b) = quotient_of q; e = bit_len a - bit_len b
      in if pow2 e \<le> q then e else e - 1)"

definition round_f64 :: "rat \<Rightarrow> f64" where
  "round_f64 q =
     (if q = 0 then Fin 0
      else let a = \<bar>q\<bar>; e = max (exponent_of a) (- 1022); m = round_even (a / pow2 (e - 52))
           in if 1023 < e \<or> (e = 1023 \<and> 2 ^ 53 \<le> m) then (if 0 < q then PInf else NInf)
              else Fin ((if 0 < q then 1 else - 1) * of_int m * pow2 (e - 52)))"

fun f64_neg :: "f64 \<Rightarrow> f64" where
  "f64_neg (Fin a) = Fin (- a)"
| "f64_neg PInf = NInf"
| "f64_neg NInf = PInf"
| "f64_neg NaN = NaN"

fun f64_add :: "f64 \<Rightarrow> f64 \<Rightarrow> f64" where
  "f64_add (Fin a) (Fin b) = round_f64 (a + b)"
| "f64_add NaN _ = NaN"
| "f64_add _ NaN = NaN"
| "f64_add PInf NInf = NaN"
| "f64_add NInf PInf = NaN"
| "f64_add PInf _ = PInf"
| "f64_add NInf _ = NInf"
| "f64_add _ PInf = PInf"
| "f64_add _ NInf = NInf"

definition f64_sub :: "f64 \<Rightarrow> f64 \<Rightarrow> f64" where
  "f64_sub x y = f64_add x (f64_neg y)"

fun f64_sign :: "f64 \<Rightarrow> int" where
  "f64_sign (Fin a) = (if 0 < a then 1 else if a < 0 then - 1 else 0)"
| "f64_sign PInf = 1"
| "f64_sign NInf = - 1"
| "f64_sign NaN = 0"

definition f64_inf :: "int \<Rightarrow> f64" where
  "f64_inf s = (if 0 < s then PInf else if s < 0 then NInf else NaN)"

fun f64_mul :: "f64 \<Rightarrow> f64 \<Rightarrow> f64" where
  "f64_mul (Fin a) (Fin b) = round_f64 (a * b)"
| "f64_mul NaN _ = NaN"
| "f64_mul _ NaN = NaN"
| "f64_mul x y = f64_inf (f64_sign x * f64_sign y)"

fun f64_div :: "f64 \<Rightarrow> f64 \<Rightarrow> f64" where
  "f64_div (Fin a) (Fin b) = (if b = 0 then f64_inf (f64_sign (Fin a)) else round_f64 (a / b))"
| "f64_div NaN _ = NaN"
| "f64_div _ NaN = NaN"
| "f64_div (Fin a) _ = Fin 0"
| "f64_div x (Fin b) = f64_inf (f64_sign x * (if b < 0 then - 1 else 1))"
| "f64_div _ _ = NaN"

fun f64_lt :: "f64 \<Rightarrow> f64 \<Rightarrow> bool" where
  "f64_lt (Fin a) (Fin b) = (a < b)"
| "f64_lt NaN _ = False"
| "f64_lt _ NaN = False"
| "f64_lt NInf NInf = False"
| "f64_lt NInf _ = True"
| "f64_lt PInf _ = False"
| "f64_lt (Fin _) PInf = True"
| "f64_lt (Fin _) NInf = False"

fun f64_le :: "f64 \<Rightarrow> f64 \<Rightarrow> bool" where
  "f64_le NaN _ = False"
| "f64_le _ NaN = False"
| "f64_le x y = (\<not> f64_lt y x)"

fun is_finite :: "f64 \<Rightarrow> bool" where
  "is_finite (Fin _) = True"
| "is_finite _ = False"

definition f64_clamp :: "f64 \<Rightarrow> f64 \<Rightarrow> f64 \<Rightarrow> f64" where
  "f64_clamp x lo hi = (if f64_lt x lo then lo else if f64_lt hi x then hi else x)"

definition f64_of_nat :: "nat \<Rightarrow> f64" where
  "f64_of_nat n = round_f64 (of_nat n)"

text \<open>\<^verbatim>\<open>x.ceil() as usize\<close>: the cast saturates and sends NaN to 0.\<close>

fun ceil_as_usize :: "f64 \<Rightarrow> nat" where
  "ceil_as_usize (Fin q) = min usize_max (nat \<lceil>q\<rceil>)"
| "ceil_as_usize PInf = usize_max"
| "ceil_as_usize NInf = 0"
| "ceil_as_usize NaN = 0"

subsection \<open>Durations\<close>

type_synonym duration = nat

definition NANOS_PER_SEC :: nat where
  "NANOS_PER_SEC = 1000000000"

definition as_secs_f64 :: "duration \<Rightarrow> f64" where
  "as_secs_f64 d =
     f64_add (f64_of_nat (d div NANOS_PER_SEC)) (f64_div (f64_of_nat (d mod NANOS_PER_SEC)) (f64_of_nat NANOS_PER_SEC))"

fun from_secs_f64 :: "f64 \<Rightarrow> duration option" where
  "from_secs_f64 (Fin q) =
     (if q < 0 then None
      else let n = round_even (q * of_nat NANOS_PER_SEC)
           in if n < 2 ^ 64 * int NANOS_PER_SEC then Some (nat n) else None)"
| "from_secs_f64 _ = None"

definition mul_f64 :: "duration \<Rightarrow> f64 \<Rightarrow> duration option" where
  "mul_f64 d x = from_secs_f64 (f64_mul x (as_secs_f64 d))"

lemma f64_clamp_finite: "is_finite x \<Longrightarrow> is_finite (f64_clamp x (Fin a) (Fin b))"
  by (simp add: f64_clamp_def)

lemma f64_clamp_range:
  assumes "is_finite x" and "a \<le> b"
  shows "\<exists>q. f64_clamp x (Fin a) (Fin b) = Fin q \<and> a \<le> q \<and> q \<le> b"
  using assms by (cases x) (auto simp: f64_clamp_def)

lemma f64_clamp_id: "a \<le> q \<Longrightarrow> q \<le> b \<Longrightarrow> f64_clamp (Fin q) (Fin a) (Fin b) = Fin q"
  by (simp add: f64_clamp_def)

end
