(* ===== verification/Adaptive.thy ===== *)
theory Adaptive
  imports Data_Error Float64
begin

text \<open>
  The adaptive concurrency controller of \<^verbatim>\<open>ant-core/src/data/client/adaptive.rs\<close>:
  the sanitised configurations, the AIMD limiter of the quote and store channels, the
  throughput hill climber of the fetch channel, the controller that bundles them, and the
  rolling scheduler that runs work under a limiter. Rates and latencies are computed in
  \<^verbatim>\<open>f64\<close> and \<^verbatim>\<open>Duration\<close> as the code does; \<open>None\<close> is a panic of the
  standard library. What the clock reads is an argument: \<open>t1\<close> and \<open>t2\<close> are the two
  readings of \<^verbatim>\<open>Instant::now\<close> an observation may take, in nanoseconds. The mutex
  makes each method one step, so a limiter's history is a sequence of steps.
\<close>

subsection \<open>Constants and data\<close>

definition FETCH_COLD_START_CONCURRENCY :: nat where "FETCH_COLD_START_CONCURRENCY = 4"
definition HILL_PROBE_STEP_DIVISOR :: nat where "HILL_PROBE_STEP_DIVISOR = 4"
definition HILL_MIN_PROBE_STEP :: nat where "HILL_MIN_PROBE_STEP = 1"
definition HILL_UP_PROBE_ACCEPT_RATIO :: f64 where "HILL_UP_PROBE_ACCEPT_RATIO = round_f64 (105 / 100)"
definition HILL_DOWN_PROBE_ACCEPT_RATIO :: f64 where "HILL_DOWN_PROBE_ACCEPT_RATIO = round_f64 (98 / 100)"
definition HILL_REJECT_COOLDOWN_EPOCHS :: nat where "HILL_REJECT_COOLDOWN_EPOCHS = 2"
definition HILL_STABLE_PROBE_EPOCHS :: nat where "HILL_STABLE_PROBE_EPOCHS = 3"
definition HILL_STRESS_DECREASE_DIVISOR :: nat where "HILL_STRESS_DECREASE_DIVISOR = 2"
definition HILL_EPOCH_FULL_WAVES :: nat where "HILL_EPOCH_FULL_WAVES = 2"
definition HILL_EPOCH_MAX_DURATION :: duration where "HILL_EPOCH_MAX_DURATION = 2 * NANOS_PER_SEC"
definition FETCH_MIN_FLOOR :: nat where "FETCH_MIN_FLOOR = 4"

record channels =
  ch_quote :: nat
  ch_store :: nat
  ch_fetch :: nat

definition channel_max_default :: channels where
  "channel_max_default = \<lparr>ch_quote = 128, ch_store = 64, ch_fetch = 256\<rparr>"

definition channel_start_default :: channels where
  "channel_start_default = \<lparr>ch_quote = 32, ch_store = 8, ch_fetch = FETCH_COLD_START_CONCURRENCY\<rparr>"

record adaptive_config =
  ac_enabled :: bool
  ac_min_concurrency :: nat
  ac_max :: channels
  ac_window_ops :: nat
  ac_min_window_ops :: nat
  ac_success_target :: f64
  ac_timeout_ceiling :: f64
  ac_latency_inflation_factor :: f64
  ac_latency_ewma_alpha :: f64

definition sane_unit :: "rat \<Rightarrow> f64 \<Rightarrow> f64" where
  "sane_unit dflt x = f64_clamp (if is_finite x then x else round_f64 dflt) (Fin 0) (Fin 1)"

definition sane_factor :: "f64 \<Rightarrow> f64" where
  "sane_factor x = (if \<not> is_finite x \<or> f64_le x (Fin 0) then Fin 4 else x)"

definition sanitize_adaptive :: "adaptive_config \<Rightarrow> adaptive_config" where
  "sanitize_adaptive c =
     (let lo = max (ac_min_concurrency c) 1; w = max (ac_window_ops c) 1
      in c\<lparr>ac_latency_ewma_alpha := sane_unit (2 / 10) (ac_latency_ewma_alpha c),
           ac_success_target := sane_unit (95 / 100) (ac_success_target c),
           ac_timeout_ceiling := sane_unit (10 / 100) (ac_timeout_ceiling c),
           ac_latency_inflation_factor := sane_factor (ac_latency_inflation_factor c),
           ac_min_concurrency := lo,
           ac_window_ops := w,
           ac_min_window_ops := min (max (ac_min_window_ops c) 1) w,
           ac_max := \<lparr>ch_quote = max (ch_quote (ac_max c)) lo, ch_store = max (ch_store (ac_max c)) lo,
                      ch_fetch = max (ch_fetch (ac_max c)) lo\<rparr>\<rparr>)"

definition adaptive_config_default :: adaptive_config where
  "adaptive_config_default =
     \<lparr>ac_enabled = True, ac_min_concurrency = 1, ac_max = channel_max_default, ac_window_ops = 32,
      ac_min_window_ops = 8, ac_success_target = round_f64 (95 / 100),
      ac_timeout_ceiling = round_f64 (10 / 100), ac_latency_inflation_factor = Fin 4,
      ac_latency_ewma_alpha = round_f64 (2 / 10)\<rparr>"

record sample =
  sm_outcome :: outcome
  sm_latency :: duration

datatype limiter_algorithm = Aimd | ThroughputHillClimb

datatype probe_direction = Up | Down

record hill_climb_state =
  hc_epoch_started :: "nat option"
  hc_epoch_samples :: nat
  hc_epoch_successes :: nat
  hc_epoch_timeouts :: nat
  hc_epoch_net_errors :: nat
  hc_epoch_bytes :: nat
  hc_epoch_latencies :: "duration list"
  hc_best_goodput_per_sec :: "f64 option"
  hc_best_latency_p95 :: "duration option"
  hc_best_concurrency :: nat
  hc_stable_epochs :: nat
  hc_cooldown_epochs :: nat
  hc_next_probe :: probe_direction
  hc_active_probe :: "probe_direction option"

definition hill_new :: "nat \<Rightarrow> hill_climb_state" where
  "hill_new start =
     \<lparr>hc_epoch_started = None, hc_epoch_samples = 0, hc_epoch_successes = 0, hc_epoch_timeouts = 0,
      hc_epoch_net_errors = 0, hc_epoch_bytes = 0, hc_epoch_latencies = [],
      hc_best_goodput_per_sec = None, hc_best_latency_p95 = None, hc_best_concurrency = start,
      hc_stable_epochs = 0, hc_cooldown_epochs = 0, hc_next_probe = Up, hc_active_probe = None\<rparr>"

definition reset_epoch :: "hill_climb_state \<Rightarrow> hill_climb_state" where
  "reset_epoch h =
     h\<lparr>hc_epoch_started := None, hc_epoch_samples := 0, hc_epoch_successes := 0, hc_epoch_timeouts := 0,
       hc_epoch_net_errors := 0, hc_epoch_bytes := 0, hc_epoch_latencies := []\<rparr>"

definition capacity_total :: "hill_climb_state \<Rightarrow> nat" where
  "capacity_total h = hc_epoch_successes h + hc_epoch_timeouts h + hc_epoch_net_errors h"

record limiter_config =
  lc_enabled :: bool
  lc_min_concurrency :: nat
  lc_max_concurrency :: nat
  lc_window_ops :: nat
  lc_min_window_ops :: nat
  lc_success_target :: f64
  lc_timeout_ceiling :: f64
  lc_latency_inflation_factor :: f64
  lc_latency_ewma_alpha :: f64
  lc_slow_start_ramp_threshold :: nat
  lc_latency_decrease_enabled :: bool
  lc_retain_increase_credit_on_decrease :: bool

definition from_adaptive :: "adaptive_config \<Rightarrow> nat \<Rightarrow> limiter_config" where
  "from_adaptive c max_for_channel =
     \<lparr>lc_enabled = ac_enabled c, lc_min_concurrency = ac_min_concurrency c,
      lc_max_concurrency = max max_for_channel (ac_min_concurrency c), lc_window_ops = ac_window_ops c,
      lc_min_window_ops = ac_min_window_ops c, lc_success_target = ac_success_target c,
      lc_timeout_ceiling = ac_timeout_ceiling c,
      lc_latency_inflation_factor = ac_latency_inflation_factor c,
      lc_latency_ewma_alpha = ac_latency_ewma_alpha c, lc_slow_start_ramp_threshold = 0,
      lc_latency_decrease_enabled = True, lc_retain_increase_credit_on_decrease = False\<rparr>"

definition sanitize_limiter :: "limiter_config \<Rightarrow> limiter_config" where
  "sanitize_limiter c =
     (let lo = max (lc_min_concurrency c) 1; w = max (lc_window_ops c) 1
      in c\<lparr>lc_latency_ewma_alpha := sane_unit (2 / 10) (lc_latency_ewma_alpha c),
           lc_success_target := sane_unit (95 / 100) (lc_success_target c),
           lc_timeout_ceiling := sane_unit (10 / 100) (lc_timeout_ceiling c),
           lc_latency_inflation_factor := sane_factor (lc_latency_inflation_factor c),
           lc_min_concurrency := lo,
           lc_window_ops := w,
           lc_min_window_ops := min (max (lc_min_window_ops c) 1) w,
           lc_max_concurrency := max (lc_max_concurrency c) lo\<rparr>)"

record limiter_inner =
  li_observation_epoch :: u64
  li_current :: nat
  li_window :: "sample list"
  li_samples_since_increase :: nat
  li_samples_since_decrease :: nat
  li_latency_baseline :: "duration option"
  li_left_slow_start :: bool
  li_hill :: hill_climb_state

record limiter =
  lim_inner :: limiter_inner
  lim_config :: limiter_config
  lim_algorithm :: limiter_algorithm

subsection \<open>Statistics\<close>

definition p95_of :: "duration list \<Rightarrow> duration option" where
  "p95_of latencies =
     (if latencies = [] then None
      else let sorted = sort latencies;
               idx = ceil_as_usize (f64_mul (f64_of_nat (length latencies)) (round_f64 (95 / 100)));
               idx' = min (idx - 1) (length latencies - 1)
           in Some (sorted ! idx'))"

definition success_latencies :: "sample list \<Rightarrow> duration list" where
  "success_latencies window = map sm_latency (filter (\<lambda>s. sm_outcome s = Outcome_Success) window)"

definition window_p95 :: "sample list \<Rightarrow> duration" where
  "window_p95 window = (case p95_of (success_latencies window) of Some d \<Rightarrow> d | None \<Rightarrow> 0)"

definition ewma :: "duration \<Rightarrow> duration \<Rightarrow> f64 \<Rightarrow> duration option" where
  "ewma prev sample alpha =
     (if \<not> is_finite alpha then Some prev
      else let a = f64_clamp alpha (Fin 0) (Fin 1);
               prev_ms = f64_mul (as_secs_f64 prev) (Fin 1000);
               sample_ms = f64_mul (as_secs_f64 sample) (Fin 1000);
               new_ms = f64_add (f64_mul (f64_sub (Fin 1) a) prev_ms) (f64_mul a sample_ms)
           in if \<not> is_finite new_ms \<or> f64_lt new_ms (Fin 0) then Some prev
              else from_secs_f64 (f64_div new_ms (Fin 1000)))"

definition ewma_f64 :: "f64 \<Rightarrow> f64 \<Rightarrow> f64 \<Rightarrow> f64" where
  "ewma_f64 prev sample alpha =
     (if \<not> is_finite alpha then prev
      else let a = f64_clamp alpha (Fin 0) (Fin 1);
               nxt = f64_add (f64_mul (f64_sub (Fin 1) a) prev) (f64_mul a sample)
           in if is_finite nxt \<and> f64_le (Fin 0) nxt then nxt else prev)"

subsection \<open>AIMD\<close>

datatype decision = Increase | Decrease | Hold

definition outcomes :: "outcome \<Rightarrow> sample list \<Rightarrow> nat" where
  "outcomes x window = length (filter (\<lambda>s. sm_outcome s = x) window)"

definition stressed :: "nat \<Rightarrow> nat \<Rightarrow> nat \<Rightarrow> limiter_config \<Rightarrow> bool" where
  "stressed successes timeouts capacity cfg \<longleftrightarrow>
     f64_lt (f64_div (f64_of_nat successes) (f64_of_nat capacity)) (lc_success_target cfg) \<or>
     f64_lt (lc_timeout_ceiling cfg) (f64_div (f64_of_nat timeouts) (f64_of_nat capacity))"

definition evaluate :: "sample list \<Rightarrow> limiter_config \<Rightarrow> duration option \<Rightarrow> decision option" where
  "evaluate window cfg baseline =
     (let successes = outcomes Outcome_Success window;
          timeouts = outcomes Outcome_Timeout window;
          capacity = successes + timeouts + outcomes Outcome_NetworkError window
      in if capacity < lc_min_window_ops cfg then Some Hold
         else if stressed successes timeouts capacity cfg then Some Decrease
         else (case p95_of (success_latencies window) of
                 None \<Rightarrow> Some Hold
               | Some p95 \<Rightarrow>
                   (if lc_latency_decrease_enabled cfg then
                      (case baseline of
                         None \<Rightarrow> Some Increase
                       | Some base \<Rightarrow>
                           (case mul_f64 base (lc_latency_inflation_factor cfg) of
                              None \<Rightarrow> None
                            | Some limit \<Rightarrow> Some (if limit < p95 then Decrease else Increase)))
                    else Some Increase)))"

fun apply_decision :: "limiter_inner \<Rightarrow> decision \<Rightarrow> limiter_config \<Rightarrow> limiter_inner option" where
  "apply_decision inner Increase cfg =
     (if li_samples_since_increase inner < lc_window_ops cfg then Some inner
      else let p95 = window_p95 (li_window inner);
               next_cap = (if li_left_slow_start inner then sat_add (li_current inner) 1
                           else sat_mul (li_current inner) 2);
               next_cap = max (min next_cap (lc_max_concurrency cfg)) (lc_min_concurrency cfg)
           in case (case li_latency_baseline inner of
                      None \<Rightarrow> Some p95
                    | Some prev \<Rightarrow> ewma prev p95 (lc_latency_ewma_alpha cfg)) of
                None \<Rightarrow> None
              | Some base \<Rightarrow>
                  Some (inner\<lparr>li_latency_baseline := Some base, li_current := next_cap,
                              li_samples_since_increase := 0, li_samples_since_decrease := 0\<rparr>))"
| "apply_decision inner Decrease cfg =
     (if li_samples_since_decrease inner < lc_min_window_ops cfg then Some inner
      else Some (inner
             \<lparr>li_left_slow_start := (li_left_slow_start inner \<or>
                                      lc_slow_start_ramp_threshold cfg \<le> li_current inner),
              li_current := max (li_current inner div 2) (lc_min_concurrency cfg),
              li_samples_since_increase := (if lc_retain_increase_credit_on_decrease cfg
                                            then li_samples_since_increase inner else 0),
              li_samples_since_decrease := 0\<rparr>))"
| "apply_decision inner Hold cfg = Some inner"

subsection \<open>Hill climbing\<close>

record hill_epoch_stats =
  es_goodput_per_sec :: f64
  es_latency_p95 :: "duration option"

definition hill_epoch_target_samples :: "nat \<Rightarrow> limiter_config \<Rightarrow> nat" where
  "hill_epoch_target_samples current cfg =
     max (max (lc_window_ops cfg) (sat_mul current HILL_EPOCH_FULL_WAVES)) (lc_min_window_ops cfg)"

definition hill_epoch_stressed :: "hill_climb_state \<Rightarrow> limiter_config \<Rightarrow> bool" where
  "hill_epoch_stressed hill cfg =
     (if capacity_total hill < lc_min_window_ops cfg then False
      else stressed (hc_epoch_successes hill) (hc_epoch_timeouts hill) (capacity_total hill) cfg)"

definition hill_epoch_stats_of :: "hill_climb_state \<Rightarrow> limiter_config \<Rightarrow> nat \<Rightarrow> hill_epoch_stats option" where
  "hill_epoch_stats_of hill cfg now =
     (if capacity_total hill < lc_min_window_ops cfg \<or> hc_epoch_successes hill = 0 then None
      else let latency_p95 = p95_of (hc_epoch_latencies hill);
               max_latency = fold max (hc_epoch_latencies hill) 0;
               wall_elapsed = (case hc_epoch_started hill of None \<Rightarrow> 0 | Some s \<Rightarrow> now - s);
               elapsed_secs = as_secs_f64 (max wall_elapsed max_latency);
               units = (if 0 < hc_epoch_bytes hill then f64_of_nat (hc_epoch_bytes hill)
                        else f64_of_nat (hc_epoch_successes hill))
           in if \<not> is_finite elapsed_secs \<or> f64_le elapsed_secs (Fin 0) then None
              else Some \<lparr>es_goodput_per_sec = f64_div units elapsed_secs, es_latency_p95 = latency_p95\<rparr>)"

definition apply_hill_stress :: "limiter_inner \<Rightarrow> limiter_config \<Rightarrow> limiter_inner" where
  "apply_hill_stress inner cfg =
     (let next_cap = min (max (li_current inner div HILL_STRESS_DECREASE_DIVISOR) (lc_min_concurrency cfg))
                      (lc_max_concurrency cfg)
      in inner\<lparr>li_current := next_cap,
               li_hill := reset_epoch ((li_hill inner)
                 \<lparr>hc_best_concurrency := next_cap, hc_best_goodput_per_sec := None, hc_best_latency_p95 := None,
                  hc_stable_epochs := 0, hc_cooldown_epochs := HILL_REJECT_COOLDOWN_EPOCHS,
                  hc_active_probe := None, hc_next_probe := Up\<rparr>)\<rparr>)"

definition refresh_hill_best :: "limiter_inner \<Rightarrow> hill_epoch_stats \<Rightarrow> limiter_config \<Rightarrow> limiter_inner option" where
  "refresh_hill_best inner stats cfg =
     (let hill = li_hill inner;
          goodput = (case hc_best_goodput_per_sec hill of
                       Some prev \<Rightarrow> ewma_f64 prev (es_goodput_per_sec stats) (lc_latency_ewma_alpha cfg)
                     | None \<Rightarrow> es_goodput_per_sec stats);
          hill' = hill\<lparr>hc_best_goodput_per_sec := Some goodput\<rparr>
      in case es_latency_p95 stats of
           None \<Rightarrow> Some (inner\<lparr>li_hill := hill'\<rparr>)
         | Some p95 \<Rightarrow>
             (case (case hc_best_latency_p95 hill of
                      Some prev \<Rightarrow> ewma prev p95 (lc_latency_ewma_alpha cfg)
                    | None \<Rightarrow> Some p95) of
                None \<Rightarrow> None
              | Some d \<Rightarrow> Some (inner\<lparr>li_hill := hill'\<lparr>hc_best_latency_p95 := Some d\<rparr>\<rparr>)))"

definition hill_latency_acceptable ::
  "duration option \<Rightarrow> duration option \<Rightarrow> limiter_config \<Rightarrow> bool option" where
  "hill_latency_acceptable candidate best cfg =
     (case (candidate, best) of
        (Some c, Some b) \<Rightarrow> map_option (\<lambda>limit. c \<le> limit) (mul_f64 b (lc_latency_inflation_factor cfg))
      | _ \<Rightarrow> Some True)"

definition accept_hill_probe :: "limiter_inner \<Rightarrow> hill_epoch_stats \<Rightarrow> limiter_config \<Rightarrow> limiter_inner" where
  "accept_hill_probe inner stats cfg =
     inner\<lparr>li_hill := (li_hill inner)
             \<lparr>hc_best_concurrency := li_current inner,
              hc_best_goodput_per_sec := Some (es_goodput_per_sec stats),
              hc_best_latency_p95 := es_latency_p95 stats,
              hc_active_probe := None, hc_cooldown_epochs := 0, hc_stable_epochs := 0\<rparr>,
           li_current := min (max (li_current inner) (lc_min_concurrency cfg)) (lc_max_concurrency cfg)\<rparr>"

fun flip_probe :: "probe_direction \<Rightarrow> probe_direction" where
  "flip_probe Up = Down"
| "flip_probe Down = Up"

definition reject_hill_probe :: "limiter_inner \<Rightarrow> limiter_inner" where
  "reject_hill_probe inner =
     (let hill = li_hill inner
      in inner\<lparr>li_current := hc_best_concurrency hill,
               li_hill := hill
                 \<lparr>hc_active_probe := None,
                  hc_next_probe := (case hc_active_probe hill of Some d \<Rightarrow> flip_probe d | None \<Rightarrow> hc_next_probe hill),
                  hc_cooldown_epochs := HILL_REJECT_COOLDOWN_EPOCHS, hc_stable_epochs := 0\<rparr>\<rparr>)"

definition probe_hill_neighbor :: "limiter_inner \<Rightarrow> probe_direction \<Rightarrow> limiter_config \<Rightarrow> limiter_inner" where
  "probe_hill_neighbor inner direction cfg =
     (let best = hc_best_concurrency (li_hill inner);
          step = max (best div HILL_PROBE_STEP_DIVISOR) HILL_MIN_PROBE_STEP;
          candidate = (case direction of
                         Up \<Rightarrow> min (sat_add best step) (lc_max_concurrency cfg)
                       | Down \<Rightarrow> max (best - step) (lc_min_concurrency cfg))
      in if candidate = best
         then inner\<lparr>li_current := best,
                    li_hill := (li_hill inner)\<lparr>hc_active_probe := None, hc_stable_epochs := 0\<rparr>\<rparr>
         else inner\<lparr>li_current := candidate,
                    li_hill := (li_hill inner)\<lparr>hc_active_probe := Some direction, hc_stable_epochs := 0\<rparr>\<rparr>)"

definition apply_hill_epoch :: "limiter_inner \<Rightarrow> hill_epoch_stats \<Rightarrow> limiter_config \<Rightarrow> limiter_inner option" where
  "apply_hill_epoch inner stats cfg =
     (let hill = li_hill inner
      in case hc_best_goodput_per_sec hill of
           None \<Rightarrow>
             Some (probe_hill_neighbor
               (inner\<lparr>li_hill := hill\<lparr>hc_best_goodput_per_sec := Some (es_goodput_per_sec stats),
                                      hc_best_latency_p95 := es_latency_p95 stats,
                                      hc_best_concurrency := li_current inner\<rparr>\<rparr>) Up cfg)
         | Some best_goodput \<Rightarrow>
             (case hc_active_probe hill of
                Some Up \<Rightarrow>
                  if f64_le (f64_mul best_goodput HILL_UP_PROBE_ACCEPT_RATIO) (es_goodput_per_sec stats) then
                    map_option (\<lambda>acceptable.
                        if acceptable then probe_hill_neighbor (accept_hill_probe inner stats cfg) Up cfg
                        else reject_hill_probe inner)
                      (hill_latency_acceptable (es_latency_p95 stats) (hc_best_latency_p95 hill) cfg)
                  else Some (reject_hill_probe inner)
              | Some Down \<Rightarrow>
                  if f64_le (f64_mul best_goodput HILL_DOWN_PROBE_ACCEPT_RATIO) (es_goodput_per_sec stats) then
                    map_option (\<lambda>acceptable.
                        if acceptable then
                          let inner' = accept_hill_probe inner stats cfg
                          in inner'\<lparr>li_hill := (li_hill inner')\<lparr>hc_next_probe := Up\<rparr>\<rparr>
                        else reject_hill_probe inner)
                      (hill_latency_acceptable (es_latency_p95 stats) (hc_best_latency_p95 hill) cfg)
                  else Some (reject_hill_probe inner)
              | None \<Rightarrow>
                  map_option (\<lambda>inner.
                      let hill = li_hill inner
                      in if 0 < hc_cooldown_epochs hill
                         then inner\<lparr>li_hill := hill\<lparr>hc_cooldown_epochs := hc_cooldown_epochs hill - 1\<rparr>\<rparr>
                         else let hill' = hill\<lparr>hc_stable_epochs := sat_add (hc_stable_epochs hill) 1\<rparr>
                              in if HILL_STABLE_PROBE_EPOCHS \<le> hc_stable_epochs hill'
                                 then probe_hill_neighbor
                                        (inner\<lparr>li_hill := hill'\<lparr>hc_next_probe := flip_probe (hc_next_probe hill')\<rparr>\<rparr>)
                                        (hc_next_probe hill') cfg
                                 else inner\<lparr>li_hill := hill'\<rparr>)
                    (refresh_hill_best inner stats cfg)))"

definition u64_max :: nat where
  "u64_max = 2 ^ 64 - 1"

definition note_hill_sample ::
  "hill_climb_state \<Rightarrow> outcome \<Rightarrow> duration \<Rightarrow> nat \<Rightarrow> nat \<Rightarrow> hill_climb_state" where
  "note_hill_sample hill x latency bs operation_started =
     (let h1 = hill\<lparr>hc_epoch_started :=
                 (case hc_epoch_started hill of
                    Some s \<Rightarrow> if s \<le> operation_started then Some s else Some operation_started
                  | None \<Rightarrow> Some operation_started)\<rparr>;
          h2 = h1\<lparr>hc_epoch_samples := sat_add (hc_epoch_samples h1) 1\<rparr>
      in case x of
           Outcome_Success \<Rightarrow>
             h2\<lparr>hc_epoch_successes := sat_add (hc_epoch_successes h2) 1,
                hc_epoch_bytes := min (hc_epoch_bytes h2 + bs) u64_max,
                hc_epoch_latencies := hc_epoch_latencies h2 @ [latency]\<rparr>
         | Outcome_Timeout \<Rightarrow> h2\<lparr>hc_epoch_timeouts := sat_add (hc_epoch_timeouts h2) 1\<rparr>
         | Outcome_NetworkError \<Rightarrow> h2\<lparr>hc_epoch_net_errors := sat_add (hc_epoch_net_errors h2) 1\<rparr>
         | Outcome_ApplicationError \<Rightarrow> h2)"

definition observe_hill_climb ::
  "limiter_inner \<Rightarrow> outcome \<Rightarrow> duration \<Rightarrow> nat \<Rightarrow> nat \<Rightarrow> limiter_config \<Rightarrow> nat \<Rightarrow> nat \<Rightarrow>
     limiter_inner option" where
  "observe_hill_climb inner x latency bs operation_started cfg t1 t2 =
     (let hill = note_hill_sample (li_hill inner) x latency bs operation_started;
          inner' = inner\<lparr>li_hill := hill\<rparr>
      in if hill_epoch_stressed hill cfg then Some (apply_hill_stress inner' cfg)
         else let minimum = max (lc_min_window_ops cfg) (sat_mul (li_current inner) HILL_EPOCH_FULL_WAVES);
                  timed_epoch = (minimum \<le> hc_epoch_samples hill \<and>
                    (case hc_epoch_started hill of
                       None \<Rightarrow> False | Some started \<Rightarrow> HILL_EPOCH_MAX_DURATION \<le> t1 - started))
              in if \<not> timed_epoch \<and> hc_epoch_samples hill < hill_epoch_target_samples (li_current inner) cfg
                 then Some inner'
                 else map_option (\<lambda>i. i\<lparr>li_hill := reset_epoch (li_hill i)\<rparr>)
                        (case hill_epoch_stats_of hill cfg t2 of
                           None \<Rightarrow> Some inner'
                         | Some stats \<Rightarrow> apply_hill_epoch inner' stats cfg))"

subsection \<open>The limiter\<close>

definition clamp :: "nat \<Rightarrow> nat \<Rightarrow> nat \<Rightarrow> nat" where
  "clamp x lo hi = (if x < lo then lo else if hi < x then hi else x)"

definition new_with_algorithm :: "nat \<Rightarrow> limiter_config \<Rightarrow> limiter_algorithm \<Rightarrow> limiter" where
  "new_with_algorithm start config algorithm =
     (let cfg = sanitize_limiter config;
          clamped = clamp start (lc_min_concurrency cfg) (max (lc_max_concurrency cfg) 1)
      in \<lparr>lim_inner = \<lparr>li_observation_epoch = 0, li_current = clamped, li_window = [],
                        li_samples_since_increase = 0, li_samples_since_decrease = 0,
                        li_latency_baseline = None, li_left_slow_start = False, li_hill = hill_new clamped\<rparr>,
          lim_config = cfg, lim_algorithm = algorithm\<rparr>)"

definition limiter_new :: "nat \<Rightarrow> limiter_config \<Rightarrow> limiter" where
  "limiter_new start config = new_with_algorithm start config Aimd"

definition limiter_current :: "limiter \<Rightarrow> nat" where
  "limiter_current l = li_current (lim_inner l)"

definition observe_with_timing_in_epoch ::
  "limiter \<Rightarrow> outcome \<Rightarrow> duration \<Rightarrow> nat \<Rightarrow> nat \<Rightarrow> u64 option \<Rightarrow> nat \<Rightarrow> nat \<Rightarrow> limiter option" where
  "observe_with_timing_in_epoch l x latency bs operation_started expected_epoch t1 t2 =
     (let cfg = lim_config l; g = lim_inner l
      in if \<not> lc_enabled cfg then Some l
         else if lim_algorithm l = ThroughputHillClimb \<and>
                 (case expected_epoch of Some e \<Rightarrow> e \<noteq> li_observation_epoch g | None \<Rightarrow> False)
         then Some l
         else
           let w = (if length (li_window g) = lc_window_ops cfg then tl (li_window g) else li_window g);
               g = g\<lparr>li_window := w @ [\<lparr>sm_outcome = x, sm_latency = latency\<rparr>]\<rparr>
           in if lim_algorithm l = ThroughputHillClimb then
                map_option (\<lambda>g'. l\<lparr>lim_inner :=
                    (if li_current g' \<noteq> li_current g
                     then g'\<lparr>li_observation_epoch := li_observation_epoch g' + 1\<rparr> else g')\<rparr>)
                  (observe_hill_climb g x latency bs operation_started cfg t1 t2)
              else
                let g = g\<lparr>li_samples_since_increase := sat_add (li_samples_since_increase g) 1,
                          li_samples_since_decrease := sat_add (li_samples_since_decrease g) 1\<rparr>
                in if length (li_window g) < lc_min_window_ops cfg then Some (l\<lparr>lim_inner := g\<rparr>)
                   else (case evaluate (li_window g) cfg (li_latency_baseline g) of
                           None \<Rightarrow> None
                         | Some d \<Rightarrow> map_option (\<lambda>g'. l\<lparr>lim_inner := g'\<rparr>) (apply_decision g d cfg)))"

definition instant_minus :: "nat \<Rightarrow> duration \<Rightarrow> nat" where
  "instant_minus now latency = (if latency \<le> now then now - latency else now)"

definition observe_with_bytes :: "limiter \<Rightarrow> outcome \<Rightarrow> duration \<Rightarrow> nat \<Rightarrow> nat \<Rightarrow> nat \<Rightarrow> nat \<Rightarrow> limiter option" where
  "observe_with_bytes l x latency bs now t1 t2 =
     observe_with_timing_in_epoch l x latency bs (instant_minus now latency) None t1 t2"

definition observe :: "limiter \<Rightarrow> outcome \<Rightarrow> duration \<Rightarrow> nat \<Rightarrow> nat \<Rightarrow> nat \<Rightarrow> limiter option" where
  "observe l x latency now t1 t2 = observe_with_bytes l x latency 0 now t1 t2"

definition observe_fetch_in_epoch ::
  "limiter \<Rightarrow> outcome \<Rightarrow> duration \<Rightarrow> nat \<Rightarrow> u64 \<Rightarrow> nat \<Rightarrow> nat \<Rightarrow> nat \<Rightarrow> limiter option" where
  "observe_fetch_in_epoch l x latency bs ep now t1 t2 =
     observe_with_timing_in_epoch l x latency bs (instant_minus now latency) (Some ep) t1 t2"

definition limiter_warm_start :: "limiter \<Rightarrow> nat \<Rightarrow> limiter" where
  "limiter_warm_start l start =
     (let cfg = lim_config l; g = lim_inner l;
          clamped = clamp start (lc_min_concurrency cfg) (max (lc_max_concurrency cfg) 1)
      in l\<lparr>lim_inner := g\<lparr>li_current := clamped, li_observation_epoch := li_observation_epoch g + 1,
                          li_left_slow_start := (lc_slow_start_ramp_threshold cfg \<le> clamped),
                          li_hill := hill_new clamped\<rparr>\<rparr>)"

definition limiter_snapshot :: "limiter \<Rightarrow> nat" where
  "limiter_snapshot l =
     (if lim_algorithm l = ThroughputHillClimb then hc_best_concurrency (li_hill (lim_inner l))
      else li_current (lim_inner l))"

subsection \<open>The controller\<close>

record adaptive_controller =
  act_quote :: limiter
  act_store :: limiter
  act_fetch :: limiter
  act_config :: adaptive_config
  act_cold_start :: channels

definition controller_new :: "channels \<Rightarrow> adaptive_config \<Rightarrow> adaptive_controller" where
  "controller_new start config =
     (let cfg = sanitize_adaptive config;
          quote_cfg = from_adaptive cfg (ch_quote (ac_max cfg));
          store_cfg = (from_adaptive cfg (ch_store (ac_max cfg)))
            \<lparr>lc_latency_decrease_enabled := False, lc_slow_start_ramp_threshold := usize_max,
             lc_retain_increase_credit_on_decrease := True, lc_success_target := round_f64 (88 / 100)\<rparr>;
          fetch0 = from_adaptive cfg (ch_fetch (ac_max cfg));
          fetch1 = fetch0\<lparr>lc_min_concurrency := max (lc_min_concurrency fetch0) FETCH_MIN_FLOOR\<rparr>;
          fetch_cfg = fetch1
            \<lparr>lc_max_concurrency := max (lc_max_concurrency fetch1) (lc_min_concurrency fetch1),
             lc_slow_start_ramp_threshold := usize_max, lc_latency_decrease_enabled := False\<rparr>
      in \<lparr>act_quote = limiter_new (ch_quote start) quote_cfg,
          act_store = limiter_new (ch_store start) store_cfg,
          act_fetch = new_with_algorithm (ch_fetch start) fetch_cfg ThroughputHillClimb,
          act_config = cfg, act_cold_start = start\<rparr>)"

definition controller_snapshot :: "adaptive_controller \<Rightarrow> channels" where
  "controller_snapshot c =
     \<lparr>ch_quote = limiter_snapshot (act_quote c), ch_store = limiter_snapshot (act_store c),
      ch_fetch = limiter_snapshot (act_fetch c)\<rparr>"

definition controller_warm_start :: "adaptive_controller \<Rightarrow> channels \<Rightarrow> adaptive_controller" where
  "controller_warm_start c snap =
     (if \<not> ac_enabled (act_config c) then c
      else c\<lparr>act_quote := limiter_warm_start (act_quote c) (max (ch_quote snap) (ch_quote (act_cold_start c))),
             act_store := limiter_warm_start (act_store c) (max (ch_store snap) (ch_store (act_cold_start c))),
             act_fetch := limiter_warm_start (act_fetch c) (max (ch_fetch snap) (ch_fetch (act_cold_start c)))\<rparr>)"

subsection \<open>The rolling scheduler\<close>

text \<open>
  \<^verbatim>\<open>rebucketed_unordered\<close>: \<open>caps n\<close> is what the limiter reports at the \<open>n\<close>-th refill
  and \<open>pick n\<close> which future in flight completes then; both are arbitrary.
\<close>

lemma one_fewer_in_flight:
  assumes "flight = in_flight @ take k iter" and "flight \<noteq> []"
  shows "length (drop k iter) +
    length (take (n mod length flight) flight @ drop (Suc (n mod length flight)) flight) <
    length iter + length in_flight"
proof -
  have "n mod length flight < length flight" using assms(2) by simp
  moreover have "length flight + length (drop k iter) = length iter + length in_flight"
    unfolding assms(1) by (simp add: min_def)
  ultimately show ?thesis by simp
qed

function rebucket_loop ::
  "(nat \<Rightarrow> nat) \<Rightarrow> (nat \<Rightarrow> nat) \<Rightarrow> ('i \<Rightarrow> ('e, 't) result) \<Rightarrow> nat \<Rightarrow> 'i list \<Rightarrow> 'i list \<Rightarrow> 't list \<Rightarrow>
     'e option \<Rightarrow> ('e, 't list) result" where
  "rebucket_loop caps pick opr n iter in_flight results pending_err =
     (let launched = (if pending_err = None then max (caps n) 1 - length in_flight else 0);
          flight = in_flight @ take launched iter
      in if flight = [] then (case pending_err of Some e \<Rightarrow> Inl e | None \<Rightarrow> Inr results)
         else let i = pick n mod length flight; rest = take i flight @ drop (Suc i) flight
              in case opr (flight ! i) of
                   Inr v \<Rightarrow> rebucket_loop caps pick opr (Suc n) (drop launched iter) rest (results @ [v]) pending_err
                 | Inl e \<Rightarrow> rebucket_loop caps pick opr (Suc n) (drop launched iter) rest results
                              (case pending_err of None \<Rightarrow> Some e | Some e' \<Rightarrow> Some e'))"
  by pat_completeness auto
termination
proof (relation "measure (\<lambda>(caps, pick, opr, n, iter, in_flight, results, e). length iter + length in_flight)",
    goal_cases)
  case 1
  then show ?case by simp
next
  case (2 caps pick opr n iter in_flight results pending_err launched flight i rest v)
  from one_fewer_in_flight [OF 2(2,3), of "pick n"] show ?case
    unfolding 2(5) 2(4) by (simp only: in_measure split_conv)
next
  case (3 caps pick opr n iter in_flight results pending_err launched flight i rest e)
  from one_fewer_in_flight [OF 3(2,3), of "pick n"] show ?case
    unfolding 3(5) 3(4) by (simp only: in_measure split_conv)
qed

declare rebucket_loop.simps [simp del]

definition rebucketed_unordered ::
  "(nat \<Rightarrow> nat) \<Rightarrow> (nat \<Rightarrow> nat) \<Rightarrow> 'i list \<Rightarrow> ('i \<Rightarrow> ('e, 't) result) \<Rightarrow> ('e, 't list) result" where
  "rebucketed_unordered caps pick items opr = rebucket_loop caps pick opr 0 items [] [] None"

definition rebucketed_ordered ::
  "(nat \<Rightarrow> nat) \<Rightarrow> (nat \<Rightarrow> nat) \<Rightarrow> 'i list \<Rightarrow> ('i \<Rightarrow> ('e, nat \<times> 'u) result) \<Rightarrow> ('e, 'u list) result" where
  "rebucketed_ordered caps pick items opr =
     map_sum id (\<lambda>indexed. map snd (sort_key fst indexed)) (rebucketed_unordered caps pick items opr)"

subsection \<open>Sanitised configurations\<close>

lemma round_f64_not_NaN [simp]: "round_f64 q \<noteq> NaN"
  by (simp add: round_f64_def Let_def)

lemma sane_unit_range: "\<exists>q. sane_unit d x = Fin q \<and> 0 \<le> q \<and> q \<le> 1"
proof -
  have "\<exists>q. f64_clamp y (Fin 0) (Fin 1) = Fin q \<and> 0 \<le> q \<and> q \<le> 1" if "y \<noteq> NaN" for y
    using that by (cases y) (auto simp: f64_clamp_def)
  moreover have "(if is_finite x then x else round_f64 d) \<noteq> NaN" by auto
  ultimately show ?thesis unfolding sane_unit_def by blast
qed

lemma sane_unit_idem [simp]: "sane_unit d (sane_unit d x) = sane_unit d x"
  using sane_unit_range [of d x] by (auto simp: sane_unit_def [of d "Fin _"] f64_clamp_id)

lemma sane_factor_idem [simp]: "sane_factor (sane_factor x) = sane_factor x"
  by (cases x) (auto simp: sane_factor_def)

text \<open>
  Sanitising a configuration is idempotent and repairs every field: afterwards the
  floor is at least one, the ceiling at least the floor, the windows are non-empty and
  nested, the three rates are finite numbers in the unit interval and the inflation factor
  is a finite positive number, whatever was there before.
\<close>

theorem sanitize_repairs_config:
  "sanitize_limiter (sanitize_limiter c) = sanitize_limiter c \<and>
   1 \<le> lc_min_concurrency (sanitize_limiter c) \<and>
   lc_min_concurrency (sanitize_limiter c) \<le> lc_max_concurrency (sanitize_limiter c) \<and>
   1 \<le> lc_min_window_ops (sanitize_limiter c) \<and>
   lc_min_window_ops (sanitize_limiter c) \<le> lc_window_ops (sanitize_limiter c) \<and>
   (\<exists>a s t f. lc_latency_ewma_alpha (sanitize_limiter c) = Fin a \<and> lc_success_target (sanitize_limiter c) = Fin s \<and>
      lc_timeout_ceiling (sanitize_limiter c) = Fin t \<and> lc_latency_inflation_factor (sanitize_limiter c) = Fin f \<and>
      0 \<le> a \<and> a \<le> 1 \<and> 0 \<le> s \<and> s \<le> 1 \<and> 0 \<le> t \<and> t \<le> 1 \<and> 0 < f)"
proof -
  have f: "\<exists>f. sane_factor x = Fin f \<and> 0 < f" for x
    by (cases x) (auto simp: sane_factor_def)
  have fields: "\<exists>a s t f. sane_unit (2 / 10) w = Fin a \<and> sane_unit (95 / 100) x = Fin s \<and>
      sane_unit (10 / 100) y = Fin t \<and> sane_factor z = Fin f \<and>
      0 \<le> a \<and> a \<le> 1 \<and> 0 \<le> s \<and> s \<le> 1 \<and> 0 \<le> t \<and> t \<le> 1 \<and> 0 < f" for w x y z
    using sane_unit_range [of "2 / 10" w] sane_unit_range [of "95 / 100" x] sane_unit_range [of "10 / 100" y] f [of z]
    by blast
  have idem: "sanitize_limiter (sanitize_limiter c) = sanitize_limiter c"
    by (simp add: sanitize_limiter_def Let_def)
  show ?thesis unfolding idem
    using fields [of "lc_latency_ewma_alpha c" "lc_success_target c" "lc_timeout_ceiling c" "lc_latency_inflation_factor c"]
    by (simp add: sanitize_limiter_def Let_def)
qed

subsection \<open>The cap stays within its bounds\<close>

definition config_ok :: "limiter_config \<Rightarrow> bool" where
  "config_ok c \<longleftrightarrow> 1 \<le> lc_min_concurrency c \<and> lc_min_concurrency c \<le> lc_max_concurrency c \<and>
     lc_max_concurrency c \<le> usize_max \<and> 1 \<le> lc_min_window_ops c \<and> lc_min_window_ops c \<le> lc_window_ops c"

definition cap_within :: "limiter_config \<Rightarrow> nat \<Rightarrow> bool" where
  "cap_within c n \<longleftrightarrow> lc_min_concurrency c \<le> n \<and> n \<le> lc_max_concurrency c"

definition inner_ok :: "limiter_config \<Rightarrow> limiter_inner \<Rightarrow> bool" where
  "inner_ok c g \<longleftrightarrow> cap_within c (li_current g) \<and> cap_within c (hc_best_concurrency (li_hill g)) \<and>
     length (li_window g) \<le> lc_window_ops c"

definition limiter_ok :: "limiter \<Rightarrow> bool" where
  "limiter_ok l \<longleftrightarrow> config_ok (lim_config l) \<and> inner_ok (lim_config l) (lim_inner l)"

inductive limiter_step :: "limiter \<Rightarrow> limiter \<Rightarrow> bool" where
  observed: "observe_with_timing_in_epoch l x latency bs started ep t1 t2 = Some l' \<Longrightarrow> limiter_step l l'"
| warmed: "limiter_step l (limiter_warm_start l n)"

lemma clamp_within: "config_ok c \<Longrightarrow> cap_within c (clamp n (lc_min_concurrency c) (max (lc_max_concurrency c) 1))"
  by (auto simp: config_ok_def cap_within_def clamp_def)

lemma reset_epoch_best [simp]: "hc_best_concurrency (reset_epoch h) = hc_best_concurrency h"
  by (simp add: reset_epoch_def)

lemma note_hill_sample_best [simp]:
  "hc_best_concurrency (note_hill_sample h x latency bs st) = hc_best_concurrency h"
  by (simp add: note_hill_sample_def Let_def split: outcome.splits)

lemma sat_add_ge: "a \<le> usize_max \<Longrightarrow> a \<le> sat_add a b"
  by (rule le_sat_add)

lemma probe_hill_neighbor_ok:
  "config_ok c \<Longrightarrow> inner_ok c g \<Longrightarrow> inner_ok c (probe_hill_neighbor g d c)"
  using sat_add_ge [of "hc_best_concurrency (li_hill g)"]
  by (cases d) (auto simp: probe_hill_neighbor_def inner_ok_def cap_within_def config_ok_def Let_def intro: le_trans)

lemma accept_hill_probe_ok:
  "inner_ok c g \<Longrightarrow> inner_ok c (accept_hill_probe g stats c)"
  by (auto simp: accept_hill_probe_def inner_ok_def cap_within_def)

lemma reject_hill_probe_ok: "inner_ok c g \<Longrightarrow> inner_ok c (reject_hill_probe g)"
  by (auto simp: reject_hill_probe_def inner_ok_def Let_def)

lemma apply_hill_stress_ok: "config_ok c \<Longrightarrow> inner_ok c g \<Longrightarrow> inner_ok c (apply_hill_stress g c)"
  by (auto simp: apply_hill_stress_def inner_ok_def cap_within_def config_ok_def HILL_STRESS_DECREASE_DIVISOR_def Let_def)

lemma refresh_hill_best_ok: "inner_ok c g \<Longrightarrow> refresh_hill_best g stats c = Some g' \<Longrightarrow> inner_ok c g'"
  by (auto simp: refresh_hill_best_def inner_ok_def Let_def split: option.splits)

lemmas hill_ok = probe_hill_neighbor_ok accept_hill_probe_ok reject_hill_probe_ok apply_hill_stress_ok

lemma inner_ok_hill [simp]:
  "inner_ok c (g\<lparr>li_hill := h\<rparr>) \<longleftrightarrow>
     cap_within c (li_current g) \<and> cap_within c (hc_best_concurrency h) \<and> length (li_window g) \<le> lc_window_ops c"
  by (simp add: inner_ok_def)

lemma apply_hill_epoch_ok:
  assumes c: "config_ok c" and g: "inner_ok c g" and a: "apply_hill_epoch g stats c = Some g'"
  shows "inner_ok c g'"
proof (cases "hc_best_goodput_per_sec (li_hill g)")
  case None
  have "inner_ok c (g\<lparr>li_hill := h\<lparr>hc_best_concurrency := li_current g\<rparr>\<rparr>)" for h
    using g by (simp add: inner_ok_def)
  with None a probe_hill_neighbor_ok [OF c] show ?thesis by (auto simp: apply_hill_epoch_def Let_def)
next
  case (Some best)
  show ?thesis
  proof (cases "hc_active_probe (li_hill g)")
    case None
    with Some a obtain g1 where r: "refresh_hill_best g stats c = Some g1"
      by (auto simp: apply_hill_epoch_def Let_def)
    from refresh_hill_best_ok [OF g r] have g1: "inner_ok c g1" .
    then have upd: "inner_ok c (g1\<lparr>li_hill := h\<rparr>)" if "hc_best_concurrency h = hc_best_concurrency (li_hill g1)" for h
      using that by (simp add: inner_ok_def)
    show ?thesis using None Some a r upd probe_hill_neighbor_ok [OF c upd]
      by (auto simp: apply_hill_epoch_def Let_def simp del: inner_ok_hill split: if_splits)
  next
    case (Some d)
    have acc: "inner_ok c (accept_hill_probe g stats c)" "inner_ok c (reject_hill_probe g)"
      using g by (auto intro: hill_ok)
    then have "cap_within c (li_current (accept_hill_probe g stats c))"
      "cap_within c (hc_best_concurrency (li_hill (accept_hill_probe g stats c)))"
      "length (li_window (accept_hill_probe g stats c)) \<le> lc_window_ops c" by (auto simp: inner_ok_def)
    with acc probe_hill_neighbor_ok [OF c acc(1), of Up] a Some \<open>hc_best_goodput_per_sec (li_hill g) = Some best\<close>
    show ?thesis
      by (cases d) (auto simp: apply_hill_epoch_def Let_def split: if_splits)
  qed
qed

lemma observe_hill_climb_ok:
  assumes c: "config_ok c" and g: "inner_ok c g"
    and o: "observe_hill_climb g x latency bs started c t1 t2 = Some g'"
  shows "inner_ok c g'"
proof -
  let ?h = "note_hill_sample (li_hill g) x latency bs started"
  let ?g = "g\<lparr>li_hill := ?h\<rparr>"
  have g1: "inner_ok c ?g" using g by (simp add: inner_ok_def)
  show ?thesis
  proof (cases "hill_epoch_stressed ?h c")
    case True
    with o apply_hill_stress_ok [OF c g1] show ?thesis by (simp add: observe_hill_climb_def Let_def)
  next
    case False
    have reset: "inner_ok c (i\<lparr>li_hill := reset_epoch (li_hill i)\<rparr>)" if "inner_ok c i" for i
      using that by (simp add: inner_ok_def)
    show ?thesis
      using o False g1 reset apply_hill_epoch_ok [OF c g1]
      by (auto simp: observe_hill_climb_def Let_def split: if_splits option.splits)
  qed
qed

lemma apply_decision_ok:
  assumes "config_ok c" and "inner_ok c g" and "apply_decision g d c = Some g'"
  shows "inner_ok c g'"
  using assms
  by (cases d) (auto simp: inner_ok_def cap_within_def config_ok_def Let_def split: if_splits option.splits)

lemma observe_config:
  "observe_with_timing_in_epoch l x latency bs started ep t1 t2 = Some l' \<Longrightarrow>
     lim_config l' = lim_config l \<and> lim_algorithm l' = lim_algorithm l"
  by (auto simp: observe_with_timing_in_epoch_def Let_def split: if_splits option.splits)

lemma observe_ok:
  assumes ok: "limiter_ok l" and o: "observe_with_timing_in_epoch l x latency bs started ep t1 t2 = Some l'"
  shows "limiter_ok l'"
proof -
  let ?c = "lim_config l" and ?g = "lim_inner l"
  let ?w = "(if length (li_window ?g) = lc_window_ops ?c then tl (li_window ?g) else li_window ?g) @
     [\<lparr>sm_outcome = x, sm_latency = latency\<rparr>]"
  have c: "config_ok ?c" and g: "inner_ok ?c ?g" using ok by (auto simp: limiter_ok_def)
  have "length ?w \<le> lc_window_ops ?c" using c g by (auto simp: inner_ok_def config_ok_def)
  then have w: "inner_ok ?c (?g\<lparr>li_window := ?w\<rparr>)"
    and w2: "inner_ok ?c (?g\<lparr>li_window := ?w, li_samples_since_increase := a, li_samples_since_decrease := b\<rparr>)" for a b
    using g by (auto simp: inner_ok_def)
  have epoch: "inner_ok ?c (i\<lparr>li_observation_epoch := n\<rparr>) = inner_ok ?c i" for i n
    by (simp add: inner_ok_def)
  have "lim_config l' = ?c" using observe_config [OF o] by simp
  moreover have "inner_ok ?c (lim_inner l')"
    using o g w w2 observe_hill_climb_ok [OF c w] apply_decision_ok [OF c w2] epoch
    by (auto simp: observe_with_timing_in_epoch_def Let_def split: if_splits option.splits)
  ultimately show ?thesis using c by (simp add: limiter_ok_def)
qed

lemma warm_start_ok: "limiter_ok l \<Longrightarrow> limiter_ok (limiter_warm_start l n)"
  using clamp_within [of "lim_config l" n]
  by (auto simp: limiter_ok_def limiter_warm_start_def inner_ok_def hill_new_def Let_def)

lemma new_with_algorithm_ok:
  assumes "lc_min_concurrency config \<le> usize_max" and "lc_max_concurrency config \<le> usize_max"
  shows "limiter_ok (new_with_algorithm start config alg)"
proof -
  have "1 \<le> usize_max" by (simp add: usize_max_def)
  with assms have c: "config_ok (sanitize_limiter config)"
    by (auto simp: config_ok_def sanitize_limiter_def Let_def)
  from clamp_within [OF c, of start] c show ?thesis
    by (auto simp: limiter_ok_def new_with_algorithm_def inner_ok_def hill_new_def Let_def)
qed

interpretation limiter_inv: transition_invariant limiter_step limiter_ok
proof unfold_locales
  fix l l' assume "limiter_ok l" "limiter_step l l'"
  then show "limiter_ok l'" by (auto elim!: limiter_step.cases intro: observe_ok warm_start_ok)
qed

text \<open>
  C29: whatever configuration and start value a limiter is built from, and whatever sequence
  of observations and warm starts follows, on either algorithm and whatever the clock and
  the floating-point rates say, its cap and the cap it would persist stay between the
  sanitised floor and ceiling, the floor is at least one, and the sample window never
  outgrows its size.
\<close>

theorem limiter_cap_stays_in_bounds:
  assumes "lc_min_concurrency config \<le> usize_max" and "lc_max_concurrency config \<le> usize_max"
    and "limiter_step\<^sup>*\<^sup>* (new_with_algorithm start config alg) l"
  shows "1 \<le> lc_min_concurrency (lim_config l) \<and>
    lc_min_concurrency (lim_config l) \<le> limiter_current l \<and> limiter_current l \<le> lc_max_concurrency (lim_config l) \<and>
    lc_min_concurrency (lim_config l) \<le> limiter_snapshot l \<and> limiter_snapshot l \<le> lc_max_concurrency (lim_config l) \<and>
    length (li_window (lim_inner l)) \<le> lc_window_ops (lim_config l)"
  using limiter_inv.reachable_inv [OF assms(3) new_with_algorithm_ok [OF assms(1,2)]]
  by (auto simp: limiter_ok_def config_ok_def inner_ok_def cap_within_def limiter_current_def limiter_snapshot_def)

definition demo_config :: limiter_config where
  "demo_config = \<lparr>lc_enabled = True, lc_min_concurrency = 0, lc_max_concurrency = 6, lc_window_ops = 4,
     lc_min_window_ops = 2, lc_success_target = NaN, lc_timeout_ceiling = Fin 1,
     lc_latency_inflation_factor = Fin 4, lc_latency_ewma_alpha = Fin 0, lc_slow_start_ramp_threshold = 0,
     lc_latency_decrease_enabled = True, lc_retain_increase_credit_on_decrease = False\<rparr>"

abbreviation demo_limiter :: limiter where
  "demo_limiter \<equiv> new_with_algorithm 9 demo_config Aimd"

theorem limiter_cap_stays_in_bounds_witness:
  "let l = limiter_warm_start demo_limiter 100
   in limiter_step\<^sup>*\<^sup>* demo_limiter l \<and> limiter_current l = 6 \<and>
      1 \<le> lc_min_concurrency (lim_config l) \<and> limiter_current l \<le> lc_max_concurrency (lim_config l) \<and>
      limiter_snapshot l \<le> lc_max_concurrency (lim_config l)"
proof -
  let ?l = "limiter_warm_start demo_limiter 100"
  have h: "lc_min_concurrency demo_config \<le> usize_max" "lc_max_concurrency demo_config \<le> usize_max"
    by (simp_all add: demo_config_def usize_max_def)
  have r: "limiter_step\<^sup>*\<^sup>* demo_limiter ?l" by (intro r_into_rtranclp warmed)
  have c: "limiter_current ?l = 6"
    by (simp add: limiter_current_def limiter_warm_start_def new_with_algorithm_def demo_config_def
        sanitize_limiter_def clamp_def Let_def)
  from limiter_cap_stays_in_bounds [OF h r] r c show ?thesis by (simp add: Let_def)
qed

lemma evaluate_total:
  "evaluate w c b = Some d \<Longrightarrow> d = Increase \<or> d = Decrease \<or> d = Hold"
  by (cases d) auto

text \<open>
  One observation moves an AIMD cap by at most a factor of two, and only on fresh
  evidence: it never falls below half (nor below the floor) nor rises above double (nor
  above the ceiling), it cannot fall before a minimum window of samples since the last
  change, so a burst of failures in flight cannot drive it to the floor, and it cannot rise
  before a full window.
\<close>

theorem aimd_moves_are_gated:
  assumes "limiter_ok l" and "lim_algorithm l = Aimd"
    and "observe_with_timing_in_epoch l x latency bs started ep t1 t2 = Some l'"
    and "li_samples_since_increase (lim_inner l) < usize_max" and "li_samples_since_decrease (lim_inner l) < usize_max"
  shows "max (limiter_current l div 2) (lc_min_concurrency (lim_config l)) \<le> limiter_current l' \<and>
    limiter_current l' \<le> min (2 * limiter_current l) (lc_max_concurrency (lim_config l)) \<and>
    (li_samples_since_decrease (lim_inner l) + 1 < lc_min_window_ops (lim_config l) \<longrightarrow>
       limiter_current l \<le> limiter_current l') \<and>
    (li_samples_since_increase (lim_inner l) + 1 < lc_window_ops (lim_config l) \<longrightarrow>
       limiter_current l' \<le> limiter_current l)"
proof -
  let ?c = "lim_config l" and ?g = "lim_inner l"
  have ok: "1 \<le> lc_min_concurrency ?c" "lc_min_concurrency ?c \<le> li_current ?g" "li_current ?g \<le> lc_max_concurrency ?c"
    "li_current ?g \<le> usize_max"
    using assms(1) by (auto simp: limiter_ok_def config_ok_def inner_ok_def cap_within_def)
  have sat: "sat_add (li_samples_since_increase ?g) 1 = li_samples_since_increase ?g + 1"
    "sat_add (li_samples_since_decrease ?g) 1 = li_samples_since_decrease ?g + 1"
    using assms(4,5) by (simp_all add: sat_add_exact)
  have cur: "sat_add (li_current ?g) 1 \<le> li_current ?g + 1" "sat_mul (li_current ?g) 2 \<le> 2 * li_current ?g"
    "li_current ?g \<le> sat_add (li_current ?g) 1" "li_current ?g \<le> sat_mul (li_current ?g) 2"
    using ok(4) by (auto simp: sat_add_def sat_mul_def)
  have step: "max (li_current g div 2) (lc_min_concurrency ?c) \<le> li_current g' \<and>
      li_current g' \<le> min (2 * li_current g) (lc_max_concurrency ?c) \<and>
      (li_samples_since_decrease g < lc_min_window_ops ?c \<longrightarrow> li_current g \<le> li_current g') \<and>
      (li_samples_since_increase g < lc_window_ops ?c \<longrightarrow> li_current g' \<le> li_current g)"
    if "apply_decision g d ?c = Some g'" "li_current g = li_current ?g" for g g' d
    using that ok cur
    by (cases d) (auto simp: Let_def split: if_splits option.splits)
  have idle: "max (li_current ?g div 2) (lc_min_concurrency ?c) \<le> li_current ?g"
    "li_current ?g \<le> min (2 * li_current ?g) (lc_max_concurrency ?c)"
    using ok by auto
  show ?thesis
    using assms(2,3) idle step sat unfolding limiter_current_def
    by (auto simp: observe_with_timing_in_epoch_def Let_def split: if_splits option.splits)
qed

lemma outcomes_neutral:
  "x \<noteq> Outcome_ApplicationError \<Longrightarrow>
     outcomes x (filter (\<lambda>s. sm_outcome s \<noteq> Outcome_ApplicationError) w) = outcomes x w"
  by (induction w) (auto simp: outcomes_def)

lemma success_latencies_neutral:
  "success_latencies (filter (\<lambda>s. sm_outcome s \<noteq> Outcome_ApplicationError) w) = success_latencies w"
  by (induction w) (auto simp: success_latencies_def)

text \<open>
  Application errors are no capacity signal: the verdict on a window is the verdict on
  the window without them, for every configuration and baseline.
\<close>

theorem evaluate_ignores_application_errors:
  "evaluate w c baseline = evaluate (filter (\<lambda>s. sm_outcome s \<noteq> Outcome_ApplicationError) w) c baseline"
  unfolding evaluate_def success_latencies_neutral by (simp add: outcomes_neutral)

theorem aimd_moves_are_gated_witness:
  "\<exists>l'. observe_with_timing_in_epoch demo_limiter Outcome_Timeout 5 0 0 None 0 0 = Some l' \<and>
     3 \<le> limiter_current l' \<and> limiter_current l' \<le> 6"
proof -
  let ?l = demo_limiter
  have ok: "limiter_ok ?l" by (rule new_with_algorithm_ok) (simp_all add: demo_config_def usize_max_def)
  have alg: "lim_algorithm ?l = Aimd" by (simp add: new_with_algorithm_def Let_def)
  have cnt: "li_samples_since_increase (lim_inner ?l) < usize_max" "li_samples_since_decrease (lim_inner ?l) < usize_max"
    by (simp_all add: new_with_algorithm_def usize_max_def Let_def)
  have cur: "limiter_current ?l = 6" "lc_max_concurrency (lim_config ?l) = 6"
    by (simp_all add: limiter_current_def new_with_algorithm_def demo_config_def sanitize_limiter_def clamp_def Let_def)
  obtain l' where o: "observe_with_timing_in_epoch ?l Outcome_Timeout 5 0 0 None 0 0 = Some l'"
    by (simp add: observe_with_timing_in_epoch_def new_with_algorithm_def demo_config_def sanitize_limiter_def Let_def)
  from aimd_moves_are_gated [OF ok alg o cnt] cur o show ?thesis by auto
qed

subsection \<open>The controller's channels\<close>

lemma clamp_ge: "lo \<le> hi \<Longrightarrow> lo \<le> clamp n lo hi"
  by (simp add: clamp_def)

lemma warm_start_current:
  "limiter_current (limiter_warm_start l n) =
     clamp n (lc_min_concurrency (lim_config l)) (max (lc_max_concurrency (lim_config l)) 1)"
  "limiter_snapshot (limiter_warm_start l n) =
     clamp n (lc_min_concurrency (lim_config l)) (max (lc_max_concurrency (lim_config l)) 1)"
  by (simp_all add: limiter_current_def limiter_snapshot_def limiter_warm_start_def hill_new_def Let_def)

lemma new_config [simp]: "lim_config (new_with_algorithm n cfg alg) = sanitize_limiter cfg"
  by (simp add: new_with_algorithm_def Let_def)

text \<open>
  A warm start restores a persisted snapshot but never below the cold start: with
  adaptation enabled each channel's cap becomes the larger of the two, clamped between
  the channel's floor (four for fetch) and its configured ceiling; a second snapshot
  returns exactly these caps. With adaptation disabled nothing changes.
\<close>

theorem warm_start_restores_snapshot:
  "let c = controller_new start config; w = controller_warm_start c snap; cfg = sanitize_adaptive config;
       lo = ac_min_concurrency cfg
   in if ac_enabled config
      then limiter_current (act_quote w) = clamp (max (ch_quote snap) (ch_quote start)) lo (max (ch_quote (ac_max config)) lo) \<and>
           limiter_current (act_store w) = clamp (max (ch_store snap) (ch_store start)) lo (max (ch_store (ac_max config)) lo) \<and>
           limiter_current (act_fetch w) =
             clamp (max (ch_fetch snap) (ch_fetch start)) (max lo 4) (max (ch_fetch (ac_max config)) (max lo 4)) \<and>
           controller_snapshot w = \<lparr>ch_quote = limiter_current (act_quote w), ch_store = limiter_current (act_store w),
             ch_fetch = limiter_current (act_fetch w)\<rparr>
      else w = c"
proof -
  have en: "ac_enabled (act_config (controller_new start config)) = ac_enabled config"
    by (simp add: controller_new_def sanitize_adaptive_def Let_def)
  let ?lo = "max (ac_min_concurrency config) 1"
  have lo: "ac_min_concurrency (sanitize_adaptive config) = ?lo"
    by (simp add: sanitize_adaptive_def Let_def)
  show ?thesis
    by (simp add: Let_def controller_warm_start_def en controller_snapshot_def warm_start_current lo)
      (simp add: controller_new_def limiter_new_def sanitize_limiter_def sanitize_adaptive_def from_adaptive_def
        FETCH_MIN_FLOOR_def Let_def max.assoc max.left_commute)
qed

subsection \<open>What the scheduler returns\<close>

lemma mset_remove_nth:
  assumes "i < length xs"
  shows "mset xs = add_mset (xs ! i) (mset (take i xs @ drop (Suc i) xs))"
  using assms by (subst id_take_nth_drop [OF assms]) simp

lemma rebucket_loop_ok:
  assumes "\<And>x. x \<in> set iter \<union> set in_flight \<Longrightarrow> opr x = Inr (f x)"
  shows "\<exists>rs. rebucket_loop caps pick opr n iter in_flight results None = Inr (results @ rs) \<and>
    mset rs = image_mset f (mset (iter @ in_flight))"
  using assms
proof (induction "length iter + length in_flight" arbitrary: n iter in_flight results rule: less_induct)
  case less
  define k where "k = max (caps n) 1 - length in_flight"
  define flight where "flight = in_flight @ take k iter"
  show ?case
  proof (cases "flight = []")
    case True
    then have "in_flight = []" "take k iter = []" by (auto simp: flight_def)
    moreover from this have "iter = []" by (auto simp: k_def)
    ultimately show ?thesis by (subst rebucket_loop.simps) (simp add: Let_def)
  next
    case False
    define i where "i = pick n mod length flight"
    define rest where "rest = take i flight @ drop (Suc i) flight"
    have il: "i < length flight" using False by (simp add: i_def)
    have ms: "mset flight = add_mset (flight ! i) (mset rest)"
      unfolding rest_def by (rule mset_remove_nth [OF il])
    have sub: "set flight \<subseteq> set iter \<union> set in_flight" unfolding flight_def using set_take_subset [of k iter] by auto
    have "set rest \<subseteq> set flight" using ms by (metis set_mset_add_mset_insert set_mset_mset subset_insertI)
    then have all: "opr x = Inr (f x)" if "x \<in> set (drop k iter) \<union> set rest" for x
      using that less.prems sub set_drop_subset [of k iter] by blast
    have hd: "opr (flight ! i) = Inr (f (flight ! i))"
      using less.prems sub nth_mem [OF il] by blast
    have "length (drop k iter) + length rest < length iter + length in_flight"
      using one_fewer_in_flight [OF flight_def False, of "pick n"] by (simp add: rest_def i_def)
    from less.hyps [OF this all, of "Suc n" "results @ [f (flight ! i)]"] obtain rs where
      rs: "rebucket_loop caps pick opr (Suc n) (drop k iter) rest (results @ [f (flight ! i)]) None =
        Inr ((results @ [f (flight ! i)]) @ rs)" "mset rs = image_mset f (mset (drop k iter @ rest))" by blast
    have "rebucket_loop caps pick opr n iter in_flight results None = Inr (results @ f (flight ! i) # rs)"
      using False
      by (subst rebucket_loop.simps)
        (simp only: Let_def simp_thms if_True if_False k_def [symmetric] flight_def [symmetric]
          i_def [symmetric] rest_def [symmetric] hd sum.case rs(1) append_assoc append_Cons append_Nil)
    moreover have "mset iter + mset in_flight = mset (drop k iter) + mset flight"
      unfolding flight_def by (metis add.assoc add.commute append_take_drop_id mset_append)
    then have "mset (f (flight ! i) # rs) = image_mset f (mset (iter @ in_flight))"
      using rs(2) ms by simp
    ultimately show ?thesis by blast
  qed
qed

text \<open>
  The rolling scheduler loses and reorders nothing that matters. If every operation
  succeeds, then whatever caps the limiter reports and in whatever order the futures
  complete, the ordered variant returns exactly the results of the items in their order.
\<close>

theorem rebucketed_ordered_is_sequential:
  assumes "\<And>i x. (i, x) \<in> set (enumerate 0 xs) \<Longrightarrow> opr (i, x) = Inr (i, f x)"
  shows "rebucketed_ordered caps pick (enumerate 0 xs) opr = Inr (map f xs)"
proof -
  let ?g = "\<lambda>(i, x). (i, f x)"
  from rebucket_loop_ok [of "enumerate 0 xs" "[]" opr ?g caps pick 0 "[]"] assms obtain rs where
    r: "rebucketed_unordered caps pick (enumerate 0 xs) opr = Inr rs"
    and ms: "mset rs = mset (map ?g (enumerate 0 xs))"
    by (auto simp: rebucketed_unordered_def)
  have e: "map ?g (enumerate 0 xs) = enumerate 0 (map f xs)"
    by (simp add: enumerate_eq_zip zip_map2)
  have "inj_on fst (set (enumerate 0 (map f xs)))"
    by (metis distinct_map distinct_upt map_fst_enumerate)
  moreover have "set rs = set (enumerate 0 (map f xs))" using ms e by (metis mset_eq_setD)
  ultimately have "sort_key fst rs = sort_key fst (enumerate 0 (map f xs))"
    using ms e by (intro sort_key_mset_cong) simp_all
  also have "\<dots> = enumerate 0 (map f xs)"
    by (rule sort_key_id_if_sorted) (simp only: map_fst_enumerate sorted_upt)
  finally have "sort_key fst rs = enumerate 0 (map f xs)" .
  with r show ?thesis by (simp add: rebucketed_ordered_def)
qed

theorem rebucketed_ordered_is_sequential_witness:
  "rebucketed_ordered (\<lambda>n. n) (\<lambda>n. 2) (enumerate 0 [10, 20, 30 :: nat]) (\<lambda>(i, x). Inr (i, x + 1)) =
     (Inr [11, 21, 31] :: (unit, nat list) result)"
  using rebucketed_ordered_is_sequential
    [of "[10, 20, 30]" "\<lambda>(i, x). Inr (i, x + 1) :: (unit, nat \<times> nat) result" "\<lambda>x. x + 1" "\<lambda>n. n" "\<lambda>n. 2"]
  by simp

lemma rebucket_loop_errors:
  assumes "rebucket_loop caps pick opr n iter in_flight results err = r"
  shows "(\<forall>rs. r = Inr rs \<longrightarrow> err = None \<and> (\<forall>x \<in> set iter \<union> set in_flight. \<exists>v. opr x = Inr v)) \<and>
    (\<forall>e. r = Inl e \<longrightarrow> err = Some e \<or> (err = None \<and> (\<exists>x \<in> set iter \<union> set in_flight. opr x = Inl e)))"
  using assms
proof (induction "length iter + length in_flight" arbitrary: n iter in_flight results err rule: less_induct)
  case less
  define k where "k = (if err = None then max (caps n) 1 - length in_flight else 0)"
  define flight where "flight = in_flight @ take k iter"
  show ?case
  proof (cases "flight = []")
    case True
    then have "in_flight = []" "take k iter = []" by (auto simp: flight_def)
    moreover from this have "err = None \<longrightarrow> iter = []" by (auto simp: k_def)
    moreover have "r = (case err of Some e \<Rightarrow> Inl e | None \<Rightarrow> Inr results)"
      using less.prems True
      by (subst (asm) rebucket_loop.simps) (simp only: Let_def k_def [symmetric] flight_def [symmetric] if_True simp_thms)
    ultimately show ?thesis by (cases err) auto
  next
    case False
    define i where "i = pick n mod length flight"
    define rest where "rest = take i flight @ drop (Suc i) flight"
    have il: "i < length flight" using False by (simp add: i_def)
    have "mset flight = add_mset (flight ! i) (mset rest)"
      unfolding rest_def by (rule mset_remove_nth [OF il])
    then have fl: "set flight = insert (flight ! i) (set rest)" by (metis set_mset_add_mset_insert set_mset_mset)
    have all: "set iter \<union> set in_flight = set (drop k iter) \<union> insert (flight ! i) (set rest)"
    proof -
      have "set iter = set (take k iter) \<union> set (drop k iter)" by (metis append_take_drop_id set_append)
      moreover have "set flight = set in_flight \<union> set (take k iter)" by (simp add: flight_def)
      ultimately show ?thesis using fl by blast
    qed
    have lt: "length (drop k iter) + length rest < length iter + length in_flight"
      using one_fewer_in_flight [OF flight_def False, of "pick n"] by (simp add: rest_def i_def)
    have step: "r = (case opr (flight ! i) of
        Inr v \<Rightarrow> rebucket_loop caps pick opr (Suc n) (drop k iter) rest (results @ [v]) err
      | Inl e \<Rightarrow> rebucket_loop caps pick opr (Suc n) (drop k iter) rest results
                   (case err of None \<Rightarrow> Some e | Some e' \<Rightarrow> Some e'))"
      using less.prems False
      by (subst (asm) rebucket_loop.simps)
        (simp only: Let_def k_def [symmetric] flight_def [symmetric] i_def [symmetric] rest_def [symmetric] if_False simp_thms)
    show ?thesis
    proof (cases "opr (flight ! i)")
      case (Inl e)
      from less.hyps [OF lt step [unfolded Inl sum.case, symmetric]] Inl show ?thesis
        unfolding all by (cases err) auto
    next
      case (Inr v)
      from less.hyps [OF lt step [unfolded Inr sum.case, symmetric]] Inr show ?thesis
        unfolding all by auto
    qed
  qed
qed

text \<open>
  The scheduler hides no failure: it returns results only if every operation succeeded,
  and an error it returns is the error of one of the operations.
\<close>

theorem rebucketed_reports_failures:
  "(\<exists>rs. rebucketed_unordered caps pick items opr = Inr rs \<and> mset rs = image_mset (projr \<circ> opr) (mset items) \<and>
      (\<forall>x \<in> set items. \<exists>v. opr x = Inr v)) \<or>
   (\<exists>x \<in> set items. \<exists>e. rebucketed_unordered caps pick items opr = Inl e \<and> opr x = Inl e)"
proof (cases "rebucketed_unordered caps pick items opr")
  case (Inl e)
  with rebucket_loop_errors [OF Inl [unfolded rebucketed_unordered_def]] show ?thesis by auto
next
  case (Inr rs)
  from rebucket_loop_errors [OF Inr [unfolded rebucketed_unordered_def]]
  have ok: "\<forall>x \<in> set items. \<exists>v. opr x = Inr v" by simp
  then have "opr x = Inr ((projr \<circ> opr) x)" if "x \<in> set items \<union> set []" for x using that by fastforce
  from rebucket_loop_ok [where caps = caps and pick = pick and n = 0 and results = "[]" and opr = opr and
      iter = items and in_flight = "[]" and f = "projr \<circ> opr", OF this] Inr ok show ?thesis
    by (auto simp: rebucketed_unordered_def)
qed

theorem rebucketed_reports_failures_witness:
  "\<exists>x \<in> set [3, 5 :: nat]. \<exists>e. rebucketed_unordered (\<lambda>_. 1) (\<lambda>_. 0) [3, 5]
     (\<lambda>n. if n = 5 then Inl n else Inr ()) = Inl e \<and> (if x = 5 then Inl x else Inr ()) = Inl e"
  using rebucketed_reports_failures [of "\<lambda>_. 1" "\<lambda>_. 0" "[3, 5 :: nat]" "\<lambda>n. if n = 5 then Inl n else Inr ()"]
  by auto

text \<open>
  Sanitising does not rule out every panic of the latency comparison. The finite factor
  \<open>2 ^ 64\<close> passes it unchanged, and multiplying a baseline of one second by it overflows
  \<^verbatim>\<open>Duration\<close>, which panics.
\<close>

theorem sanitized_factor_may_panic:
  "sane_factor (Fin (2 ^ 64)) = Fin (2 ^ 64) \<and> mul_f64 NANOS_PER_SEC (Fin (2 ^ 64)) = None"
proof -
  have one: "round_f64 1 = Fin 1"
    by (simp add: round_f64_def exponent_of_def bit_len.simps pow2_def round_even_def Let_def)
  have zero: "round_f64 0 = Fin 0" by (simp add: round_f64_def)
  have big: "\<exists>q. f64_of_nat NANOS_PER_SEC = Fin q \<and> q \<noteq> 0"
    by (simp add: f64_of_nat_def NANOS_PER_SEC_def round_f64_def exponent_of_def bit_len.simps pow2_def round_even_def Let_def)
  have "as_secs_f64 NANOS_PER_SEC = Fin 1"
    using big by (auto simp: as_secs_f64_def NANOS_PER_SEC_def f64_of_nat_def one zero)
  moreover have "round_f64 18446744073709551616 = Fin 18446744073709551616"
    by (simp add: round_f64_def exponent_of_def bit_len.simps pow2_def round_even_def Let_def)
  ultimately show ?thesis
    by (simp add: sane_factor_def mul_f64_def NANOS_PER_SEC_def round_even_def Let_def)
qed

end
