(* ===== verification/Read_Budget.thy ===== *)
theory Read_Budget
  imports Float64
begin

text \<open>
  Admission of physical reads, \<^verbatim>\<open>ant-core/src/client_engine/read_budget.rs\<close>: a byte
  budget turned into a number of permits, an allowance that follows how busy local
  processing is, and a share for speculative reads. Every method locks the state, so it is
  one step; \<open>read_world\<close> adds the permits held and the reads queued by the program
  around it, and \<open>world_step\<close> lists everything that can happen to them. A pass of the
  loop of \<^verbatim>\<open>acquire\<close> is \<open>try_acquire\<close>.
\<close>

definition PROCESSING_TARGET :: duration where "PROCESSING_TARGET = 50000000"
definition PROCESSING_WINDOW_SAMPLES :: nat where "PROCESSING_WINDOW_SAMPLES = 8"
definition SPECULATIVE_SHARE_DIVISOR :: nat where "SPECULATIVE_SHARE_DIVISOR = 2"

record read_state =
  rs_active :: nat
  rs_speculative :: nat
  rs_queued :: nat
  rs_processing_cap :: nat
  rs_processing_started :: "nat option"
  rs_processing_time :: duration
  rs_processing_samples :: nat
  rs_slow_samples :: nat
  rs_closed :: bool

record read_budget =
  rb_state :: read_state
  rb_capacity :: nat

definition budget_new :: "nat \<Rightarrow> nat \<Rightarrow> read_budget" where
  "budget_new max_bytes reservation_bytes =
     (let cap = max (max_bytes div max reservation_bytes 1) 1
      in \<lparr>rb_state = \<lparr>rs_active = 0, rs_speculative = 0, rs_queued = 0, rs_processing_cap = cap,
                       rs_processing_started = None, rs_processing_time = 0, rs_processing_samples = 0,
                       rs_slow_samples = 0, rs_closed = False\<rparr>,
          rb_capacity = cap\<rparr>)"

definition budget_limit :: "read_budget \<Rightarrow> nat \<Rightarrow> nat" where
  "budget_limit b desired = min (min (max desired 1) (rb_capacity b)) (rs_processing_cap (rb_state b))"

datatype admission = Closed | Admitted read_state | Waiting

definition try_acquire :: "read_budget \<Rightarrow> nat \<Rightarrow> bool \<Rightarrow> nat \<Rightarrow> admission" where
  "try_acquire b desired speculative now =
     (let st = rb_state b;
          cap = min (min (max desired 1) (rb_capacity b)) (rs_processing_cap st);
          within_share = (\<not> speculative \<or> rs_speculative st < cap div SPECULATIVE_SHARE_DIVISOR)
      in if rs_closed st then Closed
         else if rs_active st < cap \<and> within_share then
           Admitted (st\<lparr>rs_processing_started := (case rs_processing_started st of Some t \<Rightarrow> Some t | None \<Rightarrow> Some now),
                        rs_active := rs_active st + 1,
                        rs_speculative := rs_speculative st + (if speculative then 1 else 0)\<rparr>)
         else Waiting)"

definition drop_permit :: "read_state \<Rightarrow> bool \<Rightarrow> read_state" where
  "drop_permit st speculative =
     st\<lparr>rs_active := rs_active st - 1, rs_speculative := rs_speculative st - (if speculative then 1 else 0)\<rparr>"

definition queued_new :: "read_state \<Rightarrow> read_state" where
  "queued_new st = st\<lparr>rs_queued := rs_queued st + 1\<rparr>"

definition drop_queued :: "read_state \<Rightarrow> read_state" where
  "drop_queued st = st\<lparr>rs_queued := rs_queued st - 1\<rparr>"

definition DURATION_MAX :: duration where
  "DURATION_MAX = 2 ^ 64 * NANOS_PER_SEC - 1"

definition observe_processing_at :: "read_budget \<Rightarrow> duration \<Rightarrow> duration \<Rightarrow> nat \<Rightarrow> nat \<Rightarrow> read_state" where
  "observe_processing_at b processing event_loop_delay desired now =
     (let st = rb_state b;
          started = (case rs_processing_started st of Some t \<Rightarrow> t | None \<Rightarrow> now);
          st1 = st\<lparr>rs_processing_started := Some started,
                   rs_processing_time := min (rs_processing_time st + processing) DURATION_MAX,
                   rs_processing_samples := rs_processing_samples st + 1,
                   rs_slow_samples := rs_slow_samples st +
                     (if PROCESSING_TARGET < max processing event_loop_delay then 1 else 0)\<rparr>
      in if rs_processing_samples st1 < PROCESSING_WINDOW_SAMPLES then st1
         else let busy = ((now - started) div 2 < rs_processing_time st1);
                  cap = (if busy \<and> 2 \<le> rs_slow_samples st1
                         then max (max (min desired (rs_processing_cap st1)) 1 div 2) 1
                         else min (rs_processing_cap st1 + 1) (rb_capacity b))
              in st1\<lparr>rs_processing_cap := cap,
                     rs_processing_started := (if 1 < rs_active st1 then Some now else None),
                     rs_processing_time := 0, rs_processing_samples := 0, rs_slow_samples := 0\<rparr>)"

definition budget_close :: "read_state \<Rightarrow> read_state" where
  "budget_close st = st\<lparr>rs_closed := True\<rparr>"

subsection \<open>The program around the budget\<close>

record read_world =
  rw_budget :: read_budget
  rw_permits :: "bool list"
  rw_waiting :: nat

abbreviation with_state :: "read_world \<Rightarrow> read_state \<Rightarrow> read_world" where
  "with_state w st \<equiv> w\<lparr>rw_budget := (rw_budget w)\<lparr>rb_state := st\<rparr>\<rparr>"

inductive world_step :: "read_world \<Rightarrow> read_world \<Rightarrow> bool" where
  enter: "world_step w ((with_state w (queued_new (rb_state (rw_budget w))))\<lparr>rw_waiting := rw_waiting w + 1\<rparr>)"
| admit: "0 < rw_waiting w \<Longrightarrow> try_acquire (rw_budget w) desired speculative now = Admitted st \<Longrightarrow>
    world_step w ((with_state w (drop_queued st))\<lparr>rw_waiting := rw_waiting w - 1,
      rw_permits := speculative # rw_permits w\<rparr>)"
| refuse: "0 < rw_waiting w \<Longrightarrow> try_acquire (rw_budget w) desired speculative now = Closed \<Longrightarrow>
    world_step w ((with_state w (drop_queued (rb_state (rw_budget w))))\<lparr>rw_waiting := rw_waiting w - 1\<rparr>)"
| cancel: "0 < rw_waiting w \<Longrightarrow>
    world_step w ((with_state w (drop_queued (rb_state (rw_budget w))))\<lparr>rw_waiting := rw_waiting w - 1\<rparr>)"
| release: "rw_permits w = ps @ p # qs \<Longrightarrow>
    world_step w ((with_state w (drop_permit (rb_state (rw_budget w)) p))\<lparr>rw_permits := ps @ qs\<rparr>)"
| process: "world_step w (with_state w (observe_processing_at (rw_budget w) processing delay desired now))"
| shut: "world_step w (with_state w (budget_close (rb_state (rw_budget w))))"

definition world_new :: "nat \<Rightarrow> nat \<Rightarrow> read_world" where
  "world_new max_bytes reservation_bytes =
     \<lparr>rw_budget = budget_new max_bytes reservation_bytes, rw_permits = [], rw_waiting = 0\<rparr>"

definition world_ok :: "nat \<Rightarrow> read_world \<Rightarrow> bool" where
  "world_ok cap w \<longleftrightarrow>
     (let st = rb_state (rw_budget w)
      in rb_capacity (rw_budget w) = cap \<and> 1 \<le> rs_processing_cap st \<and> rs_processing_cap st \<le> cap \<and>
         rs_active st = length (rw_permits w) \<and> rs_active st \<le> cap \<and>
         rs_speculative st = length (filter id (rw_permits w)) \<and>
         rs_speculative st \<le> cap div SPECULATIVE_SHARE_DIVISOR \<and>
         rs_queued st = rw_waiting w)"

lemma try_acquire_Admitted:
  assumes "try_acquire b desired speculative now = Admitted st"
  shows "rs_active (rb_state b) < rb_capacity b"
    and "speculative \<Longrightarrow> rs_speculative (rb_state b) < rb_capacity b div SPECULATIVE_SHARE_DIVISOR"
    and "rs_active st = rs_active (rb_state b) + 1"
    and "rs_speculative st = rs_speculative (rb_state b) + (if speculative then 1 else 0)"
    and "rs_queued st = rs_queued (rb_state b)" and "rs_processing_cap st = rs_processing_cap (rb_state b)"
proof -
  let ?cap = "min (min (max desired 1) (rb_capacity b)) (rs_processing_cap (rb_state b))"
  have le: "?cap \<le> rb_capacity b" by simp
  then have le2: "?cap div SPECULATIVE_SHARE_DIVISOR \<le> rb_capacity b div SPECULATIVE_SHARE_DIVISOR"
    by (rule div_le_mono)
  from assms have adm: "rs_active (rb_state b) < ?cap"
    "speculative \<Longrightarrow> rs_speculative (rb_state b) < ?cap div SPECULATIVE_SHARE_DIVISOR"
    by (auto simp: try_acquire_def Let_def split: if_splits)
  show "rs_active (rb_state b) < rb_capacity b" using adm(1) le by linarith
  show "speculative \<Longrightarrow> rs_speculative (rb_state b) < rb_capacity b div SPECULATIVE_SHARE_DIVISOR"
    using adm(2) le2 by linarith
qed (use assms in \<open>auto simp: try_acquire_def Let_def split: if_splits\<close>)

lemma observe_processing_fields:
  "rs_active (observe_processing_at b p d n t) = rs_active (rb_state b)"
  "rs_speculative (observe_processing_at b p d n t) = rs_speculative (rb_state b)"
  "rs_queued (observe_processing_at b p d n t) = rs_queued (rb_state b)"
  by (simp_all add: observe_processing_at_def Let_def)

lemma observe_processing_cap:
  assumes "1 \<le> rs_processing_cap (rb_state b)" and "rs_processing_cap (rb_state b) \<le> rb_capacity b"
  shows "1 \<le> rs_processing_cap (observe_processing_at b p d n t) \<and>
    rs_processing_cap (observe_processing_at b p d n t) \<le> rb_capacity b"
  using assms by (auto simp: observe_processing_at_def Let_def)

lemma world_step_ok:
  assumes "world_ok cap w" and "world_step w w'"
  shows "world_ok cap w'"
  using assms(2,1)
proof cases
  case (admit desired speculative now st)
  with assms(1) try_acquire_Admitted [OF admit(3)] show ?thesis
    by (auto simp: world_ok_def drop_queued_def Let_def)
next
  case (release ps p qs)
  with assms(1) show ?thesis by (cases p) (auto simp: world_ok_def drop_permit_def Let_def)
next
  case (process processing delay desired now)
  with assms(1) observe_processing_cap [of "rw_budget w" processing delay desired now] show ?thesis
    by (auto simp: world_ok_def observe_processing_fields Let_def)
qed (use assms(1) in \<open>auto simp: world_ok_def queued_new_def drop_queued_def budget_close_def Let_def\<close>)

interpretation budget_inv: transition_invariant world_step "world_ok cap" for cap
  by unfold_locales (rule world_step_ok)

lemma world_new_ok: "world_ok (max (m div max r 1) 1) (world_new m r)"
  by (simp add: world_ok_def world_new_def budget_new_def Let_def)

text \<open>A reachable state in which one speculative read of a budget of five is admitted.\<close>

lemma one_read_admitted:
  "\<exists>w. world_step\<^sup>*\<^sup>* (world_new 100 20) w \<and> rw_permits w = [True] \<and>
     \<not> rs_closed (rb_state (rw_budget w)) \<and> rs_processing_cap (rb_state (rw_budget w)) = 5 \<and>
     rb_capacity (rw_budget w) = 5"
proof -
  let ?w0 = "world_new 100 20"
  let ?w1 = "(with_state ?w0 (queued_new (rb_state (rw_budget ?w0))))\<lparr>rw_waiting := rw_waiting ?w0 + 1\<rparr>"
  obtain st where adm: "try_acquire (rw_budget ?w1) 4 True 0 = Admitted st" and
    st: "\<not> rs_closed st" "rs_processing_cap st = 5"
    by (simp add: try_acquire_def world_new_def budget_new_def queued_new_def SPECULATIVE_SHARE_DIVISOR_def Let_def)
  let ?w2 = "(with_state ?w1 (drop_queued st))\<lparr>rw_waiting := rw_waiting ?w1 - 1, rw_permits := True # rw_permits ?w1\<rparr>"
  have "world_step ?w0 ?w1" by (rule enter)
  moreover have "world_step ?w1 ?w2" by (rule admit [OF _ adm]) simp
  ultimately have "world_step\<^sup>*\<^sup>* ?w0 ?w2" by (meson converse_rtranclp_into_rtranclp r_into_rtranclp)
  moreover have "rw_permits ?w2 = [True]" by (simp add: world_new_def)
  moreover have "rb_capacity (rw_budget ?w2) = 5" by (simp add: world_new_def budget_new_def Let_def)
  ultimately show ?thesis using st by (intro exI [of _ ?w2]) (simp add: drop_queued_def)
qed

text \<open>
  C30: the budget's accounting is exact in every reachable state, under any interleaving of
  reads entering, being admitted, cancelled, refused and released, processing reports and
  shutdown: it counts exactly the permits held, the speculative ones among them and the
  reads queued; permits never exceed the capacity, nor speculative ones their share of it,
  and the processing allowance stays between one and the capacity.
\<close>

theorem read_budget_accounts_exactly:
  assumes "world_step\<^sup>*\<^sup>* (world_new max_bytes reservation_bytes) w"
  shows "rs_active (rb_state (rw_budget w)) = length (rw_permits w) \<and>
    rs_speculative (rb_state (rw_budget w)) = length (filter id (rw_permits w)) \<and>
    rs_queued (rb_state (rw_budget w)) = rw_waiting w \<and>
    length (rw_permits w) \<le> max (max_bytes div max reservation_bytes 1) 1 \<and>
    length (filter id (rw_permits w)) \<le> max (max_bytes div max reservation_bytes 1) 1 div 2 \<and>
    1 \<le> rs_processing_cap (rb_state (rw_budget w)) \<and>
    rs_processing_cap (rb_state (rw_budget w)) \<le> max (max_bytes div max reservation_bytes 1) 1"
  using budget_inv.reachable_inv [OF assms world_new_ok]
  by (auto simp: world_ok_def SPECULATIVE_SHARE_DIVISOR_def Let_def)

theorem read_budget_accounts_exactly_witness:
  "\<exists>w. world_step\<^sup>*\<^sup>* (world_new 100 20) w \<and> rw_permits w = [True] \<and>
     rs_active (rb_state (rw_budget w)) = 1 \<and> rs_speculative (rb_state (rw_budget w)) = 1"
proof -
  obtain w where r: "world_step\<^sup>*\<^sup>* (world_new 100 20) w" and p: "rw_permits w = [True]"
    using one_read_admitted by blast
  with read_budget_accounts_exactly [OF r] show ?thesis by (intro exI [of _ w]) simp
qed


text \<open>
  The bytes reserved by admitted reads never exceed the budget, as soon as the budget
  has room for one reservation.
\<close>

theorem admitted_reads_fit_the_byte_budget:
  assumes "world_step\<^sup>*\<^sup>* (world_new max_bytes reservation_bytes) w"
    and "0 < reservation_bytes" and "reservation_bytes \<le> max_bytes"
  shows "length (rw_permits w) * reservation_bytes \<le> max_bytes"
proof -
  have "world_ok (max (max_bytes div max reservation_bytes 1) 1) w"
    using budget_inv.reachable_inv [OF assms(1) world_new_ok] .
  moreover have "1 \<le> max_bytes div reservation_bytes"
    using assms(2,3) by (simp add: Suc_le_eq div_greater_zero_iff)
  moreover have "max reservation_bytes 1 = reservation_bytes" using assms(2) by simp
  ultimately have "length (rw_permits w) \<le> max_bytes div reservation_bytes"
    by (simp add: world_ok_def Let_def)
  then have "length (rw_permits w) * reservation_bytes \<le> max_bytes div reservation_bytes * reservation_bytes"
    by (rule mult_le_mono1)
  then show ?thesis using div_times_less_eq_dividend [of max_bytes reservation_bytes] by linarith
qed

theorem admitted_reads_fit_the_byte_budget_witness:
  "\<exists>w. world_step\<^sup>*\<^sup>* (world_new 100 20) w \<and> rw_permits w = [True] \<and> length (rw_permits w) * 20 \<le> 100"
proof -
  obtain w where r: "world_step\<^sup>*\<^sup>* (world_new 100 20) w" and p: "rw_permits w = [True]"
    using one_read_admitted by blast
  have "length (rw_permits w) * 20 \<le> 100" by (rule admitted_reads_fit_the_byte_budget [OF r]) simp_all
  with r p show ?thesis by blast
qed


text \<open>
  C31: speculative reads never starve awaited ones: while processing keeps up and admission
  is open, a read some caller waits for is admitted at its first pass whenever only
  speculative reads hold permits.
\<close>

theorem awaited_read_passes_speculative_ones:
  assumes "world_step\<^sup>*\<^sup>* (world_new max_bytes reservation_bytes) w"
    and "\<forall>p \<in> set (rw_permits w). p" and "\<not> rs_closed (rb_state (rw_budget w))"
    and "rs_processing_cap (rb_state (rw_budget w)) = rb_capacity (rw_budget w)"
    and "rb_capacity (rw_budget w) \<le> desired"
  shows "\<exists>st. try_acquire (rw_budget w) desired False now = Admitted st"
proof -
  let ?cap = "max (max_bytes div max reservation_bytes 1) 1"
  have ok: "world_ok ?cap w" using budget_inv.reachable_inv [OF assms(1) world_new_ok] .
  have "filter id (rw_permits w) = rw_permits w" using assms(2) by (simp add: filter_id_conv)
  with ok have "rs_active (rb_state (rw_budget w)) \<le> ?cap div 2" "rb_capacity (rw_budget w) = ?cap"
    by (simp_all add: world_ok_def SPECULATIVE_SHARE_DIVISOR_def Let_def)
  moreover have "?cap div 2 < ?cap" by simp
  ultimately have "rs_active (rb_state (rw_budget w)) < rb_capacity (rw_budget w)" by linarith
  then show ?thesis using assms(3-5) by (simp add: try_acquire_def Let_def min_def max_def)
qed

theorem awaited_read_passes_speculative_ones_witness:
  "\<exists>w st. world_step\<^sup>*\<^sup>* (world_new 100 20) w \<and> rw_permits w = [True] \<and>
     try_acquire (rw_budget w) 7 False 0 = Admitted st"
proof -
  obtain w where r: "world_step\<^sup>*\<^sup>* (world_new 100 20) w" and p: "rw_permits w = [True]"
    and o: "\<not> rs_closed (rb_state (rw_budget w))" "rs_processing_cap (rb_state (rw_budget w)) = 5"
      "rb_capacity (rw_budget w) = 5"
    using one_read_admitted by blast
  have "\<exists>st. try_acquire (rw_budget w) 7 False 0 = Admitted st"
    by (rule awaited_read_passes_speculative_ones [OF r]) (simp_all add: p o)
  with r p show ?thesis by blast
qed


end
