(* ===== verification/Path_Rules.thy ===== *)
theory Path_Rules
  imports Prelude
begin

text \<open>
  Portable path rules of manifests, \<^verbatim>\<open>ant-core/src/data/manifest/path.rs\<close>: validation
  of paths and components, reduction of a file name to a portable component, and the
  collision check over folded names. Text is a list of characters, each its code point;
  \<open>str_len\<close> is its length in UTF-8 bytes. Unicode normalisation (the
  \<^verbatim>\<open>unicode_normalization\<close> crate) and the two case mappings (the standard library's
  Unicode tables) are parameters of \<open>fold_path\<close> and of the collision check.
\<close>

type_synonym utext = "nat list"

definition of_ascii :: "string \<Rightarrow> utext" where
  "of_ascii s = map of_char s"

definition utf8_len :: "nat \<Rightarrow> nat" where
  "utf8_len c = (if c < 0x80 then 1 else if c < 0x800 then 2 else if c < 0x10000 then 3 else 4)"

definition str_len :: "utext \<Rightarrow> nat" where
  "str_len s = sum_list (map utf8_len s)"

definition PATH_SEPARATOR :: nat where "PATH_SEPARATOR = 0x2F"
definition MAX_PATH_COMPONENT_BYTES :: nat where "MAX_PATH_COMPONENT_BYTES = 255"
definition MAX_PATH_BYTES :: nat where "MAX_PATH_BYTES = 1024"
definition FIRST_PRINTABLE :: nat where "FIRST_PRINTABLE = 0x20"
definition DELETE :: nat where "DELETE = 0x7F"
definition COMPONENT_REPLACEMENT :: nat where "COMPONENT_REPLACEMENT = 0x5F"
definition RESERVED_NAME_PREFIX :: nat where "RESERVED_NAME_PREFIX = 0x5F"

definition FORBIDDEN_CHARS :: "nat list" where
  "FORBIDDEN_CHARS = [0x3C, 0x3E, 0x3A, 0x22, 0x7C, 0x3F, 0x2A, 0x5C, 0x2F]"

definition RESERVED_DEVICE_NAMES :: "utext list" where
  "RESERVED_DEVICE_NAMES =
     map of_ascii [''CON'', ''PRN'', ''AUX'', ''NUL'', ''CONIN$'', ''CONOUT$''] @
     concat (map (\<lambda>port. map (\<lambda>d. of_ascii port @ [d])
       ([0x31, 0x32, 0x33, 0x34, 0x35, 0x36, 0x37, 0x38, 0x39] @ [0xB9, 0xB2, 0xB3])) [''COM'', ''LPT''])"

datatype path_error =
    Empty
  | LeadingSeparator
  | EmptyComponent
  | DotComponent utext
  | ForbiddenChar utext nat
  | TrailingSpaceOrDot utext
  | ReservedName utext
  | ComponentTooLong utext
  | PathTooLong
  | Duplicate utext
  | PrefixConflict utext utext

definition forbidden :: "nat \<Rightarrow> bool" where
  "forbidden c \<longleftrightarrow> c < FIRST_PRINTABLE \<or> c = DELETE \<or> c \<in> set FORBIDDEN_CHARS"

definition to_ascii_lowercase :: "nat \<Rightarrow> nat" where
  "to_ascii_lowercase c = (if 65 \<le> c \<and> c \<le> 90 then c + 32 else c)"

definition eq_ignore_ascii_case :: "utext \<Rightarrow> utext \<Rightarrow> bool" where
  "eq_ignore_ascii_case a b \<longleftrightarrow> map to_ascii_lowercase a = map to_ascii_lowercase b"

definition trim_end_matches :: "(nat \<Rightarrow> bool) \<Rightarrow> utext \<Rightarrow> utext" where
  "trim_end_matches P s = rev (dropWhile P (rev s))"

definition ends_with :: "utext \<Rightarrow> nat \<Rightarrow> bool" where
  "ends_with s c \<longleftrightarrow> s \<noteq> [] \<and> last s = c"

definition stem_of :: "utext \<Rightarrow> utext" where
  "stem_of component = trim_end_matches (\<lambda>c. c = 0x20) (takeWhile (\<lambda>c. c \<noteq> 0x2E) component)"

definition is_reserved :: "utext \<Rightarrow> bool" where
  "is_reserved component \<longleftrightarrow> list_ex (eq_ignore_ascii_case (stem_of component)) RESERVED_DEVICE_NAMES"

definition validate_component :: "utext \<Rightarrow> (path_error, unit) result" where
  "validate_component component =
     (if component = [] then Inl EmptyComponent
      else if MAX_PATH_COMPONENT_BYTES < str_len component then Inl (ComponentTooLong component)
      else if component = [0x2E] \<or> component = [0x2E, 0x2E] then Inl (DotComponent component)
      else (case find forbidden component of
              Some ch \<Rightarrow> Inl (ForbiddenChar component ch)
            | None \<Rightarrow>
                if ends_with component 0x20 \<or> ends_with component 0x2E then Inl (TrailingSpaceOrDot component)
                else if is_reserved component then Inl (ReservedName component)
                else Inr ()))"

fun split_on :: "nat \<Rightarrow> utext \<Rightarrow> utext list" where
  "split_on sep [] = [[]]"
| "split_on sep (c # cs) =
     (if c = sep then [] # split_on sep cs
      else (case split_on sep cs of [] \<Rightarrow> [[c]] | w # ws \<Rightarrow> (c # w) # ws))"

fun validate_all :: "utext list \<Rightarrow> (path_error, unit) result" where
  "validate_all [] = Inr ()"
| "validate_all (c # cs) = bind_result (validate_component c) (\<lambda>_. validate_all cs)"

definition validate_path :: "utext \<Rightarrow> (path_error, unit) result" where
  "validate_path path =
     (if path = [] then Inl Empty
      else if MAX_PATH_BYTES < str_len path then Inl PathTooLong
      else if hd path = PATH_SEPARATOR then Inl LeadingSeparator
      else validate_all (split_on PATH_SEPARATOR path))"

function pop_to :: "nat \<Rightarrow> utext \<Rightarrow> utext" where
  "pop_to n s = (if n < str_len s then pop_to n (butlast s) else s)"
  by pat_completeness auto

termination pop_to
  by (relation "measure (\<lambda>(n, s). length s)") (auto simp: str_len_def intro!: diff_less)

declare pop_to.simps [simp del]

definition portable_component :: "utext \<Rightarrow> utext option" where
  "portable_component name =
     (let replaced = pop_to MAX_PATH_COMPONENT_BYTES
            (map (\<lambda>c. if forbidden c then COMPONENT_REPLACEMENT else c) name);
          trimmed = trim_end_matches (\<lambda>c. c = 0x20 \<or> c = 0x2E) replaced
      in if trimmed = [] \<or> trimmed = [0x2E] \<or> trimmed = [0x2E, 0x2E] then None
         else let candidate = (case validate_component trimmed of
                                 Inl (ReservedName _) \<Rightarrow> RESERVED_NAME_PREFIX # trimmed
                               | _ \<Rightarrow> trimmed)
              in if validate_component candidate = Inr () then Some candidate else None)"

subsection \<open>Collisions\<close>

fun first_duplicate :: "utext list \<Rightarrow> utext list \<Rightarrow> utext set \<Rightarrow> path_error option" where
  "first_duplicate (original # originals) (key # keys) seen =
     (if key \<in> seen then Some (Duplicate original) else first_duplicate originals keys (insert key seen))"
| "first_duplicate _ _ seen = None"

definition separator_ends :: "utext \<Rightarrow> nat list" where
  "separator_ends key = filter (\<lambda>i. key ! i = PATH_SEPARATOR) [0..<length key]"

definition first_prefix_in :: "utext set \<Rightarrow> utext \<Rightarrow> utext option" where
  "first_prefix_in seen key =
     map_option (\<lambda>e. take e key) (find (\<lambda>e. take e key \<in> seen) (separator_ends key))"

definition original_of :: "(utext \<Rightarrow> utext) \<Rightarrow> utext list \<Rightarrow> utext \<Rightarrow> utext" where
  "original_of fold_name originals prefix =
     (case find (\<lambda>n. fold_name n = prefix) originals of Some n \<Rightarrow> n | None \<Rightarrow> prefix)"

fun first_prefix_conflict ::
  "(utext \<Rightarrow> utext) \<Rightarrow> utext list \<Rightarrow> utext set \<Rightarrow> utext list \<Rightarrow> path_error option" where
  "first_prefix_conflict fold_name originals seen [] = None"
| "first_prefix_conflict fold_name originals seen (original # rest) =
     (case first_prefix_in seen (fold_name original) of
        Some prefix \<Rightarrow> Some (PrefixConflict (original_of fold_name originals prefix) original)
      | None \<Rightarrow> first_prefix_conflict fold_name originals seen rest)"

definition fold_path :: "(utext \<Rightarrow> utext) \<Rightarrow> (utext \<Rightarrow> utext) \<Rightarrow> (utext \<Rightarrow> utext) \<Rightarrow> utext \<Rightarrow> utext" where
  "fold_path nfc to_uppercase to_lowercase path = nfc (to_lowercase (to_uppercase (nfc path)))"

definition check_collisions ::
  "(utext \<Rightarrow> utext) \<Rightarrow> (utext \<Rightarrow> utext) \<Rightarrow> (utext \<Rightarrow> utext) \<Rightarrow> utext list \<Rightarrow> (path_error, unit) result" where
  "check_collisions nfc to_uppercase to_lowercase originals =
     (let fold_name = fold_path nfc to_uppercase to_lowercase;
          folded = map fold_name originals
      in case first_duplicate originals folded {} of
           Some e \<Rightarrow> Inl e
         | None \<Rightarrow>
             (case first_prefix_conflict fold_name originals (set folded) originals of
                Some e \<Rightarrow> Inl e
              | None \<Rightarrow> Inr ()))"

lemma first_duplicate_None:
  "length originals = length keys \<Longrightarrow>
     first_duplicate originals keys seen = None \<longleftrightarrow> distinct keys \<and> set keys \<inter> seen = {}"
  by (induction originals keys seen rule: first_duplicate.induct) auto

lemma first_prefix_in_None:
  "first_prefix_in seen key = None \<longleftrightarrow> \<not> (\<exists>dir rest. dir \<in> seen \<and> key = dir @ PATH_SEPARATOR # rest)"
proof -
  have "first_prefix_in seen key = None \<longleftrightarrow>
      (\<forall>e < length key. key ! e = PATH_SEPARATOR \<longrightarrow> take e key \<notin> seen)"
    by (auto simp: first_prefix_in_def find_None_iff separator_ends_def)
  also have "\<dots> \<longleftrightarrow> \<not> (\<exists>dir rest. dir \<in> seen \<and> key = dir @ PATH_SEPARATOR # rest)"
  proof safe
    fix dir rest
    assume "\<forall>e < length (dir @ PATH_SEPARATOR # rest). (dir @ PATH_SEPARATOR # rest) ! e = PATH_SEPARATOR \<longrightarrow>
      take e (dir @ PATH_SEPARATOR # rest) \<notin> seen" "dir \<in> seen"
    from this(1) [rule_format, of "length dir"] this(2) show False by simp
  next
    fix e
    assume *: "\<nexists>dir rest. dir \<in> seen \<and> key = dir @ PATH_SEPARATOR # rest"
      and "e < length key" "key ! e = PATH_SEPARATOR" "take e key \<in> seen"
    then have "key = take e key @ PATH_SEPARATOR # drop (Suc e) key" by (metis id_take_nth_drop)
    with * \<open>take e key \<in> seen\<close> show False by blast
  qed
  finally show ?thesis .
qed

lemma first_prefix_conflict_None:
  "first_prefix_conflict fold_name originals seen rest = None \<longleftrightarrow>
     (\<forall>n \<in> set rest. first_prefix_in seen (fold_name n) = None)"
  by (induction rest) (auto split: option.splits)

lemma check_collisions_accepts:
  "check_collisions nfc up low names = Inr () \<longleftrightarrow>
     first_duplicate names (map (fold_path nfc up low) names) {} = None \<and>
     first_prefix_conflict (fold_path nfc up low) names (set (map (fold_path nfc up low) names)) names = None"
  by (simp add: check_collisions_def Let_def split: option.splits)

text \<open>
  The collision check is exact. It accepts a list of names precisely when no two fold
  to the same key and no folded name is a directory of another, that is, followed there by
  a separator: the entries can all be extracted side by side on a file system that compares
  names by the folding.
\<close>

theorem check_collisions_exact:
  "check_collisions nfc up low names = Inr () \<longleftrightarrow>
     distinct (map (fold_path nfc up low) names) \<and>
     \<not> (\<exists>dir file rest. dir \<in> set names \<and> file \<in> set names \<and>
            fold_path nfc up low file = fold_path nfc up low dir @ PATH_SEPARATOR # rest)"
  unfolding check_collisions_accepts
  by (simp add: first_duplicate_None first_prefix_conflict_None first_prefix_in_None) blast

subsection \<open>Portable components\<close>

lemma validate_component_ok:
  "validate_component c = Inr () \<longleftrightarrow>
     c \<noteq> [] \<and> str_len c \<le> MAX_PATH_COMPONENT_BYTES \<and> c \<noteq> [0x2E] \<and> c \<noteq> [0x2E, 0x2E] \<and>
     (\<forall>x \<in> set c. \<not> forbidden x) \<and> \<not> ends_with c 0x20 \<and> \<not> ends_with c 0x2E \<and> \<not> is_reserved c"
  by (auto simp: validate_component_def find_None_iff find_Some_iff not_less split: option.splits)

lemma pop_to_small: "str_len s \<le> n \<Longrightarrow> pop_to n s = s"
  by (subst pop_to.simps) simp

lemma trim_end_id: "s \<noteq> [] \<Longrightarrow> \<not> P (last s) \<Longrightarrow> trim_end_matches P s = s"
  by (cases s rule: rev_cases) (auto simp: trim_end_matches_def)

text \<open>
  Reducing a name to a portable component yields a valid component, which keeps the
  rules, is no longer than allowed and stands for no device or directory, and it leaves a
  name that is already valid unchanged, so reducing twice is reducing once.
\<close>

theorem portable_component_is_valid_and_stable:
  "(\<forall>c. portable_component name = Some c \<longrightarrow> validate_component c = Inr () \<and> portable_component c = Some c) \<and>
   (validate_component name = Inr () \<longrightarrow> portable_component name = Some name)"
proof -
  have stable: "portable_component c = Some c" if v: "validate_component c = Inr ()" for c
  proof -
    note ok = v [unfolded validate_component_ok]
    have "map (\<lambda>x. if forbidden x then COMPONENT_REPLACEMENT else x) c = c"
      using ok by (intro map_idI) auto
    moreover have "trim_end_matches (\<lambda>x. x = 0x20 \<or> x = 0x2E) c = c"
      using ok by (intro trim_end_id) (auto simp: ends_with_def)
    ultimately show ?thesis using ok v
      by (simp add: portable_component_def pop_to_small Let_def)
  qed
  have "validate_component c = Inr ()" if "portable_component name = Some c" for c
    using that by (auto simp: portable_component_def Let_def split: if_splits)
  with stable show ?thesis by blast
qed

theorem portable_component_is_valid_and_stable_witness:
  "validate_component (of_ascii ''_CON.txt'') = Inr () \<and>
   portable_component (of_ascii ''CON.txt.'') = Some (of_ascii ''_CON.txt'') \<and>
   portable_component (of_ascii ''_CON.txt'') = Some (of_ascii ''_CON.txt'')"
proof -
  have "portable_component (of_ascii ''CON.txt.'') = Some (of_ascii ''_CON.txt'')" by code_simp
  with portable_component_is_valid_and_stable [of "of_ascii ''CON.txt.''"] show ?thesis by blast
qed

end
