(* ===== verification/Wire.thy ===== *)
theory Wire
  imports Path_Rules Data_Error
begin

text \<open>
  The manifest's own layout, \<^verbatim>\<open>ant-core/src/data/manifest/wire.rs\<close>: the encoding of
  an embedded DataMap as one byte string of fixed-size chunk records, and the structural
  check of untrusted msgpack bytes before typed decoding. The serde boundary is the pair of
  fields \<open>data_map_out\<close>; the DataMap type itself belongs to \<^verbatim>\<open>self_encryption\<close> and is
  reached through the operations of \<open>data_map_api\<close>. The reader's position only moves
  forward, so its state is the bytes still to be read. A nesting depth \<open>d\<close> of the source
  is \<open>room = MAX_DECODE_DEPTH + 1 - d\<close> here, so a depth beyond the limit is \<open>room = 0\<close>
  and the recursion is structural.
\<close>

text \<open>
  The errors of the manifest modules. Texts are dropped, and so is the partial result a
  failed build carries.
\<close>

datatype manifest_error =
    TooLarge nat nat
  | TooManyEntries nat nat
  | BadHeader
  | UnsupportedVersion u8
  | Encode
  | Decode
  | InvalidName path_error
  | InvalidPath utext path_error
  | Conflict path_error
  | Link
  | Build
  | BuildFailed utext manifest_error
  | Sha256Mismatch
  | Cancelled
  | InvalidTorrentHash
  | Io
  | Data error

definition HASH_LEN :: nat where "HASH_LEN = 32"
definition CHUNK_SIZE_LEN :: nat where "CHUNK_SIZE_LEN = 4"
definition CHUNK_RECORD_LEN :: nat where "CHUNK_RECORD_LEN = HASH_LEN + HASH_LEN + CHUNK_SIZE_LEN"
definition MAX_DECODE_DEPTH :: nat where "MAX_DECODE_DEPTH = 16"
definition MAX_MANIFEST_ENTRIES :: nat where "MAX_MANIFEST_ENTRIES = 100000"
definition EXT_TYPE_LEN :: nat where "EXT_TYPE_LEN = 1"

subsection \<open>Embedded DataMaps\<close>

record chunk_info =
  ci_index :: nat
  ci_dst_hash :: bytes
  ci_src_hash :: bytes
  ci_src_size :: nat

record 'm data_map_api =
  dm_infos :: "'m \<Rightarrow> chunk_info list"
  dm_child :: "'m \<Rightarrow> nat option"
  dm_make :: "chunk_info list \<Rightarrow> nat option \<Rightarrow> 'm"

record data_map_out =
  out_chunks :: bytes
  out_child :: "nat option"

definition u32_to_be_bytes :: "nat \<Rightarrow> bytes" where
  "u32_to_be_bytes n = [of_nat (n div 2 ^ 24), of_nat (n div 2 ^ 16), of_nat (n div 2 ^ 8), of_nat n]"

fun u32_from_be_bytes :: "bytes \<Rightarrow> nat" where
  "u32_from_be_bytes [a, b, c, d] = ((unat a * 256 + unat b) * 256 + unat c) * 256 + unat d"
| "u32_from_be_bytes _ = 0"

fun encode_records :: "nat \<Rightarrow> chunk_info list \<Rightarrow> (manifest_error, bytes) result" where
  "encode_records position [] = Inr []"
| "encode_records position (info # infos) =
     (if ci_index info \<noteq> position then Inl Encode
      else if 2 ^ 32 \<le> ci_src_size info then Inl Encode
      else bind_result (encode_records (position + 1) infos)
        (\<lambda>rest. Inr (ci_dst_hash info @ ci_src_hash info @ u32_to_be_bytes (ci_src_size info) @ rest)))"

definition wire_serialize :: "'m data_map_api \<Rightarrow> 'm \<Rightarrow> (manifest_error, data_map_out) result" where
  "wire_serialize api data_map =
     (if dm_infos api data_map = [] then Inl Encode
      else bind_result (encode_records 0 (dm_infos api data_map))
        (\<lambda>chunks. if (case dm_child api data_map of Some level \<Rightarrow> 2 ^ 64 \<le> level | None \<Rightarrow> False) then Inl Encode
                  else Inr \<lparr>out_chunks = chunks, out_child = dm_child api data_map\<rparr>))"

definition decode_record :: "nat \<Rightarrow> bytes \<Rightarrow> chunk_info" where
  "decode_record index record =
     (let rest = drop HASH_LEN record
      in \<lparr>ci_index = index, ci_dst_hash = take HASH_LEN record, ci_src_hash = take HASH_LEN rest,
          ci_src_size = u32_from_be_bytes (drop HASH_LEN rest)\<rparr>)"

text \<open>\<^verbatim>\<open>as_chunks\<close>: the whole records and the remainder.\<close>

fun as_chunks :: "nat \<Rightarrow> bytes \<Rightarrow> bytes list \<times> bytes" where
  "as_chunks n bs =
     (if n = 0 \<or> length bs < n then ([], bs)
      else let (records, remainder) = as_chunks n (drop n bs) in (take n bs # records, remainder))"

declare as_chunks.simps [simp del]

definition wire_deserialize :: "'m data_map_api \<Rightarrow> data_map_out \<Rightarrow> (manifest_error, 'm) result" where
  "wire_deserialize api inp =
     (let (records, remainder) = as_chunks CHUNK_RECORD_LEN (out_chunks inp)
      in if records = [] \<or> remainder \<noteq> [] then Inl Decode
         else Inr (dm_make api (map (\<lambda>(i, r). decode_record i r) (enumerate 0 records)) (out_child inp)))"

subsection \<open>The structural check\<close>

datatype shape =
    Any
  | Struct "(bytes \<times> shape) list"
  | Variant "(bytes \<times> shape) list"
  | ListOf shape nat

datatype header = Scalar | NilValue | Str nat | Array nat | Map nat

definition ascii :: "string \<Rightarrow> bytes" where
  "ascii s = map (\<lambda>c. of_char c) s"

definition ENTRY :: shape where
  "ENTRY = Struct [(ascii ''source'', Variant [(ascii ''Embedded'', Struct [(ascii ''data_map'', Struct [])]),
                                                (ascii ''Public'', Struct [])])]"

definition MANIFEST :: shape where
  "MANIFEST = Struct [(ascii ''torrent'', Struct []), (ascii ''entries'', ListOf ENTRY MAX_MANIFEST_ENTRIES)]"

definition rd_take :: "nat \<Rightarrow> bytes \<Rightarrow> (manifest_error, bytes \<times> bytes) result" where
  "rd_take len bs = (if len \<le> length bs then Inr (take len bs, drop len bs) else Inl Decode)"

definition rd_uint :: "nat \<Rightarrow> bytes \<Rightarrow> (manifest_error, nat \<times> bytes) result" where
  "rd_uint width bs =
     bind_result (rd_take width bs)
       (\<lambda>(digits, rest). Inr (unat (foldl (\<lambda>acc b. push_bit 8 acc OR ucast b) (0 :: u64) digits), rest))"

definition rd_skip :: "nat \<Rightarrow> bytes \<Rightarrow> (manifest_error, header \<times> bytes) result" where
  "rd_skip len bs = bind_result (rd_take len bs) (\<lambda>(_, rest). Inr (Scalar, rest))"

definition rd_sized :: "nat \<Rightarrow> (nat \<Rightarrow> header) \<Rightarrow> bytes \<Rightarrow> (manifest_error, header \<times> bytes) result" where
  "rd_sized width h bs = bind_result (rd_uint width bs) (\<lambda>(len, rest). Inr (h len, rest))"

definition rd_blob :: "nat \<Rightarrow> nat \<Rightarrow> bytes \<Rightarrow> (manifest_error, header \<times> bytes) result" where
  "rd_blob width tag_len bs = bind_result (rd_uint width bs) (\<lambda>(len, rest). rd_skip (sat_add tag_len len) rest)"

definition rd_header :: "bytes \<Rightarrow> (manifest_error, header \<times> bytes) result" where
  "rd_header bs =
     bind_result (rd_take 1 bs)
       (\<lambda>(m, rest). let marker = hd m in
          if marker \<le> 0x7f then Inr (Scalar, rest)
          else if marker \<le> 0x8f then Inr (Map (unat (marker AND 0x0f)), rest)
          else if marker \<le> 0x9f then Inr (Array (unat (marker AND 0x0f)), rest)
          else if marker \<le> 0xbf then Inr (Str (unat (marker AND 0x1f)), rest)
          else if marker = 0xc0 then Inr (NilValue, rest)
          else if marker = 0xc1 then Inl Decode
          else if marker = 0xc2 \<or> marker = 0xc3 then Inr (Scalar, rest)
          else if marker = 0xc4 then rd_blob 1 0 rest
          else if marker = 0xc5 then rd_blob 2 0 rest
          else if marker = 0xc6 then rd_blob 4 0 rest
          else if marker = 0xc7 then rd_blob 1 EXT_TYPE_LEN rest
          else if marker = 0xc8 then rd_blob 2 EXT_TYPE_LEN rest
          else if marker = 0xc9 then rd_blob 4 EXT_TYPE_LEN rest
          else if marker = 0xcc \<or> marker = 0xd0 then rd_skip 1 rest
          else if marker = 0xcd \<or> marker = 0xd1 then rd_skip 2 rest
          else if marker = 0xca \<or> marker = 0xce \<or> marker = 0xd2 then rd_skip 4 rest
          else if marker = 0xcb \<or> marker = 0xcf \<or> marker = 0xd3 then rd_skip 8 rest
          else if marker = 0xd4 then rd_skip (EXT_TYPE_LEN + 1) rest
          else if marker = 0xd5 then rd_skip (EXT_TYPE_LEN + 2) rest
          else if marker = 0xd6 then rd_skip (EXT_TYPE_LEN + 4) rest
          else if marker = 0xd7 then rd_skip (EXT_TYPE_LEN + 8) rest
          else if marker = 0xd8 then rd_skip (EXT_TYPE_LEN + 16) rest
          else if marker = 0xd9 then rd_sized 1 Str rest
          else if marker = 0xda then rd_sized 2 Str rest
          else if marker = 0xdb then rd_sized 4 Str rest
          else if marker = 0xdc then rd_sized 2 Array rest
          else if marker = 0xdd then rd_sized 4 Array rest
          else if marker = 0xde then rd_sized 2 Map rest
          else if marker = 0xdf then rd_sized 4 Map rest
          else Inr (Scalar, rest))"

fun repeat_read :: "nat \<Rightarrow> (bytes \<Rightarrow> ('e, bytes) result) \<Rightarrow> bytes \<Rightarrow> ('e, bytes) result" where
  "repeat_read 0 f bs = Inr bs"
| "repeat_read (Suc n) f bs = bind_result (f bs) (repeat_read n f)"

text \<open>\<open>item\<close> reads one value one level deeper than the header.\<close>

fun rd_skip_body ::
  "(bytes \<Rightarrow> (manifest_error, bytes) result) \<Rightarrow> header \<Rightarrow> bytes \<Rightarrow> (manifest_error, bytes) result" where
  "rd_skip_body item Scalar bs = Inr bs"
| "rd_skip_body item NilValue bs = Inr bs"
| "rd_skip_body item (Str len) bs = bind_result (rd_take len bs) (\<lambda>(_, rest). Inr rest)"
| "rd_skip_body item (Array len) bs = repeat_read len item bs"
| "rd_skip_body item (Map len) bs = repeat_read len (\<lambda>bs. bind_result (item bs) item) bs"

definition rd_key ::
  "(bytes \<Rightarrow> (manifest_error, bytes) result) \<Rightarrow> bytes \<Rightarrow> (manifest_error, bytes option \<times> bytes) result" where
  "rd_key item bs =
     bind_result (rd_header bs)
       (\<lambda>(h, rest). case h of
          Str len \<Rightarrow> bind_result (rd_take len rest) (\<lambda>(text, rest'). Inr (Some text, rest'))
        | other \<Rightarrow> bind_result (rd_skip_body item other rest) (\<lambda>rest'. Inr (None, rest')))"

definition field_shape :: "(bytes \<times> shape) list \<Rightarrow> bytes option \<Rightarrow> shape" where
  "field_shape fs key =
     (case key of
        None \<Rightarrow> Any
      | Some k \<Rightarrow> (case find (\<lambda>(name, _). name = k) fs of Some (_, sh) \<Rightarrow> sh | None \<Rightarrow> Any))"

fun rd_check :: "nat \<Rightarrow> shape \<Rightarrow> bytes \<Rightarrow> (manifest_error, bytes) result" where
  "rd_check 0 sh bs = Inl Decode"
| "rd_check (Suc room) sh bs =
     bind_result (rd_header bs)
       (\<lambda>(h, rest).
          let skip = rd_skip_body (\<lambda>b. rd_check room Any b) h rest;
              field = (\<lambda>fs b. bind_result (rd_key (\<lambda>b. rd_check (room - 1) Any b) b)
                         (\<lambda>(key, b'). rd_check room (field_shape fs key) b'))
          in case sh of
               Any \<Rightarrow> skip
             | Struct fs \<Rightarrow>
                 (case h of Array _ \<Rightarrow> Inl Decode | Map len \<Rightarrow> repeat_read len (field fs) rest | _ \<Rightarrow> skip)
             | Variant fs \<Rightarrow>
                 (case h of Array _ \<Rightarrow> Inl Decode | Map len \<Rightarrow> repeat_read len (field fs) rest | _ \<Rightarrow> skip)
             | ListOf item most \<Rightarrow>
                 (case h of
                    Array len \<Rightarrow> if most < len then Inl (TooManyEntries len most)
                                 else repeat_read len (\<lambda>b. rd_check room item b) rest
                  | _ \<Rightarrow> skip))"

definition check_structure :: "bytes \<Rightarrow> (manifest_error, unit) result" where
  "check_structure body =
     bind_result (rd_check (MAX_DECODE_DEPTH + 1) MANIFEST body)
       (\<lambda>rest. if rest \<noteq> [] then Inl Decode else Inr ())"

subsection \<open>Round trips of embedded DataMaps\<close>

lemma unat_of_nat_byte: "unat (of_nat n :: u8) = n mod 256"
  by (simp add: unat_of_nat)

lemma byte_less: "unat (w :: u8) < 256"
  using unsigned_less [where 'a = nat, of w] by simp

lemma u32_round_trip:
  assumes "n < 2 ^ 32"
  shows "u32_from_be_bytes (u32_to_be_bytes n) = n"
proof -
  have "u32_from_be_bytes (u32_to_be_bytes n) =
      ((n div 16777216 mod 256 * 256 + n div 65536 mod 256) * 256 + n div 256 mod 256) * 256 + n mod 256"
    by (simp add: u32_to_be_bytes_def unat_of_nat_byte)
  moreover define a b c where "a = n div 256" and "b = a div 256" and "c = b div 256"
  moreover have "n div 16777216 = c" "n div 65536 = b"
    by (simp_all add: a_def b_def c_def div_mult2_eq [symmetric])
  moreover have "c mod 256 = c"
    using assms by (simp add: a_def b_def c_def div_mult2_eq [symmetric])
  moreover have "c * 256 + b mod 256 = b" "b * 256 + a mod 256 = a" "a * 256 + n mod 256 = n"
    by (simp_all only: a_def b_def c_def div_mult_mod_eq)
  ultimately show ?thesis by (simp only:)
qed

lemma u32_from_be_bytes_less: "u32_from_be_bytes [a, b, c, d] < 2 ^ 32"
  using byte_less [of a] byte_less [of b] byte_less [of c] byte_less [of d] by simp

lemma of_nat_low_byte: "of_nat (x * 256 + unat w) = (w :: u8)"
proof -
  have "unat (of_nat (x * 256 + unat w) :: u8) = unat w"
    unfolding unat_of_nat_byte using byte_less [of w] by simp
  then show ?thesis by (simp only: word_unat_eq_iff)
qed

lemma u32_to_from: "u32_to_be_bytes (u32_from_be_bytes [a, b, c, d]) = [a, b, c, d]"
proof -
  have l: "unat a < 256" "unat b < 256" "unat c < 256" "unat d < 256" by (rule byte_less)+
  define x where "x = unat a * 256 + unat b"
  define y where "y = x * 256 + unat c"
  have 1: "(y * 256 + unat d) div 2 ^ 8 = y" using l(4) by simp
  have 2: "(y * 256 + unat d) div 2 ^ 16 = x" using l(3,4) by (simp add: y_def)
  have 3: "(y * 256 + unat d) div 2 ^ 24 = unat a" using l(2,3,4) by (simp add: y_def x_def)
  have "u32_from_be_bytes [a, b, c, d] = y * 256 + unat d"
    by (simp only: u32_from_be_bytes.simps x_def y_def)
  moreover have "of_nat (unat a) = a" using of_nat_low_byte [of 0 a] by simp
  moreover have "of_nat x = b" "of_nat y = c" "of_nat (y * 256 + unat d) = d"
    by (simp_all only: x_def y_def of_nat_low_byte)
  ultimately show ?thesis by (simp only: u32_to_be_bytes_def 1 2 3)
qed

lemma four_bytes: "length xs = 4 \<Longrightarrow> \<exists>a b c d. xs = [a, b, c, d]"
  by (auto simp: numeral_eq_Suc length_Suc_conv)

lemma as_chunks_Nil [simp]: "0 < n \<Longrightarrow> as_chunks n [] = ([], [])"
  by (subst as_chunks.simps) simp

lemma as_chunks_append:
  assumes "length r = n" and "0 < n"
  shows "as_chunks n (r @ bs) = (r # fst (as_chunks n bs), snd (as_chunks n bs))"
  using assms by (subst as_chunks.simps) (simp add: case_prod_beta)

lemma as_chunks_whole:
  assumes "as_chunks n bs = (rs, [])" and "0 < n"
  shows "bs = concat rs \<and> (\<forall>r \<in> set rs. length r = n)"
  using assms
proof (induction n bs arbitrary: rs rule: as_chunks.induct)
  case (1 n bs)
  show ?case
  proof (cases "length bs < n")
    case True
    with "1.prems" show ?thesis by (subst (asm) as_chunks.simps) auto
  next
    case False
    then obtain rs' where rs: "as_chunks n (drop n bs) = (rs', [])" "rs = take n bs # rs'"
      using "1.prems" by (subst (asm) as_chunks.simps) (auto split: prod.split_asm)
    with "1.IH" False "1.prems"(2) have "drop n bs = concat rs' \<and> (\<forall>r \<in> set rs'. length r = n)" by auto
    with rs(2) False show ?thesis by (metis append_take_drop_id concat.simps(2) length_take min.absorb2 not_less set_ConsD)
  qed
qed

definition hashes_ok :: "chunk_info list \<Rightarrow> bool" where
  "hashes_ok infos \<longleftrightarrow> (\<forall>i \<in> set infos. length (ci_dst_hash i) = HASH_LEN \<and> length (ci_src_hash i) = HASH_LEN)"

lemma record_len: "CHUNK_RECORD_LEN = 68" "HASH_LEN = 32"
  by (simp_all add: CHUNK_RECORD_LEN_def HASH_LEN_def CHUNK_SIZE_LEN_def)

lemma encode_then_decode:
  assumes "encode_records k infos = Inr cs" and "hashes_ok infos"
  shows "\<exists>rs. as_chunks CHUNK_RECORD_LEN cs = (rs, []) \<and> length rs = length infos \<and>
    map (\<lambda>(i, r). decode_record i r) (enumerate k rs) = infos"
  using assms
proof (induction infos arbitrary: k cs)
  case Nil
  then show ?case by (simp add: record_len)
next
  case (Cons info infos)
  let ?r = "ci_dst_hash info @ ci_src_hash info @ u32_to_be_bytes (ci_src_size info)"
  from Cons.prems(1) obtain rest where e: "encode_records (k + 1) infos = Inr rest" "cs = ?r @ rest"
    and k: "ci_index info = k" "ci_src_size info < 2 ^ 32"
    by (auto simp: results not_le split: if_splits)
  from Cons.prems(2) have h: "length (ci_dst_hash info) = HASH_LEN" "length (ci_src_hash info) = HASH_LEN" "hashes_ok infos"
    by (simp_all add: hashes_ok_def)
  from Cons.IH [OF e(1) h(3)] obtain rs where rs: "as_chunks CHUNK_RECORD_LEN rest = (rs, [])" "length rs = length infos"
    "map (\<lambda>(i, r). decode_record i r) (enumerate (k + 1) rs) = infos" by blast
  have "length ?r = CHUNK_RECORD_LEN" using h by (simp add: u32_to_be_bytes_def record_len)
  then have "as_chunks CHUNK_RECORD_LEN cs = (?r # rs, [])"
    using as_chunks_append [of ?r CHUNK_RECORD_LEN rest] rs(1) by (simp add: e(2) record_len)
  moreover have "decode_record k ?r = info"
    using h k by (simp add: decode_record_def Let_def u32_round_trip)
  ultimately show ?case using rs by simp
qed

lemma decode_then_encode:
  assumes "\<forall>r \<in> set rs. length r = CHUNK_RECORD_LEN"
  shows "encode_records k (map (\<lambda>(i, r). decode_record i r) (enumerate k rs)) = Inr (concat rs)"
  using assms
proof (induction rs arbitrary: k)
  case (Cons r rs)
  have "length r = 68" using Cons.prems by (simp add: record_len)
  then have "length (drop 64 r) = 4" by simp
  then obtain a b c d where d: "drop 64 r = [a, b, c, d]" using four_bytes by blast
  have "drop 32 (drop 32 r) = drop 64 r" by simp
  then have "take 32 r @ take 32 (drop 32 r) @ drop 64 r = r" by (metis append_take_drop_id)
  moreover have "u32_to_be_bytes (u32_from_be_bytes (drop 64 r)) = drop 64 r"
    unfolding d by (rule u32_to_from)
  moreover have "u32_from_be_bytes (drop 64 r) < 2 ^ 32" unfolding d by (rule u32_from_be_bytes_less)
  ultimately have "encode_records k (decode_record k r # infos) =
      bind_result (encode_records (k + 1) infos) (\<lambda>rest. Inr (r @ rest))" for infos
    by (simp add: decode_record_def record_len Let_def not_le) (metis append.assoc)
  with Cons show ?case by simp
qed simp

lemma wire_round_trip:
  assumes "hashes_ok (dm_infos api m)" and "dm_make api (dm_infos api m) (dm_child api m) = m"
    and "wire_serialize api m = Inr out"
  shows "wire_deserialize api out = Inr m"
proof -
  from assms(3) obtain cs where e: "encode_records 0 (dm_infos api m) = Inr cs" "dm_infos api m \<noteq> []"
    "out = \<lparr>out_chunks = cs, out_child = dm_child api m\<rparr>"
    by (auto simp: wire_serialize_def results split: if_splits)
  from encode_then_decode [OF e(1) assms(1)] obtain rs where
    "as_chunks CHUNK_RECORD_LEN cs = (rs, [])" "length rs = length (dm_infos api m)"
    "map (\<lambda>(i, r). decode_record i r) (enumerate 0 rs) = dm_infos api m" by blast
  with e(2) show ?thesis by (auto simp: wire_deserialize_def e(3) assms(2))
qed

text \<open>
  The layout of an embedded DataMap is a faithful one, in both directions. Whatever
  serialises deserialises to the same map, and whatever deserialises serialises back to the
  very bytes it was read from, so a map has exactly one encoding. The hypotheses are what
  the DataMap type promises: its hashes have thirty-two bytes, and a map is its chunk list
  and child level.
\<close>

theorem data_map_layout_round_trips:
  assumes "hashes_ok (dm_infos api m)"
    and "\<And>m. dm_make api (dm_infos api m) (dm_child api m) = m"
    and "\<And>rs c. dm_infos api (dm_make api (map (\<lambda>(i, r). decode_record i r) (enumerate 0 rs)) c) =
           map (\<lambda>(i, r). decode_record i r) (enumerate 0 rs)"
    and "\<And>is c. dm_child api (dm_make api is c) = c"
    and "\<And>level. out_child out = Some level \<Longrightarrow> level < 2 ^ 64"
  shows "(wire_serialize api m = Inr out \<longrightarrow> wire_deserialize api out = Inr m) \<and>
    (wire_deserialize api out = Inr m \<longrightarrow> wire_serialize api m = Inr out)"
proof (intro conjI impI)
  assume "wire_serialize api m = Inr out"
  with assms(1,2) show "wire_deserialize api out = Inr m" by (rule wire_round_trip)
next
  assume "wire_deserialize api out = Inr m"
  then obtain rs where rs: "as_chunks CHUNK_RECORD_LEN (out_chunks out) = (rs, [])" "rs \<noteq> []"
    and m: "m = dm_make api (map (\<lambda>(i, r). decode_record i r) (enumerate 0 rs)) (out_child out)"
    by (auto simp: wire_deserialize_def Let_def split: prod.split_asm if_splits)
  from as_chunks_whole [OF rs(1)] have w: "out_chunks out = concat rs" "\<forall>r \<in> set rs. length r = CHUNK_RECORD_LEN"
    by (simp_all add: record_len)
  have "dm_infos api m = map (\<lambda>(i, r). decode_record i r) (enumerate 0 rs)" "dm_child api m = out_child out"
    unfolding m by (rule assms(3), rule assms(4))
  moreover have "enumerate 0 rs \<noteq> []" using rs(2) by (cases rs) simp_all
  ultimately show "wire_serialize api m = Inr out"
    using decode_then_encode [OF w(2), of 0] w(1) assms(5)
    by (cases "out_child out") (auto simp: wire_serialize_def not_le)
qed

subsection \<open>The structural check delimits one value\<close>

definition consumes :: "(bytes \<Rightarrow> ('e, 'x \<times> bytes) result) \<Rightarrow> bool" where
  "consumes f \<longleftrightarrow> (\<forall>bs x rest. f bs = Inr (x, rest) \<longrightarrow>
     (\<exists>used. bs = used @ rest \<and> (\<forall>more. f (used @ more) = Inr (x, more))))"

definition advances :: "(bytes \<Rightarrow> ('e, bytes) result) \<Rightarrow> bool" where
  "advances f \<longleftrightarrow> (\<forall>bs rest. f bs = Inr rest \<longrightarrow>
     (\<exists>used. bs = used @ rest \<and> (\<forall>more. f (used @ more) = Inr more)))"

lemma consumes_const [intro]: "consumes (\<lambda>bs. Inr (x, bs))" "consumes (\<lambda>bs. Inl e)"
  by (auto simp: consumes_def)

lemma advances_const [intro]: "advances (\<lambda>bs. Inr bs)" "advances (\<lambda>bs. Inl e)"
  by (auto simp: advances_def)

lemma consumes_take [intro]: "consumes (rd_take n)"
  unfolding consumes_def
proof (intro allI impI)
  fix bs x rest assume "rd_take n bs = Inr (x, rest)"
  then have "n \<le> length bs" "x = take n bs" "rest = drop n bs" by (auto simp: rd_take_def split: if_splits)
  then show "\<exists>used. bs = used @ rest \<and> (\<forall>more. rd_take n (used @ more) = Inr (x, more))"
    by (intro exI [of _ x]) (simp add: rd_take_def)
qed

lemma consumes_bind [intro]:
  assumes "consumes f" and "\<And>x. consumes (g x)"
  shows "consumes (\<lambda>bs. bind_result (f bs) (\<lambda>(x, rest). g x rest))"
  unfolding consumes_def
proof (intro allI impI)
  fix bs y rest assume "bind_result (f bs) (\<lambda>(x, rest). g x rest) = Inr (y, rest)"
  then obtain x mid where f: "f bs = Inr (x, mid)" and g: "g x mid = Inr (y, rest)"
    by (auto simp: results)
  from assms(1) f obtain u where u: "bs = u @ mid" "\<And>more. f (u @ more) = Inr (x, more)"
    unfolding consumes_def by blast
  from assms(2) g obtain v where v: "mid = v @ rest" "\<And>more. g x (v @ more) = Inr (y, more)"
    unfolding consumes_def by blast
  show "\<exists>used. bs = used @ rest \<and> (\<forall>more. bind_result (f (used @ more)) (\<lambda>(x, rest). g x rest) = Inr (y, more))"
    using u v by (intro exI [of _ "u @ v"]) simp
qed

lemma advances_bind [intro]:
  assumes "consumes f" and "\<And>x. advances (g x)"
  shows "advances (\<lambda>bs. bind_result (f bs) (\<lambda>(x, rest). g x rest))"
  unfolding advances_def
proof (intro allI impI)
  fix bs rest assume "bind_result (f bs) (\<lambda>(x, rest). g x rest) = Inr rest"
  then obtain x mid where f: "f bs = Inr (x, mid)" and g: "g x mid = Inr rest"
    by (auto simp: results)
  from assms(1) f obtain u where u: "bs = u @ mid" "\<And>more. f (u @ more) = Inr (x, more)"
    unfolding consumes_def by blast
  from assms(2) g obtain v where v: "mid = v @ rest" "\<And>more. g x (v @ more) = Inr more"
    unfolding advances_def by blast
  show "\<exists>used. bs = used @ rest \<and> (\<forall>more. bind_result (f (used @ more)) (\<lambda>(x, rest). g x rest) = Inr more)"
    using u v by (intro exI [of _ "u @ v"]) simp
qed

lemma advances_then:
  assumes "advances f" and "advances g"
  shows "advances (\<lambda>bs. bind_result (f bs) g)"
  unfolding advances_def
proof (intro allI impI)
  fix bs rest assume "bind_result (f bs) g = Inr rest"
  then obtain mid where f: "f bs = Inr mid" and g: "g mid = Inr rest" by (auto simp: results)
  from assms(1) f obtain u where u: "bs = u @ mid" "\<And>more. f (u @ more) = Inr more"
    unfolding advances_def by blast
  from assms(2) g obtain v where v: "mid = v @ rest" "\<And>more. g (v @ more) = Inr more"
    unfolding advances_def by blast
  show "\<exists>used. bs = used @ rest \<and> (\<forall>more. bind_result (f (used @ more)) g = Inr more)"
    using u v by (intro exI [of _ "u @ v"]) simp
qed

lemma consumes_of_advances:
  assumes "advances f"
  shows "consumes (\<lambda>bs. bind_result (f bs) (\<lambda>rest. Inr (x, rest)))"
  using assms by (fastforce simp: consumes_def advances_def results)

lemma consumes_if: "consumes f \<Longrightarrow> consumes g \<Longrightarrow> consumes (\<lambda>bs. if b then f bs else g bs)"
  by (cases b) simp_all

lemma advances_if: "advances f \<Longrightarrow> advances g \<Longrightarrow> advances (\<lambda>bs. if b then f bs else g bs)"
  by (cases b) simp_all

lemma advances_repeat: "advances f \<Longrightarrow> advances (repeat_read n f)"
proof (induction n)
  case 0
  have "repeat_read 0 f = (\<lambda>bs. Inr bs)" by (simp add: fun_eq_iff)
  then show ?case by (simp add: advances_const)
next
  case (Suc n)
  have "repeat_read (Suc n) f = (\<lambda>bs. bind_result (f bs) (repeat_read n f))" by (simp add: fun_eq_iff)
  with Suc show ?case by (simp add: advances_then)
qed

lemma consumes_uint: "consumes (rd_uint w)"
  unfolding rd_uint_def by (intro consumes_bind consumes_take consumes_const)

lemma consumes_skip: "consumes (rd_skip n)"
  unfolding rd_skip_def by (intro consumes_bind consumes_take consumes_const)

lemma consumes_sized: "consumes (rd_sized w h)"
  unfolding rd_sized_def by (intro consumes_bind consumes_uint consumes_const)

lemma consumes_blob: "consumes (rd_blob w t)"
  unfolding rd_blob_def by (intro consumes_bind consumes_uint consumes_skip)

lemma consumes_header: "consumes rd_header"
  unfolding rd_header_def Let_def
  by (intro consumes_bind consumes_take consumes_if consumes_const consumes_blob consumes_skip consumes_sized)

lemma advances_skip_body:
  assumes "advances item"
  shows "advances (rd_skip_body item h)"
proof (cases h)
  case (Str n)
  have "rd_skip_body item (Str n) = (\<lambda>bs. bind_result (rd_take n bs) (\<lambda>(_, rest). Inr rest))"
    by (simp add: fun_eq_iff)
  then show ?thesis unfolding Str by (simp only:) (intro advances_bind consumes_take advances_const)
next
  case (Array n)
  have "rd_skip_body item (Array n) = repeat_read n item" by (simp add: fun_eq_iff)
  with assms show ?thesis by (simp add: Array advances_repeat)
next
  case (Map n)
  have "rd_skip_body item (Map n) = repeat_read n (\<lambda>bs. bind_result (item bs) item)" by (simp add: fun_eq_iff)
  with assms show ?thesis by (simp add: Map advances_repeat advances_then)
next
  case Scalar
  have "rd_skip_body item Scalar = (\<lambda>bs. Inr bs)" by (simp add: fun_eq_iff)
  then show ?thesis by (simp add: Scalar advances_const)
next
  case NilValue
  have "rd_skip_body item NilValue = (\<lambda>bs. Inr bs)" by (simp add: fun_eq_iff)
  then show ?thesis by (simp add: NilValue advances_const)
qed

lemma consumes_key:
  assumes "advances item"
  shows "consumes (rd_key item)"
proof -
  have "consumes (\<lambda>rest. case h of
          Str len \<Rightarrow> bind_result (rd_take len rest) (\<lambda>(text, rest'). Inr (Some text, rest'))
        | other \<Rightarrow> bind_result (rd_skip_body item other rest) (\<lambda>rest'. Inr (None, rest')))" for h
    by (cases h)
      (simp_all add: consumes_of_advances [OF advances_skip_body [OF assms]] consumes_bind consumes_take consumes_const
        del: rd_skip_body.simps)
  then show ?thesis unfolding rd_key_def by (intro consumes_bind consumes_header)
qed

lemma advances_check: "advances (rd_check room sh)"
proof (induction room arbitrary: sh rule: less_induct)
  case (less room)
  show ?case
  proof (cases room)
    case 0
    have "rd_check 0 sh = (\<lambda>bs. Inl Decode)" by (simp add: fun_eq_iff)
    then show ?thesis by (simp add: 0 advances_const)
  next
    case (Suc r)
    have item: "advances (\<lambda>b. rd_check r sh b)" for sh using less [of r] by (simp add: Suc)
    have key: "consumes (rd_key (\<lambda>b. rd_check (r - 1) Any b))"
      using less [of "r - 1"] by (intro consumes_key) (simp add: Suc)
    have skip: "advances (\<lambda>rest. rd_skip_body (\<lambda>b. rd_check r Any b) h rest)" for h
      using advances_skip_body [OF item] by simp
    have field: "advances (\<lambda>b. bind_result (rd_key (\<lambda>b. rd_check (r - 1) Any b) b)
        (\<lambda>(key, b'). rd_check r (field_shape fs key) b'))" for fs
      by (intro advances_bind key item)
    have rep: "advances (\<lambda>rest. repeat_read n f rest)" if "advances f" for n f
      using advances_repeat [OF that] by simp
    have body: "advances (\<lambda>rest.
        let skip = rd_skip_body (\<lambda>b. rd_check r Any b) h rest;
            field = (\<lambda>fs b. bind_result (rd_key (\<lambda>b. rd_check (r - 1) Any b) b)
                       (\<lambda>(key, b'). rd_check r (field_shape fs key) b'))
        in case sh of
             Any \<Rightarrow> skip
           | Struct fs \<Rightarrow> (case h of Array _ \<Rightarrow> Inl Decode | Map len \<Rightarrow> repeat_read len (field fs) rest | _ \<Rightarrow> skip)
           | Variant fs \<Rightarrow> (case h of Array _ \<Rightarrow> Inl Decode | Map len \<Rightarrow> repeat_read len (field fs) rest | _ \<Rightarrow> skip)
           | ListOf item most \<Rightarrow>
               (case h of
                  Array len \<Rightarrow> if most < len then Inl (TooManyEntries len most)
                               else repeat_read len (\<lambda>b. rd_check r item b) rest
                | _ \<Rightarrow> skip))" for h
      unfolding Let_def
      by (cases sh; cases h)
        (simp_all only: shape.case header.case skip rep field item advances_if advances_const)
    have "rd_check (Suc r) sh = (\<lambda>bs. bind_result (rd_header bs) (\<lambda>(h, rest).
        let skip = rd_skip_body (\<lambda>b. rd_check r Any b) h rest;
            field = (\<lambda>fs b. bind_result (rd_key (\<lambda>b. rd_check (r - 1) Any b) b)
                       (\<lambda>(key, b'). rd_check r (field_shape fs key) b'))
        in case sh of
             Any \<Rightarrow> skip
           | Struct fs \<Rightarrow> (case h of Array _ \<Rightarrow> Inl Decode | Map len \<Rightarrow> repeat_read len (field fs) rest | _ \<Rightarrow> skip)
           | Variant fs \<Rightarrow> (case h of Array _ \<Rightarrow> Inl Decode | Map len \<Rightarrow> repeat_read len (field fs) rest | _ \<Rightarrow> skip)
           | ListOf item most \<Rightarrow>
               (case h of
                  Array len \<Rightarrow> if most < len then Inl (TooManyEntries len most)
                               else repeat_read len (\<lambda>b. rd_check r item b) rest
                | _ \<Rightarrow> skip)))" by (simp add: fun_eq_iff)
    then show ?thesis unfolding Suc by (simp only:) (intro advances_bind consumes_header body)
  qed
qed

text \<open>
  The structural check accepts exactly one value: an accepted body cannot be extended,
  so two different accepted bodies are never prefixes of one another, and nothing after the
  value can ride along.
\<close>

theorem accepted_bodies_are_prefix_free:
  assumes "check_structure a = Inr ()" and "check_structure (a @ b) = Inr ()"
  shows "b = []"
proof -
  define c where "c = rd_check (MAX_DECODE_DEPTH + 1) MANIFEST"
  have adv: "advances c" unfolding c_def by (rule advances_check)
  have cs: "check_structure body = bind_result (c body) (\<lambda>rest. if rest \<noteq> [] then Inl Decode else Inr ())" for body
    by (simp only: check_structure_def c_def)
  from assms(1) have "c a = Inr []" by (auto simp: cs results split: if_splits)
  with adv have "c (a @ more) = Inr more" for more unfolding advances_def by fastforce
  with assms(2) show ?thesis by (auto simp: cs results split: if_splits)
qed

text \<open>The empty map is a body the check accepts.\<close>

theorem accepted_bodies_are_prefix_free_witness:
  "check_structure [0x80] = Inr () \<and> check_structure ([0x80] @ []) = Inr () \<and> ([] :: bytes) = []"
proof -
  have d: "MAX_DECODE_DEPTH + 1 = Suc 16" by (simp add: MAX_DECODE_DEPTH_def)
  have c: "check_structure [0x80] = Inr ()"
    unfolding check_structure_def d MANIFEST_def rd_check.simps by (simp add: rd_header_def rd_take_def Let_def)
  then have "check_structure ([0x80] @ []) = Inr ()" by simp
  from accepted_bodies_are_prefix_free [OF c this] c show ?thesis by simp
qed

definition plain_map_api :: "(chunk_info list \<times> nat option) data_map_api" where
  "plain_map_api = \<lparr>dm_infos = fst, dm_child = snd, dm_make = Pair\<rparr>"

theorem data_map_layout_round_trips_witness:
  "let m = ([\<lparr>ci_index = 0, ci_dst_hash = replicate 32 7, ci_src_hash = replicate 32 9, ci_src_size = 258\<rparr>], Some 2);
       out = \<lparr>out_chunks = replicate 32 7 @ replicate 32 9 @ [0, 0, 1, 2], out_child = Some 2\<rparr>
   in wire_serialize plain_map_api m = Inr out \<and> wire_deserialize plain_map_api out = Inr m"
proof -
  let ?m = "([\<lparr>ci_index = 0, ci_dst_hash = replicate 32 7, ci_src_hash = replicate 32 9, ci_src_size = 258\<rparr>],
    Some 2) :: chunk_info list \<times> nat option"
  let ?out = "\<lparr>out_chunks = replicate 32 7 @ replicate 32 9 @ [0, 0, 1, 2], out_child = Some 2\<rparr>"
  have s: "wire_serialize plain_map_api ?m = Inr ?out"
    by (simp add: wire_serialize_def plain_map_api_def u32_to_be_bytes_def)
  have "wire_deserialize plain_map_api ?out = Inr ?m"
    using data_map_layout_round_trips [where api = plain_map_api and m = ?m and out = ?out] s
    by (simp add: plain_map_api_def hashes_ok_def HASH_LEN_def)
  with s show ?thesis by (simp only: Let_def)
qed

end
