(* ===== verification/Rust_Text.thy ===== *)
theory Rust_Text
  imports Prelude
begin

text \<open>
  The parts of Rust's \<^verbatim>\<open>str\<close> that several components use: decimal numbers printed and
  parsed, \<^verbatim>\<open>split_once\<close>, \<^verbatim>\<open>trim\<close> and joining paths, with the
  round trips between them. A string is its UTF-8 bytes, and \<open>char\<close> is a byte.
\<close>

subsection \<open>Decimal numbers\<close>

definition digit :: "nat \<Rightarrow> char" where
  "digit d = char_of (48 + d)"

fun show_nat :: "nat \<Rightarrow> string" where
  "show_nat n = (if n < 10 then [digit n] else show_nat (n div 10) @ [digit (n mod 10)])"

declare show_nat.simps [simp del]

definition padded :: "nat \<Rightarrow> nat \<Rightarrow> string" where
  "padded width n = (let s = show_nat n in replicate (width - length s) (CHR ''0'') @ s)"

definition is_ascii_digit :: "char \<Rightarrow> bool" where
  "is_ascii_digit c \<longleftrightarrow> 48 \<le> (of_char c :: nat) \<and> (of_char c :: nat) \<le> 57"

definition digits_value :: "string \<Rightarrow> nat" where
  "digits_value s = foldl (\<lambda>acc c. acc * 10 + (of_char c - 48)) 0 s"

text \<open>\<^verbatim>\<open>str::parse\<close> for an unsigned integer below \<open>bound\<close>: an optional plus sign, then digits.\<close>

definition parse_unsigned :: "nat \<Rightarrow> string \<Rightarrow> nat option" where
  "parse_unsigned bound s =
     (let ds = (case s of c # rest \<Rightarrow> if c = CHR ''+'' then rest else s | [] \<Rightarrow> [])
      in if ds \<noteq> [] \<and> list_all is_ascii_digit ds \<and> digits_value ds < bound then Some (digits_value ds) else None)"

subsection \<open>Splitting and trimming\<close>

fun split_once :: "string \<Rightarrow> string \<Rightarrow> (string \<times> string) option" where
  "split_once sep s =
     (if take (length sep) s = sep then Some ([], drop (length sep) s)
      else (case s of [] \<Rightarrow> None | c # cs \<Rightarrow> map_option (\<lambda>(a, b). (c # a, b)) (split_once sep cs)))"

declare split_once.simps [simp del]

text \<open>The characters with Unicode's White\_Space property, in UTF-8.\<close>

definition white_spaces :: "string list" where
  "white_spaces =
     map (map char_of)
       ([[n]. n \<leftarrow> [9, 10, 11, 12, 13, 32]] @ [[0xC2, 0x85], [0xC2, 0xA0], [0xE1, 0x9A, 0x80]] @
        [[0xE2, 0x80, n]. n \<leftarrow> [0x80 ..< 0x8B] @ [0xA8, 0xA9, 0xAF]] @
        [[0xE2, 0x81, 0x9F], [0xE3, 0x80, 0x80 :: nat]])"

lemma drop_prefix_shorter:
  "find P ws = Some w \<Longrightarrow> (\<And>w. P w \<Longrightarrow> w \<noteq> [] \<and> length w \<le> length s) \<Longrightarrow> length s - length w < length s"
  by (metis diff_less find_Some_iff le_zero_eq length_0_conv length_greater_0_conv)

function trim_start :: "string \<Rightarrow> string" where
  "trim_start s =
     (case find (\<lambda>w. w \<noteq> [] \<and> take (length w) s = w) white_spaces of
        Some w \<Rightarrow> trim_start (drop (length w) s)
      | None \<Rightarrow> s)"
  by pat_completeness auto
termination
proof (relation "measure length")
  fix s w
  assume "find (\<lambda>w. w \<noteq> [] \<and> take (length w) s = w) white_spaces = Some w"
  then have "length s - length w < length s"
    by (rule drop_prefix_shorter) (metis length_take min.cobounded1)
  then show "(drop (length w) s, s) \<in> measure length" by simp
qed simp

function trim_end :: "string \<Rightarrow> string" where
  "trim_end s =
     (case find (\<lambda>w. w \<noteq> [] \<and> length w \<le> length s \<and> drop (length s - length w) s = w) white_spaces of
        Some w \<Rightarrow> trim_end (take (length s - length w) s)
      | None \<Rightarrow> s)"
  by pat_completeness auto
termination
proof (relation "measure length")
  fix s w
  assume "find (\<lambda>w. w \<noteq> [] \<and> length w \<le> length s \<and> drop (length s - length w) s = w) white_spaces = Some w"
  then have "length s - length w < length s" by (rule drop_prefix_shorter) simp
  then show "(take (length s - length w) s, s) \<in> measure length" by simp
qed simp

declare trim_start.simps [simp del] trim_end.simps [simp del]

definition trim :: "string \<Rightarrow> string" where
  "trim s = trim_end (trim_start s)"

definition is_ascii_hexdigit :: "char \<Rightarrow> bool" where
  "is_ascii_hexdigit c \<longleftrightarrow>
     (let n = (of_char c :: nat) in (48 \<le> n \<and> n \<le> 57) \<or> (65 \<le> n \<and> n \<le> 70) \<or> (97 \<le> n \<and> n \<le> 102))"

text \<open>\<^verbatim>\<open>Path::join\<close> on Unix: an absolute path replaces, a relative one is appended.\<close>

definition path_join :: "string \<Rightarrow> string \<Rightarrow> string" where
  "path_join base p =
     (if take 1 p = ''/'' then p
      else if base = [] \<or> List.last base = CHR ''/'' then base @ p
      else base @ ''/'' @ p)"

subsection \<open>Printed numbers are read back\<close>

lemma of_char_digit: "d < 10 \<Longrightarrow> (of_char (digit d) :: nat) = 48 + d"
  by (simp add: digit_def)

lemma digits_value_snoc: "digits_value (s @ [c]) = digits_value s * 10 + (of_char c - 48)"
  by (simp add: digits_value_def)

lemma show_nat_value: "digits_value (show_nat n) = n"
proof (induction n rule: show_nat.induct)
  case (1 n)
  show ?case
  proof (cases "n < 10")
    case True
    then show ?thesis by (subst show_nat.simps) (simp add: digits_value_def of_char_digit)
  next
    case False
    with 1 show ?thesis by (subst show_nat.simps) (simp add: digits_value_snoc of_char_digit)
  qed
qed

lemma show_nat_digits: "list_all is_ascii_digit (show_nat n)"
proof (induction n rule: show_nat.induct)
  case (1 n)
  have "is_ascii_digit (digit d)" if "d < 10" for d
    using that by (simp add: is_ascii_digit_def of_char_digit)
  with 1 show ?case by (subst show_nat.simps) simp
qed

lemma show_nat_length: "n < 10 ^ w \<Longrightarrow> 0 < w \<Longrightarrow> length (show_nat n) \<le> w"
proof (induction n arbitrary: w rule: show_nat.induct)
  case (1 n)
  show ?case
  proof (cases "n < 10")
    case True
    with 1 show ?thesis by (subst show_nat.simps) simp
  next
    case False
    obtain v where w: "w = Suc v" using "1.prems"(2) by (cases w) auto
    have "n div 10 < 10 ^ v" using "1.prems"(1) by (simp add: w less_mult_imp_div_less mult.commute)
    moreover from this False have "0 < v" by (cases v) auto
    ultimately have "length (show_nat (n div 10)) \<le> v" using "1.IH" [OF False] by simp
    with False show ?thesis by (subst show_nat.simps) (simp add: w)
  qed
qed

lemma digits_value_zeros: "digits_value (replicate k (CHR ''0'') @ s) = digits_value s"
proof -
  have "foldl (\<lambda>acc c. acc * 10 + (of_char c - 48)) 0 (replicate k (CHR ''0'')) = (0 :: nat)"
    by (induction k) simp_all
  then show ?thesis by (simp add: digits_value_def)
qed

lemma padded_props:
  assumes "n < 10 ^ w" and "0 < w"
  shows "length (padded w n) = w" and "list_all is_ascii_digit (padded w n)" and "digits_value (padded w n) = n"
  using show_nat_length [OF assms] show_nat_digits [of n] show_nat_value [of n]
  by (auto simp: padded_def Let_def digits_value_zeros list_all_iff is_ascii_digit_def)

lemma digit_not_plus: "is_ascii_digit c \<Longrightarrow> c \<noteq> CHR ''+''"
  by (auto simp: is_ascii_digit_def)

lemma parse_digits:
  assumes "list_all is_ascii_digit s" and "s \<noteq> []" and "digits_value s < b"
  shows "parse_unsigned b s = Some (digits_value s)"
  using assms digit_not_plus by (cases s) (auto simp: parse_unsigned_def)

lemma show_nat_nonempty: "show_nat n \<noteq> []"
  by (subst show_nat.simps) simp

lemma parse_show_nat: "n < b \<Longrightarrow> parse_unsigned b (show_nat n) = Some n"
  using parse_digits [OF show_nat_digits show_nat_nonempty, of n b] by (simp add: show_nat_value)

lemma show_nat_inject: "show_nat m = show_nat n \<longleftrightarrow> m = n"
  by (metis show_nat_value)

lemma split_once_no_sep:
  assumes "\<And>c. c \<in> set s \<Longrightarrow> c \<noteq> sep"
  shows "split_once [sep] s = None"
  using assms by (induction s) (simp_all add: split_once.simps)

lemma split_once_at:
  assumes "\<And>c. c \<in> set s \<Longrightarrow> c \<noteq> sep"
  shows "split_once [sep] (s @ sep # rest) = Some (s, rest)"
  using assms by (induction s) (simp_all add: split_once.simps)

lemma digit_not_minus: "c \<in> set (show_nat n) \<Longrightarrow> c \<noteq> CHR ''-''"
  using show_nat_digits [of n] by (auto simp: list_all_iff is_ascii_digit_def)

end
