(* ===== verification/History.thy ===== *)
theory History
  imports Wire Rust_Text
begin

text \<open>
  Upload history, \<^verbatim>\<open>ant-core/src/data/manifest/history.rs\<close>: record ids made of a
  compact UTC timestamp, a sanitised label and a collision suffix; the calendar conversions
  behind them; parsing, ordering and allocating ids. Text is a list of characters; the file
  system is a parameter of \<open>record_upload\<close>. The date arithmetic is over \<open>int\<close>; times
  are below \<open>2 ^ 64\<close> seconds, far from the ends of the 64-bit day and year numbers.
\<close>

definition MAX_LABEL_CHARS :: nat where "MAX_LABEL_CHARS = 64"
definition TIMESTAMP_LEN :: nat where "TIMESTAMP_LEN = 16"
definition MAX_ID_ATTEMPTS :: nat where "MAX_ID_ATTEMPTS = 1000"
definition FIRST_ID_SEQUENCE :: nat where "FIRST_ID_SEQUENCE = 1"
definition SECS_PER_MINUTE :: int where "SECS_PER_MINUTE = 60"
definition SECS_PER_HOUR :: int where "SECS_PER_HOUR = 3600"
definition SECS_PER_DAY :: int where "SECS_PER_DAY = 86400"
definition DAYS_TO_UNIX_EPOCH :: int where "DAYS_TO_UNIX_EPOCH = 719468"
definition DAYS_PER_ERA :: int where "DAYS_PER_ERA = 146097"

subsection \<open>Calendar\<close>

definition month_start_day :: "int \<Rightarrow> int" where
  "month_start_day month_from_march = (153 * month_from_march + 2) div 5"

definition days_from_civil :: "int \<Rightarrow> int \<Rightarrow> int \<Rightarrow> int" where
  "days_from_civil year month day =
     (let year = (if month \<le> 2 then year - 1 else year);
          era = year div 400;
          year_of_era = year - era * 400;
          month_from_march = (month + 9) mod 12;
          day_of_year = month_start_day month_from_march + day - 1;
          day_of_era = year_of_era * 365 + year_of_era div 4 - year_of_era div 100 + day_of_year
      in era * DAYS_PER_ERA + day_of_era - DAYS_TO_UNIX_EPOCH)"

definition civil_from_days :: "int \<Rightarrow> int \<times> int \<times> int" where
  "civil_from_days days =
     (let shifted = days + DAYS_TO_UNIX_EPOCH;
          era = shifted div DAYS_PER_ERA;
          day_of_era = shifted - era * DAYS_PER_ERA;
          year_of_era = (day_of_era - day_of_era div 1460 + day_of_era div 36524
                          - day_of_era div (DAYS_PER_ERA - 1)) div 365;
          year = year_of_era + era * 400;
          day_of_year = day_of_era - (365 * year_of_era + year_of_era div 4 - year_of_era div 100);
          month_from_march = (5 * day_of_year + 2) div 153;
          day = day_of_year - month_start_day month_from_march + 1;
          month = (if month_from_march < 10 then month_from_march + 3 else month_from_march - 9)
      in (if month \<le> 2 then year + 1 else year, month, day))"

definition split_unix :: "int \<Rightarrow> int \<times> int \<times> int \<times> int \<times> int \<times> int" where
  "split_unix unix_secs =
     (let days = unix_secs div SECS_PER_DAY;
          rem = unix_secs mod SECS_PER_DAY;
          (year, month, day) = civil_from_days days
      in (year, month, day, rem div SECS_PER_HOUR, (rem mod SECS_PER_HOUR) div SECS_PER_MINUTE,
          rem mod SECS_PER_MINUTE))"

subsection \<open>Text\<close>

text \<open>A string is its UTF-8 bytes; \<open>char\<close> is a byte.\<close>

definition is_continuation :: "char \<Rightarrow> bool" where
  "is_continuation c \<longleftrightarrow> 128 \<le> (of_char c :: nat) \<and> (of_char c :: nat) < 192"

definition is_char_boundary :: "string \<Rightarrow> nat \<Rightarrow> bool" where
  "is_char_boundary s i \<longleftrightarrow> i = 0 \<or> i = length s \<or> (i < length s \<and> \<not> is_continuation (s ! i))"

text \<open>Slicing a string by bytes panics (\<open>None\<close>) inside a character.\<close>

definition str_slice :: "string \<Rightarrow> nat \<Rightarrow> nat \<Rightarrow> string option" where
  "str_slice s a b =
     (if a \<le> b \<and> is_char_boundary s a \<and> is_char_boundary s b then Some (take (b - a) (drop a s)) else None)"

definition format_compact_timestamp :: "int \<Rightarrow> string" where
  "format_compact_timestamp unix_secs =
     (let (year, month, day, hour, minute, second) = split_unix unix_secs
      in padded 4 (nat year) @ padded 2 (nat month) @ padded 2 (nat day) @ ''T'' @
         padded 2 (nat hour) @ padded 2 (nat minute) @ padded 2 (nat second) @ ''Z'')"

definition format_timestamp :: "int \<Rightarrow> string" where
  "format_timestamp unix_secs =
     (let (year, month, day, hour, minute, second) = split_unix unix_secs
      in padded 4 (nat year) @ ''-'' @ padded 2 (nat month) @ ''-'' @ padded 2 (nat day) @ '' '' @
         padded 2 (nat hour) @ '':'' @ padded 2 (nat minute) @ '':'' @ padded 2 (nat second) @ '' UTC'')"

subsection \<open>Parsing ids\<close>

text \<open>The closure \<^verbatim>\<open>num\<close>: \<open>None\<close> is a panic, \<open>Some None\<close> a failed parse.\<close>

definition num_at :: "string \<Rightarrow> nat \<Rightarrow> nat \<Rightarrow> nat option option" where
  "num_at stamp a b = map_option (parse_unsigned (2 ^ 64)) (str_slice stamp a b)"

fun and_then :: "'a option option \<Rightarrow> ('a \<Rightarrow> 'b option option) \<Rightarrow> 'b option option" where
  "and_then None f = None"
| "and_then (Some None) f = Some None"
| "and_then (Some (Some x)) f = f x"

definition parse_id :: "string \<Rightarrow> (nat \<times> string) option option" where
  "parse_id rid =
     (if length rid < TIMESTAMP_LEN \<or> \<not> is_char_boundary rid TIMESTAMP_LEN then Some None
      else let stamp = take TIMESTAMP_LEN rid
           in case drop TIMESTAMP_LEN rid of
                [] \<Rightarrow> Some None
              | sep # label \<Rightarrow>
                  if sep \<noteq> CHR ''-'' then Some None
                  else if stamp ! 8 \<noteq> CHR ''T'' \<or> stamp ! 15 \<noteq> CHR ''Z'' then Some None
                  else and_then (num_at stamp 0 4) (\<lambda>year. and_then (num_at stamp 4 6) (\<lambda>month.
                       and_then (num_at stamp 6 8) (\<lambda>day. and_then (num_at stamp 9 11) (\<lambda>hour.
                       and_then (num_at stamp 11 13) (\<lambda>minute. and_then (num_at stamp 13 15) (\<lambda>second.
                         if month < 1 \<or> 12 < month \<or> day = 0 then Some None
                         else let days = days_from_civil (int year) (int month) (int day)
                              in if days < 0 then Some None
                                 else Some (Some (nat (days * SECS_PER_DAY + int hour * SECS_PER_HOUR +
                                        int minute * SECS_PER_MINUTE + int second), label)))))))))"

subsection \<open>Labels and record ids\<close>

definition is_label_char :: "nat \<Rightarrow> bool" where
  "is_label_char c \<longleftrightarrow> (48 \<le> c \<and> c \<le> 57) \<or> (65 \<le> c \<and> c \<le> 90) \<or> (97 \<le> c \<and> c \<le> 122) \<or> c \<in> {45, 95, 46}"

definition trim_matches :: "('a \<Rightarrow> bool) \<Rightarrow> 'a list \<Rightarrow> 'a list" where
  "trim_matches P s = rev (dropWhile P (rev (dropWhile P s)))"

text \<open>The label is given by its characters (code points); what is kept is ASCII.\<close>

definition sanitize_label :: "nat list option \<Rightarrow> string" where
  "sanitize_label label =
     (let chars = (case label of Some l \<Rightarrow> l | None \<Rightarrow> map of_char ''upload'');
          cleaned = take MAX_LABEL_CHARS (map (\<lambda>c. if is_label_char c then char_of c else CHR ''_'') chars);
          trimmed = trim_matches (\<lambda>c. c = CHR ''_'' \<or> c = CHR ''.'') cleaned
      in if trimmed = [] then ''upload'' else trimmed)"

fun rsplit_once :: "char \<Rightarrow> string \<Rightarrow> (string \<times> string) option" where
  "rsplit_once sep s =
     (let suffix = rev (takeWhile (\<lambda>c. c \<noteq> sep) (rev s))
      in if length suffix = length s then None
         else Some (take (length s - length suffix - 1) s, suffix))"

definition id_sort_key :: "string \<Rightarrow> string \<times> nat" where
  "id_sort_key rid =
     (case rsplit_once (CHR ''-'') rid of
        None \<Rightarrow> (rid, FIRST_ID_SEQUENCE)
      | Some (base, suffix) \<Rightarrow>
          if suffix \<noteq> [] \<and> list_all is_ascii_digit suffix then
            (case parse_unsigned (2 ^ 32) suffix of Some n \<Rightarrow> (base, n) | None \<Rightarrow> (rid, FIRST_ID_SEQUENCE))
          else (rid, FIRST_ID_SEQUENCE))"

text \<open>
  What writing a manifest file without overwriting can return: done, an I/O error of kind
  \<open>AlreadyExists\<close>, or another error.
\<close>

datatype write_outcome = Written | AlreadyExists | WriteFailed manifest_error

record upload_record =
  ur_id :: string
  ur_recorded_at :: nat
  ur_label :: string

definition attempt_id :: "string \<Rightarrow> nat \<Rightarrow> string" where
  "attempt_id base attempt = (if attempt = 0 then base else base @ ''-'' @ show_nat (attempt + 1))"

fun record_attempts ::
  "(string \<Rightarrow> 's \<Rightarrow> write_outcome \<times> 's) \<Rightarrow> nat \<Rightarrow> string \<Rightarrow> string \<Rightarrow> nat \<Rightarrow> nat \<Rightarrow> 's \<Rightarrow>
     (manifest_error, upload_record) result \<times> 's" where
  "record_attempts write_file recorded_at label base attempt 0 s = (Inl Build, s)"
| "record_attempts write_file recorded_at label base attempt (Suc left) s =
     (case write_file (attempt_id base attempt) s of
        (Written, s') \<Rightarrow> (Inr \<lparr>ur_id = attempt_id base attempt, ur_recorded_at = recorded_at, ur_label = label\<rparr>, s')
      | (AlreadyExists, s') \<Rightarrow> record_attempts write_file recorded_at label base (attempt + 1) left s'
      | (WriteFailed e, s') \<Rightarrow> (Inl e, s'))"

definition record_label :: "nat list option \<Rightarrow> nat list option \<Rightarrow> nat list option" where
  "record_label label manifest_name = (case label of Some l \<Rightarrow> Some l | None \<Rightarrow> manifest_name)"

definition record_upload ::
  "(string \<Rightarrow> 's \<Rightarrow> write_outcome \<times> 's) \<Rightarrow> nat \<Rightarrow> nat list option \<Rightarrow> nat list option \<Rightarrow> 's \<Rightarrow>
     (manifest_error, upload_record) result \<times> 's" where
  "record_upload write_file recorded_at label manifest_name s =
     (let lbl = sanitize_label (record_label label manifest_name);
          base = format_compact_timestamp (int recorded_at) @ ''-'' @ lbl
      in record_attempts write_file recorded_at lbl base 0 MAX_ID_ATTEMPTS s)"

subsection \<open>The calendar conversions invert each other\<close>

definition year_start :: "int \<Rightarrow> int" where
  "year_start y = 365 * y + y div 4 - y div 100"

definition year_of_day :: "int \<Rightarrow> int" where
  "year_of_day d = (d - d div 1460 + d div 36524 - d div 146096) div 365"

lemma div_step:
  fixes d k :: int
  assumes "0 < k"
  shows "d div k \<le> (d + 1) div k" and "(d + 1) div k \<le> d div k + 1"
proof -
  show "d div k \<le> (d + 1) div k" using assms by (intro zdiv_mono1) simp_all
  have "(d + 1) div k \<le> (d + k) div k" using assms by (intro zdiv_mono1) simp_all
  moreover have "(d + k) div k = d div k + 1" using assms by (intro div_add_self2) simp
  ultimately show "(d + 1) div k \<le> d div k + 1" by simp
qed

lemma year_of_day_mono_step:
  assumes "0 \<le> d"
  shows "year_of_day d \<le> year_of_day (d + 1)"
proof -
  define q q' where "q = d div 36524" and "q' = (d + 1) div 36524"
  have a: "(d + 1) div 1460 \<le> d div 1460 + 1" by (rule div_step) simp
  have q: "q' = q \<or> q' = q + 1"
    using div_step [of 36524 d] by (auto simp: q_def q'_def)
  have r: "d div 146096 = q div 4" "(d + 1) div 146096 = q' div 4"
    by (simp_all add: q_def q'_def zdiv_zmult2_eq [symmetric])
  have "(q + 1) div 4 \<le> q div 4 + 1" by (rule div_step) simp
  with q have "q' div 4 - q div 4 \<le> q' - q" by auto
  then have "d - d div 1460 + q - q div 4 \<le> (d + 1) - (d + 1) div 1460 + q' - q' div 4" using a by linarith
  then show ?thesis unfolding year_of_day_def r q_def [symmetric] q'_def [symmetric] by (rule zdiv_mono1) simp
qed

lemma year_of_day_mono:
  assumes "0 \<le> a" and "a \<le> b"
  shows "year_of_day a \<le> year_of_day b"
proof -
  have "year_of_day a \<le> year_of_day (a + int n)" for n
  proof (induction n)
    case (Suc n)
    moreover have "year_of_day (a + int n) \<le> year_of_day (a + int n + 1)"
      using assms(1) by (intro year_of_day_mono_step) simp
    moreover have "a + int (Suc n) = a + int n + 1" by simp
    ultimately show ?case by (metis order_trans)
  qed simp
  from this [of "nat (b - a)"] assms(2) show ?thesis by simp
qed

text \<open>At both ends of each of the 400 years of an era the formula names that year.\<close>

lemma year_of_day_ends:
  "list_all (\<lambda>y. year_of_day (year_start y) = y \<and> year_of_day (year_start (y + 1) - 1) = y) [0..399]"
  by code_simp

lemma last_day_of_era: "year_of_day 146096 = 399"
  by (simp add: year_of_day_def)

lemma year_of_era:
  assumes "0 \<le> d" and "d < 146097"
  shows "0 \<le> year_of_day d" and "year_of_day d < 400" and "year_start (year_of_day d) \<le> d"
    and "d - year_start (year_of_day d) \<le> 365"
proof -
  have find: "d < year_start (int k) \<Longrightarrow> \<exists>y. 0 \<le> y \<and> y < int k \<and> year_start y \<le> d \<and> d < year_start (y + 1)" for k
  proof (induction k)
    case 0
    then show ?case using assms(1) by (simp add: year_start_def)
  next
    case (Suc k)
    show ?case
    proof (cases "d < year_start (int k)")
      case True
      from Suc.IH [OF this] obtain y where "0 \<le> y" "y < int k" "year_start y \<le> d" "d < year_start (y + 1)" by blast
      then show ?thesis by (intro exI [of _ y]) simp
    next
      case False
      with Suc.prems show ?thesis by (intro exI [of _ "int k"]) (simp add: add.commute)
    qed
  qed
  have ends: "year_of_day (year_start y) = y" "year_of_day (year_start (y + 1) - 1) = y" if "0 \<le> y" "y < 400" for y
    using year_of_day_ends that by (auto simp: list_all_iff)
  have width: "year_start (y + 1) - year_start y \<le> 366" if "0 \<le> y" for y
    using div_step [of 4 y] div_step [of 100 y] by (simp add: year_start_def)
  have all: "0 \<le> year_of_day d \<and> year_of_day d < 400 \<and> year_start (year_of_day d) \<le> d \<and>
    d - year_start (year_of_day d) \<le> 365"
  proof (cases "d = 146096")
    case True
    then show "0 \<le> year_of_day d \<and> year_of_day d < 400 \<and> year_start (year_of_day d) \<le> d \<and>
      d - year_start (year_of_day d) \<le> 365"
      by (simp add: last_day_of_era year_start_def)
  next
    case False
    have "year_start (int 400) = 146096" by (simp add: year_start_def)
    with False assms(2) have "d < year_start (int 400)" by linarith
    from find [OF this] obtain y where y: "0 \<le> y" "y < 400" "year_start y \<le> d" "d < year_start (y + 1)" by auto
    have "0 \<le> year_start y" using ends(1) y(1,2) by (simp add: year_start_def)
    then have "year_of_day (year_start y) \<le> year_of_day d" "year_of_day d \<le> year_of_day (year_start (y + 1) - 1)"
      using y assms(1) by (auto intro!: year_of_day_mono)
    with ends [OF y(1,2)] have "year_of_day d = y" by simp
    with y width [OF y(1)] show "0 \<le> year_of_day d \<and> year_of_day d < 400 \<and> year_start (year_of_day d) \<le> d \<and>
      d - year_start (year_of_day d) \<le> 365" by simp
  qed
  show "0 \<le> year_of_day d" and "year_of_day d < 400" and "year_start (year_of_day d) \<le> d"
    and "d - year_start (year_of_day d) \<le> 365" using all by auto
qed

lemma month_of_year:
  assumes "0 \<le> d" and "d \<le> 365"
  shows "0 \<le> (5 * d + 2) div 153" and "(5 * d + 2) div 153 \<le> 11"
    and "month_start_day ((5 * d + 2) div 153) \<le> d" and "d - month_start_day ((5 * d + 2) div 153) \<le> 30"
proof -
  define m where "m = (5 * d + 2) div 153"
  have m: "153 * m \<le> 5 * d + 2" "5 * d + 2 < 153 * m + 153" unfolding m_def by linarith+
  have s: "5 * month_start_day m \<le> 153 * m + 2" "153 * m + 2 < 5 * month_start_day m + 5"
    unfolding month_start_day_def by linarith+
  show "0 \<le> (5 * d + 2) div 153" using assms(1) by simp
  show "(5 * d + 2) div 153 \<le> 11" using m(1) assms(2) unfolding m_def [symmetric] by linarith
  show "month_start_day ((5 * d + 2) div 153) \<le> d" unfolding m_def [symmetric] using m s by linarith
  show "d - month_start_day ((5 * d + 2) div 153) \<le> 30" unfolding m_def [symmetric] using m s by linarith
qed

lemma civil_from_days_shape:
  fixes days :: int
  defines "shifted \<equiv> days + DAYS_TO_UNIX_EPOCH"
  defines "era \<equiv> shifted div DAYS_PER_ERA"
  defines "doe \<equiv> shifted - era * DAYS_PER_ERA"
  defines "yoe \<equiv> year_of_day doe"
  defines "doy \<equiv> doe - year_start yoe"
  defines "mp \<equiv> (5 * doy + 2) div 153"
  shows "civil_from_days days =
    ((if 10 \<le> mp then yoe + era * 400 + 1 else yoe + era * 400), if mp < 10 then mp + 3 else mp - 9,
     doy - month_start_day mp + 1)"
    and "0 \<le> yoe" "yoe < 400" "0 \<le> mp" "mp \<le> 11" "0 \<le> doy" "month_start_day mp \<le> doy" "doy - month_start_day mp \<le> 30"
    and "days = era * DAYS_PER_ERA + year_start yoe + doy - DAYS_TO_UNIX_EPOCH"
proof -
  have doe: "0 \<le> doe" "doe < 146097"
    unfolding doe_def era_def DAYS_PER_ERA_def by (simp_all add: minus_div_mult_eq_mod)
  note y = year_of_era [OF doe, folded yoe_def]
  show "0 \<le> yoe" "yoe < 400" by (rule y)+
  show d: "0 \<le> doy" using y(3) by (simp add: doy_def)
  have d2: "doy \<le> 365" using y(4) by (simp add: doy_def)
  note m = month_of_year [OF d d2, folded mp_def]
  show "0 \<le> mp" "mp \<le> 11" "month_start_day mp \<le> doy" "doy - month_start_day mp \<le> 30" by (rule m)+
  show "days = era * DAYS_PER_ERA + year_start yoe + doy - DAYS_TO_UNIX_EPOCH"
    by (simp add: doy_def doe_def shifted_def)
  have yoe: "(doe - doe div 1460 + doe div 36524 - doe div (DAYS_PER_ERA - 1)) div 365 = yoe"
    by (simp add: yoe_def year_of_day_def DAYS_PER_ERA_def)
  have doy: "doe - (365 * yoe + yoe div 4 - yoe div 100) = doy" by (simp add: doy_def year_start_def)
  show "civil_from_days days =
    ((if 10 \<le> mp then yoe + era * 400 + 1 else yoe + era * 400), if mp < 10 then mp + 3 else mp - 9,
     doy - month_start_day mp + 1)"
    unfolding civil_from_days_def Let_def shifted_def [symmetric] era_def [symmetric] doe_def [symmetric] yoe doy
      mp_def [symmetric]
    using m(1,2) by (cases "mp < 10") auto
qed

lemma civil_days_inverse:
  assumes "civil_from_days days = (year, month, day)"
  shows "days_from_civil year month day = days" and "1 \<le> month" and "month \<le> 12" and "1 \<le> day" and "day \<le> 31"
proof -
  define shifted where "shifted = days + DAYS_TO_UNIX_EPOCH"
  define era where "era = shifted div DAYS_PER_ERA"
  define doe where "doe = shifted - era * DAYS_PER_ERA"
  define yoe where "yoe = year_of_day doe"
  define doy where "doy = doe - year_start yoe"
  define mp where "mp = (5 * doy + 2) div 153"
  note c = civil_from_days_shape [of days, folded shifted_def, folded era_def, folded doe_def, folded yoe_def,
      folded doy_def, folded mp_def]
  have day: "day = doy - month_start_day mp + 1" using assms c(1) by simp
  have ym: "(if month \<le> 2 then year - 1 else year) = yoe + era * 400" "(month + 9) mod 12 = mp" "1 \<le> month" "month \<le> 12"
    using assms c(1,4,5) by (auto split: if_splits)
  have e: "(yoe + era * 400) div 400 = era" using c(2,3) by simp
  show "1 \<le> month" "month \<le> 12" by (rule ym)+
  show "1 \<le> day" "day \<le> 31" using day c(7,8) by simp_all
  have "days_from_civil year month day = era * DAYS_PER_ERA + year_start yoe + doy - DAYS_TO_UNIX_EPOCH"
    unfolding days_from_civil_def Let_def ym(1,2) e by (simp add: day year_start_def)
  then show "days_from_civil year month day = days" using c(9) by simp
qed

text \<open>
  The calendar conversions are exact: converting any day number to a civil date and
  back gives the day number, and the date's month and day are in range.
\<close>

theorem civil_days_round_trip:
  "case civil_from_days days of (year, month, day) \<Rightarrow>
     days_from_civil year month day = days \<and> 1 \<le> month \<and> month \<le> 12 \<and> 1 \<le> day \<and> day \<le> 31"
  by (cases "civil_from_days days") (simp add: civil_days_inverse)

subsection \<open>Ids\<close>

lemma civil_year_bound:
  assumes "0 \<le> days" and "days < 2932897" and "civil_from_days days = (year, month, day)"
  shows "0 \<le> year" and "year < 10000"
proof -
  define shifted where "shifted = days + DAYS_TO_UNIX_EPOCH"
  define era where "era = shifted div DAYS_PER_ERA"
  define doe where "doe = shifted - era * DAYS_PER_ERA"
  define yoe where "yoe = year_of_day doe"
  define doy where "doy = doe - year_start yoe"
  define mp where "mp = (5 * doy + 2) div 153"
  note c = civil_from_days_shape [of days, folded shifted_def, folded era_def, folded doe_def, folded yoe_def,
      folded doy_def, folded mp_def]
  have y: "year = (if 10 \<le> mp then yoe + era * 400 + 1 else yoe + era * 400)" using assms(3) c(1) by simp
  have sh: "719468 \<le> shifted" "shifted < 3652365" using assms(1,2) by (simp_all add: shifted_def DAYS_TO_UNIX_EPOCH_def)
  then have "719468 div 146097 \<le> era" unfolding era_def DAYS_PER_ERA_def by (intro zdiv_mono1) simp_all
  then have lo: "4 \<le> era" by simp
  have "era \<le> 3652364 div 146097" unfolding era_def DAYS_PER_ERA_def using sh by (intro zdiv_mono1) simp_all
  then have hi: "era \<le> 24" by simp
  show "0 \<le> year" using y c(2) lo by (auto split: if_splits)
  show "year < 10000"
  proof (cases "era = 24 \<and> yoe = 399")
    case True
    then have "doe < 146037" using sh by (simp add: doe_def DAYS_PER_ERA_def)
    moreover have "doe = year_start yoe + doy" by (simp add: doy_def)
    ultimately have "doy < 306" using True by (simp add: year_start_def)
    then have "mp < 10" unfolding mp_def by linarith
    with y True show ?thesis by simp
  next
    case False
    with y c(3) hi show ?thesis by (auto split: if_splits)
  qed
qed

lemma digit_no_continuation: "is_ascii_digit c \<Longrightarrow> \<not> is_continuation c"
  by (auto simp: is_ascii_digit_def is_continuation_def)

lemma list2: "length s = 2 \<Longrightarrow> \<exists>a b. s = [a, b]"
  by (auto simp: numeral_eq_Suc length_Suc_conv)

lemma list4: "length s = 4 \<Longrightarrow> \<exists>a b c d. s = [a, b, c, d]"
  by (auto simp: numeral_eq_Suc length_Suc_conv)

lemma parse_stamp:
  assumes "list_all is_ascii_digit (Y @ M @ D @ h @ m @ sec)"
    and len: "length Y = 4" "length M = 2" "length D = 2" "length h = 2" "length m = 2" "length sec = 2"
    and v: "1 \<le> digits_value M" "digits_value M \<le> 12" "1 \<le> digits_value D"
    and days: "0 \<le> days_from_civil (int (digits_value Y)) (int (digits_value M)) (int (digits_value D))"
    and bnd: "digits_value Y < 2 ^ 64" "digits_value M < 2 ^ 64" "digits_value D < 2 ^ 64"
      "digits_value h < 2 ^ 64" "digits_value m < 2 ^ 64" "digits_value sec < 2 ^ 64"
  shows "parse_id (Y @ M @ D @ ''T'' @ h @ m @ sec @ ''Z'' @ ''-'' @ label) =
    Some (Some (nat (days_from_civil (int (digits_value Y)) (int (digits_value M)) (int (digits_value D)) * SECS_PER_DAY +
      int (digits_value h) * SECS_PER_HOUR + int (digits_value m) * SECS_PER_MINUTE + int (digits_value sec)), label))"
proof -
  obtain y0 y1 y2 y3 where Y: "Y = [y0, y1, y2, y3]" using list4 [OF len(1)] by blast
  obtain M0 M1 D0 D1 h0 h1 m0 m1 s0 s1 where
    o: "M = [M0, M1]" "D = [D0, D1]" "h = [h0, h1]" "m = [m0, m1]" "sec = [s0, s1]"
    using list2 [OF len(2)] list2 [OF len(3)] list2 [OF len(4)] list2 [OF len(5)] list2 [OF len(6)] by metis
  have ds: "is_ascii_digit y0" "is_ascii_digit M0" "is_ascii_digit D0" "is_ascii_digit h0" "is_ascii_digit m0" "is_ascii_digit s0"
    using assms(1) by (simp_all add: Y o)
  note nc = ds [THEN digit_no_continuation]
  let ?st = "[y0, y1, y2, y3, M0, M1, D0, D1, CHR ''T'', h0, h1, m0, m1, s0, s1, CHR ''Z'']"
  have T: "\<not> is_continuation (CHR ''T'')" "\<not> is_continuation (CHR ''Z'')" "\<not> is_continuation (CHR ''-'')"
    by (simp_all add: is_continuation_def)
  have slices: "str_slice ?st 0 4 = Some Y" "str_slice ?st 4 6 = Some M" "str_slice ?st 6 8 = Some D"
    "str_slice ?st 9 11 = Some h" "str_slice ?st 11 13 = Some m" "str_slice ?st 13 15 = Some sec"
    using nc T by (simp_all add: str_slice_def is_char_boundary_def Y o numeral_eq_Suc)
  have nums: "num_at ?st 0 4 = Some (Some (digits_value Y))" "num_at ?st 4 6 = Some (Some (digits_value M))"
    "num_at ?st 6 8 = Some (Some (digits_value D))" "num_at ?st 9 11 = Some (Some (digits_value h))"
    "num_at ?st 11 13 = Some (Some (digits_value m))" "num_at ?st 13 15 = Some (Some (digits_value sec))"
    using assms(1) bnd unfolding num_at_def slices
    by (simp_all add: parse_digits Y o del: power_numeral)
  have tk: "take TIMESTAMP_LEN (?st @ CHR ''-'' # label) = ?st" "drop TIMESTAMP_LEN (?st @ CHR ''-'' # label) = CHR ''-'' # label"
    by (simp_all add: TIMESTAMP_LEN_def)
  have bd: "is_char_boundary (?st @ CHR ''-'' # label) TIMESTAMP_LEN" "\<not> length (?st @ CHR ''-'' # label) < TIMESTAMP_LEN"
    using T by (simp_all add: is_char_boundary_def TIMESTAMP_LEN_def numeral_eq_Suc)
  have str: "Y @ M @ D @ ''T'' @ h @ m @ sec @ ''Z'' @ ''-'' @ label = ?st @ CHR ''-'' # label" by (simp add: Y o)
  have TZ: "?st ! 8 = CHR ''T''" "?st ! 15 = CHR ''Z''" by (simp_all add: numeral_eq_Suc)
  show ?thesis
    unfolding str parse_id_def Let_def tk nums and_then.simps using bd TZ v days
    by (simp add: tk nums del: and_then.simps)
qed

lemma split_unix_time:
  fixes t :: int
  shows "(t mod 86400) div 3600 * 3600 + (t mod 86400) mod 3600 div 60 * 60 + (t mod 86400) mod 60 = t mod 86400"
    and "0 \<le> (t mod 86400) div 3600" "(t mod 86400) div 3600 < 24"
    and "0 \<le> (t mod 86400) mod 3600 div 60" "(t mod 86400) mod 3600 div 60 < 60"
    and "0 \<le> (t mod 86400) mod 60" "(t mod 86400) mod 60 < 60"
proof -
  define r where "r = t mod 86400"
  have r: "0 \<le> r" "r < 86400" by (simp_all add: r_def)
  have "r mod 3600 mod 60 = r mod 60" by (simp add: mod_mod_cancel)
  moreover have "r div 3600 * 3600 + r mod 3600 = r" "r mod 3600 div 60 * 60 + r mod 3600 mod 60 = r mod 3600"
    by simp_all
  ultimately show "(t mod 86400) div 3600 * 3600 + (t mod 86400) mod 3600 div 60 * 60 + (t mod 86400) mod 60 = t mod 86400"
    unfolding r_def [symmetric] by linarith
  show "0 \<le> (t mod 86400) div 3600" "(t mod 86400) div 3600 < 24" using r unfolding r_def [symmetric] by linarith+
  have "0 \<le> r mod 3600" "r mod 3600 < 3600" by simp_all
  then show "0 \<le> (t mod 86400) mod 3600 div 60" "(t mod 86400) mod 3600 div 60 < 60"
    unfolding r_def [symmetric] by linarith+
qed simp_all

lemma parse_formatted:
  assumes "t < 253402300800"
  shows "parse_id (format_compact_timestamp (int t) @ ''-'' @ label) = Some (Some (t, label))"
proof -
  let ?t = "int t"
  obtain year month day where c: "civil_from_days (?t div 86400) = (year, month, day)" by (metis prod_cases3)
  have d: "0 \<le> ?t div 86400" "?t div 86400 < 2932897" using assms by simp_all
  note y = civil_year_bound [OF d c] and inv = civil_days_inverse [OF c]
  define h m sec where "h = nat (?t mod 86400 div 3600)" and "m = nat (?t mod 86400 mod 3600 div 60)"
    and "sec = nat (?t mod 86400 mod 60)"
  have hms: "int h = ?t mod 86400 div 3600" "int m = ?t mod 86400 mod 3600 div 60" "int sec = ?t mod 86400 mod 60"
    using split_unix_time(2,4,6) [of ?t] by (simp_all add: h_def m_def sec_def)
  have "int h < 100" "int m < 100" "int sec < 100"
    unfolding hms using split_unix_time(3,5,7) [of ?t] by linarith+
  then have small: "h < 10 ^ 2" "m < 10 ^ 2" "sec < 10 ^ 2" by simp_all
  have Y: "nat year < 10 ^ 4" "nat month < 10 ^ 2" "nat day < 10 ^ 2" using y inv by simp_all
  note p = padded_props [OF Y(1) zero_less_numeral] padded_props [OF Y(2) zero_less_numeral]
    padded_props [OF Y(3) zero_less_numeral] padded_props [OF small(1) zero_less_numeral]
    padded_props [OF small(2) zero_less_numeral] padded_props [OF small(3) zero_less_numeral]
  have inverse: "days_from_civil (int (nat year)) (int (nat month)) (int (nat day)) = ?t div 86400"
    using inv y by simp
  have total: "?t div 86400 * SECS_PER_DAY + int h * SECS_PER_HOUR + int m * SECS_PER_MINUTE + int sec = ?t"
    unfolding hms SECS_PER_DAY_def SECS_PER_HOUR_def SECS_PER_MINUTE_def
    using split_unix_time(1) [of ?t] div_mult_mod_eq [of ?t 86400] by linarith
  have big: "nat year < 2 ^ 64" "nat month < 2 ^ 64" "nat day < 2 ^ 64" "h < 2 ^ 64" "m < 2 ^ 64" "sec < 2 ^ 64"
    using Y small by simp_all
  have ds: "list_all is_ascii_digit (padded 4 (nat year) @ padded 2 (nat month) @ padded 2 (nat day) @ padded 2 h @
      padded 2 m @ padded 2 sec)"
    by (simp only: list_all_append p)
  have md: "1 \<le> nat month" "nat month \<le> 12" "1 \<le> nat day" using inv by simp_all
  have "parse_id (padded 4 (nat year) @ padded 2 (nat month) @ padded 2 (nat day) @ ''T'' @ padded 2 h @ padded 2 m @
      padded 2 sec @ ''Z'' @ ''-'' @ label) = Some (Some (nat ?t, label))"
    using parse_stamp [OF ds p(1,4,7,10,13,16), unfolded p(3,6,9,12,15,18) inverse total, OF md d(1) big] .
  moreover have "format_compact_timestamp ?t @ ''-'' @ label =
      padded 4 (nat year) @ padded 2 (nat month) @ padded 2 (nat day) @ ''T'' @ padded 2 h @ padded 2 m @
      padded 2 sec @ ''Z'' @ ''-'' @ label"
    by (simp add: format_compact_timestamp_def split_unix_def c SECS_PER_DAY_def SECS_PER_HOUR_def SECS_PER_MINUTE_def
        h_def m_def sec_def Let_def)
  ultimately show ?thesis by simp
qed

text \<open>
  C32: a record id tells when the upload was recorded and under which label: parsing the id
  built from a time before the year 10000 and any label returns exactly that time and that
  label, and does not panic.
\<close>

theorem record_id_round_trip:
  assumes "t < 253402300800"
  shows "parse_id (format_compact_timestamp (int t) @ ''-'' @ label) = Some (Some (t, label))"
  using assms by (rule parse_formatted)

theorem record_id_round_trip_witness:
  "parse_id (format_compact_timestamp (int 1791295391) @ ''-'' @ ''holiday-photos'') =
     Some (Some (1791295391, ''holiday-photos''))"
  by (rule record_id_round_trip) simp

text \<open>
  Parsing a file name can panic: the eight bytes before the letter T may hold a
  two-byte character across the end of the year field, and slicing the year there is not
  at a character boundary. One such file in the history directory makes listing it panic.
\<close>

theorem parse_id_panics_on_a_multibyte_name:
  "parse_id ([CHR ''a'', CHR ''b'', CHR ''c'', CHR 0xC3, CHR 0xA9, CHR ''d'', CHR ''e'', CHR ''f''] @
     ''T000000Z-photos'') = None"
proof -
  let ?st = "[CHR ''a'', CHR ''b'', CHR ''c'', CHR 0xC3, CHR 0xA9, CHR ''d'', CHR ''e'', CHR ''f'', CHR ''T'',
    CHR ''0'', CHR ''0'', CHR ''0'', CHR ''0'', CHR ''0'', CHR ''0'', CHR ''Z'']"
  let ?rid = "?st @ CHR ''-'' # ''photos''"
  have c: "is_continuation (CHR 0xA9)" "\<not> is_continuation (CHR ''-'')" by (simp_all add: is_continuation_def)
  then have "str_slice ?st 0 4 = None" by (simp add: str_slice_def is_char_boundary_def numeral_eq_Suc)
  then have num: "num_at ?st 0 4 = None" by (simp add: num_at_def)
  have tk: "take TIMESTAMP_LEN ?rid = ?st" "drop TIMESTAMP_LEN ?rid = CHR ''-'' # ''photos''"
    by (simp_all add: TIMESTAMP_LEN_def)
  have bd: "is_char_boundary ?rid TIMESTAMP_LEN" "\<not> length ?rid < TIMESTAMP_LEN"
    using c by (simp_all add: is_char_boundary_def TIMESTAMP_LEN_def numeral_eq_Suc)
  have TZ: "?st ! 8 = CHR ''T''" "?st ! 15 = CHR ''Z''" by (simp_all add: numeral_eq_Suc)
  have "parse_id ?rid = None"
    unfolding parse_id_def Let_def tk num and_then.simps using bd TZ by (simp add: tk num del: append.simps)
  then show ?thesis by simp
qed

subsection \<open>Allocating ids\<close>

text \<open>A directory is the set of ids it holds; a write without overwriting refuses a taken one.\<close>

definition dir_write :: "string \<Rightarrow> string set \<Rightarrow> write_outcome \<times> string set" where
  "dir_write rid taken = (if rid \<in> taken then (AlreadyExists, taken) else (Written, insert rid taken))"

lemma record_attempts_first_free:
  "record_attempts dir_write at_time label base k n taken =
    (case find (\<lambda>j. attempt_id base j \<notin> taken) [k..<k + n] of
       Some j \<Rightarrow> (Inr \<lparr>ur_id = attempt_id base j, ur_recorded_at = at_time, ur_label = label\<rparr>,
                  insert (attempt_id base j) taken)
     | None \<Rightarrow> (Inl Build, taken))"
proof (induction n arbitrary: k)
  case (Suc n)
  have u: "[k..<k + Suc n] = k # [Suc k..<Suc k + n]" by (simp add: upt_conv_Cons)
  show ?case
  proof (cases "attempt_id base k \<in> taken")
    case True
    then show ?thesis unfolding u find.simps record_attempts.simps dir_write_def [of "attempt_id base k"]
      using Suc [of "Suc k"] by (simp del: upt_Suc)
  next
    case False
    then show ?thesis unfolding u find.simps record_attempts.simps by (simp del: upt_Suc add: dir_write_def)
  qed
qed simp

text \<open>
  Recording an upload never overwrites another record. On a directory holding the ids
  \<open>taken\<close> it stores under the first free id of the base, its suffixes 2 to 1000 in order,
  adds exactly that id, and fails without writing when all are taken.
\<close>

theorem record_upload_takes_first_free_id:
  "let base = format_compact_timestamp (int at_time) @ ''-'' @ sanitize_label (record_label label name)
   in case record_upload dir_write at_time label name taken of
        (Inr r, taken') \<Rightarrow> \<exists>j < 1000. ur_id r = attempt_id base j \<and> attempt_id base j \<notin> taken \<and>
           (\<forall>i < j. attempt_id base i \<in> taken) \<and> taken' = insert (ur_id r) taken \<and> ur_recorded_at r = at_time
      | (Inl e, taken') \<Rightarrow> taken' = taken \<and> (\<forall>i < 1000. attempt_id base i \<in> taken)"
proof -
  define base where "base = format_compact_timestamp (int at_time) @ ''-'' @ sanitize_label (record_label label name)"
  have ru: "record_upload dir_write at_time label name taken =
      record_attempts dir_write at_time (sanitize_label (record_label label name)) base 0 1000 taken"
    by (simp add: record_upload_def record_label_def base_def MAX_ID_ATTEMPTS_def Let_def)
  show ?thesis
  proof (cases "find (\<lambda>j. attempt_id base j \<notin> taken) [0..<0 + 1000]")
    case None
    then have "\<forall>i < 1000. attempt_id base i \<in> taken" by (simp add: find_None_iff)
    with None show ?thesis unfolding ru record_attempts_first_free Let_def base_def [symmetric] by simp
  next
    case (Some j)
    then obtain i where "i < 1000" "j = i" "attempt_id base j \<notin> taken" "\<forall>k < i. attempt_id base k \<in> taken"
      by (auto simp: find_Some_iff)
    with Some show ?thesis unfolding ru record_attempts_first_free Let_def base_def [symmetric] by auto
  qed
qed

theorem record_upload_takes_first_free_id_witness:
  "case record_upload dir_write 0 None (Some (map of_char ''photos'')) {''19700101T000000Z-photos''} of
     (Inr r, taken') \<Rightarrow> ''19700101T000000Z-photos'' \<in> taken' \<and> ur_id r \<in> taken' \<and>
       ur_id r \<noteq> ''19700101T000000Z-photos''
   | (Inl e, taken') \<Rightarrow> False"
proof -
  have base: "format_compact_timestamp (int 0) @ ''-'' @ sanitize_label (record_label None (Some (map of_char ''photos''))) =
      ''19700101T000000Z-photos''"
    by code_simp
  have "attempt_id ''19700101T000000Z-photos'' 1 \<notin> {''19700101T000000Z-photos''}" by (simp add: attempt_id_def)
  then have "\<not> (\<forall>i < 1000. attempt_id ''19700101T000000Z-photos'' i \<in> {''19700101T000000Z-photos''})"
    by (metis one_less_numeral_iff semiring_norm(76))
  with record_upload_takes_first_free_id [of 0 None "Some (map of_char ''photos'')" "{''19700101T000000Z-photos''}"]
  show ?thesis unfolding base Let_def by (auto split: prod.splits sum.splits)
qed

end
