(* ===== verification/Quote_Validation.thy ===== *)
theory Quote_Validation
  imports Prelude
begin

text \<open>
  The resolve-before-pay gate, \<^verbatim>\<open>ant-core/src/quote_validation.rs\<close>: the checks a quote
  passes before the client pays for it. The hash, the price table, the limits and the signed
  commitments belong to the protocol crates and are the operations of \<open>quote_api\<close>. The texts
  of the rejections are named by \<open>commitment_fault\<close> and \<open>binding_fault\<close>, one constructor per
  early return.
\<close>

record ('p, 'c) quote_api =
  blake3 :: "bytes \<Rightarrow> key"
  ML_DSA_PUB_KEY_LEN :: nat
  for_key_count :: "nat \<Rightarrow> 'p"
  MAX_KEY_COUNT :: nat
  MAX_SIDECAR_BYTES :: nat
  from_slice :: "bytes \<Rightarrow> 'c option"
  c_peer :: "'c \<Rightarrow> key"
  c_public_key :: "'c \<Rightarrow> bytes"
  c_key_count :: "'c \<Rightarrow> nat"
  c_verify_signature :: "'c \<Rightarrow> bool"
  c_hash :: "'c \<Rightarrow> key option"

record 'p quote_fields =
  qf_public_key :: bytes
  qf_content :: key
  qf_price :: 'p
  qf_committed_key_count :: nat
  qf_commitment_pin :: "key option"

datatype binding_fault = WrongPublicKey | WrongContent | WrongSignature

datatype commitment_fault =
    Unauditable
  | IncoherentBaseline
  | TooManyKeys
  | WrongPrice
  | NotShipped
  | Oversized
  | Undecodable
  | NotBoundToPeer
  | InvalidSignature
  | WrongPin
  | WrongKeyCount

datatype quote_validation_error = Binding binding_fault | Commitment commitment_fault

definition peer_binding_is_valid :: "('p, 'c) quote_api \<Rightarrow> key \<Rightarrow> bytes \<Rightarrow> bool" where
  "peer_binding_is_valid api peer public_key \<longleftrightarrow>
     length public_key = ML_DSA_PUB_KEY_LEN api \<and> blake3 api public_key = peer"

definition validate_commitment_binding ::
  "('p, 'c) quote_api \<Rightarrow> key \<Rightarrow> 'p quote_fields \<Rightarrow> bytes option \<Rightarrow> (commitment_fault, unit) result" where
  "validate_commitment_binding api peer q sidecar =
     (let cnt = qf_committed_key_count q; pin = qf_commitment_pin q
      in if 0 < cnt \<and> pin = None then Inl Unauditable
         else if cnt = 0 \<and> pin \<noteq> None then Inl IncoherentBaseline
         else if MAX_KEY_COUNT api < cnt then Inl TooManyKeys
         else if qf_price q \<noteq> for_key_count api cnt then Inl WrongPrice
         else (case pin of
                 None \<Rightarrow> Inr ()
               | Some p \<Rightarrow>
                   (case sidecar of
                      None \<Rightarrow> Inl NotShipped
                    | Some blob \<Rightarrow>
                        if MAX_SIDECAR_BYTES api < length blob then Inl Oversized
                        else (case from_slice api blob of
                                None \<Rightarrow> Inl Undecodable
                              | Some c \<Rightarrow>
                                  if blake3 api (c_public_key api c) \<noteq> peer \<or> c_peer api c \<noteq> peer
                                  then Inl NotBoundToPeer
                                  else if \<not> c_verify_signature api c then Inl InvalidSignature
                                  else if c_hash api c \<noteq> Some p then Inl WrongPin
                                  else if c_key_count api c \<noteq> cnt then Inl WrongKeyCount
                                  else Inr ()))))"

definition validate_quote ::
  "('p, 'c) quote_api \<Rightarrow> key \<Rightarrow> key \<Rightarrow> 'p quote_fields \<Rightarrow> bool \<Rightarrow> bytes option \<Rightarrow>
     (quote_validation_error, unit) result" where
  "validate_quote api peer expected_content q verify_signature sidecar =
     (if \<not> peer_binding_is_valid api peer (qf_public_key q) then Inl (Binding WrongPublicKey)
      else if qf_content q \<noteq> expected_content then Inl (Binding WrongContent)
      else if \<not> verify_signature then Inl (Binding WrongSignature)
      else map_err Commitment (validate_commitment_binding api peer q sidecar))"

subsection \<open>What acceptance means\<close>

text \<open>
  The evidence behind a bound quote: a commitment that decodes from the shipped bytes, is
  signed by the quoting peer, hashes to the pin and attests the count.
\<close>

definition attests :: "('p, 'c) quote_api \<Rightarrow> key \<Rightarrow> bytes option \<Rightarrow> key \<Rightarrow> nat \<Rightarrow> 'c \<Rightarrow> bool" where
  "attests api peer sidecar p cnt c \<longleftrightarrow>
     (\<exists>blob. sidecar = Some blob \<and> length blob \<le> MAX_SIDECAR_BYTES api \<and> from_slice api blob = Some c) \<and>
     blake3 api (c_public_key api c) = peer \<and> c_peer api c = peer \<and> c_verify_signature api c \<and>
     c_hash api c = Some p \<and> c_key_count api c = cnt"

lemma commitment_binding_ok:
  "validate_commitment_binding api peer q sidecar = Inr () \<longleftrightarrow>
     qf_committed_key_count q \<le> MAX_KEY_COUNT api \<and>
     qf_price q = for_key_count api (qf_committed_key_count q) \<and>
     (case qf_commitment_pin q of
        None \<Rightarrow> qf_committed_key_count q = 0
      | Some p \<Rightarrow> 0 < qf_committed_key_count q \<and>
          (\<exists>c. attests api peer sidecar p (qf_committed_key_count q) c))"
  by (auto simp: validate_commitment_binding_def Let_def attests_def split: option.splits)

lemma validate_quote_ok:
  "validate_quote api peer address q sig sidecar = Inr () \<longleftrightarrow>
     length (qf_public_key q) = ML_DSA_PUB_KEY_LEN api \<and> blake3 api (qf_public_key q) = peer \<and>
     qf_content q = address \<and> sig \<and> validate_commitment_binding api peer q sidecar = Inr ()"
  by (auto simp: validate_quote_def peer_binding_is_valid_def results)

text \<open>
  One pin, one price. If the hash of commitments is collision free, any two quotes the
  gate accepts under the same commitment pin, from any peers and for any addresses, come from
  the same peer and ask the same price: the price is the protocol's price of the number of
  keys that peer signed for.
\<close>

theorem one_pin_one_price:
  assumes accepted: "validate_quote api peer address q sig sidecar = Inr ()"
      "validate_quote api peer' address' q' sig' sidecar' = Inr ()"
    and pinned: "qf_commitment_pin q = Some p" "qf_commitment_pin q' = Some p"
    and collision_free: "\<And>c c'. c_hash api c = Some p \<Longrightarrow> c_hash api c' = Some p \<Longrightarrow> c = c'"
  shows "peer = peer' \<and> qf_price q = qf_price q' \<and>
    qf_price q = for_key_count api (qf_committed_key_count q)"
proof -
  from accepted(1) pinned(1) obtain c where c: "attests api peer sidecar p (qf_committed_key_count q) c"
    and price: "qf_price q = for_key_count api (qf_committed_key_count q)"
    by (auto simp: validate_quote_ok commitment_binding_ok)
  from accepted(2) pinned(2) obtain c' where c': "attests api peer' sidecar' p (qf_committed_key_count q') c'"
    and price': "qf_price q' = for_key_count api (qf_committed_key_count q')"
    by (auto simp: validate_quote_ok commitment_binding_ok)
  have "c = c'" using c c' by (intro collision_free) (simp_all add: attests_def)
  with c c' have "peer = peer'" "qf_committed_key_count q = qf_committed_key_count q'"
    by (auto simp: attests_def)
  with price price' show ?thesis by simp
qed

text \<open>A protocol whose commitments are their pin, key count and key.\<close>

definition plain_quote_api :: "(nat, key \<times> nat) quote_api" where
  "plain_quote_api =
     \<lparr>blake3 = (\<lambda>b. take 2 b), ML_DSA_PUB_KEY_LEN = 3, for_key_count = (\<lambda>n. 10 * n), MAX_KEY_COUNT = 100,
      MAX_SIDECAR_BYTES = 8, from_slice = (\<lambda>b. Some (take 2 b, length b)),
      c_peer = fst, c_public_key = fst, c_key_count = snd, c_verify_signature = (\<lambda>_. True),
      c_hash = (\<lambda>(k, n). if length k = 2 then Some (k @ replicate n 0) else None)\<rparr>"

theorem one_pin_one_price_witness:
  "validate_quote plain_quote_api [1, 2] [9]
     \<lparr>qf_public_key = [1, 2, 3], qf_content = [9], qf_price = 40, qf_committed_key_count = 4,
      qf_commitment_pin = Some [1, 2, 0, 0, 0, 0]\<rparr> True (Some [1, 2, 0, 0]) = Inr () \<and>
   (40 :: nat) = for_key_count plain_quote_api 4"
proof -
  let ?q = "\<lparr>qf_public_key = [1, 2, 3], qf_content = [9], qf_price = 40, qf_committed_key_count = 4,
      qf_commitment_pin = Some [1, 2, 0, 0, 0, 0]\<rparr> :: nat quote_fields"
  have ok: "validate_quote plain_quote_api [1, 2] [9] ?q True (Some [1, 2, 0, 0]) = Inr ()"
    by (simp add: validate_quote_def peer_binding_is_valid_def validate_commitment_binding_def plain_quote_api_def)
  have inj: "c = c'" if "c_hash plain_quote_api c = Some [1, 2, 0, 0, 0, 0]"
      "c_hash plain_quote_api c' = Some [1, 2, 0, 0, 0, 0]" for c c'
  proof -
    have "length (fst c) = 2 \<and> fst c @ replicate (snd c) 0 = [1, 2, 0, 0, 0, 0]"
      "length (fst c') = 2 \<and> fst c' @ replicate (snd c') 0 = [1, 2, 0, 0, 0, 0]"
      using that by (auto simp: plain_quote_api_def split: prod.splits if_splits)
    then show ?thesis by (metis append_eq_append_conv length_replicate prod_eqI)
  qed
  have "qf_price ?q = for_key_count plain_quote_api (qf_committed_key_count ?q)"
    using one_pin_one_price [OF ok ok _ _ inj] by simp
  with ok show ?thesis by simp
qed

end
