(* ===== verification/Merkle_Plan.thy ===== *)
theory Merkle_Plan
  imports Quote_Validation Data_Error Payment_Policy
begin

text \<open>
  Planning merkle payments, \<^verbatim>\<open>ant-core/src/data/client/merkle.rs\<close> up to the prepared
  batch, with the settlement refusals of \<^verbatim>\<open>ant-core/src/data/client/mod.rs\<close>: when
  merkle payments are used, how addresses are cut into trees, what is billed, the preflight
  over stored chunks, the collection of candidate pools and the preparation of a batch.

  \<^verbatim>\<open>MAX_LEAVES\<close> and \<^verbatim>\<open>CANDIDATES_PER_POOL\<close> are constants of the protocol crate;
  with the tree, its proofs and the pools they are fields of \<open>merkle_api\<close>. Concurrent requests
  enter as the list of their results in the order they complete.
\<close>

definition DEFAULT_MERKLE_THRESHOLD :: nat where "DEFAULT_MERKLE_THRESHOLD = 64"
definition SETTLEMENT_REFUSAL_QUORUM :: nat where "SETTLEMENT_REFUSAL_QUORUM = 2"

type_synonym amount_word = "256 word"

datatype payment_mode = Auto | Merkle | Single

subsection \<open>Settlement refusals\<close>

record settlement_refusals =
  sr_peers :: "key set"
  sr_wording :: "string option"

definition no_refusals :: settlement_refusals where
  "no_refusals = \<lparr>sr_peers = {}, sr_wording = None\<rparr>"

definition corroborated :: "settlement_refusals \<Rightarrow> string option" where
  "corroborated r = (if SETTLEMENT_REFUSAL_QUORUM \<le> card (sr_peers r) then sr_wording r else None)"

definition note_refusal :: "settlement_refusals \<Rightarrow> key \<Rightarrow> string \<Rightarrow> string option \<times> settlement_refusals" where
  "note_refusal r peer message =
     (let r' = r\<lparr>sr_peers := insert peer (sr_peers r),
                 sr_wording := (case sr_wording r of None \<Rightarrow> Some message | Some w \<Rightarrow> Some w)\<rparr>
      in (corroborated r', r'))"

definition settlement_refusal_error :: "nat \<Rightarrow> nat \<Rightarrow> nat \<Rightarrow> error" where
  "settlement_refusal_error current client_version min_version =
     (if client_version \<noteq> current \<or> min_version \<le> client_version then Protocol else ClientUpdateRequired)"

subsection \<open>Batches and billing\<close>

definition should_use_merkle :: "nat \<Rightarrow> payment_mode \<Rightarrow> bool" where
  "should_use_merkle chunk_count mode =
     (case mode of
        Auto \<Rightarrow> DEFAULT_MERKLE_THRESHOLD \<le> chunk_count
      | Merkle \<Rightarrow> 2 \<le> chunk_count
      | Single \<Rightarrow> False)"

text \<open>The loop runs with a cap of at least three; the guard on the cap only makes it total.\<close>

function batch_loop :: "nat \<Rightarrow> nat \<Rightarrow> nat list" where
  "batch_loop cap remaining =
     (if cap < remaining \<and> 2 \<le> cap then
        let taken = (if remaining - cap = 1 then cap - 1 else cap)
        in taken # batch_loop cap (remaining - taken)
      else [remaining])"
  by pat_completeness auto

termination batch_loop
  by (relation "measure snd") (auto split: if_splits)

declare batch_loop.simps [simp del]

definition merkle_batch_sizes_with_cap :: "nat \<Rightarrow> nat \<Rightarrow> nat \<Rightarrow> nat list" where
  "merkle_batch_sizes_with_cap max_leaves count_all cap =
     (if count_all < 2 then [] else batch_loop (min (max cap 3) max_leaves) count_all)"

definition merkle_batch_sizes :: "nat \<Rightarrow> nat \<Rightarrow> nat list" where
  "merkle_batch_sizes max_leaves count_all = merkle_batch_sizes_with_cap max_leaves count_all max_leaves"

fun split_sizes :: "nat list \<Rightarrow> 'a list \<Rightarrow> 'a list list" where
  "split_sizes [] rest = []"
| "split_sizes (n # ns) rest = take n rest # split_sizes ns (drop n rest)"

definition merkle_batch_partitions_with_cap :: "nat \<Rightarrow> 'a list \<Rightarrow> nat \<Rightarrow> 'a list list" where
  "merkle_batch_partitions_with_cap max_leaves addresses cap =
     split_sizes (merkle_batch_sizes_with_cap max_leaves (length addresses) cap) addresses"

definition merkle_batch_partitions :: "nat \<Rightarrow> 'a list \<Rightarrow> 'a list list" where
  "merkle_batch_partitions max_leaves addresses = merkle_batch_partitions_with_cap max_leaves addresses max_leaves"

function next_pow :: "nat \<Rightarrow> nat \<Rightarrow> nat" where
  "next_pow p n = (if 0 < p \<and> p < n then next_pow (2 * p) n else p)"
  by pat_completeness auto

termination next_pow
  by (relation "measure (\<lambda>(p, n). n - p)") auto

declare next_pow.simps [simp del]

definition checked_next_power_of_two :: "nat \<Rightarrow> nat option" where
  "checked_next_power_of_two n = (let p = next_pow 1 n in if p \<le> usize_max then Some p else None)"

definition padded_leaf_count :: "nat \<Rightarrow> nat" where
  "padded_leaf_count batch_size =
     (case checked_next_power_of_two (max batch_size 2) of Some p \<Rightarrow> p | None \<Rightarrow> usize_max)"

definition merkle_billable_leaves :: "nat \<Rightarrow> nat \<Rightarrow> nat" where
  "merkle_billable_leaves max_leaves chunk_count =
     (let batches = merkle_batch_sizes max_leaves chunk_count
      in if batches = [] then (if chunk_count = 0 then 0 else 2)
         else foldl sat_add 0 (map padded_leaf_count batches))"

definition ensure_single_merkle_tree_batch :: "nat \<Rightarrow> nat \<Rightarrow> (error, unit) result" where
  "ensure_single_merkle_tree_batch max_leaves address_count =
     (if max_leaves < address_count then Inl (MerkleBatchTooLarge address_count max_leaves) else Inr ())"

subsection \<open>Every batch is a tree\<close>

lemma batch_loop_spec:
  assumes "3 \<le> cap" and "2 \<le> n"
  shows "sum_list (batch_loop cap n) = n \<and> (\<forall>k \<in> set (batch_loop cap n). 2 \<le> k \<and> k \<le> cap)"
  using assms
proof (induction cap n rule: batch_loop.induct)
  case (1 cap n)
  show ?case
  proof (cases "cap < n")
    case True
    define taken where "taken = (if n - cap = 1 then cap - 1 else cap)"
    have t: "2 \<le> taken" "taken \<le> cap" "2 \<le> n - taken" "taken \<le> n"
      using True "1.prems" by (auto simp: taken_def)
    have "batch_loop cap n = taken # batch_loop cap (n - taken)"
      using True "1.prems" by (subst batch_loop.simps) (simp add: taken_def Let_def)
    moreover have "sum_list (batch_loop cap (n - taken)) = n - taken \<and>
        (\<forall>k \<in> set (batch_loop cap (n - taken)). 2 \<le> k \<and> k \<le> cap)"
      by (rule "1.IH" [OF _ taken_def]) (use True "1.prems" t in auto)
    ultimately show ?thesis using t by simp
  next
    case False
    with "1.prems" show ?thesis by (subst (1 2) batch_loop.simps) simp
  qed
qed

lemma split_sizes_concat:
  "sum_list ns = length xs \<Longrightarrow> concat (split_sizes ns xs) = xs \<and> map length (split_sizes ns xs) = ns"
  by (induction ns arbitrary: xs) (auto simp: min_def)

lemma batches_are_trees:
  assumes "3 \<le> max_leaves" and "2 \<le> length addresses"
  shows "concat (merkle_batch_partitions_with_cap max_leaves addresses cap) = addresses \<and>
    (\<forall>b \<in> set (merkle_batch_partitions_with_cap max_leaves addresses cap).
       2 \<le> length b \<and> length b \<le> max cap 3 \<and> length b \<le> max_leaves)"
proof -
  let ?ns = "batch_loop (min (max cap 3) max_leaves) (length addresses)"
  have "3 \<le> min (max cap 3) max_leaves" using assms(1) by simp
  note spec = conjunct1 [OF batch_loop_spec [OF this assms(2)]] conjunct2 [OF batch_loop_spec [OF this assms(2)]]
  have parts: "merkle_batch_partitions_with_cap max_leaves addresses cap = split_sizes ?ns addresses"
    using assms(2) by (simp add: merkle_batch_partitions_with_cap_def merkle_batch_sizes_with_cap_def)
  note cut = split_sizes_concat [OF spec(1)]
  have "length b \<in> set ?ns" if "b \<in> set (split_sizes ?ns addresses)" for b
  proof -
    have "length b \<in> set (map length (split_sizes ?ns addresses))" using that by simp
    then show ?thesis by (simp only: conjunct2 [OF cut])
  qed
  then have "2 \<le> length b \<and> length b \<le> min (max cap 3) max_leaves" if "b \<in> set (split_sizes ?ns addresses)" for b
    using spec(2) that by blast
  then show ?thesis unfolding parts using conjunct1 [OF cut] by simp
qed

text \<open>
  Cutting addresses into merkle batches is exact for any count from two: put together in
  order the batches are the addresses, and every batch has at least the two leaves a tree needs
  and no more leaves than the cap and the protocol allow.
\<close>

theorem merkle_batches_are_trees:
  assumes "3 \<le> max_leaves" and "2 \<le> length addresses"
  shows "concat (merkle_batch_partitions_with_cap max_leaves addresses cap) = addresses \<and>
    (\<forall>b \<in> set (merkle_batch_partitions_with_cap max_leaves addresses cap).
       2 \<le> length b \<and> length b \<le> max cap 3 \<and> length b \<le> max_leaves)"
  using assms by (rule batches_are_trees)

theorem merkle_batches_are_trees_witness:
  "map length (merkle_batch_partitions_with_cap 256 (replicate 7 (0::nat)) 3) = [3, 2, 2] \<and>
   concat (merkle_batch_partitions_with_cap 256 (replicate 7 (0::nat)) 3) = replicate 7 0"
  using merkle_batches_are_trees [of 256 "replicate 7 (0::nat)" 3]
  by (simp add: merkle_batch_partitions_with_cap_def merkle_batch_sizes_with_cap_def batch_loop.simps numeral_eq_Suc)

subsection \<open>What a merkle upload is billed for\<close>

lemma next_pow_bounds:
  assumes "0 < p" and "p < 2 * n"
  shows "n \<le> next_pow p n \<and> next_pow p n < 2 * n"
  using assms
proof (induction p n rule: next_pow.induct)
  case (1 p n)
  then show ?case by (cases "p < n") (subst (1 2) next_pow.simps; simp)+
qed

lemma next_pow_power: "\<exists>k. next_pow (2 ^ j) n = 2 ^ k"
proof (induction "2 ^ j :: nat" n arbitrary: j rule: next_pow.induct)
  case (1 n)
  show ?case
  proof (cases "(2::nat) ^ j < n")
    case True
    with "1.hyps" [of "Suc j"] show ?thesis by (subst next_pow.simps) simp
  next
    case False
    then show ?thesis by (subst next_pow.simps) auto
  qed
qed

lemma padded_leaf_count_bounds:
  assumes "2 \<le> n" and "2 * n \<le> usize_max"
  shows "n \<le> padded_leaf_count n \<and> padded_leaf_count n < 2 * n \<and> (\<exists>k. padded_leaf_count n = 2 ^ k)"
proof -
  have b: "n \<le> next_pow 1 n" "next_pow 1 n < 2 * n" using next_pow_bounds [of 1 n] assms(1) by auto
  moreover have "padded_leaf_count n = next_pow 1 n"
    using b assms by (simp add: padded_leaf_count_def checked_next_power_of_two_def max_def)
  ultimately show ?thesis using next_pow_power [of 0 n] by auto
qed

lemma foldl_sat_add:
  "a + sum_list xs \<le> usize_max \<Longrightarrow> foldl sat_add a xs = a + sum_list xs"
  by (induction xs arbitrary: a) (auto simp: sat_add_exact add.assoc)

lemma sum_padded:
  assumes "\<forall>k \<in> set ns. 2 \<le> k \<and> 2 * k \<le> usize_max"
  shows "sum_list ns \<le> sum_list (map padded_leaf_count ns) \<and> sum_list (map padded_leaf_count ns) \<le> 2 * sum_list ns"
  using assms
proof (induction ns)
  case (Cons k ns)
  then show ?case using padded_leaf_count_bounds [of k] by simp
qed simp

text \<open>
  The leaves a merkle upload is quoted for never under-quote and at most double: they are
  the padded leaves of the batches that are really paid, each a power of two, and lie between
  the number of chunks and twice that number.
\<close>

theorem billable_leaves_cover_the_chunks:
  assumes "3 \<le> max_leaves" and "2 * chunk_count \<le> usize_max"
  shows "chunk_count \<le> merkle_billable_leaves max_leaves chunk_count \<and>
    merkle_billable_leaves max_leaves chunk_count \<le> 2 * chunk_count \<and>
    (2 \<le> chunk_count \<longrightarrow> merkle_billable_leaves max_leaves chunk_count =
       sum_list (map padded_leaf_count (merkle_batch_sizes max_leaves chunk_count)))"
proof (cases "chunk_count < 2")
  case True
  then have "chunk_count = 0 \<or> chunk_count = 1" by linarith
  then show ?thesis
    by (auto simp: merkle_billable_leaves_def merkle_batch_sizes_def merkle_batch_sizes_with_cap_def)
next
  case False
  define ns where "ns = batch_loop max_leaves chunk_count"
  have "max max_leaves 3 = max_leaves" using assms(1) by simp
  then have sizes: "merkle_batch_sizes max_leaves chunk_count = ns"
    using False by (simp add: merkle_batch_sizes_def merkle_batch_sizes_with_cap_def ns_def)
  have spec: "sum_list ns = chunk_count" "\<forall>k \<in> set ns. 2 \<le> k"
    using batch_loop_spec [OF assms(1), of chunk_count] False by (auto simp: ns_def)
  have "2 \<le> k \<and> 2 * k \<le> usize_max" if "k \<in> set ns" for k
    using member_le_sum_list [OF that] spec that assms(2) by simp
  then have "\<forall>k \<in> set ns. 2 \<le> k \<and> 2 * k \<le> usize_max" by simp
  note sums = sum_padded [OF this, unfolded spec(1)]
  have ne: "ns \<noteq> []" using spec(1) False by auto
  have "merkle_billable_leaves max_leaves chunk_count = sum_list (map padded_leaf_count ns)"
    using foldl_sat_add [of 0 "map padded_leaf_count ns"] sums assms(2) ne
    by (simp add: merkle_billable_leaves_def sizes Let_def)
  with sums sizes show ?thesis by simp
qed

theorem billable_leaves_cover_the_chunks_witness:
  "65 \<le> merkle_billable_leaves 256 65 \<and> merkle_billable_leaves 256 65 \<le> 130"
proof -
  have "2 * 65 \<le> usize_max" by (simp add: usize_max_def)
  then show ?thesis using billable_leaves_cover_the_chunks [of 256 65] by simp
qed

end
