(* ===== verification/Merkle_Pools.thy ===== *)
theory Merkle_Pools
  imports Merkle_Plan
begin

text \<open>
  Candidate pools and prepared batches, \<^verbatim>\<open>ant-core/src/data/client/merkle.rs\<close>: the gate a
  candidate passes, the reading of candidate replies with the fallback to unversioned requests,
  the collection of the closest valid candidates under settlement refusals, the preflight over
  stored chunks, the preparation of a batch and the check of a batch restored from a checkpoint.
\<close>

record candidate =
  cn_pub_key :: bytes
  cn_price :: amount_word
  cn_committed_key_count :: nat
  cn_commitment_pin :: "key option"
  cn_timestamp :: nat
  cn_signature :: bytes

record 'm pool =
  pl_midpoint :: 'm
  pl_candidates :: "candidate list"

record pool_commitment =
  pc_hash :: key
  pc_candidates :: "(key \<times> amount_word) list"

record ('c, 't, 'ap, 'm) merkle_api =
  ma_quotes :: "(amount_word, 'c) quote_api"
  compute_address :: "bytes \<Rightarrow> key"
  MAX_LEAVES :: nat
  CANDIDATES_PER_POOL :: nat
  CURRENT_SETTLEMENT_VERSION :: nat
  candidate_from_slice :: "bytes \<Rightarrow> candidate option"
  verify_merkle_candidate_signature :: "candidate \<Rightarrow> bool"
  xor_distance :: "key \<Rightarrow> key \<Rightarrow> key"
  from_xornames :: "key list \<Rightarrow> 't option"
  tree_depth :: "'t \<Rightarrow> nat"
  leaf_count :: "'t \<Rightarrow> nat"
  reward_candidates :: "'t \<Rightarrow> nat \<Rightarrow> 'm list option"
  generate_address_proof :: "'t \<Rightarrow> nat \<Rightarrow> key \<Rightarrow> 'ap option"
  address_proof_verify :: "'ap \<Rightarrow> bool"
  midpoint_hash :: "'m \<Rightarrow> key"
  midpoint_address :: "'m \<Rightarrow> key"
  pool_hash :: "'m pool \<Rightarrow> key"
  to_commitment :: "'m pool \<Rightarrow> pool_commitment"
  serialize_merkle_proof :: "key \<Rightarrow> 'ap \<Rightarrow> 'm pool \<Rightarrow> bytes option"

subsection \<open>The gate of a candidate\<close>

definition merkle_candidate_binding_is_valid ::
  "('c, 't, 'ap, 'm) merkle_api \<Rightarrow> key \<Rightarrow> candidate \<Rightarrow> bytes option \<Rightarrow> (commitment_fault, unit) result" where
  "merkle_candidate_binding_is_valid api peer_id cand commitment =
     (let cnt = cn_committed_key_count cand; pin = cn_commitment_pin cand; q = ma_quotes api
      in if 0 < cnt \<and> pin = None then Inl Unauditable
         else if cnt = 0 \<and> pin \<noteq> None then Inl IncoherentBaseline
         else if MAX_KEY_COUNT q < cnt then Inl TooManyKeys
         else if cn_price cand \<noteq> for_key_count q cnt then Inl WrongPrice
         else (case pin of
                 None \<Rightarrow> Inr ()
               | Some p \<Rightarrow>
                   (case commitment of
                      None \<Rightarrow> Inl NotShipped
                    | Some blob \<Rightarrow>
                        if MAX_SIDECAR_BYTES q < length blob then Inl Oversized
                        else (case from_slice q blob of
                                None \<Rightarrow> Inl Undecodable
                              | Some c \<Rightarrow>
                                  if compute_address api (c_public_key q c) \<noteq> peer_id \<or> c_peer q c \<noteq> peer_id
                                  then Inl NotBoundToPeer
                                  else if \<not> c_verify_signature q c then Inl InvalidSignature
                                  else if c_hash q c \<noteq> Some p then Inl WrongPin
                                  else if c_key_count q c \<noteq> cnt then Inl WrongKeyCount
                                  else Inr ()))))"

definition candidate_fields :: "candidate \<Rightarrow> key \<Rightarrow> amount_word quote_fields" where
  "candidate_fields cand content =
     \<lparr>qf_public_key = cn_pub_key cand, qf_content = content, qf_price = cn_price cand,
      qf_committed_key_count = cn_committed_key_count cand, qf_commitment_pin = cn_commitment_pin cand\<rparr>"

text \<open>
  The merkle path and the single-node path admit the same prices. The gate of a merkle
  candidate, a second copy of the checks, gives on every input the verdict the shared gate of
  quotes gives on the same fields, provided content addresses are BLAKE3 hashes.
\<close>

theorem merkle_gate_is_the_quote_gate:
  assumes "compute_address api = blake3 (ma_quotes api)"
  shows "merkle_candidate_binding_is_valid api peer cand sidecar =
    validate_commitment_binding (ma_quotes api) peer (candidate_fields cand content) sidecar"
  using assms
  by (simp add: merkle_candidate_binding_is_valid_def validate_commitment_binding_def candidate_fields_def Let_def
      cong: if_cong option.case_cong)

subsection \<open>Replies\<close>

datatype merkle_body =
    Candidate_Success bytes "bytes option"
  | Candidate_ClientUpdateRequired nat nat
  | Candidate_StorerUpdateRequired
  | Candidate_Error
  | Other_Body

fun map_merkle_candidate_response ::
  "('c, 't, 'ap, 'm) merkle_api \<Rightarrow> merkle_body \<Rightarrow> (error, candidate \<times> bytes option) result option" where
  "map_merkle_candidate_response api (Candidate_Success node commitment) =
     Some (case candidate_from_slice api node of
             Some cand \<Rightarrow> Inr (cand, commitment)
           | None \<Rightarrow> Inl Serialization)"
| "map_merkle_candidate_response api (Candidate_ClientUpdateRequired client_version min_version) =
     Some (Inl (settlement_refusal_error (CURRENT_SETTLEMENT_VERSION api) client_version min_version))"
| "map_merkle_candidate_response api Candidate_StorerUpdateRequired = Some (Inl StorerUpdateRequired)"
| "map_merkle_candidate_response api Candidate_Error = Some (Inl Protocol)"
| "map_merkle_candidate_response api Other_Body = None"

definition is_version_unaware :: "error \<Rightarrow> bool" where
  "is_version_unaware e \<longleftrightarrow> e = Network \<or> e = Timeout"

text \<open>
  The peers known to answer versioned requests and those known not to. A request is one future
  of the pool; \<open>versioned\<close> and \<open>legacy\<close> are the answers its two sends get.
\<close>

record version_memory =
  vm_capable :: "key set"
  vm_unversioned :: "key set"

definition known_legacy :: "version_memory \<Rightarrow> key \<Rightarrow> bool" where
  "known_legacy vm peer \<longleftrightarrow> peer \<notin> vm_capable vm \<and> peer \<in> vm_unversioned vm"

definition ask_candidate ::
  "bool \<Rightarrow> key \<Rightarrow> (error, 'r) result \<Rightarrow> (error, 'r) result \<Rightarrow> version_memory \<Rightarrow>
     (error, 'r) result \<times> version_memory" where
  "ask_candidate legacy_peer peer versioned legacy vm =
     (let answered = (case versioned of Inr _ \<Rightarrow> True | Inl e \<Rightarrow> \<not> is_version_unaware e);
          vm = (if \<not> legacy_peer \<and> answered then vm\<lparr>vm_capable := insert peer (vm_capable vm)\<rparr> else vm)
      in case versioned of
           Inl e \<Rightarrow>
             if is_version_unaware e \<and> \<not> legacy_peer then
               (legacy, if e = Timeout \<and> peer \<notin> vm_capable vm
                        then vm\<lparr>vm_unversioned := insert peer (vm_unversioned vm)\<rparr> else vm)
             else (versioned, vm)
         | Inr _ \<Rightarrow> (versioned, vm))"

text \<open>A refusal is final: only silence or a failed send is asked again without the version.\<close>

lemma refusal_is_not_asked_again:
  assumes "versioned = Inl e" and "\<not> is_version_unaware e"
  shows "fst (ask_candidate legacy_peer peer versioned legacy vm) = Inl e"
  using assms by (simp add: ask_candidate_def Let_def)

text \<open>A peer that has answered a versioned request is never taken for a legacy peer again.\<close>

lemma capable_peer_stays_capable:
  "peer \<in> vm_capable vm \<Longrightarrow> \<not> known_legacy (snd (ask_candidate l p versioned legacy vm)) peer"
  by (auto simp: ask_candidate_def known_legacy_def Let_def split: sum.splits)

subsection \<open>Collecting candidates\<close>

definition candidate_ok ::
  "('c, 't, 'ap, 'm) merkle_api \<Rightarrow> nat \<Rightarrow> key \<Rightarrow> candidate \<Rightarrow> bytes option \<Rightarrow> bool" where
  "candidate_ok api timestamp peer cand commitment \<longleftrightarrow>
     verify_merkle_candidate_signature api cand \<and>
     cn_timestamp cand = timestamp \<and>
     compute_address api (cn_pub_key cand) = peer \<and>
     merkle_candidate_binding_is_valid api peer cand commitment = Inr ()"

text \<open>The wording a refusing peer adds to the record is the text of its error.\<close>

fun collect_loop ::
  "('c, 't, 'ap, 'm) merkle_api \<Rightarrow> string \<Rightarrow> nat \<Rightarrow> (key \<times> candidate) list \<Rightarrow> settlement_refusals \<Rightarrow>
     (key \<times> (error, candidate \<times> bytes option) result) list \<Rightarrow>
     (error, (key \<times> candidate) list) result \<times> settlement_refusals" where
  "collect_loop api wording timestamp valid refusals [] = (Inr valid, refusals)"
| "collect_loop api wording timestamp valid refusals ((peer, Inr (cand, commitment)) # rest) =
     (if \<not> verify_merkle_candidate_signature api cand then collect_loop api wording timestamp valid refusals rest
      else if cn_timestamp cand \<noteq> timestamp then collect_loop api wording timestamp valid refusals rest
      else let candidate_peer = compute_address api (cn_pub_key cand)
           in if candidate_peer \<noteq> peer then collect_loop api wording timestamp valid refusals rest
              else (case merkle_candidate_binding_is_valid api candidate_peer cand commitment of
                      Inl _ \<Rightarrow> collect_loop api wording timestamp valid refusals rest
                    | Inr _ \<Rightarrow>
                        collect_loop api wording timestamp (valid @ [(candidate_peer, cand)]) refusals rest))"
| "collect_loop api wording timestamp valid refusals ((peer, Inl e) # rest) =
     (if e = ClientUpdateRequired then
        (case note_refusal refusals peer wording of
           (Some _, refusals') \<Rightarrow> (Inl ClientUpdateRequired, refusals')
         | (None, refusals') \<Rightarrow> collect_loop api wording timestamp valid refusals' rest)
      else collect_loop api wording timestamp valid refusals rest)"

definition collect_validated_candidates ::
  "('c, 't, 'ap, 'm) merkle_api \<Rightarrow> string \<Rightarrow> settlement_refusals \<Rightarrow>
     (key \<times> (error, candidate \<times> bytes option) result) list \<Rightarrow> key \<Rightarrow> nat \<Rightarrow>
     (error, candidate list) result \<times> settlement_refusals" where
  "collect_validated_candidates api wording refusals responses target timestamp =
     (case collect_loop api wording timestamp [] refusals responses of
        (Inl e, refusals') \<Rightarrow> (Inl e, refusals')
      | (Inr valid, refusals') \<Rightarrow>
          if length valid < CANDIDATES_PER_POOL api then (Inl InsufficientPeers, refusals')
          else (Inr (map snd (take (CANDIDATES_PER_POOL api)
                  (sort_key (\<lambda>(peer, _). xor_distance api peer target) valid))), refusals'))"

definition pool_peers ::
  "('c, 't, 'ap, 'm) merkle_api \<Rightarrow> (key \<times> 'addr list) list \<Rightarrow> key list \<Rightarrow> (error, (key \<times> 'addr list) list) result" where
  "pool_peers api closest connected =
     (let remote_peers =
        (if length closest < CANDIDATES_PER_POOL api
         then foldl (\<lambda>ps peer. if peer \<in> fst ` set ps then ps else ps @ [(peer, [])]) closest connected
         else closest)
      in if length remote_peers < CANDIDATES_PER_POOL api then Inl InsufficientPeers else Inr remote_peers)"

subsection \<open>Verdict over all pools\<close>

record pool_verdict =
  pv_refusal :: "error option"
  pv_first_failure :: "error option"

definition verdict_note :: "pool_verdict \<Rightarrow> error \<Rightarrow> pool_verdict" where
  "verdict_note v e =
     (if e = ClientUpdateRequired
      then v\<lparr>pv_refusal := (case pv_refusal v of None \<Rightarrow> Some e | Some e' \<Rightarrow> Some e')\<rparr>
      else v\<lparr>pv_first_failure := (case pv_first_failure v of None \<Rightarrow> Some e | Some e' \<Rightarrow> Some e')\<rparr>)"

definition into_error :: "pool_verdict \<Rightarrow> error option" where
  "into_error v = (case pv_refusal v of Some e \<Rightarrow> Some e | None \<Rightarrow> pv_first_failure v)"

fun drain_pools :: "pool_verdict \<Rightarrow> 'm pool list \<Rightarrow> (error, 'm pool) result list \<Rightarrow> pool_verdict \<times> 'm pool list" where
  "drain_pools v pools [] = (v, pools)"
| "drain_pools v pools (Inr pool # rest) = drain_pools v (pools @ [pool]) rest"
| "drain_pools v pools (Inl e # rest) = drain_pools (verdict_note v e) pools rest"

definition build_candidate_pools :: "(error, 'm pool) result list \<Rightarrow> (error, 'm pool list) result" where
  "build_candidate_pools results =
     (case drain_pools \<lparr>pv_refusal = None, pv_first_failure = None\<rparr> [] results of
        (v, pools) \<Rightarrow> (case into_error v of Some e \<Rightarrow> Inl e | None \<Rightarrow> Inr pools))"

text \<open>A small protocol, for examples: every candidate is a baseline one and every tree is its leaves.\<close>

definition tiny_quote_api :: "(amount_word, unit) quote_api" where
  "tiny_quote_api =
     \<lparr>blake3 = id, ML_DSA_PUB_KEY_LEN = 1, for_key_count = (\<lambda>n. of_nat (n + 1)), MAX_KEY_COUNT = 9,
      MAX_SIDECAR_BYTES = 9, from_slice = (\<lambda>_. None), c_peer = (\<lambda>_. []), c_public_key = (\<lambda>_. []),
      c_key_count = (\<lambda>_. 0), c_verify_signature = (\<lambda>_. False), c_hash = (\<lambda>_. None)\<rparr>"

definition tiny_merkle_api :: "(unit, key list, key, key) merkle_api" where
  "tiny_merkle_api =
     \<lparr>ma_quotes = tiny_quote_api, compute_address = id, MAX_LEAVES = 4, CANDIDATES_PER_POOL = 1,
      CURRENT_SETTLEMENT_VERSION = 1, candidate_from_slice = (\<lambda>_. None),
      verify_merkle_candidate_signature = (\<lambda>_. True), xor_distance = (\<lambda>a b. map2 (XOR) a b),
      from_xornames = (\<lambda>xs. if 2 \<le> length xs then Some xs else None), tree_depth = length, leaf_count = length,
      reward_candidates = (\<lambda>t _. Some [hd t]),
      generate_address_proof = (\<lambda>t i a. if i < length t \<and> t ! i = a then Some a else None),
      address_proof_verify = (\<lambda>_. True), midpoint_hash = id, midpoint_address = id,
      pool_hash = pl_midpoint,
      to_commitment = (\<lambda>p. \<lparr>pc_hash = pl_midpoint p, pc_candidates = map (\<lambda>c. (cn_pub_key c, cn_price c)) (pl_candidates p)\<rparr>),
      serialize_merkle_proof = (\<lambda>a ap p. Some (a @ pl_midpoint p))\<rparr>"

theorem merkle_gate_is_the_quote_gate_witness:
  "merkle_candidate_binding_is_valid tiny_merkle_api [1]
     \<lparr>cn_pub_key = [1], cn_price = 3, cn_committed_key_count = 2, cn_commitment_pin = Some [5], cn_timestamp = 0, cn_signature = []\<rparr>
     (Some [7]) =
   validate_commitment_binding tiny_quote_api [1]
     \<lparr>qf_public_key = [1], qf_content = [8], qf_price = 3, qf_committed_key_count = 2, qf_commitment_pin = Some [5]\<rparr>
     (Some [7])"
proof -
  have "compute_address tiny_merkle_api = blake3 (ma_quotes tiny_merkle_api)"
    by (simp add: tiny_merkle_api_def tiny_quote_api_def)
  from merkle_gate_is_the_quote_gate [OF this, of "[1]" "\<lparr>cn_pub_key = [1], cn_price = 3, cn_committed_key_count = 2,
      cn_commitment_pin = Some [5], cn_timestamp = 0, cn_signature = []\<rparr>" "Some [7]" "[8]"]
  show ?thesis by (simp add: candidate_fields_def tiny_merkle_api_def)
qed

subsection \<open>What collection returns\<close>

definition valid_responses ::
  "('c, 't, 'ap, 'm) merkle_api \<Rightarrow> nat \<Rightarrow> (key \<times> (error, candidate \<times> bytes option) result) list \<Rightarrow>
     (key \<times> candidate) list" where
  "valid_responses api timestamp rs = concat (map (\<lambda>(peer, r). case r of
       Inr (c, com) \<Rightarrow> if candidate_ok api timestamp peer c com then [(peer, c)] else []
     | Inl _ \<Rightarrow> []) rs)"

definition refusers :: "(key \<times> (error, 'r) result) list \<Rightarrow> key set" where
  "refusers rs = {peer. (peer, Inl ClientUpdateRequired) \<in> set rs}"

lemma valid_responses_simps [simp]:
  "valid_responses api ts [] = []"
  "valid_responses api ts ((peer, Inl e) # rs) = valid_responses api ts rs"
  "valid_responses api ts ((peer, Inr (c, com)) # rs) =
     (if candidate_ok api ts peer c com then (peer, c) # valid_responses api ts rs else valid_responses api ts rs)"
  by (simp_all add: valid_responses_def)

lemma refusers_simps [simp]:
  "refusers [] = {}"
  "refusers ((peer, Inr x) # rs) = refusers rs"
  "refusers ((peer, Inl e) # rs) = (if e = ClientUpdateRequired then insert peer (refusers rs) else refusers rs)"
  by (auto simp: refusers_def)

lemma in_valid_responses:
  "(peer, c) \<in> set (valid_responses api ts rs) \<longleftrightarrow>
     (\<exists>com. (peer, Inr (c, com)) \<in> set rs \<and> candidate_ok api ts peer c com)"
proof (induction rs)
  case (Cons r rs)
  obtain p x where r: "r = (p, x)" by (cases r)
  show ?case
  proof (cases x)
    case (Inr y)
    obtain c' com' where "y = (c', com')" by (cases y)
    with Cons r Inr show ?thesis by auto
  qed (use Cons r in auto)
qed simp

lemma note_refusal_eq:
  "note_refusal refs peer w = (v, refs') \<Longrightarrow>
     sr_peers refs' = insert peer (sr_peers refs) \<and>
     (v = None \<longleftrightarrow> card (insert peer (sr_peers refs)) < SETTLEMENT_REFUSAL_QUORUM)"
  by (cases "sr_wording refs") (auto simp: note_refusal_def corroborated_def Let_def split: if_splits dest: sym)

lemma collect_loop_candidate:
  "collect_loop api w ts valid refs ((peer, Inr (cand, com)) # rest) =
     collect_loop api w ts (if candidate_ok api ts peer cand com then valid @ [(peer, cand)] else valid) refs rest"
  by (cases "merkle_candidate_binding_is_valid api peer cand com") (auto simp: candidate_ok_def Let_def)

lemma collect_loop_ok:
  assumes "collect_loop api w ts valid refs rs = (Inr vs, refs')"
  shows "vs = valid @ valid_responses api ts rs \<and> sr_peers refs' = sr_peers refs \<union> refusers rs \<and>
    (refusers rs \<noteq> {} \<longrightarrow> card (sr_peers refs') < SETTLEMENT_REFUSAL_QUORUM)"
  using assms
proof (induction rs arbitrary: valid refs)
  case (Cons r rs)
  obtain peer x where r: "r = (peer, x)" by (cases r)
  show ?case
  proof (cases x)
    case (Inr y)
    obtain cand com where y: "y = (cand, com)" by (cases y)
    from Cons.IH [OF Cons.prems [unfolded r Inr y collect_loop_candidate]] show ?thesis
      by (auto simp: r Inr y)
  next
    case (Inl e)
    show ?thesis
    proof (cases "e = ClientUpdateRequired")
      case False
      with Cons.prems r Inl have "collect_loop api w ts valid refs rs = (Inr vs, refs')" by simp
      from Cons.IH [OF this] False show ?thesis by (auto simp: r Inl)
    next
      case True
      obtain v refs1 where n: "note_refusal refs peer w = (v, refs1)" by (cases "note_refusal refs peer w")
      from Cons.prems True n r Inl have v: "v = None"
        and rest: "collect_loop api w ts valid refs1 rs = (Inr vs, refs')"
        by (auto split: option.splits)
      from Cons.IH [OF rest] note_refusal_eq [OF n] v True show ?thesis by (auto simp: r Inl)
    qed
  qed
qed simp

lemma collect_validated_ok:
  assumes "collect_validated_candidates api w refs rs target ts = (Inr cs, refs')"
  shows "cs = map snd (take (CANDIDATES_PER_POOL api)
      (sort_key (\<lambda>(peer, _). xor_distance api peer target) (valid_responses api ts rs)))"
    and "CANDIDATES_PER_POOL api \<le> length (valid_responses api ts rs)"
    and "\<exists>vs. collect_loop api w ts [] refs rs = (Inr vs, refs')"
  using assms collect_loop_ok [of api w ts "[]" refs rs]
  by (auto simp: collect_validated_candidates_def split: prod.splits sum.splits if_splits)

text \<open>
  C19: A pool the client may pay is made of the closest honest candidates. It has exactly the
  protocol's number of candidates; each was sent by the peer whose identity is the hash of its
  key, is signed, carries this payment's timestamp and passed the gate; and a valid candidate
  left out is no closer to the midpoint than any candidate taken, whatever order the answers
  arrived in.
\<close>

theorem pool_has_the_closest_valid_candidates:
  assumes "collect_validated_candidates api w refs responses target ts = (Inr cs, refs')"
  shows "length cs = CANDIDATES_PER_POOL api \<and>
    (\<forall>c \<in> set cs. \<exists>peer com. (peer, Inr (c, com)) \<in> set responses \<and> candidate_ok api ts peer c com) \<and>
    (\<forall>peer c com. (peer, Inr (c, com)) \<in> set responses \<longrightarrow> candidate_ok api ts peer c com \<longrightarrow> c \<notin> set cs \<longrightarrow>
       (\<forall>c' \<in> set cs. xor_distance api (compute_address api (cn_pub_key c')) target \<le> xor_distance api peer target))"
proof -
  define n where "n = CANDIDATES_PER_POOL api"
  define vs where "vs = valid_responses api ts responses"
  define f where "f = (\<lambda>(peer :: key, _ :: candidate). xor_distance api peer target)"
  define ss where "ss = sort_key f vs"
  have cs: "cs = map snd (take n ss)" and len: "n \<le> length ss"
    using collect_validated_ok(1,2) [OF assms] by (simp_all add: n_def vs_def f_def ss_def)
  have mem: "set ss = set vs" by (simp add: ss_def)
  have valid: "\<exists>com. (peer, Inr (c, com)) \<in> set responses \<and> candidate_ok api ts peer c com"
    if "(peer, c) \<in> set ss" for peer c
    using that unfolding mem vs_def in_valid_responses .
  have peer: "peer = compute_address api (cn_pub_key c)" if "(peer, c) \<in> set ss" for peer c
    using valid [OF that] by (auto simp: candidate_ok_def)
  have sorted: "\<forall>x \<in> set (take n ss). \<forall>y \<in> set (drop n ss). f x \<le> f y"
  proof -
    have "sorted (map f (take n ss) @ map f (drop n ss))"
      by (simp flip: map_append) (simp add: ss_def)
    then show ?thesis by (simp only: sorted_append) simp
  qed
  have "xor_distance api (compute_address api (cn_pub_key c')) target \<le> xor_distance api p target"
    if r: "(p, Inr (c, com)) \<in> set responses" "candidate_ok api ts p c com" "c \<notin> set cs" and c': "c' \<in> set cs"
    for p c com c'
  proof -
    have "(p, c) \<in> set (take n ss @ drop n ss)"
      using r(1,2) in_valid_responses [of p c api ts responses] mem by (simp add: vs_def) blast
    moreover have "(p, c) \<notin> set (take n ss)" using r(3) unfolding cs by (auto simp: image_iff)
    ultimately have "(p, c) \<in> set (drop n ss)" unfolding set_append by blast
    moreover from c' cs obtain p' where p': "(p', c') \<in> set (take n ss)" by auto
    ultimately have "f (p', c') \<le> f (p, c)" using sorted by blast
    moreover have "p' = compute_address api (cn_pub_key c')" using p' by (intro peer) (rule in_set_takeD)
    ultimately show ?thesis by (simp add: f_def)
  qed
  moreover have "\<exists>peer com. (peer, Inr (c, com)) \<in> set responses \<and> candidate_ok api ts peer c com"
    if "c \<in> set cs" for c
  proof -
    from that cs obtain p where "(p, c) \<in> set (take n ss)" by auto
    then show ?thesis using valid in_set_takeD by fast
  qed
  ultimately show ?thesis using cs len by (auto simp: n_def)
qed

theorem pool_has_the_closest_valid_candidates_witness:
  "\<exists>cs. fst (collect_validated_candidates tiny_merkle_api ''update'' no_refusals
      [([9], Inr (\<lparr>cn_pub_key = [9], cn_price = 1, cn_committed_key_count = 0, cn_commitment_pin = None, cn_timestamp = 7, cn_signature = []\<rparr>, None)),
       ([1], Inr (\<lparr>cn_pub_key = [1], cn_price = 1, cn_committed_key_count = 0, cn_commitment_pin = None, cn_timestamp = 7, cn_signature = []\<rparr>, None))]
      [0] 7) = Inr cs \<and> length cs = 1 \<and> map cn_pub_key cs = [[1]]"
proof -
  let ?far = "\<lparr>cn_pub_key = [9], cn_price = 1, cn_committed_key_count = 0, cn_commitment_pin = None, cn_timestamp = 7, cn_signature = []\<rparr>"
  let ?near = "\<lparr>cn_pub_key = [1], cn_price = 1, cn_committed_key_count = 0, cn_commitment_pin = None, cn_timestamp = 7, cn_signature = []\<rparr>"
  have c: "collect_validated_candidates tiny_merkle_api ''update'' no_refusals
      [([9], Inr (?far, None)), ([1], Inr (?near, None))] [0] 7 = (Inr [?near], no_refusals)"
    by (simp add: collect_validated_candidates_def merkle_candidate_binding_is_valid_def tiny_merkle_api_def
        tiny_quote_api_def Let_def word_le_nat_alt)
  have "length [?near] = CANDIDATES_PER_POOL tiny_merkle_api"
    using pool_has_the_closest_valid_candidates [OF c] by blast
  with c show ?thesis by (simp add: tiny_merkle_api_def)
qed

text \<open>
  Two refusals stop a payment. When any peer of a pool declared that this client cannot
  settle, the pool is returned for payment only if, with every refusal recorded before and
  during the collection, fewer than two distinct peers have said so; otherwise collection ends
  in the refusal.
\<close>

theorem corroborated_refusal_stops_the_pool:
  assumes "refusers responses \<noteq> {}" and "2 \<le> card (sr_peers refs \<union> refusers responses)"
  shows "\<exists>refs'. collect_validated_candidates api w refs responses target ts = (Inl ClientUpdateRequired, refs')"
proof -
  have stops: "e = ClientUpdateRequired" if "collect_loop api w ts valid refs rs = (Inl e, refs')" for e valid refs rs refs'
    using that
  proof (induction rs arbitrary: valid refs)
    case (Cons r rs)
    obtain peer x where r: "r = (peer, x)" by (cases r)
    show ?case
    proof (cases x)
      case (Inr y)
      obtain cand com where y: "y = (cand, com)" by (cases y)
      show ?thesis using Cons.IH [OF Cons.prems [unfolded r Inr y collect_loop_candidate]] .
    next
      case (Inl e')
      with Cons r show ?thesis by (auto split: if_splits prod.splits option.splits)
    qed
  qed simp
  obtain res refs' where c: "collect_loop api w ts [] refs responses = (res, refs')"
    by (cases "collect_loop api w ts [] refs responses")
  show ?thesis
  proof (cases res)
    case (Inl e)
    with stops c show ?thesis by (auto simp: collect_validated_candidates_def)
  next
    case (Inr vs)
    with collect_loop_ok c have "card (sr_peers refs \<union> refusers responses) < SETTLEMENT_REFUSAL_QUORUM"
      using assms(1) by metis
    with assms(2) show ?thesis by (simp add: SETTLEMENT_REFUSAL_QUORUM_def)
  qed
qed

theorem corroborated_refusal_stops_the_pool_witness:
  "\<exists>refs'. collect_validated_candidates tiny_merkle_api ''update'' no_refusals
     [([1], Inl ClientUpdateRequired), ([2], Inl Timeout), ([2], Inl ClientUpdateRequired)] [0] 7 =
     (Inl ClientUpdateRequired, refs')"
  by (rule corroborated_refusal_stops_the_pool) (simp_all add: no_refusals_def)

subsection \<open>The verdict over all pools\<close>

lemma drain_pools_eq:
  "drain_pools v pools rs =
     (foldl verdict_note v [e. Inl e \<leftarrow> rs], pools @ [p. Inr p \<leftarrow> rs])"
  by (induction v pools rs rule: drain_pools.induct) auto

lemma verdict_refusal:
  "pv_refusal (foldl verdict_note v es) =
     (case pv_refusal v of Some e \<Rightarrow> Some e
      | None \<Rightarrow> if ClientUpdateRequired \<in> set es then Some ClientUpdateRequired else None)"
  by (induction es arbitrary: v) (auto simp: verdict_note_def split: option.splits)

lemma verdict_first:
  "pv_first_failure (foldl verdict_note v es) =
     (case pv_first_failure v of Some e \<Rightarrow> Some e | None \<Rightarrow> find (\<lambda>e. e \<noteq> ClientUpdateRequired) es)"
  by (induction es arbitrary: v) (auto simp: verdict_note_def split: option.splits)

lemma find_first: "x \<notin> set es \<Longrightarrow> find (\<lambda>e. e \<noteq> x) es = (case es of [] \<Rightarrow> None | e # _ \<Rightarrow> Some e)"
  by (cases es) auto

lemma into_error_notes:
  "into_error (foldl verdict_note \<lparr>pv_refusal = None, pv_first_failure = None\<rparr> es) =
     (if ClientUpdateRequired \<in> set es then Some ClientUpdateRequired
      else (case es of [] \<Rightarrow> None | e # _ \<Rightarrow> Some e))"
  by (simp add: into_error_def verdict_refusal verdict_first find_first)

text \<open>Pools are returned only when all succeeded; a refusal outranks every other failure.\<close>

lemma build_candidate_pools_eq:
  "build_candidate_pools rs =
     (let es = [e. Inl e \<leftarrow> rs]
      in if ClientUpdateRequired \<in> set es then Inl ClientUpdateRequired
         else (case es of [] \<Rightarrow> Inr [p. Inr p \<leftarrow> rs] | e # _ \<Rightarrow> Inl e))"
  unfolding build_candidate_pools_def drain_pools_eq prod.case into_error_notes Let_def
  by (simp split: list.split del: concat_eq_Nil_conv)

subsection \<open>Preflight over stored chunks\<close>

definition preflight_stored_status :: "(error, 'a) result \<Rightarrow> (error, bool) result" where
  "preflight_stored_status r =
     (case r of
        Inr _ \<Rightarrow> Inr False
      | Inl e \<Rightarrow>
          if e = AlreadyStored then Inr True
          else if classify_error e \<in> {Outcome_Timeout, Outcome_NetworkError} then Inr False
          else Inl e)"

record merkle_upload_plan =
  mp_already_stored :: "key list"
  mp_to_upload :: "key list"
  mp_to_upload_total_bytes :: nat

definition to_upload_avg_size :: "merkle_upload_plan \<Rightarrow> nat" where
  "to_upload_avg_size plan =
     (if mp_to_upload plan = [] then 0 else mp_to_upload_total_bytes plan div length (mp_to_upload plan))"

text \<open>A check is an index, the chunk's address and size, and the outcome of its probe.\<close>

type_synonym check = "nat \<times> key \<times> nat \<times> (error, bool) result"

fun check_loop ::
  "(nat \<times> key) list \<Rightarrow> (nat \<times> key \<times> nat) list \<Rightarrow> check list \<Rightarrow>
     (error, (nat \<times> key) list \<times> (nat \<times> key \<times> nat) list) result" where
  "check_loop already pending [] = Inr (already, pending)"
| "check_loop already pending ((index, address, data_size, r) # rest) =
     bind_result r (\<lambda>is_stored.
       if is_stored then check_loop (already @ [(index, address)]) pending rest
       else check_loop already (pending @ [(index, address, data_size)]) rest)"

definition plan_merkle_upload_observed :: "check list \<Rightarrow> (error, merkle_upload_plan) result" where
  "plan_merkle_upload_observed completed =
     (if completed = [] then Inr \<lparr>mp_already_stored = [], mp_to_upload = [], mp_to_upload_total_bytes = 0\<rparr>
      else bind_result (check_loop [] [] completed)
        (\<lambda>(already, pending).
           let already = sort_key fst already; pending = sort_key fst pending
           in Inr \<lparr>mp_already_stored = map snd already,
                    mp_to_upload = map (\<lambda>(_, address, _). address) pending,
                    mp_to_upload_total_bytes = foldl sat_add 0 (map (\<lambda>(_, _, data_size). data_size) pending)\<rparr>))"

lemma check_loop_ok:
  assumes "\<forall>(i, a, n, r) \<in> set cs. r = Inr (stored a)"
  shows "check_loop already pending cs =
    Inr (already @ map (\<lambda>(i, a, n, r). (i, a)) (filter (\<lambda>(i, a, n, r). stored a) cs),
         pending @ map (\<lambda>(i, a, n, r). (i, a, n)) (filter (\<lambda>(i, a, n, r). \<not> stored a) cs))"
  using assms by (induction cs arbitrary: already pending) auto

text \<open>The checks of chunks whose probes all answer, in the order of the chunks.\<close>

definition checks_of :: "(key \<Rightarrow> bool) \<Rightarrow> (key \<times> nat) list \<Rightarrow> check list" where
  "checks_of stored chunks = map (\<lambda>(i, a, n). (i, a, n, Inr (stored a))) (enumerate 0 chunks)"

lemma sort_key_enumerate_subset:
  assumes "mset xs = mset ys" and "sorted_wrt (<) (map f ys)"
  shows "sort_key f xs = ys"
proof -
  have "distinct (map f ys)" using assms(2) by (simp add: strict_sorted_iff)
  then have inj: "inj_on f (set ys)" by (simp add: distinct_map)
  have "sort_key f xs = sort_key f ys"
    using sort_key_mset_cong [OF assms(1)] inj mset_eq_setD [OF assms(1)] by simp
  also have "sort_key f ys = ys"
    using assms(2) by (intro sort_key_id_if_sorted) (simp add: strict_sorted_iff)
  finally show ?thesis .
qed

lemma sorted_filter_enumerate:
  "sorted_wrt (<) (map fst (filter P (enumerate m xs)))"
  by (induction xs arbitrary: m) (auto simp: in_set_enumerate_eq)

text \<open>
  The preflight splits the chunks exactly, whatever order the probes complete in: the stored
  ones and the ones to upload, each in input order, and together every chunk once.
\<close>

theorem preflight_splits_in_input_order:
  assumes "mset completed = mset (checks_of stored chunks)"
    and "sum_list (map snd chunks) \<le> usize_max"
  shows "plan_merkle_upload_observed completed =
    Inr \<lparr>mp_already_stored = filter stored (map fst chunks),
         mp_to_upload = filter (\<lambda>a. \<not> stored a) (map fst chunks),
         mp_to_upload_total_bytes = sum_list (map snd (filter (\<lambda>(a, _). \<not> stored a) chunks))\<rparr>"
proof -
  let ?cs = "checks_of stored chunks"
  have all: "\<forall>(i, a, n, r) \<in> set completed. r = Inr (stored a)"
    using mset_eq_setD [OF assms(1)] by (auto simp: checks_of_def)
  define al where "al = (\<lambda>cs :: check list. map (\<lambda>(i, a, n, r). (i, a)) (filter (\<lambda>(i, a, n, r). stored a) cs))"
  define pe where "pe = (\<lambda>cs :: check list. map (\<lambda>(i, a, n, r). (i, a, n)) (filter (\<lambda>(i, a, n, r). \<not> stored a) cs))"
  have loop: "check_loop [] [] completed = Inr (al completed, pe completed)"
    using check_loop_ok [OF all, of "[]" "[]"] by (simp add: al_def pe_def)
  have m: "mset (al completed) = mset (al ?cs)" "mset (pe completed) = mset (pe ?cs)"
    using assms(1) by (simp_all add: al_def pe_def)
  have al_cs: "al ?cs = map (\<lambda>(i, a, n). (i, a)) (filter (\<lambda>(i, a, n). stored a) (enumerate 0 chunks))"
    and pe_cs: "pe ?cs = filter (\<lambda>(i, a, n). \<not> stored a) (enumerate 0 chunks)"
    by (simp_all add: al_def pe_def checks_of_def filter_map o_def case_prod_unfold)
  have fsts: "map fst (map (\<lambda>(i, a, n). (i, a)) ys) = map fst ys" for ys :: "(nat \<times> key \<times> nat) list"
    by (simp add: case_prod_unfold)
  have sal: "sort_key fst (al completed) = al ?cs"
    by (rule sort_key_enumerate_subset [OF m(1)]) (simp only: al_cs fsts sorted_filter_enumerate)
  have spe: "sort_key fst (pe completed) = pe ?cs"
    by (rule sort_key_enumerate_subset [OF m(2)]) (simp only: pe_cs sorted_filter_enumerate)
  have snd_filter: "map snd (filter (\<lambda>(i, x). P x) (enumerate k xs)) = filter P xs" for P k and xs :: "'z list"
    by (induction xs arbitrary: k) auto
  have a: "map snd (al ?cs) = filter stored (map fst chunks)"
    using snd_filter [of "\<lambda>(a, n). stored a" 0 chunks] unfolding al_cs
    by (simp add: case_prod_unfold o_def filter_map) (metis (no_types, lifting) list.map_comp comp_apply map_eq_conv)
  have p: "map snd (pe ?cs) = filter (\<lambda>(a, n). \<not> stored a) chunks"
    using snd_filter [of "\<lambda>(a, n). \<not> stored a" 0 chunks] unfolding pe_cs by (simp add: case_prod_unfold)
  have sizes: "map (\<lambda>(_, _, n). n) (pe ?cs) = map snd (filter (\<lambda>(a, _). \<not> stored a) chunks)"
    "map (\<lambda>(_, a, _). a) (pe ?cs) = filter (\<lambda>a. \<not> stored a) (map fst chunks)"
    using arg_cong [OF p, of "map snd"] arg_cong [OF p, of "map fst"]
    by (simp_all add: case_prod_unfold o_def filter_map)
  have le: "sum_list (map snd (filter (\<lambda>(a, _). \<not> stored a) chunks)) \<le> usize_max"
    using assms(2) sum_list_filter_le_nat [of snd "\<lambda>(a, _). \<not> stored a" chunks] by (rule le_trans [rotated])
  show ?thesis
  proof (cases "completed = []")
    case True
    then have "chunks = []" using assms(1) by (cases chunks) (simp_all add: checks_of_def)
    with True show ?thesis by (simp add: plan_merkle_upload_observed_def)
  next
    case False
    then show ?thesis
      by (simp add: plan_merkle_upload_observed_def loop sal spe a sizes foldl_sat_add [of 0] le Let_def)
  qed
qed

end
