(* ===== verification/Merkle_Pay.thy ===== *)
theory Merkle_Pay
  imports Merkle_Pools "HOL-Library.AList"
begin

text \<open>
  Preparing, paying and finalising merkle batches, \<^verbatim>\<open>ant-core/src/data/client/merkle.rs\<close>,
  and storing their chunks with bounded retries. The world (network, wallet, clock) is a state
  threaded by the operations of \<open>pay_env\<close>. A \<^verbatim>\<open>HashMap\<close> of proofs is an association
  list. The decimal strings the results carry for storage costs are their amounts, and gas is a
  128-bit number that saturates.
\<close>

definition u128_max :: nat where "u128_max = 2 ^ 128 - 1"

definition sat_add_u128 :: "nat \<Rightarrow> nat \<Rightarrow> nat" where
  "sat_add_u128 a b = min (a + b) u128_max"

type_synonym proofs = "(key \<times> bytes) list"

definition extend_proofs :: "proofs \<Rightarrow> proofs \<Rightarrow> proofs" where
  "extend_proofs m new = fold (\<lambda>(k, v). AList.update k v) new m"

lemma map_of_extend_proofs: "map_of (extend_proofs m new) = map_of m ++ map_of (rev new)"
proof (induction new arbitrary: m)
  case (Cons kv new)
  obtain k v where kv: "kv = (k, v)" by (cases kv)
  have "map_of (extend_proofs m (kv # new)) = map_of (extend_proofs (AList.update k v m) new)" by (simp add: extend_proofs_def kv)
  also have "\<dots> = (map_of m)(k \<mapsto> v) ++ map_of (rev new)" by (simp only: Cons.IH update_conv')
  also have "\<dots> = map_of m ++ map_of (rev (kv # new))" by (simp add: kv)
  finally show ?case .
qed (simp add: extend_proofs_def)

lemma dom_extend: "dom (map_of (extend_proofs m new)) = dom (map_of m) \<union> fst ` set new"
  by (auto simp: map_of_extend_proofs dom_map_of_conv_image_fst)

lemma extend_eq_Nil: "extend_proofs m new = [] \<longleftrightarrow> m = [] \<and> new = []"
proof -
  have "extend_proofs m new = [] \<longleftrightarrow> dom (map_of (extend_proofs m new)) = {}"
    by (simp add: dom_map_of_conv_image_fst)
  also have "\<dots> \<longleftrightarrow> m = [] \<and> new = []"
    unfolding dom_extend by (simp add: dom_map_of_conv_image_fst)
  finally show ?thesis .
qed

subsection \<open>Prepared batches\<close>

record ('t, 'm) prepared_merkle_batch =
  pb_depth :: nat
  pb_pool_commitments :: "pool_commitment list"
  pb_timestamp :: nat
  pb_candidate_pools :: "'m pool list"
  pb_tree :: 't
  pb_addresses :: "key list"

definition pool_commitment_with_payment_multiplier ::
  "('c, 't, 'ap, 'm) merkle_api \<Rightarrow> 'm pool \<Rightarrow> (error, pool_commitment) result" where
  "pool_commitment_with_payment_multiplier api p =
     (let commitment = to_commitment api p
      in bind_result
           (collect_result (\<lambda>(rewards, price).
              ok_or (map_option (Pair rewards) (checked_mul_multiplier price SINGLE_NODE_PAYMENT_MULTIPLIER)) Payment)
              (pc_candidates commitment))
           (\<lambda>cs. Inr (commitment\<lparr>pc_candidates := cs\<rparr>)))"

definition address_proofs_verify :: "('c, 't, 'ap, 'm) merkle_api \<Rightarrow> 't \<Rightarrow> key list \<Rightarrow> bool" where
  "address_proofs_verify api tree addresses \<longleftrightarrow>
     list_all (\<lambda>(i, address). case generate_address_proof api tree i address of
                                Some proof \<Rightarrow> address_proof_verify api proof
                              | None \<Rightarrow> False) (enumerate 0 addresses)"

definition checkpoint_candidate_ok :: "('c, 't, 'ap, 'm) merkle_api \<Rightarrow> nat \<Rightarrow> candidate \<Rightarrow> bool" where
  "checkpoint_candidate_ok api timestamp c \<longleftrightarrow>
     verify_merkle_candidate_signature api c \<and> cn_timestamp c = timestamp \<and>
     cn_committed_key_count c \<le> MAX_KEY_COUNT (ma_quotes api) \<and>
     cn_price c = for_key_count (ma_quotes api) (cn_committed_key_count c)"

text \<open>\<open>midpoints\<close> is the map from hashes to midpoints not yet matched by a pool.\<close>

fun check_pools ::
  "('c, 't, 'ap, 'm) merkle_api \<Rightarrow> nat \<Rightarrow> (key \<rightharpoonup> 'm) \<Rightarrow> ('m pool \<times> pool_commitment) list \<Rightarrow> (error, unit) result" where
  "check_pools api timestamp midpoints [] = Inr ()"
| "check_pools api timestamp midpoints ((p, commitment) # rest) =
     (let h = midpoint_hash api (pl_midpoint p)
      in if midpoints h \<noteq> Some (pl_midpoint p) then Inl InvalidData
         else bind_result (pool_commitment_with_payment_multiplier api p)
           (\<lambda>expected.
              if expected \<noteq> commitment \<or> \<not> list_all (checkpoint_candidate_ok api timestamp) (pl_candidates p)
              then Inl InvalidData
              else check_pools api timestamp (midpoints(h := None)) rest))"

definition validate_checkpoint ::
  "('c, 't, 'ap, 'm) merkle_api \<Rightarrow> ('t, 'm) prepared_merkle_batch \<Rightarrow> (error, unit) result" where
  "validate_checkpoint api b =
     (if pb_depth b \<noteq> tree_depth api (pb_tree b) \<or> length (pb_addresses b) \<noteq> leaf_count api (pb_tree b) \<or>
         pb_candidate_pools b = [] then Inl InvalidData
      else if \<not> address_proofs_verify api (pb_tree b) (pb_addresses b) then Inl InvalidData
      else (case reward_candidates api (pb_tree b) (pb_timestamp b) of
              None \<Rightarrow> Inl InvalidData
            | Some midpoints \<Rightarrow>
                if length midpoints \<noteq> length (pb_candidate_pools b) \<or>
                   length (pb_pool_commitments b) \<noteq> length (pb_candidate_pools b) then Inl InvalidData
                else check_pools api (pb_timestamp b)
                       (map_of (rev (map (\<lambda>m. (midpoint_hash api m, m)) midpoints)))
                       (zip (pb_candidate_pools b) (pb_pool_commitments b))))"

subsection \<open>The world\<close>

record ('s, 'm) pay_env =
  corroborated_settlement_refusal :: "'s \<Rightarrow> bool"
  unix_now :: "'s \<Rightarrow> nat option"
  gather_pools :: "'m list \<Rightarrow> nat \<Rightarrow> 's \<Rightarrow> (error, 'm pool) result list \<times> 's"
  has_wallet :: "'s \<Rightarrow> bool"
  pay_for_merkle_tree :: "nat \<Rightarrow> pool_commitment list \<Rightarrow> nat \<Rightarrow> ('s, error, key \<times> amount_word \<times> nat) op"

definition lift_result :: "('e, 'a) result \<Rightarrow> ('s, 'e, 'a) op" where
  "lift_result r s = (r, s)"

definition prepare_merkle_batch_external_observed ::
  "('c, 't, 'ap, 'm) merkle_api \<Rightarrow> ('s, 'm) pay_env \<Rightarrow> key list \<Rightarrow> ('s, error, ('t, 'm) prepared_merkle_batch) op" where
  "prepare_merkle_batch_external_observed api env addresses s =
     (if corroborated_settlement_refusal env s then (Inl ClientUpdateRequired, s)
      else bind_op (lift_result (ensure_single_merkle_tree_batch (MAX_LEAVES api) (length addresses)))
        (\<lambda>_. bind_op (lift_result (ok_or (from_xornames api addresses) Payment))
        (\<lambda>tree s. bind_op (lift_result (ok_or (unix_now env s) Payment))
        (\<lambda>timestamp. bind_op (lift_result (ok_or (reward_candidates api tree timestamp) Payment))
        (\<lambda>midpoints s. (case gather_pools env midpoints timestamp s of
           (results, s) \<Rightarrow>
             (bind_result (build_candidate_pools results)
               (\<lambda>pools. bind_result (collect_result (pool_commitment_with_payment_multiplier api) pools)
               (\<lambda>commitments. Inr
                  \<lparr>pb_depth = tree_depth api tree, pb_pool_commitments = commitments, pb_timestamp = timestamp,
                   pb_candidate_pools = pools, pb_tree = tree, pb_addresses = addresses\<rparr>)), s)))) s)) s)"

fun prepare_all ::
  "('c, 't, 'ap, 'm) merkle_api \<Rightarrow> ('s, 'm) pay_env \<Rightarrow> key list list \<Rightarrow>
     ('s, error, ('t, 'm) prepared_merkle_batch list) op" where
  "prepare_all api env [] = ok_op []"
| "prepare_all api env (p # ps) =
     bind_op (prepare_merkle_batch_external_observed api env p)
       (\<lambda>b. bind_op (prepare_all api env ps) (\<lambda>bs. ok_op (b # bs)))"

definition prepare_merkle_batches_external ::
  "('c, 't, 'ap, 'm) merkle_api \<Rightarrow> ('s, 'm) pay_env \<Rightarrow> key list \<Rightarrow> nat \<Rightarrow>
     ('s, error, ('t, 'm) prepared_merkle_batch list) op" where
  "prepare_merkle_batches_external api env addresses cap =
     (if length addresses < 2 then err_op Payment
      else prepare_all api env (merkle_batch_partitions_with_cap (MAX_LEAVES api) addresses cap))"

subsection \<open>Finalising\<close>

record merkle_batch_payment_result =
  mr_proofs :: proofs
  mr_chunk_count :: nat
  mr_storage_cost :: amount_word
  mr_gas_cost :: nat
  mr_timestamp :: nat

fun finalize_loop ::
  "('c, 't, 'ap, 'm) merkle_api \<Rightarrow> 't \<Rightarrow> 'm pool \<Rightarrow> proofs \<Rightarrow> (nat \<times> key) list \<Rightarrow> (error, proofs) result" where
  "finalize_loop api tree winner proofs [] = Inr proofs"
| "finalize_loop api tree winner proofs ((i, address) # rest) =
     bind_result (ok_or (generate_address_proof api tree i address) Payment)
       (\<lambda>address_proof. bind_result (ok_or (serialize_merkle_proof api address address_proof winner) Serialization)
         (\<lambda>tagged. finalize_loop api tree winner (AList.update address tagged proofs) rest))"

definition finalize_merkle_batch ::
  "('c, 't, 'ap, 'm) merkle_api \<Rightarrow> ('t, 'm) prepared_merkle_batch \<Rightarrow> key \<Rightarrow> (error, merkle_batch_payment_result) result" where
  "finalize_merkle_batch api b winner_pool_hash =
     bind_result (ok_or (find (\<lambda>p. pool_hash api p = winner_pool_hash) (pb_candidate_pools b)) Payment)
       (\<lambda>winner. bind_result (finalize_loop api (pb_tree b) winner [] (enumerate 0 (pb_addresses b)))
         (\<lambda>proofs. Inr \<lparr>mr_proofs = proofs, mr_chunk_count = length (pb_addresses b), mr_storage_cost = 0,
                         mr_gas_cost = 0, mr_timestamp = pb_timestamp b\<rparr>))"

subsection \<open>Paying\<close>

definition pay_for_merkle_single_batch ::
  "('c, 't, 'ap, 'm) merkle_api \<Rightarrow> ('s, 'm) pay_env \<Rightarrow> key list \<Rightarrow> ('s, error, merkle_batch_payment_result) op" where
  "pay_for_merkle_single_batch api env addresses s =
     (if \<not> has_wallet env s then (Inl Payment, s)
      else bind_op (prepare_merkle_batch_external_observed api env addresses)
        (\<lambda>prepared. bind_op (pay_for_merkle_tree env (pb_depth prepared) (pb_pool_commitments prepared) (pb_timestamp prepared))
        (\<lambda>(winner, paid, gas). bind_op (lift_result (finalize_merkle_batch api prepared winner))
        (\<lambda>r. ok_op (r\<lparr>mr_storage_cost := paid, mr_gas_cost := gas\<rparr>)))) s)"

record paid_so_far =
  pf_proofs :: proofs
  pf_storage :: amount_word
  pf_gas :: nat
  pf_oldest :: nat

definition note_paid :: "paid_so_far \<Rightarrow> merkle_batch_payment_result \<Rightarrow> paid_so_far" where
  "note_paid acc r =
     acc\<lparr>pf_storage := pf_storage acc + mr_storage_cost r,
         pf_gas := sat_add_u128 (pf_gas acc) (mr_gas_cost r),
         pf_oldest := (if pf_oldest acc = 0 \<or> (0 < mr_timestamp r \<and> mr_timestamp r < pf_oldest acc)
                       then mr_timestamp r else pf_oldest acc),
         pf_proofs := extend_proofs (pf_proofs acc) (mr_proofs r)\<rparr>"

definition payment_result :: "paid_so_far \<Rightarrow> nat \<Rightarrow> merkle_batch_payment_result" where
  "payment_result acc cnt =
     \<lparr>mr_proofs = pf_proofs acc, mr_chunk_count = cnt, mr_storage_cost = pf_storage acc,
      mr_gas_cost = pf_gas acc, mr_timestamp = pf_oldest acc\<rparr>"

fun multi_batch_loop ::
  "(key list \<Rightarrow> ('s, error, merkle_batch_payment_result) op) \<Rightarrow> nat \<Rightarrow> paid_so_far \<Rightarrow> key list list \<Rightarrow>
     ('s, error, merkle_batch_payment_result) op" where
  "multi_batch_loop pay n acc [] s = (Inr (payment_result acc n), s)"
| "multi_batch_loop pay n acc (b # bs) s =
     (case pay b s of
        (Inr r, s') \<Rightarrow> multi_batch_loop pay n (note_paid acc r) bs s'
      | (Inl e, s') \<Rightarrow>
          if pf_proofs acc = [] then (Inl e, s')
          else (Inr (payment_result acc (length (pf_proofs acc))), s'))"

definition pay_for_merkle_multi_batch ::
  "('c, 't, 'ap, 'm) merkle_api \<Rightarrow> ('s, 'm) pay_env \<Rightarrow> key list \<Rightarrow> ('s, error, merkle_batch_payment_result) op" where
  "pay_for_merkle_multi_batch api env addresses =
     multi_batch_loop (pay_for_merkle_single_batch api env) (length addresses)
       \<lparr>pf_proofs = [], pf_storage = 0, pf_gas = 0, pf_oldest = 0\<rparr>
       (merkle_batch_partitions (MAX_LEAVES api) addresses)"

definition pay_for_merkle_batch ::
  "('c, 't, 'ap, 'm) merkle_api \<Rightarrow> ('s, 'm) pay_env \<Rightarrow> key list \<Rightarrow> ('s, error, merkle_batch_payment_result) op" where
  "pay_for_merkle_batch api env addresses s =
     (if corroborated_settlement_refusal env s then (Inl ClientUpdateRequired, s)
      else if length addresses < 2 then (Inl Payment, s)
      else if MAX_LEAVES api < length addresses then pay_for_merkle_multi_batch api env addresses s
      else pay_for_merkle_single_batch api env addresses s)"

definition merge_merkle_batch_results :: "merkle_batch_payment_result list \<Rightarrow> merkle_batch_payment_result" where
  "merge_merkle_batch_results results =
     payment_result (foldl note_paid \<lparr>pf_proofs = [], pf_storage = 0, pf_gas = 0, pf_oldest = 0\<rparr> results)
       (sum_list (map mr_chunk_count results))"

subsection \<open>Nothing paid is lost\<close>

lemma fst_update: "fst ` set (AList.update k v m) = insert k (fst ` set m)"
  by (simp add: dom_map_of_conv_image_fst [symmetric] update_conv')

lemma finalize_loop_dom:
  "finalize_loop api tree winner proofs xs = Inr ps \<Longrightarrow> fst ` set ps = fst ` set proofs \<union> snd ` set xs"
proof (induction xs arbitrary: proofs)
  case (Cons x xs)
  obtain i address where x: "x = (i, address)" by (cases x)
  from Cons.prems obtain tagged where "finalize_loop api tree winner (AList.update address tagged proofs) xs = Inr ps"
    by (auto simp: x results)
  from Cons.IH [OF this] show ?case by (simp add: x fst_update)
qed simp

lemma finalize_dom:
  assumes "finalize_merkle_batch api b winner = Inr r"
  shows "fst ` set (mr_proofs r) = set (pb_addresses b)"
proof -
  from assms obtain w where "finalize_loop api (pb_tree b) w [] (enumerate 0 (pb_addresses b)) = Inr (mr_proofs r)"
    by (auto simp: finalize_merkle_batch_def results)
  from finalize_loop_dom [OF this] show ?thesis by (simp flip: set_map)
qed

lemma prepare_addresses:
  "prepare_merkle_batch_external_observed api env addresses s = (Inr b, s') \<Longrightarrow> pb_addresses b = addresses"
  by (auto simp: prepare_merkle_batch_external_observed_def results lift_result_def case_prod_unfold split: if_splits)

lemma single_batch_dom:
  assumes "pay_for_merkle_single_batch api env addresses s = (Inr r, s')"
  shows "fst ` set (mr_proofs r) = set addresses"
proof -
  from assms obtain b s1 w f where b: "prepare_merkle_batch_external_observed api env addresses s = (Inr b, s1)"
    and f: "finalize_merkle_batch api b w = Inr f" and r: "mr_proofs r = mr_proofs f"
    by (auto simp: pay_for_merkle_single_batch_def results lift_result_def split: if_splits)
  show ?thesis using finalize_dom [OF f] prepare_addresses [OF b] r by simp
qed

text \<open>
  The batches a payment run settles: the longest prefix whose payments all succeed, with the
  results in order and, when the run stops, the error that stopped it.
\<close>

fun settled_prefix ::
  "(key list \<Rightarrow> ('s, error, merkle_batch_payment_result) op) \<Rightarrow> key list list \<Rightarrow> 's \<Rightarrow>
     (key list \<times> merkle_batch_payment_result) list \<times> error option \<times> 's" where
  "settled_prefix pay [] s = ([], None, s)"
| "settled_prefix pay (b # bs) s =
     (case pay b s of
        (Inl e, s') \<Rightarrow> ([], Some e, s')
      | (Inr r, s') \<Rightarrow> (case settled_prefix pay bs s' of (rs, e, s'') \<Rightarrow> ((b, r) # rs, e, s'')))"

lemma multi_batch_loop_eq:
  "multi_batch_loop pay n acc bs s =
     (case settled_prefix pay bs s of
        (rs, None, s') \<Rightarrow> (Inr (payment_result (foldl note_paid acc (map snd rs)) n), s')
      | (rs, Some e, s') \<Rightarrow>
          let acc' = foldl note_paid acc (map snd rs)
          in if pf_proofs acc' = [] then (Inl e, s')
             else (Inr (payment_result acc' (length (pf_proofs acc'))), s'))"
  by (induction bs arbitrary: acc s) (auto split: prod.splits sum.splits option.splits simp: Let_def)

lemma note_paid_dom:
  "fst ` set (pf_proofs (foldl note_paid acc rs)) = fst ` set (pf_proofs acc) \<union> (\<Union>r \<in> set rs. fst ` set (mr_proofs r))"
proof (induction rs arbitrary: acc)
  case (Cons r rs)
  have "fst ` set (pf_proofs (note_paid acc r)) = fst ` set (pf_proofs acc) \<union> fst ` set (mr_proofs r)"
    using dom_extend [of "pf_proofs acc" "mr_proofs r"] by (simp add: note_paid_def dom_map_of_conv_image_fst)
  then show ?case using Cons.IH [of "note_paid acc r"] by auto
qed simp

lemma settled_prefix_dom:
  assumes "\<And>b s r s'. pay b s = (Inr r, s') \<Longrightarrow> fst ` set (mr_proofs r) = set b"
    and "settled_prefix pay bs s = (rs, e, s')"
  shows "(\<Union>r \<in> set (map snd rs). fst ` set (mr_proofs r)) = (\<Union>b \<in> fst ` set rs. set b) \<and>
    map fst rs = take (length rs) bs \<and> (e = None \<longrightarrow> length rs = length bs)"
  using assms(2)
proof (induction bs arbitrary: s rs)
  case (Cons b bs)
  obtain res s1 where p: "pay b s = (res, s1)" by (cases "pay b s")
  show ?case
  proof (cases res)
    case (Inl e')
    with Cons.prems p show ?thesis by auto
  next
    case (Inr r)
    obtain rs' e' s2 where q: "settled_prefix pay bs s1 = (rs', e', s2)" by (cases "settled_prefix pay bs s1")
    with Cons.prems p Inr have rs: "rs = (b, r) # rs'" "e' = e" "s2 = s'" by auto
    from assms(1) [of b s r s1] p Inr have "fst ` set (mr_proofs r) = set b" by simp
    with Cons.IH [of s1 rs'] q rs show ?thesis by simp
  qed
qed simp

lemma batches_nonempty:
  assumes "3 \<le> max_leaves" and "2 \<le> length addresses"
  shows "merkle_batch_partitions max_leaves addresses \<noteq> []"
    and "b \<in> set (merkle_batch_partitions max_leaves addresses) \<Longrightarrow> b \<noteq> []"
  using batches_are_trees [OF assms, of max_leaves] assms(2)
  by (force simp: merkle_batch_partitions_def)+


text \<open>A wallet that pays every tree but the one whose first pool is hashed 3.\<close>

definition tiny_pay_env :: "(nat, key) pay_env" where
  "tiny_pay_env =
     \<lparr>corroborated_settlement_refusal = (\<lambda>_. False), unix_now = (\<lambda>_. Some 7),
      gather_pools = (\<lambda>ms ts n. (map (\<lambda>m. Inr \<lparr>pl_midpoint = m, pl_candidates = []\<rparr>) ms, n)),
      has_wallet = (\<lambda>_. True),
      pay_for_merkle_tree = (\<lambda>depth pools ts n. if pc_hash (hd pools) = [5] then (Inl Payment, n)
                              else (Inr (pc_hash (hd pools), 10, 1), n + 1))\<rparr>"


end
