(* ===== verification/Merkle_Store.thy ===== *)
theory Merkle_Store
  imports Merkle_Pay Engine
begin

text \<open>
  Storing the chunks of paid merkle batches, \<^verbatim>\<open>ant-core/src/data/client/merkle.rs\<close>:
  one pass over a set of addresses with bounded retry of quorum shortfalls, and the deferred
  rounds over the chunks left short. A pass completes its stores in any order, so the order is
  given by the parameter \<open>run\<close>, which launches a list of addresses and returns their results
  in completion order; consuming stops at a fatal error, and what completes later is not seen.
  A failed address carries its error in place of the error's text.
\<close>

record wave_aggregate_stats =
  ws_attempts :: nat
  ws_durations :: "nat list"
  ws_histogram :: "nat list"

definition no_stats :: wave_aggregate_stats where
  "no_stats = \<lparr>ws_attempts = 0, ws_durations = [], ws_histogram = [0, 0, 0, 0]\<rparr>"

definition bump :: "nat \<Rightarrow> nat list \<Rightarrow> nat list" where
  "bump i h = h[i := sat_add (h ! i) 1]"

record merkle_store_outcome =
  mo_stored :: nat
  mo_stored_addresses :: "key list"
  mo_failed :: nat
  mo_failed_addresses :: "(key \<times> error) list"
  mo_fatal :: "error option"
  mo_stats :: wave_aggregate_stats

definition store_outcome_new :: "nat \<Rightarrow> merkle_store_outcome" where
  "store_outcome_new stored_offset =
     \<lparr>mo_stored = stored_offset, mo_stored_addresses = [], mo_failed = 0, mo_failed_addresses = [],
      mo_fatal = None, mo_stats = no_stats\<rparr>"

definition recoverable_put :: "error \<Rightarrow> bool" where
  "recoverable_put e \<longleftrightarrow> e \<in> {InsufficientPeers, CloseGroupShortfall, RemotePut}"

type_synonym completion = "key \<times> (error, nat) result"

definition note_stored :: "nat \<Rightarrow> key \<Rightarrow> nat \<Rightarrow> merkle_store_outcome \<Rightarrow> merkle_store_outcome" where
  "note_stored attempt addr duration_ms out =
     (let st = mo_stats out; i = min attempt (length (ws_histogram st) - 1)
      in out\<lparr>mo_stats := st\<lparr>ws_durations := ws_durations st @ [duration_ms],
                            ws_histogram := bump i (ws_histogram st)\<rparr>,
             mo_stored := mo_stored out + 1,
             mo_stored_addresses := mo_stored_addresses out @ [addr]\<rparr>)"

definition count_attempt :: "merkle_store_outcome \<Rightarrow> merkle_store_outcome" where
  "count_attempt out =
     out\<lparr>mo_stats := (mo_stats out)\<lparr>ws_attempts := sat_add (ws_attempts (mo_stats out)) 1\<rparr>\<rparr>"

fun store_pass ::
  "nat \<Rightarrow> merkle_store_outcome \<Rightarrow> (key \<times> error) list \<Rightarrow> completion list \<Rightarrow>
     merkle_store_outcome \<times> (key \<times> error) list" where
  "store_pass attempt out next_failed [] = (out, next_failed)"
| "store_pass attempt out next_failed ((addr, r) # rest) =
     (case r of
        Inr duration_ms \<Rightarrow> store_pass attempt (note_stored attempt addr duration_ms (count_attempt out)) next_failed rest
      | Inl e \<Rightarrow>
          if recoverable_put e then store_pass attempt (count_attempt out) (next_failed @ [(addr, e)]) rest
          else ((count_attempt out)\<lparr>mo_fatal := Some e\<rparr>, next_failed @ [(addr, e)]))"

type_synonym 's runner = "nat \<Rightarrow> key list \<Rightarrow> 's \<Rightarrow> completion list \<times> 's"

fun store_rounds ::
  "'s runner \<Rightarrow> nat \<Rightarrow> nat \<Rightarrow> merkle_store_outcome \<Rightarrow> key list \<Rightarrow> 's \<Rightarrow> merkle_store_outcome \<times> 's" where
  "store_rounds run 0 attempt out pending s = (out, s)"
| "store_rounds run (Suc left) attempt out pending s =
     (case run attempt pending s of
        (completions, s') \<Rightarrow>
          (case store_pass attempt out [] completions of
             (out, next_failed) \<Rightarrow>
               if mo_fatal out \<noteq> None then
                 (out\<lparr>mo_failed := length next_failed, mo_failed_addresses := next_failed\<rparr>, s')
               else if next_failed = [] then (out, s')
               else if left = 0 then
                 (out\<lparr>mo_failed := length next_failed, mo_failed_addresses := next_failed\<rparr>, s')
               else store_rounds run left (attempt + 1) out (map fst next_failed) s'))"

definition merkle_store_with_retry ::
  "'s runner \<Rightarrow> key list \<Rightarrow> nat \<Rightarrow> nat \<Rightarrow> 's \<Rightarrow> merkle_store_outcome \<times> 's" where
  "merkle_store_with_retry run addrs max_attempts stored_offset s =
     store_rounds run (max max_attempts 1) 0 (store_outcome_new stored_offset) addrs s"

subsection \<open>Deferred rounds\<close>

definition DEFERRED_ROUND_DELAYS_SECS :: "nat list" where "DEFERRED_ROUND_DELAYS_SECS = [0, 15, 45]"

definition deferred_round_histogram_slot :: "nat \<Rightarrow> nat \<Rightarrow> nat" where
  "deferred_round_histogram_slot round hist_len = min (round + 1) (hist_len - 1)"

definition merge_round_stats :: "nat \<Rightarrow> wave_aggregate_stats \<Rightarrow> wave_aggregate_stats \<Rightarrow> wave_aggregate_stats" where
  "merge_round_stats slot st r =
     st\<lparr>ws_attempts := sat_add (ws_attempts st) (ws_attempts r),
        ws_durations := ws_durations st @ ws_durations r,
        ws_histogram := (ws_histogram st)[slot := sat_add (ws_histogram st ! slot) (sum_list (ws_histogram r))]\<rparr>"

fun deferred_rounds ::
  "'s runner \<Rightarrow> nat \<Rightarrow> nat list \<Rightarrow> merkle_store_outcome \<Rightarrow> (key \<times> error) list \<Rightarrow> 's \<Rightarrow>
     merkle_store_outcome \<times> 's" where
  "deferred_rounds run round [] out remaining s =
     (out\<lparr>mo_failed := length remaining, mo_failed_addresses := remaining\<rparr>, s)"
| "deferred_rounds run round (delay # delays) out remaining s =
     (if remaining = [] then (out\<lparr>mo_failed := 0, mo_failed_addresses := []\<rparr>, s)
      else
        let slot = deferred_round_histogram_slot round (length (ws_histogram (mo_stats out)))
        in (case merkle_store_with_retry (\<lambda>_. run delay) (map fst remaining) 1 (mo_stored out) s of
              (r, s') \<Rightarrow>
                let out = out\<lparr>mo_stored := mo_stored r,
                              mo_stored_addresses := mo_stored_addresses out @ mo_stored_addresses r,
                              mo_stats := merge_round_stats slot (mo_stats out) (mo_stats r)\<rparr>
                in if mo_fatal r \<noteq> None then
                     (out\<lparr>mo_fatal := mo_fatal r, mo_failed := length (mo_failed_addresses r),
                          mo_failed_addresses := mo_failed_addresses r\<rparr>, s')
                   else deferred_rounds run (round + 1) delays out (mo_failed_addresses r) s'))"

definition merkle_deferred_retry ::
  "'s runner \<Rightarrow> (key \<times> error) list \<Rightarrow> nat list \<Rightarrow> nat \<Rightarrow> 's \<Rightarrow> merkle_store_outcome \<times> 's" where
  "merkle_deferred_retry run deferred round_delays_secs stored_offset s =
     deferred_rounds run 0 round_delays_secs (store_outcome_new stored_offset) deferred s"

subsection \<open>Accounting\<close>

text \<open>Every address launched completes once.\<close>

definition complete_runner :: "'s runner \<Rightarrow> bool" where
  "complete_runner run \<longleftrightarrow> (\<forall>k pending s. mset (map fst (fst (run k pending s))) = mset pending)"

lemma rolling_complete_runner:
  "complete_runner (\<lambda>k pending. rolling_unordered (complete k) pending cap)"
  by (simp add: complete_runner_def rolling_mset del: mset_map)

lemma count_attempt_simps [simp]:
  "mo_stored (count_attempt out) = mo_stored out"
  "mo_stored_addresses (count_attempt out) = mo_stored_addresses out"
  "mo_failed_addresses (count_attempt out) = mo_failed_addresses out"
  "mo_failed (count_attempt out) = mo_failed out"
  "mo_fatal (count_attempt out) = mo_fatal out"
  "ws_histogram (mo_stats (count_attempt out)) = ws_histogram (mo_stats out)"
  by (simp_all add: count_attempt_def)

lemma note_stored_simps [simp]:
  "mo_stored (note_stored k a d out) = mo_stored out + 1"
  "mo_stored_addresses (note_stored k a d out) = mo_stored_addresses out @ [a]"
  "mo_failed_addresses (note_stored k a d out) = mo_failed_addresses out"
  "mo_failed (note_stored k a d out) = mo_failed out"
  "mo_fatal (note_stored k a d out) = mo_fatal out"
  "ws_histogram (mo_stats (note_stored k a d out)) =
     bump (min k (length (ws_histogram (mo_stats out)) - 1)) (ws_histogram (mo_stats out))"
  by (simp_all add: note_stored_def Let_def)

text \<open>The addresses a pass has settled, and the law that a pass settles what it consumes.\<close>

definition settled :: "merkle_store_outcome \<Rightarrow> (key \<times> error) list \<Rightarrow> key multiset" where
  "settled out failed = mset (mo_stored_addresses out) + mset (map fst failed)"

definition tallied :: "merkle_store_outcome \<Rightarrow> nat \<Rightarrow> bool" where
  "tallied out offset \<longleftrightarrow> mo_stored out = offset + length (mo_stored_addresses out)"

lemma store_pass_spec:
  assumes "store_pass attempt out failed cs = (out', failed')" and "mo_fatal out = None"
    and "tallied out offset"
  shows "tallied out' offset \<and>
    settled out' failed' \<subseteq># settled out failed + mset (map fst cs) \<and>
    (mo_fatal out' = None \<longrightarrow> settled out' failed' = settled out failed + mset (map fst cs)) \<and>
    mo_failed_addresses out' = mo_failed_addresses out \<and> mo_failed out' = mo_failed out"
  using assms
proof (induction attempt out failed cs rule: store_pass.induct)
  case (2 attempt out failed addr r rest)
  show ?case
  proof (cases r)
    case (Inr d)
    with 2 have "store_pass attempt (note_stored attempt addr d (count_attempt out)) failed rest = (out', failed')"
      by simp
    from 2(2) [OF Inr this] 2(4,5) show ?thesis by (simp add: tallied_def settled_def)
  next
    case (Inl e)
    show ?thesis
    proof (cases "recoverable_put e")
      case True
      with 2 Inl have "store_pass attempt (count_attempt out) (failed @ [(addr, e)]) rest = (out', failed')"
        by simp
      from 2(1) [OF Inl True this] 2(4,5) show ?thesis by (simp add: tallied_def settled_def)
    next
      case False
      with 2 Inl show ?thesis by (auto simp: tallied_def settled_def)
    qed
  qed
qed simp

lemma store_rounds_spec:
  assumes "store_rounds run n attempt out pending s = (out', s')" and "complete_runner run"
    and "mo_fatal out = None" and "tallied out offset" and "mo_failed_addresses out = []" and "mo_failed out = 0"
    and "n > 0"
  shows "tallied out' offset \<and> mo_failed out' = length (mo_failed_addresses out') \<and>
    settled out' (mo_failed_addresses out') \<subseteq># settled out [] + mset pending \<and>
    (mo_fatal out' = None \<longrightarrow> settled out' (mo_failed_addresses out') = settled out [] + mset pending)"
  using assms
proof (induction run n attempt out pending s rule: store_rounds.induct)
  case (2 run left attempt out pending s)
  obtain cs s1 where run: "run attempt pending s = (cs, s1)" by fastforce
  obtain out1 failed where pass: "store_pass attempt out [] cs = (out1, failed)" by fastforce
  have cs: "mset (map fst cs) = mset pending"
    using 2(3) by (metis complete_runner_def fst_conv run)
  note spec = store_pass_spec [OF pass 2(4,5), unfolded cs]
  show ?case
  proof (cases "mo_fatal out1 \<noteq> None \<or> failed = [] \<or> left = 0")
    case True
    then show ?thesis using 2(2,6,7) spec
      by (auto simp: run pass tallied_def settled_def split: if_splits)
  next
    case False
    then have step: "store_rounds run left (attempt + 1) out1 (map fst failed) s1 = (out', s')"
      using 2(2) by (simp add: run pass)
    have eq: "settled out1 [] + mset (map fst failed) = settled out [] + mset pending"
      using spec False by (simp add: settled_def)
    from 2(1) [OF run [symmetric] pass [symmetric]] False step 2(3,6,7) spec
    show ?thesis by (simp add: eq del: mset_map)
  qed
qed simp

lemma settled_new [simp]: "settled (store_outcome_new k) [] = {#}" "tallied (store_outcome_new k) k"
  "mo_fatal (store_outcome_new k) = None" "mo_failed_addresses (store_outcome_new k) = []"
  "mo_failed (store_outcome_new k) = 0" "mo_stored_addresses (store_outcome_new k) = []"
  by (simp_all add: settled_def tallied_def store_outcome_new_def)

lemma store_with_retry_spec:
  assumes "merkle_store_with_retry run addrs k offset s = (out, s')" and "complete_runner run"
  shows "tallied out offset \<and> mo_failed out = length (mo_failed_addresses out) \<and>
    settled out (mo_failed_addresses out) \<subseteq># mset addrs \<and>
    (mo_fatal out = None \<longrightarrow> settled out (mo_failed_addresses out) = mset addrs)"
  using store_rounds_spec [OF assms(1) [unfolded merkle_store_with_retry_def] assms(2), of offset] by simp

lemma deferred_rounds_spec:
  assumes "deferred_rounds run round ds out remaining s = (out', s')" and "complete_runner run"
    and "tallied out offset" and "mo_fatal out = None"
  shows "tallied out' offset \<and> mo_failed out' = length (mo_failed_addresses out') \<and>
    settled out' (mo_failed_addresses out') \<subseteq># settled out remaining \<and>
    (mo_fatal out' = None \<longrightarrow> settled out' (mo_failed_addresses out') = settled out remaining)"
  using assms
proof (induction run round ds out remaining s rule: deferred_rounds.induct)
  case (1 run round out remaining s)
  then show ?case by (auto simp: tallied_def settled_def)
next
  case (2 run round delay delays out remaining s)
  show ?case
  proof (cases "remaining = []")
    case True
    with 2(2-) show ?thesis by (auto simp: tallied_def settled_def)
  next
    case False
    obtain r s1 where sub: "merkle_store_with_retry (\<lambda>_. run delay) (map fst remaining) 1 (mo_stored out) s = (r, s1)"
      by fastforce
    have "complete_runner (\<lambda>_. run delay)" using 2(3) by (simp add: complete_runner_def)
    note spec = store_with_retry_spec [OF sub this]
    define out1 where "out1 = out\<lparr>mo_stored := mo_stored r,
      mo_stored_addresses := mo_stored_addresses out @ mo_stored_addresses r,
      mo_stats := merge_round_stats (deferred_round_histogram_slot round (length (ws_histogram (mo_stats out))))
                    (mo_stats out) (mo_stats r)\<rparr>"
    have tally: "tallied out1 offset" using spec 2(4) by (simp add: out1_def tallied_def)
    have settled: "settled out1 fs = mset (mo_stored_addresses out) + settled r fs" for fs
      by (simp add: out1_def settled_def)
    show ?thesis
    proof (cases "mo_fatal r")
      case None
      then have step: "deferred_rounds run (round + 1) delays out1 (mo_failed_addresses r) s1 = (out', s')"
        using 2(2) False by (simp add: sub [unfolded One_nat_def] Let_def out1_def)
      have "settled out1 (mo_failed_addresses r) = settled out remaining"
        unfolding settled using spec None by (simp add: settled_def)
      with 2(1) [OF False refl sub [symmetric] out1_def] None step 2(3) tally 2(5)
      show ?thesis by (simp add: out1_def)
    next
      case (Some e)
      then have out': "out' = out1\<lparr>mo_fatal := mo_fatal r, mo_failed := length (mo_failed_addresses r),
          mo_failed_addresses := mo_failed_addresses r\<rparr>"
        using 2(2) False by (simp add: sub [unfolded One_nat_def] Let_def out1_def)
      have "settled out' (mo_failed_addresses out') = settled out1 (mo_failed_addresses r)"
        by (simp add: out' settled_def)
      then show ?thesis using spec Some tally
        by (simp add: out' settled tallied_def) (simp add: settled_def)
    qed
  qed
qed

lemma distinct_submset:
  assumes "mset xs \<subseteq># mset ys" and "distinct ys"
  shows "distinct xs"
proof -
  have "count (mset ys) a \<le> 1" for a using assms(2) by (simp add: distinct_count_atmost_1)
  then have "count (mset xs) a \<le> 1" for a
    using mset_subset_eq_count [OF assms(1), of a] order_trans by blast
  moreover have "count (mset xs) a \<noteq> 0 \<longleftrightarrow> a \<in> set xs" for a by simp
  ultimately show ?thesis unfolding distinct_count_atmost_1 by (metis le_neq_implies_less less_one)
qed

lemma accounted:
  assumes "complete_runner run" and "complete_runner again" and "distinct addrs"
    and "merkle_store_with_retry run addrs k offset s = (out, s1)" and "mo_fatal out = None"
    and "merkle_deferred_retry again (mo_failed_addresses out) delays (mo_stored out) s1 = (out2, s2)"
  shows "mset (mo_stored_addresses out @ mo_stored_addresses out2 @ map fst (mo_failed_addresses out2)) \<subseteq># mset addrs"
    and "mo_fatal out2 = None \<Longrightarrow>
      mset (mo_stored_addresses out @ mo_stored_addresses out2 @ map fst (mo_failed_addresses out2)) = mset addrs"
    and "mo_stored out2 = offset + length (mo_stored_addresses out @ mo_stored_addresses out2)"
proof -
  have first: "mset (mo_stored_addresses out) + mset (map fst (mo_failed_addresses out)) = mset addrs"
    and "mo_stored out = offset + length (mo_stored_addresses out)"
    using store_with_retry_spec [OF assms(4,1)] assms(5) by (simp_all add: settled_def tallied_def)
  moreover note deferred_rounds_spec [OF assms(6) [unfolded merkle_deferred_retry_def] assms(2) settled_new(2,3)]
  ultimately show
      "mset (mo_stored_addresses out @ mo_stored_addresses out2 @ map fst (mo_failed_addresses out2)) \<subseteq># mset addrs"
    and "mo_fatal out2 = None \<Longrightarrow>
      mset (mo_stored_addresses out @ mo_stored_addresses out2 @ map fst (mo_failed_addresses out2)) = mset addrs"
    and "mo_stored out2 = offset + length (mo_stored_addresses out @ mo_stored_addresses out2)"
    by (auto simp: settled_def tallied_def simp flip: first)
qed

text \<open>C18: Storing loses track of no paid chunk. When a first pass with retries ends without a fatal
  error and its shortfalls go through the deferred rounds, an address is reported stored or failed
  at most once and never both, only addresses of the upload are reported, every address is
  reported when the deferred rounds meet no fatal error either, and the count of stored chunks is
  the offset plus the number of addresses reported stored.\<close>

theorem paid_chunks_stay_accounted:
  assumes "complete_runner run" and "complete_runner again" and "distinct addrs"
    and "merkle_store_with_retry run addrs k offset s = (out, s1)" and "mo_fatal out = None"
    and "merkle_deferred_retry again (mo_failed_addresses out) delays (mo_stored out) s1 = (out2, s2)"
  shows "let stored = mo_stored_addresses out @ mo_stored_addresses out2;
             failed = map fst (mo_failed_addresses out2)
         in distinct (stored @ failed) \<and> set (stored @ failed) \<subseteq> set addrs \<and>
            (mo_fatal out2 = None \<longrightarrow> set (stored @ failed) = set addrs) \<and>
            mo_stored out2 = offset + length stored"
proof -
  note acc = accounted [OF assms]
  have "distinct (mo_stored_addresses out @ mo_stored_addresses out2 @ map fst (mo_failed_addresses out2))"
    using distinct_submset [OF acc(1) assms(3)] .
  moreover have "set (mo_stored_addresses out @ mo_stored_addresses out2 @ map fst (mo_failed_addresses out2)) \<subseteq> set addrs"
    using acc(1) by (metis set_mset_mono set_mset_mset)
  moreover have "mo_fatal out2 = None \<Longrightarrow>
      set (mo_stored_addresses out @ mo_stored_addresses out2 @ map fst (mo_failed_addresses out2)) = set addrs"
    using acc(2) by (metis set_mset_mset)
  ultimately show ?thesis using acc(3) by (auto simp: Let_def)
qed

text \<open>A runner that completes launches in reverse and answers from a plan per address: an address
  fails while its plan is not empty, and stores afterwards.\<close>

definition scripted :: "(key \<times> nat) list runner" where
  "scripted k pending plan =
     (rev (map (\<lambda>a. (a, if map_of plan a \<notin> {None, Some 0} then Inl CloseGroupShortfall else Inr 7)) pending),
      map (\<lambda>(a, n). (a, if a \<in> set pending then n - 1 else n)) plan)"

lemma complete_scripted [simp]: "complete_runner scripted"
  by (simp add: complete_runner_def scripted_def image_mset.compositionality comp_def)

theorem paid_chunks_stay_accounted_witness:
  "\<exists>out s1 out2 s2.
     merkle_store_with_retry scripted [[1], [2], [3]] 2 0 [([2], 3), ([3], 9)] = (out, s1) \<and> mo_fatal out = None \<and>
     merkle_deferred_retry scripted (mo_failed_addresses out) DEFERRED_ROUND_DELAYS_SECS (mo_stored out) s1 = (out2, s2) \<and>
     mo_stored_addresses out @ mo_stored_addresses out2 = [[1], [2]] \<and> map fst (mo_failed_addresses out2) = [[3]] \<and>
     distinct [[1], [2], [3 :: u8]] \<and> mo_stored out2 = 2"
proof -
  note eval = merkle_store_with_retry_def merkle_deferred_retry_def DEFERRED_ROUND_DELAYS_SECS_def scripted_def
    store_outcome_new_def no_stats_def recoverable_put_def numeral_eq_Suc
  obtain out s1 where first: "merkle_store_with_retry scripted [[1], [2], [3]] 2 0 [([2], 3), ([3], 9)] = (out, s1)"
    by fastforce
  then have out: "mo_fatal out = None" "mo_stored_addresses out = [[1]]" "mo_failed_addresses out = [([2], CloseGroupShortfall), ([3], CloseGroupShortfall)]"
    "s1 = [([2], 1), ([3], 7)]" "mo_stored out = 1"
    by (auto simp: eval)
  obtain out2 s2 where later: "merkle_deferred_retry scripted (mo_failed_addresses out) DEFERRED_ROUND_DELAYS_SECS (mo_stored out) s1 = (out2, s2)"
    by fastforce
  then have "mo_stored_addresses out2 = [[2]]" "map fst (mo_failed_addresses out2) = [[3]]" "mo_fatal out2 = None"
    by (auto simp: eval out Let_def)
  with paid_chunks_stay_accounted [OF complete_scripted complete_scripted _ first out(1) later] first later out
  show ?thesis by (auto simp: Let_def)
qed

end
