(* ===== verification/Batch.thy ===== *)
theory Batch
  imports Payment_Policy Merkle_Store Float64 Rust_Text
begin

text \<open>
  Single-node payment plans and waves, \<^verbatim>\<open>ant-core/src/data/client/batch.rs\<close>, with the
  conversion of wallet failures of \<^verbatim>\<open>data/error.rs\<close>. The quote hash, the content
  address, the proof encodings and the signature check belong to the protocol crate and are the
  operations of \<open>proof_api\<close>; the wallet and the network are operations on the state of the world.
  A system time is an \<open>int\<close>, in nanoseconds since the Unix epoch. Amounts are 256-bit words whose
  addition wraps.
\<close>

type_synonym system_time = int

definition nanos :: "nat \<Rightarrow> int" where "nanos secs = int secs * 1000000000"

record payment_quote =
  pq_content :: key
  pq_timestamp :: system_time
  pq_price :: amount_word
  pq_rewards_address :: bytes
  pq_pub_key :: bytes
  pq_signature :: bytes
  pq_committed_key_count :: nat
  pq_commitment_pin :: "key option"

type_synonym peer_quotes = "(key \<times> payment_quote) list"

record payment_proof =
  pp_peer_quotes :: peer_quotes
  pp_tx_hashes :: "key list"
  pp_commitment_sidecars :: "bytes list"

record proof_api =
  quote_hash :: "payment_quote \<Rightarrow> key"
  compute_address :: "bytes \<Rightarrow> key"
  CLOSE_GROUP :: nat
  MAX_CHUNK_SIZE :: nat
  DATA_TYPE_CHUNK :: nat
  serialize_single_node_proof :: "payment_proof \<Rightarrow> bytes option"
  deserialize_proof :: "bytes \<Rightarrow> (peer_quotes \<times> key list) option"

section \<open>Wallet failures\<close>

definition INSUFFICIENT_TOKENS :: string where
  "INSUFFICIENT_TOKENS = ''Insufficient tokens to pay for quotes. Have: ''"

text \<open>\<open>parse\<close> reads an amount; it belongs to the integer library.\<close>

definition insufficient_funds :: "(string \<Rightarrow> amount_word option) \<Rightarrow> string \<Rightarrow> error option" where
  "insufficient_funds parse message =
     (case split_once INSUFFICIENT_TOKENS message of
        None \<Rightarrow> None
      | Some (_, tail) \<Rightarrow>
          (case split_once '' atto, need: '' tail of
             None \<Rightarrow> None
           | Some (have, rest) \<Rightarrow>
               (case split_once '' atto'' rest of
                  None \<Rightarrow> None
                | Some (need, _) \<Rightarrow>
                    (case parse have of
                       None \<Rightarrow> None
                     | Some h \<Rightarrow> map_option (InsufficientFunds h) (parse need)))))"

definition from_payment_failure :: "(string \<Rightarrow> amount_word option) \<Rightarrow> string \<Rightarrow> error" where
  "from_payment_failure parse message =
     (case insufficient_funds parse message of Some e \<Rightarrow> e | None \<Rightarrow> Payment)"

section \<open>Payment plans\<close>

record quote_payment_info =
  qi_quote_hash :: key
  qi_rewards_address :: bytes
  qi_amount :: amount_word
  qi_price :: amount_word

record single_node_quote_payment =
  snp_quotes :: "quote_payment_info list"

definition from_quotes :: "proof_api \<Rightarrow> payment_quote list \<Rightarrow> (error, single_node_quote_payment) result" where
  "from_quotes api quotes =
     bind_result (map_err (\<lambda>_. Payment) (from_prices (CLOSE_GROUP api) (map pq_price quotes)))
       (\<lambda>plan. Inr \<lparr>snp_quotes =
          map (\<lambda>planned. let quote = quotes ! quote_index planned
                         in \<lparr>qi_quote_hash = quote_hash api quote, qi_rewards_address = pq_rewards_address quote,
                             qi_amount = amount planned, qi_price = pq_price quote\<rparr>)
            (plan_quotes plan)\<rparr>)"

definition total_amount :: "single_node_quote_payment \<Rightarrow> amount_word" where
  "total_amount p = sum_list (map qi_amount (snp_quotes p))"

type_synonym quote_payment = "key \<times> bytes \<times> amount_word"
type_synonym tx_map = "key \<rightharpoonup> key"

definition quote_payments :: "single_node_quote_payment \<Rightarrow> quote_payment list" where
  "quote_payments p = map (\<lambda>q. (qi_quote_hash q, qi_rewards_address q, qi_amount q)) (snp_quotes p)"

text \<open>The transactions of the non-zero entries, in order; a missing one is an error.\<close>

definition collect_tx_hashes :: "tx_map \<Rightarrow> quote_payment_info list \<Rightarrow> (error, key list) result" where
  "collect_tx_hashes txs infos =
     collect_result (\<lambda>q. ok_or (txs (qi_quote_hash q)) Payment) (filter (\<lambda>q. qi_amount q \<noteq> 0) infos)"

record 's wallet =
  wl_present :: "'s \<Rightarrow> bool"
  wl_refused :: "'s \<Rightarrow> bool"
  wl_pay_for_quotes :: "quote_payment list \<Rightarrow> ('s, string, tx_map \<times> nat) op"
  wl_parse :: "string \<Rightarrow> amount_word option"

definition wallet_pay :: "'s wallet \<Rightarrow> quote_payment list \<Rightarrow> ('s, error, tx_map \<times> nat) op" where
  "wallet_pay w ps s =
     (case wl_pay_for_quotes w ps s of (r, s') \<Rightarrow> (map_err (from_payment_failure (wl_parse w)) r, s'))"

definition pay_quotes :: "'s wallet \<Rightarrow> single_node_quote_payment \<Rightarrow> ('s, error, key list) op" where
  "pay_quotes w p =
     bind_op (wallet_pay w (quote_payments p))
       (\<lambda>(txs, gas). lift_result (collect_tx_hashes txs (snp_quotes p)))"

record 'p chunk_payment_plan =
  cp_address :: key
  cp_data_size :: nat
  cp_quoted_peers :: "'p list"
  cp_payment :: single_node_quote_payment
  cp_peer_quotes :: peer_quotes
  cp_commitment_sidecars :: "bytes list"

record 'p prepared_chunk =
  pr_content :: bytes
  pr_address :: key
  pr_quoted_peers :: "'p list"
  pr_payment :: single_node_quote_payment
  pr_peer_quotes :: peer_quotes
  pr_commitment_sidecars :: "bytes list"

record 'p paid_chunk =
  pd_content :: bytes
  pd_address :: key
  pd_quoted_peers :: "'p list"
  pd_proof_bytes :: bytes

definition with_content ::
  "proof_api \<Rightarrow> 'p chunk_payment_plan \<Rightarrow> bytes \<Rightarrow> (error, 'p prepared_chunk) result" where
  "with_content api plan content =
     (if length content \<noteq> cp_data_size plan \<or> compute_address api content \<noteq> cp_address plan
      then Inl InvalidData
      else Inr \<lparr>pr_content = content, pr_address = cp_address plan, pr_quoted_peers = cp_quoted_peers plan,
                pr_payment = cp_payment plan, pr_peer_quotes = cp_peer_quotes plan,
                pr_commitment_sidecars = cp_commitment_sidecars plan\<rparr>)"

definition build_plan_proof :: "proof_api \<Rightarrow> 'p chunk_payment_plan \<Rightarrow> tx_map \<Rightarrow> (error, bytes) result" where
  "build_plan_proof api plan txs =
     bind_result (collect_tx_hashes txs (snp_quotes (cp_payment plan)))
       (\<lambda>tx_hashes. ok_or (serialize_single_node_proof api
          \<lparr>pp_peer_quotes = cp_peer_quotes plan, pp_tx_hashes = tx_hashes,
           pp_commitment_sidecars = cp_commitment_sidecars plan\<rparr>) Serialization)"

record payment_intent =
  pi_payments :: "quote_payment list"
  pi_total_amount :: amount_word

definition from_prepared_chunks :: "'p prepared_chunk list \<Rightarrow> payment_intent" where
  "from_prepared_chunks prepared =
     (let infos = concat (map (\<lambda>c. filter (\<lambda>q. qi_amount q \<noteq> 0) (snp_quotes (pr_payment c))) prepared)
      in \<lparr>pi_payments = map (\<lambda>q. (qi_quote_hash q, qi_rewards_address q, qi_amount q)) infos,
          pi_total_amount = sum_list (map qi_amount infos)\<rparr>)"

record 'p store_quote =
  sq_peer :: key
  sq_addrs :: "'p"
  sq_quote :: payment_quote
  sq_commitment :: "bytes option"

record 'p store_quote_plan =
  sp_quotes :: "'p store_quote list"
  sp_put_peers :: "'p list"

definition payment_plan_from_quotes ::
  "proof_api \<Rightarrow> key \<Rightarrow> nat \<Rightarrow> 'p store_quote_plan \<Rightarrow> (error, 'p chunk_payment_plan) result" where
  "payment_plan_from_quotes api address data_size quote_plan =
     bind_result (from_quotes api (map sq_quote (sp_quotes quote_plan)))
       (\<lambda>payment. Inr
          \<lparr>cp_address = address, cp_data_size = data_size, cp_quoted_peers = sp_put_peers quote_plan,
           cp_payment = payment,
           cp_peer_quotes = map (\<lambda>q. (sq_peer q, sq_quote q)) (sp_quotes quote_plan),
           cp_commitment_sidecars = List.map_filter sq_commitment (sp_quotes quote_plan)\<rparr>)"

text \<open>
  Preparation asks the quoting layer for a quote plan: \<open>quote_plan routing content size kind\<close>,
  an operation on the world.
\<close>

type_synonym ('s, 'p) quoting = "key \<Rightarrow> key \<Rightarrow> nat \<Rightarrow> nat \<Rightarrow> ('s, error, 'p store_quote_plan) op"

definition prepare_chunk_payment_plan ::
  "proof_api \<Rightarrow> ('s, 'p) quoting \<Rightarrow> key \<Rightarrow> nat \<Rightarrow> ('s, error, 'p chunk_payment_plan option) op" where
  "prepare_chunk_payment_plan api quote_plan address data_size s =
     (if MAX_CHUNK_SIZE api < data_size then (Inl InvalidData, s)
      else (case quote_plan address address data_size (DATA_TYPE_CHUNK api) s of
              (Inr plan, s) \<Rightarrow> (bind_result (payment_plan_from_quotes api address data_size plan) (Inr \<circ> Some), s)
            | (Inl e, s) \<Rightarrow> if e = AlreadyStored then (Inr None, s) else (Inl e, s)))"

definition prepare_chunk_payment ::
  "proof_api \<Rightarrow> 's wallet \<Rightarrow> ('s, 'p) quoting \<Rightarrow> bytes \<Rightarrow> ('s, error, 'p prepared_chunk option) op" where
  "prepare_chunk_payment api w quote_plan content s =
     (if wl_refused w s then (Inl ClientUpdateRequired, s)
      else bind_op (prepare_chunk_payment_plan api quote_plan (compute_address api content) (length content))
        (\<lambda>plan. (case plan of
                   None \<Rightarrow> ok_op None
                 | Some plan \<Rightarrow> lift_result (bind_result (with_content api plan content) (Inr \<circ> Some)))) s)"

definition prepare_payment_plan_split ::
  "proof_api \<Rightarrow> 's wallet \<Rightarrow> ('s, 'p) quoting \<Rightarrow> key \<Rightarrow> key \<Rightarrow> nat \<Rightarrow> nat \<Rightarrow> ('s, error, 'p chunk_payment_plan) op" where
  "prepare_payment_plan_split api w quote_plan routing content data_size data_type s =
     (if wl_refused w s then (Inl ClientUpdateRequired, s)
      else bind_op (quote_plan routing content data_size data_type)
        (\<lambda>plan. lift_result (payment_plan_from_quotes api content data_size plan)) s)"

section \<open>Storing a wave\<close>

record wave_result =
  wv_stored :: "key list"
  wv_failed :: "key list"
  wv_chunk_attempts_total :: nat
  wv_store_durations_ms :: "nat list"
  wv_retries_per_chunk :: "nat list"

definition absorb :: "wave_aggregate_stats \<Rightarrow> wave_result \<Rightarrow> wave_aggregate_stats" where
  "absorb st wave =
     st\<lparr>ws_attempts := sat_add (ws_attempts st) (wv_chunk_attempts_total wave),
        ws_durations := ws_durations st @ wv_store_durations_ms wave,
        ws_histogram := fold (\<lambda>r h. bump (min r (length h - 1)) h) (wv_retries_per_chunk wave) (ws_histogram st)\<rparr>"

definition percentile :: "nat list \<Rightarrow> f64 \<Rightarrow> nat" where
  "percentile values p =
     (if values = [] then 0
      else let sorted = sort values; p = f64_clamp p (Fin 0) (Fin 1); n = length sorted;
               rank = min (ceil_as_usize (f64_mul p (f64_of_nat n)) - 1) (n - 1)
           in sorted ! rank)"

text \<open>
  One attempt is a rolling run over the chunks to store; its completions carry the address the
  store reported and the milliseconds since the chunk was first seen, or an error.
\<close>

definition absorb_round :: "nat \<Rightarrow> ('p paid_chunk \<times> (error, key \<times> nat) result) list \<Rightarrow> wave_result \<Rightarrow> wave_result" where
  "absorb_round attempt results acc =
     (let oks = List.map_filter (\<lambda>(_, r). case r of Inr x \<Rightarrow> Some x | Inl _ \<Rightarrow> None) results
      in acc\<lparr>wv_stored := wv_stored acc @ map fst oks,
             wv_store_durations_ms := wv_store_durations_ms acc @ map snd oks,
             wv_retries_per_chunk := wv_retries_per_chunk acc @ map (\<lambda>_. attempt) oks\<rparr>)"

definition failed_this_round :: "('p paid_chunk \<times> (error, key \<times> nat) result) list \<Rightarrow> 'p paid_chunk list" where
  "failed_this_round results = map fst (filter (\<lambda>(_, r). isl r) results)"

fun store_attempts ::
  "('p paid_chunk, (error, key \<times> nat) result, 's) completer \<Rightarrow> ('s \<Rightarrow> nat) \<Rightarrow> nat \<Rightarrow> nat \<Rightarrow> wave_result \<Rightarrow>
     'p paid_chunk list \<Rightarrow> 's \<Rightarrow> wave_result \<times> 's" where
  "store_attempts world cap 0 attempt acc to_retry s = (acc, s)"
| "store_attempts world cap (Suc left) attempt acc to_retry s =
     (case rolling_unordered world to_retry cap s of
        (results, s) \<Rightarrow>
          let acc = absorb_round attempt results
                (acc\<lparr>wv_chunk_attempts_total := sat_add (wv_chunk_attempts_total acc) (length to_retry)\<rparr>);
              failed = failed_this_round results
          in if failed = [] then (acc, s)
             else if left = 0 then (acc\<lparr>wv_failed := map pd_address failed\<rparr>, s)
             else store_attempts world cap left (attempt + 1) acc failed s)"

definition store_paid_chunks_with_events ::
  "('p paid_chunk, (error, key \<times> nat) result, 's) completer \<Rightarrow> ('s \<Rightarrow> nat) \<Rightarrow> 'p paid_chunk list \<Rightarrow> 's \<Rightarrow>
     wave_result \<times> 's" where
  "store_paid_chunks_with_events world current paid s =
     (let max_chunk_bytes = fold max (map (length \<circ> pd_content) paid) 0;
          cap = (\<lambda>s. min (current s) (store_byte_bound max_chunk_bytes))
      in store_attempts world cap (STORE_MAX_RETRIES + 1) 0
           \<lparr>wv_stored = [], wv_failed = [], wv_chunk_attempts_total = 0, wv_store_durations_ms = [],
            wv_retries_per_chunk = []\<rparr> paid s)"

section \<open>Freshness of cached proofs\<close>

definition CACHED_PROOF_SAFETY_MARGIN_SECS :: nat where "CACHED_PROOF_SAFETY_MARGIN_SECS = 300"

definition CACHED_PROOF_MAX_AGE_SECS :: nat where "CACHED_PROOF_MAX_AGE_SECS = 24 * 60 * 60"

definition proof_is_safely_fresh :: "peer_quotes \<Rightarrow> system_time \<Rightarrow> int \<Rightarrow> bool" where
  "proof_is_safely_fresh quotes now max_safe_age \<longleftrightarrow>
     list_all (\<lambda>(_, quote). now < pq_timestamp quote \<or> now - pq_timestamp quote \<le> max_safe_age) quotes"

definition paid_proof_has_expired :: "proof_api \<Rightarrow> bytes \<Rightarrow> system_time \<Rightarrow> bool option" where
  "paid_proof_has_expired api proof now =
     map_option (\<lambda>(quotes, _). \<not> proof_is_safely_fresh quotes now (nanos CACHED_PROOF_MAX_AGE_SECS))
       (deserialize_proof api proof)"

definition cached_proof_is_fresh :: "proof_api \<Rightarrow> system_time \<Rightarrow> bytes \<Rightarrow> bool" where
  "cached_proof_is_fresh api now bytes \<longleftrightarrow>
     (case deserialize_proof api bytes of
        Some (quotes, _) \<Rightarrow>
          proof_is_safely_fresh quotes now (nanos (CACHED_PROOF_MAX_AGE_SECS - CACHED_PROOF_SAFETY_MARGIN_SECS))
      | None \<Rightarrow> False)"

text \<open>The proofs kept for reuse, and the stale ones to drop from the receipt with the bytes seen.\<close>

definition prune_locally_expired_proofs :: "proof_api \<Rightarrow> system_time \<Rightarrow> proofs \<Rightarrow> proofs \<times> proofs" where
  "prune_locally_expired_proofs api now proofs =
     (filter (\<lambda>(_, bytes). cached_proof_is_fresh api now bytes) proofs,
      filter (\<lambda>(_, bytes). \<not> cached_proof_is_fresh api now bytes) proofs)"

section \<open>Plans and proofs\<close>

lemma sum_list_single:
  fixes amt :: "'a :: comm_monoid_add"
  assumes "distinct xs" and "m \<in> set xs"
  shows "sum_list (map (\<lambda>i. if i = m then amt else 0) xs) = amt"
  using assms by (simp add: sum_list_distinct_conv_sum_set)

lemma filter_eq_single: "distinct xs \<Longrightarrow> m \<in> set xs \<Longrightarrow> filter (\<lambda>i. i = m) xs = [m]"
  by (induction xs) (auto simp: filter_empty_conv)

text \<open>The payment of a bundle of quotes, in terms of the median.\<close>

lemma from_quotes_InrD:
  assumes "from_quotes api quotes = Inr p"
  obtains m where "median_quote_index (map pq_price quotes) = Some m" and "m < length quotes"
    and "unat (total_amount p) = 3 * unat (pq_price (quotes ! m))"
    and "filter (\<lambda>q. qi_amount q \<noteq> 0) (snp_quotes p) =
      (if pq_price (quotes ! m) = 0 then []
       else [\<lparr>qi_quote_hash = quote_hash api (quotes ! m), qi_rewards_address = pq_rewards_address (quotes ! m),
              qi_amount = total_amount p, qi_price = pq_price (quotes ! m)\<rparr>])"
proof -
  from assms obtain plan where plan: "from_prices (CLOSE_GROUP api) (map pq_price quotes) = Inr plan"
    and p: "snp_quotes p = map (\<lambda>planned. let quote = quotes ! quote_index planned
                         in \<lparr>qi_quote_hash = quote_hash api quote, qi_rewards_address = pq_rewards_address quote,
                             qi_amount = amount planned, qi_price = pq_price quote\<rparr>) (plan_quotes plan)"
    by (auto simp: from_quotes_def results)
  from plan obtain m amt where m: "median_quote_index (map pq_price quotes) = Some m"
    and amt: "enhanced_payment_amount (map pq_price quotes ! m) = Inr amt"
    and qs: "plan_quotes plan = map (\<lambda>i. \<lparr>quote_index = i, amount = (if i = m then amt else 0)\<rparr>)
           (sort_key (\<lambda>i. map pq_price quotes ! i) [0..<length (map pq_price quotes)])"
    by (rule from_prices_InrD)
  let ?ix = "sort_key (\<lambda>i. map pq_price quotes ! i) [0..<length (map pq_price quotes)]"
  have mlen: "m < length quotes" using median_quote_index_in_range [OF m] by simp
  have ix: "distinct ?ix" "m \<in> set ?ix" using mlen by simp_all
  have price: "unat amt = 3 * unat (pq_price (quotes ! m))"
    using amt mlen by (simp add: enhanced_payment_amount_Inr_iff)
  have tot: "total_amount p = amt"
    using sum_list_single [OF ix, of amt] by (simp add: total_amount_def p qs Let_def comp_def)
  have paid: "filter (\<lambda>i. i = m) ?ix = [m]" using ix by (rule filter_eq_single)
  have nz: "amt \<noteq> 0 \<longleftrightarrow> pq_price (quotes ! m) \<noteq> 0" using price by (metis mult_eq_0_iff unat_0 unat_eq_zero zero_neq_numeral)
  show thesis
  proof (rule that [OF m mlen])
    show "unat (total_amount p) = 3 * unat (pq_price (quotes ! m))" by (simp add: tot price)
    show "filter (\<lambda>q. qi_amount q \<noteq> 0) (snp_quotes p) =
      (if pq_price (quotes ! m) = 0 then []
       else [\<lparr>qi_quote_hash = quote_hash api (quotes ! m), qi_rewards_address = pq_rewards_address (quotes ! m),
              qi_amount = total_amount p, qi_price = pq_price (quotes ! m)\<rparr>])"
      using paid nz by (cases "amt = 0") (auto simp: p qs Let_def filter_map comp_def tot)
  qed
qed

section \<open>Accounting of a wave\<close>

text \<open>A store that reports success reports the address of its chunk.\<close>

definition reports_own_address :: "('p paid_chunk, (error, key \<times> nat) result, 's) completer \<Rightarrow> bool" where
  "reports_own_address world \<longleftrightarrow>
     (\<forall>fl s. fl \<noteq> [] \<longrightarrow>
        (case world fl s of
           (n, Inr (name, _), _) \<Rightarrow> name = pd_address (fl ! (n mod length fl))
         | _ \<Rightarrow> True))"

lemma next_completion_own:
  assumes "reports_own_address world" and "fl \<noteq> []"
    and "next_completion world fl s = (c, r, fl', s')"
  shows "r = Inr (name, d) \<Longrightarrow> name = pd_address c"
  using assms by (fastforce simp: reports_own_address_def next_completion_def Let_def split: prod.splits)

lemma rolling_own:
  assumes "reports_own_address world"
    and "(c, Inr (name, d)) \<in> set (fst (rolling_unordered world items cap s))"
  shows "name = pd_address c"
proof -
  have "(\<lambda>c r. \<forall>name d. r = Inr (name, d) \<longrightarrow> name = pd_address c) c (Inr (name, d) :: (error, key \<times> nat) result)"
    by (rule rolling_loop_all [OF _ assms(2) [unfolded rolling_unordered_def]])
      (use next_completion_own [OF assms(1)] in blast)
  then show ?thesis by simp
qed

lemma absorb_round_simps [simp]:
  "wv_failed (absorb_round k rs acc) = wv_failed acc"
  "wv_chunk_attempts_total (absorb_round k rs acc) = wv_chunk_attempts_total acc"
  by (simp_all add: absorb_round_def Let_def)

lemma absorb_round_stored:
  assumes "\<And>c name d. (c, Inr (name, d)) \<in> set rs \<Longrightarrow> name = pd_address c"
  shows "mset (wv_stored (absorb_round k rs acc)) + mset (map pd_address (failed_this_round rs)) =
    mset (wv_stored acc) + mset (map (pd_address \<circ> fst) rs)"
proof -
  let ?ok = "\<lambda>(_ :: 'a paid_chunk, r :: (error, key \<times> nat) result). case r of Inr x \<Rightarrow> Some x | Inl _ \<Rightarrow> None"
  have "mset (map fst (List.map_filter ?ok rs)) + mset (map pd_address (failed_this_round rs)) =
      mset (map (pd_address \<circ> fst) rs)"
    using assms
  proof (induction rs)
    case (Cons x rs)
    then have IH: "mset (map fst (List.map_filter ?ok rs)) + mset (map pd_address (failed_this_round rs)) =
      mset (map (pd_address \<circ> fst) rs)" by (meson list.set_intros(2))
    obtain c r where x: "x = (c, r)" by (cases x)
    show ?case
    proof (cases r)
      case (Inl e)
      with IH x show ?thesis by (simp add: List.map_filter_def failed_this_round_def comp_def)
    next
      case (Inr nd)
      obtain name d where nd: "nd = (name, d)" by (cases nd)
      have "name = pd_address c" by (rule Cons.prems [of c name d]) (simp add: x Inr nd)
      with IH x Inr nd show ?thesis by (simp add: List.map_filter_def failed_this_round_def comp_def)
    qed
  qed (simp add: List.map_filter_def failed_this_round_def)
  then show ?thesis by (simp add: absorb_round_def Let_def)
qed

lemma store_attempts_spec:
  assumes "store_attempts world cap n k acc chunks s = (out, s')" and "reports_own_address world"
    and "0 < n" and "wv_failed acc = []"
  shows "mset (wv_stored out) + mset (wv_failed out) = mset (wv_stored acc) + mset (map pd_address chunks) \<and>
    wv_chunk_attempts_total out \<le> wv_chunk_attempts_total acc + n * length chunks"
  using assms
proof (induction world cap n k acc chunks s rule: store_attempts.induct)
  case (2 world cap n k acc chunks s)
  obtain rs s1 where run: "rolling_unordered world chunks cap s = (rs, s1)" by fastforce
  define acc1 where "acc1 = absorb_round k rs
    (acc\<lparr>wv_chunk_attempts_total := sat_add (wv_chunk_attempts_total acc) (length chunks)\<rparr>)"
  have "mset (map (pd_address \<circ> fst) rs) = mset (map pd_address chunks)"
    using arg_cong [OF rolling.completed_items(1) [OF run], of "image_mset pd_address"]
    by (simp add: image_mset.compositionality comp_def)
  then have settled: "mset (wv_stored acc1) + mset (map pd_address (failed_this_round rs)) =
      mset (wv_stored acc) + mset (map pd_address chunks)"
    using absorb_round_stored [of rs k "acc\<lparr>wv_chunk_attempts_total := sat_add (wv_chunk_attempts_total acc) (length chunks)\<rparr>"]
      rolling_own [OF 2(3), of _ _ _ chunks cap s] by (simp add: acc1_def run)
  have acc1: "wv_failed acc1 = []" "wv_chunk_attempts_total acc1 \<le> wv_chunk_attempts_total acc + length chunks"
    using 2(5) sat_add_le(1) by (simp_all add: acc1_def)
  have fewer: "length (failed_this_round rs) \<le> length chunks"
    using rolling.completed_items(3) [OF run] by (metis failed_this_round_def length_filter_le length_map)
  show ?case
  proof (cases "failed_this_round rs = [] \<or> n = 0")
    case True
    then show ?thesis using 2(2) settled acc1
      by (auto simp: run Let_def acc1_def [symmetric] split: if_splits)
  next
    case False
    then have step: "store_attempts world cap n (k + 1) acc1 (failed_this_round rs) s1 = (out, s')"
      using 2(2) by (simp add: run Let_def acc1_def [symmetric])
    from False have ne: "failed_this_round rs \<noteq> []" "n \<noteq> 0" "0 < n" by simp_all
    note IH = 2(1) [OF run [symmetric] acc1_def refl ne(1,2) step 2(3) ne(3) acc1(1)]
    have "n * length (failed_this_round rs) \<le> n * length chunks" using fewer by simp
    then have "wv_chunk_attempts_total out \<le> wv_chunk_attempts_total acc + Suc n * length chunks"
      using conjunct2 [OF IH] acc1(2) unfolding mult_Suc by linarith
    then show ?thesis using conjunct1 [OF IH] settled by simp
  qed
qed simp

lemma store_paid_spec:
  assumes "reports_own_address world" and "store_paid_chunks_with_events world current paid s = (out, s')"
  shows "mset (wv_stored out) + mset (wv_failed out) = mset (map pd_address paid) \<and>
    wv_chunk_attempts_total out \<le> 4 * length paid"
proof -
  have "mset (wv_stored out) + mset (wv_failed out) =
      mset (wv_stored \<lparr>wv_stored = [], wv_failed = [], wv_chunk_attempts_total = 0, wv_store_durations_ms = [],
            wv_retries_per_chunk = []\<rparr>) + mset (map pd_address paid) \<and>
    wv_chunk_attempts_total out \<le>
      wv_chunk_attempts_total \<lparr>wv_stored = [], wv_failed = [], wv_chunk_attempts_total = 0, wv_store_durations_ms = [],
            wv_retries_per_chunk = []\<rparr> + (STORE_MAX_RETRIES + 1) * length paid"
    by (rule store_attempts_spec [OF assms(2) [unfolded store_paid_chunks_with_events_def Let_def] assms(1)])
      (simp_all add: STORE_MAX_RETRIES_def)
  then show ?thesis by (simp add: STORE_MAX_RETRIES_def)
qed

text \<open>C20: Storing a wave of paid chunks always ends, after at most four attempts per chunk, and
  reports every chunk exactly once, as stored or as failed.\<close>

theorem wave_reports_every_chunk_once:
  assumes "reports_own_address world" and "store_paid_chunks_with_events world current paid s = (out, s')"
  shows "mset (wv_stored out) + mset (wv_failed out) = mset (map pd_address paid) \<and>
    wv_chunk_attempts_total out \<le> 4 * length paid"
  using assms by (rule store_paid_spec)

text \<open>A world in which the last chunk launched completes first, and one chunk always fails.\<close>

definition flaky_store :: "('p paid_chunk, (error, key \<times> nat) result, nat) completer" where
  "flaky_store fl s =
     (length fl - 1,
      (if pd_address (fl ! ((length fl - 1) mod length fl)) = [2] then Inl CloseGroupShortfall
       else Inr (pd_address (fl ! ((length fl - 1) mod length fl)), 5)), s + 1)"

lemma flaky_store_own: "reports_own_address flaky_store"
  by (simp add: reports_own_address_def flaky_store_def split: sum.split)

theorem wave_reports_every_chunk_once_witness:
  "\<exists>out s'. store_paid_chunks_with_events flaky_store (\<lambda>_. 8)
      [\<lparr>pd_content = [7], pd_address = [1], pd_quoted_peers = [], pd_proof_bytes = []\<rparr>,
       \<lparr>pd_content = [8], pd_address = [2], pd_quoted_peers = [] :: nat list, pd_proof_bytes = []\<rparr>] 0 = (out, s') \<and>
     mset (wv_stored out) + mset (wv_failed out) = {#[1], [2]#} \<and> wv_chunk_attempts_total out \<le> 8"
proof -
  let ?paid = "[\<lparr>pd_content = [7], pd_address = [1], pd_quoted_peers = [], pd_proof_bytes = []\<rparr>,
       \<lparr>pd_content = [8], pd_address = [2], pd_quoted_peers = [] :: nat list, pd_proof_bytes = []\<rparr>]"
  obtain out s' where q: "store_paid_chunks_with_events flaky_store (\<lambda>_. 8) ?paid 0 = (out, s')" by fastforce
  show ?thesis using q wave_reports_every_chunk_once [OF flaky_store_own q]
    by (intro exI [of _ out] exI [of _ s']) simp
qed

lemma fresh_quotes_weaken:
  assumes "proof_is_safely_fresh quotes now (a - b)" and "t \<le> now + b" and "b \<le> a"
  shows "proof_is_safely_fresh quotes t a"
proof -
  have "t < ts \<or> t - ts \<le> a" if "now < ts \<or> now - ts \<le> a - b" for ts using that assms(2,3) by linarith
  then show ?thesis using assms(1) by (auto simp: proof_is_safely_fresh_def list_all_iff)
qed

text \<open>Pruning a receipt's proofs keeps and drops each of them exactly once, and a proof that is kept
  can be decoded and does not reach the storers' limit of 24 hours within the next five minutes.\<close>

theorem kept_proofs_outlive_the_margin:
  assumes "prune_locally_expired_proofs api now proofs = (kept, expired)"
  shows "mset kept + mset expired = mset proofs \<and>
    (\<forall>t. t \<le> now + nanos 300 \<longrightarrow>
      (\<forall>(address, bytes) \<in> set kept. paid_proof_has_expired api bytes t = Some False))"
proof
  have kept: "kept = filter (\<lambda>(_, bytes). cached_proof_is_fresh api now bytes) proofs"
    and expired: "expired = filter (\<lambda>(_, bytes). \<not> cached_proof_is_fresh api now bytes) proofs"
    using assms by (auto simp: prune_locally_expired_proofs_def)
  show "mset kept + mset expired = mset proofs"
    unfolding kept expired by (simp add: split_beta' flip: multiset_partition)
  have margin: "nanos (CACHED_PROOF_MAX_AGE_SECS - CACHED_PROOF_SAFETY_MARGIN_SECS) =
      nanos CACHED_PROOF_MAX_AGE_SECS - nanos 300"
    by (simp add: nanos_def CACHED_PROOF_MAX_AGE_SECS_def CACHED_PROOF_SAFETY_MARGIN_SECS_def)
  have le: "nanos 300 \<le> nanos CACHED_PROOF_MAX_AGE_SECS" by (simp add: nanos_def CACHED_PROOF_MAX_AGE_SECS_def)
  show "\<forall>t. t \<le> now + nanos 300 \<longrightarrow>
      (\<forall>(address, bytes) \<in> set kept. paid_proof_has_expired api bytes t = Some False)"
    by (auto simp: kept cached_proof_is_fresh_def paid_proof_has_expired_def margin
        intro: fresh_quotes_weaken [OF _ _ le] split: option.splits)
qed

text \<open>A protocol with one known quote, of age zero, whose proofs are the bytes of their transactions.\<close>

definition tiny_quote :: payment_quote where
  "tiny_quote = \<lparr>pq_content = [1], pq_timestamp = 0, pq_price = 10, pq_rewards_address = [4], pq_pub_key = [9],
     pq_signature = [3], pq_committed_key_count = 0, pq_commitment_pin = None\<rparr>"

definition tiny_proof_api :: proof_api where
  "tiny_proof_api = \<lparr>quote_hash = pq_signature, compute_address = (\<lambda>content. content), CLOSE_GROUP = 7,
     MAX_CHUNK_SIZE = 100, DATA_TYPE_CHUNK = 0,
     serialize_single_node_proof = (\<lambda>p. Some (concat (pp_tx_hashes p))),
     deserialize_proof = (\<lambda>b. if b = [] then None else Some ([([9], tiny_quote)], [b]))\<rparr>"

theorem kept_proofs_outlive_the_margin_witness:
  "prune_locally_expired_proofs tiny_proof_api (nanos 86000) [([1], [5]), ([2], [])] = ([([1], [5])], [([2], [])]) \<and>
   paid_proof_has_expired tiny_proof_api [5] (nanos 86300) = Some False"
proof -
  have q: "prune_locally_expired_proofs tiny_proof_api (nanos 86000) [([1], [5]), ([2], [])] = ([([1], [5])], [([2], [])])"
    by (simp add: prune_locally_expired_proofs_def cached_proof_is_fresh_def tiny_proof_api_def tiny_quote_def
        proof_is_safely_fresh_def nanos_def CACHED_PROOF_MAX_AGE_SECS_def CACHED_PROOF_SAFETY_MARGIN_SECS_def)
  have t: "nanos 86300 \<le> nanos 86000 + nanos 300" by (simp add: nanos_def)
  have "\<forall>(address :: key, bytes) \<in> set [([1], [5])]. paid_proof_has_expired tiny_proof_api bytes (nanos 86300) = Some False"
    by (rule conjunct2 [OF kept_proofs_outlive_the_margin [OF q], THEN spec, THEN mp, OF t])
  with q show ?thesis by simp
qed

end
