(* ===== verification/Upload_State.thy ===== *)
theory Upload_State
  imports Batch
begin

text \<open>
  The prepared and paid state of an upload, \<^verbatim>\<open>ant-core/src/data/client/upload_state.rs\<close>,
  with the finalisation of batch payments of \<^verbatim>\<open>batch.rs\<close> that goes through it. A method
  with \<^verbatim>\<open>&mut self\<close> returns its result and the next state. The maps are association
  lists. The wallet's JSON evidence is the type \<open>'j\<close>; the MessagePack codec and the decoding of
  proofs are operations of \<open>upload_api\<close>, where a decoded merkle proof is what the code reads of it.
\<close>

record merkle_proof_view =
  mp_address :: key
  mp_data_proof_verifies :: bool
  mp_data_root :: key
  mp_midpoint_root :: key
  mp_timestamp :: nat
  mp_candidates_signed :: "bool list"

record ('c, 't, 'ap, 'm) upload_api =
  ua_proofs :: proof_api
  ua_merkle :: "('c, 't, 'ap, 'm) merkle_api"
  deserialize_merkle_proof :: "bytes \<Rightarrow> merkle_proof_view option"
  deserialize_single_node_proof :: "bytes \<Rightarrow> payment_proof option"
  MERKLE_PAYMENT_EXPIRATION :: nat
  encoded_peer_of :: "bytes \<Rightarrow> key"
  verify_quote_signature :: "payment_quote \<Rightarrow> bool"

record 'j payment_attempt =
  at_merkle :: bool
  at_addresses :: "key list"
  at_submissions :: "'j list"
  at_receipt :: "'j option"

record ('p, 't, 'm, 'j) upload_state =
  us_plans :: "(key \<times> 'p chunk_payment_plan) list"
  us_proofs :: proofs
  us_pending_merkle :: "('t, 'm) prepared_merkle_batch option"
  us_pending_payment :: "'j payment_attempt option"
  us_failed_payments :: "('j payment_attempt \<times> 'j) list"

definition empty_upload_state :: "('p, 't, 'm, 'j) upload_state" where
  "empty_upload_state = \<lparr>us_plans = [], us_proofs = [], us_pending_merkle = None, us_pending_payment = None,
     us_failed_payments = []\<rparr>"

definition from_proofs :: "proofs \<Rightarrow> ('p, 't, 'm, 'j) upload_state" where
  "from_proofs proofs = empty_upload_state\<lparr>us_proofs := proofs\<rparr>"

definition merkle_fresh :: "('c, 't, 'ap, 'm) upload_api \<Rightarrow> nat \<Rightarrow> system_time \<Rightarrow> bool" where
  "merkle_fresh api timestamp now \<longleftrightarrow>
     0 \<le> now \<and> (let secs = nat (now div 1000000000)
                  in timestamp \<le> secs \<and> secs - timestamp < MERKLE_PAYMENT_EXPIRATION api)"

definition SAFE_AGE :: int where
  "SAFE_AGE = nanos (CACHED_PROOF_MAX_AGE_SECS - CACHED_PROOF_SAFETY_MARGIN_SECS)"

definition reusable_proof :: "('c, 't, 'ap, 'm) upload_api \<Rightarrow> key \<Rightarrow> bytes \<Rightarrow> system_time \<Rightarrow> bool" where
  "reusable_proof api address bytes now =
     (case deserialize_merkle_proof api bytes of
        Some proof \<Rightarrow>
          mp_address proof = address \<and> mp_data_proof_verifies proof \<and>
          mp_data_root proof = mp_midpoint_root proof \<and> merkle_fresh api (mp_timestamp proof) now
      | None \<Rightarrow>
          (case deserialize_proof (ua_proofs api) bytes of
             None \<Rightarrow> False
           | Some (quotes, _) \<Rightarrow>
               quotes \<noteq> [] \<and> list_all (\<lambda>(_, quote). pq_content quote = address) quotes \<and>
               proof_is_safely_fresh quotes now SAFE_AGE))"

definition is_paid ::
  "('c, 't, 'ap, 'm) upload_api \<Rightarrow> ('p, 't, 'm, 'j) upload_state \<Rightarrow> key \<Rightarrow> system_time \<Rightarrow> bool" where
  "is_paid api st address now =
     (case map_of (us_proofs st) address of None \<Rightarrow> False | Some bytes \<Rightarrow> reusable_proof api address bytes now)"

definition record_failed_payment ::
  "'j \<Rightarrow> ('p, 't, 'm, 'j) upload_state \<Rightarrow> (error, unit) result \<times> ('p, 't, 'm, 'j) upload_state" where
  "record_failed_payment resolution st =
     (case us_pending_payment st of
        None \<Rightarrow> (Inl Payment, st)
      | Some attempt \<Rightarrow>
          (Inr (), st\<lparr>us_pending_payment := None,
                       us_failed_payments := us_failed_payments st @ [(attempt, resolution)]\<rparr>))"

definition start_payment ::
  "bool \<Rightarrow> key list \<Rightarrow> ('p, 't, 'm, 'j) upload_state \<Rightarrow> (error, unit) result \<times> ('p, 't, 'm, 'j) upload_state" where
  "start_payment merkle addresses st =
     (if us_pending_payment st \<noteq> None then (Inl Payment, st)
      else (Inr (), st\<lparr>us_pending_payment :=
              Some \<lparr>at_merkle = merkle, at_addresses = addresses, at_submissions = [], at_receipt = None\<rparr>\<rparr>))"

definition pending_plans :: "('p, 't, 'm, 'j) upload_state \<Rightarrow> (error, 'p chunk_payment_plan list) result" where
  "pending_plans st =
     (case us_pending_payment st of
        None \<Rightarrow> Inl Payment
      | Some attempt \<Rightarrow>
          collect_result (\<lambda>address. ok_or (map_of (us_plans st) address) InvalidData) (at_addresses attempt))"

definition insert_merkle :: "merkle_batch_payment_result \<Rightarrow> ('p, 't, 'm, 'j) upload_state \<Rightarrow> ('p, 't, 'm, 'j) upload_state" where
  "insert_merkle r st =
     st\<lparr>us_proofs := extend_proofs (us_proofs st) (mr_proofs r), us_pending_merkle := None,
        us_pending_payment := None\<rparr>"

definition retained_plan ::
  "('c, 't, 'ap, 'm) upload_api \<Rightarrow> ('p, 't, 'm, 'j) upload_state \<Rightarrow> key \<Rightarrow> nat \<Rightarrow> system_time \<Rightarrow>
     'p chunk_payment_plan option" where
  "retained_plan api st address sz now =
     (if is_paid api st address now then None
      else (case map_of (us_plans st) address of
              None \<Rightarrow> None
            | Some plan \<Rightarrow>
                if cp_data_size plan \<noteq> sz \<or> cp_peer_quotes plan = [] then None
                else if proof_is_safely_fresh (cp_peer_quotes plan) now SAFE_AGE then Some plan else None))"

definition prepare :: "'p chunk_payment_plan \<Rightarrow> ('p, 't, 'm, 'j) upload_state \<Rightarrow> ('p, 't, 'm, 'j) upload_state" where
  "prepare plan st = st\<lparr>us_plans := AList.update (cp_address plan) plan (us_plans st)\<rparr>"

definition new_proof ::
  "('c, 't, 'ap, 'm) upload_api \<Rightarrow> tx_map \<Rightarrow> ('p, 't, 'm, 'j) upload_state \<Rightarrow> key \<Rightarrow> (error, key \<times> bytes) result" where
  "new_proof api txs st address =
     bind_result (ok_or (map_of (us_plans st) address) Payment)
       (\<lambda>plan. bind_result (build_plan_proof (ua_proofs api) plan txs) (\<lambda>proof. Inr (address, proof)))"

definition confirm ::
  "('c, 't, 'ap, 'm) upload_api \<Rightarrow> key list \<Rightarrow> tx_map \<Rightarrow> system_time \<Rightarrow> ('p, 't, 'm, 'j) upload_state \<Rightarrow>
     (error, unit) result \<times> ('p, 't, 'm, 'j) upload_state" where
  "confirm api addresses txs now st =
     (case collect_result (new_proof api txs st) (filter (\<lambda>a. \<not> is_paid api st a now) addresses) of
        Inl e \<Rightarrow> (Inl e, st)
      | Inr new \<Rightarrow>
          (let proofs = extend_proofs (us_proofs st) new;
               settled = (case us_pending_payment st of
                            None \<Rightarrow> False
                          | Some attempt \<Rightarrow> \<not> at_merkle attempt \<and>
                              list_all (\<lambda>a. map_of proofs a \<noteq> None) (at_addresses attempt))
           in (Inr (), st\<lparr>us_proofs := proofs,
                          us_pending_payment := (if settled then None else us_pending_payment st),
                          us_plans := fold AList.delete addresses (us_plans st)\<rparr>)))"

definition reuse_prepared ::
  "('c, 't, 'ap, 'm) upload_api \<Rightarrow> ('p, 't, 'm, 'j) upload_state \<Rightarrow> 'p prepared_chunk \<Rightarrow> system_time \<Rightarrow>
     'p paid_chunk option" where
  "reuse_prepared api st prepared now =
     (case map_of (us_proofs st) (pr_address prepared) of
        None \<Rightarrow> None
      | Some bytes \<Rightarrow>
          if \<not> reusable_proof api (pr_address prepared) bytes now then None
          else Some \<lparr>pd_content = pr_content prepared, pd_address = pr_address prepared,
                     pd_quoted_peers = pr_quoted_peers prepared, pd_proof_bytes = bytes\<rparr>)"

definition plan_of_prepared :: "'p prepared_chunk \<Rightarrow> 'p chunk_payment_plan" where
  "plan_of_prepared c =
     \<lparr>cp_address = pr_address c, cp_data_size = length (pr_content c), cp_quoted_peers = pr_quoted_peers c,
      cp_payment = pr_payment c, cp_peer_quotes = pr_peer_quotes c,
      cp_commitment_sidecars = pr_commitment_sidecars c\<rparr>"

definition pay_prepared ::
  "('c, 't, 'ap, 'm) upload_api \<Rightarrow> system_time \<Rightarrow> 'p prepared_chunk \<Rightarrow> tx_map \<Rightarrow> (error, 'p paid_chunk) result" where
  "pay_prepared api now c txs =
     (case confirm api [pr_address c] txs now
             (prepare (plan_of_prepared c) (empty_upload_state :: ('p, 't, 'm, unit) upload_state)) of
        (Inl e, _) \<Rightarrow> Inl e
      | (Inr _, st) \<Rightarrow>
          bind_result (ok_or (map_of (us_proofs st) (pr_address c)) Payment)
            (\<lambda>bytes. Inr \<lparr>pd_content = pr_content c, pd_address = pr_address c,
                           pd_quoted_peers = pr_quoted_peers c, pd_proof_bytes = bytes\<rparr>))"

definition build_paid_chunks ::
  "('c, 't, 'ap, 'm) upload_api \<Rightarrow> system_time \<Rightarrow> 'p prepared_chunk list \<Rightarrow> tx_map \<Rightarrow> (error, 'p paid_chunk list) result" where
  "build_paid_chunks api now prepared txs = collect_result (\<lambda>c. pay_prepared api now c txs) prepared"

definition finalize_batch_payment ::
  "('c, 't, 'ap, 'm) upload_api \<Rightarrow> system_time \<Rightarrow> 'p prepared_chunk list \<Rightarrow> tx_map \<Rightarrow> (error, 'p paid_chunk list) result" where
  "finalize_batch_payment api now prepared txs = build_paid_chunks api now prepared txs"

definition batch_pay ::
  "('c, 't, 'ap, 'm) upload_api \<Rightarrow> system_time \<Rightarrow> 's wallet \<Rightarrow> 'p prepared_chunk list \<Rightarrow>
     ('s, error, 'p paid_chunk list \<times> amount_word \<times> nat) op" where
  "batch_pay api now w prepared s =
     (if prepared = [] then (Inr ([], 0, 0), s)
      else if wl_refused w s then (Inl ClientUpdateRequired, s)
      else if \<not> wl_present w s then (Inl Payment, s)
      else bind_op (wallet_pay w (concat (map (quote_payments \<circ> pr_payment) prepared)))
        (\<lambda>(txs, gas). bind_op (lift_result (build_paid_chunks api now prepared txs))
        (\<lambda>paid. ok_op (paid, pi_total_amount (from_prepared_chunks prepared), gas))) s)"

section \<open>Restoring a checkpoint\<close>

definition quotes_bound :: "('c, 't, 'ap, 'm) upload_api \<Rightarrow> key \<Rightarrow> peer_quotes \<Rightarrow> bool" where
  "quotes_bound api address quotes \<longleftrightarrow>
     list_all (\<lambda>(peer, quote). pq_content quote = address \<and> peer = encoded_peer_of api (pq_pub_key quote) \<and>
                                verify_quote_signature api quote) quotes"

definition check_plan ::
  "('c, 't, 'ap, 'm) upload_api \<Rightarrow> key \<times> 'p chunk_payment_plan \<Rightarrow> (error, unit) result" where
  "check_plan api e =
     (case e of (address, plan) \<Rightarrow>
        if address \<noteq> cp_address plan \<or> cp_peer_quotes plan = [] \<or> \<not> quotes_bound api address (cp_peer_quotes plan)
        then Inl InvalidData
        else bind_result (from_quotes (ua_proofs api) (map snd (cp_peer_quotes plan)))
          (\<lambda>canonical. if snp_quotes canonical \<noteq> snp_quotes (cp_payment plan) then Inl InvalidData else Inr ()))"

definition check_stored_proof :: "('c, 't, 'ap, 'm) upload_api \<Rightarrow> key \<times> bytes \<Rightarrow> (error, unit) result" where
  "check_stored_proof api e =
     (case e of (address, bytes) \<Rightarrow>
        (case deserialize_merkle_proof api bytes of
           Some proof \<Rightarrow>
             if mp_address proof \<noteq> address \<or> \<not> mp_data_proof_verifies proof \<or>
                mp_data_root proof \<noteq> mp_midpoint_root proof \<or> \<not> list_all (\<lambda>ok. ok) (mp_candidates_signed proof)
             then Inl InvalidData else Inr ()
         | None \<Rightarrow>
             bind_result (ok_or (deserialize_single_node_proof api bytes) InvalidData)
               (\<lambda>proof. if pp_tx_hashes proof = [] \<or> pp_peer_quotes proof = [] \<or>
                          \<not> quotes_bound api address (pp_peer_quotes proof)
                        then Inl InvalidData else Inr ())))"

definition check_pending ::
  "('c, 't, 'ap, 'm) upload_api \<Rightarrow> ('p, 't, 'm, 'j) upload_state \<Rightarrow> (error, unit) result" where
  "check_pending api st =
     bind_result (case us_pending_merkle st of
                    None \<Rightarrow> Inr ()
                  | Some prepared \<Rightarrow> validate_checkpoint (ua_merkle api) prepared)
       (\<lambda>_. case us_pending_payment st of
              None \<Rightarrow> Inr ()
            | Some attempt \<Rightarrow>
                if 256 < length (at_submissions attempt) \<or> (at_merkle attempt \<and> us_pending_merkle st = None)
                then Inl InvalidData
                else if at_merkle attempt then Inr ()
                else bind_result (pending_plans st) (\<lambda>_. Inr ()))"

definition restore ::
  "('c, 't, 'ap, 'm) upload_api \<Rightarrow> (bytes \<Rightarrow> ('p, 't, 'm, 'j) upload_state option) \<Rightarrow> bytes \<Rightarrow>
     (error, ('p, 't, 'm, 'j) upload_state) result" where
  "restore api decode bytes =
     bind_result (ok_or (decode bytes) Serialization)
       (\<lambda>st. bind_result (collect_result (check_plan api) (us_plans st))
       (\<lambda>_. bind_result (check_pending api st)
       (\<lambda>_. bind_result (collect_result (check_stored_proof api) (us_proofs st))
       (\<lambda>_. Inr st))))"

section \<open>Confirmation\<close>

lemma map_of_fold_delete: "map_of (fold AList.delete ks m) = (map_of m) |` (- set ks)"
proof (induction ks arbitrary: m)
  case (Cons k ks)
  then show ?case by (auto simp: delete_conv' restrict_map_def fun_eq_iff)
qed (simp add: restrict_map_def)

lemma new_proofs_keys:
  assumes "collect_result (new_proof api txs st) as = Inr new"
  shows "map fst new = as"
    and "\<And>a b. map_of (rev new) a = Some b \<Longrightarrow> a \<in> set as \<and> new_proof api txs st a = Inr (a, b)"
    and "\<And>a. a \<in> set as \<Longrightarrow> map_of (rev new) a \<noteq> None"
proof -
  have all: "list_all2 (\<lambda>a n. new_proof api txs st a = Inr n) as new" using assms by (simp add: results)
  then have own: "list_all2 (\<lambda>a n. new_proof api txs st a = Inr n \<and> fst n = a) as new"
    by (rule list_all2_mono) (auto simp: new_proof_def results)
  then show keys: "map fst new = as" by (induction rule: list_all2_induct) auto
  show "a \<in> set as \<and> new_proof api txs st a = Inr (a, b)" if "map_of (rev new) a = Some b" for a b
  proof -
    have "(a, b) \<in> set new" using map_of_SomeD [OF that] by simp
    then show ?thesis using own by (fastforce simp: list_all2_conv_all_nth in_set_conv_nth)
  qed
  show "map_of (rev new) a \<noteq> None" if "a \<in> set as" for a
    using that by (simp add: map_of_eq_None_iff flip: keys)
qed

lemma confirm_Inl: "confirm api addresses txs now st = (Inl e, st') \<Longrightarrow> st' = st"
  by (auto simp: confirm_def Let_def split: sum.splits)

lemma confirm_Inr:
  assumes "confirm api addresses txs now st = (Inr u, st')"
  obtains new where "collect_result (new_proof api txs st) (filter (\<lambda>a. \<not> is_paid api st a now) addresses) = Inr new"
    and "us_proofs st' = extend_proofs (us_proofs st) new"
    and "map_of (us_plans st') = (map_of (us_plans st)) |` (- set addresses)"
    and "us_pending_merkle st' = us_pending_merkle st"
    and "us_pending_payment st' = us_pending_payment st \<or>
      (\<exists>attempt. us_pending_payment st = Some attempt \<and> \<not> at_merkle attempt \<and> us_pending_payment st' = None \<and>
        (\<forall>a \<in> set (at_addresses attempt). map_of (us_proofs st') a \<noteq> None))"
  using assms
  by (auto simp: confirm_def Let_def map_of_fold_delete list_all_iff split: sum.splits option.splits if_splits)

lemma confirm_proofs:
  assumes "confirm api addresses txs now st = (Inr u, st')"
  shows "a \<in> set addresses \<Longrightarrow> \<not> is_paid api st a now \<Longrightarrow>
      \<exists>plan b. map_of (us_plans st) a = Some plan \<and> build_plan_proof (ua_proofs api) plan txs = Inr b \<and>
        map_of (us_proofs st') a = Some b"
    and "a \<notin> set addresses \<or> is_paid api st a now \<Longrightarrow> map_of (us_proofs st') a = map_of (us_proofs st) a"
proof -
  obtain new where new: "collect_result (new_proof api txs st) (filter (\<lambda>a. \<not> is_paid api st a now) addresses) = Inr new"
    and proofs: "us_proofs st' = extend_proofs (us_proofs st) new"
    using assms by (rule confirm_Inr)
  note keys = new_proofs_keys [OF new]
  show "\<exists>plan b. map_of (us_plans st) a = Some plan \<and> build_plan_proof (ua_proofs api) plan txs = Inr b \<and>
        map_of (us_proofs st') a = Some b" if a: "a \<in> set addresses" "\<not> is_paid api st a now"
  proof -
    obtain b where b: "map_of (rev new) a = Some b" using keys(3) [of a] a by auto
    have "map_of (us_proofs st') a = Some b" using b by (simp add: proofs map_of_extend_proofs map_add_def)
    with keys(2) [OF b] show ?thesis by (auto simp: new_proof_def results)
  qed
  show "map_of (us_proofs st') a = map_of (us_proofs st) a" if "a \<notin> set addresses \<or> is_paid api st a now"
  proof -
    have "map_of (rev new) a = None" using keys(2) [of a] that by (cases "map_of (rev new) a") auto
    then show ?thesis by (simp add: proofs map_of_extend_proofs map_add_def)
  qed
qed

text \<open>C10: Confirming a payment is all or nothing. An error leaves the state as it was. A success leaves a
  proof for every address confirmed: the one already held where it is still reusable, otherwise the
  one built from the prepared plan and the transactions; every other proof and plan is untouched,
  the confirmed plans are retired, and a pending attempt is closed only when it is a single-node
  payment all of whose records now have proofs.\<close>

theorem confirm_is_all_or_nothing:
  assumes "confirm api addresses txs now st = (r, st')"
  shows "case r of
      Inl _ \<Rightarrow> st' = st
    | Inr _ \<Rightarrow>
        (\<forall>a. if a \<in> set addresses \<and> \<not> is_paid api st a now
             then \<exists>plan b. map_of (us_plans st) a = Some plan \<and> build_plan_proof (ua_proofs api) plan txs = Inr b \<and>
                    map_of (us_proofs st') a = Some b
             else map_of (us_proofs st') a = map_of (us_proofs st) a) \<and>
        (\<forall>a. map_of (us_plans st') a = (if a \<in> set addresses then None else map_of (us_plans st) a)) \<and>
        us_pending_merkle st' = us_pending_merkle st \<and>
        (us_pending_payment st' = us_pending_payment st \<or>
         (\<exists>attempt. us_pending_payment st = Some attempt \<and> \<not> at_merkle attempt \<and> us_pending_payment st' = None \<and>
            (\<forall>a \<in> set (at_addresses attempt). map_of (us_proofs st') a \<noteq> None)))"
proof (cases r)
  case (Inl e)
  with assms show ?thesis by (simp add: confirm_Inl)
next
  case (Inr u)
  with assms have ok: "confirm api addresses txs now st = (Inr u, st')" by simp
  then obtain new where "map_of (us_plans st') = (map_of (us_plans st)) |` (- set addresses)"
    and "us_pending_merkle st' = us_pending_merkle st"
    and "us_pending_payment st' = us_pending_payment st \<or>
      (\<exists>attempt. us_pending_payment st = Some attempt \<and> \<not> at_merkle attempt \<and> us_pending_payment st' = None \<and>
        (\<forall>a \<in> set (at_addresses attempt). map_of (us_proofs st') a \<noteq> None))"
    by (rule confirm_Inr)
  with Inr confirm_proofs [OF ok] show ?thesis by (simp add: restrict_map_def)
qed

text \<open>An upload of two records that share nothing but the wallet's transaction.\<close>

definition tiny_upload_api :: "(unit, key list, key, key) upload_api" where
  "tiny_upload_api =
     \<lparr>ua_proofs = tiny_proof_api, ua_merkle = tiny_merkle_api, deserialize_merkle_proof = (\<lambda>_. None),
      deserialize_single_node_proof = (\<lambda>b. if b = [] then None else
        Some \<lparr>pp_peer_quotes = [([9], tiny_quote)], pp_tx_hashes = [b], pp_commitment_sidecars = []\<rparr>),
      MERKLE_PAYMENT_EXPIRATION = 3600, encoded_peer_of = (\<lambda>k. k), verify_quote_signature = (\<lambda>_. True)\<rparr>"

definition tiny_plan :: "key \<Rightarrow> nat chunk_payment_plan" where
  "tiny_plan a = \<lparr>cp_address = a, cp_data_size = 1, cp_quoted_peers = [],
     cp_payment = \<lparr>snp_quotes = [\<lparr>qi_quote_hash = a, qi_rewards_address = [4], qi_amount = 30, qi_price = 10\<rparr>]\<rparr>,
     cp_peer_quotes = [([9], tiny_quote)], cp_commitment_sidecars = []\<rparr>"

definition tiny_state :: "(nat, key list, key, nat) upload_state" where
  "tiny_state = \<lparr>us_plans = [([1], tiny_plan [1]), ([2], tiny_plan [2])], us_proofs = [], us_pending_merkle = None,
     us_pending_payment = Some \<lparr>at_merkle = False, at_addresses = [[1], [2]], at_submissions = [], at_receipt = None\<rparr>,
     us_failed_payments = []\<rparr>"

theorem confirm_is_all_or_nothing_witness:
  "confirm tiny_upload_api [[1], [2]] [[1] \<mapsto> [7]] 0 tiny_state = (Inl Payment, tiny_state) \<and>
   (\<exists>st'. confirm tiny_upload_api [[1], [2]] [[1] \<mapsto> [7], [2] \<mapsto> [7]] 0 tiny_state = (Inr (), st') \<and>
      us_pending_payment st' = None \<and> map_of (us_plans st') [2] = None \<and> map_of (us_proofs st') [2] = Some [7])"
proof -
  note eval = confirm_def tiny_state_def is_paid_def new_proof_def build_plan_proof_def tiny_plan_def
    collect_tx_hashes_def tiny_upload_api_def tiny_proof_api_def extend_proofs_def
  have short: "confirm tiny_upload_api [[1], [2]] [[1] \<mapsto> [7]] 0 tiny_state = (Inl Payment, tiny_state)"
    by (simp add: eval)
  obtain st' where full: "confirm tiny_upload_api [[1], [2]] [[1] \<mapsto> [7], [2] \<mapsto> [7]] 0 tiny_state = (Inr (), st')"
    and pend: "us_pending_payment st' = None" and pf: "map_of (us_proofs st') [2] = Some [7]"
    by (simp add: eval Let_def)
  show ?thesis using short full pend pf confirm_is_all_or_nothing [OF full] by simp
qed

section \<open>Native finalisation\<close>

lemma pay_prepared_eq:
  "pay_prepared api now c txs =
     bind_result (build_plan_proof (ua_proofs api) (plan_of_prepared c) txs)
       (\<lambda>bytes. Inr \<lparr>pd_content = pr_content c, pd_address = pr_address c,
                      pd_quoted_peers = pr_quoted_peers c, pd_proof_bytes = bytes\<rparr>)"
proof (cases "build_plan_proof (ua_proofs api) (plan_of_prepared c) txs")
  case (Inl e)
  then show ?thesis
    by (simp add: pay_prepared_def confirm_def prepare_def empty_upload_state_def is_paid_def new_proof_def
        plan_of_prepared_def)
next
  case (Inr b)
  then show ?thesis
    by (simp add: pay_prepared_def confirm_def prepare_def empty_upload_state_def is_paid_def new_proof_def
        plan_of_prepared_def extend_proofs_def Let_def)
qed

lemma collect_result_ok_iff: "(\<exists>ys. collect_result f xs = Inr ys) \<longleftrightarrow> (\<forall>x \<in> set xs. \<exists>y. f x = Inr y)"
  by (induction xs) (auto simp: bind_result_Inr_iff)

lemma collect_tx_ok:
  "(\<exists>hs. collect_tx_hashes txs infos = Inr hs) \<longleftrightarrow>
     (\<forall>q \<in> set infos. qi_amount q \<noteq> 0 \<longrightarrow> txs (qi_quote_hash q) \<noteq> None)"
  by (auto simp: collect_tx_hashes_def collect_result_ok_iff ok_or_Inr_iff)

text \<open>The intent handed to an external signer asks for exactly what finalisation needs: the batch can
  be finalised if and only if the signer returns a transaction for every payment of the intent, and
  then every chunk is paid with the proof its own plan and those transactions give.\<close>

theorem intent_is_what_finalisation_needs:
  assumes "\<And>pf. serialize_single_node_proof (ua_proofs api) pf \<noteq> None"
  shows "((\<exists>paid. finalize_batch_payment api now prepared txs = Inr paid) \<longleftrightarrow>
      (\<forall>(h, _, _) \<in> set (pi_payments (from_prepared_chunks prepared)). txs h \<noteq> None)) \<and>
    (\<forall>paid. finalize_batch_payment api now prepared txs = Inr paid \<longrightarrow>
      list_all2 (\<lambda>c p. pd_address p = pr_address c \<and> pd_content p = pr_content c \<and>
        build_plan_proof (ua_proofs api) (plan_of_prepared c) txs = Inr (pd_proof_bytes p)) prepared paid)"
proof -
  have one: "(\<exists>p. pay_prepared api now c txs = Inr p) \<longleftrightarrow>
      (\<forall>q \<in> set (snp_quotes (pr_payment c)). qi_amount q \<noteq> 0 \<longrightarrow> txs (qi_quote_hash q) \<noteq> None)" for c
  proof -
    have "(\<exists>p. pay_prepared api now c txs = Inr p) \<longleftrightarrow>
        (\<exists>hs. collect_tx_hashes txs (snp_quotes (pr_payment c)) = Inr hs)"
      using assms by (auto simp: pay_prepared_eq build_plan_proof_def results plan_of_prepared_def)
    then show ?thesis by (simp only: collect_tx_ok)
  qed
  have iff: "(\<exists>paid. finalize_batch_payment api now prepared txs = Inr paid) \<longleftrightarrow>
      (\<forall>(h, _, _) \<in> set (pi_payments (from_prepared_chunks prepared)). txs h \<noteq> None)"
    unfolding finalize_batch_payment_def build_paid_chunks_def collect_result_ok_iff one
    by (force simp: from_prepared_chunks_def Let_def)
  have "list_all2 (\<lambda>c p. pd_address p = pr_address c \<and> pd_content p = pr_content c \<and>
        build_plan_proof (ua_proofs api) (plan_of_prepared c) txs = Inr (pd_proof_bytes p)) prepared paid"
    if "finalize_batch_payment api now prepared txs = Inr paid" for paid
    using that unfolding finalize_batch_payment_def build_paid_chunks_def collect_result_Inr_iff
    by (rule list_all2_mono) (auto simp: pay_prepared_eq results)
  with iff show ?thesis by blast
qed

theorem intent_is_what_finalisation_needs_witness:
  "\<exists>c. with_content tiny_proof_api (tiny_plan [1]) [1] = Inr c \<and>
     (\<exists>paid. finalize_batch_payment tiny_upload_api 0 [c] [[1] \<mapsto> [7]] = Inr paid) \<and>
     \<not> (\<exists>paid. finalize_batch_payment tiny_upload_api 0 [c] [[2] \<mapsto> [7]] = Inr paid)"
proof -
  have total: "serialize_single_node_proof (ua_proofs tiny_upload_api) pf \<noteq> None" for pf
    by (simp add: tiny_upload_api_def tiny_proof_api_def)
  obtain c where c: "with_content tiny_proof_api (tiny_plan [1]) [1] = Inr c"
    by (simp add: with_content_def tiny_plan_def tiny_proof_api_def)
  then have pay: "pi_payments (from_prepared_chunks [c]) = [([1], [4], 30)]"
    by (auto simp: with_content_def tiny_plan_def tiny_proof_api_def from_prepared_chunks_def)
  note intent = intent_is_what_finalisation_needs [of tiny_upload_api 0 "[c]", OF total]
  show ?thesis using c intent [of "[[1] \<mapsto> [7]]"] intent [of "[[2] \<mapsto> [7]]"] by (auto simp: pay)
qed

section \<open>Restored checkpoints\<close>

lemma check_plan_ok:
  assumes "check_plan api (a, plan) = Inr u"
  shows "cp_address plan = a" and "cp_peer_quotes plan \<noteq> []" and "quotes_bound api a (cp_peer_quotes plan)"
    and "\<exists>m. median_quote_index (map (pq_price \<circ> snd) (cp_peer_quotes plan)) = Some m \<and>
      unat (total_amount (cp_payment plan)) = 3 * unat (pq_price (snd (cp_peer_quotes plan ! m)))"
proof -
  from assms obtain canonical where *: "cp_address plan = a" "cp_peer_quotes plan \<noteq> []"
      "quotes_bound api a (cp_peer_quotes plan)"
    and canonical: "from_quotes (ua_proofs api) (map snd (cp_peer_quotes plan)) = Inr canonical"
    and same: "snp_quotes canonical = snp_quotes (cp_payment plan)"
    by (auto simp: check_plan_def results split: if_splits)
  show "cp_address plan = a" "cp_peer_quotes plan \<noteq> []" "quotes_bound api a (cp_peer_quotes plan)" by (fact *)+
  from canonical obtain m where "median_quote_index (map pq_price (map snd (cp_peer_quotes plan))) = Some m"
    and "m < length (map snd (cp_peer_quotes plan))"
    and "unat (total_amount canonical) = 3 * unat (pq_price (map snd (cp_peer_quotes plan) ! m))"
    by (rule from_quotes_InrD)
  moreover have "total_amount canonical = total_amount (cp_payment plan)" by (simp add: total_amount_def same)
  ultimately show "\<exists>m. median_quote_index (map (pq_price \<circ> snd) (cp_peer_quotes plan)) = Some m \<and>
      unat (total_amount (cp_payment plan)) = 3 * unat (pq_price (snd (cp_peer_quotes plan ! m)))"
    by (intro exI [of _ m]) simp
qed

text \<open>C12: A restored checkpoint cannot overpay: every plan of it is filed under the address its quotes were
  signed for, every quote carries the signature and the peer identity of its key, and the plan pays
  exactly three times the median of the signed prices; a pending single-node payment has all its plans.\<close>

theorem restored_plans_pay_the_median:
  assumes "restore api decode bytes = Inr st"
  shows "(\<forall>(a, plan) \<in> set (us_plans st).
      cp_address plan = a \<and> quotes_bound api a (cp_peer_quotes plan) \<and>
      (\<exists>m. median_quote_index (map (pq_price \<circ> snd) (cp_peer_quotes plan)) = Some m \<and>
        unat (total_amount (cp_payment plan)) = 3 * unat (pq_price (snd (cp_peer_quotes plan ! m))))) \<and>
    (\<forall>attempt. us_pending_payment st = Some attempt \<and> \<not> at_merkle attempt \<longrightarrow>
      (\<forall>a \<in> set (at_addresses attempt). map_of (us_plans st) a \<noteq> None))"
proof -
  from assms have plans: "\<exists>ys. collect_result (check_plan api) (us_plans st) = Inr ys"
    and pending: "check_pending api st = Inr ()"
    by (auto simp: restore_def bind_result_Inr_iff ok_or_Inr_iff)
  have "cp_address plan = a \<and> quotes_bound api a (cp_peer_quotes plan) \<and>
      (\<exists>m. median_quote_index (map (pq_price \<circ> snd) (cp_peer_quotes plan)) = Some m \<and>
        unat (total_amount (cp_payment plan)) = 3 * unat (pq_price (snd (cp_peer_quotes plan ! m))))"
    if "(a, plan) \<in> set (us_plans st)" for a plan
  proof -
    from plans that obtain u where "check_plan api (a, plan) = Inr u" unfolding collect_result_ok_iff by blast
    then show ?thesis using check_plan_ok by metis
  qed
  moreover have "\<forall>a \<in> set (at_addresses attempt). map_of (us_plans st) a \<noteq> None"
    if "us_pending_payment st = Some attempt" "\<not> at_merkle attempt" for attempt
  proof -
    have "\<exists>ps. pending_plans st = Inr ps"
      using pending that by (auto simp: check_pending_def bind_result_Inr_iff split: if_splits)
    then have "\<forall>a \<in> set (at_addresses attempt). \<exists>p. ok_or (map_of (us_plans st) a) InvalidData = Inr p"
      using that(1) by (simp only: pending_plans_def option.case collect_result_ok_iff)
    then show ?thesis by (auto simp: ok_or_Inr_iff)
  qed
  ultimately show ?thesis by fast
qed

definition restorable_plan :: "nat chunk_payment_plan" where
  "restorable_plan = (tiny_plan [1])\<lparr>cp_payment := \<lparr>snp_quotes =
     [\<lparr>qi_quote_hash = [3], qi_rewards_address = [4], qi_amount = 30, qi_price = 10\<rparr>]\<rparr>\<rparr>"

definition restorable_state :: "(nat, key list, key, nat) upload_state" where
  "restorable_state = tiny_state\<lparr>us_plans := [([1], restorable_plan)],
     us_pending_payment := Some \<lparr>at_merkle = False, at_addresses = [[1]], at_submissions = [], at_receipt = None\<rparr>\<rparr>"

theorem restored_plans_pay_the_median_witness:
  "restore tiny_upload_api (\<lambda>_. Some restorable_state) [] = Inr restorable_state \<and>
   unat (total_amount (cp_payment restorable_plan)) = 3 * unat (10 :: amount_word) \<and>
   restore tiny_upload_api (\<lambda>_. Some (restorable_state\<lparr>us_plans := [([1], tiny_plan [1])]\<rparr>)) [] = Inl InvalidData"
proof -
  have prices: "from_quotes tiny_proof_api [tiny_quote] = Inr (cp_payment restorable_plan)"
  proof -
    have "median_quote_index [10 :: amount_word] = Some 0" by (simp add: median_quote_index_def rank_quotes_def)
    then have "from_prices 7 [10 :: amount_word] = Inr \<lparr>plan_quotes = [\<lparr>quote_index = 0, amount = 30\<rparr>], paid_position = 0\<rparr>"
      by (simp add: from_prices_unfold enhanced_payment_amount_def checked_mul_multiplier_def unat_multiplier)
    then show ?thesis
      by (simp add: from_quotes_def tiny_proof_api_def tiny_quote_def restorable_plan_def)
  qed
  note eval = restore_def restorable_state_def tiny_state_def check_plan_def check_pending_def pending_plans_def
    quotes_bound_def tiny_upload_api_def
  have ok: "restore tiny_upload_api (\<lambda>_. Some restorable_state) [] = Inr restorable_state"
    using prices by (simp add: eval) (simp add: restorable_plan_def tiny_plan_def tiny_quote_def)
  have bad: "restore tiny_upload_api (\<lambda>_. Some (restorable_state\<lparr>us_plans := [([1], tiny_plan [1])]\<rparr>)) [] = Inl InvalidData"
    using prices by (simp add: eval) (simp add: restorable_plan_def tiny_plan_def tiny_quote_def)
  have "unat (total_amount (cp_payment restorable_plan)) = 3 * unat (10 :: amount_word)"
    using conjunct1 [OF restored_plans_pay_the_median [OF ok]]
    by (auto simp: restorable_state_def restorable_plan_def tiny_plan_def tiny_quote_def
        median_quote_index_def rank_quotes_def)
  with ok bad show ?thesis by blast
qed

section \<open>Evidence of payment survives\<close>

text \<open>
  The methods as the upload driver and the browser call them: a merkle result is inserted for a
  pending merkle attempt.
\<close>

inductive upload_step ::
  "('c, 't, 'ap, 'm) upload_api \<Rightarrow> ('p, 't, 'm, 'j) upload_state \<Rightarrow> ('p, 't, 'm, 'j) upload_state \<Rightarrow> bool"
  for api where
  Prepare: "upload_step api st (prepare plan st)"
| Start: "start_payment merkle addresses st = (r, st') \<Longrightarrow> upload_step api st st'"
| Confirm: "confirm api addresses txs now st = (r, st') \<Longrightarrow> upload_step api st st'"
| Merkle: "us_pending_payment st = Some attempt \<Longrightarrow> at_merkle attempt \<Longrightarrow> upload_step api st (insert_merkle paid st)"
| Fail: "record_failed_payment resolution st = (r, st') \<Longrightarrow> upload_step api st st'"

text \<open>The proofs of \<open>D\<close> are held, and the attempt is pending, recorded as failed, or covered by proofs.\<close>

definition evidence :: "key set \<Rightarrow> 'j payment_attempt \<Rightarrow> ('p, 't, 'm, 'j) upload_state \<Rightarrow> bool" where
  "evidence D attempt st \<longleftrightarrow> D \<subseteq> dom (map_of (us_proofs st)) \<and>
     (\<not> at_merkle attempt \<longrightarrow>
        us_pending_payment st = Some attempt \<or> attempt \<in> fst ` set (us_failed_payments st) \<or>
        set (at_addresses attempt) \<subseteq> dom (map_of (us_proofs st)))"

lemma confirm_keeps:
  assumes "confirm api addresses txs now st = (r, st')"
  shows "dom (map_of (us_proofs st)) \<subseteq> dom (map_of (us_proofs st'))"
    and "us_failed_payments st' = us_failed_payments st"
  using assms
  by (auto simp: confirm_def Let_def map_of_extend_proofs map_add_def split: sum.splits option.splits)

lemma evidence_confirm:
  assumes "evidence D attempt st" and "confirm api addresses txs now st = (r, st')"
  shows "evidence D attempt st'"
proof (cases r)
  case (Inl e)
  with assms confirm_Inl show ?thesis by metis
next
  case (Inr u)
  with assms(2) have ok: "confirm api addresses txs now st = (Inr u, st')" by simp
  then have "us_pending_payment st' = us_pending_payment st \<or>
      (\<exists>attempt. us_pending_payment st = Some attempt \<and> \<not> at_merkle attempt \<and> us_pending_payment st' = None \<and>
        (\<forall>a \<in> set (at_addresses attempt). map_of (us_proofs st') a \<noteq> None))"
    by (rule confirm_Inr)
  then have closed: "us_pending_payment st' = us_pending_payment st \<or>
      (\<exists>p. us_pending_payment st = Some p \<and> set (at_addresses p) \<subseteq> dom (map_of (us_proofs st')))"
    by (auto simp: subset_iff domIff)
  have up: "X \<subseteq> dom (map_of (us_proofs st')) " if "X \<subseteq> dom (map_of (us_proofs st))" for X
    using that confirm_keeps(1) [OF assms(2)] by (rule subset_trans)
  from assms(1) closed up show ?thesis
    unfolding evidence_def confirm_keeps(2) [OF assms(2)] by (metis option.inject)
qed

interpretation payment_evidence: transition_invariant "upload_step api" "evidence D attempt" for api D attempt
proof
  fix st st'
  assume ev: "evidence D attempt st" and "upload_step api st st'"
  from this(2) show "evidence D attempt st'"
  proof cases
    case (Prepare plan)
    with ev show ?thesis by (simp add: evidence_def prepare_def)
  next
    case (Start merkle addresses r)
    with ev show ?thesis by (auto simp: evidence_def start_payment_def split: if_splits)
  next
    case (Confirm addresses txs now r)
    with ev show ?thesis by (auto intro: evidence_confirm)
  next
    case (Merkle at' paid)
    with ev show ?thesis by (auto simp: evidence_def insert_merkle_def dom_extend)
  next
    case (Fail resolution r)
    with ev show ?thesis by (auto simp: evidence_def record_failed_payment_def split: option.splits)
  qed
qed



end
