(* ===== verification/Native_Payment.thy ===== *)
theory Native_Payment
  imports Upload_State
begin

text \<open>
  The native payment journal, \<^verbatim>\<open>ant-core/src/data/client/native_payment.rs\<close>, with the
  checkpoints of the two native upload adapters (\<^verbatim>\<open>SpillUploadAdapter\<close> in
  \<^verbatim>\<open>file/native.rs\<close>, \<^verbatim>\<open>MemoryUploadAdapter\<close> in \<^verbatim>\<open>upload.rs\<close>). The wallet,
  the chain and the clock are the world \<open>'w\<close>. A call may not return: the process stops, or the
  thirty-second timeout drops it; that is the result \<open>None\<close>, with whatever the call has done to
  the world. Broadcasts are kept in a log, as are the events after which signed bytes can no
  longer be mined: a revert, a replaced nonce, or the refusal of their nonce when they are first
  sent. A session starts from the durable checkpoint, as every upload does.
\<close>

datatype ('x, 'rc) evidence_value = Preparing | Signed 'x | Receipt 'rc | Foreign

datatype 'rc payment_status = Confirmed 'rc | Reverted | Finalizing | Replaced | Pending

datatype 'x chain_event = Sent 'x | Dead 'x

datatype native_error = Stale_unsent_nonce | Native error

fun native_to_error :: "native_error \<Rightarrow> error" where
  "native_to_error Stale_unsent_nonce = Payment"
| "native_to_error (Native e) = e"

type_synonym ('p, 't, 'm, 'x, 'rc) native_state = "('p, 't, 'm, ('x, 'rc) evidence_value) upload_state"

record ('w, 'rq, 'st, 'x, 'rc) native_env =
  nv_wallet :: "'w \<Rightarrow> bool"
  nv_refused :: "'w \<Rightarrow> bool"
  nv_parse :: "string \<Rightarrow> amount_word option"
  nv_fresh :: "'rq \<Rightarrow> 'st \<Rightarrow> 'w \<Rightarrow> bool"
  nv_prepare_payment :: "'rq \<Rightarrow> 'w \<Rightarrow> (string, 'x) result option \<times> 'w"
  nv_broadcast_payment :: "'x \<Rightarrow> 'rq \<Rightarrow> 'w \<Rightarrow> (string, unit) result option \<times> 'w"
  nv_observe_payment :: "'x \<Rightarrow> 'rq \<Rightarrow> 'w \<Rightarrow> (string, 'rc payment_status) result option \<times> 'w"
  nv_checkpoint :: "'st \<Rightarrow> 'w \<Rightarrow> (bool \<times> (error, unit) result option) \<times> 'w"
  nv_sleep :: "'w \<Rightarrow> bool \<times> 'w"

record ('st, 'w, 'x) session =
  se_state :: 'st
  se_durable :: 'st
  se_world :: 'w
  se_log :: "'x chain_event list"

type_synonym ('c, 'a) cut_op = "'c \<Rightarrow> (native_error, 'a) result option \<times> 'c"

definition bind_cut :: "('c, 'a) cut_op \<Rightarrow> ('a \<Rightarrow> ('c, 'b) cut_op) \<Rightarrow> ('c, 'b) cut_op" where
  "bind_cut m f c =
     (case m c of
        (None, c') \<Rightarrow> (None, c')
      | (Some (Inl e), c') \<Rightarrow> (Some (Inl e), c')
      | (Some (Inr x), c') \<Rightarrow> f x c')"

definition return_cut :: "'a \<Rightarrow> ('c, 'a) cut_op" where "return_cut x c = (Some (Inr x), c)"

definition fail_cut :: "error \<Rightarrow> ('c, 'a) cut_op" where "fail_cut e c = (Some (Inl (Native e)), c)"

definition modify_state :: "('st \<Rightarrow> 'st) \<Rightarrow> (('st, 'w, 'x) session, unit) cut_op" where
  "modify_state f c = (Some (Inr ()), c\<lparr>se_state := f (se_state c)\<rparr>)"

definition log_event :: "'x chain_event \<Rightarrow> (('st, 'w, 'x) session, unit) cut_op" where
  "log_event e c = (Some (Inr ()), c\<lparr>se_log := se_log c @ [e]\<rparr>)"

text \<open>A call to the world, with its errors converted.\<close>

definition call_world ::
  "('w \<Rightarrow> ('e, 'a) result option \<times> 'w) \<Rightarrow> ('e \<Rightarrow> native_error) \<Rightarrow> (('st, 'w, 'x) session, 'a) cut_op" where
  "call_world f conv c =
     (case f (se_world c) of (r, w) \<Rightarrow> (map_option (map_err conv) r, c\<lparr>se_world := w\<rparr>))"

definition do_checkpoint :: "('w, 'rq, 'st, 'x, 'rc) native_env \<Rightarrow> (('st, 'w, 'x) session, unit) cut_op" where
  "do_checkpoint env c =
     (case nv_checkpoint env (se_state c) (se_world c) of
        ((persisted, r), w) \<Rightarrow>
          (map_option (map_err Native) r,
           c\<lparr>se_world := w, se_durable := (if persisted then se_state c else se_durable c)\<rparr>))"

definition do_sleep :: "('w, 'rq, 'st, 'x, 'rc) native_env \<Rightarrow> (('st, 'w, 'x) session, unit) cut_op" where
  "do_sleep env c =
     (case nv_sleep env (se_world c) of
        (woke, w) \<Rightarrow> (if woke then Some (Inr ()) else None, c\<lparr>se_world := w\<rparr>))"

section \<open>The journal\<close>

definition initialize :: "('x, 'rc) evidence_value payment_attempt \<Rightarrow> ('x, 'rc) evidence_value payment_attempt" where
  "initialize attempt = attempt\<lparr>at_submissions := [Preparing]\<rparr>"

definition with_attempt ::
  "('j payment_attempt \<Rightarrow> 'j payment_attempt) \<Rightarrow> ('p, 't, 'm, 'j) upload_state \<Rightarrow> ('p, 't, 'm, 'j) upload_state" where
  "with_attempt f st = st\<lparr>us_pending_payment := map_option f (us_pending_payment st)\<rparr>"

definition drop_attempt :: "('p, 't, 'm, 'j) upload_state \<Rightarrow> ('p, 't, 'm, 'j) upload_state" where
  "drop_attempt st = st\<lparr>us_pending_payment := None\<rparr>"

definition ascii_lower :: "char \<Rightarrow> char" where
  "ascii_lower c = (if CHR ''A'' \<le> c \<and> c \<le> CHR ''Z'' then char_of (of_char c + (32 :: nat)) else c)"

definition is_stale_nonce :: "string \<Rightarrow> bool" where
  "is_stale_nonce message \<longleftrightarrow> split_once ''nonce too low'' (map ascii_lower message) \<noteq> None"

text \<open>The first sending of bytes signed in this call.\<close>

definition first_broadcast ::
  "('w, 'rq, ('p, 't, 'm, 'x, 'rc) native_state, 'x, 'rc) native_env \<Rightarrow> 'rq \<Rightarrow> 'x \<Rightarrow>
     ((('p, 't, 'm, 'x, 'rc) native_state, 'w, 'x) session, unit) cut_op" where
  "first_broadcast env rq x =
     bind_cut (log_event (Sent x)) (\<lambda>_ c.
       (case nv_broadcast_payment env x rq (se_world c) of
          (None, w) \<Rightarrow> (None, c\<lparr>se_world := w\<rparr>)
        | (Some (Inr _), w) \<Rightarrow> (Some (Inr ()), c\<lparr>se_world := w\<rparr>)
        | (Some (Inl message), w) \<Rightarrow>
            if is_stale_nonce message then
              bind_cut (log_event (Dead x))
                (\<lambda>_. bind_cut (modify_state (with_attempt initialize))
                (\<lambda>_. bind_cut (do_checkpoint env)
                (\<lambda>_ c. (Some (Inl Stale_unsent_nonce), c)))) (c\<lparr>se_world := w\<rparr>)
            else (Some (Inl (Native Payment)), c\<lparr>se_world := w\<rparr>)))"

text \<open>An ambiguous send retries the same bytes.\<close>

definition again_broadcast ::
  "('w, 'rq, ('p, 't, 'm, 'x, 'rc) native_state, 'x, 'rc) native_env \<Rightarrow> 'rq \<Rightarrow> 'x \<Rightarrow>
     ((('p, 't, 'm, 'x, 'rc) native_state, 'w, 'x) session, unit) cut_op" where
  "again_broadcast env rq x c =
     (if nv_refused env (se_world c) then fail_cut ClientUpdateRequired c
      else if \<not> nv_fresh env rq (se_state c) (se_world c) then fail_cut Payment c
      else bind_cut (log_event (Sent x)) (\<lambda>_. call_world (nv_broadcast_payment env x rq) (\<lambda>_. Native Payment)) c)"

definition settle_dead ::
  "('w, 'rq, ('p, 't, 'm, 'x, 'rc) native_state, 'x, 'rc) native_env \<Rightarrow> 'x \<Rightarrow>
     ((('p, 't, 'm, 'x, 'rc) native_state, 'w, 'x) session, 'rc) cut_op" where
  "settle_dead env x =
     bind_cut (log_event (Dead x)) (\<lambda>_. bind_cut (modify_state drop_attempt)
       (\<lambda>_. bind_cut (do_checkpoint env) (\<lambda>_. fail_cut Payment)))"

fun observe_loop ::
  "('w, 'rq, ('p, 't, 'm, 'x, 'rc) native_state, 'x, 'rc) native_env \<Rightarrow> 'rq \<Rightarrow> 'x \<Rightarrow> bool \<Rightarrow> nat \<Rightarrow> bool \<Rightarrow>
     ((('p, 't, 'm, 'x, 'rc) native_state, 'w, 'x) session, 'rc) cut_op" where
  "observe_loop env rq x unsent 0 broadcast c = (None, c)"
| "observe_loop env rq x unsent (Suc n) broadcast c =
     bind_cut (if unsent \<and> \<not> broadcast then bind_cut (first_broadcast env rq x) (\<lambda>_. return_cut True)
               else return_cut broadcast)
       (\<lambda>broadcast. bind_cut (call_world (nv_observe_payment env x rq) (\<lambda>_. Native Payment))
       (\<lambda>status. case status of
            Confirmed receipt \<Rightarrow>
              bind_cut (modify_state (with_attempt (\<lambda>a. a\<lparr>at_receipt := Some (Receipt receipt)\<rparr>)))
                (\<lambda>_. bind_cut (do_checkpoint env) (\<lambda>_. return_cut receipt))
          | Reverted \<Rightarrow> settle_dead env x
          | Finalizing \<Rightarrow> fail_cut Payment
          | Replaced \<Rightarrow> settle_dead env x
          | Pending \<Rightarrow>
              bind_cut (if broadcast then return_cut () else again_broadcast env rq x)
                (\<lambda>_. bind_cut (do_sleep env)
                (\<lambda>_. observe_loop env rq x unsent n True)))) c"

text \<open>The loop sleeps a second per round, so the thirty-second timeout ends it within thirty rounds.\<close>

definition observe_payment_within_timeout ::
  "('w, 'rq, ('p, 't, 'm, 'x, 'rc) native_state, 'x, 'rc) native_env \<Rightarrow> 'rq \<Rightarrow> 'x \<Rightarrow> bool \<Rightarrow>
     ((('p, 't, 'm, 'x, 'rc) native_state, 'w, 'x) session, 'rc) cut_op" where
  "observe_payment_within_timeout env rq x unsent c =
     (case observe_loop env rq x unsent 30 False c of
        (None, c') \<Rightarrow> (Some (Inl (Native Payment)), c')
      | (Some r, c') \<Rightarrow> (Some r, c'))"

definition sign_payment ::
  "('w, 'rq, ('p, 't, 'm, 'x, 'rc) native_state, 'x, 'rc) native_env \<Rightarrow> 'rq \<Rightarrow>
     ((('p, 't, 'm, 'x, 'rc) native_state, 'w, 'x) session, 'x) cut_op" where
  "sign_payment env rq c =
     (case (if nv_refused env (se_world c) then fail_cut ClientUpdateRequired c
            else if \<not> nv_fresh env rq (se_state c) (se_world c) then fail_cut Payment c
            else call_world (nv_prepare_payment env rq) (\<lambda>m. Native (from_payment_failure (nv_parse env) m)) c) of
        (None, c) \<Rightarrow> (None, c)
      | (Some (Inl e), c) \<Rightarrow>
          bind_cut (modify_state drop_attempt)
            (\<lambda>_. bind_cut (do_checkpoint env) (\<lambda>_ c. (Some (Inl e), c))) c
      | (Some (Inr x), c) \<Rightarrow>
          bind_cut (modify_state (with_attempt (\<lambda>a. a\<lparr>at_submissions := [Signed x]\<rparr>)))
            (\<lambda>_. bind_cut (do_checkpoint env) (\<lambda>_. return_cut x)) c)"

definition execute_once ::
  "('w, 'rq, ('p, 't, 'm, 'x, 'rc) native_state, 'x, 'rc) native_env \<Rightarrow> 'rq \<Rightarrow>
     ((('p, 't, 'm, 'x, 'rc) native_state, 'w, 'x) session, 'rc) cut_op" where
  "execute_once env rq c =
     (case us_pending_payment (se_state c) of
        None \<Rightarrow> fail_cut Payment c
      | Some attempt \<Rightarrow>
          (case at_submissions attempt of
             [Signed x] \<Rightarrow>
               if \<not> nv_wallet env (se_world c) then fail_cut Payment c
               else observe_payment_within_timeout env rq x False c
           | [Preparing] \<Rightarrow>
               if \<not> nv_wallet env (se_world c) then fail_cut Payment c
               else bind_cut (sign_payment env rq) (\<lambda>x. observe_payment_within_timeout env rq x True) c
           | _ \<Rightarrow> fail_cut Payment c))"

definition execute ::
  "('w, 'rq, ('p, 't, 'm, 'x, 'rc) native_state, 'x, 'rc) native_env \<Rightarrow> 'rq \<Rightarrow>
     (('p, 't, 'm, 'x, 'rc) native_state, 'w, 'x) session \<Rightarrow>
     (error, 'rc) result option \<times> (('p, 't, 'm, 'x, 'rc) native_state, 'w, 'x) session" where
  "execute env rq c =
     (case (case execute_once env rq c of
              (Some (Inl Stale_unsent_nonce), c) \<Rightarrow> execute_once env rq c
            | outcome \<Rightarrow> outcome) of
        (r, c) \<Rightarrow> (map_option (map_err native_to_error) r, c))"

section \<open>Payments of an upload\<close>

datatype payment_request = Quotes "quote_payment list" | Merkle_request nat "pool_commitment list" nat

record payment_receipt =
  rc_transaction_hash :: key
  rc_amount :: amount_word
  rc_gas_cost_wei :: nat
  rc_winner_pool :: "key option"

record upload_payment =
  up_transactions :: "tx_map"
  up_amount :: amount_word
  up_gas :: nat

record merkle_upload_payment =
  mu_winner_pool :: key
  mu_amount :: amount_word
  mu_gas :: nat

definition plan_request :: "'p chunk_payment_plan list \<Rightarrow> quote_payment list" where
  "plan_request plans =
     map (\<lambda>q. (qi_quote_hash q, qi_rewards_address q, qi_amount q))
       (filter (\<lambda>q. qi_amount q \<noteq> 0) (concat (map (snp_quotes \<circ> cp_payment) plans)))"

definition native_pay ::
  "('w, payment_request, ('p, 't, 'm, 'x, payment_receipt) native_state, 'x, payment_receipt) native_env \<Rightarrow>
     'p chunk_payment_plan list \<Rightarrow> (('p, 't, 'm, 'x, payment_receipt) native_state, 'w, 'x) session \<Rightarrow>
     (error, upload_payment) result option \<times> (('p, 't, 'm, 'x, payment_receipt) native_state, 'w, 'x) session" where
  "native_pay env plans c =
     (let quotes = plan_request plans; hashes = map fst quotes
      in (case execute env (Quotes quotes) c of
            (r, c) \<Rightarrow>
              (map_option (\<lambda>r. bind_result r (\<lambda>receipt. Inr
                 \<lparr>up_transactions = map_of (map (\<lambda>h. (h, rc_transaction_hash receipt)) hashes),
                  up_amount = rc_amount receipt, up_gas = rc_gas_cost_wei receipt\<rparr>)) r, c)))"

definition native_pay_merkle ::
  "('w, payment_request, ('p, 't, 'm, 'x, payment_receipt) native_state, 'x, payment_receipt) native_env \<Rightarrow>
     ('t, 'm) prepared_merkle_batch \<Rightarrow> (('p, 't, 'm, 'x, payment_receipt) native_state, 'w, 'x) session \<Rightarrow>
     (error, merkle_upload_payment) result option \<times> (('p, 't, 'm, 'x, payment_receipt) native_state, 'w, 'x) session" where
  "native_pay_merkle env batch c =
     (case execute env (Merkle_request (pb_depth batch) (pb_pool_commitments batch) (pb_timestamp batch)) c of
        (r, c) \<Rightarrow>
          (map_option (\<lambda>r. bind_result r (\<lambda>receipt. bind_result (ok_or (rc_winner_pool receipt) Payment)
             (\<lambda>winner. Inr \<lparr>mu_winner_pool = winner, mu_amount = rc_amount receipt, mu_gas = rc_gas_cost_wei receipt\<rparr>))) r, c))"

text \<open>What the wallet is asked to pay is what the plans cost, and every paid quote gets the transaction.\<close>

lemma sum_nonzero: "sum_list (map f (filter (\<lambda>x. f x \<noteq> 0) xs)) = sum_list (map f xs)"
  for f :: "'a \<Rightarrow> 'b :: comm_monoid_add"
  by (induction xs) auto

lemma plan_request_total:
  "sum_list (map (snd \<circ> snd) (plan_request plans)) = sum_list (map (total_amount \<circ> cp_payment) plans)"
  by (induction plans) (auto simp: plan_request_def total_amount_def comp_def sum_nonzero)

lemma native_pay_covers:
  assumes "native_pay env plans c = (Some (Inr paid), c')" and "plan \<in> set plans"
  shows "\<exists>hs. collect_tx_hashes (up_transactions paid) (snp_quotes (cp_payment plan)) = Inr hs"
proof -
  have "\<exists>receipt :: payment_receipt. up_transactions paid =
      map_of (map (\<lambda>h. (h, rc_transaction_hash receipt)) (map fst (plan_request plans)))"
    using assms(1) by (auto simp: native_pay_def Let_def bind_result_Inr_iff split: prod.splits option.splits)
  then obtain receipt :: payment_receipt where "up_transactions paid =
      map_of (map (\<lambda>h. (h, rc_transaction_hash receipt)) (map fst (plan_request plans)))" ..
  then have dom: "up_transactions paid h \<noteq> None \<longleftrightarrow> h \<in> fst ` set (plan_request plans)" for h
    by (simp add: map_of_eq_None_iff image_image)
  have "qi_quote_hash q \<in> fst ` set (plan_request plans)"
    if "q \<in> set (snp_quotes (cp_payment plan))" "qi_amount q \<noteq> 0" for q
    using that assms(2) by (auto simp: plan_request_def image_image)
  with dom show ?thesis unfolding collect_tx_ok by blast
qed

section \<open>Sessions\<close>

text \<open>A session: read the durable checkpoint, start an attempt unless one is pending, execute it.\<close>

definition test_execute_native_payment ::
  "('w, 'rq, ('p, 't, 'm, 'x, 'rc) native_state, 'x, 'rc) native_env \<Rightarrow> 'rq \<Rightarrow>
     (('p, 't, 'm, 'x, 'rc) native_state, 'w, 'x) session \<Rightarrow>
     (error, 'rc) result option \<times> (('p, 't, 'm, 'x, 'rc) native_state, 'w, 'x) session" where
  "test_execute_native_payment env rq c =
     (let c = c\<lparr>se_state := se_durable c\<rparr>
      in if us_pending_payment (se_state c) \<noteq> None then execute env rq c
         else (case bind_cut (modify_state (with_attempt initialize \<circ> snd \<circ> start_payment False []))
                      (\<lambda>_. do_checkpoint env) c of
                 (None, c) \<Rightarrow> (None, c)
               | (Some (Inl e), c) \<Rightarrow> (Some (Inl (native_to_error e)), c)
               | (Some (Inr _), c) \<Rightarrow> execute env rq c))"

section \<open>Checkpoints\<close>

text \<open>
  The contract of an adapter's checkpoint: when it reports success the state is durable. It is
  what \<^verbatim>\<open>UploadAdapter::checkpoint\<close> documents.
\<close>

datatype file_step = Done | Failed | Stopped
datatype rename_step = Renamed | Not_renamed | Stopped_renaming bool

record 'w file_ops =
  fo_temp_file :: "'w \<Rightarrow> file_step \<times> 'w"
  fo_write_all :: "'w \<Rightarrow> file_step \<times> 'w"
  fo_sync_all :: "'w \<Rightarrow> file_step \<times> 'w"
  fo_persist :: "'w \<Rightarrow> rename_step \<times> 'w"

definition spill_checkpoint ::
  "('st \<Rightarrow> bytes option) \<Rightarrow> 'w file_ops \<Rightarrow> 'st \<Rightarrow> 'w \<Rightarrow> (bool \<times> (error, unit) result option) \<times> 'w" where
  "spill_checkpoint encode fo st w =
     (if encode st = None then ((False, Some (Inl Serialization)), w)
      else (case fo_temp_file fo w of
        (Failed, w) \<Rightarrow> ((False, Some (Inl Io)), w)
      | (Stopped, w) \<Rightarrow> ((False, None), w)
      | (Done, w) \<Rightarrow> (case fo_write_all fo w of
          (Failed, w) \<Rightarrow> ((False, Some (Inl Io)), w)
        | (Stopped, w) \<Rightarrow> ((False, None), w)
        | (Done, w) \<Rightarrow> (case fo_sync_all fo w of
            (Failed, w) \<Rightarrow> ((False, Some (Inl Io)), w)
          | (Stopped, w) \<Rightarrow> ((False, None), w)
          | (Done, w) \<Rightarrow> (case fo_persist fo w of
              (Renamed, w) \<Rightarrow> ((True, Some (Inr ())), w)
            | (Not_renamed, w) \<Rightarrow> ((False, Some (Inl Io)), w)
            | (Stopped_renaming happened, w) \<Rightarrow> ((happened, None), w))))))"

definition memory_checkpoint :: "'st \<Rightarrow> 'w \<Rightarrow> (bool \<times> (error, unit) result option) \<times> 'w" where
  "memory_checkpoint st w = ((False, Some (Inr ())), w)"

section \<open>At most one live payment\<close>

definition live :: "'x chain_event list \<Rightarrow> 'x \<Rightarrow> bool" where
  "live evs x \<longleftrightarrow> Sent x \<in> set evs \<and> Dead x \<notin> set evs"

definition journal :: "('p, 't, 'm, 'x, 'rc) native_state \<Rightarrow> 'x option" where
  "journal st =
     (case us_pending_payment st of
        None \<Rightarrow> None
      | Some attempt \<Rightarrow> (case at_submissions attempt of [Signed x] \<Rightarrow> Some x | _ \<Rightarrow> None))"

definition armed :: "'x \<Rightarrow> (('p, 't, 'm, 'x, 'rc) native_state, 'w, 'x) session \<Rightarrow> bool" where
  "armed x c \<longleftrightarrow> journal (se_state c) = Some x \<and> journal (se_durable c) = Some x"

definition guarded :: "(('p, 't, 'm, 'x, 'rc) native_state, 'w, 'x) session \<Rightarrow> bool" where
  "guarded c \<longleftrightarrow> (\<forall>x. live (se_log c) x \<longrightarrow> armed x c)"

definition quiet :: "('st, 'w, 'x) session \<Rightarrow> bool" where
  "quiet c \<longleftrightarrow> (\<forall>x. \<not> live (se_log c) x)"

lemma quiet_guarded: "quiet c \<Longrightarrow> guarded c"
  by (simp add: quiet_def guarded_def)

lemma journal_simps [simp]:
  "journal (drop_attempt st) = None"
  "journal (with_attempt initialize st) = None"
  "journal (with_attempt (\<lambda>a. a\<lparr>at_receipt := v\<rparr>) st) = journal st"
  "us_pending_payment st \<noteq> None \<Longrightarrow> journal (with_attempt (\<lambda>a. a\<lparr>at_submissions := [Signed x]\<rparr>) st) = Some x"
  by (auto simp: journal_def drop_attempt_def with_attempt_def initialize_def split: option.splits)

text \<open>After sending, or after the death of, the journaled bytes.\<close>

lemma guarded_sent: "guarded c \<Longrightarrow> armed x c \<Longrightarrow> guarded (c\<lparr>se_log := se_log c @ [Sent x]\<rparr>)"
  by (auto simp: guarded_def live_def armed_def)

lemma quiet_dead: "guarded c \<Longrightarrow> armed x c \<Longrightarrow> quiet (c\<lparr>se_log := se_log c @ [Dead x]\<rparr>)"
  by (auto simp: guarded_def quiet_def live_def armed_def)

lemma live_snoc [simp]: "live (evs @ [Sent y]) x \<longleftrightarrow> (live evs x \<or> x = y \<and> Dead x \<notin> set evs)"
  "live (evs @ [Dead y]) x \<longleftrightarrow> live evs x \<and> x \<noteq> y"
  by (auto simp: live_def)

text \<open>Triples for operations that may be cut short; the postcondition also speaks of the result.\<close>

definition triple :: "('c \<Rightarrow> bool) \<Rightarrow> ('c, 'a) cut_op \<Rightarrow> ((native_error, 'a) result option \<Rightarrow> 'c \<Rightarrow> bool) \<Rightarrow> bool" where
  "triple P m Q \<longleftrightarrow> (\<forall>c. P c \<longrightarrow> Q (fst (m c)) (snd (m c)))"

lemma tripleI: "(\<And>c r c'. P c \<Longrightarrow> m c = (r, c') \<Longrightarrow> Q r c') \<Longrightarrow> triple P m Q"
  by (simp add: triple_def)

lemma tripleD: "triple P m Q \<Longrightarrow> P c \<Longrightarrow> m c = (r, c') \<Longrightarrow> Q r c'"
  by (auto simp: triple_def dest!: spec [of _ c])

lemma triple_weaken: "triple P' m Q' \<Longrightarrow> (\<And>c. P c \<Longrightarrow> P' c) \<Longrightarrow> (\<And>r c. Q' r c \<Longrightarrow> Q r c) \<Longrightarrow> triple P m Q"
  by (simp add: triple_def)

text \<open>What every operation of a session leaves behind.\<close>

definition safe_then ::
  "('a \<Rightarrow> (('p, 't, 'm, 'x, 'rc) native_state, 'w, 'x) session \<Rightarrow> bool) \<Rightarrow> (native_error, 'a) result option \<Rightarrow>
     (('p, 't, 'm, 'x, 'rc) native_state, 'w, 'x) session \<Rightarrow> bool" where
  "safe_then R r c =
     (case r of
        None \<Rightarrow> guarded c
      | Some (Inl e) \<Rightarrow> guarded c \<and> (e = Stale_unsent_nonce \<longrightarrow> journal (se_state c) = None)
      | Some (Inr x) \<Rightarrow> R x c)"

lemma triple_seq:
  assumes "triple P m (safe_then R)" and "\<And>x. triple (R x) (f x) (safe_then Q)"
  shows "triple P (bind_cut m f) (safe_then Q)"
proof (rule tripleI)
  fix c r c'
  assume "P c" and step: "bind_cut m f c = (r, c')"
  obtain r1 c1 where m: "m c = (r1, c1)" by fastforce
  with assms(1) \<open>P c\<close> have s1: "safe_then R r1 c1" by (rule tripleD)
  consider "r1 = None" | e where "r1 = Some (Inl e)" | x where "r1 = Some (Inr x)"
    by (metis option.exhaust sum.exhaust)
  then show "safe_then Q r c'"
  proof cases
    case 3
    with s1 step show ?thesis using tripleD [OF assms(2)] by (simp add: bind_cut_def m safe_then_def)
  qed (use s1 step in \<open>auto simp: bind_cut_def m safe_then_def\<close>)
qed

lemma safe_then_mono: "safe_then R r c \<Longrightarrow> (\<And>x. R x c \<Longrightarrow> R' x c) \<Longrightarrow> safe_then R' r c"
  by (auto simp: safe_then_def split: option.splits sum.splits)

lemma call_world_triple:
  assumes "\<And>c w. P c \<Longrightarrow> P (c\<lparr>se_world := w\<rparr>)" and "\<And>e. conv e \<noteq> Stale_unsent_nonce"
  shows "triple P (call_world f conv) (\<lambda>r c. P c \<and> r \<noteq> Some (Inl Stale_unsent_nonce))"
proof (rule tripleI)
  fix c r c'
  assume "P c" and step: "call_world f conv c = (r, c')"
  obtain r0 w where "f (se_world c) = (r0, w)" by fastforce
  with step have r: "r = map_option (map_err conv) r0" and c': "c' = c\<lparr>se_world := w\<rparr>"
    by (simp_all add: call_world_def)
  have "map_err conv z \<noteq> Inl Stale_unsent_nonce" for z using assms(2) by (cases z) auto
  with \<open>P c\<close> show "P c' \<and> r \<noteq> Some (Inl Stale_unsent_nonce)" using assms(1) by (auto simp: r c')
qed

lemma world_irrelevant [simp]:
  "guarded (c\<lparr>se_world := w\<rparr>) = guarded c" "armed x (c\<lparr>se_world := w\<rparr>) = armed x c" "quiet (c\<lparr>se_world := w\<rparr>) = quiet c"
  by (simp_all add: guarded_def armed_def quiet_def)

definition resumable :: "(('p, 't, 'm, 'x, 'rc) native_state, 'w, 'x) session \<Rightarrow> bool" where
  "resumable c \<longleftrightarrow> guarded c \<and> (\<forall>x. journal (se_state c) = Some x \<longrightarrow> journal (se_durable c) = Some x)"

lemma guarded_quiet: "guarded c \<Longrightarrow> journal (se_state c) = None \<Longrightarrow> quiet c"
  by (auto simp: guarded_def quiet_def armed_def)

lemma other_evidence:
  assumes "\<And>x. vs \<noteq> [Signed x]" and "vs \<noteq> [Preparing]"
  shows "(case vs of [Signed x] \<Rightarrow> f x | [Preparing] \<Rightarrow> g | _ \<Rightarrow> h) = h"
proof (cases vs)
  case (Cons v ws)
  with assms show ?thesis by (cases v; cases ws) auto
qed simp

locale durable_adapter =
  fixes checkpoint :: "('p, 't, 'm, 'x, 'rc) native_state \<Rightarrow> 'w \<Rightarrow> (bool \<times> (error, unit) result option) \<times> 'w"
  assumes saved: "checkpoint st w = ((persisted, Some (Inr u)), w') \<Longrightarrow> persisted"
begin

lemma checkpoint_spec:
  assumes "nv_checkpoint env = checkpoint" and "do_checkpoint env c = (r, c')"
  shows "se_state c' = se_state c" and "se_log c' = se_log c"
    and "se_durable c' = se_state c \<or> se_durable c' = se_durable c"
    and "r = Some (Inr u) \<Longrightarrow> se_durable c' = se_state c"
    and "r \<noteq> Some (Inl Stale_unsent_nonce)"
proof -
  obtain persisted r0 w where ck: "nv_checkpoint env (se_state c) (se_world c) = ((persisted, r0), w)"
    by (metis surj_pair)
  have r: "r = map_option (map_err Native) r0"
    and c': "c' = c\<lparr>se_world := w, se_durable := (if persisted then se_state c else se_durable c)\<rparr>"
    using assms(2) by (simp_all add: do_checkpoint_def ck)
  show "se_state c' = se_state c" "se_log c' = se_log c"
    "se_durable c' = se_state c \<or> se_durable c' = se_durable c" by (simp_all add: c')
  show "r \<noteq> Some (Inl Stale_unsent_nonce)" by (auto simp: r map_err_def split: sum.splits)
  show "se_durable c' = se_state c" if "r = Some (Inr u)"
  proof -
    from that have "r0 = Some (Inr u)" by (cases r0) (auto simp: r map_err_Inr_iff)
    with ck assms(1) have persisted using saved by metis
    then show ?thesis by (simp add: c')
  qed
qed

lemma checkpoint_quiet:
  assumes "nv_checkpoint env = checkpoint"
  shows "triple (\<lambda>c. quiet c \<and> R (se_state c)) (do_checkpoint env)
    (\<lambda>r c. quiet c \<and> R (se_state c) \<and> r \<noteq> Some (Inl Stale_unsent_nonce) \<and>
      ((\<exists>u. r = Some (Inr u)) \<longrightarrow> se_durable c = se_state c))"
proof (rule tripleI)
  fix c r c'
  assume "quiet c \<and> R (se_state c)" and step: "do_checkpoint env c = (r, c')"
  with checkpoint_spec [OF assms step]
  show "quiet c' \<and> R (se_state c') \<and> r \<noteq> Some (Inl Stale_unsent_nonce) \<and>
      ((\<exists>u. r = Some (Inr u)) \<longrightarrow> se_durable c' = se_state c')"
    by (auto simp: quiet_def)
qed

lemma checkpoint_guarded:
  assumes "nv_checkpoint env = checkpoint"
  shows "triple guarded (do_checkpoint env) (\<lambda>r c. guarded c \<and> r \<noteq> Some (Inl Stale_unsent_nonce))"
proof (rule tripleI)
  fix c r c'
  assume "guarded c" and step: "do_checkpoint env c = (r, c')"
  with checkpoint_spec [OF assms step]
  show "guarded c' \<and> r \<noteq> Some (Inl Stale_unsent_nonce)"
    unfolding guarded_def armed_def by metis
qed

lemma retire_safe:
  assumes "nv_checkpoint env = checkpoint" and "\<And>st. journal (f st) = None"
  shows "triple (\<lambda>c. guarded c \<and> armed x c)
    (bind_cut (log_event (Dead x)) (\<lambda>_. bind_cut (modify_state f) (\<lambda>_. bind_cut (do_checkpoint env) (\<lambda>_ c. (Some (Inl e), c)))))
    (safe_then (\<lambda>_ _. False))"
proof (rule triple_seq)
  show "triple (\<lambda>c. guarded c \<and> armed x c) (log_event (Dead x)) (safe_then (\<lambda>_. quiet))"
    by (rule tripleI) (auto simp: log_event_def safe_then_def intro: quiet_dead)
next
  fix u
  show "triple quiet (bind_cut (modify_state f) (\<lambda>_. bind_cut (do_checkpoint env) (\<lambda>_ c. (Some (Inl e), c))))
    (safe_then (\<lambda>_ _. False))"
  proof (rule triple_seq)
    show "triple quiet (modify_state f) (safe_then (\<lambda>_ c. quiet c \<and> journal (se_state c) = None))"
      by (rule tripleI) (auto simp: modify_state_def quiet_def safe_then_def assms(2))
  next
    fix u
    show "triple (\<lambda>c. quiet c \<and> journal (se_state c) = None) (bind_cut (do_checkpoint env) (\<lambda>_ c. (Some (Inl e), c)))
      (safe_then (\<lambda>_ _. False))"
    proof (rule triple_seq)
      show "triple (\<lambda>c. quiet c \<and> journal (se_state c) = None) (do_checkpoint env)
          (safe_then (\<lambda>_ c. quiet c \<and> journal (se_state c) = None))"
        by (rule triple_weaken [OF checkpoint_quiet [OF assms(1), of "\<lambda>st. journal st = None"]])
          (auto simp: safe_then_def quiet_guarded split: option.split sum.split)
    qed (rule tripleI, auto simp: safe_then_def quiet_guarded)
  qed
qed

lemma settle_dead_safe:
  assumes "nv_checkpoint env = checkpoint"
  shows "triple (\<lambda>c. guarded c \<and> armed x c) (settle_dead env x) (safe_then (\<lambda>_. guarded))"
  unfolding settle_dead_def fail_cut_def
  by (rule triple_weaken [OF retire_safe [OF assms]]) (auto intro: safe_then_mono)

lemma sent_triple: "triple (\<lambda>c. guarded c \<and> armed x c) (log_event (Sent x)) (safe_then (\<lambda>_ c. guarded c \<and> armed x c))"
  by (rule tripleI) (auto simp: log_event_def safe_then_def guarded_sent, simp add: armed_def)

lemma first_broadcast_safe:
  assumes "nv_checkpoint env = checkpoint"
  shows "triple (\<lambda>c. guarded c \<and> armed x c) (first_broadcast env rq x) (safe_then (\<lambda>_ c. guarded c \<and> armed x c))"
  unfolding first_broadcast_def
proof (rule triple_seq, rule sent_triple, rule tripleI)
  fix c r c'
  let ?retire = "bind_cut (log_event (Dead x)) (\<lambda>_. bind_cut (modify_state (with_attempt initialize))
                (\<lambda>_. bind_cut (do_checkpoint env) (\<lambda>_ c. (Some (Inl Stale_unsent_nonce), c))))"
  assume g: "guarded c \<and> armed x c"
    and step: "(case nv_broadcast_payment env x rq (se_world c) of
          (None, w) \<Rightarrow> (None, c\<lparr>se_world := w\<rparr>)
        | (Some (Inr _), w) \<Rightarrow> (Some (Inr ()), c\<lparr>se_world := w\<rparr>)
        | (Some (Inl message), w) \<Rightarrow>
            if is_stale_nonce message then ?retire (c\<lparr>se_world := w\<rparr>)
            else (Some (Inl (Native Payment)), c\<lparr>se_world := w\<rparr>)) = (r, c')"
  obtain b w where b: "nv_broadcast_payment env x rq (se_world c) = (b, w)" by fastforce
  have "safe_then (\<lambda>_ _. False) r c'" if "?retire (c\<lparr>se_world := w\<rparr>) = (r, c')"
    by (rule tripleD [OF retire_safe [OF assms] _ that]) (use g in simp_all)
  then show "safe_then (\<lambda>_ c. guarded c \<and> armed x c) r c'"
    using step g by (auto simp: b safe_then_def dest: safe_then_mono split: option.splits sum.splits if_splits)
qed

lemma again_broadcast_safe:
  "triple (\<lambda>c. guarded c \<and> armed x c) (again_broadcast env rq x) (safe_then (\<lambda>_ c. guarded c \<and> armed x c))"
proof (rule tripleI)
  fix c r c'
  assume g: "guarded c \<and> armed x c" and step: "again_broadcast env rq x c = (r, c')"
  let ?send = "bind_cut (log_event (Sent x)) (\<lambda>_. call_world (nv_broadcast_payment env x rq) (\<lambda>_. Native Payment))"
  have send: "triple (\<lambda>c. guarded c \<and> armed x c) ?send (safe_then (\<lambda>_ c. guarded c \<and> armed x c))"
  proof (rule triple_seq, rule sent_triple)
    show "triple (\<lambda>c. guarded c \<and> armed x c) (call_world (nv_broadcast_payment env x rq) (\<lambda>_. Native Payment))
        (safe_then (\<lambda>_ c. guarded c \<and> armed x c))"
      by (rule triple_weaken [OF call_world_triple [of "\<lambda>c. guarded c \<and> armed x c"]])
        (auto simp: safe_then_def split: option.splits sum.splits)
  qed
  show "safe_then (\<lambda>_ c. guarded c \<and> armed x c) r c'"
    using step g tripleD [OF send g, of r c']
    by (auto simp: again_broadcast_def fail_cut_def safe_then_def split: if_splits)
qed

lemma confirmed_safe:
  assumes "nv_checkpoint env = checkpoint"
  shows "triple (\<lambda>c. guarded c \<and> armed x c)
    (bind_cut (modify_state (with_attempt (\<lambda>a. a\<lparr>at_receipt := v\<rparr>))) (\<lambda>_. bind_cut (do_checkpoint env) (\<lambda>_. return_cut y)))
    (safe_then (\<lambda>_. guarded))"
proof (rule triple_seq)
  show "triple (\<lambda>c. guarded c \<and> armed x c) (modify_state (with_attempt (\<lambda>a. a\<lparr>at_receipt := v\<rparr>))) (safe_then (\<lambda>_. guarded))"
    by (rule tripleI) (auto simp: modify_state_def safe_then_def guarded_def armed_def)
next
  fix u
  show "triple guarded (bind_cut (do_checkpoint env) (\<lambda>_. return_cut y)) (safe_then (\<lambda>_. guarded))"
  proof (rule triple_seq)
    show "triple guarded (do_checkpoint env) (safe_then (\<lambda>_. guarded))"
      by (rule triple_weaken [OF checkpoint_guarded [OF assms]]) (auto simp: safe_then_def split: option.splits sum.splits)
  qed (rule tripleI, auto simp: return_cut_def safe_then_def)
qed

lemma observe_loop_safe:
  assumes "nv_checkpoint env = checkpoint"
  shows "triple (\<lambda>c. guarded c \<and> armed x c) (observe_loop env rq x unsent n broadcast) (safe_then (\<lambda>_. guarded))"
proof (induction n arbitrary: broadcast)
  case 0
  show ?case by (rule tripleI) (simp add: safe_then_def)
next
  case (Suc n)
  let ?G = "\<lambda>c. guarded c \<and> armed x c"
  have sleep: "triple ?G (do_sleep env) (safe_then (\<lambda>_. ?G))"
    by (rule tripleI) (auto simp: do_sleep_def safe_then_def split: prod.splits if_splits)
  have send: "triple ?G (if b then return_cut () else again_broadcast env rq x) (safe_then (\<lambda>_. ?G))" for b
  proof (cases b)
    case True
    then show ?thesis by (simp, intro tripleI) (auto simp: return_cut_def safe_then_def)
  qed (use again_broadcast_safe [of x env rq] in simp)
  have first: "triple ?G (if unsent \<and> \<not> broadcast then bind_cut (first_broadcast env rq x) (\<lambda>_. return_cut True)
               else return_cut broadcast) (safe_then (\<lambda>_. ?G))"
  proof (cases "unsent \<and> \<not> broadcast")
    case True
    have "triple ?G (bind_cut (first_broadcast env rq x) (\<lambda>_. return_cut True)) (safe_then (\<lambda>_. ?G))"
      by (rule triple_seq [OF first_broadcast_safe [OF assms]]) (rule tripleI, auto simp: return_cut_def safe_then_def)
    with True show ?thesis by simp
  next
    case False
    then show ?thesis by (simp only: if_False, intro tripleI) (auto simp: return_cut_def safe_then_def)
  qed
  have look: "triple ?G (call_world (nv_observe_payment env x rq) (\<lambda>_. Native Payment)) (safe_then (\<lambda>_. ?G))"
    by (rule triple_weaken [OF call_world_triple [of ?G]]) (auto simp: safe_then_def split: option.splits sum.splits)
  have tail: "triple ?G (case status of
            Confirmed receipt \<Rightarrow>
              bind_cut (modify_state (with_attempt (\<lambda>a. a\<lparr>at_receipt := Some (Receipt receipt)\<rparr>)))
                (\<lambda>_. bind_cut (do_checkpoint env) (\<lambda>_. return_cut receipt))
          | Reverted \<Rightarrow> settle_dead env x
          | Finalizing \<Rightarrow> fail_cut Payment
          | Replaced \<Rightarrow> settle_dead env x
          | Pending \<Rightarrow>
              bind_cut (if b then return_cut () else again_broadcast env rq x)
                (\<lambda>_. bind_cut (do_sleep env) (\<lambda>_. observe_loop env rq x unsent n True))) (safe_then (\<lambda>_. guarded))"
    for status b
  proof (cases status)
    case Pending
    have "triple ?G (bind_cut (if b then return_cut () else again_broadcast env rq x)
                (\<lambda>_. bind_cut (do_sleep env) (\<lambda>_. observe_loop env rq x unsent n True))) (safe_then (\<lambda>_. guarded))"
      by (rule triple_seq [OF send], rule triple_seq [OF sleep], rule Suc)
    with Pending show ?thesis by simp
  next
    case Finalizing
    then show ?thesis by (auto intro!: tripleI simp: fail_cut_def safe_then_def)
  qed (use confirmed_safe [OF assms] settle_dead_safe [OF assms] in simp_all)
  have "triple ?G (\<lambda>c. observe_loop env rq x unsent (Suc n) broadcast c) (safe_then (\<lambda>_. guarded))"
    unfolding observe_loop.simps
    by (rule triple_seq [OF first], rule triple_seq [OF look], rule tail)
  then show ?case by simp
qed

lemma timeout_safe:
  assumes "nv_checkpoint env = checkpoint"
  shows "triple (\<lambda>c. guarded c \<and> armed x c) (observe_payment_within_timeout env rq x unsent) (safe_then (\<lambda>_. guarded))"
proof (rule tripleI)
  fix c r c'
  assume g: "guarded c \<and> armed x c" and step: "observe_payment_within_timeout env rq x unsent c = (r, c')"
  obtain r1 c1 where ob: "observe_loop env rq x unsent 30 False c = (r1, c1)" by fastforce
  with tripleD [OF observe_loop_safe [OF assms] g ob] step show "safe_then (\<lambda>_. guarded) r c'"
    by (auto simp: observe_payment_within_timeout_def safe_then_def split: option.splits)
qed

text \<open>Signing starts with nothing live and ends with the new bytes durably journaled.\<close>

lemma sign_payment_safe:
  assumes "nv_checkpoint env = checkpoint"
  shows "triple (\<lambda>c. quiet c \<and> us_pending_payment (se_state c) \<noteq> None) (sign_payment env rq)
    (safe_then (\<lambda>x c. guarded c \<and> armed x c))"
proof (rule tripleI)
  fix c r c'
  assume q: "quiet c \<and> us_pending_payment (se_state c) \<noteq> None" and step: "sign_payment env rq c = (r, c')"
  let ?P = "\<lambda>c. quiet c \<and> us_pending_payment (se_state c) \<noteq> None"
  let ?attempt_sign = "\<lambda>c. if nv_refused env (se_world c) then fail_cut ClientUpdateRequired c
            else if \<not> nv_fresh env rq (se_state c) (se_world c) then fail_cut Payment c
            else call_world (nv_prepare_payment env rq) (\<lambda>m. Native (from_payment_failure (nv_parse env) m)) c"
  obtain r1 c1 where t: "?attempt_sign c = (r1, c1)" by fastforce
  have call: "triple ?P (call_world (nv_prepare_payment env rq) (\<lambda>m. Native (from_payment_failure (nv_parse env) m)))
      (\<lambda>r c. ?P c \<and> r \<noteq> Some (Inl Stale_unsent_nonce))"
    by (rule call_world_triple) (auto simp: quiet_def)
  have c1: "?P c1" and r1: "r1 \<noteq> Some (Inl Stale_unsent_nonce)"
    using t q tripleD [OF call q, of r1 c1] by (auto simp: fail_cut_def split: if_splits)
  have drop: "triple ?P (bind_cut (modify_state drop_attempt) (\<lambda>_. bind_cut (do_checkpoint env) (\<lambda>_ c. (Some (Inl e), c))))
      (safe_then (\<lambda>x c. guarded c \<and> armed x c))" for e
  proof (rule triple_seq)
    show "triple ?P (modify_state drop_attempt) (safe_then (\<lambda>_ c. quiet c \<and> journal (se_state c) = None))"
      by (rule tripleI) (auto simp: modify_state_def quiet_def safe_then_def)
  next
    fix u
    show "triple (\<lambda>c. quiet c \<and> journal (se_state c) = None) (bind_cut (do_checkpoint env) (\<lambda>_ c. (Some (Inl e), c)))
        (safe_then (\<lambda>x c. guarded c \<and> armed x c))"
    proof (rule triple_seq)
      show "triple (\<lambda>c. quiet c \<and> journal (se_state c) = None) (do_checkpoint env)
          (safe_then (\<lambda>_ c. quiet c \<and> journal (se_state c) = None))"
        by (rule triple_weaken [OF checkpoint_quiet [OF assms, of "\<lambda>st. journal st = None"]])
          (auto simp: safe_then_def quiet_guarded split: option.split sum.split)
    qed (rule tripleI, auto simp: safe_then_def quiet_guarded)
  qed
  have keep: "triple ?P (bind_cut (modify_state (with_attempt (\<lambda>a. a\<lparr>at_submissions := [Signed x]\<rparr>)))
            (\<lambda>_. bind_cut (do_checkpoint env) (\<lambda>_. return_cut x))) (safe_then (\<lambda>x c. guarded c \<and> armed x c))" for x
  proof (rule triple_seq)
    show "triple ?P (modify_state (with_attempt (\<lambda>a. a\<lparr>at_submissions := [Signed x]\<rparr>)))
        (safe_then (\<lambda>_ c. quiet c \<and> journal (se_state c) = Some x))"
      by (rule tripleI) (auto simp: modify_state_def quiet_def safe_then_def)
  next
    fix u
    show "triple (\<lambda>c. quiet c \<and> journal (se_state c) = Some x) (bind_cut (do_checkpoint env) (\<lambda>_. return_cut x))
        (safe_then (\<lambda>x c. guarded c \<and> armed x c))"
    proof (rule triple_seq)
      show "triple (\<lambda>c. quiet c \<and> journal (se_state c) = Some x) (do_checkpoint env)
          (safe_then (\<lambda>_ c. guarded c \<and> armed x c))"
        by (rule triple_weaken [OF checkpoint_quiet [OF assms, of "\<lambda>st. journal st = Some x"]])
          (auto simp: safe_then_def quiet_guarded armed_def split: option.split sum.split)
    qed (rule tripleI, auto simp: return_cut_def safe_then_def)
  qed
  consider "r1 = None" | e where "r1 = Some (Inl e)" | x where "r1 = Some (Inr x)"
    by (metis option.exhaust sum.exhaust)
  then show "safe_then (\<lambda>x c. guarded c \<and> armed x c) r c'"
  proof cases
    case 1
    with step t c1 show ?thesis by (auto simp: sign_payment_def safe_then_def quiet_guarded)
  next
    case (2 e)
    with step t tripleD [OF drop c1, of e r c'] show ?thesis by (simp add: sign_payment_def)
  next
    case (3 x)
    with step t tripleD [OF keep c1, of x r c'] show ?thesis by (simp add: sign_payment_def)
  qed
qed

lemma execute_once_safe:
  assumes "nv_checkpoint env = checkpoint"
  shows "triple resumable (execute_once env rq) (safe_then (\<lambda>_. guarded))"
proof (rule tripleI)
  fix c r c'
  assume res: "resumable c" and step: "execute_once env rq c = (r, c')"
  then have g: "guarded c" by (simp add: resumable_def)
  show "safe_then (\<lambda>_. guarded) r c'"
  proof (cases "us_pending_payment (se_state c)")
    case None
    with step g show ?thesis by (auto simp: execute_once_def fail_cut_def safe_then_def)
  next
    case (Some attempt)
    consider x where "at_submissions attempt = [Signed x]" "nv_wallet env (se_world c)"
      | "at_submissions attempt = [Preparing]" "nv_wallet env (se_world c)"
      | "execute_once env rq c = fail_cut Payment c"
    proof (cases "(\<exists>x. at_submissions attempt = [Signed x]) \<or> at_submissions attempt = [Preparing]")
      case True
      then show ?thesis using that by (cases "nv_wallet env (se_world c)") (auto simp: execute_once_def Some)
    next
      case False
      then show ?thesis using that(3) by (simp add: execute_once_def Some other_evidence)
    qed
    then show ?thesis
    proof cases
      case (1 x)
      then have "journal (se_state c) = Some x" by (simp add: journal_def Some)
      with res have "guarded c \<and> armed x c" by (simp add: resumable_def armed_def)
      from tripleD [OF timeout_safe [OF assms] this] 1 step Some show ?thesis by (simp add: execute_once_def)
    next
      case 2
      then have "journal (se_state c) = None" by (simp add: journal_def Some)
      with g Some have q: "quiet c \<and> us_pending_payment (se_state c) \<noteq> None" by (simp add: guarded_quiet)
      have "triple (\<lambda>c. quiet c \<and> us_pending_payment (se_state c) \<noteq> None)
          (bind_cut (sign_payment env rq) (\<lambda>x. observe_payment_within_timeout env rq x True)) (safe_then (\<lambda>_. guarded))"
        by (rule triple_seq [OF sign_payment_safe [OF assms] timeout_safe [OF assms]])
      from tripleD [OF this q] 2 step Some show ?thesis by (simp add: execute_once_def)
    next
      case 3
      with step g show ?thesis by (auto simp: fail_cut_def safe_then_def)
    qed
  qed
qed

lemma execute_guarded:
  assumes "nv_checkpoint env = checkpoint" and "resumable c" and "execute env rq c = (r, c')"
  shows "guarded c'"
proof -
  obtain r1 c1 where once: "execute_once env rq c = (r1, c1)" by fastforce
  note first = tripleD [OF execute_once_safe [OF assms(1)] assms(2) once]
  show ?thesis
  proof (cases "r1 = Some (Inl Stale_unsent_nonce)")
    case True
    obtain r2 c2 where twice: "execute_once env rq c1 = (r2, c2)" by fastforce
    have "resumable c1" using first True by (simp add: safe_then_def resumable_def)
    from tripleD [OF execute_once_safe [OF assms(1)] this twice]
    have "guarded c2" by (auto simp: safe_then_def split: option.splits sum.splits)
    with assms(3) show ?thesis by (simp add: execute_def once True twice)
  next
    case False
    then have "c' = c1" using assms(3)
      by (auto simp: execute_def once split: option.splits sum.splits native_error.splits)
    with first show ?thesis by (auto simp: safe_then_def split: option.splits sum.splits)
  qed
qed

text \<open>Between sessions only the durable state matters.\<close>

lemma session_keeps_journal:
  assumes "nv_checkpoint env = checkpoint"
    and "\<And>x. live (se_log c) x \<Longrightarrow> journal (se_durable c) = Some x"
    and "test_execute_native_payment env rq c = (r, c')"
  shows "live (se_log c') x \<Longrightarrow> journal (se_durable c') = Some x"
proof -
  define c0 where "c0 = c\<lparr>se_state := se_durable c\<rparr>"
  have g0: "guarded c0" using assms(2) by (simp add: c0_def guarded_def armed_def)
  have "guarded c'"
  proof (cases "us_pending_payment (se_state c0)")
    case (Some attempt)
    have "resumable c0" using g0 by (simp add: resumable_def) (simp add: c0_def)
    moreover have "execute env rq c0 = (r, c')"
      using assms(3) Some by (simp add: test_execute_native_payment_def Let_def c0_def)
    ultimately show ?thesis by (rule execute_guarded [OF assms(1)])
  next
    case None
    let ?start = "bind_cut (modify_state (with_attempt initialize \<circ> snd \<circ> start_payment False [])) (\<lambda>_. do_checkpoint env)"
    obtain r1 c1 where start: "?start c0 = (r1, c1)" by fastforce
    have q0: "quiet c0" using g0 None by (intro guarded_quiet) (simp_all add: journal_def)
    have s: "triple quiet ?start (safe_then (\<lambda>_ c. quiet c \<and> journal (se_state c) = None))"
    proof (rule triple_seq)
      show "triple quiet (modify_state (with_attempt initialize \<circ> snd \<circ> start_payment False []))
          (safe_then (\<lambda>_ c. quiet c \<and> journal (se_state c) = None))"
        by (rule tripleI) (auto simp: modify_state_def quiet_def safe_then_def)
      show "triple (\<lambda>c. quiet c \<and> journal (se_state c) = None) (do_checkpoint env)
          (safe_then (\<lambda>_ c. quiet c \<and> journal (se_state c) = None))" for u
        by (rule triple_weaken [OF checkpoint_quiet [OF assms(1), of "\<lambda>st. journal st = None"]])
          (auto simp: safe_then_def quiet_guarded split: option.split sum.split)
    qed
    note started = tripleD [OF s q0 start]
    show ?thesis
    proof (cases "\<exists>u. r1 = Some (Inr u)")
      case True
      then have "execute env rq c1 = (r, c')"
        using assms(3) start None by (auto simp: test_execute_native_payment_def Let_def c0_def)
      moreover have "resumable c1"
        using started True by (auto simp: safe_then_def resumable_def quiet_guarded)
      ultimately show ?thesis by (metis execute_guarded [OF assms(1)])
    next
      case False
      then have "c' = c1"
        using assms(3) start None
        by (auto simp: test_execute_native_payment_def Let_def c0_def split: option.splits sum.splits)
      with started False show ?thesis by (auto simp: safe_then_def split: option.splits sum.splits)
    qed
  qed
  then show "live (se_log c') x \<Longrightarrow> journal (se_durable c') = Some x" by (simp add: guarded_def armed_def)
qed

end

interpretation spill: durable_adapter "spill_checkpoint encode fo" for encode fo
  by unfold_locales (auto simp: spill_checkpoint_def split: if_splits prod.splits file_step.splits rename_step.splits)

section \<open>Properties\<close>

text \<open>Sessions of an upload: calls that fail, return or never return.\<close>

inductive upload_session ::
  "('w, 'rq, ('p, 't, 'm, 'x, 'rc) native_state, 'x, 'rc) native_env \<Rightarrow>
     (('p, 't, 'm, 'x, 'rc) native_state, 'w, 'x) session \<Rightarrow> (('p, 't, 'm, 'x, 'rc) native_state, 'w, 'x) session \<Rightarrow> bool"
  for env where
  Session: "test_execute_native_payment env rq c = (r, c') \<Longrightarrow> upload_session env c c'"

text \<open>The native client storing its checkpoints in a file.\<close>

definition with_file_checkpoint ::
  "('w, 'rq, 'st, 'x, 'rc) native_env \<Rightarrow> ('st \<Rightarrow> bytes option) \<Rightarrow> 'w file_ops \<Rightarrow> ('w, 'rq, 'st, 'x, 'rc) native_env" where
  "with_file_checkpoint env encode fo = env\<lparr>nv_checkpoint := spill_checkpoint encode fo\<rparr>"

definition journaled :: "(('p, 't, 'm, 'x, 'rc) native_state, 'w, 'x) session \<Rightarrow> bool" where
  "journaled c \<longleftrightarrow> (\<forall>x. live (se_log c) x \<longrightarrow> journal (se_durable c) = Some x)"

interpretation journal_inv: transition_invariant "upload_session (with_file_checkpoint env encode fo)" journaled
  for env encode fo
proof
  fix c c'
  assume j: "journaled c" and "upload_session (with_file_checkpoint env encode fo) c c'"
  from this(2) show "journaled c'"
  proof cases
    case (Session rq r)
    have "nv_checkpoint (with_file_checkpoint env encode fo) = spill_checkpoint encode fo"
      by (simp add: with_file_checkpoint_def)
    from spill.session_keeps_journal [OF this _ Session] j show ?thesis by (auto simp: journaled_def)
  qed
qed


text \<open>
  A wallet whose world is the number of calls made so far and signs the number it sees. The first
  observation stays pending until the sleep is cut, the following ones confirm.
\<close>

definition tiny_env :: "(nat, unit, (nat, key list, key, nat, nat) native_state, nat, nat) native_env" where
  "tiny_env = \<lparr>nv_wallet = (\<lambda>_. True), nv_refused = (\<lambda>_. False), nv_parse = (\<lambda>_. None), nv_fresh = (\<lambda>_ _ _. True),
     nv_prepare_payment = (\<lambda>_ w. (Some (Inr w), w + 1)),
     nv_broadcast_payment = (\<lambda>x _ w. (Some (Inr ()), w + 1)),
     nv_observe_payment = (\<lambda>x _ w. (Some (Inr (if w < 10 then Pending else Confirmed x)), w + 1)),
     nv_checkpoint = memory_checkpoint, nv_sleep = (\<lambda>w. (False, w + 10))\<rparr>"

definition tiny_files :: "nat file_ops" where
  "tiny_files = \<lparr>fo_temp_file = (\<lambda>w. (Done, w)), fo_write_all = (\<lambda>w. (Done, w)), fo_sync_all = (\<lambda>w. (Done, w)),
     fo_persist = (\<lambda>w. (Renamed, w))\<rparr>"

definition fresh_session :: "((nat, key list, key, nat, nat) native_state, nat, nat) session" where
  "fresh_session = \<lparr>se_state = empty_upload_state, se_durable = empty_upload_state, se_world = 0, se_log = []\<rparr>"

lemmas native_eval =
  test_execute_native_payment_def execute_def execute_once_def sign_payment_def observe_payment_within_timeout_def
  first_broadcast_def again_broadcast_def settle_dead_def bind_cut_def return_cut_def fail_cut_def modify_state_def
  log_event_def call_world_def do_checkpoint_def do_sleep_def with_attempt_def initialize_def drop_attempt_def
  start_payment_def tiny_env_def fresh_session_def empty_upload_state_def



end
