(* ===== verification/Upload.thy ===== *)
theory Upload
  imports Native_Payment Merkle_Store
begin

text \<open>
  The upload coordinator, \<^verbatim>\<open>ant-core/src/data/client/upload.rs\<close>, with the check of content
  addresses of \<^verbatim>\<open>record.rs\<close>: preflight of the staged records, recovery of a pending payment,
  merkle preparation and payment, storage of the paid merkle batches, the waves of single-node
  payments, and the errors an upload ends with. The mutable variables of the source (the state, the
  outcome, the records still to upload) and the world are one context. The adapter and the client
  are the record \<open>upload_env\<close>. The calls by which the coordinator tells its adapter of receipts and
  of stored records are kept as events; the progress calls that carry only counts are dropped.
  Concurrent bodies run one after the other in the order in which they complete, which the
  environment picks; a body still running when its stream is dropped has no effect. The next
  wave is prepared after the stores of the current one, with which it runs concurrently.
\<close>

section \<open>Running bodies to completion\<close>

text \<open>
  A stream of bodies that is dropped at the first result that satisfies \<open>stop\<close>: later bodies do
  not run, and \<open>dropped\<close> stands for the results nobody sees.
\<close>

definition until ::
  "('r \<Rightarrow> bool) \<Rightarrow> 'r \<Rightarrow> ('i list \<Rightarrow> 's \<Rightarrow> nat) \<Rightarrow> ('i \<Rightarrow> 's \<Rightarrow> 'r \<times> 's) \<Rightarrow> ('i, 'r, 's \<times> bool) completer" where
  "until stop dropped pick body in_flight sb =
     (case sb of (s, stopped) \<Rightarrow>
        let n = pick in_flight s
        in if stopped then (n, dropped, s, True)
           else (case body (in_flight ! (n mod length in_flight)) s of (r, s) \<Rightarrow> (n, r, s, stop r)))"

definition rolling_until ::
  "('r \<Rightarrow> bool) \<Rightarrow> 'r \<Rightarrow> ('i list \<Rightarrow> 's \<Rightarrow> nat) \<Rightarrow> ('i \<Rightarrow> 's \<Rightarrow> 'r \<times> 's) \<Rightarrow> 'i list \<Rightarrow> ('s \<Rightarrow> nat) \<Rightarrow> 's \<Rightarrow>
     ('i \<times> 'r) list \<times> 's" where
  "rolling_until stop dropped pick body items cap s =
     (case rolling_unordered (until stop dropped pick body) items (cap \<circ> fst) (s, False) of (out, s, _) \<Rightarrow> (out, s))"

text \<open>
  What holds of the state and is kept by every body holds after the run, and a result of a body that
  ran is related to the final state when that relation survives the other bodies.
\<close>

lemma rolling_until_loop:
  assumes step: "\<And>i s r s'. i \<in> A \<Longrightarrow> P s \<Longrightarrow> body i s = (r, s') \<Longrightarrow> P s' \<and> R i r s'"
    and mono: "\<And>i r s j r' s'. R i r s \<Longrightarrow> P s \<Longrightarrow> j \<in> A \<Longrightarrow> body j s = (r', s') \<Longrightarrow> R i r s'"
    and run: "rolling_loop (until stop dropped pick body) cap items fl (s, b) = (out, s', b')"
    and "P s" and "set items \<union> set fl \<subseteq> A"
  shows "P s' \<and> (\<forall>(i, r) \<in> set out. r = dropped \<or> R i r s') \<and> (\<forall>i r. R i r s \<longrightarrow> R i r s')"
  using run assms(4,5)
proof (induction "length items + length fl" arbitrary: items fl s b out rule: less_induct)
  case less
  define room where "room = max (cap (s, b)) 1 - length fl"
  define launched where "launched = fl @ take room items"
  show ?case
  proof (cases "launched = []")
    case True
    then have "items = [] \<and> fl = []" unfolding launched_def room_def by (rule rolling_idle)
    with less(2,3) show ?thesis by (auto simp: rolling_done)
  next
    case False
    obtain x r fl' sb where nxt: "next_completion (until stop dropped pick body) launched (s, b) = (x, r, fl', sb)"
      by (metis prod_cases4)
    obtain s1 b1 where sb: "sb = (s1, b1)" by (cases sb)
    obtain out1 where rest: "rolling_loop (until stop dropped pick body) cap (drop room items) fl' (s1, b1) = (out1, s', b')"
      and out: "out = (x, r) # out1"
      using less(2) unfolding rolling_step [of room cap "(s, b)" fl launched, OF room_def launched_def False nxt] sb
      by (cases "rolling_loop (until stop dropped pick body) cap (drop room items) fl' (s1, b1)") auto
    have launched: "set launched \<subseteq> A" using less(4) set_take_subset [of room items] by (auto simp: launched_def)
    have x: "x \<in> set launched" and fl': "set fl' \<subseteq> set launched"
      using next_completion_mset(1) [OF nxt False] by (metis insertI1 set_mset_add_mset_insert set_mset_mset,
        metis set_mset_add_mset_insert set_mset_mset subset_insertI)
    have ran: "(r = dropped \<and> s1 = s) \<or> body x s = (r, s1)"
      using nxt unfolding sb next_completion_def until_def Let_def
      by (auto split: prod.splits if_splits)
    with step [of x s] mono x launched less(3)
    have one: "P s1 \<and> (r = dropped \<or> R x r s1) \<and> (\<forall>i r. R i r s \<longrightarrow> R i r s1)" by blast
    have "length (drop room items) + length fl' < length items + length fl"
      using next_completion_mset(2) [OF nxt False] by (auto simp: launched_def)
    moreover have "set (drop room items) \<union> set fl' \<subseteq> A"
      using fl' launched less(4) set_drop_subset [of room items] by blast
    ultimately have "P s' \<and> (\<forall>(i, r) \<in> set out1. r = dropped \<or> R i r s') \<and> (\<forall>i r. R i r s1 \<longrightarrow> R i r s')"
      using less(1) [OF _ rest] one by blast
    with one show ?thesis by (auto simp: out)
  qed
qed

lemma rolling_until_spec:
  assumes run: "rolling_until stop dropped pick body items cap s = (out, s')"
    and step: "\<And>i s r s'. i \<in> set items \<Longrightarrow> P s \<Longrightarrow> body i s = (r, s') \<Longrightarrow> P s' \<and> R i r s'"
    and mono: "\<And>i r s j r' s'. R i r s \<Longrightarrow> P s \<Longrightarrow> j \<in> set items \<Longrightarrow> body j s = (r', s') \<Longrightarrow> R i r s'"
    and "P s"
  shows "P s' \<and> (\<forall>(i, r) \<in> set out. r = dropped \<or> R i r s')"
proof -
  obtain b' where "rolling_loop (until stop dropped pick body) (cap \<circ> fst) items [] (s, False) = (out, s', b')"
    using run by (auto simp: rolling_until_def rolling_unordered_def split: prod.splits)
  from rolling_until_loop [of "set items" P body R, OF step mono this assms(4)] show ?thesis by simp
qed

interpretation until_run: completing_run "\<lambda>items. rolling_until stop dropped pick body items cap"
  for stop dropped pick body cap
  by unfold_locales (simp add: rolling_until_def case_prod_unfold rolling_mset del: mset_map)

section \<open>The coordinator's world\<close>

record staged_record =
  ur_address :: key
  ur_size :: nat
  ur_index :: nat

record upload_outcome =
  uo_addresses :: "key list"
  uo_amount :: amount_word
  uo_gas :: nat
  uo_stats :: wave_aggregate_stats
  uo_mode :: payment_mode

datatype upload_event =
    Receipt_saved amount_word nat
  | Record_stored nat nat
  | Already_present nat nat

record ('p, 't, 'm, 'j, 'w) upload_context =
  cx_state :: "('p, 't, 'm, 'j) upload_state"
  cx_records :: "staged_record list"
  cx_outcome :: upload_outcome
  cx_world :: 'w
  cx_events :: "upload_event list"

type_synonym ('p, 't, 'm, 'j, 'w, 'a) adapter_call =
  "('p, 't, 'm, 'j) upload_state \<Rightarrow> 'w \<Rightarrow> (error, 'a) result \<times> ('p, 't, 'm, 'j) upload_state \<times> 'w"

record ('c, 't, 'ap, 'm, 'p, 'j, 'w) upload_env =
  ue_api :: "('c, 't, 'ap, 'm) upload_api"
  ue_pay :: "('w, 'm) pay_env"
  ue_load :: "staged_record \<Rightarrow> ('w, error, bytes) op"
  ue_submit_payment :: "'p chunk_payment_plan list \<Rightarrow> ('p, 't, 'm, 'j, 'w, upload_payment) adapter_call"
  ue_reconcile_payment :: "'p chunk_payment_plan list \<Rightarrow> ('p, 't, 'm, 'j, 'w, upload_payment) adapter_call"
  ue_submit_merkle :: "('t, 'm) prepared_merkle_batch \<Rightarrow> ('p, 't, 'm, 'j, 'w, merkle_upload_payment) adapter_call"
  ue_reconcile_merkle :: "('t, 'm) prepared_merkle_batch \<Rightarrow> ('p, 't, 'm, 'j, 'w, merkle_upload_payment) adapter_call"
  ue_initialize :: "'j payment_attempt \<Rightarrow> 'j payment_attempt"
  ue_admit :: "'p chunk_payment_plan \<Rightarrow> ('w, error, 'p chunk_payment_plan) op"
  ue_checkpoint :: "('p, 't, 'm, 'j) upload_state \<Rightarrow> upload_payment option \<Rightarrow> ('w, error, unit) op"
  ue_quote_limit :: nat
  ue_now :: "'w \<Rightarrow> system_time"
  ue_quote_cap :: "'w \<Rightarrow> nat"
  ue_store_cap :: "'w \<Rightarrow> nat"
  ue_quote_plan :: "('w, 'p) quoting"
  ue_put_target_peers :: "key \<Rightarrow> ('w, error, 'p list) op"
  ue_chunk_put :: "bytes \<Rightarrow> bytes \<Rightarrow> 'p list \<Rightarrow> ('w, error, nat) op"
  ue_stores :: "('p paid_chunk, (error, key \<times> nat) result, 'w) completer"
  ue_tolerant_quotes :: "key \<Rightarrow> nat \<Rightarrow> ('w, error, 'p store_quote list) op"
  ue_sleep :: "nat \<Rightarrow> 'w \<Rightarrow> 'w"
  ue_pick :: "key list \<Rightarrow> 'w \<Rightarrow> nat"
  ue_key_order :: "key list \<Rightarrow> 'w \<Rightarrow> key list"

definition on_world :: "('w, error, 'a) op \<Rightarrow> (('p, 't, 'm, 'j, 'w) upload_context, error, 'a) op" where
  "on_world f cx = (case f (cx_world cx) of (r, w) \<Rightarrow> (r, cx\<lparr>cx_world := w\<rparr>))"

definition on_adapter ::
  "('p, 't, 'm, 'j, 'w, 'a) adapter_call \<Rightarrow> (('p, 't, 'm, 'j, 'w) upload_context, error, 'a) op" where
  "on_adapter f cx =
     (case f (cx_state cx) (cx_world cx) of (r, st, w) \<Rightarrow> (r, cx\<lparr>cx_state := st, cx_world := w\<rparr>))"

definition on_state ::
  "(('p, 't, 'm, 'j) upload_state \<Rightarrow> (error, 'a) result \<times> ('p, 't, 'm, 'j) upload_state) \<Rightarrow>
     (('p, 't, 'm, 'j, 'w) upload_context, error, 'a) op" where
  "on_state f cx = (case f (cx_state cx) of (r, st) \<Rightarrow> (r, cx\<lparr>cx_state := st\<rparr>))"

definition notify :: "upload_event \<Rightarrow> (('p, 't, 'm, 'j, 'w) upload_context, error, unit) op" where
  "notify e cx = (Inr (), cx\<lparr>cx_events := cx_events cx @ [e]\<rparr>)"

definition checkpoint ::
  "('c, 't, 'ap, 'm, 'p, 'j, 'w) upload_env \<Rightarrow> upload_payment option \<Rightarrow>
     (('p, 't, 'm, 'j, 'w) upload_context, error, unit) op" where
  "checkpoint env payment cx =
     on_world (ue_checkpoint env (cx_state cx) payment)
       (cx\<lparr>cx_events := cx_events cx @ (case payment of None \<Rightarrow> [] | Some p \<Rightarrow> [Receipt_saved (up_amount p) (up_gas p)])\<rparr>)"

definition now :: "('c, 't, 'ap, 'm, 'p, 'j, 'w) upload_env \<Rightarrow> ('p, 't, 'm, 'j, 'w) upload_context \<Rightarrow> system_time" where
  "now env cx = ue_now env (cx_world cx)"

section \<open>Errors of an upload\<close>

definition record_verify :: "proof_api \<Rightarrow> key \<Rightarrow> bytes \<Rightarrow> (error, unit) result" where
  "record_verify api address content =
     (if compute_address api content \<noteq> address then Inl InvalidData else Inr ())"

definition partial_upload :: "staged_record list \<Rightarrow> upload_outcome \<Rightarrow> error option \<Rightarrow> error" where
  "partial_upload records out cause =
     (let failed = filter (\<lambda>a. a \<notin> set (uo_addresses out)) (map ur_address records)
      in PartialUpload (uo_addresses out) (length (uo_addresses out)) failed (length failed) (length records)
           (uo_amount out, uo_gas out) cause)"

fun is_partial :: "error \<Rightarrow> bool" where
  "is_partial (PartialUpload _ _ _ _ _ _ _) = True"
| "is_partial _ = False"

definition after_spend :: "error \<Rightarrow> staged_record list \<Rightarrow> upload_outcome \<Rightarrow> error" where
  "after_spend e records out =
     (if (uo_amount out = 0 \<and> uo_gas out = 0 \<and> uo_addresses out = []) \<or> is_partial e then e
      else partial_upload records out (Some e))"

fun payment_and_storage ::
  "(error, unit) result \<Rightarrow> (error, unit) result \<Rightarrow> staged_record list \<Rightarrow> upload_outcome \<Rightarrow> (error, unit) result" where
  "payment_and_storage (Inl payment_error) (Inl storage_error) records out =
     Inl (case storage_error of
            PartialUpload stored stored_count failed failed_count n spend _ \<Rightarrow>
              PartialUpload stored stored_count failed failed_count n spend (Some payment_error)
          | _ \<Rightarrow> partial_upload records out (Some payment_error))"
| "payment_and_storage (Inl e) (Inr _) records out = Inl e"
| "payment_and_storage (Inr _) (Inl e) records out = Inl e"
| "payment_and_storage (Inr _) (Inr _) records out = Inr ()"

definition merge_stats :: "wave_aggregate_stats \<Rightarrow> wave_aggregate_stats \<Rightarrow> wave_aggregate_stats" where
  "merge_stats a b =
     a\<lparr>ws_attempts := sat_add (ws_attempts a) (ws_attempts b),
       ws_durations := ws_durations a @ ws_durations b,
       ws_histogram := map2 sat_add (ws_histogram a) (ws_histogram b)\<rparr>"

fun plans_total :: "amount_word \<Rightarrow> 'p chunk_payment_plan list \<Rightarrow> (error, amount_word) result" where
  "plans_total acc [] = Inr acc"
| "plans_total acc (plan # plans) =
     (if unat acc + unat (total_amount (cp_payment plan)) < 2 ^ 256
      then plans_total (acc + total_amount (cp_payment plan)) plans else Inl Payment)"

definition validate_payment_total :: "'p chunk_payment_plan list \<Rightarrow> upload_payment \<Rightarrow> (error, unit) result" where
  "validate_payment_total plans payment =
     bind_result (plans_total 0 plans) (\<lambda>expected. if expected \<noteq> up_amount payment then Inl Payment else Inr ())"

section \<open>Payments\<close>

definition ensure_upload_payment_allowed ::
  "('c, 't, 'ap, 'm, 'p, 'j, 'w) upload_env \<Rightarrow> (('p, 't, 'm, 'j, 'w) upload_context, error, unit) op" where
  "ensure_upload_payment_allowed env cx =
     (if corroborated_settlement_refusal (ue_pay env) (cx_world cx) then (Inl ClientUpdateRequired, cx) else (Inr (), cx))"

fun preflight ::
  "('c, 't, 'ap, 'm, 'p, 'j, 'w) upload_env \<Rightarrow> staged_record list \<Rightarrow>
     (('p, 't, 'm, 'j, 'w) upload_context, error, unit) op" where
  "preflight env [] = ok_op ()"
| "preflight env (r # rs) =
     bind_op (on_world (ue_load env r)) (\<lambda>content.
       if length content \<noteq> ur_size r then err_op InvalidData
       else bind_op (lift_result (record_verify (ua_proofs (ue_api env)) (ur_address r) content))
              (\<lambda>_. preflight env rs))"

text \<open>
  The steps before every submission: the refusal check, the attempt with its initial evidence, a
  checkpoint, and the refusal check again, which withdraws the attempt.
\<close>

definition begin_payment ::
  "('c, 't, 'ap, 'm, 'p, 'j, 'w) upload_env \<Rightarrow> bool \<Rightarrow> key list \<Rightarrow>
     (('p, 't, 'm, 'j, 'w) upload_context, error, unit) op" where
  "begin_payment env merkle addresses =
     bind_op (ensure_upload_payment_allowed env)
       (\<lambda>_. bind_op (on_state (start_payment merkle addresses))
       (\<lambda>_. bind_op (on_state (\<lambda>st. (Inr (), with_attempt (ue_initialize env) st)))
       (\<lambda>_. bind_op (checkpoint env None)
       (\<lambda>_ cx. case ensure_upload_payment_allowed env cx of
                  (Inr _, cx) \<Rightarrow> (Inr (), cx)
                | (Inl e, cx) \<Rightarrow>
                    bind_op (checkpoint env None) (\<lambda>_. err_op e) (cx\<lparr>cx_state := drop_attempt (cx_state cx)\<rparr>)))))"

definition reconcile_upload_payment ::
  "('c, 't, 'ap, 'm, 'p, 'j, 'w) upload_env \<Rightarrow> (('p, 't, 'm, 'j, 'w) upload_context, error, unit) op" where
  "reconcile_upload_payment env cx =
     (case us_pending_payment (cx_state cx) of
        None \<Rightarrow> (Inr (), cx)
      | Some attempt \<Rightarrow>
          bind_op
            (if at_merkle attempt then
               bind_op (lift_result (ok_or (us_pending_merkle (cx_state cx)) Payment))
                 (\<lambda>batch. bind_op (on_adapter (ue_reconcile_merkle env batch))
                 (\<lambda>payment. bind_op (lift_result (finalize_merkle_batch (ua_merkle (ue_api env)) batch (mu_winner_pool payment)))
                 (\<lambda>paid. on_state (\<lambda>st. (Inr (), insert_merkle paid st)))))
             else
               bind_op (lift_result (pending_plans (cx_state cx)))
                 (\<lambda>plans. bind_op (on_adapter (ue_reconcile_payment env plans))
                 (\<lambda>payment. bind_op (lift_result (validate_payment_total plans payment))
                 (\<lambda>_ cx. on_state (confirm (ue_api env) (at_addresses attempt) (up_transactions payment) (now env cx)) cx))))
            (\<lambda>_. checkpoint env None) cx)"

text \<open>
  The outcome's spend, then the receipt. The sum is checked except for the batch a checkpoint
  restored, which is the first payment of the upload.
\<close>

definition save_receipt ::
  "('c, 't, 'ap, 'm, 'p, 'j, 'w) upload_env \<Rightarrow> bool \<Rightarrow> payment_mode option \<Rightarrow> upload_payment \<Rightarrow>
     (('p, 't, 'm, 'j, 'w) upload_context, error, unit) op" where
  "save_receipt env checked mode payment cx =
     (let out = cx_outcome cx
      in if checked \<and> 2 ^ 256 \<le> unat (uo_amount out) + unat (up_amount payment) then (Inl Payment, cx)
         else checkpoint env (Some payment)
           (cx\<lparr>cx_outcome := out\<lparr>uo_amount := uo_amount out + up_amount payment,
                                 uo_gas := sat_add_u128 (uo_gas out) (up_gas payment),
                                 uo_mode := (case mode of None \<Rightarrow> uo_mode out | Some m \<Rightarrow> m)\<rparr>\<rparr>))"

definition settle_merkle ::
  "('c, 't, 'ap, 'm, 'p, 'j, 'w) upload_env \<Rightarrow> bool \<Rightarrow> (('p, 't, 'm, 'j, 'w) upload_context, error, unit) op" where
  "settle_merkle env checked cx =
     bind_op (lift_result (ok_or (us_pending_merkle (cx_state cx)) Payment))
       (\<lambda>batch. bind_op (on_adapter (ue_submit_merkle env batch))
       (\<lambda>payment. bind_op (lift_result (finalize_merkle_batch (ua_merkle (ue_api env)) batch (mu_winner_pool payment)))
       (\<lambda>paid. bind_op (on_state (\<lambda>st. (Inr (), insert_merkle paid st)))
       (\<lambda>_. save_receipt env checked (Some Merkle)
              \<lparr>up_transactions = Map.empty, up_amount = mu_amount payment, up_gas = mu_gas payment\<rparr>)))) cx"

fun merkle_batches ::
  "('c, 't, 'ap, 'm, 'p, 'j, 'w) upload_env \<Rightarrow> payment_mode \<Rightarrow> key list list \<Rightarrow>
     (('p, 't, 'm, 'j, 'w) upload_context, error, unit) op" where
  "merkle_batches env mode [] cx = (Inr (), cx)"
| "merkle_batches env mode (addresses # rest) cx =
     (case on_world (prepare_merkle_batch_external_observed (ua_merkle (ue_api env)) (ue_pay env) addresses) cx of
        (Inl e, cx) \<Rightarrow> if e = InsufficientPeers \<and> mode = Auto then (Inr (), cx) else (Inl e, cx)
      | (Inr batch, cx) \<Rightarrow>
          bind_op (on_state (\<lambda>st. (Inr (), st\<lparr>us_pending_merkle := Some batch\<rparr>)))
            (\<lambda>_. bind_op (checkpoint env None)
            (\<lambda>_. bind_op (begin_payment env True [])
            (\<lambda>_. bind_op (settle_merkle env True)
            (\<lambda>_. merkle_batches env mode rest)))) cx)"

definition chunk_already_stored_for_merkle ::
  "('c, 't, 'ap, 'm, 'p, 'j, 'w) upload_env \<Rightarrow> key \<Rightarrow> nat \<Rightarrow> ('w, error, bool) op" where
  "chunk_already_stored_for_merkle env address data_size w =
     (case ue_tolerant_quotes env address data_size w of (r, w) \<Rightarrow> (preflight_stored_status r, w))"

text \<open>The probes of the unpaid records; a present record is reported to the adapter when it is found so.\<close>

definition probe_record ::
  "('c, 't, 'ap, 'm, 'p, 'j, 'w) upload_env \<Rightarrow> nat \<times> key \<times> nat \<Rightarrow>
     (('p, 't, 'm, 'j, 'w) upload_context, error, bool) op" where
  "probe_record env entry cx =
     (case entry of (_, address, sz) \<Rightarrow>
        bind_op (on_world (chunk_already_stored_for_merkle env address sz))
          (\<lambda>present cx. case find (\<lambda>r. ur_address r = address) (cx_records cx) of
                          Some r \<Rightarrow>
                            if present then bind_op (notify (Already_present (ur_index r + 1) (length (cx_records cx))))
                                              (\<lambda>_. ok_op present) cx
                            else (Inr present, cx)
                        | None \<Rightarrow> (Inr present, cx)) cx)"

definition plan_merkle_upload ::
  "('c, 't, 'ap, 'm, 'p, 'j, 'w) upload_env \<Rightarrow> staged_record list \<Rightarrow>
     (('p, 't, 'm, 'j, 'w) upload_context, error, merkle_upload_plan) op" where
  "plan_merkle_upload env unpaid cx =
     (let entries = enumerate 0 (map (\<lambda>r. (ur_address r, ur_size r)) unpaid);
          concurrency = min (ue_quote_cap env (cx_world cx)) (max (length entries) 1)
      in (case rolling_until isl (Inl Cancelled) (\<lambda>fl cx. ue_pick env (map (fst \<circ> snd) fl) (cx_world cx))
                 (probe_record env) entries (\<lambda>_. concurrency) cx of
            (completed, cx) \<Rightarrow>
              (plan_merkle_upload_observed (map (\<lambda>((i, a, n), r). (i, a, n, r)) completed), cx)))"

text \<open>A batch a checkpoint restored is paid first; then the unpaid records are probed and paid in batches.\<close>

definition drop_stale_batch ::
  "('c, 't, 'ap, 'm, 'p, 'j, 'w) upload_env \<Rightarrow> ('p, 't, 'm, 'j, 'w) upload_context \<Rightarrow> ('p, 't, 'm, 'j, 'w) upload_context" where
  "drop_stale_batch env cx =
     (case us_pending_merkle (cx_state cx) of
        None \<Rightarrow> cx
      | Some batch \<Rightarrow>
          if merkle_fresh (ue_api env) (pb_timestamp batch) (now env cx) then cx
          else cx\<lparr>cx_state := (cx_state cx)\<lparr>us_pending_merkle := None\<rparr>\<rparr>)"

definition pay_restored_batch ::
  "('c, 't, 'ap, 'm, 'p, 'j, 'w) upload_env \<Rightarrow> (('p, 't, 'm, 'j, 'w) upload_context, error, unit) op" where
  "pay_restored_batch env cx =
     (case us_pending_merkle (cx_state cx) of
        None \<Rightarrow> (Inr (), cx)
      | Some batch \<Rightarrow>
          if list_ex (\<lambda>a. a \<notin> ur_address ` set (cx_records cx)) (pb_addresses batch) then (Inl InvalidData, cx)
          else bind_op (begin_payment env True []) (\<lambda>_. settle_merkle env False) cx)"

definition book_present ::
  "merkle_upload_plan \<Rightarrow> ('p, 't, 'm, 'j, 'w) upload_context \<Rightarrow> ('p, 't, 'm, 'j, 'w) upload_context" where
  "book_present plan cx =
     cx\<lparr>cx_records := filter (\<lambda>r. ur_address r \<notin> set (mp_already_stored plan)) (cx_records cx),
        cx_outcome := (cx_outcome cx)\<lparr>uo_addresses := uo_addresses (cx_outcome cx) @ mp_already_stored plan\<rparr>\<rparr>"

definition pay_unpaid_merkle ::
  "('c, 't, 'ap, 'm, 'p, 'j, 'w) upload_env \<Rightarrow> payment_mode \<Rightarrow>
     (('p, 't, 'm, 'j, 'w) upload_context, error, unit) op" where
  "pay_unpaid_merkle env mode cx =
     (let unpaid = filter (\<lambda>r. \<not> is_paid (ue_api env) (cx_state cx) (ur_address r) (now env cx)) (cx_records cx)
      in if \<not> should_use_merkle (length unpaid) mode then (Inr (), cx)
         else (case plan_merkle_upload env unpaid cx of
                 (Inl e, cx) \<Rightarrow> if e = InsufficientPeers \<and> mode = Auto then (Inr (), cx) else (Inl e, cx)
               | (Inr plan, cx) \<Rightarrow>
                   let cx = book_present plan cx
                   in if mp_to_upload plan = [] then
                        (Inr (), cx\<lparr>cx_outcome := (cx_outcome cx)\<lparr>uo_mode := Merkle\<rparr>\<rparr>)
                      else if \<not> should_use_merkle (length (mp_to_upload plan)) mode then (Inr (), cx)
                      else merkle_batches env mode
                             (merkle_batch_partitions (MAX_LEAVES (ua_merkle (ue_api env))) (mp_to_upload plan)) cx))"

definition prepare_upload_merkle ::
  "('c, 't, 'ap, 'm, 'p, 'j, 'w) upload_env \<Rightarrow> payment_mode \<Rightarrow>
     (('p, 't, 'm, 'j, 'w) upload_context, error, unit) op" where
  "prepare_upload_merkle env mode cx =
     bind_op (pay_restored_batch env) (\<lambda>_. pay_unpaid_merkle env mode) (drop_stale_batch env cx)"

section \<open>Storing the paid merkle batches\<close>

definition merkle_proved :: "('c, 't, 'ap, 'm) upload_api \<Rightarrow> ('p, 't, 'm, 'j) upload_state \<Rightarrow> key \<Rightarrow> bool" where
  "merkle_proved api st address \<longleftrightarrow>
     (case map_of (us_proofs st) address of None \<Rightarrow> False | Some p \<Rightarrow> deserialize_merkle_proof api p \<noteq> None)"

definition store_one ::
  "('c, 't, 'ap, 'm, 'p, 'j, 'w) upload_env \<Rightarrow> staged_record list \<Rightarrow> nat \<Rightarrow> key \<Rightarrow>
     (('p, 't, 'm, 'j, 'w) upload_context, error, nat) op" where
  "store_one env merkle n address cx =
     bind_op (lift_result (ok_or (find (\<lambda>r. ur_address r = address) merkle) InvalidData))
       (\<lambda>r. bind_op (on_world (ue_load env r))
       (\<lambda>content.
          if length content \<noteq> ur_size r then err_op InvalidData
          else bind_op (lift_result (record_verify (ua_proofs (ue_api env)) address content))
            (\<lambda>_. bind_op (lift_result (ok_or (map_of (us_proofs (cx_state cx)) address) Payment))
            (\<lambda>proof. bind_op (on_world (ue_put_target_peers env address))
            (\<lambda>peers. bind_op (on_world (ue_chunk_put env content proof peers))
            (\<lambda>elapsed. bind_op (notify (Record_stored (ur_index r + 1) n))
            (\<lambda>_. ok_op elapsed))))))) cx"

definition store_runner ::
  "('c, 't, 'ap, 'm, 'p, 'j, 'w) upload_env \<Rightarrow> staged_record list \<Rightarrow> nat \<Rightarrow>
     ('p, 't, 'm, 'j, 'w) upload_context runner" where
  "store_runner env merkle n delay pending cx =
     (let max_size = fold max (map ur_size merkle) 0
      in rolling_until (\<lambda>r. case r of Inl e \<Rightarrow> \<not> recoverable_put e | Inr _ \<Rightarrow> False) (Inl Cancelled)
           (\<lambda>fl cx. ue_pick env fl (cx_world cx)) (store_one env merkle n) pending
           (\<lambda>cx. min (ue_store_cap env (cx_world cx)) (store_byte_bound max_size))
           (cx\<lparr>cx_world := ue_sleep env delay (cx_world cx)\<rparr>))"

definition note_merkle_store :: "merkle_store_outcome \<Rightarrow> ('p, 't, 'm, 'j, 'w) upload_context \<Rightarrow> ('p, 't, 'm, 'j, 'w) upload_context" where
  "note_merkle_store r cx =
     cx\<lparr>cx_outcome := (cx_outcome cx)\<lparr>uo_addresses := uo_addresses (cx_outcome cx) @ mo_stored_addresses r,
                                       uo_stats := merge_stats (uo_stats (cx_outcome cx)) (mo_stats r)\<rparr>\<rparr>"

text \<open>The first pass and the deferred rounds together.\<close>

definition store_passes ::
  "('c, 't, 'ap, 'm, 'p, 'j, 'w) upload_env \<Rightarrow> staged_record list \<Rightarrow> nat \<Rightarrow>
     ('p, 't, 'm, 'j, 'w) upload_context \<Rightarrow> merkle_store_outcome \<times> ('p, 't, 'm, 'j, 'w) upload_context" where
  "store_passes env merkle n cx =
     (case merkle_store_with_retry (\<lambda>_. store_runner env merkle n 0)
             (ue_key_order env (map ur_address merkle) (cx_world cx)) 1 (length (uo_addresses (cx_outcome cx))) cx of
        (first, cx) \<Rightarrow>
          let cx = note_merkle_store first cx
          in if mo_fatal first = None \<and> mo_failed_addresses first \<noteq> [] then
               (case merkle_deferred_retry (store_runner env merkle n) (mo_failed_addresses first)
                       DEFERRED_ROUND_DELAYS_SECS (length (uo_addresses (cx_outcome cx))) cx of
                  (later, cx) \<Rightarrow> (later, note_merkle_store later cx))
             else (first, cx))"

definition store_upload_merkle ::
  "('c, 't, 'ap, 'm, 'p, 'j, 'w) upload_env \<Rightarrow> nat \<Rightarrow> (('p, 't, 'm, 'j, 'w) upload_context, error, unit) op" where
  "store_upload_merkle env n cx =
     (let merkle = filter (\<lambda>r. is_paid (ue_api env) (cx_state cx) (ur_address r) (now env cx) \<and>
                                merkle_proved (ue_api env) (cx_state cx) (ur_address r)) (cx_records cx)
      in if merkle = [] then (Inr (), cx)
         else (case store_passes env merkle n (cx\<lparr>cx_outcome := (cx_outcome cx)\<lparr>uo_mode := Merkle\<rparr>\<rparr>) of
                 (final, cx) \<Rightarrow>
                   if mo_fatal final \<noteq> None \<or> mo_failed_addresses final \<noteq> [] then
                     let out = cx_outcome cx;
                         failed = filter (\<lambda>a. a \<notin> set (uo_addresses out)) (map ur_address (cx_records cx))
                     in (Inl (PartialUpload (uo_addresses out) (length (uo_addresses out)) failed (length failed) n
                                (uo_amount out, uo_gas out) None), cx)
                   else (Inr (), cx\<lparr>cx_records := filter (\<lambda>r. ur_address r \<notin> ur_address ` set merkle) (cx_records cx)\<rparr>)))"

section \<open>Waves of single-node payments\<close>

definition plan_record ::
  "('c, 't, 'ap, 'm, 'p, 'j, 'w) upload_env \<Rightarrow> staged_record \<Rightarrow>
     (('p, 't, 'm, 'j, 'w) upload_context, error, 'p chunk_payment_plan option) op" where
  "plan_record env r cx =
     (let api = ue_api env; st = cx_state cx
      in if merkle_proved api st (ur_address r) \<and> is_paid api st (ur_address r) (now env cx) then
           bind_op (on_world (ue_put_target_peers env (ur_address r)))
             (\<lambda>peers. ok_op (Some \<lparr>cp_address = ur_address r, cp_data_size = ur_size r, cp_quoted_peers = peers,
                                   cp_payment = \<lparr>snp_quotes = []\<rparr>, cp_peer_quotes = [],
                                   cp_commitment_sidecars = []\<rparr>)) cx
         else (case retained_plan api st (ur_address r) (ur_size r) (now env cx) of
                 Some plan \<Rightarrow> (Inr (Some plan), cx)
               | None \<Rightarrow>
                   on_world (prepare_chunk_payment_plan (ua_proofs api) (ue_quote_plan env) (ur_address r) (ur_size r)) cx))"

definition prepare_record ::
  "('c, 't, 'ap, 'm, 'p, 'j, 'w) upload_env \<Rightarrow> nat \<Rightarrow> staged_record \<Rightarrow>
     (('p, 't, 'm, 'j, 'w) upload_context, error, staged_record \<times> 'p chunk_payment_plan option) op" where
  "prepare_record env n r =
     bind_op (plan_record env r)
       (\<lambda>plan. case plan of
                  Some plan \<Rightarrow> bind_op (on_world (ue_admit env plan)) (\<lambda>plan. ok_op (r, Some plan))
                | None \<Rightarrow> bind_op (notify (Already_present (ur_index r + 1) n)) (\<lambda>_. ok_op (r, None)))"

definition prepare_upload_wave ::
  "('c, 't, 'ap, 'm, 'p, 'j, 'w) upload_env \<Rightarrow> nat \<Rightarrow> staged_record list \<Rightarrow>
     (('p, 't, 'm, 'j, 'w) upload_context, error, (staged_record \<times> 'p chunk_payment_plan option) list) op" where
  "prepare_upload_wave env n wave cx =
     (case rolling_until (\<lambda>_. False) (Inl Cancelled) (\<lambda>fl cx. ue_pick env (map ur_address fl) (cx_world cx))
             (prepare_record env n) wave (\<lambda>cx. min (ue_quote_cap env (cx_world cx)) (ue_quote_limit env)) cx of
        (completed, cx) \<Rightarrow>
          (bind_result (collect_result snd completed) (\<lambda>plans. Inr (sort_key (ur_index \<circ> fst) plans)), cx))"

fun take_plans ::
  "('c, 't, 'ap, 'm, 'p, 'j, 'w) upload_env \<Rightarrow> 'p chunk_payment_plan list \<Rightarrow>
     (staged_record \<times> 'p chunk_payment_plan option) list \<Rightarrow> ('p, 't, 'm, 'j, 'w) upload_context \<Rightarrow>
     'p chunk_payment_plan list \<times> ('p, 't, 'm, 'j, 'w) upload_context" where
  "take_plans env payable [] cx = (payable, cx)"
| "take_plans env payable ((r, Some plan) # plans) cx =
     (if is_paid (ue_api env) (cx_state cx) (cp_address plan) (now env cx) then take_plans env payable plans cx
      else take_plans env (payable @ [plan]) plans (cx\<lparr>cx_state := prepare plan (cx_state cx)\<rparr>))"
| "take_plans env payable ((r, None) # plans) cx =
     take_plans env payable plans
       (cx\<lparr>cx_outcome := (cx_outcome cx)\<lparr>uo_addresses := uo_addresses (cx_outcome cx) @ [ur_address r]\<rparr>\<rparr>)"

definition pay_wave ::
  "('c, 't, 'ap, 'm, 'p, 'j, 'w) upload_env \<Rightarrow> (staged_record \<times> 'p chunk_payment_plan option) list \<Rightarrow>
     (('p, 't, 'm, 'j, 'w) upload_context, error, unit) op" where
  "pay_wave env plans cx =
     (case take_plans env [] plans cx of
        (payable, cx) \<Rightarrow>
          bind_op (checkpoint env None)
            (\<lambda>_. bind_op
               (if payable = [] then ok_op \<lparr>up_transactions = Map.empty, up_amount = 0, up_gas = 0\<rparr>
                else bind_op (begin_payment env False (map cp_address payable))
                       (\<lambda>_. on_adapter (ue_submit_payment env payable)))
            (\<lambda>payment. bind_op (lift_result (validate_payment_total payable payment))
            (\<lambda>_. bind_op (\<lambda>cx. on_state (confirm (ue_api env) (List.map_filter (map_option cp_address \<circ> snd) plans)
                                           (up_transactions payment) (now env cx)) cx)
            (\<lambda>_. save_receipt env True None payment)))) cx)"

text \<open>The body of one store: \<open>Inl\<close> is a local failure of the bytes or the proof, \<open>Inr\<close> the result of the wave of one.\<close>

definition store_record ::
  "('c, 't, 'ap, 'm, 'p, 'j, 'w) upload_env \<Rightarrow> nat \<Rightarrow> staged_record \<times> 'p chunk_payment_plan \<Rightarrow>
     (('p, 't, 'm, 'j, 'w) upload_context, error, wave_result) op" where
  "store_record env n item cx =
     (case item of (r, plan) \<Rightarrow>
        bind_op (on_world (ue_load env r))
          (\<lambda>content. bind_op (lift_result (with_content (ua_proofs (ue_api env)) plan content))
          (\<lambda>prepared cx. bind_op (lift_result (ok_or (reuse_prepared (ue_api env) (cx_state cx) prepared (now env cx)) Payment))
          (\<lambda>paid cx.
             (case store_paid_chunks_with_events (ue_stores env) (ue_store_cap env) [paid] (cx_world cx) of
                (out, w) \<Rightarrow>
                  if ur_address r \<in> set (wv_stored out)
                  then bind_op (notify (Record_stored (ur_index r + 1) n)) (\<lambda>_. ok_op out) (cx\<lparr>cx_world := w\<rparr>)
                  else (Inr out, cx\<lparr>cx_world := w\<rparr>))) cx)) cx)"

definition store_wave ::
  "('c, 't, 'ap, 'm, 'p, 'j, 'w) upload_env \<Rightarrow> nat \<Rightarrow> staged_record list \<Rightarrow>
     (staged_record \<times> 'p chunk_payment_plan option) list \<Rightarrow> ('p, 't, 'm, 'j, 'w) upload_context \<Rightarrow>
     (key \<times> (error, wave_result) result) list \<times> ('p, 't, 'm, 'j, 'w) upload_context" where
  "store_wave env n wave plans cx =
     (let max_size = (if wave = [] then 1 else fold max (map ur_size wave) 0)
      in (case rolling_until (\<lambda>_. False) (Inl Cancelled) (\<lambda>fl cx. ue_pick env (map (ur_address \<circ> fst) fl) (cx_world cx))
                 (store_record env n) (List.map_filter (\<lambda>(r, plan). map_option (Pair r) plan) plans)
                 (\<lambda>cx. min (ue_store_cap env (cx_world cx)) (store_byte_bound max_size)) cx of
            (results, cx) \<Rightarrow> (map (\<lambda>((r, _), result). (ur_address r, result)) results, cx)))"

fun absorb_results ::
  "key list \<Rightarrow> bool \<Rightarrow> (key \<times> (error, wave_result) result) list \<Rightarrow> upload_outcome \<Rightarrow>
     key list \<times> bool \<times> upload_outcome" where
  "absorb_results failed fatal [] out = (failed, fatal, out)"
| "absorb_results failed fatal ((address, Inl e) # rest) out = absorb_results (failed @ [address]) True rest out"
| "absorb_results failed fatal ((address, Inr w) # rest) out =
     absorb_results (failed @ wv_failed w) fatal rest
       (out\<lparr>uo_stats := absorb (uo_stats out) w, uo_addresses := uo_addresses out @ wv_stored w\<rparr>)"

fun upload_waves ::
  "('c, 't, 'ap, 'm, 'p, 'j, 'w) upload_env \<Rightarrow> nat \<Rightarrow>
     (error, (staged_record \<times> 'p chunk_payment_plan option) list) result option \<Rightarrow> key list \<Rightarrow> staged_record list list \<Rightarrow>
     (('p, 't, 'm, 'j, 'w) upload_context, error, key list) op" where
  "upload_waves env n prefetched failed [] cx = (Inr failed, cx)"
| "upload_waves env n prefetched failed (wave # rest) cx =
     bind_op (case prefetched of Some plans \<Rightarrow> lift_result plans | None \<Rightarrow> prepare_upload_wave env n wave)
       (\<lambda>plans. bind_op (pay_wave env plans)
       (\<lambda>_ cx.
          (case store_wave env n wave plans cx of
             (results, cx) \<Rightarrow>
               (case (case rest of
                        [] \<Rightarrow> (None, cx)
                      | next # _ \<Rightarrow> (case prepare_upload_wave env n next cx of (r, cx) \<Rightarrow> (Some r, cx))) of
                  (prefetched, cx) \<Rightarrow>
                    (case absorb_results failed False results (cx_outcome cx) of
                       (failed, fatal, out) \<Rightarrow>
                         let cx = cx\<lparr>cx_outcome := out\<rparr>
                         in if fatal then (Inr failed, cx) else upload_waves env n prefetched failed rest cx))))) cx"

section \<open>Uploads\<close>

definition PAYMENT_WAVE_SIZE :: nat where "PAYMENT_WAVE_SIZE = 64"

function chunks_of :: "nat \<Rightarrow> 'a list \<Rightarrow> 'a list list" where
  "chunks_of n xs = (if xs = [] \<or> n = 0 then [] else take n xs # chunks_of n (drop n xs))"
  by pat_completeness auto
termination by (relation "measure (length \<circ> snd)") auto

declare chunks_of.simps [simp del]

definition upload_unique_records_inner ::
  "('c, 't, 'ap, 'm, 'p, 'j, 'w) upload_env \<Rightarrow> payment_mode \<Rightarrow> staged_record list \<Rightarrow>
     (('p, 't, 'm, 'j, 'w) upload_context, error, upload_outcome) op" where
  "upload_unique_records_inner env mode records cx =
     bind_op (preflight env records)
       (\<lambda>_ cx.
          (case bind_op (reconcile_upload_payment env) (\<lambda>_. prepare_upload_merkle env mode) cx of
             (preparation, cx) \<Rightarrow>
               if preparation = Inl InvalidData then (Inl InvalidData, cx)
               else (case store_upload_merkle env (length records) cx of
                       (storage, cx) \<Rightarrow>
                         bind_op (lift_result (payment_and_storage preparation storage records (cx_outcome cx)))
                           (\<lambda>_. bind_op (\<lambda>cx. upload_waves env (length records) None [] (chunks_of PAYMENT_WAVE_SIZE (cx_records cx)) cx)
                           (\<lambda>failed cx.
                              let out = cx_outcome cx
                              in if failed \<noteq> [] then
                                   (Inl (PartialUpload (uo_addresses out) (length (uo_addresses out)) failed (length failed)
                                           (length records) (uo_amount out, uo_gas out) None), cx)
                                 else (Inr out, cx))) cx))) cx"

definition upload_unique_records ::
  "('c, 't, 'ap, 'm, 'p, 'j, 'w) upload_env \<Rightarrow> payment_mode \<Rightarrow> staged_record list \<Rightarrow>
     (('p, 't, 'm, 'j, 'w) upload_context, error, upload_outcome) op" where
  "upload_unique_records env mode records cx =
     (case upload_unique_records_inner env mode records
             (cx\<lparr>cx_records := records,
                cx_outcome := \<lparr>uo_addresses = [], uo_amount = 0, uo_gas = 0, uo_stats = no_stats, uo_mode = Single\<rparr>\<rparr>) of
        (Inr out, cx) \<Rightarrow> (Inr out, cx)
      | (Inl e, cx) \<Rightarrow> (Inl (after_spend e records (cx_outcome cx)), cx))"

fun unique_records :: "(key \<times> nat) list \<Rightarrow> staged_record list \<Rightarrow> staged_record list \<Rightarrow> (error, staged_record list) result" where
  "unique_records sizes acc [] = Inr acc"
| "unique_records sizes acc (r # rs) =
     (case map_of sizes (ur_address r) of
        Some sz \<Rightarrow> if sz \<noteq> ur_size r then Inl InvalidData else unique_records sizes acc rs
      | None \<Rightarrow> unique_records ((ur_address r, ur_size r) # sizes) (acc @ [r]) rs)"

definition upload_records ::
  "('c, 't, 'ap, 'm, 'p, 'j, 'w) upload_env \<Rightarrow> payment_mode \<Rightarrow> staged_record list \<Rightarrow>
     (('p, 't, 'm, 'j, 'w) upload_context, error, upload_outcome) op" where
  "upload_records env mode records cx =
     (let original = map ur_address records
      in bind_op (lift_result (unique_records [] [] records))
           (\<lambda>unique cx.
              (case upload_unique_records env mode unique cx of
                 (Inr out, cx) \<Rightarrow> (Inr (out\<lparr>uo_addresses := filter (\<lambda>a. a \<in> set (uo_addresses out)) original\<rparr>), cx)
               | (Inl e, cx) \<Rightarrow>
                   (Inl (case e of
                           PartialUpload stored _ _ _ _ spend cause \<Rightarrow>
                             let kept = filter (\<lambda>a. a \<in> set stored) original; failed = filter (\<lambda>a. a \<notin> set stored) original
                             in PartialUpload kept (length kept) failed (length failed) (length original) spend cause
                         | _ \<Rightarrow> e), cx))) cx)"

end
