(* ===== verification/Upload_Accounts.thy ===== *)
theory Upload_Accounts
  imports Upload
begin

text \<open>
  The accounts of an upload: what the coordinator of \<^verbatim>\<open>upload.rs\<close> reports as spent and stored
  against what it told its adapter. \<open>silent\<close> relates the contexts around a step that neither pays
  nor books anything, \<open>keeps\<close> an invariant around any step, and \<open>accounts\<close> is the invariant of the
  whole upload, errors included.
\<close>

lemma bind_op_assoc: "bind_op (bind_op m f) g = bind_op m (\<lambda>x. bind_op (f x) g)"
  by (auto simp: bind_op_def fun_eq_iff split: prod.split sum.split)

lemma bind_ok: "bind_op (ok_op x) f = f x"
  by (simp add: bind_op_def fun_eq_iff)

section \<open>Books and events\<close>

definition receipts :: "upload_event list \<Rightarrow> (amount_word \<times> nat) list" where
  "receipts evs = List.map_filter (\<lambda>e. case e of Receipt_saved a g \<Rightarrow> Some (a, g) | _ \<Rightarrow> None) evs"

lemma receipts_append [simp]: "receipts (xs @ ys) = receipts xs @ receipts ys"
  by (simp add: receipts_def List.map_filter_def)

lemma receipts_simps [simp]:
  "receipts [] = []" "receipts [Receipt_saved a g] = [(a, g)]"
  "receipts [Record_stored i n] = []" "receipts [Already_present i n] = []"
  by (simp_all add: receipts_def List.map_filter_def)

text \<open>A record is confirmed when the adapter was told that it is stored or was already present.\<close>

definition confirmed :: "staged_record list \<Rightarrow> upload_event list \<Rightarrow> key \<Rightarrow> bool" where
  "confirmed records evs a \<longleftrightarrow>
     (\<exists>r \<in> set records. ur_address r = a \<and>
        (\<exists>n. Record_stored (ur_index r + 1) n \<in> set evs \<or> Already_present (ur_index r + 1) n \<in> set evs))"

lemma confirmed_mono: "confirmed records evs a \<Longrightarrow> set evs \<subseteq> set evs' \<Longrightarrow> confirmed records evs' a"
  by (auto simp: confirmed_def)

definition filed :: "('p, 't, 'm, 'j) upload_state \<Rightarrow> bool" where
  "filed st \<longleftrightarrow> (\<forall>a plan. map_of (us_plans st) a = Some plan \<longrightarrow> cp_address plan = a)"

lemma filed_prepare: "filed st \<Longrightarrow> filed (prepare plan st)"
  by (auto simp: filed_def prepare_def update_conv' split: if_splits)

lemma filed_confirm: "filed st \<Longrightarrow> filed (snd (confirm api as txs t st))"
  by (auto simp: filed_def confirm_def Let_def map_of_fold_delete restrict_map_def split: sum.splits if_splits)

definition accounts :: "staged_record list \<Rightarrow> ('p, 't, 'm, 'j, 'w) upload_context \<Rightarrow> bool" where
  "accounts records cx \<longleftrightarrow>
     unat (uo_amount (cx_outcome cx)) = sum_list (map (unat \<circ> fst) (receipts (cx_events cx))) \<and>
     uo_gas (cx_outcome cx) = min (sum_list (map snd (receipts (cx_events cx)))) u128_max \<and>
     (\<forall>a \<in> set (uo_addresses (cx_outcome cx)). confirmed records (cx_events cx) a) \<and>
     set (cx_records cx) \<subseteq> set records \<and>
     ur_address ` set records \<subseteq> set (uo_addresses (cx_outcome cx)) \<union> ur_address ` set (cx_records cx) \<and>
     filed (cx_state cx)"

lemmas accountsD = accounts_def [THEN iffD1, THEN conjunct1]
  accounts_def [THEN iffD1, THEN conjunct2, THEN conjunct2, THEN conjunct1, rule_format]
  accounts_def [THEN iffD1, THEN conjunct2, THEN conjunct2, THEN conjunct2, THEN conjunct1]
  accounts_def [THEN iffD1, THEN conjunct2, THEN conjunct2, THEN conjunct2, THEN conjunct2, THEN conjunct1]
  accounts_def [THEN iffD1, THEN conjunct2, THEN conjunct2, THEN conjunct2, THEN conjunct2, THEN conjunct2]

section \<open>Silent steps\<close>

definition silent :: "('p, 't, 'm, 'j, 'w) upload_context \<Rightarrow> ('p, 't, 'm, 'j, 'w) upload_context \<Rightarrow> bool" where
  "silent cx cx' \<longleftrightarrow>
     cx_outcome cx' = cx_outcome cx \<and> (filed (cx_state cx) \<longrightarrow> filed (cx_state cx')) \<and> cx_records cx' = cx_records cx \<and>
     receipts (cx_events cx') = receipts (cx_events cx) \<and> set (cx_events cx) \<subseteq> set (cx_events cx')"

definition silents :: "(('p, 't, 'm, 'j, 'w) upload_context \<Rightarrow> 'r \<times> ('p, 't, 'm, 'j, 'w) upload_context) \<Rightarrow> bool" where
  "silents m \<longleftrightarrow> (\<forall>cx. silent cx (snd (m cx)))"

named_theorems silent_rules "steps that pay and book nothing"

lemma silent_refl [simp]: "silent cx cx"
  by (simp add: silent_def)

lemma silent_trans: "silent a b \<Longrightarrow> silent b c \<Longrightarrow> silent a c"
  by (auto simp: silent_def)

lemma silentsD: "silents m \<Longrightarrow> m cx = (r, cx') \<Longrightarrow> silent cx cx'"
  by (metis silents_def snd_conv)

lemma silents_bind [silent_rules]: "silents m \<Longrightarrow> (\<And>x. silents (f x)) \<Longrightarrow> silents (bind_op m f)"
  by (simp add: silents_def bind_op_def split: prod.splits sum.splits) (metis silent_trans snd_conv)

lemma silents_basic [silent_rules]:
  "silents (ok_op x)" "silents (err_op e)" "silents (lift_result r)" "silents (on_world f)"
  "silents (notify (Record_stored i n))" "silents (notify (Already_present i n))"
  "silents (\<lambda>cx. (q cx, cx))"
  by (auto simp: silents_def silent_def lift_result_def on_world_def notify_def split: prod.splits)

text \<open>A step that reads its context before it runs.\<close>

lemma silents_read: "(\<And>c. silents (m c)) \<Longrightarrow> silents (\<lambda>cx. m cx cx)"
  by (simp add: silents_def)

lemma silents_option [silent_rules]:
  "silents f \<Longrightarrow> (\<And>x. silents (g x)) \<Longrightarrow> silents (case v of None \<Rightarrow> f | Some x \<Rightarrow> g x)"
  by (cases v) simp_all

lemma silents_if [silent_rules]: "silents f \<Longrightarrow> silents g \<Longrightarrow> silents (if b then f else g)"
  by simp

lemma silents_map: "silents m \<Longrightarrow> silents (\<lambda>cx. case m cx of (a, cx) \<Rightarrow> (f cx a, cx))"
  by (simp add: silents_def split_beta)

lemma silent_accounts: "accounts records cx \<Longrightarrow> silent cx cx' \<Longrightarrow> accounts records cx'"
  by (auto simp: accounts_def silent_def intro: confirmed_mono)

lemma silents_rolling [silent_rules]:
  assumes "\<And>i. silents (body i)"
  shows "silents (rolling_until stop dropped pick body items cap)"
proof -
  have "silent cx cx'" if run: "rolling_until stop dropped pick body items cap cx = (out, cx')" for cx out cx'
  proof -
    have step: "silent cx s' \<and> True" if "silent cx s" and "body i s = (r, s')" for i s r s'
      using silent_trans [OF that(1) silentsD [OF assms that(2)]] by simp
    show ?thesis
      using rolling_until_spec [of _ _ _ body _ _ _ _ _ "silent cx" "\<lambda>_ _ _. True", OF run step] by simp
  qed
  then show ?thesis by (metis silents_def surj_pair snd_conv)
qed

lemma silents_probe: "silents (probe_record env entry)"
  unfolding probe_record_def silents_def
  by (auto simp: bind_op_def on_world_def notify_def silent_def split: prod.splits sum.splits option.splits if_splits)

lemma silents_plan_merkle: "silents (plan_merkle_upload env unpaid)"
  unfolding plan_merkle_upload_def Let_def
  by (rule silents_read) (intro silents_map silents_rolling silents_probe)

lemma silents_store_one: "silents (store_one env merkle n address)"
  unfolding store_one_def by (rule silents_read) (intro silent_rules)

lemma silents_plan_record: "silents (plan_record env r)"
  unfolding plan_record_def Let_def silents_def
  by (auto simp: bind_op_def on_world_def silent_def split: prod.splits sum.splits option.splits)

lemma silents_prepare_record: "silents (prepare_record env n r)"
  unfolding prepare_record_def by (intro silent_rules silents_plan_record)

lemma silents_prepare_wave: "silents (prepare_upload_wave env n wave)"
  unfolding prepare_upload_wave_def by (intro silents_map silents_rolling silents_prepare_record)

lemma silents_store_record: "silents (store_record env n item)"
  unfolding store_record_def silents_def
  by (auto simp: bind_op_def lift_result_def on_world_def notify_def silent_def split: prod.splits sum.splits)

lemma silents_store_wave: "silents (store_wave env n wave plans)"
  unfolding store_wave_def Let_def by (intro silents_map silents_rolling silents_store_record)

section \<open>Payments\<close>

text \<open>
  What the coordinator relies on: a payment call touches the journal of the state and leaves its plans
  alone, admission does not move a plan to another address, the keys of a map are iterated once
  each, and a store reports the address of the chunk it was given.
\<close>

definition adapter_contract :: "('c, 't, 'ap, 'm, 'p, 'j, 'w) upload_env \<Rightarrow> bool" where
  "adapter_contract env \<longleftrightarrow>
     (\<forall>plans st w. us_plans (fst (snd (ue_submit_payment env plans st w))) = us_plans st) \<and>
     (\<forall>plans st w. us_plans (fst (snd (ue_reconcile_payment env plans st w))) = us_plans st) \<and>
     (\<forall>batch st w. us_plans (fst (snd (ue_submit_merkle env batch st w))) = us_plans st) \<and>
     (\<forall>batch st w. us_plans (fst (snd (ue_reconcile_merkle env batch st w))) = us_plans st) \<and>
     (\<forall>plan w plan' w'. ue_admit env plan w = (Inr plan', w') \<longrightarrow> cp_address plan' = cp_address plan) \<and>
     (\<forall>ks w. mset (ue_key_order env ks w) = mset ks) \<and>
     reports_own_address (ue_stores env)"

lemma silents_adapter:
  assumes "\<And>st w. us_plans (fst (snd (f st w))) = us_plans st"
  shows "silents (on_adapter f)"
proof -
  have "us_plans st' = us_plans st" if "f st w = (r, st', w')" for st w r st' w'
    using assms [of st w] that by simp
  then show ?thesis by (auto simp: silents_def silent_def on_adapter_def filed_def split: prod.splits)
qed

lemma silents_state:
  assumes "\<And>st. filed st \<Longrightarrow> filed (snd (f st))"
  shows "silents (on_state f)"
proof -
  have "filed st'" if "f st = (r, st')" "filed st" for st r st' using assms [of st] that by simp
  then show ?thesis by (auto simp: silents_def silent_def on_state_def split: prod.splits)
qed

lemma silents_contract [silent_rules]:
  assumes "adapter_contract env"
  shows "silents (on_adapter (ue_submit_payment env plans))" "silents (on_adapter (ue_reconcile_payment env plans))"
    "silents (on_adapter (ue_submit_merkle env batch))" "silents (on_adapter (ue_reconcile_merkle env batch))"
  using assms by (auto simp: adapter_contract_def intro!: silents_adapter)

lemma silents_states [silent_rules]:
  "silents (on_state (start_payment merkle as))"
  "silents (on_state (\<lambda>st. (Inr (), with_attempt g st)))"
  "silents (on_state (\<lambda>st. (Inr (), insert_merkle paid st)))"
  "silents (on_state (\<lambda>st. (Inr (), st\<lparr>us_pending_merkle := b\<rparr>)))"
  by (rule silents_state, simp add: filed_def start_payment_def with_attempt_def insert_merkle_def)+

lemma silents_confirm_now [silent_rules]: "silents (\<lambda>cx. on_state (confirm api as txs (now env cx)) cx)"
  by (rule silents_read, rule silents_state, rule filed_confirm)

lemma silents_checkpoint [silent_rules]: "silents (checkpoint env None)"
  by (auto simp: silents_def silent_def checkpoint_def on_world_def split: prod.splits)

lemma silents_ensure [silent_rules]: "silents (ensure_upload_payment_allowed env)"
  by (auto simp: silents_def ensure_upload_payment_allowed_def)

lemma silents_preflight: "silents (preflight env records)"
  by (induction records) (auto intro!: silent_rules)

lemma silents_begin [silent_rules]: "silents (begin_payment env merkle as)"
proof -
  have "silents (\<lambda>cx. case ensure_upload_payment_allowed env cx of
      (Inr _, cx) \<Rightarrow> (Inr (), cx)
    | (Inl e, cx) \<Rightarrow> bind_op (checkpoint env None) (\<lambda>_. err_op e) (cx\<lparr>cx_state := drop_attempt (cx_state cx)\<rparr>))"
    by (auto simp: silents_def silent_def ensure_upload_payment_allowed_def bind_op_def checkpoint_def on_world_def
        drop_attempt_def filed_def split: prod.splits sum.splits)
  then show ?thesis unfolding begin_payment_def by (intro silent_rules)
qed

lemma silents_reconcile:
  assumes "adapter_contract env"
  shows "silents (reconcile_upload_payment env)"
proof -
  have "silent cx (snd (reconcile_upload_payment env cx))" for cx
  proof (cases "us_pending_payment (cx_state cx)")
    case (Some attempt)
    show ?thesis
      unfolding reconcile_upload_payment_def Some option.case
      by (rule silents_def [THEN iffD1, rule_format]) (intro silent_rules assms)
  qed (simp add: reconcile_upload_payment_def)
  then show ?thesis by (simp add: silents_def)
qed

definition keeps ::
  "staged_record list \<Rightarrow> (('p, 't, 'm, 'j, 'w) upload_context \<Rightarrow> 'r \<times> ('p, 't, 'm, 'j, 'w) upload_context) \<Rightarrow> bool" where
  "keeps records m \<longleftrightarrow> (\<forall>cx. accounts records cx \<longrightarrow> accounts records (snd (m cx)))"

lemma keepsD: "keeps records m \<Longrightarrow> m cx = (r, cx') \<Longrightarrow> accounts records cx \<Longrightarrow> accounts records cx'"
  by (metis keeps_def snd_conv)

lemma keeps_bind: "keeps records m \<Longrightarrow> (\<And>x. keeps records (f x)) \<Longrightarrow> keeps records (bind_op m f)"
  by (simp add: keeps_def bind_op_def split: prod.splits sum.splits) (metis snd_conv)

lemma keeps_silent: "silents m \<Longrightarrow> keeps records m"
  by (auto simp: keeps_def silents_def intro: silent_accounts)

lemma save_receipt_accounts:
  assumes "accounts records cx" and "checked \<or> uo_amount (cx_outcome cx) = 0"
  shows "accounts records (snd (save_receipt env checked mode payment cx))"
proof (cases "checked \<and> 2 ^ 256 \<le> unat (uo_amount (cx_outcome cx)) + unat (up_amount payment)")
  case True
  then show ?thesis using assms(1) by (simp add: save_receipt_def Let_def)
next
  case False
  then have "unat (uo_amount (cx_outcome cx)) + unat (up_amount payment) < 2 ^ 256"
    using assms(2) unsigned_less [of "up_amount payment"] by auto
  then have "unat (uo_amount (cx_outcome cx) + up_amount payment) = unat (uo_amount (cx_outcome cx)) + unat (up_amount payment)"
    by (simp add: unat_word_ariths)
  moreover have "confirmed records (evs @ es) a" if "confirmed records evs a" for evs es a
    using that by (rule confirmed_mono) simp
  ultimately show ?thesis using False assms(1)
    by (auto simp: save_receipt_def Let_def checkpoint_def on_world_def accounts_def sat_add_u128_def
        split: prod.splits)
qed

lemma settle_merkle_accounts:
  assumes "adapter_contract env" and "accounts records cx" and "checked \<or> uo_amount (cx_outcome cx) = 0"
  shows "accounts records (snd (settle_merkle env checked cx))"
proof -
  let ?steps = "bind_op (lift_result (ok_or (us_pending_merkle (cx_state cx)) Payment))
       (\<lambda>batch. bind_op (on_adapter (ue_submit_merkle env batch))
       (\<lambda>payment. bind_op (lift_result (finalize_merkle_batch (ua_merkle (ue_api env)) batch (mu_winner_pool payment)))
       (\<lambda>paid. bind_op (on_state (\<lambda>st. (Inr (), insert_merkle paid st)))
       (\<lambda>_. ok_op payment))))"
  have split: "settle_merkle env checked cx = bind_op ?steps
       (\<lambda>payment. save_receipt env checked (Some Merkle)
          \<lparr>up_transactions = Map.empty, up_amount = mu_amount payment, up_gas = mu_gas payment\<rparr>) cx"
    by (simp add: settle_merkle_def bind_op_assoc bind_ok)
  have "silents ?steps" by (intro silent_rules assms(1))
  obtain r cx1 where steps: "?steps cx = (r, cx1)" by fastforce
  then have silent: "silent cx cx1" by (rule silentsD [OF \<open>silents ?steps\<close>])
  then have "accounts records cx1" "checked \<or> uo_amount (cx_outcome cx1) = 0"
    using assms(2,3) silent_accounts by (auto simp: silent_def)
  then show ?thesis using steps unfolding split
    by (simp add: bind_op_def save_receipt_accounts split: sum.split)
qed

lemma keeps_merkle_batches:
  assumes "adapter_contract env"
  shows "keeps records (merkle_batches env mode batches)"
proof (induction batches)
  case (Cons as batches)
  have settle: "keeps records (settle_merkle env True)"
    using settle_merkle_accounts [OF assms] by (simp add: keeps_def)
  have rest: "keeps records (bind_op (on_state (\<lambda>st. (Inr (), st\<lparr>us_pending_merkle := Some batch\<rparr>)))
            (\<lambda>_. bind_op (checkpoint env None)
            (\<lambda>_. bind_op (begin_payment env True [])
            (\<lambda>_. bind_op (settle_merkle env True)
            (\<lambda>_. merkle_batches env mode batches)))))" for batch
    by (intro keeps_bind settle Cons keeps_silent silent_rules)
  have world: "keeps records (on_world f)" for f by (rule keeps_silent) (rule silent_rules)
  show ?case
    unfolding keeps_def merkle_batches.simps
    using keepsD [OF world] rest [unfolded keeps_def] by (auto split: prod.split sum.split)
qed (simp add: keeps_def)

lemma check_loop_already:
  assumes "check_loop al pe cs = Inr (al', pe')"
  shows "set al' \<subseteq> set al \<union> {(i, a) |i a n. (i, a, n, Inr True) \<in> set cs}"
  using assms
proof (induction al pe cs rule: check_loop.induct)
  case (2 al pe i a n r cs)
  then show ?case by (cases r) (auto split: if_splits)
qed simp

lemma probe_record_confirms:
  assumes "probe_record env entry cx = (Inr True, cx')" and "set (cx_records cx) \<subseteq> set records"
    and "fst (snd entry) \<in> ur_address ` set (cx_records cx)"
  shows "confirmed records (cx_events cx') (fst (snd entry))"
proof -
  obtain i a sz where entry: "entry = (i, a, sz)" by (cases entry)
  obtain w where "on_world (chunk_already_stored_for_merkle env a sz) cx = (Inr True, cx\<lparr>cx_world := w\<rparr>)"
    and found: "(case find (\<lambda>r. ur_address r = a) (cx_records cx) of
       Some r \<Rightarrow> cx' = cx\<lparr>cx_world := w, cx_events := cx_events cx @ [Already_present (ur_index r + 1) (length (cx_records cx))]\<rparr>
     | None \<Rightarrow> True)"
    using assms(1) unfolding entry probe_record_def
    by (auto simp: bind_op_def on_world_def notify_def split: prod.splits sum.splits option.splits if_splits)
  moreover obtain r where r: "find (\<lambda>r. ur_address r = a) (cx_records cx) = Some r"
    using assms(3) entry by (cases "find (\<lambda>r. ur_address r = a) (cx_records cx)") (auto simp: find_None_iff)
  moreover have "r \<in> set (cx_records cx)" "ur_address r = a" using find_Some_iff [THEN iffD1, OF r] by auto
  ultimately show ?thesis using assms(2) by (auto simp: confirmed_def entry)
qed

lemma plan_merkle_confirms:
  assumes "plan_merkle_upload env unpaid cx = (Inr plan, cx')" and "set unpaid \<subseteq> set (cx_records cx)"
    and "set (cx_records cx) \<subseteq> set records" and "a \<in> set (mp_already_stored plan)"
  shows "confirmed records (cx_events cx') a"
proof -
  define entries where "entries = enumerate 0 (map (\<lambda>r. (ur_address r, ur_size r)) unpaid)"
  let ?pick = "\<lambda>fl cx. ue_pick env (map (fst \<circ> snd) fl) (cx_world cx)"
  let ?cap = "\<lambda>_. min (ue_quote_cap env (cx_world cx)) (max (length entries) 1)"
  let ?R = "\<lambda>entry r cx. r = Inr True \<longrightarrow> confirmed records (cx_events cx) (fst (snd entry))"
  obtain completed where run: "rolling_until isl (Inl Cancelled) ?pick (probe_record env) entries ?cap cx = (completed, cx')"
    and plan: "plan_merkle_upload_observed (map (\<lambda>((i, a, n), r). (i, a, n, r)) completed) = Inr plan"
    using assms(1) by (auto simp: plan_merkle_upload_def Let_def entries_def split: prod.splits)
  have known: "fst (snd entry) \<in> ur_address ` set (cx_records cx)" if "entry \<in> set entries" for entry
  proof -
    have "snd entry \<in> set (map (\<lambda>r. (ur_address r, ur_size r)) unpaid)"
      using imageI [OF that, of snd] unfolding entries_def by (simp flip: set_map)
    then show ?thesis using assms(2) by force
  qed
  have step: "silent cx s' \<and> ?R entry r s'"
    if "entry \<in> set entries" "silent cx s" "probe_record env entry s = (r, s')" for entry s r s'
    using silent_trans [OF that(2) silentsD [OF silents_probe that(3)]] that assms(3)
      probe_record_confirms [of env entry s s' records] known [OF that(1)] by (simp add: silent_def)
  have mono: "?R entry r s'" if "?R entry r s" "probe_record env j s = (r', s')" for entry r s j r' s'
    using that(1) silentsD [OF silents_probe that(2)] confirmed_mono by (fastforce simp: silent_def)
  have results: "\<forall>(entry, r) \<in> set completed. r = Inl Cancelled \<or> ?R entry r cx'"
    using rolling_until_spec [of _ _ _ "probe_record env" _ _ _ _ _ "silent cx" ?R, OF run step mono] by simp
  obtain al pe where loop: "check_loop [] [] (map (\<lambda>((i, a, n), r). (i, a, n, r)) completed) = Inr (al, pe)"
    and "mp_already_stored plan = map snd (sort_key fst al)"
    using plan assms(4) by (auto simp: plan_merkle_upload_observed_def bind_result_Inr_iff Let_def split: if_splits)
  with assms(4) obtain i where "(i, a) \<in> set al" by auto
  then obtain n where "((i, a, n), Inr True) \<in> set completed" using check_loop_already [OF loop] by auto
  with results show ?thesis by fastforce
qed

lemma pay_unpaid_accounts:
  assumes "adapter_contract env"
  shows "keeps records (pay_unpaid_merkle env mode)"
proof -
  have mode: "accounts records (c\<lparr>cx_outcome := (cx_outcome c)\<lparr>uo_mode := m\<rparr>\<rparr>)" if "accounts records c" for c m
    using that by (simp add: accounts_def)
  have planned: "accounts records c \<and> (\<forall>p. r = Inr p \<longrightarrow> accounts records (book_present p c))"
    if run: "plan_merkle_upload env unpaid cx = (r, c)" and "accounts records cx" and "set unpaid \<subseteq> set (cx_records cx)"
    for unpaid cx r c
  proof -
    have "accounts records c" by (rule silent_accounts [OF that(2) silentsD [OF silents_plan_merkle run]])
    moreover have "confirmed records (cx_events c) a" if "r = Inr p" "a \<in> set (mp_already_stored p)" for p a
      by (rule plan_merkle_confirms [OF run [unfolded that(1)] \<open>set unpaid \<subseteq> set (cx_records cx)\<close> _ that(2)])
        (use \<open>accounts records cx\<close> in \<open>simp add: accounts_def\<close>)
    ultimately show ?thesis by (auto simp: accounts_def book_present_def)
  qed
  have "accounts records (snd (pay_unpaid_merkle env mode cx))" if cx: "accounts records cx" for cx
  proof -
    define unpaid where "unpaid = filter (\<lambda>r. \<not> is_paid (ue_api env) (cx_state cx) (ur_address r) (now env cx)) (cx_records cx)"
    obtain r c where run: "plan_merkle_upload env unpaid cx = (r, c)" by fastforce
    have "accounts records c \<and> (\<forall>p. r = Inr p \<longrightarrow> accounts records (book_present p c))"
      by (rule planned [OF run cx]) (simp add: unpaid_def)
    then show ?thesis
      unfolding pay_unpaid_merkle_def unpaid_def [symmetric] Let_def run
      using cx mode keeps_merkle_batches [OF assms, unfolded keeps_def, rule_format]
      by (cases r) (auto split: if_splits)
  qed
  then show ?thesis by (simp add: keeps_def)
qed

lemma prepare_merkle_accounts:
  assumes "adapter_contract env" and "accounts records cx" and "uo_amount (cx_outcome cx) = 0"
  shows "accounts records (snd (prepare_upload_merkle env mode cx))"
proof -
  define cx0 where "cx0 = drop_stale_batch env cx"
  have cx0: "silent cx cx0" by (auto simp: cx0_def drop_stale_batch_def silent_def filed_def split: option.split)
  obtain r c where begun: "begin_payment env True [] cx0 = (r, c)" by fastforce
  have "silent cx c" by (rule silent_trans [OF cx0 silentsD [OF silents_begin begun]])
  then have c: "accounts records c" "uo_amount (cx_outcome c) = 0"
    using assms(2,3) silent_accounts by (auto simp: silent_def)
  then have "accounts records (snd (bind_op (begin_payment env True []) (\<lambda>_. settle_merkle env False) cx0))"
    using begun settle_merkle_accounts [OF assms(1)] by (cases r) (auto simp: bind_op_def)
  then have "accounts records (snd (pay_restored_batch env cx0))"
    using silent_accounts [OF assms(2) cx0] by (auto simp: pay_restored_batch_def split: option.split)
  then show ?thesis using pay_unpaid_accounts [OF assms(1), unfolded keeps_def, rule_format]
    unfolding prepare_upload_merkle_def cx0_def [symmetric] by (auto simp: bind_op_def split: prod.splits sum.splits)
qed

section \<open>Storage of the paid batches\<close>

lemma store_one_confirms:
  assumes "store_one env merkle n a cx = (Inr d, cx')" and "set merkle \<subseteq> set records"
  shows "confirmed records (cx_events cx') a"
proof -
  obtain r cx1 where r: "find (\<lambda>r. ur_address r = a) merkle = Some r"
    and "notify (Record_stored (ur_index r + 1) n) cx1 = (Inr (), cx')"
    using assms(1) unfolding store_one_def
    by (auto simp: results lift_result_def split: if_splits)
  moreover have "r \<in> set merkle" "ur_address r = a" using find_Some_iff [THEN iffD1, OF r] by auto
  ultimately show ?thesis using assms(2) unfolding confirmed_def by (intro bexI [of _ r]) (auto simp: notify_def)
qed

definition reporting :: "staged_record list \<Rightarrow> ('p, 't, 'm, 'j, 'w) upload_context runner \<Rightarrow> bool" where
  "reporting records run \<longleftrightarrow>
     (\<forall>k pending cx cs cx'. run k pending cx = (cs, cx') \<longrightarrow>
        silent cx cx' \<and> (\<forall>a d. (a, Inr d) \<in> set cs \<longrightarrow> confirmed records (cx_events cx') a))"

lemma store_runner_reporting:
  assumes "set merkle \<subseteq> set records"
  shows "reporting records (store_runner env merkle n)"
proof -
  define R where "R = (\<lambda>a (r :: (error, nat) result) evs. \<forall>d. r = Inr d \<longrightarrow> confirmed records evs a)"
  have "silent cx cx' \<and> (\<forall>a d. (a, Inr d) \<in> set cs \<longrightarrow> confirmed records (cx_events cx') a)"
    if run: "store_runner env merkle n k pending cx = (cs, cx')" for k pending cx cs cx'
  proof -
    have step: "silent cx s' \<and> R a r (cx_events s')" if "silent cx s" "store_one env merkle n a s = (r, s')" for a s r s'
      using silent_trans [OF that(1) silentsD [OF silents_store_one that(2)]] that
        store_one_confirms [OF _ assms] by (fastforce simp: R_def)
    have mono: "R a r (cx_events s')" if "R a r (cx_events s)" "store_one env merkle n j s = (r', s')" for a r s j r' s'
      using that(1) silentsD [OF silents_store_one that(2)] confirmed_mono by (fastforce simp: silent_def R_def)
    have slept: "silent cx (cx\<lparr>cx_world := w\<rparr>)" for w by (simp add: silent_def)
    have "silent cx cx' \<and> (\<forall>(a, r) \<in> set cs. r = Inl Cancelled \<or> R a r (cx_events cx'))"
      using rolling_until_spec [of _ _ _ "store_one env merkle n" _ _ _ _ _ "silent cx" "\<lambda>a r cx. R a r (cx_events cx)",
          OF run [unfolded store_runner_def Let_def] step mono slept] by simp
    then show ?thesis by (fastforce simp: R_def)
  qed
  then show ?thesis by (simp add: reporting_def)
qed

lemma store_runner_complete: "complete_runner (store_runner env merkle n)"
  unfolding complete_runner_def store_runner_def Let_def by (intro allI until_run.completes)

lemma store_pass_stored:
  assumes "store_pass k out failed cs = (out', failed')"
  shows "set (mo_stored_addresses out') \<subseteq> set (mo_stored_addresses out) \<union> {a. \<exists>d. (a, Inr d) \<in> set cs}"
  using assms
proof (induction k out failed cs rule: store_pass.induct)
  case (2 k out failed a r rest)
  then show ?case by (cases r) (fastforce split: if_splits)+
qed simp

abbreviation all_confirmed ::
  "staged_record list \<Rightarrow> merkle_store_outcome \<Rightarrow> ('p, 't, 'm, 'j, 'w) upload_context \<Rightarrow> bool" where
  "all_confirmed records out cx \<equiv> \<forall>a \<in> set (mo_stored_addresses out). confirmed records (cx_events cx) a"

lemma all_confirmed_silent: "all_confirmed records out cx \<Longrightarrow> silent cx cx' \<Longrightarrow> all_confirmed records out cx'"
  using confirmed_mono by (fastforce simp: silent_def)

lemma store_rounds_confirmed:
  assumes "store_rounds run n k out pending cx = (out', cx')" and "reporting records run"
    and "all_confirmed records out cx"
  shows "silent cx cx' \<and> all_confirmed records out' cx'"
  using assms
proof (induction run n k out pending cx rule: store_rounds.induct)
  case (2 run n k out pending cx)
  obtain cs c where run: "run k pending cx = (cs, c)" by fastforce
  obtain out1 failed where pass: "store_pass k out [] cs = (out1, failed)" by fastforce
  have c: "silent cx c" "\<forall>a d. (a, Inr d) \<in> set cs \<longrightarrow> confirmed records (cx_events c) a"
    using 2(3) run by (auto simp: reporting_def)
  have out1: "all_confirmed records out1 c"
    using store_pass_stored [OF pass] c(2) all_confirmed_silent [OF 2(4) c(1)] by blast
  show ?case
  proof (cases "mo_fatal out1 \<noteq> None \<or> failed = [] \<or> n = 0")
    case True
    then show ?thesis using 2(2) c(1) out1 by (auto simp: run pass split: if_splits)
  next
    case False
    then have "store_rounds run n (k + 1) out1 (map fst failed) c = (out', cx')"
      using 2(2) by (simp add: run pass)
    with 2(1) [OF run [symmetric] pass [symmetric]] False 2(3) out1
    have "silent c cx' \<and> all_confirmed records out' cx'" by blast
    with c(1) silent_trans show ?thesis by blast
  qed
qed simp

lemma store_with_retry_confirmed:
  assumes "merkle_store_with_retry run as k offset cx = (out, cx')" and "reporting records run"
  shows "silent cx cx' \<and> all_confirmed records out cx'"
  using store_rounds_confirmed [OF assms(1) [unfolded merkle_store_with_retry_def] assms(2)] by simp

lemma deferred_rounds_confirmed:
  assumes "deferred_rounds run k ds out remaining cx = (out', cx')" and "reporting records run"
    and "all_confirmed records out cx"
  shows "silent cx cx' \<and> all_confirmed records out' cx'"
  using assms
proof (induction run k ds out remaining cx rule: deferred_rounds.induct)
  case (2 run k delay ds out remaining cx)
  show ?case
  proof (cases "remaining = []")
    case True
    then show ?thesis using 2(2,4) by auto
  next
    case False
    obtain r c where sub: "merkle_store_with_retry (\<lambda>_. run delay) (map fst remaining) 1 (mo_stored out) cx = (r, c)"
      by fastforce
    have "reporting records (\<lambda>_. run delay)" using 2(3) by (simp add: reporting_def)
    note c = store_with_retry_confirmed [OF sub this]
    define out1 where "out1 = out\<lparr>mo_stored := mo_stored r,
      mo_stored_addresses := mo_stored_addresses out @ mo_stored_addresses r,
      mo_stats := merge_round_stats (deferred_round_histogram_slot k (length (ws_histogram (mo_stats out))))
                    (mo_stats out) (mo_stats r)\<rparr>"
    have out1: "all_confirmed records out1 c"
      using c all_confirmed_silent [OF 2(4)] by (auto simp: out1_def)
    show ?thesis
    proof (cases "mo_fatal r")
      case None
      then have "deferred_rounds run (k + 1) ds out1 (mo_failed_addresses r) c = (out', cx')"
        using 2(2) False by (simp add: sub [unfolded One_nat_def] Let_def out1_def)
      with 2(1) [OF False refl sub [symmetric] out1_def] None 2(3) out1
      have "silent c cx' \<and> all_confirmed records out' cx'" by blast
      with c silent_trans show ?thesis by blast
    next
      case (Some e)
      then show ?thesis using 2(2) False c out1
        by (auto simp: sub [unfolded One_nat_def] Let_def out1_def)
    qed
  qed
qed auto

text \<open>The error of an upload whose figures are those of the outcome it leaves.\<close>

fun tells :: "error \<Rightarrow> upload_outcome \<Rightarrow> bool" where
  "tells (PartialUpload stored _ _ _ _ spend _) out \<longleftrightarrow>
     stored = uo_addresses out \<and> spend = (uo_amount out, uo_gas out)"
| "tells _ out \<longleftrightarrow> False"

lemma note_store_accounts:
  assumes "accounts records cx" and "all_confirmed records r cx"
  shows "accounts records (note_merkle_store r cx)"
  using assms by (auto simp: accounts_def note_merkle_store_def)

lemma note_store_simps [simp]:
  "cx_records (note_merkle_store r cx) = cx_records cx"
  "uo_addresses (cx_outcome (note_merkle_store r cx)) = uo_addresses (cx_outcome cx) @ mo_stored_addresses r"
  by (simp_all add: note_merkle_store_def)

lemma store_passes_accounts:
  assumes "adapter_contract env" and "accounts records cx" and "set merkle \<subseteq> set records"
    and "store_passes env merkle n cx = (r, cx')"
  shows "accounts records cx' \<and> cx_records cx' = cx_records cx \<and>
    (mo_fatal r = None \<and> mo_failed_addresses r = [] \<longrightarrow>
      ur_address ` set merkle \<subseteq> set (uo_addresses (cx_outcome cx')))"
proof -
  define keys where "keys = ue_key_order env (map ur_address merkle) (cx_world cx)"
  have keys: "set keys = ur_address ` set merkle"
    using assms(1) mset_eq_setD [of keys "map ur_address merkle"] by (auto simp: adapter_contract_def keys_def)
  note reporting = store_runner_reporting [OF assms(3)]
  have zero: "reporting records (\<lambda>_. store_runner env merkle n 0)" "complete_runner (\<lambda>_. store_runner env merkle n 0)"
    using reporting [of env n] store_runner_complete [of env merkle n] by (auto simp: reporting_def complete_runner_def)
  let ?offset = "length (uo_addresses (cx_outcome cx))"
  obtain first c where first: "merkle_store_with_retry (\<lambda>_. store_runner env merkle n 0) keys 1 ?offset cx = (first, c)"
    by fastforce
  note c = store_with_retry_confirmed [OF first zero(1)]
  note spec = store_with_retry_spec [OF first zero(2)]
  let ?c = "note_merkle_store first c"
  have c': "accounts records ?c" "cx_records ?c = cx_records cx"
    using c note_store_accounts silent_accounts [OF assms(2)] by (auto simp: silent_def)
  show ?thesis
  proof (cases "mo_fatal first = None \<and> mo_failed_addresses first \<noteq> []")
    case False
    then have "r = first" "cx' = ?c"
      using assms(4) by (auto simp: store_passes_def first [unfolded keys_def One_nat_def] Let_def)
    moreover have "mo_fatal first = None \<and> mo_failed_addresses first = [] \<Longrightarrow> set (mo_stored_addresses first) = set keys"
      using spec by (simp add: settled_def) (metis set_mset_mset)
    ultimately show ?thesis using c' keys by auto
  next
    case True
    obtain later d where later: "merkle_deferred_retry (store_runner env merkle n) (mo_failed_addresses first)
        DEFERRED_ROUND_DELAYS_SECS (length (uo_addresses (cx_outcome ?c))) ?c = (later, d)" by fastforce
    have r: "r = later" "cx' = note_merkle_store later d"
      using assms(4) True later by (auto simp: store_passes_def first [unfolded keys_def One_nat_def] Let_def)
    note d = deferred_rounds_confirmed [OF later [unfolded merkle_deferred_retry_def] reporting]
    have "accounts records cx'" "cx_records cx' = cx_records cx"
      using d c' note_store_accounts silent_accounts [OF c'(1)] by (auto simp: r silent_def)
    moreover have "set keys \<subseteq> set (uo_addresses (cx_outcome cx'))"
      if "mo_fatal later = None \<and> mo_failed_addresses later = []"
    proof -
      have "settled later [] = mset (map fst (mo_failed_addresses first))"
        using deferred_rounds_spec [OF later [unfolded merkle_deferred_retry_def] store_runner_complete settled_new(2,3)] that
        by (simp add: settled_def)
      then have "mset (mo_stored_addresses first) + mset (mo_stored_addresses later) = mset keys"
        using spec True by (simp add: settled_def)
      then have "set (mo_stored_addresses first) \<union> set (mo_stored_addresses later) = set keys"
        by (metis set_mset_mset set_mset_union)
      moreover have "uo_addresses (cx_outcome d) = uo_addresses (cx_outcome ?c)" using d by (simp add: silent_def)
      ultimately show ?thesis by (auto simp: r)
    qed
    ultimately show ?thesis by (simp add: r keys)
  qed
qed

lemma covered: "X \<subseteq> A \<union> R \<Longrightarrow> R \<subseteq> M \<union> L \<Longrightarrow> M \<subseteq> A \<Longrightarrow> X \<subseteq> A \<union> L"
  by blast

lemma store_upload_merkle_accounts:
  assumes "adapter_contract env" and "accounts records cx" and "store_upload_merkle env n cx = (r, cx')"
  shows "accounts records cx' \<and> (\<forall>e. r = Inl e \<longrightarrow> tells e (cx_outcome cx'))"
proof -
  define merkle where "merkle = filter (\<lambda>r. is_paid (ue_api env) (cx_state cx) (ur_address r) (now env cx) \<and>
    merkle_proved (ue_api env) (cx_state cx) (ur_address r)) (cx_records cx)"
  show ?thesis
  proof (cases "merkle = []")
    case True
    then show ?thesis using assms(2,3) by (auto simp: store_upload_merkle_def merkle_def [symmetric])
  next
    case False
    let ?cx = "cx\<lparr>cx_outcome := (cx_outcome cx)\<lparr>uo_mode := Merkle\<rparr>\<rparr>"
    obtain final c where passes: "store_passes env merkle n ?cx = (final, c)" by fastforce
    have "set merkle \<subseteq> set records" using assms(2) by (auto simp: merkle_def accounts_def)
    moreover have "accounts records ?cx" using assms(2) by (simp add: accounts_def)
    ultimately have c: "accounts records c \<and> cx_records c = cx_records ?cx \<and>
        (mo_fatal final = None \<and> mo_failed_addresses final = [] \<longrightarrow>
          ur_address ` set merkle \<subseteq> set (uo_addresses (cx_outcome c)))"
      using store_passes_accounts [OF assms(1) _ _ passes] by blast
    have "accounts records (c\<lparr>cx_records := filter (\<lambda>r. ur_address r \<notin> ur_address ` set merkle) (cx_records c)\<rparr>)"
      if "mo_fatal final = None \<and> mo_failed_addresses final = []"
    proof -
      let ?left = "filter (\<lambda>r. ur_address r \<notin> ur_address ` set merkle) (cx_records c)"
      have "ur_address ` set (cx_records c) \<subseteq> ur_address ` set merkle \<union> ur_address ` set ?left" by auto
      from covered [OF accountsD(4) [OF conjunct1 [OF c]] this] c that
      have "ur_address ` set records \<subseteq> set (uo_addresses (cx_outcome c)) \<union> ur_address ` set ?left" by blast
      moreover have "set ?left \<subseteq> set records" using accountsD(3) [OF conjunct1 [OF c]] by auto
      ultimately show ?thesis using conjunct1 [OF c] by (simp add: accounts_def)
    qed
    then show ?thesis using c assms(3) False
      by (auto simp: store_upload_merkle_def merkle_def [symmetric] passes Let_def split: if_splits)
  qed
qed

section \<open>Waves\<close>

text \<open>The plans of a wave: one per record, for the record's address, or the record was confirmed present.\<close>

definition planned :: "staged_record list \<Rightarrow> upload_event list \<Rightarrow> staged_record \<Rightarrow> 'p chunk_payment_plan option \<Rightarrow> bool" where
  "planned records evs r plan \<longleftrightarrow>
     (case plan of None \<Rightarrow> confirmed records evs (ur_address r) | Some p \<Rightarrow> cp_address p = ur_address r)"

lemma planned_simps [simp]:
  "planned records evs r None \<longleftrightarrow> confirmed records evs (ur_address r)"
  "planned records evs r (Some p) \<longleftrightarrow> cp_address p = ur_address r"
  by (simp_all add: planned_def)

lemma planned_mono: "planned records evs r plan \<Longrightarrow> set evs \<subseteq> set evs' \<Longrightarrow> planned records evs' r plan"
  by (cases plan) (auto intro: confirmed_mono)

definition wave_planned ::
  "staged_record list \<Rightarrow> upload_event list \<Rightarrow> staged_record list \<Rightarrow>
     (staged_record \<times> 'p chunk_payment_plan option) list \<Rightarrow> bool" where
  "wave_planned records evs wave plans \<longleftrightarrow>
     fst ` set plans = set wave \<and> (\<forall>(r, plan) \<in> set plans. planned records evs r plan)"

lemma wave_planned_mono:
  "wave_planned records evs wave plans \<Longrightarrow> set evs \<subseteq> set evs' \<Longrightarrow> wave_planned records evs' wave plans"
  using planned_mono by (fastforce simp: wave_planned_def)

lemma admit_keeps_address:
  "adapter_contract env \<Longrightarrow> ue_admit env plan w = (Inr plan', w') \<Longrightarrow> cp_address plan' = cp_address plan"
  unfolding adapter_contract_def by blast

lemma plan_record_address:
  assumes "plan_record env r cx = (Inr (Some plan), cx')" and "filed (cx_state cx)"
  shows "cp_address plan = ur_address r"
proof -
  have kept: "cp_address p = ur_address r"
    if "retained_plan api (cx_state cx) (ur_address r) sz t = Some p" for api sz t p
    using that assms(2) by (auto simp: retained_plan_def filed_def split: if_splits option.splits)
  have quoted: "cp_address p = ur_address r"
    if "prepare_chunk_payment_plan api q (ur_address r) sz w = (Inr (Some p), w')" for api q sz w p w'
    using that by (auto simp: prepare_chunk_payment_plan_def payment_plan_from_quotes_def results
        split: if_splits prod.splits sum.splits)
  show ?thesis using assms(1) kept quoted unfolding plan_record_def Let_def
    by (auto simp: results on_world_def split: if_splits option.splits prod.splits)
qed

lemma prepare_record_planned:
  assumes "adapter_contract env" and "prepare_record env n r cx = (Inr (r', plan), cx')" and "filed (cx_state cx)"
    and "r \<in> set records"
  shows "r' = r \<and> planned records (cx_events cx') r plan"
proof -
  obtain q c where q: "plan_record env r cx = (Inr q, c)" and rest:
    "(case q of
        Some plan \<Rightarrow> bind_op (on_world (ue_admit env plan)) (\<lambda>plan. ok_op (r, Some plan))
      | None \<Rightarrow> bind_op (notify (Already_present (ur_index r + 1) n)) (\<lambda>_. ok_op (r, None))) c = (Inr (r', plan), cx')"
    using assms(2) unfolding prepare_record_def bind_op_Inr_iff by blast
  show ?thesis
  proof (cases q)
    case None
    then have "r' = r" "plan = None" "Already_present (ur_index r + 1) n \<in> set (cx_events cx')"
      using rest by (auto simp: results notify_def)
    then show ?thesis using assms(4) by (auto simp: confirmed_def)
  next
    case (Some p)
    with rest obtain p' w' where "r' = r" "plan = Some p'" "ue_admit env p (cx_world c) = (Inr p', w')"
      by (auto simp: results on_world_def split: prod.splits)
    moreover have "cp_address p = ur_address r" by (rule plan_record_address [OF q [unfolded Some] assms(3)])
    ultimately show ?thesis using admit_keeps_address [OF assms(1)] by simp
  qed
qed

lemma prepare_wave_planned:
  assumes contract: "adapter_contract env" and run: "prepare_upload_wave env n wave cx = (Inr plans, cx')"
    and filed: "filed (cx_state cx)" and wave: "set wave \<subseteq> set records"
  shows "wave_planned records (cx_events cx') wave plans"
proof -
  define R where "R = (\<lambda>r (q :: (error, staged_record \<times> 'e chunk_payment_plan option) result) evs.
    \<forall>r' plan. q = Inr (r', plan) \<longrightarrow> r' = r \<and> planned records evs r plan)"
  let ?pick = "\<lambda>fl cx. ue_pick env (map ur_address fl) (cx_world cx)"
  let ?cap = "\<lambda>cx. min (ue_quote_cap env (cx_world cx)) (ue_quote_limit env)"
  obtain completed ps where rolled: "rolling_until (\<lambda>_. False) (Inl Cancelled) ?pick (prepare_record env n) wave ?cap cx = (completed, cx')"
    and ps: "collect_result snd completed = Inr ps" "plans = sort_key (ur_index \<circ> fst) ps"
    using run by (auto simp: prepare_upload_wave_def results split: prod.splits)
  have step: "silent cx s' \<and> R r q (cx_events s')"
    if "r \<in> set wave" "silent cx s" "prepare_record env n r s = (q, s')" for r s q s'
    using silent_trans [OF that(2) silentsD [OF silents_prepare_record that(3)]] that wave filed
      prepare_record_planned [OF contract, of n r s _ _ s' records] by (fastforce simp: R_def silent_def)
  have mono: "R r q (cx_events s')" if "R r q (cx_events s)" "prepare_record env n j s = (q', s')" for r q s j q' s'
    using that(1) silentsD [OF silents_prepare_record that(2)] planned_mono by (fastforce simp: silent_def R_def)
  have all: "\<forall>(r, q) \<in> set completed. q = Inl Cancelled \<or> R r q (cx_events cx')"
    using rolling_until_spec [of _ _ _ "prepare_record env n" _ _ _ _ _ "silent cx" "\<lambda>r q cx. R r q (cx_events cx)",
        OF rolled step mono] by simp
  have "list_all2 (\<lambda>c p. snd c = Inr p) completed ps" using ps(1) by (simp add: results)
  then have "list_all2 (\<lambda>c p. c \<in> set completed \<and> snd c = Inr p) completed ps"
    by (simp add: list_all2_conv_all_nth)
  then have both: "list_all2 (\<lambda>c p. fst p = fst c \<and> planned records (cx_events cx') (fst p) (snd p)) completed ps"
    by (rule list_all2_mono) (use all in \<open>fastforce simp: R_def\<close>)
  then have "map fst ps = map fst completed" by (induction rule: list_all2_induct) auto
  then have "fst ` set plans = set wave"
    using until_run.completed_items(2) [OF rolled] ps(2) by (simp flip: set_map)
  moreover have "\<forall>p \<in> set ps. planned records (cx_events cx') (fst p) (snd p)"
    using both by (induction rule: list_all2_induct) (simp, force)
  ultimately show ?thesis by (auto simp: wave_planned_def ps(2))
qed

lemma take_plans_accounts:
  assumes "take_plans env payable plans cx = (payable', cx')" and "accounts records cx"
    and "\<forall>(r, plan) \<in> set plans. plan = None \<longrightarrow> confirmed records (cx_events cx) (ur_address r)"
  shows "accounts records cx' \<and> cx_events cx' = cx_events cx \<and> cx_records cx' = cx_records cx \<and>
    set (uo_addresses (cx_outcome cx')) = set (uo_addresses (cx_outcome cx)) \<union> {ur_address r |r. (r, None) \<in> set plans}"
  using assms
proof (induction env payable plans cx rule: take_plans.induct)
  case (2 env payable r plan plans cx)
  have "accounts records (cx\<lparr>cx_state := prepare plan (cx_state cx)\<rparr>)"
    using 2(4) filed_prepare by (auto simp: accounts_def)
  with 2 show ?case by (auto split: if_splits)
next
  case (3 env payable r plans cx)
  let ?cx = "cx\<lparr>cx_outcome := (cx_outcome cx)\<lparr>uo_addresses := uo_addresses (cx_outcome cx) @ [ur_address r]\<rparr>\<rparr>"
  have "accounts records ?cx" using 3(3,4) by (auto simp: accounts_def)
  with 3 have "accounts records cx' \<and> cx_events cx' = cx_events ?cx \<and> cx_records cx' = cx_records ?cx \<and>
      set (uo_addresses (cx_outcome cx')) = set (uo_addresses (cx_outcome ?cx)) \<union> {ur_address r |r. (r, None) \<in> set plans}"
    by simp
  then show ?case by auto
qed auto

lemma pay_wave_accounts:
  assumes "adapter_contract env" and "accounts records cx" and "wave_planned records (cx_events cx) wave plans"
    and "pay_wave env plans cx = (r, cx')"
  shows "accounts records cx' \<and> cx_records cx' = cx_records cx \<and> set (cx_events cx) \<subseteq> set (cx_events cx') \<and>
    set (uo_addresses (cx_outcome cx')) = set (uo_addresses (cx_outcome cx)) \<union> {ur_address r |r. (r, None) \<in> set plans}"
proof -
  obtain payable c where taken: "take_plans env [] plans cx = (payable, c)" by fastforce
  have "\<forall>(r, plan) \<in> set plans. plan = None \<longrightarrow> confirmed records (cx_events cx) (ur_address r)"
    using assms(3) by (auto simp: wave_planned_def)
  note c = take_plans_accounts [OF taken assms(2) this]
  let ?steps = "bind_op (checkpoint env None)
            (\<lambda>_. bind_op
               (if payable = [] then ok_op \<lparr>up_transactions = Map.empty, up_amount = 0, up_gas = 0\<rparr>
                else bind_op (begin_payment env False (map cp_address payable))
                       (\<lambda>_. on_adapter (ue_submit_payment env payable)))
            (\<lambda>payment. bind_op (lift_result (validate_payment_total payable payment))
            (\<lambda>_. bind_op (\<lambda>cx. on_state (confirm (ue_api env) (List.map_filter (map_option cp_address \<circ> snd) plans)
                                           (up_transactions payment) (now env cx)) cx)
            (\<lambda>_. ok_op payment))))"
  have split: "pay_wave env plans cx = bind_op ?steps (save_receipt env True None) c"
    by (simp add: pay_wave_def taken bind_op_assoc bind_ok)
  have "silents ?steps" by (intro silent_rules assms(1))
  obtain q d where steps: "?steps c = (q, d)" by fastforce
  then have d: "silent c d" by (rule silentsD [OF \<open>silents ?steps\<close>])
  then have "accounts records d" by (rule silent_accounts [OF conjunct1 [OF c]])
  have saved: "accounts records d' \<and> cx_records d' = cx_records d \<and> set (cx_events d) \<subseteq> set (cx_events d') \<and>
      uo_addresses (cx_outcome d') = uo_addresses (cx_outcome d)" if "save_receipt env True None p d = (u, d')" for p u d'
  proof -
    have "accounts records d'"
      using save_receipt_accounts [OF \<open>accounts records d\<close>, of True env None p] that by simp
    with that show ?thesis
      by (auto simp: save_receipt_def Let_def checkpoint_def on_world_def split: prod.splits if_splits)
  qed
  have "accounts records cx' \<and> cx_records cx' = cx_records d \<and> set (cx_events d) \<subseteq> set (cx_events cx') \<and>
      uo_addresses (cx_outcome cx') = uo_addresses (cx_outcome d)"
  proof (cases q)
    case (Inl e)
    then have "cx' = d" using assms(4) steps unfolding split by (simp add: bind_op_def)
    then show ?thesis using \<open>accounts records d\<close> by simp
  next
    case (Inr p)
    then have "save_receipt env True None p d = (r, cx')" using assms(4) steps unfolding split by (simp add: bind_op_def)
    then show ?thesis by (rule saved)
  qed
  then show ?thesis using c d by (auto simp: silent_def)
qed

text \<open>A store of the wave: it reports its record once, and the record is confirmed when it is stored.\<close>

definition stored_once :: "staged_record list \<Rightarrow> upload_event list \<Rightarrow> key \<Rightarrow> (error, wave_result) result \<Rightarrow> bool" where
  "stored_once records evs a res \<longleftrightarrow>
     (\<forall>w. res = Inr w \<longrightarrow> (wv_stored w = [a] \<and> wv_failed w = [] \<and> confirmed records evs a) \<or>
                           (wv_stored w = [] \<and> wv_failed w = [a]))"

lemma store_record_once:
  assumes "adapter_contract env" and "store_record env n (r, plan) cx = (res, cx')" and "cp_address plan = ur_address r"
    and "r \<in> set records"
  shows "stored_once records (cx_events cx') (ur_address r) res"
proof (cases res)
  case (Inr out)
  then obtain content prepared paid c where "with_content (ua_proofs (ue_api env)) plan content = Inr prepared"
    and "reuse_prepared (ue_api env) (cx_state c) prepared (now env c) = Some paid"
    and rest: "(case store_paid_chunks_with_events (ue_stores env) (ue_store_cap env) [paid] (cx_world c) of
        (out', w') \<Rightarrow> if ur_address r \<in> set (wv_stored out')
       then bind_op (notify (Record_stored (ur_index r + 1) n)) (\<lambda>_. ok_op out') (c\<lparr>cx_world := w'\<rparr>)
       else (Inr out', c\<lparr>cx_world := w'\<rparr>)) = (Inr out, cx')"
    using assms(2) unfolding store_record_def prod.case bind_op_Inr_iff lift_result_def by (auto simp: results)
  obtain out' w' where stores: "store_paid_chunks_with_events (ue_stores env) (ue_store_cap env) [paid] (cx_world c) = (out', w')"
    by fastforce
  have "pd_address paid = ur_address r"
    using \<open>with_content _ _ _ = _\<close> \<open>reuse_prepared _ _ _ _ = _\<close> assms(3)
    by (auto simp: with_content_def reuse_prepared_def split: if_splits option.splits)
  then have "mset (wv_stored out') + mset (wv_failed out') = {#ur_address r#}"
    using store_paid_spec [OF _ stores] assms(1) by (simp add: adapter_contract_def)
  then have once: "(wv_stored out' = [ur_address r] \<and> wv_failed out' = []) \<or> (wv_stored out' = [] \<and> wv_failed out' = [ur_address r])"
    by (auto simp: union_is_single)
  have "out = out' \<and> (ur_address r \<in> set (wv_stored out') \<longrightarrow> Record_stored (ur_index r + 1) n \<in> set (cx_events cx'))"
    using rest by (auto simp: stores notify_def bind_op_def split: if_splits)
  with once show ?thesis using assms(4) Inr by (auto simp: stored_once_def confirmed_def)
qed (simp add: stored_once_def)

lemma store_wave_once:
  assumes contract: "adapter_contract env" and planned: "wave_planned records evs wave plans" and wave: "set wave \<subseteq> set records"
    and run: "store_wave env n wave plans cx = (results, cx')"
  shows "(\<forall>(a, res) \<in> set results. stored_once records (cx_events cx') a res) \<and>
    fst ` set results = {ur_address r |r plan. (r, Some plan) \<in> set plans}"
proof -
  let ?items = "List.map_filter (\<lambda>(r, plan). map_option (Pair r) plan) plans"
  have items: "set ?items = {(r, plan). (r, Some plan) \<in> set plans}"
    by (force simp: List.map_filter_def image_iff)
  define R where "R = (\<lambda>item evs res. stored_once records evs (ur_address (fst (item :: staged_record \<times> 'e chunk_payment_plan))) res)"
  obtain out where rolled: "rolling_until (\<lambda>_. False) (Inl Cancelled) (\<lambda>fl cx. ue_pick env (map (ur_address \<circ> fst) fl) (cx_world cx))
      (store_record env n) ?items
      (\<lambda>cx. min (ue_store_cap env (cx_world cx)) (store_byte_bound (if wave = [] then 1 else fold max (map ur_size wave) 0))) cx = (out, cx')"
    and results: "results = map (\<lambda>((r, _), result). (ur_address r, result)) out"
    using run by (auto simp: store_wave_def Let_def split: prod.splits)
  have own: "cp_address (snd item) = ur_address (fst item) \<and> fst item \<in> set records" if "item \<in> set ?items" for item
  proof -
    have *: "(fst item, Some (snd item)) \<in> set plans" using that items by auto
    then have "fst item \<in> set wave" using planned imageI [OF *, of fst] by (simp add: wave_planned_def)
    with * planned wave show ?thesis by (auto simp: wave_planned_def)
  qed
  have step: "silent cx s' \<and> R item (cx_events s') res"
    if "item \<in> set ?items" "silent cx s" "store_record env n item s = (res, s')" for item s res s'
    using silent_trans [OF that(2) silentsD [OF silents_store_record that(3)]] that(3) own [OF that(1)]
      store_record_once [OF contract, of n "fst item" "snd item" s res s' records] by (simp add: R_def)
  have mono: "R item (cx_events s') res" if "R item (cx_events s) res" "store_record env n j s = (q, s')" for item s res j q s'
    using that(1) silentsD [OF silents_store_record that(2)] confirmed_mono
    by (fastforce simp: silent_def R_def stored_once_def)
  have all: "\<forall>(item, res) \<in> set out. res = Inl Cancelled \<or> R item (cx_events cx') res"
    using rolling_until_spec [of _ _ _ "store_record env n" _ _ _ _ _ "silent cx" "\<lambda>item res cx. R item (cx_events cx) res",
        OF rolled step mono] by simp
  have "stored_once records (cx_events cx') (ur_address r) res" if "((r, plan), res) \<in> set out" for r plan res
    using all that by (auto simp: R_def stored_once_def)
  moreover have "fst ` set results = (ur_address \<circ> fst) ` fst ` set out" by (force simp: results image_iff)
  moreover have "(ur_address \<circ> fst) ` {(r, plan). (r, Some plan) \<in> set plans} = {ur_address r |r plan. (r, Some plan) \<in> set plans}"
    by force
  ultimately show ?thesis
    using until_run.completed_items(2) [OF rolled] items by (simp only: split: prod.split) (auto simp: results)
qed

lemma absorb_results_spec:
  assumes "absorb_results failed fatal rs out = (failed', fatal', out')"
  shows "uo_amount out' = uo_amount out \<and> uo_gas out' = uo_gas out \<and>
    set (uo_addresses out') = set (uo_addresses out) \<union> {a. \<exists>b w. (b, Inr w) \<in> set rs \<and> a \<in> set (wv_stored w)} \<and>
    (failed' = [] \<longrightarrow> failed = [] \<and> (\<forall>(a, res) \<in> set rs. \<exists>w. res = Inr w \<and> wv_failed w = [])) \<and>
    (fatal' \<longrightarrow> fatal \<or> failed' \<noteq> [])"
  using assms
proof (induction failed fatal rs out rule: absorb_results.induct)
  case (2 failed fatal a e rest out)
  then show ?case by auto
next
  case (3 failed fatal a w rest out)
  let ?out = "out\<lparr>uo_stats := absorb (uo_stats out) w, uo_addresses := uo_addresses out @ wv_stored w\<rparr>"
  note IH = 3(1) [OF 3(2) [unfolded absorb_results.simps]]
  have "set (uo_addresses ?out) = set (uo_addresses out) \<union> set (wv_stored w)" by simp
  then show ?case using IH by auto
qed simp

lemma absorb_accounts:
  assumes "accounts records cx" and "\<forall>(a, res) \<in> set rs. stored_once records (cx_events cx) a res"
    and "absorb_results failed False rs (cx_outcome cx) = (failed', fatal, out)"
  shows "accounts records (cx\<lparr>cx_outcome := out\<rparr>) \<and> set (uo_addresses (cx_outcome cx)) \<subseteq> set (uo_addresses out) \<and>
    (failed' = [] \<longrightarrow> failed = [] \<and> \<not> fatal \<and> fst ` set rs \<subseteq> set (uo_addresses out))"
proof -
  note spec = absorb_results_spec [OF assms(3)]
  have "confirmed records (cx_events cx) a" if "(b, Inr w) \<in> set rs" "a \<in> set (wv_stored w)" for a b w
    using assms(2) that by (fastforce simp: stored_once_def)
  then have "accounts records (cx\<lparr>cx_outcome := out\<rparr>)" using assms(1) spec by (auto simp: accounts_def)
  moreover have "a \<in> set (uo_addresses out)" if "failed' = []" "(a, res) \<in> set rs" for a res
  proof -
    from spec that obtain w where "res = Inr w" "wv_failed w = []" by fastforce
    with assms(2) that(2) have "wv_stored w = [a]" by (fastforce simp: stored_once_def)
    then have "a \<in> {a. \<exists>b w. (b, Inr w) \<in> set rs \<and> a \<in> set (wv_stored w)}" using that(2) \<open>res = Inr w\<close> by force
    then show ?thesis using conjunct1 [OF conjunct2 [OF conjunct2 [OF spec]]] by blast
  qed
  ultimately have "accounts records (cx\<lparr>cx_outcome := out\<rparr>)" "failed' = [] \<Longrightarrow> fst ` set rs \<subseteq> set (uo_addresses out)"
    by auto
  moreover have "set (uo_addresses (cx_outcome cx)) \<subseteq> set (uo_addresses out)" using spec by blast
  ultimately show ?thesis using spec by blast
qed

definition prefetch_planned ::
  "staged_record list \<Rightarrow> upload_event list \<Rightarrow> (error, (staged_record \<times> 'p chunk_payment_plan option) list) result option \<Rightarrow>
     staged_record list list \<Rightarrow> bool" where
  "prefetch_planned records evs pre waves \<longleftrightarrow>
     (\<forall>plans wave rest. pre = Some (Inr plans) \<and> waves = wave # rest \<longrightarrow> wave_planned records evs wave plans)"

lemma wave_step_accounts:
  assumes contract: "adapter_contract env" and acc: "accounts records cx" and wave: "set wave \<subseteq> set records"
    and planned: "wave_planned records (cx_events cx) wave plans"
    and rest: "\<forall>w \<in> set rest. set w \<subseteq> set records"
    and paid: "pay_wave env plans cx = (Inr (), c1)"
    and stored: "store_wave env n wave plans c1 = (rs, c2)"
    and pre: "(case rest of [] \<Rightarrow> (None, c2) | nxt # _ \<Rightarrow> (case prepare_upload_wave env n nxt c2 of (r, cx) \<Rightarrow> (Some r, cx))) = (pre, c3)"
    and absorbed: "absorb_results failed False rs (cx_outcome c3) = (failed', fatal, out)"
  shows "accounts records (c3\<lparr>cx_outcome := out\<rparr>) \<and> prefetch_planned records (cx_events c3) pre rest \<and>
    set (uo_addresses (cx_outcome cx)) \<subseteq> set (uo_addresses out) \<and>
    (failed' = [] \<longrightarrow> failed = [] \<and> \<not> fatal \<and> ur_address ` set wave \<subseteq> set (uo_addresses out))"
proof -
  note c1 = pay_wave_accounts [OF contract acc planned paid]
  have c2: "silent c1 c2" by (rule silentsD [OF silents_store_wave stored])
  note once = store_wave_once [OF contract planned wave stored]
  have c3: "silent c2 c3"
    using pre silentsD [OF silents_prepare_wave] by (auto split: list.splits prod.splits)
  have acc3: "accounts records c3" using silent_accounts [OF _ silent_trans [OF c2 c3]] c1 by blast
  have "\<forall>(a, res) \<in> set rs. stored_once records (cx_events c3) a res"
    using once c3 confirmed_mono by (fastforce simp: stored_once_def silent_def)
  note absorb = absorb_accounts [OF acc3 this absorbed]
  have "prefetch_planned records (cx_events c3) pre rest"
    using pre prepare_wave_planned [OF contract, of n _ c2 _ c3 records] rest
      accountsD(5) [OF silent_accounts [OF conjunct1 [OF c1] c2]]
    by (auto simp: prefetch_planned_def split: list.splits prod.splits)
  moreover have "ur_address ` set wave \<subseteq> set (uo_addresses out)" if "failed' = []"
  proof
    fix a assume "a \<in> ur_address ` set wave"
    then have "a \<in> ur_address ` fst ` set plans" using planned by (simp add: wave_planned_def)
    then obtain r plan where r: "(r, plan) \<in> set plans" "a = ur_address r" by auto
    show "a \<in> set (uo_addresses out)"
    proof (cases plan)
      case None
      then have "a \<in> set (uo_addresses (cx_outcome c1))" using r c1 by auto
      then show ?thesis using c2 c3 absorb by (auto simp: silent_def)
    next
      case (Some p)
      then have "a \<in> fst ` set rs" using once r by auto
      then show ?thesis using absorb that by auto
    qed
  qed
  moreover have "set (uo_addresses (cx_outcome cx)) \<subseteq> set (uo_addresses (cx_outcome c3))"
    using c1 c2 c3 by (auto simp: silent_def)
  ultimately show ?thesis using absorb by auto
qed

lemma waves_accounts:
  assumes "adapter_contract env" and "accounts records cx" and "\<forall>w \<in> set waves. set w \<subseteq> set records"
    and "prefetch_planned records (cx_events cx) pre waves"
    and "upload_waves env n pre failed waves cx = (r, cx')"
  shows "accounts records cx' \<and> set (uo_addresses (cx_outcome cx)) \<subseteq> set (uo_addresses (cx_outcome cx')) \<and>
    (r = Inr [] \<longrightarrow> failed = [] \<and> (\<forall>w \<in> set waves. ur_address ` set w \<subseteq> set (uo_addresses (cx_outcome cx'))))"
  using assms(2-)
proof (induction waves arbitrary: pre failed cx)
  case (Cons wave rest)
  let ?prep = "case pre of Some plans \<Rightarrow> lift_result plans | None \<Rightarrow> prepare_upload_wave env n wave"
  have prep: "silents ?prep" using silents_prepare_wave by (auto simp: silents_def lift_result_def split: option.split)
  obtain q c0 where q: "?prep cx = (q, c0)" by fastforce
  have c0: "silent cx c0" by (rule silentsD [OF prep q])
  have acc0: "accounts records c0" by (rule silent_accounts [OF Cons.prems(1) c0])
  show ?case
  proof (cases q)
    case (Inl e)
    then show ?thesis using Cons.prems(4) q acc0 c0 by (auto simp: bind_op_def silent_def)
  next
    case (Inr plans)
    have planned: "wave_planned records (cx_events c0) wave plans"
    proof (cases pre)
      case None
      then show ?thesis using q Inr prepare_wave_planned [OF assms(1), of n wave cx plans c0 records] Cons.prems(1,2)
        by (auto simp: accounts_def)
    next
      case (Some p)
      then show ?thesis using q Inr Cons.prems(3) by (auto simp: lift_result_def prefetch_planned_def)
    qed
    obtain u c1 where paid: "pay_wave env plans c0 = (u, c1)" by fastforce
    note c1 = pay_wave_accounts [OF assms(1) acc0 planned paid]
    show ?thesis
    proof (cases u)
      case (Inl e)
      then show ?thesis using Cons.prems(4) q Inr paid c1 c0 by (auto simp: bind_op_def silent_def)
    next
      case u: (Inr v)
      obtain rs c2 where stored: "store_wave env n wave plans c1 = (rs, c2)" by fastforce
      obtain pre' c3 where fetched: "(case rest of [] \<Rightarrow> (None, c2)
          | nxt # _ \<Rightarrow> (case prepare_upload_wave env n nxt c2 of (r, cx) \<Rightarrow> (Some r, cx))) = (pre', c3)" by fastforce
      obtain failed' fatal out where absorbed: "absorb_results failed False rs (cx_outcome c3) = (failed', fatal, out)"
        by (metis prod_cases3)
      have step: "accounts records (c3\<lparr>cx_outcome := out\<rparr>) \<and> prefetch_planned records (cx_events c3) pre' rest \<and>
          set (uo_addresses (cx_outcome c0)) \<subseteq> set (uo_addresses out) \<and>
          (failed' = [] \<longrightarrow> failed = [] \<and> \<not> fatal \<and> ur_address ` set wave \<subseteq> set (uo_addresses out))"
        by (rule wave_step_accounts [OF assms(1) acc0 _ planned _ _ stored fetched absorbed])
          (use Cons.prems(2) paid u in simp_all)
      have run: "upload_waves env n pre failed (wave # rest) cx =
          (if fatal then (Inr failed', c3\<lparr>cx_outcome := out\<rparr>)
           else upload_waves env n pre' failed' rest (c3\<lparr>cx_outcome := out\<rparr>))"
        by (simp add: bind_op_def q Inr paid u stored fetched absorbed Let_def)
      show ?thesis
      proof (cases fatal)
        case True
        then show ?thesis using Cons.prems(4) step c0 unfolding run by (auto simp: silent_def)
      next
        case False
        then have "upload_waves env n pre' failed' rest (c3\<lparr>cx_outcome := out\<rparr>) = (r, cx')"
          using Cons.prems(4) unfolding run by simp
        from Cons.IH [OF _ _ _ this] step Cons.prems(2) c0 show ?thesis by (auto simp: silent_def)
      qed
    qed
  qed
qed auto

section \<open>Errors of the environment\<close>

text \<open>
  Only the coordinator itself reports a partial upload: the operations it calls fail with other
  errors, and so do its own steps until it books what was spent.
\<close>

definition plain_result :: "(error, 'a) result \<Rightarrow> bool" where
  "plain_result r \<longleftrightarrow> (\<forall>e. r = Inl e \<longrightarrow> \<not> is_partial e)"

definition plain :: "('s, error, 'a) op \<Rightarrow> bool" where
  "plain m \<longleftrightarrow> (\<forall>s. plain_result (fst (m s)))"

named_theorems plain_rules "operations that do not report a partial upload"

lemma plain_result_simps [simp]:
  "plain_result (Inr x)" "plain_result (Inl e) \<longleftrightarrow> \<not> is_partial e"
  "plain_result (ok_or v e) \<longleftrightarrow> v \<noteq> None \<or> \<not> is_partial e"
  by (auto simp: plain_result_def results ok_or_def split: option.splits)

lemma plain_result_bind [plain_rules]:
  "plain_result r \<Longrightarrow> (\<And>x. plain_result (k x)) \<Longrightarrow> plain_result (bind_result r k)"
  by (auto simp: plain_result_def results)

lemma plain_result_collect [plain_rules]: "(\<And>x. plain_result (f x)) \<Longrightarrow> plain_result (collect_result f xs)"
  by (auto simp: plain_result_def dest!: collect_result_Inl)

lemma plainI: "(\<And>s e s'. m s = (Inl e, s') \<Longrightarrow> \<not> is_partial e) \<Longrightarrow> plain m"
  unfolding plain_def plain_result_def by (metis prod.collapse)

lemma plainD: "plain m \<Longrightarrow> m s = (Inl e, s') \<Longrightarrow> \<not> is_partial e"
  unfolding plain_def plain_result_def by (metis fst_conv)

lemma plain_bind [plain_rules]: "plain m \<Longrightarrow> (\<And>x. plain (f x)) \<Longrightarrow> plain (bind_op m f)"
  by (rule plainI) (meson bind_op_InlD plainD)

lemma plain_basic [plain_rules]:
  "plain (ok_op x)" "\<not> is_partial e \<Longrightarrow> plain (err_op e)" "plain_result r \<Longrightarrow> plain (lift_result r)"
  "plain (\<lambda>cx. (Inr (q cx), cx))" "plain (notify ev)"
  by (simp_all add: plain_def lift_result_def notify_def)

lemma plain_if [plain_rules]: "plain f \<Longrightarrow> plain g \<Longrightarrow> plain (if b then f else g)"
  by simp

lemma plain_option [plain_rules]:
  "plain f \<Longrightarrow> (\<And>x. plain (g x)) \<Longrightarrow> plain (case v of None \<Rightarrow> f | Some x \<Rightarrow> g x)"
  by (cases v) simp_all

lemma plain_read: "(\<And>c. plain (m c)) \<Longrightarrow> plain (\<lambda>cx. m cx cx)"
  by (simp add: plain_def)

lemma plain_world: "plain f \<Longrightarrow> plain (on_world f)"
  by (simp add: plain_def on_world_def split: prod.split) (metis fst_conv)

lemma plain_state: "(\<And>st. plain_result (fst (f st))) \<Longrightarrow> plain (on_state f)"
  by (simp add: plain_def on_state_def split: prod.split) (metis fst_conv)

definition plain_call :: "('p, 't, 'm, 'j, 'w, 'a) adapter_call \<Rightarrow> bool" where
  "plain_call f \<longleftrightarrow> (\<forall>st w. plain_result (fst (f st w)))"

lemma plain_adapter [plain_rules]: "plain_call f \<Longrightarrow> plain (on_adapter f)"
  by (simp add: plain_def plain_call_def on_adapter_def split: prod.split) (metis fst_conv)

definition error_contract :: "('c, 't, 'ap, 'm, 'p, 'j, 'w) upload_env \<Rightarrow> bool" where
  "error_contract env \<longleftrightarrow>
     (\<forall>r. plain (ue_load env r)) \<and>
     (\<forall>plans. plain_call (ue_submit_payment env plans) \<and> plain_call (ue_reconcile_payment env plans)) \<and>
     (\<forall>batch. plain_call (ue_submit_merkle env batch) \<and> plain_call (ue_reconcile_merkle env batch)) \<and>
     (\<forall>plan. plain (ue_admit env plan)) \<and> (\<forall>st p. plain (ue_checkpoint env st p)) \<and>
     (\<forall>a b n k. plain (ue_quote_plan env a b n k)) \<and> (\<forall>a. plain (ue_put_target_peers env a)) \<and>
     (\<forall>a n. plain (ue_tolerant_quotes env a n)) \<and>
     (\<forall>ms t w. \<forall>r \<in> set (fst (gather_pools (ue_pay env) ms t w)). plain_result r)"

lemma plain_env [plain_rules]:
  assumes "error_contract env"
  shows "plain (on_world (ue_load env r))" "plain_call (ue_submit_payment env plans)"
    "plain_call (ue_reconcile_payment env plans)" "plain_call (ue_submit_merkle env batch)"
    "plain_call (ue_reconcile_merkle env batch)" "plain (on_world (ue_admit env plan))"
    "plain (on_world (ue_put_target_peers env a))"
  using assms by (auto simp: error_contract_def intro!: plain_world)

lemma plain_checkpoint [plain_rules]: "error_contract env \<Longrightarrow> plain (checkpoint env p)"
  unfolding checkpoint_def error_contract_def by (rule plainI) (meson plainD plain_world)

lemma plain_ensure [plain_rules]: "plain (ensure_upload_payment_allowed env)"
  by (auto simp: plain_def ensure_upload_payment_allowed_def)

lemma plain_preflight:
  assumes "error_contract env"
  shows "plain (preflight env records)"
proof (induction records)
  case (Cons r rs)
  have "plain_result (record_verify api a content)" for api a content by (simp add: record_verify_def)
  then show ?case unfolding preflight.simps by (intro plain_rules assms Cons) simp
qed (simp add: plain_rules)

lemma plain_states [plain_rules]:
  "plain (on_state (start_payment merkle as))"
  "plain (on_state (\<lambda>st. (Inr (), g st)))"
  by (rule plain_state, simp add: start_payment_def)+

lemma plain_proof [plain_rules]: "plain_result (build_plan_proof api plan txs)"
  unfolding build_plan_proof_def collect_tx_hashes_def by (intro plain_rules) simp_all

lemma plain_new_proof: "plain_result (new_proof api txs st a)"
  unfolding new_proof_def by (intro plain_rules) simp_all

lemma plain_confirm_result: "plain_result (fst (confirm api as txs t st))"
  using plain_result_collect [of "new_proof api txs st" "filter (\<lambda>a. \<not> is_paid api st a t) as", OF plain_new_proof]
  by (auto simp: confirm_def plain_result_def Let_def split: sum.split)

lemma plain_confirm [plain_rules]: "plain (\<lambda>cx. on_state (confirm api as txs (now env cx)) cx)"
  by (rule plain_read, rule plain_state, rule plain_confirm_result)

lemma plain_begin [plain_rules]:
  assumes "error_contract env"
  shows "plain (begin_payment env merkle as)"
proof -
  have "plain (\<lambda>cx. case ensure_upload_payment_allowed env cx of
      (Inr _, cx) \<Rightarrow> (Inr (), cx)
    | (Inl e, cx) \<Rightarrow> bind_op (checkpoint env None) (\<lambda>_. err_op e) (cx\<lparr>cx_state := drop_attempt (cx_state cx)\<rparr>))"
    by (rule plainI) (auto simp: ensure_upload_payment_allowed_def dest!: bind_op_InlD
        dest: plainD [OF plain_checkpoint [OF assms]] split: if_splits)
  then show ?thesis unfolding begin_payment_def by (intro plain_rules assms)
qed

lemma plain_finalize [plain_rules]: "plain_result (finalize_merkle_batch api b winner)"
proof -
  have "plain_result (finalize_loop api tree w proofs xs)" for tree w proofs xs
  proof (induction xs arbitrary: proofs)
    case (Cons x xs)
    then show ?case by (cases x) (auto intro!: plain_rules)
  qed simp
  then show ?thesis unfolding finalize_merkle_batch_def by (intro plain_rules) simp_all
qed

lemma plain_totals [plain_rules]:
  "plain_result (plans_total acc plans)" "plain_result (validate_payment_total plans payment)"
  "plain_result (pending_plans st)"
proof -
  show totals: "plain_result (plans_total acc plans)" for acc by (induction plans arbitrary: acc) simp_all
  show "plain_result (validate_payment_total plans payment)"
    unfolding validate_payment_total_def by (intro plain_rules totals) simp
  show "plain_result (pending_plans st)"
    unfolding pending_plans_def by (auto split: option.split intro!: plain_rules)
qed

lemma plain_reconcile:
  assumes "error_contract env"
  shows "plain (reconcile_upload_payment env)"
proof -
  have "plain_result (fst (reconcile_upload_payment env cx))" for cx
  proof (cases "us_pending_payment (cx_state cx)")
    case (Some attempt)
    show ?thesis
      unfolding reconcile_upload_payment_def Some option.case
      by (rule plain_def [THEN iffD1, rule_format]) (intro plain_rules assms; simp)
  qed (simp add: reconcile_upload_payment_def)
  then show ?thesis by (simp add: plain_def)
qed

lemma plain_save_receipt [plain_rules]: "error_contract env \<Longrightarrow> plain (save_receipt env checked mode payment)"
  by (rule plainI) (auto simp: save_receipt_def Let_def dest: plainD [OF plain_checkpoint] split: if_splits)

lemma plain_settle [plain_rules]: "error_contract env \<Longrightarrow> plain (settle_merkle env checked)"
  unfolding settle_merkle_def by (rule plain_read) (intro plain_rules; simp)

lemma plain_pools:
  assumes "\<forall>r \<in> set rs. plain_result r"
  shows "plain_result (build_candidate_pools rs)"
proof -
  define es where "es = [e. Inl e \<leftarrow> rs]"
  have "\<not> is_partial e" if "e \<in> set es" for e
    using assms that by (auto simp: es_def split: sum.splits)
  then show ?thesis unfolding build_candidate_pools_eq es_def [symmetric] Let_def
    by (cases es) (simp_all add: plain_result_def)
qed

lemma plain_prepare_batch:
  assumes "error_contract env"
  shows "plain (prepare_merkle_batch_external_observed api (ue_pay env) addresses)"
proof -
  have gather: "plain_result (bind_result (build_candidate_pools results)
      (\<lambda>pools. bind_result (collect_result (pool_commitment_with_payment_multiplier api) pools) (\<lambda>cs. Inr (f pools cs))))"
    if "gather_pools (ue_pay env) ms t w = (results, w')" for ms t w results w' f
  proof (intro plain_rules plain_pools)
    show "\<forall>r \<in> set results. plain_result r" using assms that unfolding error_contract_def by (metis fst_conv)
    show "plain_result (pool_commitment_with_payment_multiplier api p)" for p
      unfolding pool_commitment_with_payment_multiplier_def Let_def
      by (intro plain_rules) (auto split: prod.split)
  qed simp
  show ?thesis
    by (rule plainI) (auto simp: prepare_merkle_batch_external_observed_def lift_result_def ok_or_def
        ensure_single_merkle_tree_batch_def dest!: bind_op_InlD
        dest: gather [unfolded plain_result_def, rule_format] split: if_splits prod.splits option.splits)
qed

lemma plain_merkle_batches:
  assumes "error_contract env"
  shows "plain (merkle_batches env mode batches)"
proof (induction batches)
  case (Cons as batches)
  have rest: "plain (bind_op (on_state (\<lambda>st. (Inr (), st\<lparr>us_pending_merkle := Some batch\<rparr>)))
            (\<lambda>_. bind_op (checkpoint env None)
            (\<lambda>_. bind_op (begin_payment env True [])
            (\<lambda>_. bind_op (settle_merkle env True)
            (\<lambda>_. merkle_batches env mode batches)))))" for batch
    by (intro plain_rules assms Cons)
  show ?case
    by (rule plainI) (auto dest: plainD [OF rest] plainD [OF plain_world [OF plain_prepare_batch [OF assms]]]
        split: prod.splits sum.splits if_splits)
qed (simp add: plain_def)

lemma plain_probe:
  assumes "error_contract env"
  shows "plain (probe_record env entry)"
proof -
  have "plain (chunk_already_stored_for_merkle env a n)" for a n
  proof (rule plainI)
    fix w e w' assume "chunk_already_stored_for_merkle env a n w = (Inl e, w')"
    moreover have "plain (ue_tolerant_quotes env a n)" using assms by (simp add: error_contract_def)
    ultimately show "\<not> is_partial e"
      by (auto simp: chunk_already_stored_for_merkle_def preflight_stored_status_def dest: plainD
          split: prod.splits sum.splits if_splits)
  qed
  note probed = plainD [OF plain_world [OF this]]
  show ?thesis unfolding probe_record_def
    by (rule plainI) (auto simp: bind_op_def notify_def dest: probed split: prod.splits sum.splits option.splits if_splits)
qed

lemma plain_plan_merkle:
  assumes "error_contract env"
  shows "plain (plan_merkle_upload env unpaid)"
proof (rule plainI)
  fix cx e cx' assume run: "plan_merkle_upload env unpaid cx = (Inl e, cx')"
  have loop: "\<not> is_partial e" if "check_loop al pe cs = Inl e" "\<forall>(i, a, n, r) \<in> set cs. plain_result r" for al pe cs
    using that by (induction al pe cs rule: check_loop.induct) (auto simp: results split: if_splits)
  define entries where "entries = enumerate 0 (map (\<lambda>r. (ur_address r, ur_size r)) unpaid)"
  let ?cap = "\<lambda>_. min (ue_quote_cap env (cx_world cx)) (max (length entries) 1)"
  let ?pick = "\<lambda>fl cx. ue_pick env (map (fst \<circ> snd) fl) (cx_world cx)"
  obtain completed where rolled: "rolling_until isl (Inl Cancelled) ?pick (probe_record env) entries ?cap cx = (completed, cx')"
    and obs: "plan_merkle_upload_observed (map (\<lambda>((i, a, n), r). (i, a, n, r)) completed) = Inl e"
    using run by (auto simp: plan_merkle_upload_def Let_def entries_def split: prod.splits)
  have step: "True \<and> plain_result r" if "probe_record env entry s = (r, s')" for entry s r s'
    using plain_probe [OF assms] that unfolding plain_def by (metis fst_conv)
  have "\<forall>(entry, r) \<in> set completed. r = Inl Cancelled \<or> plain_result r"
    using rolling_until_spec [of _ _ _ "probe_record env" _ _ _ _ _ "\<lambda>_. True" "\<lambda>_ r _. plain_result r", OF rolled step] by simp
  then have "\<forall>(i, a, n, r) \<in> set (map (\<lambda>((i, a, n), r). (i, a, n, r)) completed). plain_result r" by fastforce
  moreover have "check_loop [] [] (map (\<lambda>((i, a, n), r). (i, a, n, r)) completed) = Inl e"
    using obs by (auto simp: plan_merkle_upload_observed_def bind_result_Inl_iff Let_def split: if_splits)
  ultimately show "\<not> is_partial e" using loop by blast
qed

lemma plain_prepare_merkle:
  assumes "error_contract env"
  shows "plain (prepare_upload_merkle env mode)"
proof -
  have "plain (bind_op (begin_payment env True []) (\<lambda>_. settle_merkle env False))" by (intro plain_rules assms)
  then have "plain (pay_restored_batch env)"
    by (intro plainI) (auto simp: pay_restored_batch_def dest: plainD split: option.splits if_splits)
  moreover have "plain (pay_unpaid_merkle env mode)"
    by (rule plainI) (auto simp: pay_unpaid_merkle_def Let_def dest: plainD [OF plain_plan_merkle [OF assms]]
        plainD [OF plain_merkle_batches [OF assms]] split: prod.splits sum.splits if_splits)
  ultimately have "plain (bind_op (pay_restored_batch env) (\<lambda>_. pay_unpaid_merkle env mode))" by (intro plain_rules)
  from plainD [OF this] show ?thesis by (intro plainI) (simp add: prepare_upload_merkle_def)
qed

lemma plain_prepare_record:
  assumes "error_contract env"
  shows "plain (prepare_record env n r)"
proof -
  have "plain (prepare_chunk_payment_plan api (ue_quote_plan env) a sz)" for api a sz
  proof (rule plainI)
    fix w e w' assume "prepare_chunk_payment_plan api (ue_quote_plan env) a sz w = (Inl e, w')"
    moreover have "plain (ue_quote_plan env a a sz k)" for k using assms by (simp add: error_contract_def)
    ultimately show "\<not> is_partial e"
      by (auto simp: prepare_chunk_payment_plan_def payment_plan_from_quotes_def from_quotes_def results dest: plainD
          split: prod.splits sum.splits if_splits)
  qed
  note quoted = plainD [OF plain_world [OF this]]
  have "plain (plan_record env r)"
    by (rule plainI) (auto simp: plan_record_def Let_def dest!: bind_op_InlD dest: quoted plainD [OF plain_env(7) [OF assms]]
        split: if_splits option.splits)
  then show ?thesis unfolding prepare_record_def by (intro plain_rules assms)
qed

lemma plain_prepare_wave:
  assumes "error_contract env"
  shows "plain (prepare_upload_wave env n wave)"
proof (rule plainI)
  fix cx e cx' assume run: "prepare_upload_wave env n wave cx = (Inl e, cx')"
  let ?pick = "\<lambda>fl cx. ue_pick env (map ur_address fl) (cx_world cx)"
  let ?cap = "\<lambda>cx. min (ue_quote_cap env (cx_world cx)) (ue_quote_limit env)"
  obtain completed where rolled: "rolling_until (\<lambda>_. False) (Inl Cancelled) ?pick (prepare_record env n) wave ?cap cx = (completed, cx')"
    and err: "collect_result snd completed = Inl e"
    using run by (auto simp: prepare_upload_wave_def results split: prod.splits)
  have step: "True \<and> plain_result r" if "prepare_record env n i s = (r, s')" for i s r s'
    using plain_prepare_record [OF assms] that unfolding plain_def by (metis fst_conv)
  have "\<forall>(i, r) \<in> set completed. r = Inl Cancelled \<or> plain_result r"
    using rolling_until_spec [of _ _ _ "prepare_record env n" _ _ _ _ _ "\<lambda>_. True" "\<lambda>_ r _. plain_result r", OF rolled step] by simp
  with collect_result_Inl [OF err] show "\<not> is_partial e" by fastforce
qed

lemma plain_pay_wave:
  assumes "error_contract env"
  shows "plain (pay_wave env plans)"
proof -
  have "plain (bind_op (checkpoint env None)
            (\<lambda>_. bind_op
               (if payable = [] then ok_op \<lparr>up_transactions = Map.empty, up_amount = 0, up_gas = 0\<rparr>
                else bind_op (begin_payment env False (map cp_address payable))
                       (\<lambda>_. on_adapter (ue_submit_payment env payable)))
            (\<lambda>payment. bind_op (lift_result (validate_payment_total payable payment))
            (\<lambda>_. bind_op (\<lambda>cx. on_state (confirm (ue_api env) (List.map_filter (map_option cp_address \<circ> snd) plans)
                                           (up_transactions payment) (now env cx)) cx)
            (\<lambda>_. save_receipt env True None payment)))))" for payable
    by (intro plain_rules assms)
  from plainD [OF this] show ?thesis by (intro plainI) (auto simp: pay_wave_def split: prod.splits)
qed

lemma plain_waves:
  assumes "error_contract env" and "\<forall>e. pre = Some (Inl e) \<longrightarrow> \<not> is_partial e"
    and "upload_waves env n pre failed waves cx = (Inl e, cx')"
  shows "\<not> is_partial e"
  using assms(2,3)
proof (induction waves arbitrary: pre failed cx)
  case (Cons wave rest)
  let ?prep = "case pre of Some plans \<Rightarrow> lift_result plans | None \<Rightarrow> prepare_upload_wave env n wave"
  have "plain ?prep"
    using Cons.prems(1) plain_prepare_wave [OF assms(1)]
    by (auto simp: plain_def lift_result_def plain_result_def split: option.splits)
  note prep = plainD [OF this]
  obtain q c0 where q: "?prep cx = (q, c0)" by fastforce
  show ?case
  proof (cases q)
    case (Inl e')
    then show ?thesis using Cons.prems(2) q prep by (auto simp: bind_op_def)
  next
    case (Inr plans)
    obtain u c1 where paid: "pay_wave env plans c0 = (u, c1)" by fastforce
    show ?thesis
    proof (cases u)
      case (Inl e')
      then show ?thesis using Cons.prems(2) q Inr paid plainD [OF plain_pay_wave [OF assms(1)]] by (auto simp: bind_op_def)
    next
      case u: (Inr v)
      obtain rs c2 where stored: "store_wave env n wave plans c1 = (rs, c2)" by fastforce
      obtain pre' c3 where fetched: "(case rest of [] \<Rightarrow> (None, c2)
          | nxt # _ \<Rightarrow> (case prepare_upload_wave env n nxt c2 of (r, cx) \<Rightarrow> (Some r, cx))) = (pre', c3)" by fastforce
      obtain failed' fatal out where absorbed: "absorb_results failed False rs (cx_outcome c3) = (failed', fatal, out)"
        by (metis prod_cases3)
      have "\<forall>e. pre' = Some (Inl e) \<longrightarrow> \<not> is_partial e"
        using fetched plainD [OF plain_prepare_wave [OF assms(1)]] by (auto split: list.splits prod.splits)
      then show ?thesis using Cons.IH [of pre' failed' "c3\<lparr>cx_outcome := out\<rparr>"] Cons.prems(2)
        by (auto simp: bind_op_def q Inr paid u stored fetched absorbed Let_def split: if_splits)
    qed
  qed
qed simp

section \<open>Whole uploads\<close>

lemma concat_chunks_of: "0 < n \<Longrightarrow> concat (chunks_of n xs) = xs"
proof (induction n xs rule: chunks_of.induct)
  case (1 n xs)
  then show ?case by (subst chunks_of.simps) auto
qed

lemma payment_and_storage_tells:
  assumes "payment_and_storage p q records out = Inl e" and "\<forall>e. q = Inl e \<longrightarrow> tells e out" and "plain_result p"
  shows "\<not> is_partial e \<or> tells e out"
proof (cases q)
  case (Inl e')
  with assms(2) have "tells e' out" by simp
  with Inl show ?thesis using assms(1) by (cases p; cases e') auto
next
  case (Inr u)
  then show ?thesis using assms(1,3) by (cases p) auto
qed

lemma inner_accounts:
  assumes "adapter_contract env" and "error_contract env" and "accounts records cx" and "uo_amount (cx_outcome cx) = 0"
    and "upload_unique_records_inner env mode records cx = (r, cx')"
  shows "accounts records cx' \<and> (\<forall>e. r = Inl e \<longrightarrow> \<not> is_partial e \<or> tells e (cx_outcome cx')) \<and>
    (\<forall>out. r = Inr out \<longrightarrow> out = cx_outcome cx' \<and> ur_address ` set records \<subseteq> set (uo_addresses out))"
proof -
  obtain q0 c0 where pre: "preflight env records cx = (q0, c0)" by fastforce
  have c0: "silent cx c0" by (rule silentsD [OF silents_preflight pre])
  have acc0: "accounts records c0" by (rule silent_accounts [OF assms(3) c0])
  obtain q1 c1 where rec: "reconcile_upload_payment env c0 = (q1, c1)" by fastforce
  have c1: "silent c0 c1" by (rule silentsD [OF silents_reconcile [OF assms(1)] rec])
  have acc1: "accounts records c1" "uo_amount (cx_outcome c1) = 0"
    using silent_accounts [OF acc0 c1] assms(4) c0 c1 by (simp_all add: silent_def)
  obtain p c2 where prep: "bind_op (reconcile_upload_payment env) (\<lambda>_. prepare_upload_merkle env mode) c0 = (p, c2)" by fastforce
  have acc2: "accounts records c2"
    using prep rec acc1 prepare_merkle_accounts [OF assms(1) acc1, of mode] by (cases q1) (auto simp: bind_op_def)
  have "plain (bind_op (reconcile_upload_payment env) (\<lambda>_. prepare_upload_merkle env mode))"
    by (intro plain_rules plain_reconcile plain_prepare_merkle assms(2))
  then have plain2: "plain_result p" using prep unfolding plain_def by (metis fst_conv)
  obtain q3 c3 where storage: "store_upload_merkle env (length records) c2 = (q3, c3)" by fastforce
  note c3 = store_upload_merkle_accounts [OF assms(1) acc2 storage]
  obtain q4 c4 where waves: "upload_waves env (length records) None [] (chunks_of PAYMENT_WAVE_SIZE (cx_records c3)) c3 = (q4, c4)"
    by fastforce
  have "concat (chunks_of PAYMENT_WAVE_SIZE (cx_records c3)) = cx_records c3"
    by (rule concat_chunks_of) (simp add: PAYMENT_WAVE_SIZE_def)
  then have all: "set (cx_records c3) = (\<Union>w \<in> set (chunks_of PAYMENT_WAVE_SIZE (cx_records c3)). set w)"
    by (metis set_concat)
  have "accounts records c4 \<and> set (uo_addresses (cx_outcome c3)) \<subseteq> set (uo_addresses (cx_outcome c4)) \<and>
      (q4 = Inr [] \<longrightarrow> [] = ([] :: key list) \<and>
        (\<forall>w \<in> set (chunks_of PAYMENT_WAVE_SIZE (cx_records c3)). ur_address ` set w \<subseteq> set (uo_addresses (cx_outcome c4))))"
  proof (rule waves_accounts [OF assms(1) conjunct1 [OF c3] _ _ waves])
    have "set (cx_records c3) \<subseteq> set records" using accountsD(3) [OF conjunct1 [OF c3]] .
    then show "\<forall>w \<in> set (chunks_of PAYMENT_WAVE_SIZE (cx_records c3)). set w \<subseteq> set records"
      using all by blast
  qed (simp add: prefetch_planned_def)
  note c4 = this
  have finished: "ur_address ` set records \<subseteq> set (uo_addresses (cx_outcome c4))" if "q4 = Inr []"
  proof -
    have "ur_address ` set (cx_records c3) \<subseteq> set (uo_addresses (cx_outcome c4))"
      unfolding all image_UN using c4 that by blast
    then have "set (uo_addresses (cx_outcome c3)) \<union> ur_address ` set (cx_records c3) \<subseteq> set (uo_addresses (cx_outcome c4))"
      using c4 by simp
    with accountsD(4) [OF conjunct1 [OF c3]] show ?thesis by (rule order_trans)
  qed
  have wave_error: "\<not> is_partial e" if "q4 = Inl e" for e using plain_waves [OF assms(2) _ waves [unfolded that]] by simp
  have first: "\<not> is_partial e" if "q0 = Inl e" for e using plainD [OF plain_preflight [OF assms(2)] pre [unfolded that]] .
  have run: "(r, cx') = (case q0 of Inl e \<Rightarrow> (Inl e, c0) | Inr _ \<Rightarrow>
      if p = Inl InvalidData then (Inl InvalidData, c2)
      else (case payment_and_storage p q3 records (cx_outcome c3) of Inl e \<Rightarrow> (Inl e, c3) | Inr _ \<Rightarrow>
        (case q4 of Inl e \<Rightarrow> (Inl e, c4) | Inr failed \<Rightarrow>
           if failed \<noteq> [] then
             (Inl (PartialUpload (uo_addresses (cx_outcome c4)) (length (uo_addresses (cx_outcome c4))) failed (length failed)
                     (length records) (uo_amount (cx_outcome c4), uo_gas (cx_outcome c4)) None), c4)
           else (Inr (cx_outcome c4), c4))))"
    unfolding assms(5) [symmetric] upload_unique_records_inner_def
    by (simp add: bind_op_def lift_result_def Let_def pre prep [unfolded bind_op_def] storage waves split: sum.split)
  note tells = payment_and_storage_tells [OF _ conjunct2 [OF c3] plain2]
  show ?thesis
  proof (cases q0)
    case (Inl e)
    then show ?thesis using run acc0 first by simp
  next
    case q0: (Inr u)
    show ?thesis
    proof (cases "p = Inl InvalidData")
      case True
      then show ?thesis using run q0 acc2 by simp
    next
      case False
      show ?thesis
      proof (cases "payment_and_storage p q3 records (cx_outcome c3)")
        case (Inl e)
        then show ?thesis using run q0 False conjunct1 [OF c3] tells [OF Inl] by simp
      next
        case settled: (Inr v)
        show ?thesis
        proof (cases q4)
          case (Inl e)
          then show ?thesis using run q0 False settled conjunct1 [OF c4] wave_error [OF Inl] by simp
        next
          case (Inr failed)
          then show ?thesis using run q0 False settled conjunct1 [OF c4] finished by (cases failed) simp_all
        qed
      qed
    qed
  qed
qed

lemma unique_records_ok:
  assumes "unique_records sizes acc rs = Inr out" and "dom (map_of sizes) = ur_address ` set acc"
  shows "set out \<subseteq> set acc \<union> set rs \<and> ur_address ` set out = ur_address ` set acc \<union> ur_address ` set rs"
  using assms
proof (induction sizes acc rs rule: unique_records.induct)
  case (2 sizes acc r rs)
  show ?case
  proof (cases "map_of sizes (ur_address r)")
    case None
    then have "unique_records ((ur_address r, ur_size r) # sizes) (acc @ [r]) rs = Inr out" using 2(3) by simp
    moreover have "dom (map_of ((ur_address r, ur_size r) # sizes)) = ur_address ` set (acc @ [r])" using 2(4) by auto
    ultimately have "set out \<subseteq> set (acc @ [r]) \<union> set rs \<and>
        ur_address ` set out = ur_address ` set (acc @ [r]) \<union> ur_address ` set rs" by (rule 2(1) [OF None])
    then show ?thesis by auto
  next
    case (Some sz)
    then have "ur_address r \<in> ur_address ` set acc" using 2(4) by blast
    then show ?thesis using 2 Some by (auto split: if_splits)
  qed
qed simp

lemma unique_records_error: "unique_records sizes acc rs = Inl e \<Longrightarrow> e = InvalidData"
  by (induction sizes acc rs rule: unique_records.induct) (auto split: option.splits if_splits)

lemma unique_accounts:
  assumes "adapter_contract env" and "error_contract env" and "filed (cx_state cx)" and "cx_events cx = []"
    and "upload_unique_records env mode records cx = (r, cx')"
  shows "accounts records cx' \<and>
    (\<forall>e. r = Inl e \<longrightarrow> (if is_partial e then tells e (cx_outcome cx')
        else uo_amount (cx_outcome cx') = 0 \<and> uo_gas (cx_outcome cx') = 0 \<and> uo_addresses (cx_outcome cx') = [])) \<and>
    (\<forall>out. r = Inr out \<longrightarrow> out = cx_outcome cx' \<and> ur_address ` set records \<subseteq> set (uo_addresses out))"
proof -
  let ?cx = "cx\<lparr>cx_records := records,
    cx_outcome := \<lparr>uo_addresses = [], uo_amount = 0, uo_gas = 0, uo_stats = no_stats, uo_mode = Single\<rparr>\<rparr>"
  obtain q where inner: "upload_unique_records_inner env mode records ?cx = (q, cx')"
    and r: "r = (case q of Inr out \<Rightarrow> Inr out | Inl e \<Rightarrow> Inl (after_spend e records (cx_outcome cx')))"
    using assms(5) by (auto simp: upload_unique_records_def split: prod.splits sum.splits)
  have "accounts records ?cx" using assms(3,4) by (simp add: accounts_def)
  note acc = inner_accounts [OF assms(1,2) this _ inner]
  have "tells (partial_upload records out cause) out" "is_partial (partial_upload records out cause)" for out cause
    by (simp_all add: partial_upload_def Let_def)
  then show ?thesis using acc by (auto simp: r after_spend_def split: sum.splits)
qed

lemma confirmed_records: "confirmed unique evs a \<Longrightarrow> set unique \<subseteq> set records \<Longrightarrow> confirmed records evs a"
  by (auto simp: confirmed_def)

lemma filter_partition: "mset (filter P xs) + mset (filter (\<lambda>x. \<not> P x) xs) = mset xs"
  by (simp flip: multiset_partition)

text \<open>
  C2: A failed upload accounts for everything. Whatever the adapter, the network and the chain do, an upload
  that fails either reports a partial upload whose stored and failed lists divide the input records,
  whose stored records the adapter was told of, and whose spend is exactly the receipts handed to
  the checkpoint; or it reports another error, and no receipt with any spend was handed out.
\<close>

theorem failed_upload_accounts_for_everything:
  assumes "adapter_contract env" and "error_contract env" and "filed (cx_state cx)" and "cx_events cx = []"
    and "upload_records env mode records cx = (Inl e, cx')"
  shows "case e of
      PartialUpload stored stored_count failed failed_count n (spent, gas) cause \<Rightarrow>
        mset stored + mset failed = mset (map ur_address records) \<and> set stored \<inter> set failed = {} \<and>
        stored_count = length stored \<and> failed_count = length failed \<and> n = length records \<and>
        (\<forall>a \<in> set stored. confirmed records (cx_events cx') a) \<and>
        unat spent = sum_list (map (unat \<circ> fst) (receipts (cx_events cx'))) \<and>
        gas = min (sum_list (map snd (receipts (cx_events cx')))) u128_max
    | _ \<Rightarrow> (\<forall>(spent, gas) \<in> set (receipts (cx_events cx')). spent = 0 \<and> gas = 0)"
proof (cases "unique_records [] [] records")
  case (Inl e')
  then have "e' = InvalidData" by (rule unique_records_error)
  then show ?thesis using assms(4,5) Inl by (simp add: upload_records_def bind_op_def lift_result_def Let_def)
next
  case (Inr unique)
  have sub: "set unique \<subseteq> set records" using unique_records_ok [OF Inr] by simp
  obtain q c where run: "upload_unique_records env mode unique cx = (q, c)" by fastforce
  note acc = unique_accounts [OF assms(1-4) run]
  have c: "cx' = c" and "\<exists>e'. q = Inl e'"
    using assms(5) Inr run by (auto simp: upload_records_def bind_op_def lift_result_def Let_def split: sum.splits)
  then obtain e' where q: "q = Inl e'" by blast
  show ?thesis
  proof (cases "is_partial e'")
    case True
    then obtain stored sc failed fc n spent gas cause where e': "e' = PartialUpload stored sc failed fc n (spent, gas) cause"
      by (cases e') auto
    let ?in = "\<lambda>a. a \<in> set stored" and ?as = "map ur_address records"
    have e: "e = PartialUpload (filter ?in ?as) (length (filter ?in ?as)) (filter (\<lambda>a. \<not> ?in a) ?as)
        (length (filter (\<lambda>a. \<not> ?in a) ?as)) (length ?as) (spent, gas) cause"
      using assms(5) Inr run q e' by (simp add: upload_records_def bind_op_def lift_result_def Let_def)
    have tells: "stored = uo_addresses (cx_outcome c)" "spent = uo_amount (cx_outcome c)" "gas = uo_gas (cx_outcome c)"
      using acc q True e' by auto
    have "confirmed records (cx_events c) a" if "a \<in> set stored" for a
      using confirmed_records [OF accountsD(2) [OF conjunct1 [OF acc]] sub] that by (simp add: tells)
    moreover have "unat spent = sum_list (map (unat \<circ> fst) (receipts (cx_events c)))"
      "gas = min (sum_list (map snd (receipts (cx_events c)))) u128_max"
      using conjunct1 [OF acc] by (simp_all add: accounts_def tells)
    ultimately show ?thesis by (auto simp: e c filter_partition simp del: mset_map mset_filter)
  next
    case False
    then have zero: "uo_amount (cx_outcome c) = 0" "uo_gas (cx_outcome c) = 0" using acc q by auto
    have e: "e = e'" using assms(5) Inr run q False
      by (cases e') (auto simp: upload_records_def bind_op_def lift_result_def Let_def)
    have "sum_list (map (unat \<circ> fst) (receipts (cx_events c))) = 0" "sum_list (map snd (receipts (cx_events c))) = 0"
      using conjunct1 [OF acc] zero by (auto simp: accounts_def u128_max_def min_def split: if_splits)
    then have "\<forall>(spent, gas) \<in> set (receipts (cx_events c)). spent = 0 \<and> gas = 0"
      by (auto simp: unat_eq_0)
    then show ?thesis using False by (cases e') (auto simp: e c)
  qed
qed

text \<open>
  C3: A successful upload stored every record: it returns exactly the addresses of the input, in its
  order and with its repetitions, the adapter was told of each of them as stored or already
  present, and the spend it returns is the receipts handed to the checkpoint.
\<close>

theorem successful_upload_stored_every_record:
  assumes "adapter_contract env" and "error_contract env" and "filed (cx_state cx)" and "cx_events cx = []"
    and "upload_records env mode records cx = (Inr out, cx')"
  shows "uo_addresses out = map ur_address records \<and>
    (\<forall>r \<in> set records. confirmed records (cx_events cx') (ur_address r)) \<and>
    unat (uo_amount out) = sum_list (map (unat \<circ> fst) (receipts (cx_events cx'))) \<and>
    uo_gas out = min (sum_list (map snd (receipts (cx_events cx')))) u128_max"
proof -
  obtain unique where unique: "unique_records [] [] records = Inr unique"
    using assms(5) by (auto simp: upload_records_def bind_op_def lift_result_def Let_def split: sum.splits)
  then have sub: "set unique \<subseteq> set records" "ur_address ` set unique = ur_address ` set records"
    using unique_records_ok [OF unique] by simp_all
  obtain o1 where run: "upload_unique_records env mode unique cx = (Inr o1, cx')"
    and out: "out = o1\<lparr>uo_addresses := filter (\<lambda>a. a \<in> set (uo_addresses o1)) (map ur_address records)\<rparr>"
    using assms(5) unique by (auto simp: upload_records_def bind_op_def lift_result_def Let_def split: prod.splits sum.splits)
  note acc = unique_accounts [OF assms(1-4) run]
  then have o1: "o1 = cx_outcome cx'" "ur_address ` set records \<subseteq> set (uo_addresses o1)" using sub(2) by auto
  have "filter (\<lambda>a. a \<in> set (uo_addresses o1)) (map ur_address records) = map ur_address records"
    using o1(2) by (auto simp: filter_id_conv)
  moreover have "confirmed records (cx_events cx') (ur_address r)" if "r \<in> set records" for r
    using confirmed_records [OF accountsD(2) [OF conjunct1 [OF acc]] sub(1)] o1 that by blast
  ultimately show ?thesis using conjunct1 [OF acc] by (simp add: accounts_def out o1(1))
qed

text \<open>
  An environment in which a record is its own address, record two is already stored, record one has a
  retained plan, and the wallet pays or refuses.
\<close>

definition tiny_upload_env :: "bool \<Rightarrow> (unit, key list, key, key, nat, nat, nat) upload_env" where
  "tiny_upload_env pays =
     \<lparr>ue_api = tiny_upload_api, ue_pay = tiny_pay_env,
      ue_load = (\<lambda>r w. (Inr (ur_address r), w)),
      ue_submit_payment = (\<lambda>plans st w.
        (if pays then Inr \<lparr>up_transactions = (\<lambda>_. Some [7]), up_amount = 30, up_gas = 2\<rparr> else Inl Payment, st, w)),
      ue_reconcile_payment = (\<lambda>plans st w. (Inl Payment, st, w)),
      ue_submit_merkle = (\<lambda>batch st w. (Inl Payment, st, w)),
      ue_reconcile_merkle = (\<lambda>batch st w. (Inl Payment, st, w)),
      ue_initialize = (\<lambda>a. a), ue_admit = ok_op, ue_checkpoint = (\<lambda>_ _ w. (Inr (), w)),
      ue_quote_limit = 4, ue_now = (\<lambda>_. 0), ue_quote_cap = (\<lambda>_. 4), ue_store_cap = (\<lambda>_. 4),
      ue_quote_plan = (\<lambda>_ _ _ _. err_op AlreadyStored), ue_put_target_peers = (\<lambda>_. ok_op []),
      ue_chunk_put = (\<lambda>_ _ _. ok_op 1),
      ue_stores = (\<lambda>fl w. (0, Inr (pd_address (fl ! 0), 5), w)),
      ue_tolerant_quotes = (\<lambda>_ _. err_op AlreadyStored), ue_sleep = (\<lambda>_ w. w), ue_pick = (\<lambda>_ _. 0),
      ue_key_order = (\<lambda>ks _. ks)\<rparr>"

definition tiny_context :: "(nat, key list, key, nat, nat) upload_context" where
  "tiny_context =
     \<lparr>cx_state = empty_upload_state\<lparr>us_plans := [([1], tiny_plan [1])]\<rparr>, cx_records = [],
      cx_outcome = \<lparr>uo_addresses = [], uo_amount = 0, uo_gas = 0, uo_stats = no_stats, uo_mode = Single\<rparr>,
      cx_world = 0, cx_events = []\<rparr>"

definition tiny_records :: "staged_record list" where
  "tiny_records = [\<lparr>ur_address = [1], ur_size = 1, ur_index = 0\<rparr>, \<lparr>ur_address = [2], ur_size = 1, ur_index = 1\<rparr>,
     \<lparr>ur_address = [1], ur_size = 1, ur_index = 2\<rparr>]"

lemma tiny_contracts: "adapter_contract (tiny_upload_env pays)" "error_contract (tiny_upload_env pays)"
  "filed (cx_state tiny_context)" "cx_events tiny_context = []"
  by (auto simp: adapter_contract_def error_contract_def tiny_upload_env_def reports_own_address_def ok_op_def
      plain_def plain_call_def tiny_pay_env_def tiny_context_def filed_def tiny_plan_def empty_upload_state_def)

text \<open>When the first body launched always completes first, a run is a sequence.\<close>

fun in_sequence :: "('i \<Rightarrow> 's \<Rightarrow> 'r \<times> 's) \<Rightarrow> 'i list \<Rightarrow> 's \<Rightarrow> ('i \<times> 'r) list \<times> 's" where
  "in_sequence body [] s = ([], s)"
| "in_sequence body (i # is) s =
     (case body i s of (r, s) \<Rightarrow> (case in_sequence body is s of (out, s) \<Rightarrow> ((i, r) # out, s)))"

lemma rolling_in_sequence: "rolling_until (\<lambda>_. False) d (\<lambda>_ _. 0) body items cap s = in_sequence body items s"
proof -
  have "rolling_loop (until (\<lambda>_. False) d (\<lambda>_ _. 0) body) c items fl (s, False) =
      (fst (in_sequence body (fl @ items) s), snd (in_sequence body (fl @ items) s), False)" for c items fl s
  proof (induction "length items + length fl" arbitrary: items fl s rule: less_induct)
    case less
    define room where "room = max (c (s, False)) 1 - length fl"
    define launched where "launched = fl @ take room items"
    show ?case
    proof (cases launched)
      case Nil
      then have "items = [] \<and> fl = []" unfolding launched_def room_def by (rule rolling_idle)
      then show ?thesis by (simp add: rolling_done)
    next
      case (Cons x rest)
      obtain r s1 where body: "body x s = (r, s1)" by fastforce
      have nxt: "next_completion (until (\<lambda>_. False) d (\<lambda>_ _. 0) body) launched (s, False) = (x, r, rest, s1, False)"
        by (simp add: next_completion_def until_def Cons body)
      have all: "fl @ items = x # rest @ drop room items"
        using Cons by (metis launched_def append_Cons append_assoc append_take_drop_id)
      then have "length (drop room items) + length rest < length items + length fl"
        by (metis add.commute add_Suc_right length_Cons length_append lessI)
      note IH = less [OF this]
      have ne: "launched \<noteq> []" using Cons by simp
      show ?thesis
        unfolding rolling_step [of room c "(s, False)" fl launched, OF room_def launched_def ne nxt] all
        by (simp add: IH body split_beta)
    qed
  qed
  then show ?thesis by (simp add: rolling_until_def rolling_unordered_def split_beta)
qed

lemma rolling_single: "rolling_unordered world [x] cap s = (case world [x] s of (n, r, s') \<Rightarrow> ([(x, r)], s'))"
  by (simp add: rolling_unordered_def rolling_loop.simps next_completion_def split: prod.split)

lemmas tiny_eval = tiny_upload_env_def tiny_context_def tiny_records_def tiny_upload_api_def tiny_proof_api_def tiny_plan_def
  tiny_quote_def tiny_pay_env_def empty_upload_state_def
  upload_records_def upload_unique_records_def upload_unique_records_inner_def reconcile_upload_payment_def
  prepare_upload_merkle_def drop_stale_batch_def pay_restored_batch_def pay_unpaid_merkle_def should_use_merkle_def
  store_upload_merkle_def merkle_proved_def is_paid_def reusable_proof_def proof_is_safely_fresh_def SAFE_AGE_def nanos_def
  CACHED_PROOF_MAX_AGE_SECS_def CACHED_PROOF_SAFETY_MARGIN_SECS_def
  prepare_upload_wave_def prepare_record_def plan_record_def retained_plan_def prepare_chunk_payment_plan_def
  pay_wave_def begin_payment_def ensure_upload_payment_allowed_def start_payment_def with_attempt_def prepare_def
  validate_payment_total_def total_amount_def confirm_def new_proof_def build_plan_proof_def collect_tx_hashes_def
  extend_proofs_def save_receipt_def checkpoint_def on_world_def on_adapter_def on_state_def notify_def now_def
  store_wave_def store_record_def with_content_def reuse_prepared_def record_verify_def lift_result_def bind_op_def
  after_spend_def partial_upload_def PAYMENT_WAVE_SIZE_def List.map_filter_def sat_add_u128_def u128_max_def

lemma tiny_chunks: "xs \<noteq> [] \<Longrightarrow> length xs \<le> n \<Longrightarrow> chunks_of n xs = [xs]"
  by (cases "n = 0") (simp_all add: chunks_of.simps)

lemma tiny_refused: "fst (upload_records (tiny_upload_env False) Single tiny_records tiny_context) =
  Inl (PartialUpload [[2]] 1 [[1], [1]] 2 3 (0, 0) (Some Payment))"
  by (simp add: tiny_eval Let_def rolling_in_sequence tiny_chunks)

theorem failed_upload_accounts_for_everything_witness:
  "\<exists>cx'. upload_records (tiny_upload_env False) Single tiny_records tiny_context =
       (Inl (PartialUpload [[2]] 1 [[1], [1]] 2 3 (0, 0) (Some Payment)), cx') \<and>
     confirmed tiny_records (cx_events cx') [2]"
proof -
  obtain cx' where run: "upload_records (tiny_upload_env False) Single tiny_records tiny_context =
      (Inl (PartialUpload [[2]] 1 [[1], [1]] 2 3 (0, 0) (Some Payment)), cx')"
    using tiny_refused by (metis prod.collapse)
  with failed_upload_accounts_for_everything [OF tiny_contracts run] show ?thesis by auto
qed

lemma tiny_store: "store_paid_chunks_with_events (\<lambda>fl w. (0, Inr (pd_address (fl ! 0), 5), w)) cap [paid] w =
  (\<lparr>wv_stored = [pd_address paid], wv_failed = [], wv_chunk_attempts_total = 1, wv_store_durations_ms = [5],
    wv_retries_per_chunk = [0]\<rparr>, w)"
proof -
  have "STORE_MAX_RETRIES + 1 = Suc 3" by (simp add: STORE_MAX_RETRIES_def)
  then show ?thesis
    by (simp add: store_paid_chunks_with_events_def rolling_single absorb_round_def failed_this_round_def
        List.map_filter_def sat_add_def usize_max_def Let_def)
qed

lemma tiny_paid: "\<exists>out cx'. upload_records (tiny_upload_env True) Single tiny_records tiny_context = (Inr out, cx') \<and>
  uo_addresses out = [[1], [2], [1]] \<and> uo_amount out = 30 \<and> receipts (cx_events cx') = [(30, 2)]"
  by (simp add: tiny_eval Let_def rolling_in_sequence tiny_chunks tiny_store receipts_def)

theorem successful_upload_stored_every_record_witness:
  "\<exists>out cx'. upload_records (tiny_upload_env True) Single tiny_records tiny_context = (Inr out, cx') \<and>
     uo_addresses out = [[1], [2], [1]] \<and> uo_amount out = 30 \<and>
     confirmed tiny_records (cx_events cx') [1] \<and> confirmed tiny_records (cx_events cx') [2]"
proof -
  obtain out cx' where run: "upload_records (tiny_upload_env True) Single tiny_records tiny_context = (Inr out, cx')"
    and out: "uo_addresses out = [[1], [2], [1]]" "uo_amount out = 30"
    using tiny_paid by blast
  from successful_upload_stored_every_record [OF tiny_contracts run] have "\<forall>r \<in> set tiny_records. confirmed tiny_records (cx_events cx') (ur_address r)"
    by blast
  with run out show ?thesis by (auto simp: tiny_records_def)
qed

end
