(* ===== verification/Node_Registry.thy ===== *)
theory Node_Registry
  imports Rust_Text "HOL-Library.AList"
begin

text \<open>
  The registry of managed nodes: the data of \<^verbatim>\<open>ant-core/src/node/types.rs\<close>, the registry of
  \<^verbatim>\<open>node/registry.rs\<close>, and the operations of \<^verbatim>\<open>node/mod.rs\<close> that add, remove and
  reset nodes without the daemon. Node ids are 32-bit words, ports 16-bit words; their additions
  wrap, as in a release build. The registry file is the value a load returns: \<open>None\<close> when
  the file does not exist. Creating directories and copying the binary are operations of the
  file system, a parameter that may fail.
\<close>

section \<open>Types\<close>

type_synonym u16 = "16 word"
type_synonym path = string

datatype node_status = Stopped | Starting | Running | Stopping | Errored | Evicted

datatype upgrade_channel = Stable | Beta

fun channel_arg :: "upgrade_channel \<Rightarrow> string" where
  "channel_arg Stable = ''stable''"
| "channel_arg Beta = ''beta''"

datatype evm_network = ArbitrumOne | ArbitrumSepolia

fun as_arg :: "evm_network \<Rightarrow> string" where
  "as_arg ArbitrumOne = ''arbitrum-one''"
| "as_arg ArbitrumSepolia = ''arbitrum-sepolia''"

record eviction_record =
  er_reason :: string
  er_evicted_at :: nat
  er_reclaimed_bytes :: nat

record node_config =
  nc_id :: u32
  nc_service_name :: string
  nc_rewards_address :: string
  nc_data_dir :: path
  nc_log_dir :: "path option"
  nc_node_port :: "u16 option"
  nc_binary_path :: path
  nc_version :: string
  nc_env_variables :: "(string \<times> string) list"
  nc_bootstrap_peers :: "string list"
  nc_upgrade_channel :: "upgrade_channel option"
  nc_evm_network :: evm_network
  nc_eviction :: "eviction_record option"

datatype node_error =
    NodeNotFound u32
  | NodeAlreadyRunning u32
  | NodeNotRunning u32
  | NodeEvicted u32
  | ProcessSpawn string
  | PortRangeMismatch u16 u16
  | InvalidNodeCount u16 u16
  | InvalidRewardsAddress string
  | InvalidPortRange string
  | InvalidEnvVar string
  | IoError string
  | BinaryError string

subsection \<open>Port ranges\<close>

datatype port_range = Single u16 | Range u16 u16

definition port_range_len :: "port_range \<Rightarrow> u16" where
  "port_range_len r =
     (case r of Single _ \<Rightarrow> 1 | Range start stop \<Rightarrow> (if stop < start then 0 else stop - start) + 1)"

definition port_at :: "port_range \<Rightarrow> u16 \<Rightarrow> u16 option" where
  "port_at r index =
     (case r of
        Single p \<Rightarrow> if index = 0 then Some p else None
      | Range start stop \<Rightarrow>
          if 2 ^ 16 \<le> unat start + unat index then None
          else if start + index \<le> stop then Some (start + index) else None)"

definition invalid_port :: "string \<Rightarrow> string \<Rightarrow> node_error" where
  "invalid_port what s = InvalidPortRange (''invalid '' @ what @ '' '' @ [CHR 0x27] @ s @ [CHR 0x27])"

definition parse_port :: "string \<Rightarrow> string \<Rightarrow> (node_error, u16) result" where
  "parse_port what s = ok_or (map_option of_nat (parse_unsigned (2 ^ 16) s)) (invalid_port what s)"

definition port_range_from_str :: "string \<Rightarrow> (node_error, port_range) result" where
  "port_range_from_str s =
     (case split_once ''-'' s of
        Some (start, stop) \<Rightarrow>
          bind_result (parse_port ''start port'' start) (\<lambda>start.
          bind_result (parse_port ''end port'' stop) (\<lambda>stop.
            if stop < start
            then Inl (InvalidPortRange (''end ('' @ show_nat (unat stop) @ '') must be >= start ('' @
                        show_nat (unat start) @ '')''))
            else Inr (Range start stop)))
      | None \<Rightarrow> bind_result (parse_port ''port'' s) (\<lambda>port. Inr (Single port)))"

definition parse_env_vars :: "string list \<Rightarrow> (node_error, (string \<times> string) list) result" where
  "parse_env_vars vars = collect_result (\<lambda>e. ok_or (split_once ''='' e) (InvalidEnvVar e)) vars"

section \<open>The registry\<close>

record node_registry =
  schema_version :: u32
  nodes :: "(u32 \<times> node_config) list"
  next_id :: u32

definition empty_registry :: node_registry where
  "empty_registry = \<lparr>schema_version = 1, nodes = [], next_id = 1\<rparr>"

definition load :: "node_registry option \<Rightarrow> node_registry" where
  "load file = (case file of Some registry \<Rightarrow> registry | None \<Rightarrow> empty_registry)"

definition get :: "node_registry \<Rightarrow> u32 \<Rightarrow> (node_error, node_config) result" where
  "get reg nid = ok_or (map_of (nodes reg) nid) (NodeNotFound nid)"

text \<open>Writing through \<^verbatim>\<open>get_mut\<close>: an update of the entry, if there is one.\<close>

definition get_mut :: "node_registry \<Rightarrow> u32 \<Rightarrow> (node_config \<Rightarrow> node_config) \<Rightarrow> node_registry" where
  "get_mut reg nid f = reg\<lparr>nodes := map (\<lambda>(k, c). if k = nid then (k, f c) else (k, c)) (nodes reg)\<rparr>"

definition service_name_of :: "u32 \<Rightarrow> string" where
  "service_name_of nid = ''node'' @ show_nat (unat nid)"

definition add :: "node_registry \<Rightarrow> node_config \<Rightarrow> u32 \<times> node_registry" where
  "add reg config =
     (let nid = next_id reg;
          config = config\<lparr>nc_id := nid, nc_service_name := service_name_of nid\<rparr>
      in (nid, reg\<lparr>next_id := next_id reg + 1, nodes := AList.update nid config (nodes reg)\<rparr>))"

fun add_batch :: "node_registry \<Rightarrow> node_config list \<Rightarrow> u32 list \<times> node_registry" where
  "add_batch reg [] = ([], reg)"
| "add_batch reg (c # cs) =
     (let (nid, reg1) = add reg c; (ids, reg2) = add_batch reg1 cs in (nid # ids, reg2))"

definition remove :: "node_registry \<Rightarrow> u32 \<Rightarrow> (node_error, node_config \<times> node_registry) result" where
  "remove reg nid =
     (case map_of (nodes reg) nid of
        Some c \<Rightarrow> Inr (c, reg\<lparr>nodes := AList.delete nid (nodes reg)\<rparr>)
      | None \<Rightarrow> Inl (NodeNotFound nid))"

definition list_nodes :: "node_registry \<Rightarrow> node_config list" where
  "list_nodes reg = sort_key nc_id (map snd (nodes reg))"

definition find_by_service_name :: "node_registry \<Rightarrow> string \<Rightarrow> node_config option" where
  "find_by_service_name reg name = find (\<lambda>c. nc_service_name c = name) (map snd (nodes reg))"

definition registry_len :: "node_registry \<Rightarrow> nat" where
  "registry_len reg = length (nodes reg)"

definition clear :: "node_registry \<Rightarrow> node_registry" where
  "clear reg = reg\<lparr>nodes := [], next_id := 1\<rparr>"

section \<open>Adding, removing and resetting nodes without the daemon\<close>

datatype binary_source = Latest | Version string | Url string | LocalPath path

record add_node_opts =
  ao_count :: u16
  ao_rewards_address :: string
  ao_node_port :: "port_range option"
  ao_data_dir_path :: "path option"
  ao_log_dir_path :: "path option"
  ao_binary_source :: binary_source
  ao_bootstrap_peers :: "string list"
  ao_env_variables :: "(string \<times> string) list"
  ao_upgrade_channel :: "upgrade_channel option"
  ao_evm_network :: evm_network

record resolved_binary =
  rb_path :: path
  rb_version :: string
  rb_bootstrap_peers_path :: "path option"

text \<open>
  What the operations use of the machine: the platform's data directory, the resolution of the
  binary (\<^verbatim>\<open>node/binary.rs\<close>, which downloads it), the locked registry file and the
  directories.
\<close>

record 'w node_fs =
  platform_data_dir :: path
  resolve_binary :: "binary_source \<Rightarrow> upgrade_channel option \<Rightarrow> ('w, node_error, resolved_binary) op"
  load_locked :: "('w, node_error, node_registry) op"
  save :: "node_registry \<Rightarrow> ('w, node_error, unit) op"
  create_dir_all :: "path \<Rightarrow> ('w, node_error, unit) op"
  remove_dir_all :: "path \<Rightarrow> ('w, node_error, unit) op"
  path_exists :: "path \<Rightarrow> 'w \<Rightarrow> bool"
  copy_file :: "path \<Rightarrow> path \<Rightarrow> ('w, node_error, unit) op"
  set_executable :: "path \<Rightarrow> ('w, node_error, unit) op"

definition BINARY_NAME :: string where "BINARY_NAME = ''ant-node''"
definition BOOTSTRAP_PEERS_FILE :: string where "BOOTSTRAP_PEERS_FILE = ''bootstrap_peers.toml''"
definition MAX_NODES_PER_CALL :: u16 where "MAX_NODES_PER_CALL = 1000"

definition validate_rewards_address :: "string \<Rightarrow> (node_error, unit) result" where
  "validate_rewards_address address =
     (let address = trim address; hex_part = drop 2 address
      in if address = [] then Inl (InvalidRewardsAddress ''rewards address cannot be empty'')
         else if take 2 address \<noteq> ''0x'' \<and> take 2 address \<noteq> ''0X'' then
           Inl (InvalidRewardsAddress (''rewards address must start with '' @ [CHR 0x27] @ ''0x'' @ [CHR 0x27] @
                  '', got '' @ [CHR 0x27] @ address @ [CHR 0x27]))
         else if length hex_part \<noteq> 40 then
           Inl (InvalidRewardsAddress (''rewards address must be 42 characters (0x + 40 hex), got '' @
                  show_nat (length address) @ '' characters''))
         else if \<not> list_all is_ascii_hexdigit hex_part then
           Inl (InvalidRewardsAddress (''rewards address contains non-hex characters: '' @ [CHR 0x27] @ address @ [CHR 0x27]))
         else Inr ())"

definition node_dir_name :: "u32 \<Rightarrow> string" where
  "node_dir_name nid = ''node-'' @ show_nat (unat nid)"

definition node_data_dir :: "path \<Rightarrow> path option \<Rightarrow> u32 \<Rightarrow> path" where
  "node_data_dir platform custom nid =
     (case custom of
        Some prefix \<Rightarrow> path_join prefix (node_dir_name nid)
      | None \<Rightarrow> path_join (path_join platform ''nodes'') (node_dir_name nid))"

definition node_log_dir :: "path option \<Rightarrow> u32 \<Rightarrow> path option" where
  "node_log_dir custom nid =
     map_option (\<lambda>prefix. path_join (path_join prefix (node_dir_name nid)) ''logs'') custom"

definition resolve_port :: "port_range option \<Rightarrow> u16 \<Rightarrow> u16 option" where
  "resolve_port port_range index = Option.bind port_range (\<lambda>r. port_at r index)"

definition option_op :: "('a \<Rightarrow> ('s, 'e, unit) op) \<Rightarrow> 'a option \<Rightarrow> ('s, 'e, unit) op" where
  "option_op f x = (case x of Some v \<Rightarrow> f v | None \<Rightarrow> ok_op ())"

text \<open>The body of the loop of \<^verbatim>\<open>add_nodes\<close> for the node of one index.\<close>

definition add_one ::
    "'w node_fs \<Rightarrow> add_node_opts \<Rightarrow> string \<Rightarrow> resolved_binary \<Rightarrow> node_registry \<Rightarrow> u16 \<Rightarrow>
     ('w, node_error, node_config \<times> node_registry) op" where
  "add_one fs opts rewards bin reg i =
     (let dir = node_data_dir (platform_data_dir fs) (ao_data_dir_path opts);
          log_of = node_log_dir (ao_log_dir_path opts);
          config = \<lparr>nc_id = 0, nc_service_name = [], nc_rewards_address = rewards, nc_data_dir = dir 0,
                    nc_log_dir = log_of 0, nc_node_port = resolve_port (ao_node_port opts) i,
                    nc_binary_path = [], nc_version = rb_version bin,
                    nc_env_variables = foldl (\<lambda>m (k, v). AList.update k v m) [] (ao_env_variables opts), nc_bootstrap_peers = ao_bootstrap_peers opts,
                    nc_upgrade_channel = ao_upgrade_channel opts, nc_evm_network = ao_evm_network opts,
                    nc_eviction = None\<rparr>;
          (nid, reg) = add reg config;
          node_binary = path_join (dir nid) BINARY_NAME;
          finish = (\<lambda>c. c\<lparr>nc_data_dir := dir nid, nc_log_dir := log_of nid, nc_binary_path := node_binary\<rparr>);
          reg = get_mut reg nid finish
      in bind_op (create_dir_all fs (dir nid)) (\<lambda>_.
         bind_op (option_op (create_dir_all fs) (log_of nid)) (\<lambda>_.
         bind_op (copy_file fs (rb_path bin) node_binary) (\<lambda>_.
         bind_op (set_executable fs node_binary) (\<lambda>_.
         bind_op (option_op (\<lambda>bp. copy_file fs bp (path_join (dir nid) BOOTSTRAP_PEERS_FILE))
                    (rb_bootstrap_peers_path bin)) (\<lambda>_.
         (\<lambda>w. (bind_result (get reg nid) (\<lambda>c. Inr (c, reg)), w))))))))"

fun add_loop ::
    "'w node_fs \<Rightarrow> add_node_opts \<Rightarrow> string \<Rightarrow> resolved_binary \<Rightarrow> node_registry \<Rightarrow> u16 list \<Rightarrow>
     ('w, node_error, node_config list \<times> node_registry) op" where
  "add_loop fs opts rewards bin reg [] = ok_op ([], reg)"
| "add_loop fs opts rewards bin reg (i # is) =
     bind_op (add_one fs opts rewards bin reg i) (\<lambda>(c, reg).
     bind_op (add_loop fs opts rewards bin reg is) (\<lambda>(cs, reg). ok_op (c # cs, reg)))"

text \<open>\<^verbatim>\<open>add_nodes\<close> once its arguments are checked.\<close>

definition add_checked :: "'w node_fs \<Rightarrow> add_node_opts \<Rightarrow> string \<Rightarrow> ('w, node_error, node_config list) op" where
  "add_checked fs opts rewards =
     bind_op (resolve_binary fs (ao_binary_source opts) (ao_upgrade_channel opts)) (\<lambda>bin.
     bind_op (load_locked fs) (\<lambda>reg.
     bind_op (add_loop fs opts rewards bin reg (map of_nat [0 ..< unat (ao_count opts)])) (\<lambda>(cs, reg).
     bind_op (save fs reg) (\<lambda>_. ok_op cs))))"

definition add_nodes :: "'w node_fs \<Rightarrow> add_node_opts \<Rightarrow> ('w, node_error, node_config list) op" where
  "add_nodes fs opts w =
     (case validate_rewards_address (ao_rewards_address opts) of
        Inl e \<Rightarrow> (Inl e, w)
      | Inr _ \<Rightarrow>
          let rewards = trim (ao_rewards_address opts); count = ao_count opts
          in if MAX_NODES_PER_CALL < count then (Inl (InvalidNodeCount count MAX_NODES_PER_CALL), w)
             else case ao_node_port opts of
                    Some r \<Rightarrow>
                      if port_range_len r \<noteq> 1 \<and> port_range_len r \<noteq> count
                      then (Inl (PortRangeMismatch (port_range_len r) count), w)
                      else add_checked fs opts rewards w
                  | None \<Rightarrow> add_checked fs opts rewards w)"

definition remove_node :: "'w node_fs \<Rightarrow> u32 \<Rightarrow> ('w, node_error, node_config) op" where
  "remove_node fs nid =
     bind_op (load_locked fs) (\<lambda>reg. \<lambda>w.
       case remove reg nid of
         Inl e \<Rightarrow> (Inl e, w)
       | Inr (removed, reg) \<Rightarrow> bind_op (save fs reg) (\<lambda>_. ok_op removed) w)"

record reset_result =
  nodes_cleared :: nat
  data_dirs_removed :: "path list"
  log_dirs_removed :: "path list"

text \<open>Removing a directory that exists, and whether it did.\<close>

definition remove_existing :: "'w node_fs \<Rightarrow> path \<Rightarrow> ('w, node_error, path list) op" where
  "remove_existing fs p w =
     (if path_exists fs p w then bind_op (remove_dir_all fs p) (\<lambda>_. ok_op [p]) w else (Inr [], w))"

fun remove_dirs :: "'w node_fs \<Rightarrow> node_config list \<Rightarrow> ('w, node_error, path list \<times> path list) op" where
  "remove_dirs fs [] = ok_op ([], [])"
| "remove_dirs fs (c # cs) =
     bind_op (remove_existing fs (nc_data_dir c)) (\<lambda>d.
     bind_op (case nc_log_dir c of Some l \<Rightarrow> remove_existing fs l | None \<Rightarrow> ok_op []) (\<lambda>l.
     bind_op (remove_dirs fs cs) (\<lambda>(ds, ls). ok_op (d @ ds, l @ ls))))"

definition reset :: "'w node_fs \<Rightarrow> ('w, node_error, reset_result) op" where
  "reset fs =
     bind_op (load_locked fs) (\<lambda>reg.
     bind_op (remove_dirs fs (list_nodes reg)) (\<lambda>(ds, ls).
     bind_op (save fs (clear reg)) (\<lambda>_.
       ok_op \<lparr>nodes_cleared = registry_len reg, data_dirs_removed = ds, log_dirs_removed = ls\<rparr>)))"

record node_status_summary =
  ss_node_id :: u32
  ss_name :: string
  ss_version :: string
  ss_status :: node_status
  ss_pid :: "u32 option"
  ss_uptime_secs :: "nat option"
  ss_eviction :: "eviction_record option"

record node_status_result =
  sr_nodes :: "node_status_summary list"
  sr_total_running :: nat
  sr_total_stopped :: nat

definition node_status_offline :: "node_registry \<Rightarrow> node_status_result" where
  "node_status_offline reg =
     (let summaries = map (\<lambda>c. \<lparr>ss_node_id = nc_id c, ss_name = nc_service_name c, ss_version = nc_version c,
                              ss_status = (if nc_eviction c \<noteq> None then Evicted else Stopped),
                              ss_pid = None, ss_uptime_secs = None, ss_eviction = nc_eviction c\<rparr>)
                        (list_nodes reg)
      in \<lparr>sr_nodes = summaries, sr_total_running = 0, sr_total_stopped = length summaries\<rparr>)"

section \<open>The registry's invariant\<close>

definition registry_ok :: "node_registry \<Rightarrow> bool" where
  "registry_ok reg \<longleftrightarrow>
     distinct (map fst (nodes reg)) \<and>
     list_all (\<lambda>(k, c). nc_id c = k \<and> nc_service_name c = service_name_of k \<and> k < next_id reg) (nodes reg)"

definition keeps_identity :: "(node_config \<Rightarrow> node_config) \<Rightarrow> bool" where
  "keeps_identity f \<longleftrightarrow> (\<forall>c. nc_id (f c) = nc_id c \<and> nc_service_name (f c) = nc_service_name c)"

named_theorems registry_rules "what the operations keep of the registry's invariant"

lemma registry_ok_iff:
  "registry_ok reg \<longleftrightarrow>
     distinct (map fst (nodes reg)) \<and>
     (\<forall>k c. map_of (nodes reg) k = Some c \<longrightarrow> nc_id c = k \<and> nc_service_name c = service_name_of k \<and> k < next_id reg)"
  by (auto simp: registry_ok_def list_all_iff dest: map_of_SomeD)

lemma registry_okD:
  assumes "registry_ok reg" and "map_of (nodes reg) nid = Some c"
  shows "nc_id c = nid" and "nc_service_name c = service_name_of nid" and "nid < next_id reg"
  using assms by (auto simp: registry_ok_iff)

lemma registry_ok_empty [registry_rules]: "registry_ok empty_registry"
  by (simp add: registry_ok_def empty_registry_def)

lemma registry_ok_clear [registry_rules]: "registry_ok (clear reg)"
  by (simp add: registry_ok_def clear_def)

lemma get_mut_keys: "map fst (nodes (get_mut reg nid f)) = map fst (nodes reg)"
  by (simp add: get_mut_def comp_def case_prod_unfold if_distrib)

lemma map_of_get_mut:
  "map_of (nodes (get_mut reg nid f)) = (map_of (nodes reg))(nid := map_option f (map_of (nodes reg) nid))"
proof -
  have "map_of (map (\<lambda>(k, c). if k = nid then (k, f c) else (k, c)) xs) =
      (map_of xs)(nid := map_option f (map_of xs nid))" for xs
    by (induction xs) (auto simp: fun_eq_iff)
  then show ?thesis by (simp add: get_mut_def)
qed

lemma next_id_get_mut [simp]: "next_id (get_mut reg nid f) = next_id reg"
  by (simp add: get_mut_def)

lemma registry_ok_get_mut [registry_rules]:
  assumes "registry_ok reg" and "keeps_identity f"
  shows "registry_ok (get_mut reg nid f)"
  using assms by (auto simp: registry_ok_iff get_mut_keys map_of_get_mut keeps_identity_def split: if_splits)

lemma registry_ok_remove [registry_rules]:
  assumes "registry_ok reg" and "remove reg nid = Inr (c, reg')"
  shows "registry_ok reg'"
  using assms by (auto simp: registry_ok_iff remove_def distinct_delete delete_conv' split: option.splits if_splits)

text \<open>An id the counter has not reached yet is fresh.\<close>

lemma next_id_fresh:
  assumes "registry_ok reg"
  shows "next_id reg \<notin> fst ` set (nodes reg)"
  using assms by (auto simp: registry_ok_def list_all_iff)

lemma add_spec:
  assumes "registry_ok reg" and "unat (next_id reg) + 1 < 2 ^ 32" and "add reg c = (nid, reg')"
  shows "nid = next_id reg" and "registry_ok reg'" and "next_id reg' = next_id reg + 1"
    and "map_of (nodes reg') = (map_of (nodes reg))(nid \<mapsto> c\<lparr>nc_id := nid, nc_service_name := service_name_of nid\<rparr>)"
proof -
  show nid: "nid = next_id reg" and n: "next_id reg' = next_id reg + 1"
    and "map_of (nodes reg') = (map_of (nodes reg))(nid \<mapsto> c\<lparr>nc_id := nid, nc_service_name := service_name_of nid\<rparr>)"
    using assms(3) by (auto simp: add_def Let_def update_conv')
  have "unat (next_id reg + 1) = unat (next_id reg) + 1"
    using assms(2) by (simp add: unat_word_ariths)
  then have less: "next_id reg < next_id reg + 1" by (simp add: word_less_nat_alt)
  have ns: "nodes reg' = AList.update nid (c\<lparr>nc_id := nid, nc_service_name := service_name_of nid\<rparr>) (nodes reg)"
    using assms(3) by (auto simp: add_def Let_def)
  have "distinct (map fst (nodes reg'))"
    using assms(1) by (simp add: ns registry_ok_iff distinct_update)
  then show "registry_ok reg'"
    using less assms(1) by (auto simp: registry_ok_iff ns update_conv' n nid) (meson order.strict_trans)
qed

lemma keeps_identity_paths [registry_rules]:
  "keeps_identity (\<lambda>c. c\<lparr>nc_data_dir := d, nc_log_dir := l, nc_binary_path := b\<rparr>)"
  by (simp add: keeps_identity_def)

section \<open>What adding nodes does\<close>

definition added_as :: "'w node_fs \<Rightarrow> add_node_opts \<Rightarrow> u16 \<Rightarrow> u32 \<Rightarrow> node_config \<Rightarrow> bool" where
  "added_as fs opts i nid c \<longleftrightarrow>
     nc_id c = nid \<and> nc_service_name c = service_name_of nid \<and>
     nc_data_dir c = node_data_dir (platform_data_dir fs) (ao_data_dir_path opts) nid \<and>
     nc_binary_path c = path_join (nc_data_dir c) BINARY_NAME \<and>
     nc_node_port c = resolve_port (ao_node_port opts) i \<and> nc_eviction c = None"

lemma add_one_spec:
  assumes "registry_ok reg" and "unat (next_id reg) + 1 < 2 ^ 32"
    and "add_one fs opts rewards bin reg i w = (Inr (c, reg'), w')"
  shows "registry_ok reg'" and "next_id reg' = next_id reg + 1" and "added_as fs opts i (next_id reg) c"
    and "map_of (nodes reg') = (map_of (nodes reg))(next_id reg \<mapsto> c)"
proof -
  define dir where "dir = node_data_dir (platform_data_dir fs) (ao_data_dir_path opts)"
  define log_of where "log_of = node_log_dir (ao_log_dir_path opts)"
  define config where "config = \<lparr>nc_id = 0, nc_service_name = [], nc_rewards_address = rewards, nc_data_dir = dir 0,
    nc_log_dir = log_of 0, nc_node_port = resolve_port (ao_node_port opts) i, nc_binary_path = [],
    nc_version = rb_version bin, nc_env_variables = foldl (\<lambda>m (k, v). AList.update k v m) [] (ao_env_variables opts),
    nc_bootstrap_peers = ao_bootstrap_peers opts, nc_upgrade_channel = ao_upgrade_channel opts,
    nc_evm_network = ao_evm_network opts, nc_eviction = None\<rparr>"
  define fin where "fin = (\<lambda>nid c. c\<lparr>nc_data_dir := dir nid, nc_log_dir := log_of nid,
    nc_binary_path := path_join (dir nid) BINARY_NAME\<rparr> :: node_config)"
  obtain nid reg1 where a: "add reg config = (nid, reg1)" by fastforce
  note spec = add_spec [OF assms(1,2) a]
  have "get (get_mut reg1 nid (fin nid)) nid = Inr c \<and> reg' = get_mut reg1 nid (fin nid)"
    using assms(3) unfolding add_one_def Let_def dir_def [symmetric] log_of_def [symmetric]
      config_def [symmetric] a prod.case fin_def [symmetric]
    by (auto simp: results fin_def)
  then have c: "map_of (nodes reg') nid = Some c" and r: "reg' = get_mut reg1 nid (fin nid)"
    by (auto simp: get_def results)
  have "keeps_identity (fin nid)" by (simp add: fin_def keeps_identity_def)
  then show "registry_ok reg'" unfolding r by (rule registry_ok_get_mut [OF spec(2)])
  have c': "c = fin nid (config\<lparr>nc_id := nid, nc_service_name := service_name_of nid\<rparr>)"
    using c by (simp add: r map_of_get_mut spec(4))
  show "next_id reg' = next_id reg + 1" by (simp add: r spec(3))
  show "added_as fs opts i (next_id reg) c"
    by (simp add: added_as_def c' fin_def config_def spec(1) dir_def)
  show "map_of (nodes reg') = (map_of (nodes reg))(next_id reg \<mapsto> c)"
    by (simp add: r map_of_get_mut spec(4) spec(1) [symmetric] c')
qed

lemma add_loop_spec:
  assumes "registry_ok reg" and "unat (next_id reg) + length is < 2 ^ 32"
    and "add_loop fs opts rewards bin reg is w = (Inr (cs, reg'), w')"
  shows "registry_ok reg' \<and> length cs = length is \<and>
    (\<forall>j < length is. added_as fs opts (is ! j) (next_id reg + of_nat j) (cs ! j)) \<and>
    map_of (nodes reg') = (map_of (nodes reg))(map nc_id cs [\<mapsto>] cs)"
  using assms
proof (induction "is" arbitrary: reg w cs)
  case Nil
  then show ?case by simp
next
  case (Cons i "is")
  obtain c reg1 w1 cs1 where one: "add_one fs opts rewards bin reg i w = (Inr (c, reg1), w1)"
    and rest: "add_loop fs opts rewards bin reg1 is w1 = (Inr (cs1, reg'), w')" and cs: "cs = c # cs1"
    using Cons.prems(3) by (auto simp: results split: prod.splits)
  have room: "unat (next_id reg) + 1 < 2 ^ 32" using Cons.prems(2) by simp
  note spec = add_one_spec [OF Cons.prems(1) room one]
  have "unat (next_id reg1) = unat (next_id reg) + 1"
    using room by (simp add: spec(2) unat_word_ariths)
  then have IH: "registry_ok reg' \<and> length cs1 = length is \<and>
      (\<forall>j < length is. added_as fs opts (is ! j) (next_id reg1 + of_nat j) (cs1 ! j)) \<and>
      map_of (nodes reg') = (map_of (nodes reg1))(map nc_id cs1 [\<mapsto>] cs1)"
    using Cons.prems(2) by (intro Cons.IH [OF spec(1) _ rest]) simp
  have "added_as fs opts ((i # is) ! j) (next_id reg + of_nat j) ((c # cs1) ! j)" if "j < length (i # is)" for j
    using that IH spec(2,3) by (cases j) (auto simp: add.commute add.left_commute)
  moreover have "nc_id c = next_id reg" using spec(3) by (simp add: added_as_def)
  ultimately show ?case using IH spec(4) by (simp add: cs)
qed

lemma node_dir_name_relative: "take 1 (node_dir_name nid) \<noteq> ''/''"
  by (simp add: node_dir_name_def)

lemma path_join_inject:
  assumes "take 1 p \<noteq> ''/''" and "take 1 q \<noteq> ''/''"
  shows "path_join base p = path_join base q \<longleftrightarrow> p = q"
  using assms by (auto simp: path_join_def)

lemma node_data_dir_inject:
  "node_data_dir platform custom i = node_data_dir platform custom j \<longleftrightarrow> i = j"
  by (auto simp: node_data_dir_def path_join_inject node_dir_name_relative node_dir_name_def show_nat_inject
      word_unat_eq_iff split: option.splits)

lemma port_at_inject:
  assumes "port_at r i = Some p" and "port_at r j = Some p"
  shows "i = j"
  using assms by (auto simp: port_at_def split: port_range.splits if_splits)

lemma resolve_port_inject:
  assumes "resolve_port r i = Some p" and "resolve_port r j = Some p"
  shows "i = j"
  using assms by (cases r) (simp_all add: resolve_port_def, rule port_at_inject)

lemma of_nat_u16_inject: "i < 2 ^ 16 \<Longrightarrow> j < 2 ^ 16 \<Longrightarrow> (of_nat i :: u16) = of_nat j \<longleftrightarrow> i = j"
  by (simp add: word_unat_eq_iff unat_of_nat)

lemma range_ports:
  assumes "start \<le> stop" and "unat i \<le> unat stop - unat start"
  shows "port_at (Range start stop) i = Some (start + i)"
proof -
  have le: "unat start + unat i \<le> unat stop" using assms by (simp add: word_le_nat_alt)
  have "unat stop < 2 ^ 16" using unsigned_less [where 'a = nat, of stop] by simp
  then have small: "unat start + unat i < 2 ^ 16" using le by linarith
  then have "unat (start + i) = unat start + unat i" by (simp add: unat_word_ariths)
  with le small show ?thesis by (simp add: port_at_def word_le_nat_alt)
qed

lemma added_as_distinct:
  assumes len: "length cs = length is" and bound: "unat base + length is < 2 ^ 32"
    and added: "\<And>j. j < length is \<Longrightarrow> added_as fs opts (is ! j) (base + of_nat j) (cs ! j)"
  shows "distinct (map nc_id cs)" and "distinct (map nc_data_dir cs)"
    and "\<And>j. j < length is \<Longrightarrow> unat base \<le> unat (nc_id (cs ! j))"
proof -
  have ids: "unat (base + of_nat j) = unat base + j" if "j < length is" for j
    using that bound by (simp add: unat_word_ariths unat_of_nat)
  have eq: "nc_id (cs ! j) = base + of_nat j"
    "nc_data_dir (cs ! j) = node_data_dir (platform_data_dir fs) (ao_data_dir_path opts) (base + of_nat j)"
    if "j < length is" for j
    using added [OF that] by (simp_all add: added_as_def)
  have inj: "base + of_nat j = base + of_nat k \<longleftrightarrow> j = k" if "j < length is" "k < length is" for j k
    using ids [OF that(1)] ids [OF that(2)] by (metis add_left_cancel)
  show "distinct (map nc_id cs)"
    by (simp add: distinct_conv_nth len eq inj del: add_left_cancel)
  show "distinct (map nc_data_dir cs)"
    by (simp add: distinct_conv_nth len eq node_data_dir_inject inj del: add_left_cancel)
  show "unat base \<le> unat (nc_id (cs ! j))" if "j < length is" for j
    using that by (simp add: eq ids)
qed

lemma map_upds_nth:
  assumes "distinct ks" and "length ks = length vs" and "i < length ks"
  shows "(m(ks [\<mapsto>] vs)) (ks ! i) = Some (vs ! i)"
proof -
  have "distinct (map fst (rev (zip ks vs)))" using assms by (simp add: rev_map [symmetric])
  moreover have "(ks ! i, vs ! i) \<in> set (rev (zip ks vs))" using assms by (auto simp: set_zip)
  ultimately have "map_of (rev (zip ks vs)) (ks ! i) = Some (vs ! i)" by simp
  then show ?thesis by (simp add: map_upds_def)
qed

definition fresh_nodes :: "node_registry \<Rightarrow> node_registry \<Rightarrow> node_config list \<Rightarrow> bool" where
  "fresh_nodes reg reg' cs \<longleftrightarrow>
     (\<forall>nid c. map_of (nodes reg) nid = Some c \<longrightarrow> map_of (nodes reg') nid = Some c) \<and>
     (\<forall>c \<in> set cs. map_of (nodes reg) (nc_id c) = None \<and> map_of (nodes reg') (nc_id c) = Some c) \<and>
     distinct (map nc_id cs) \<and> distinct (map nc_data_dir cs)"

definition ports_unshared :: "node_config list \<Rightarrow> bool" where
  "ports_unshared cs \<longleftrightarrow>
     (\<forall>j k. j < k \<longrightarrow> k < length cs \<longrightarrow> nc_node_port (cs ! j) \<noteq> None \<longrightarrow>
        nc_node_port (cs ! j) \<noteq> nc_node_port (cs ! k))"

lemma add_loop_fresh:
  assumes ok: "registry_ok reg" and room: "unat (next_id reg) + length ix < 2 ^ 32"
    and a: "add_loop fs opts rewards bin reg ix w = (Inr (cs, reg'), w')"
  shows "fresh_nodes reg reg' cs"
proof -
  note spec = add_loop_spec [OF ok room a]
  have len: "length cs = length ix" using spec by simp
  have nd: "distinct (map nc_id cs)" and dd: "distinct (map nc_data_dir cs)"
    and above: "\<And>j. j < length ix \<Longrightarrow> unat (next_id reg) \<le> unat (nc_id (cs ! j))"
    using added_as_distinct [OF len room] spec by blast+
  have m: "map_of (nodes reg') = (map_of (nodes reg))(map nc_id cs [\<mapsto>] cs)" using spec by blast
  have new: "map_of (nodes reg) (nc_id c) = None" if "c \<in> set cs" for c
  proof (rule ccontr)
    assume "\<not> ?thesis"
    then have "nc_id c < next_id reg" using registry_okD(3) [OF ok] by blast
    with that above len show False by (metis in_set_conv_nth not_le word_less_nat_alt)
  qed
  have stored: "map_of (nodes reg') (nc_id c) = Some c" if "c \<in> set cs" for c
    using that map_upds_nth [OF nd, of cs] by (auto simp: m in_set_conv_nth)
  have kept: "map_of (nodes reg') nid = Some c" if c: "map_of (nodes reg) nid = Some c" for nid c
  proof -
    have "nid \<notin> nc_id ` set cs" using new c by fastforce
    then show ?thesis using c by (simp add: m map_upds_apply_nontin)
  qed
  show ?thesis unfolding fresh_nodes_def using kept new stored nd dd by blast
qed

lemma add_loop_ports:
  assumes ok: "registry_ok reg" and room: "unat (next_id reg) + n < 2 ^ 32" and n: "n < 2 ^ 16"
    and a: "add_loop fs opts rewards bin reg (map of_nat [0 ..< n]) w = (Inr (cs, reg'), w')"
  shows "ports_unshared cs"
  unfolding ports_unshared_def
proof (intro allI impI notI)
  fix j k
  assume jk: "j < k" "k < length cs" and some: "nc_node_port (cs ! j) \<noteq> None"
    and eq: "nc_node_port (cs ! j) = nc_node_port (cs ! k)"
  have len: "length cs = n" using add_loop_spec [OF ok _ a] room by simp
  have "resolve_port (ao_node_port opts) (of_nat j) = nc_node_port (cs ! j)"
    "resolve_port (ao_node_port opts) (of_nat k) = nc_node_port (cs ! k)"
    using add_loop_spec [OF ok _ a] room jk by (auto simp: added_as_def)
  then obtain p where "resolve_port (ao_node_port opts) (of_nat j) = Some p"
    and "resolve_port (ao_node_port opts) (of_nat k) = Some p"
    using some eq by (metis not_None_eq)
  then have "(of_nat j :: u16) = of_nat k" by (rule resolve_port_inject)
  with jk len n show False by (simp add: of_nat_u16_inject)
qed

text \<open>
  Adding nodes, when it succeeds, saves a registry that keeps every node it had and gains the
  requested number of nodes, with ids and data directories of their own and no port used twice.
\<close>

theorem added_nodes_are_fresh:
  assumes "add_nodes fs opts w = (Inr cs, w')"
    and "\<And>w reg w'. load_locked fs w = (Inr reg, w') \<Longrightarrow>
      registry_ok reg \<and> unat (next_id reg) + unat (ao_count opts) < 2 ^ 32"
  shows "\<exists>w1 reg w2 reg' w3. load_locked fs w1 = (Inr reg, w2) \<and> save fs reg' w3 = (Inr (), w') \<and>
    registry_ok reg' \<and> length cs = unat (ao_count opts) \<and> fresh_nodes reg reg' cs \<and> ports_unshared cs"
proof -
  have "add_checked fs opts (trim (ao_rewards_address opts)) w = (Inr cs, w')"
    using assms(1) by (auto simp: add_nodes_def Let_def split: sum.splits option.splits if_splits)
  then obtain bin w1 reg w2 reg' w3 where l: "load_locked fs w1 = (Inr reg, w2)"
    and a: "add_loop fs opts (trim (ao_rewards_address opts)) bin reg
              (map of_nat [0 ..< unat (ao_count opts)]) w2 = (Inr (cs, reg'), w3)"
    and sv: "save fs reg' w3 = (Inr (), w')"
    by (auto simp: add_checked_def results split: prod.splits)
  have "unat (ao_count opts) < 2 ^ 16" using unsigned_less [where 'a = nat, of "ao_count opts"] by simp
  then show ?thesis
    using l sv assms(2) [OF l] add_loop_spec [OF _ _ a] add_loop_fresh [OF _ _ a] add_loop_ports [OF _ _ _ a]
    by (intro exI [of _ w1] exI [of _ reg] exI [of _ w2] exI [of _ reg'] exI [of _ w3]) simp
qed

definition tiny_fs :: "node_registry option node_fs" where
  "tiny_fs =
     \<lparr>platform_data_dir = ''/data'',
      resolve_binary = (\<lambda>_ _. ok_op \<lparr>rb_path = ''/bin/ant-node'', rb_version = ''0.1.0'', rb_bootstrap_peers_path = None\<rparr>),
      load_locked = (\<lambda>w. (Inr (load None), w)), save = (\<lambda>reg w. (Inr (), Some reg)),
      create_dir_all = (\<lambda>_. ok_op ()), remove_dir_all = (\<lambda>_. ok_op ()), path_exists = (\<lambda>_ _. True),
      copy_file = (\<lambda>_ _. ok_op ()), set_executable = (\<lambda>_. ok_op ())\<rparr>"

definition tiny_opts :: add_node_opts where
  "tiny_opts =
     \<lparr>ao_count = 2, ao_rewards_address = ''0x'' @ replicate 40 (CHR ''a''), ao_node_port = Some (Range 12000 12001),
      ao_data_dir_path = None, ao_log_dir_path = None, ao_binary_source = Latest, ao_bootstrap_peers = [],
      ao_env_variables = [], ao_upgrade_channel = None, ao_evm_network = ArbitrumOne\<rparr>"

text \<open>A printed port range is read back, and each node of a batch of its size has its own port.\<close>

definition show_port_range :: "port_range \<Rightarrow> string" where
  "show_port_range r =
     (case r of Single p \<Rightarrow> show_nat (unat p) | Range a b \<Rightarrow> show_nat (unat a) @ ''-'' @ show_nat (unat b))"

lemma parse_port_show: "parse_port what (show_nat (unat p)) = Inr p"
  using unsigned_less [where 'a = nat, of p] by (simp add: parse_port_def parse_show_nat)

lemma port_range_round_trip:
  assumes "case r of Single p \<Rightarrow> True | Range a b \<Rightarrow> a \<le> b"
  shows "port_range_from_str (show_port_range r) = Inr r"
  using assms
  by (auto simp: port_range_from_str_def show_port_range_def split_once_no_sep split_once_at
      parse_port_show digit_not_minus split: port_range.splits)



lemma tiny_address: "trim (''0x'' @ replicate 40 (CHR ''a'')) = ''0x'' @ replicate 40 (CHR ''a'')"
  by code_simp

lemma tiny_valid: "validate_rewards_address (''0x'' @ replicate 40 (CHR ''a'')) = Inr ()"
  by code_simp

lemma tiny_indices: "map (of_nat :: nat \<Rightarrow> u16) [0 ..< 2] = [0, 1]"
  by (simp add: upt_rec)

lemmas tiny_eval = tiny_fs_def bind_op_def Let_def add_def get_mut_def get_def load_def empty_registry_def option_op_def node_log_dir_def

lemma tiny_add: "\<exists>cs w'. add_nodes tiny_fs tiny_opts None = (Inr cs, w')"
proof -
  have "add_nodes tiny_fs tiny_opts None = add_checked tiny_fs tiny_opts (ao_rewards_address tiny_opts) None"
    by (simp only: add_nodes_def tiny_opts_def add_node_opts.simps tiny_valid tiny_address)
       (simp add: MAX_NODES_PER_CALL_def port_range_len_def)
  moreover have "\<exists>cs w'. add_checked tiny_fs tiny_opts (ao_rewards_address tiny_opts) None = (Inr cs, w')"
    by (simp add: add_checked_def tiny_opts_def tiny_indices add_one_def tiny_eval)
  ultimately show ?thesis by (simp only:)
qed

theorem added_nodes_are_fresh_witness:
  "\<exists>cs w'. add_nodes tiny_fs tiny_opts None = (Inr cs, w') \<and>
    (\<exists>w1 reg w2 reg' w3. load_locked tiny_fs w1 = (Inr reg, w2) \<and> save tiny_fs reg' w3 = (Inr (), w') \<and>
      registry_ok reg' \<and> length cs = 2 \<and> fresh_nodes reg reg' cs \<and> ports_unshared cs)"
proof -
  obtain cs w' where run: "add_nodes tiny_fs tiny_opts None = (Inr cs, w')" using tiny_add by blast
  have "registry_ok reg \<and> unat (next_id reg) + unat (ao_count tiny_opts) < 2 ^ 32"
    if "load_locked tiny_fs w = (Inr reg, v)" for w reg v
    using that registry_ok_empty by (auto simp: tiny_fs_def load_def tiny_opts_def empty_registry_def)
  from added_nodes_are_fresh [OF run this] run show ?thesis by (auto simp: tiny_opts_def)
qed

end
