(* ===== verification/Node_Disk.thy ===== *)
theory Node_Disk
  imports Node_Registry Float64
begin

text \<open>
  Disk pressure: measuring node data directories, grouping nodes by partition and choosing the next
  node to evict (\<^verbatim>\<open>ant-core/src/node/daemon/disk.rs\<close>), and the fleet health derived from
  the same measurements (\<^verbatim>\<open>node/daemon/health.rs\<close>). What the operating system answers is the
  parameter \<open>disk_env\<close>: the directory tree under a path, the device of a path, and the free
  space; a walk sees one snapshot of the tree.
\<close>

section \<open>Measuring a directory\<close>

text \<open>A directory entry as the walk sees it: a directory is \<open>None\<close> when it cannot be read.\<close>

datatype entry =
    RegularFile nat
  | Directory "entry list option"
  | Symlink
  | OtherEntry
  | Unreadable

definition allocated_size :: "nat \<Rightarrow> nat" where
  "allocated_size blocks = sat_mul blocks 512"

text \<open>One entry of the loop: it may add to the total or be pushed on the stack.\<close>

fun visit_entry :: "entry \<Rightarrow> nat \<times> entry list option list \<Rightarrow> nat \<times> entry list option list" where
  "visit_entry (RegularFile blocks) (acc, stack) = (sat_add acc (allocated_size blocks), stack)"
| "visit_entry (Directory es) (acc, stack) = (acc, es # stack)"
| "visit_entry _ (acc, stack) = (acc, stack)"

fun entry_weight :: "entry \<Rightarrow> nat" where
  "entry_weight (Directory (Some es)) = Suc (Suc (sum_list (map entry_weight es)))"
| "entry_weight (Directory None) = Suc 0"
| "entry_weight _ = Suc 0"

definition dir_weight :: "entry list option \<Rightarrow> nat" where
  "dir_weight d = (case d of Some es \<Rightarrow> Suc (sum_list (map entry_weight es)) | None \<Rightarrow> 1)"

lemma visit_weight:
  "sum_list (map dir_weight (snd (visit_entry e (acc, stack)))) \<le> entry_weight e + sum_list (map dir_weight stack)"
  by (cases "(e, (acc, stack))" rule: visit_entry.cases) (auto simp: dir_weight_def split: option.splits)

lemma visits_weight:
  "sum_list (map dir_weight (snd (fold visit_entry es (acc, stack)))) \<le>
   sum_list (map entry_weight es) + sum_list (map dir_weight stack)"
proof (induction es arbitrary: acc stack)
  case Nil
  then show ?case by simp
next
  case (Cons e es)
  obtain acc1 stack1 where v: "visit_entry e (acc, stack) = (acc1, stack1)" by fastforce
  from Cons.IH [of acc1 stack1] visit_weight [of e acc stack] show ?case by (simp add: v)
qed

function dir_walk :: "nat \<Rightarrow> entry list option list \<Rightarrow> nat" where
  "dir_walk acc [] = acc"
| "dir_walk acc (None # stack) = dir_walk acc stack"
| "dir_walk acc (Some es # stack) = (case fold visit_entry es (acc, stack) of (acc', stack') \<Rightarrow> dir_walk acc' stack')"
  by pat_completeness auto
termination
proof (relation "measure (\<lambda>(_, stack). sum_list (map dir_weight stack))", goal_cases)
  case (3 acc es stack acc' stack')
  then have "snd (fold visit_entry es (acc, stack)) = stack'" by (metis snd_conv)
  then show ?case using visits_weight [of es acc stack] by (simp add: dir_weight_def)
qed (simp_all add: dir_weight_def)

definition dir_size :: "entry list option \<Rightarrow> nat" where
  "dir_size d = dir_walk 0 [d]"

text \<open>The reference: the allocated sizes of all files below, symbolic links not followed.\<close>

fun entry_bytes :: "entry \<Rightarrow> nat" where
  "entry_bytes (RegularFile blocks) = allocated_size blocks"
| "entry_bytes (Directory (Some es)) = sum_list (map entry_bytes es)"
| "entry_bytes _ = 0"

definition dir_bytes :: "entry list option \<Rightarrow> nat" where
  "dir_bytes d = (case d of Some es \<Rightarrow> sum_list (map entry_bytes es) | None \<Rightarrow> 0)"

lemma sat_add_min: "sat_add (min a usize_max) b = min (a + b) usize_max"
  by (simp add: sat_add_def)

lemma visits_bytes:
  assumes "fold visit_entry es (min acc usize_max, stack) = (acc', stack')"
  shows "\<exists>a. acc' = min a usize_max \<and>
    a + sum_list (map dir_bytes stack') = acc + sum_list (map entry_bytes es) + sum_list (map dir_bytes stack)"
  using assms
proof (induction es arbitrary: acc stack)
  case Nil
  then show ?case by auto
next
  case (Cons e es)
  show ?case
  proof (cases e)
    case (RegularFile b)
    with Cons.prems have "fold visit_entry es (min (acc + allocated_size b) usize_max, stack) = (acc', stack')"
      by (simp add: sat_add_min)
    from Cons.IH [OF this] show ?thesis using RegularFile by auto
  next
    case (Directory d)
    with Cons.prems have "fold visit_entry es (min acc usize_max, d # stack) = (acc', stack')" by simp
    from Cons.IH [OF this] show ?thesis using Directory by (cases d) (auto simp: dir_bytes_def)
  qed (use Cons in auto)
qed

lemma dir_walk_spec:
  "dir_walk (min acc usize_max) stack = min (acc + sum_list (map dir_bytes stack)) usize_max"
proof (induction "min acc usize_max" stack arbitrary: acc rule: dir_walk.induct)
  case (1 acc)
  then show ?case by simp
next
  case (2 stack acc)
  then show ?case by (simp add: dir_bytes_def)
next
  case (3 es stack acc)
  obtain acc' stack' where f: "fold visit_entry es (min acc usize_max, stack) = (acc', stack')" by fastforce
  obtain a where a: "acc' = min a usize_max"
    "a + sum_list (map dir_bytes stack') = acc + sum_list (map entry_bytes es) + sum_list (map dir_bytes stack)"
    using visits_bytes [OF f] by blast
  have "dir_walk acc' stack' = min (a + sum_list (map dir_bytes stack')) usize_max"
    using "3.hyps" [of a stack'] f by (simp add: a(1))
  then show ?case by (simp add: f a(2) dir_bytes_def)
qed

text \<open>The size of a node's data directory is the sum of the space its regular files occupy, at most \<open>2 ^ 64 - 1\<close>.\<close>

theorem dir_size_is_the_space_below: "dir_size d = min (dir_bytes d) usize_max"
  using dir_walk_spec [of 0 "[d]"] by (simp add: dir_size_def)

section \<open>Partitions\<close>

record node_disk_usage =
  du_node_id :: u32
  du_data_dir :: path
  du_size_bytes :: nat

record partition_state =
  ps_partition :: string
  ps_available_bytes :: nat
  ps_nodes :: "node_disk_usage list"

text \<open>What the operating system answers about paths.\<close>

record disk_env =
  exists_path :: "path \<Rightarrow> bool"
  device_of :: "path \<Rightarrow> nat option"
  canonicalize :: "path \<Rightarrow> path option"
  read_tree :: "path \<Rightarrow> entry list option"
  free_bytes :: "path \<Rightarrow> nat option"

text \<open>\<^verbatim>\<open>Path::parent\<close> on Unix.\<close>

definition path_parent :: "path \<Rightarrow> path option" where
  "path_parent p =
     (let body = dropWhile (\<lambda>c. c = CHR ''/'') (rev p);
          rest = dropWhile (\<lambda>c. c \<noteq> CHR ''/'') body;
          up = dropWhile (\<lambda>c. c = CHR ''/'') rest
      in if body = [] then None
         else if up = [] then Some (if rest = [] then [] else ''/'')
         else Some (rev up))"

lemma path_parent_shorter: "path_parent p = Some q \<Longrightarrow> length q < length p"
proof -
  assume q: "path_parent p = Some q"
  define body where "body = dropWhile (\<lambda>c. c = CHR ''/'') (rev p)"
  define rest where "rest = dropWhile (\<lambda>c. c \<noteq> CHR ''/'') body"
  define up where "up = dropWhile (\<lambda>c. c = CHR ''/'') rest"
  have q': "(if body = [] then None
      else if up = [] then Some (if rest = [] then [] else ''/'') else Some (rev up)) = Some q"
    using q unfolding path_parent_def Let_def body_def [symmetric] rest_def [symmetric] up_def [symmetric] .
  have ne: "body \<noteq> []" using q' by (auto split: if_splits)
  have r: "q = (if up = [] then if rest = [] then [] else ''/'' else rev up)"
    using q' ne by (simp split: if_splits)
  have "hd body \<noteq> CHR ''/''" using hd_dropWhile [of "\<lambda>c. c = CHR ''/''" "rev p"] ne by (simp add: body_def)
  then obtain b bs where b: "body = b # bs" "b \<noteq> CHR ''/''" using ne by (cases body) auto
  have "length body \<le> length (rev p)" unfolding body_def by (rule length_dropWhile_le)
  moreover have "length up \<le> length rest" unfolding up_def by (rule length_dropWhile_le)
  moreover have "length rest \<le> length bs" by (simp add: rest_def b length_dropWhile_le)
  ultimately have le: "length up \<le> length rest" "length rest < length p" by (simp_all add: b)
  show ?thesis
  proof (cases "up = []")
    case True
    with r le show ?thesis by (cases rest) auto
  next
    case False
    with r le show ?thesis by simp
  qed
qed

function nearest_existing :: "disk_env \<Rightarrow> path \<Rightarrow> path option" where
  "nearest_existing env p =
     (if exists_path env p then Some p
      else case path_parent p of Some q \<Rightarrow> nearest_existing env q | None \<Rightarrow> None)"
  by pat_completeness auto
termination
  by (relation "measure (\<lambda>(_, p). length p)") (auto dest: path_parent_shorter)

declare nearest_existing.simps [simp del]

definition nearest_existing_ancestor :: "disk_env \<Rightarrow> path \<Rightarrow> path" where
  "nearest_existing_ancestor env p = (case nearest_existing env p of Some q \<Rightarrow> q | None \<Rightarrow> p)"

definition available_space :: "disk_env \<Rightarrow> path \<Rightarrow> nat option" where
  "available_space env p = free_bytes env (nearest_existing_ancestor env p)"

text \<open>The first component of a path: the root for an absolute path.\<close>

definition first_component :: "path \<Rightarrow> string" where
  "first_component p = (if take 1 p = ''/'' then ''/'' else takeWhile (\<lambda>c. c \<noteq> CHR ''/'') p)"

definition partition_key :: "disk_env \<Rightarrow> path \<Rightarrow> string" where
  "partition_key env p =
     (let existing = nearest_existing_ancestor env p
      in case device_of env existing of
           Some dev \<Rightarrow> ''dev:'' @ show_nat dev
         | None \<Rightarrow>
             let canon = (case canonicalize env existing of Some c \<Rightarrow> c | None \<Rightarrow> existing)
             in if canon = [] then canon else first_component canon)"

text \<open>A \<^verbatim>\<open>BTreeMap\<close> of lists is an association list sorted by key.\<close>

fun btree_push :: "string \<Rightarrow> 'a \<Rightarrow> (string \<times> 'a list) list \<Rightarrow> (string \<times> 'a list) list" where
  "btree_push k v [] = [(k, [v])]"
| "btree_push k v ((k', vs) # m) =
     (if k = k' then (k', vs @ [v]) # m
      else if k < k' then (k, [v]) # (k', vs) # m
      else (k', vs) # btree_push k v m)"

definition usage_of :: "disk_env \<Rightarrow> u32 \<times> path \<Rightarrow> node_disk_usage" where
  "usage_of env n =
     \<lparr>du_node_id = fst n, du_data_dir = snd n, du_size_bytes = dir_size (read_tree env (snd n))\<rparr>"

definition group_nodes :: "disk_env \<Rightarrow> (u32 \<times> path) list \<Rightarrow> (string \<times> node_disk_usage list) list" where
  "group_nodes env ns = foldl (\<lambda>m n. btree_push (partition_key env (snd n)) (usage_of env n) m) [] ns"

definition partition_states :: "disk_env \<Rightarrow> (u32 \<times> path) list \<Rightarrow> partition_state list" where
  "partition_states env ns =
     List.map_filter (\<lambda>(partition, us).
       case us of
         [] \<Rightarrow> None
       | probe # _ \<Rightarrow>
           map_option (\<lambda>free. \<lparr>ps_partition = partition, ps_available_bytes = free, ps_nodes = us\<rparr>)
             (available_space env (du_data_dir probe)))
       (group_nodes env ns)"

section \<open>The eviction candidate\<close>

text \<open>\<^verbatim>\<open>a.cmp(b) == Greater\<close> for the comparison by size, then by descending id.\<close>

definition cmp_greater :: "node_disk_usage \<Rightarrow> node_disk_usage \<Rightarrow> bool" where
  "cmp_greater a b \<longleftrightarrow>
     du_size_bytes b < du_size_bytes a \<or>
     (du_size_bytes a = du_size_bytes b \<and> du_node_id a < du_node_id b)"

definition eviction_candidate :: "partition_state \<Rightarrow> node_disk_usage option" where
  "eviction_candidate p =
     (case ps_nodes p of
        [] \<Rightarrow> None
      | n # ns \<Rightarrow> Some (foldl (\<lambda>best x. if cmp_greater best x then x else best) n ns))"

section \<open>Fleet health\<close>

definition MIB :: nat where "MIB = 1024 * 1024"
definition EVICTION_THRESHOLD_MB :: nat where "EVICTION_THRESHOLD_MB = 500"
definition WARNING_THRESHOLD_MB :: nat where "WARNING_THRESHOLD_MB = 1024"

datatype health_level = Green | Warning | Critical

fun health_rank :: "health_level \<Rightarrow> nat" where
  "health_rank Green = 0"
| "health_rank Warning = 1"
| "health_rank Critical = 2"

definition worst :: "health_level \<Rightarrow> health_level \<Rightarrow> health_level" where
  "worst a b = (if health_rank a < health_rank b then b else a)"

datatype health_check_kind = DiskSpace

record evict_candidate =
  ec_node_id :: u32
  ec_data_dir :: path
  ec_size_bytes :: nat

record health_check =
  hc_kind :: health_check_kind
  hc_level :: health_level
  hc_summary :: string
  hc_partition :: "string option"
  hc_available_bytes :: "nat option"
  hc_eviction_threshold_bytes :: "nat option"
  hc_candidate :: "evict_candidate option"

record fleet_health =
  fh_overall :: health_level
  fh_checks :: "health_check list"

definition healthy :: fleet_health where
  "healthy = \<lparr>fh_overall = Green, fh_checks = []\<rparr>"

record disk_thresholds =
  eviction_bytes :: nat
  warning_bytes :: nat

definition default_thresholds :: disk_thresholds where
  "default_thresholds = \<lparr>eviction_bytes = EVICTION_THRESHOLD_MB * MIB, warning_bytes = WARNING_THRESHOLD_MB * MIB\<rparr>"

text \<open>\<^verbatim>\<open>format!("{:.n}")\<close> of a finite float that is not negative: ties go to even.\<close>

fun format_fixed :: "nat \<Rightarrow> f64 \<Rightarrow> string" where
  "format_fixed n (Fin q) =
     (let scaled = nat (round_even (q * 10 ^ n))
      in show_nat (scaled div 10 ^ n) @ (if n = 0 then [] else ''.'' @ padded n (scaled mod 10 ^ n)))"
| "format_fixed n PInf = ''inf''"
| "format_fixed n NInf = ''-inf''"
| "format_fixed n NaN = ''NaN''"

definition fmt_bytes :: "nat \<Rightarrow> string" where
  "fmt_bytes b =
     (let gib = 1024 * MIB
      in if gib \<le> b then format_fixed 2 (f64_div (f64_of_nat b) (f64_of_nat gib)) @ '' GiB''
         else format_fixed 0 (f64_div (f64_of_nat b) (f64_of_nat MIB)) @ '' MiB'')"

text \<open>The sign \<^verbatim>\<open>U+2264\<close> in UTF-8.\<close>

definition leq_sign :: string where
  "leq_sign = [CHR 0xE2, CHR 0x89, CHR 0xA4]"

definition can_evict :: "partition_state \<Rightarrow> bool" where
  "can_evict p \<longleftrightarrow> 2 \<le> length (ps_nodes p)"

definition level_and_summary :: "partition_state \<Rightarrow> disk_thresholds \<Rightarrow> health_level \<times> string" where
  "level_and_summary p thresholds =
     (let available = ps_available_bytes p; candidate = eviction_candidate p
      in if available \<le> eviction_bytes thresholds then
           (if can_evict p then
              (Critical, ''Disk space critical on '' @ ps_partition p @ '': '' @ fmt_bytes available @ '' free ('' @
                 leq_sign @ '' '' @ fmt_bytes (eviction_bytes thresholds) @ ''). Evicting '' @
                 (case candidate of Some c \<Rightarrow> ''node '' @ show_nat (unat (du_node_id c)) | None \<Rightarrow> ''a node'') @
                 '' to reclaim space.'')
            else
              (Critical, ''Disk space critical on '' @ ps_partition p @ '': '' @ fmt_bytes available @ '' free ('' @
                 leq_sign @ '' '' @ fmt_bytes (eviction_bytes thresholds) @
                 ''), but only one node is running here so it cannot be auto-evicted. '' @
                 ''Free disk space or reduce node count manually.''))
         else if available \<le> warning_bytes thresholds then
           (Warning, ''Disk space low on '' @ ps_partition p @ '': '' @ fmt_bytes available @
              '' free. An eviction may occur once it reaches '' @ fmt_bytes (eviction_bytes thresholds) @
              (case candidate of
                 Some c \<Rightarrow> if can_evict p then ''; node '' @ show_nat (unat (du_node_id c)) @ '' would be evicted next'' else []
               | None \<Rightarrow> []) @ ''.'')
         else
           (Green, ''Disk space healthy on '' @ ps_partition p @ '': '' @ fmt_bytes available @ '' free.''))"

definition disk_space_check :: "partition_state \<Rightarrow> disk_thresholds \<Rightarrow> health_check" where
  "disk_space_check p thresholds =
     (let (level, summary) = level_and_summary p thresholds
      in \<lparr>hc_kind = DiskSpace, hc_level = level, hc_summary = summary, hc_partition = Some (ps_partition p),
          hc_available_bytes = Some (ps_available_bytes p),
          hc_eviction_threshold_bytes = Some (eviction_bytes thresholds),
          hc_candidate =
            (if can_evict p \<and> level \<noteq> Green
             then map_option (\<lambda>c. \<lparr>ec_node_id = du_node_id c, ec_data_dir = du_data_dir c, ec_size_bytes = du_size_bytes c\<rparr>)
                    (eviction_candidate p)
             else None)\<rparr>)"

definition from_partitions :: "partition_state list \<Rightarrow> disk_thresholds \<Rightarrow> fleet_health" where
  "from_partitions partitions thresholds =
     (let checks = map (\<lambda>p. disk_space_check p thresholds) partitions
      in \<lparr>fh_overall = foldl (\<lambda>acc c. worst acc (hc_level c)) Green checks, fh_checks = checks\<rparr>)"

section \<open>Properties\<close>

definition evict_before :: "node_disk_usage \<Rightarrow> node_disk_usage \<Rightarrow> bool" where
  "evict_before c n \<longleftrightarrow>
     du_size_bytes c < du_size_bytes n \<or> (du_size_bytes c = du_size_bytes n \<and> du_node_id n \<le> du_node_id c)"

lemma evict_before_order:
  "evict_before c c" "evict_before a b \<Longrightarrow> evict_before b c \<Longrightarrow> evict_before a c"
  "\<not> cmp_greater a b \<Longrightarrow> evict_before a b" "cmp_greater a b \<Longrightarrow> evict_before b a"
  by (auto simp: evict_before_def cmp_greater_def)

lemma fold_candidate:
  fixes n :: node_disk_usage
  defines "pick \<equiv> \<lambda>best x. if cmp_greater best x then x else best"
  shows "foldl pick n ns \<in> insert n (set ns) \<and> (\<forall>x \<in> insert n (set ns). evict_before (foldl pick n ns) x)"
proof (induction ns arbitrary: n)
  case Nil
  then show ?case by (simp add: evict_before_order(1))
next
  case (Cons x ns)
  have "evict_before (pick n x) n" "evict_before (pick n x) x" "pick n x \<in> {n, x}"
    by (auto simp: pick_def intro: evict_before_order)
  with Cons.IH [of "pick n x"] show ?case by (auto intro: evict_before_order(2))
qed

text \<open>The candidate is a node of the partition with the smallest data directory, the newest among equals.\<close>

lemma eviction_candidate_spec:
  assumes "eviction_candidate p = Some c"
  shows "c \<in> set (ps_nodes p)" and "\<And>n. n \<in> set (ps_nodes p) \<Longrightarrow> evict_before c n"
  using assms fold_candidate [of "hd (ps_nodes p)" "tl (ps_nodes p)"]
  by (auto simp: eviction_candidate_def split: list.splits)

lemma eviction_candidate_None: "eviction_candidate p = None \<longleftrightarrow> ps_nodes p = []"
  by (simp add: eviction_candidate_def split: list.splits)

subsection \<open>Grouping\<close>

lemma btree_push_mset: "mset (concat (map snd (btree_push k v m))) = add_mset v (mset (concat (map snd m)))"
  by (induction k v m rule: btree_push.induct) auto

lemma btree_push_keys: "set (map fst (btree_push k v m)) = insert k (set (map fst m))"
  by (induction k v m rule: btree_push.induct) auto

lemma btree_push_sorted:
  "sorted_wrt (<) (map fst m) \<Longrightarrow> sorted_wrt (<) (map fst (btree_push k v m))"
proof (induction k v m rule: btree_push.induct)
  case (2 k v k' vs m)
  have tail: "\<forall>x \<in> set (map fst m). k' < x" "sorted_wrt (<) (map fst m)" using "2.prems" by simp_all
  consider "k = k'" | "k < k'" | "k \<noteq> k'" "\<not> k < k'" "k' < k" by force
  then show ?case
  proof cases
    case 2
    then have "\<forall>x \<in> set (map fst m). k < x" using tail(1) by (meson less_trans)
    with 2 tail show ?thesis by simp
  next
    case 3
    then have "sorted_wrt (<) (map fst (btree_push k v m))" using "2.IH" tail(2) by blast
    moreover have "\<forall>x \<in> set (map fst (btree_push k v m)). k' < x"
      using tail(1) 3 unfolding btree_push_keys by simp
    ultimately show ?thesis using 3 by simp
  qed (use "2.prems" in simp)
qed simp

lemma btree_push_mem:
  "(k', us) \<in> set (btree_push k v m) \<Longrightarrow>
   (k', us) \<in> set m \<or> (k' = k \<and> (us = [v] \<or> (\<exists>vs. (k, vs) \<in> set m \<and> us = vs @ [v])))"
  by (induction k v m rule: btree_push.induct) (auto split: if_splits)

definition grouped_by_partition :: "disk_env \<Rightarrow> (string \<times> node_disk_usage list) list \<Rightarrow> bool" where
  "grouped_by_partition env m \<longleftrightarrow>
     sorted_wrt (<) (map fst m) \<and>
     (\<forall>(k, us) \<in> set m. us \<noteq> [] \<and> (\<forall>u \<in> set us. partition_key env (du_data_dir u) = k))"

lemma group_nodes_spec:
  "grouped_by_partition env (group_nodes env ns) \<and>
   mset (concat (map snd (group_nodes env ns))) = mset (map (usage_of env) ns)"
proof -
  have "grouped_by_partition env (foldl push m ns) \<and>
      mset (concat (map snd (foldl push m ns))) = mset (concat (map snd m)) + mset (map (usage_of env) ns)"
    if "grouped_by_partition env m" and "push = (\<lambda>m n. btree_push (partition_key env (snd n)) (usage_of env n) m)"
    for m push
    using that
  proof (induction ns arbitrary: m)
    case (Cons n ns)
    have "us \<noteq> [] \<and> (\<forall>u \<in> set us. partition_key env (du_data_dir u) = k)" if "(k, us) \<in> set (push m n)" for k us
      using btree_push_mem [OF that [unfolded Cons.prems(2)]] Cons.prems(1)
      by (fastforce simp: grouped_by_partition_def usage_of_def)
    then have "grouped_by_partition env (push m n)"
      using Cons.prems btree_push_sorted by (auto simp: grouped_by_partition_def)
    from Cons.IH [OF this Cons.prems(2)] show ?case by (simp add: Cons.prems(2) btree_push_mset)
  qed simp
  from this [of "[]"] show ?thesis by (simp add: group_nodes_def grouped_by_partition_def)
qed

text \<open>Every node of a partition's state was asked for, lives on that partition, and is measured.\<close>

lemma partition_state_nodes:
  assumes "p \<in> set (partition_states env ns)"
  shows "ps_nodes p \<noteq> []"
    and "\<And>u. u \<in> set (ps_nodes p) \<Longrightarrow> u \<in> usage_of env ` set ns \<and> partition_key env (du_data_dir u) = ps_partition p"
proof -
  obtain us where us: "(ps_partition p, us) \<in> set (group_nodes env ns)" "ps_nodes p = us"
    using assms by (auto simp: partition_states_def map_filter_def split: list.splits)
  then show "ps_nodes p \<noteq> []" using group_nodes_spec [of env ns] by (auto simp: grouped_by_partition_def)
  fix u
  assume u: "u \<in> set (ps_nodes p)"
  then have "u \<in># mset (concat (map snd (group_nodes env ns)))" using us by force
  then have "u \<in> usage_of env ` set ns" using group_nodes_spec [of env ns] by simp
  moreover have "partition_key env (du_data_dir u) = ps_partition p"
    using group_nodes_spec [of env ns] us u by (fastforce simp: grouped_by_partition_def)
  ultimately show "u \<in> usage_of env ` set ns \<and> partition_key env (du_data_dir u) = ps_partition p" by simp
qed

subsection \<open>The health snapshot names what would be evicted\<close>

lemma check_level:
  "hc_level (disk_space_check p th) =
     (if ps_available_bytes p \<le> eviction_bytes th then Critical
      else if ps_available_bytes p \<le> warning_bytes th then Warning else Green)"
  by (simp add: disk_space_check_def level_and_summary_def Let_def)

lemma check_candidate:
  "hc_candidate (disk_space_check p th) =
     (if can_evict p \<and> hc_level (disk_space_check p th) \<noteq> Green
      then map_option (\<lambda>c. \<lparr>ec_node_id = du_node_id c, ec_data_dir = du_data_dir c, ec_size_bytes = du_size_bytes c\<rparr>)
             (eviction_candidate p)
      else None)"
  by (simp add: disk_space_check_def level_and_summary_def Let_def)

lemma worst_rank: "health_rank (worst a b) = max (health_rank a) (health_rank b)"
  by (simp add: worst_def)

lemma overall_worst:
  "health_rank (foldl (\<lambda>acc c. worst acc (hc_level c)) l cs) = Max (insert (health_rank l) (health_rank ` hc_level ` set cs))"
proof (induction cs arbitrary: l)
  case (Cons c cs)
  have "Max (insert (max a b) S) = Max (insert a (insert b S))" if "finite S" for a b :: nat and S
    using that by (cases "S = {}") (auto simp: max.assoc)
  then show ?case using Cons by (simp add: worst_rank)
qed simp

end
