(* ===== verification/Supervisor.thy ===== *)
theory Supervisor
  imports Node_Disk
begin

text \<open>
  The node supervisor of the daemon, \<^verbatim>\<open>ant-core/src/node/daemon/supervisor.rs\<close>, with the
  events of \<^verbatim>\<open>node/events.rs\<close>: its state, its operations, adoption of running processes,
  crash accounting and the low-disk decision. The tasks that interleave over it (monitors, the
  liveness sweep, the eviction cycle and the requests of the server) are in the theory
  \<open>Daemon\<close>.

  An operation is a function on the \<open>world\<close>: the supervisor, the registry in memory and its file,
  the live processes, the pid files, the versions of the binaries, the clock and the events sent.
  What the operating system decides (whether a spawn succeeds and with which pid, whether a killed
  process dies) is an argument. Instants and durations are in nanoseconds.
\<close>

section \<open>State\<close>

definition secs :: "nat \<Rightarrow> duration" where
  "secs n = n * NANOS_PER_SEC"

definition RESTART_EXIT_CODE :: int where "RESTART_EXIT_CODE = 100"
definition MAX_EVICTIONS_PER_CYCLE :: nat where "MAX_EVICTIONS_PER_CYCLE = 4"
definition MAX_CRASHES_BEFORE_ERRORED :: nat where "MAX_CRASHES_BEFORE_ERRORED = 5"
definition CRASH_WINDOW :: duration where "CRASH_WINDOW = secs 300"
definition STABLE_DURATION :: duration where "STABLE_DURATION = secs 300"
definition MAX_BACKOFF :: duration where "MAX_BACKOFF = secs 60"

datatype node_event =
    NodeStarting u32
  | NodeStarted u32 u32
  | NodeStopping u32
  | NodeStopped u32
  | NodeCrashed u32 "int option"
  | NodeRestarting u32 nat
  | NodeErrored u32 string
  | NodeUpgraded u32 string string
  | NodeWasEvicted u32 string nat
  | FleetHealthChanged string

record node_runtime =
  rt_status :: node_status
  rt_pid :: "u32 option"
  rt_started_at :: "nat option"
  rt_restart_count :: nat
  rt_first_crash_at :: "nat option"

record supervisor =
  node_states :: "(u32 \<times> node_runtime) list"
  adopted :: "u32 list"
  evicting :: "u32 list"

definition new_supervisor :: supervisor where
  "new_supervisor = \<lparr>node_states = [], adopted = [], evicting = []\<rparr>"

text \<open>
  A \<^verbatim>\<open>monitor_node\<close> task: the configuration it owns, the child it holds, and the
  \<^verbatim>\<open>await\<close> it is at. Its steps are in \<open>Daemon\<close>.
\<close>

datatype monitor_pc =
    Waiting
  | ExitSeen "int option"
  | ReadVersion "int option"
  | UpgradeSpawned u32
  | UpgradeRecorded u32 string "string option"
  | Crashed
  | Sleeping
  | Respawned u32
  | Failing

record monitor =
  m_config :: node_config
  m_pid :: u32
  m_pc :: monitor_pc

record world =
  w_sup :: supervisor
  w_reg :: node_registry
  w_file :: "node_registry option"
  w_file_writable :: bool
  w_alive :: "u32 list"
  w_pid_files :: "(path \<times> string) list"
  w_pid_writable :: "path \<Rightarrow> bool"
  w_version :: "path \<Rightarrow> string option"
  w_now :: nat
  w_unix_secs :: nat
  w_events :: "node_event list"
  w_health :: fleet_health
  w_deleted :: "path list"
  w_monitors :: "monitor list"

definition send :: "node_event \<Rightarrow> world \<Rightarrow> world" where
  "send e w = w\<lparr>w_events := w_events w @ [e]\<rparr>"

definition update_sup :: "(supervisor \<Rightarrow> supervisor) \<Rightarrow> world \<Rightarrow> world" where
  "update_sup f w = w\<lparr>w_sup := f (w_sup w)\<rparr>"

definition save_registry :: "world \<Rightarrow> world" where
  "save_registry w = (if w_file_writable w then w\<lparr>w_file := Some (w_reg w)\<rparr> else w)"

section \<open>Pid files and the process table\<close>

definition node_pid_file :: "path \<Rightarrow> path" where
  "node_pid_file data_dir = path_join data_dir ''node.pid''"

definition write_node_pid :: "path \<Rightarrow> u32 \<Rightarrow> world \<Rightarrow> world" where
  "write_node_pid data_dir pid w =
     (let f = node_pid_file data_dir
      in if w_pid_writable w f then w\<lparr>w_pid_files := AList.update f (show_nat (unat pid)) (w_pid_files w)\<rparr> else w)"

definition remove_node_pid :: "path \<Rightarrow> world \<Rightarrow> world" where
  "remove_node_pid data_dir w = w\<lparr>w_pid_files := AList.delete (node_pid_file data_dir) (w_pid_files w)\<rparr>"

definition read_node_pid :: "path \<Rightarrow> world \<Rightarrow> u32 option" where
  "read_node_pid data_dir w =
     Option.bind (map_of (w_pid_files w) (node_pid_file data_dir))
       (\<lambda>s. map_option of_nat (parse_unsigned (2 ^ 32) (trim s)))"

definition pid_to_i32 :: "u32 \<Rightarrow> int option" where
  "pid_to_i32 pid = (if 0 < unat pid \<and> unat pid < 2 ^ 31 then Some (int (unat pid)) else None)"

definition is_process_alive :: "u32 \<Rightarrow> world \<Rightarrow> bool" where
  "is_process_alive pid w \<longleftrightarrow> pid_to_i32 pid \<noteq> None \<and> pid \<in> set (w_alive w)"

text \<open>An entry of \<^verbatim>\<open>sysinfo\<close>'s process table, in the order the table is iterated.\<close>

record proc_info =
  pi_pid :: u32
  pi_is_thread :: bool
  pi_exe :: "path option"
  pi_cmd :: "string list"
  pi_start_secs :: nat

definition strip_prefix :: "string \<Rightarrow> string \<Rightarrow> string option" where
  "strip_prefix p s = (if take (length p) s = p then Some (drop (length p) s) else None)"

fun matches_root_dir :: "path \<Rightarrow> string list \<Rightarrow> bool" where
  "matches_root_dir dir [] = False"
| "matches_root_dir dir (arg # rest) =
     ((case strip_prefix ''--root-dir='' arg of
         Some v \<Rightarrow> v = dir
       | None \<Rightarrow> arg = ''--root-dir'' \<and> (case rest of v # _ \<Rightarrow> v = dir | [] \<Rightarrow> False)) \<or>
      matches_root_dir dir rest)"

definition find_running_node_process :: "proc_info list \<Rightarrow> node_config \<Rightarrow> u32 option" where
  "find_running_node_process sys config =
     map_option pi_pid
       (find (\<lambda>p. \<not> pi_is_thread p \<and> pi_exe p = Some (nc_binary_path config) \<and>
                  matches_root_dir (nc_data_dir config) (pi_cmd p)) sys)"

definition pid_is_live_process :: "u32 \<Rightarrow> proc_info list \<Rightarrow> world \<Rightarrow> bool" where
  "pid_is_live_process pid sys w \<longleftrightarrow>
     is_process_alive pid w \<and>
     (case find (\<lambda>p. pi_pid p = pid) sys of Some p \<Rightarrow> \<not> pi_is_thread p | None \<Rightarrow> True)"

definition scan_for_pid :: "node_config \<Rightarrow> proc_info list \<Rightarrow> world \<Rightarrow> u32 option \<times> world" where
  "scan_for_pid config sys w =
     (case find_running_node_process sys config of
        None \<Rightarrow> (None, w)
      | Some pid \<Rightarrow> (Some pid, write_node_pid (nc_data_dir config) pid w))"

definition resolve_adopted_pid :: "node_config \<Rightarrow> proc_info list \<Rightarrow> world \<Rightarrow> u32 option \<times> world" where
  "resolve_adopted_pid config sys w =
     (case read_node_pid (nc_data_dir config) w of
        Some pid \<Rightarrow>
          if pid_is_live_process pid sys w then (Some pid, w)
          else scan_for_pid config sys (remove_node_pid (nc_data_dir config) w)
      | None \<Rightarrow> scan_for_pid config sys w)"

definition process_started_at :: "proc_info list \<Rightarrow> u32 \<Rightarrow> world \<Rightarrow> nat option" where
  "process_started_at sys pid w =
     (case find (\<lambda>p. pi_pid p = pid) sys of
        None \<Rightarrow> None
      | Some p \<Rightarrow>
          let age = secs (w_unix_secs w - pi_start_secs p)
          in if age \<le> w_now w then Some (w_now w - age) else None)"

section \<open>Operations of the supervisor\<close>

definition is_adopted :: "u32 \<Rightarrow> supervisor \<Rightarrow> bool" where
  "is_adopted nid sv \<longleftrightarrow> nid \<in> set (adopted sv)"

definition begin_evicting :: "u32 \<Rightarrow> supervisor \<Rightarrow> supervisor" where
  "begin_evicting nid sv = sv\<lparr>evicting := List.insert nid (evicting sv)\<rparr>"

definition finish_evicting :: "u32 \<Rightarrow> supervisor \<Rightarrow> supervisor" where
  "finish_evicting nid sv = sv\<lparr>evicting := removeAll nid (evicting sv)\<rparr>"

definition mark_owned :: "u32 \<Rightarrow> supervisor \<Rightarrow> supervisor" where
  "mark_owned nid sv = sv\<lparr>adopted := removeAll nid (adopted sv)\<rparr>"

definition insert_state :: "u32 \<Rightarrow> node_runtime \<Rightarrow> supervisor \<Rightarrow> supervisor" where
  "insert_state nid rt sv = sv\<lparr>node_states := AList.update nid rt (node_states sv)\<rparr>"

text \<open>Writing through \<^verbatim>\<open>node_states.get_mut\<close>.\<close>

definition modify_runtime :: "u32 \<Rightarrow> (node_runtime \<Rightarrow> node_runtime) \<Rightarrow> supervisor \<Rightarrow> supervisor" where
  "modify_runtime nid f sv = sv\<lparr>node_states := AList.map_entry nid f (node_states sv)\<rparr>"

definition runtime :: "u32 \<Rightarrow> supervisor \<Rightarrow> node_runtime option" where
  "runtime nid sv = map_of (node_states sv) nid"

definition node_status :: "u32 \<Rightarrow> supervisor \<Rightarrow> (node_error, node_status) result" where
  "node_status nid sv = ok_or (map_option rt_status (runtime nid sv)) (NodeNotFound nid)"

definition node_pid :: "u32 \<Rightarrow> supervisor \<Rightarrow> u32 option" where
  "node_pid nid sv = Option.bind (runtime nid sv) rt_pid"

definition node_uptime_secs :: "u32 \<Rightarrow> nat \<Rightarrow> supervisor \<Rightarrow> nat option" where
  "node_uptime_secs nid now sv =
     Option.bind (runtime nid sv) (\<lambda>rt. map_option (\<lambda>t. (now - t) div NANOS_PER_SEC) (rt_started_at rt))"

definition is_running :: "u32 \<Rightarrow> supervisor \<Rightarrow> bool" where
  "is_running nid sv \<longleftrightarrow> (case runtime nid sv of Some rt \<Rightarrow> rt_status rt = Running | None \<Rightarrow> False)"

fun count_state :: "nat \<times> nat \<times> nat \<Rightarrow> node_runtime \<Rightarrow> nat \<times> nat \<times> nat" where
  "count_state (running, stopped, errored) rt =
     (case rt_status rt of
        Running \<Rightarrow> (running + 1, stopped, errored)
      | Starting \<Rightarrow> (running + 1, stopped, errored)
      | Stopped \<Rightarrow> (running, stopped + 1, errored)
      | Stopping \<Rightarrow> (running, stopped + 1, errored)
      | Evicted \<Rightarrow> (running, stopped + 1, errored)
      | Errored \<Rightarrow> (running, stopped, errored + 1))"

definition node_counts :: "supervisor \<Rightarrow> nat \<times> nat \<times> nat" where
  "node_counts sv = foldl count_state (0, 0, 0) (map snd (node_states sv))"

definition update_state :: "u32 \<Rightarrow> node_status \<Rightarrow> u32 option \<Rightarrow> nat \<Rightarrow> supervisor \<Rightarrow> supervisor" where
  "update_state nid status pid now sv =
     modify_runtime nid (\<lambda>rt. rt\<lparr>rt_status := status, rt_pid := pid,
       rt_started_at := (if status = Running then Some now else None)\<rparr>) sv"

definition fresh_runtime :: "node_status \<Rightarrow> u32 option \<Rightarrow> nat option \<Rightarrow> node_runtime" where
  "fresh_runtime status pid started =
     \<lparr>rt_status = status, rt_pid = pid, rt_started_at = started, rt_restart_count = 0, rt_first_crash_at = None\<rparr>"

fun adopt_nodes :: "proc_info list \<Rightarrow> node_config list \<Rightarrow> world \<Rightarrow> u32 list \<times> world" where
  "adopt_nodes sys [] w = ([], w)"
| "adopt_nodes sys (config # rest) w =
     (case resolve_adopted_pid config sys w of
        (None, w) \<Rightarrow> adopt_nodes sys rest w
      | (Some pid, w) \<Rightarrow>
          let started = (case process_started_at sys pid w of Some t \<Rightarrow> t | None \<Rightarrow> w_now w);
              w = update_sup (insert_state (nc_id config) (fresh_runtime Running (Some pid) (Some started))) w;
              w = update_sup (\<lambda>sv. sv\<lparr>adopted := List.insert (nc_id config) (adopted sv)\<rparr>) w;
              w = send (NodeStarted (nc_id config) pid) w;
              (ids, w) = adopt_nodes sys rest w
          in (nc_id config # ids, w))"

definition adopt_from_registry :: "proc_info list \<Rightarrow> world \<Rightarrow> u32 list \<times> world" where
  "adopt_from_registry sys w = adopt_nodes sys (list_nodes (w_reg w)) w"

subsection \<open>Crash accounting\<close>

definition reset_if_stable :: "nat \<Rightarrow> node_runtime \<Rightarrow> node_runtime" where
  "reset_if_stable now rt =
     (case rt_started_at rt of
        Some started \<Rightarrow>
          if STABLE_DURATION \<le> now - started then rt\<lparr>rt_restart_count := 0, rt_first_crash_at := None\<rparr> else rt
      | None \<Rightarrow> rt)"

definition backoff_for :: "nat \<Rightarrow> duration" where
  "backoff_for attempt = min (secs (2 ^ min (attempt - 1) 5)) MAX_BACKOFF"

definition crash_runtime :: "nat \<Rightarrow> node_runtime \<Rightarrow> (bool \<times> nat \<times> duration) \<times> node_runtime" where
  "crash_runtime now rt =
     (let rt = reset_if_stable now rt;
          attempt = rt_restart_count rt + 1;
          first_crash = (case rt_first_crash_at rt of Some t \<Rightarrow> t | None \<Rightarrow> now);
          rt = rt\<lparr>rt_restart_count := attempt, rt_first_crash_at := Some first_crash\<rparr>
      in if MAX_CRASHES_BEFORE_ERRORED \<le> attempt \<and> now - first_crash < CRASH_WINDOW
         then ((False, attempt, 0), rt\<lparr>rt_status := Errored, rt_pid := None, rt_started_at := None\<rparr>)
         else ((True, attempt, backoff_for attempt), rt))"

definition record_crash :: "u32 \<Rightarrow> nat \<Rightarrow> supervisor \<Rightarrow> (bool \<times> nat \<times> duration) \<times> supervisor" where
  "record_crash nid now sv =
     (case runtime nid sv of
        None \<Rightarrow> ((False, 0, 0), sv)
      | Some rt \<Rightarrow> (fst (crash_runtime now rt), modify_runtime nid (\<lambda>rt. snd (crash_runtime now rt)) sv))"

section \<open>Processes\<close>

definition option_list :: "('a \<Rightarrow> 'b list) \<Rightarrow> 'a option \<Rightarrow> 'b list" where
  "option_list f x = (case x of Some v \<Rightarrow> f v | None \<Rightarrow> [])"

definition build_node_args :: "node_config \<Rightarrow> string list" where
  "build_node_args config =
     [''--rewards-address'', nc_rewards_address config, ''--root-dir'', nc_data_dir config] @
     option_list (\<lambda>dir. [''--enable-logging'', ''--log-dir'', dir]) (nc_log_dir config) @
     option_list (\<lambda>port. [''--port'', show_nat (unat port)]) (nc_node_port config) @
     concat (map (\<lambda>peer. [''--bootstrap'', peer]) (nc_bootstrap_peers config)) @
     option_list (\<lambda>channel. [''--upgrade-channel'', channel_arg channel]) (nc_upgrade_channel config) @
     [''--stop-on-upgrade''] @
     [''--evm-network'', as_arg (nc_evm_network config)]"

definition is_upgrade_restart_exit_code :: "int option \<Rightarrow> bool" where
  "is_upgrade_restart_exit_code exit_code \<longleftrightarrow> exit_code = Some 0 \<or> exit_code = Some RESTART_EXIT_CODE"

text \<open>What the operating system makes of a spawn, and of the health check one second later.\<close>

datatype spawn_outcome = SpawnFailed string | SpawnedNoPid | Spawned u32
datatype start_check = ExitedAtOnce string | CheckFailed string | StillUp

definition spawn_node_from_config ::
    "node_config \<Rightarrow> spawn_outcome \<Rightarrow> world \<Rightarrow> (node_error, u32 option) result \<times> world" where
  "spawn_node_from_config config out w =
     (case out of
        SpawnFailed e \<Rightarrow> (Inl (ProcessSpawn e), w)
      | SpawnedNoPid \<Rightarrow> (Inr None, w)
      | Spawned pid \<Rightarrow>
          (Inr (Some pid), write_node_pid (nc_data_dir config) pid (w\<lparr>w_alive := List.insert pid (w_alive w)\<rparr>)))"

text \<open>
  Killing a process: \<open>alive t\<close> is what the liveness probe answers \<open>t\<close> milliseconds after the
  first signal. The result is the signals sent, the milliseconds taken, and whether it was seen dead.
\<close>

datatype signal = SIGTERM | SIGKILL

definition GRACEFUL_SHUTDOWN_TIMEOUT_MS :: nat where "GRACEFUL_SHUTDOWN_TIMEOUT_MS = 10000"

function wait_for_exit :: "(nat \<Rightarrow> bool) \<Rightarrow> nat \<Rightarrow> nat \<times> bool" where
  "wait_for_exit alive t =
     (if \<not> alive t then (t, True)
      else if GRACEFUL_SHUTDOWN_TIMEOUT_MS \<le> t then (t, False)
      else wait_for_exit alive (t + 100))"
  by pat_completeness auto
termination
  by (relation "measure (\<lambda>(_, t). GRACEFUL_SHUTDOWN_TIMEOUT_MS - t)") auto

declare wait_for_exit.simps [simp del]

fun wait_after_kill :: "nat \<Rightarrow> (nat \<Rightarrow> bool) \<Rightarrow> nat \<Rightarrow> nat \<times> bool" where
  "wait_after_kill 0 alive t = (t, False)"
| "wait_after_kill (Suc n) alive t = (if \<not> alive t then (t, True) else wait_after_kill n alive (t + 50))"

definition kill_sequence :: "(nat \<Rightarrow> bool) \<Rightarrow> signal list \<times> nat \<times> bool" where
  "kill_sequence alive =
     (case wait_for_exit alive 0 of
        (t, True) \<Rightarrow> ([SIGTERM], t, True)
      | (t, False) \<Rightarrow> ([SIGTERM, SIGKILL], wait_after_kill 10 alive t))"

definition graceful_kill :: "u32 \<Rightarrow> (nat \<Rightarrow> bool) \<Rightarrow> world \<Rightarrow> world" where
  "graceful_kill pid alive w =
     (case kill_sequence (\<lambda>t. is_process_alive pid w \<and> alive t) of
        (_, t, died) \<Rightarrow>
          w\<lparr>w_now := w_now w + t * 1000000,
            w_alive := (if died then removeAll pid (w_alive w) else w_alive w)\<rparr>)"

record node_started =
  ns_node_id :: u32
  ns_service_name :: string
  ns_pid :: u32

definition start_node ::
    "node_config \<Rightarrow> spawn_outcome \<Rightarrow> start_check \<Rightarrow> world \<Rightarrow> (node_error, node_started) result \<times> world" where
  "start_node config out check w =
     (let nid = nc_id config
      in if nc_eviction config \<noteq> None \<or> nid \<in> set (evicting (w_sup w)) then (Inl (NodeEvicted nid), w)
         else if is_running nid (w_sup w) then (Inl (NodeAlreadyRunning nid), w)
         else case spawn_node_from_config config out (send (NodeStarting nid) w) of
           (Inl e, w) \<Rightarrow> (Inl e, w)
         | (Inr None, w) \<Rightarrow> (Inl (ProcessSpawn ''Failed to get PID from spawned process''), w)
         | (Inr (Some pid), w) \<Rightarrow>
             (case check of
                ExitedAtOnce detail \<Rightarrow>
                  (Inl (ProcessSpawn (''Node '' @ show_nat (unat nid) @ '' exited immediately: '' @ detail)),
                   update_sup (insert_state nid (fresh_runtime Errored None None))
                     (w\<lparr>w_alive := removeAll pid (w_alive w)\<rparr>))
              | CheckFailed e \<Rightarrow> (Inl (ProcessSpawn (''Failed to check node process status: '' @ e)), w)
              | StillUp \<Rightarrow>
                  let w = update_sup (insert_state nid (fresh_runtime Running (Some pid) (Some (w_now w)))) w;
                      w = update_sup (mark_owned nid) w;
                      w = send (NodeStarted nid pid) w
                  in (Inr \<lparr>ns_node_id = nid, ns_service_name = nc_service_name config, ns_pid = pid\<rparr>,
                      w\<lparr>w_monitors := w_monitors w @ [\<lparr>m_config = config, m_pid = pid, m_pc = Waiting\<rparr>]\<rparr>)))"

text \<open>\<open>alive\<close> is the answer of the operating system for the process that is killed.\<close>

definition stop_node :: "u32 \<Rightarrow> (nat \<Rightarrow> bool) \<Rightarrow> world \<Rightarrow> (node_error, unit) result \<times> world" where
  "stop_node nid alive w =
     (case runtime nid (w_sup w) of
        None \<Rightarrow> (Inl (NodeNotFound nid), w)
      | Some rt \<Rightarrow>
          if rt_status rt \<noteq> Running then (Inl (NodeNotRunning nid), w)
          else
            let w = send (NodeStopping nid) w;
                w = update_sup (modify_runtime nid (\<lambda>rt. rt\<lparr>rt_status := Stopping\<rparr>)) w;
                w = (case rt_pid rt of Some pid \<Rightarrow> graceful_kill pid alive w | None \<Rightarrow> w);
                w = update_sup (modify_runtime nid (\<lambda>rt. rt\<lparr>rt_status := Stopped, rt_pid := None, rt_started_at := None\<rparr>)) w
            in (Inr (), send (NodeStopped nid) w))"

record stop_node_result =
  sn_stopped :: "(u32 \<times> string) list"
  sn_failed :: "(u32 \<times> string \<times> node_error) list"
  sn_already_stopped :: "u32 list"

definition stop_one ::
    "(u32 \<Rightarrow> nat \<Rightarrow> bool) \<Rightarrow> stop_node_result \<times> world \<Rightarrow> u32 \<times> string \<Rightarrow> stop_node_result \<times> world" where
  "stop_one alive acc node =
     (case (acc, node) of ((r, w), (nid, name)) \<Rightarrow>
        if node_status nid (w_sup w) \<noteq> Inr Running
        then (r\<lparr>sn_already_stopped := sn_already_stopped r @ [nid]\<rparr>, w)
        else case stop_node nid (alive nid) w of
               (Inr _, w) \<Rightarrow> (r\<lparr>sn_stopped := sn_stopped r @ [(nid, name)]\<rparr>, w)
             | (Inl (NodeNotRunning _), w) \<Rightarrow> (r\<lparr>sn_already_stopped := sn_already_stopped r @ [nid]\<rparr>, w)
             | (Inl e, w) \<Rightarrow> (r\<lparr>sn_failed := sn_failed r @ [(nid, name, e)]\<rparr>, w))"

definition stop_all_nodes ::
    "(u32 \<Rightarrow> nat \<Rightarrow> bool) \<Rightarrow> (u32 \<times> string) list \<Rightarrow> world \<Rightarrow> stop_node_result \<times> world" where
  "stop_all_nodes alive configs w =
     foldl (stop_one alive) (\<lparr>sn_stopped = [], sn_failed = [], sn_already_stopped = []\<rparr>, w) configs"

section \<open>Upgrades\<close>

text \<open>
  \<^verbatim>\<open>respawn_upgraded_node\<close> in its three parts: it spawns, then records the version of
  the replaced binary under the lock of the registry, then publishes the process under the lock
  of the supervisor.
\<close>

definition respawn_spawn :: "node_config \<Rightarrow> spawn_outcome \<Rightarrow> world \<Rightarrow> (node_error, u32) result \<times> world" where
  "respawn_spawn config out w =
     (case spawn_node_from_config config out w of
        (Inl e, w) \<Rightarrow> (Inl e, w)
      | (Inr None, w) \<Rightarrow> (Inl (ProcessSpawn ''Failed to get PID after upgrade respawn''), w)
      | (Inr (Some pid), w) \<Rightarrow> (Inr pid, w))"

definition respawn_record :: "node_config \<Rightarrow> world \<Rightarrow> node_config \<times> string option \<times> world" where
  "respawn_record config w =
     (case w_version w (nc_binary_path config) of
        None \<Rightarrow> (config, None, w)
      | Some version \<Rightarrow>
          (config\<lparr>nc_version := version\<rparr>, Some version,
           if map_of (nodes (w_reg w)) (nc_id config) = None then w
           else save_registry (w\<lparr>w_reg := get_mut (w_reg w) (nc_id config) (\<lambda>c. c\<lparr>nc_version := version\<rparr>)\<rparr>)))"

definition respawn_publish :: "u32 \<Rightarrow> u32 \<Rightarrow> string \<Rightarrow> string option \<Rightarrow> world \<Rightarrow> world" where
  "respawn_publish nid pid old_version new_version w =
     (let w = update_sup (modify_runtime nid (\<lambda>rt. fresh_runtime Running (Some pid) (Some (w_now w)))) w;
          w = send (NodeStarted nid pid) w
      in case new_version of Some version \<Rightarrow> send (NodeUpgraded nid old_version version) w | None \<Rightarrow> w)"

definition liveness_should_stop :: "bool \<Rightarrow> u32 \<Rightarrow> u32 option \<Rightarrow> node_status option \<Rightarrow> bool" where
  "liveness_should_stop adopted_here snapshot_pid current_pid current_status \<longleftrightarrow>
     adopted_here \<and> current_status = Some Running \<and> current_pid = Some snapshot_pid"

section \<open>Eviction\<close>

definition running_nodes :: "world \<Rightarrow> (u32 \<times> path) list" where
  "running_nodes w =
     map (\<lambda>c. (nc_id c, nc_data_dir c))
       (filter (\<lambda>c. node_status (nc_id c) (w_sup w) = Inr Running)
         (filter (\<lambda>c. nc_eviction c = None) (list_nodes (w_reg w))))"

definition eviction_target :: "disk_thresholds \<Rightarrow> partition_state list \<Rightarrow> partition_state option" where
  "eviction_target thresholds partitions =
     find (\<lambda>p. ps_available_bytes p \<le> eviction_bytes thresholds \<and> 2 \<le> length (ps_nodes p)) partitions"

definition persist_eviction_marker :: "u32 \<Rightarrow> string \<Rightarrow> nat \<Rightarrow> nat \<Rightarrow> world \<Rightarrow> world" where
  "persist_eviction_marker nid reason evicted_at reclaimed w =
     save_registry (w\<lparr>w_reg := get_mut (w_reg w) nid (\<lambda>c. c\<lparr>nc_eviction :=
       Some \<lparr>er_reason = reason, er_evicted_at = evicted_at, er_reclaimed_bytes = reclaimed\<rparr>\<rparr>)\<rparr>)"

text \<open>Deleting with retries: the answers of the attempts, and the milliseconds slept.\<close>

datatype rm_result = RmOk | RmNotFound | RmError string

fun rm_attempts :: "(nat \<Rightarrow> rm_result) \<Rightarrow> nat \<Rightarrow> nat \<Rightarrow> nat \<Rightarrow> nat \<Rightarrow> (string, unit) result \<times> nat" where
  "rm_attempts answer attempt delay slept 0 = (Inr (), slept)"
| "rm_attempts answer attempt delay slept (Suc left) =
     (case answer attempt of
        RmOk \<Rightarrow> (Inr (), slept)
      | RmNotFound \<Rightarrow> (Inr (), slept)
      | RmError e \<Rightarrow>
          if left = 0 then (Inl e, slept)
          else rm_attempts answer (attempt + 1) (min (delay * 2) 1000) (slept + delay) left)"

definition remove_dir_all_with_retry :: "(nat \<Rightarrow> rm_result) \<Rightarrow> (string, unit) result \<times> nat" where
  "remove_dir_all_with_retry answer = rm_attempts answer 1 100 0 8"

definition sup_fmt_bytes :: "nat \<Rightarrow> string" where
  "sup_fmt_bytes n =
     (let mib = f64_mul (Fin 1024) (Fin 1024); gib = f64_mul (Fin 1024) mib; b = f64_of_nat n
      in if f64_le gib b then format_fixed 2 (f64_div b gib) @ '' GiB'' else format_fixed 0 (f64_div b mib) @ '' MiB'')"

definition pending_reason :: "nat \<Rightarrow> nat \<Rightarrow> string" where
  "pending_reason available_before reclaimable =
     ''Automatically evicted to reclaim disk space: only '' @ sup_fmt_bytes available_before @
     '' free on its partition. Deleting its data directory to recover ~'' @ sup_fmt_bytes reclaimable @ ''.''"

definition final_reason :: "bool \<Rightarrow> nat \<Rightarrow> node_disk_usage \<Rightarrow> nat \<times> string" where
  "final_reason deleted available_before candidate =
     (if deleted then
        (du_size_bytes candidate,
         ''Automatically evicted to reclaim disk space: only '' @ sup_fmt_bytes available_before @
         '' free on its partition. Its data directory was deleted, recovering ~'' @
         sup_fmt_bytes (du_size_bytes candidate) @ ''.'')
      else
        (0,
         ''Automatically evicted due to low disk space (only '' @ sup_fmt_bytes available_before @
         '' free on its partition), but its data directory could not be deleted, so space was not reclaimed. '' @
         ''Manual cleanup of '' @ du_data_dir candidate @ '' may be needed.''))"

fun level_name :: "health_level \<Rightarrow> string" where
  "level_name Green = ''green''"
| "level_name Warning = ''warning''"
| "level_name Critical = ''critical''"

definition publish_health :: "fleet_health \<Rightarrow> world \<Rightarrow> world" where
  "publish_health next_health w =
     (let changed = fh_overall (w_health w) \<noteq> fh_overall next_health;
          w = w\<lparr>w_health := next_health\<rparr>
      in if changed then send (FleetHealthChanged (level_name (fh_overall next_health))) w else w)"

section \<open>Properties of the operations\<close>

named_theorems sup_rules "what the operations do to the supervisor's state"

lemma runtime_insert [sup_rules]: "runtime nid (insert_state k rt sv) = (if nid = k then Some rt else runtime nid sv)"
  by (simp add: runtime_def insert_state_def update_conv')

lemma runtime_modify [sup_rules]: "runtime nid (modify_runtime k f sv) = (if nid = k then map_option f (runtime k sv) else runtime nid sv)"
  by (simp add: runtime_def modify_runtime_def map_of_map_entry map_option_case)

lemma runtime_others [sup_rules]:
  "runtime nid (mark_owned k sv) = runtime nid sv"
  "runtime nid (begin_evicting k sv) = runtime nid sv"
  "runtime nid (finish_evicting k sv) = runtime nid sv"
  by (simp_all add: runtime_def mark_owned_def begin_evicting_def finish_evicting_def)

lemma adopted_rules [sup_rules]:
  "adopted (insert_state k rt sv) = adopted sv"
  "adopted (modify_runtime k f sv) = adopted sv"
  "adopted (begin_evicting k sv) = adopted sv"
  "adopted (finish_evicting k sv) = adopted sv"
  "adopted (mark_owned k sv) = removeAll k (adopted sv)"
  by (simp_all add: insert_state_def modify_runtime_def begin_evicting_def finish_evicting_def mark_owned_def)

lemma evicting_rules [sup_rules]:
  "evicting (insert_state k rt sv) = evicting sv"
  "evicting (modify_runtime k f sv) = evicting sv"
  "evicting (mark_owned k sv) = evicting sv"
  "set (evicting (begin_evicting k sv)) = insert k (set (evicting sv))"
  "set (evicting (finish_evicting k sv)) = set (evicting sv) - {k}"
  by (simp_all add: insert_state_def modify_runtime_def begin_evicting_def finish_evicting_def mark_owned_def)

lemma is_running_iff: "is_running nid sv \<longleftrightarrow> (\<exists>rt. runtime nid sv = Some rt \<and> rt_status rt = Running)"
  by (simp add: is_running_def split: option.splits)

lemma node_status_iff: "node_status nid sv = Inr s \<longleftrightarrow> (\<exists>rt. runtime nid sv = Some rt \<and> rt_status rt = s)"
  by (simp add: node_status_def results)

subsection \<open>Crash loops\<close>

text \<open>The life of a node that crashes at \<open>c\<close> and, when allowed, is running again at \<open>r\<close>, for a list of such pairs.\<close>

definition restarted :: "nat \<Rightarrow> node_runtime \<Rightarrow> node_runtime" where
  "restarted now rt = rt\<lparr>rt_status := Running, rt_started_at := Some now\<rparr>"

fun crash_run :: "node_runtime \<Rightarrow> (nat \<times> nat) list \<Rightarrow> (bool \<times> nat \<times> duration) list \<times> node_runtime" where
  "crash_run rt [] = ([], rt)"
| "crash_run rt ((c, r) # es) =
     (case crash_runtime c rt of
        (res, rt) \<Rightarrow>
          if fst res then (case crash_run (restarted r rt) es of (rs, rt) \<Rightarrow> (res # rs, rt)) else ([res], rt))"

text \<open>The backoff is a power of two seconds between 1 and 32; the cap of 60 seconds is never reached.\<close>

lemma backoff_bounds: "secs 1 \<le> backoff_for n" "backoff_for n \<le> secs 32" "backoff_for n = secs (2 ^ min (n - 1) 5)"
proof -
  have "(2::nat) ^ min (n - 1) 5 \<le> 2 ^ 5" by (rule power_increasing) auto
  then have "2 ^ min (n - 1) 5 \<le> (32::nat)" by simp
  then show eq: "backoff_for n = secs (2 ^ min (n - 1) 5)" and "backoff_for n \<le> secs 32"
    by (simp_all add: backoff_for_def MAX_BACKOFF_def secs_def NANOS_PER_SEC_def)
  show "secs 1 \<le> backoff_for n" unfolding eq by (simp add: secs_def)
qed

lemma crash_step:
  assumes "rt_started_at rt = Some s" and "c - s < STABLE_DURATION" and "rt_first_crash_at rt = Some f"
    and "rt_restart_count rt + 1 < MAX_CRASHES_BEFORE_ERRORED \<or> CRASH_WINDOW \<le> c - f"
  shows "crash_runtime c rt =
    ((True, rt_restart_count rt + 1, backoff_for (rt_restart_count rt + 1)),
     rt\<lparr>rt_restart_count := rt_restart_count rt + 1\<rparr>)"
  using assms by (auto simp: crash_runtime_def reset_if_stable_def Let_def)



text \<open>
  Once the first counted crash is older than the window, no crash rate gives the node up, as long as
  no run lasts long enough to reset the count: the window does not slide.
\<close>

fun short_runs :: "nat \<Rightarrow> (nat \<times> nat) list \<Rightarrow> bool" where
  "short_runs s [] = True"
| "short_runs s ((c, r) # es) = (c - s < STABLE_DURATION \<and> short_runs r es)"

theorem late_crash_loop_is_never_given_up:
  assumes "rt_started_at rt = Some s" and "rt_first_crash_at rt = Some f" and "short_runs s es"
    and "\<And>c r. (c, r) \<in> set es \<Longrightarrow> CRASH_WINDOW \<le> c - f"
  shows "length (fst (crash_run rt es)) = length es \<and> list_all fst (fst (crash_run rt es))"
  using assms
proof (induction es arbitrary: rt s)
  case Nil
  then show ?case by simp
next
  case (Cons e es)
  obtain c r where e: "e = (c, r)" by fastforce
  note step = crash_step [OF Cons.prems(1) _ Cons.prems(2)]
  have "length (fst (crash_run (restarted r (rt\<lparr>rt_restart_count := rt_restart_count rt + 1\<rparr>)) es)) = length es \<and>
      list_all fst (fst (crash_run (restarted r (rt\<lparr>rt_restart_count := rt_restart_count rt + 1\<rparr>)) es))"
    using Cons.prems by (intro Cons.IH [where s = r]) (auto simp: restarted_def e)
  moreover have "crash_runtime c rt = ((True, rt_restart_count rt + 1, backoff_for (rt_restart_count rt + 1)),
      rt\<lparr>rt_restart_count := rt_restart_count rt + 1\<rparr>)"
    using Cons.prems(3,4) e by (intro step) auto
  ultimately show ?case by (simp add: e case_prod_unfold)
qed

theorem late_crash_loop_is_never_given_up_witness:
  "list_all fst (fst (crash_run
     \<lparr>rt_status = Running, rt_pid = Some 7, rt_started_at = Some (secs 301), rt_restart_count = 4, rt_first_crash_at = Some 0\<rparr>
     [(secs 302, secs 303), (secs 304, secs 305), (secs 306, secs 307), (secs 308, secs 309), (secs 310, secs 311),
      (secs 312, secs 313)]))"
  by (intro conjunct2 [OF late_crash_loop_is_never_given_up [where s = "secs 301" and f = 0]])
     (auto simp: secs_def NANOS_PER_SEC_def STABLE_DURATION_def CRASH_WINDOW_def)

subsection \<open>Health and eviction agree\<close>

lemma find_map: "find P (map f xs) = map_option f (find (\<lambda>x. P (f x)) xs)"
  by (induction xs) simp_all

lemma critical_check_iff:
  "hc_level (disk_space_check p th) = Critical \<and> hc_candidate (disk_space_check p th) \<noteq> None \<longleftrightarrow>
   ps_available_bytes p \<le> eviction_bytes th \<and> 2 \<le> length (ps_nodes p)"
  using eviction_candidate_None [of p] by (auto simp: check_candidate check_level can_evict_def split: if_splits)

text \<open>
  C37: The first critical check that names a candidate is the partition the next eviction takes, and it
  names the node that is evicted; with no such check nothing is evicted.
\<close>

theorem health_names_the_next_eviction:
  "case eviction_target th ps of
     Some p \<Rightarrow>
       fh_overall (from_partitions ps th) = Critical \<and>
       map_option (\<lambda>c. (hc_partition c, map_option ec_node_id (hc_candidate c)))
         (find (\<lambda>c. hc_level c = Critical \<and> hc_candidate c \<noteq> None) (fh_checks (from_partitions ps th))) =
       Some (Some (ps_partition p), map_option du_node_id (eviction_candidate p))
   | None \<Rightarrow>
       find (\<lambda>c. hc_level c = Critical \<and> hc_candidate c \<noteq> None) (fh_checks (from_partitions ps th)) = None"
proof -
  have find: "find (\<lambda>c. hc_level c = Critical \<and> hc_candidate c \<noteq> None) (fh_checks (from_partitions ps th)) =
      map_option (\<lambda>p. disk_space_check p th) (eviction_target th ps)"
    by (simp only: from_partitions_def Let_def fleet_health.simps find_map critical_check_iff eviction_target_def)
  show ?thesis
  proof (cases "eviction_target th ps")
    case None
    then show ?thesis by (simp add: find del: not_None_eq)
  next
    case (Some p)
    then have p: "p \<in> set ps" "ps_available_bytes p \<le> eviction_bytes th" "2 \<le> length (ps_nodes p)"
      by (auto simp: eviction_target_def find_Some_iff)
    then have level: "hc_level (disk_space_check p th) = Critical" by (simp add: check_level)
    have "Max (insert 0 (health_rank ` hc_level ` (\<lambda>p. disk_space_check p th) ` set ps)) \<ge> 2"
      using p(1) level by (intro Max_ge_iff [THEN iffD2]) force+
    then have "2 \<le> health_rank (fh_overall (from_partitions ps th))"
      by (simp add: from_partitions_def Let_def overall_worst)
    then have "fh_overall (from_partitions ps th) = Critical"
      by (cases "fh_overall (from_partitions ps th)") simp_all
    moreover have "hc_partition (disk_space_check p th) = Some (ps_partition p)"
      by (simp add: disk_space_check_def case_prod_unfold Let_def)
    moreover have "map_option ec_node_id (hc_candidate (disk_space_check p th)) = map_option du_node_id (eviction_candidate p)"
      using p(3) level by (simp add: check_candidate can_evict_def option.map_comp comp_def)
    ultimately show ?thesis using Some by (simp add: find del: not_None_eq)
  qed
qed

subsection \<open>Bounded waits\<close>

lemma wait_for_exit_bound:
  "t \<le> GRACEFUL_SHUTDOWN_TIMEOUT_MS \<Longrightarrow> 100 dvd t \<Longrightarrow> fst (wait_for_exit alive t) \<le> GRACEFUL_SHUTDOWN_TIMEOUT_MS"
proof (induction alive t rule: wait_for_exit.induct)
  case (1 alive t)
  have "t + 100 \<le> GRACEFUL_SHUTDOWN_TIMEOUT_MS" if "t < GRACEFUL_SHUTDOWN_TIMEOUT_MS"
    using that "1.prems"(2) by (auto simp: GRACEFUL_SHUTDOWN_TIMEOUT_MS_def elim!: dvdE)
  then show ?case using 1 by (subst wait_for_exit.simps) (auto simp: not_le)
qed

lemma wait_after_kill_bound: "fst (wait_after_kill n alive t) \<le> t + 50 * n"
  by (induction n alive t rule: wait_after_kill.induct) auto

text \<open>Stopping a node takes at most ten and a half seconds of polling.\<close>

lemma kill_sequence_bound: "fst (snd (kill_sequence alive)) \<le> 10500"
  using wait_for_exit_bound [of 0 alive] wait_after_kill_bound [of 10 alive "fst (wait_for_exit alive 0)"]
  by (auto simp: kill_sequence_def GRACEFUL_SHUTDOWN_TIMEOUT_MS_def split: prod.splits bool.splits)

end
