(* ===== verification/Daemon.thy ===== *)
theory Daemon
  imports Supervisor
begin

text \<open>
  The daemon: the tasks of \<^verbatim>\<open>node/daemon/supervisor.rs\<close> (a monitor per node it spawned, the
  liveness sweep, the eviction cycle) and the handlers of \<^verbatim>\<open>node/daemon/server.rs\<close>, interleaved
  over the supervisor, the registry in memory and the registry file. A task is stopped at an
  \<^verbatim>\<open>await\<close> or at the acquisition of a lock, and one step takes it to the next such point, so
  that every schedule of the tasks is a sequence of steps. What the operating system answers is
  part of the step's label.
\<close>

fun display_error :: "node_error \<Rightarrow> string" where
  "display_error (NodeNotFound n) = ''Node not found: '' @ show_nat (unat n)"
| "display_error (NodeAlreadyRunning n) = ''Node already running: '' @ show_nat (unat n)"
| "display_error (NodeNotRunning n) = ''Node not running: '' @ show_nat (unat n)"
| "display_error (NodeEvicted n) = ''Node '' @ show_nat (unat n) @
     '' has been evicted; its data directory was deleted to reclaim disk space. '' @
     ''Dismiss it and add a new node instead of restarting.''"
| "display_error (ProcessSpawn s) = ''Process spawn failed: '' @ s"
| "display_error (PortRangeMismatch a b) = ''Port range length ('' @ show_nat (unat a) @
     '') does not match node count ('' @ show_nat (unat b) @ '')''"
| "display_error (InvalidNodeCount a b) = ''Node count '' @ show_nat (unat a) @
     '' exceeds maximum of '' @ show_nat (unat b) @ '' per call''"
| "display_error (InvalidRewardsAddress s) = ''Invalid rewards address: '' @ s"
| "display_error (InvalidPortRange s) = ''Invalid port range: '' @ s"
| "display_error (InvalidEnvVar s) = ''Invalid env variable format: '' @ [CHR 0x27] @ s @ [CHR 0x27] @
     ''. Expected KEY=VALUE''"
| "display_error (IoError s) = ''I/O error: '' @ s"
| "display_error (BinaryError s) = ''Binary resolution failed: '' @ s"

section \<open>The monitor of a node\<close>

text \<open>The end of \<^verbatim>\<open>monitor_node\<close>: the task is gone and the pid file is removed.\<close>

definition monitor_ends :: "monitor \<Rightarrow> world \<Rightarrow> monitor option \<times> world" where
  "monitor_ends m w = (None, remove_node_pid (nc_data_dir (m_config m)) w)"

definition monitor_at :: "monitor \<Rightarrow> monitor_pc \<Rightarrow> world \<Rightarrow> monitor option \<times> world" where
  "monitor_at m pc w = (Some (m\<lparr>m_pc := pc\<rparr>), w)"

definition node_of :: "monitor \<Rightarrow> u32" where
  "node_of m = nc_id (m_config m)"

definition exit_seen :: "monitor \<Rightarrow> int option \<Rightarrow> world \<Rightarrow> monitor option \<times> world" where
  "exit_seen m code w =
     (if node_status (node_of m) (w_sup w) \<in> {Inr Stopped, Inr Stopping, Inr Evicted} then monitor_ends m w
      else if is_upgrade_restart_exit_code code then monitor_at m (ReadVersion code) w
      else monitor_at m Crashed (send (NodeCrashed (node_of m) code) w))"

definition read_version :: "monitor \<Rightarrow> int option \<Rightarrow> spawn_outcome \<Rightarrow> world \<Rightarrow> monitor option \<times> world" where
  "read_version m code out w =
     (case w_version w (nc_binary_path (m_config m)) of
        Some disk_version \<Rightarrow>
          if disk_version \<noteq> nc_version (m_config m) then
            (case respawn_spawn (m_config m) out w of
               (Inr pid, w) \<Rightarrow> monitor_at m (UpgradeSpawned pid) w
             | (Inl e, w) \<Rightarrow>
                 monitor_at m Failing (send (NodeErrored (node_of m) (''Failed to respawn after upgrade: '' @ display_error e)) w))
          else monitor_at m Crashed (send (NodeCrashed (node_of m) code) w)
      | None \<Rightarrow> monitor_at m Crashed (send (NodeCrashed (node_of m) code) w))"

definition upgrade_spawned :: "monitor \<Rightarrow> u32 \<Rightarrow> world \<Rightarrow> monitor option \<times> world" where
  "upgrade_spawned m pid w =
     (case respawn_record (m_config m) w of
        (config, new_version, w) \<Rightarrow>
          (Some (m\<lparr>m_config := config, m_pc := UpgradeRecorded pid (nc_version (m_config m)) new_version\<rparr>), w))"

definition upgrade_recorded ::
    "monitor \<Rightarrow> u32 \<Rightarrow> string \<Rightarrow> string option \<Rightarrow> world \<Rightarrow> monitor option \<times> world" where
  "upgrade_recorded m pid old_version new_version w =
     (Some (m\<lparr>m_pid := pid, m_pc := Waiting\<rparr>), respawn_publish (node_of m) pid old_version new_version w)"

definition gave_up_message :: string where
  "gave_up_message =
     ''Node crashed '' @ show_nat MAX_CRASHES_BEFORE_ERRORED @ '' times within '' @
     show_nat (CRASH_WINDOW div NANOS_PER_SEC) @ '' seconds, giving up''"

definition crashed :: "monitor \<Rightarrow> world \<Rightarrow> monitor option \<times> world" where
  "crashed m w =
     (case record_crash (node_of m) (w_now w) (w_sup w) of
        ((should_restart, attempt, backoff), sv) \<Rightarrow>
          let w = w\<lparr>w_sup := sv\<rparr>
          in if \<not> should_restart then monitor_ends m (send (NodeErrored (node_of m) gave_up_message) w)
             else monitor_at m Sleeping (send (NodeRestarting (node_of m) attempt) w))"

definition slept :: "monitor \<Rightarrow> spawn_outcome \<Rightarrow> world \<Rightarrow> monitor option \<times> world" where
  "slept m out w =
     (case spawn_node_from_config (m_config m) out w of
        (Inr (Some pid), w) \<Rightarrow> monitor_at m (Respawned pid) w
      | (Inr None, w) \<Rightarrow>
          monitor_at m Failing (send (NodeErrored (node_of m) ''Restarted process exited before PID could be read'') w)
      | (Inl e, w) \<Rightarrow>
          monitor_at m Failing (send (NodeErrored (node_of m) (''Failed to restart node: '' @ display_error e)) w))"

definition respawned :: "monitor \<Rightarrow> u32 \<Rightarrow> world \<Rightarrow> monitor option \<times> world" where
  "respawned m pid w =
     (Some (m\<lparr>m_pid := pid, m_pc := Waiting\<rparr>),
      send (NodeStarted (node_of m) pid) (update_sup (update_state (node_of m) Running (Some pid) (w_now w)) w))"

definition failing :: "monitor \<Rightarrow> world \<Rightarrow> monitor option \<times> world" where
  "failing m w = monitor_ends m (update_sup (update_state (node_of m) Errored None (w_now w)) w)"

text \<open>One step of \<^verbatim>\<open>monitor_node_inner\<close>; a monitor waits while its child lives.\<close>

definition monitor_step :: "monitor \<Rightarrow> int option \<Rightarrow> spawn_outcome \<Rightarrow> world \<Rightarrow> (monitor option \<times> world) option" where
  "monitor_step m code out w =
     (case m_pc m of
        Waiting \<Rightarrow> if m_pid m \<in> set (w_alive w) then None else Some (monitor_at m (ExitSeen code) w)
      | ExitSeen code \<Rightarrow> Some (exit_seen m code w)
      | ReadVersion code \<Rightarrow> Some (read_version m code out w)
      | UpgradeSpawned pid \<Rightarrow> Some (upgrade_spawned m pid w)
      | UpgradeRecorded pid old_version new_version \<Rightarrow> Some (upgrade_recorded m pid old_version new_version w)
      | Crashed \<Rightarrow> Some (crashed m w)
      | Sleeping \<Rightarrow> Some (slept m out w)
      | Respawned pid \<Rightarrow> Some (respawned m pid w)
      | Failing \<Rightarrow> Some (failing m w))"

section \<open>The liveness sweep\<close>

type_synonym sweep_candidate = "u32 \<times> u32 \<times> path"

datatype sweep_pc =
    SweepIdle
  | SweepNext "sweep_candidate list"
  | SweepCheck sweep_candidate "sweep_candidate list"
  | SweepConfig sweep_candidate "sweep_candidate list"
  | SweepRespawn node_config sweep_candidate "sweep_candidate list"
  | SweepSpawned node_config u32 sweep_candidate "sweep_candidate list"
  | SweepRecorded node_config u32 string "string option" sweep_candidate "sweep_candidate list"
  | SweepOwn node_config u32 sweep_candidate "sweep_candidate list"
  | SweepFailed sweep_candidate "sweep_candidate list"
  | SweepStop sweep_candidate "sweep_candidate list"

definition sweep_candidates :: "world \<Rightarrow> sweep_candidate list" where
  "sweep_candidates w =
     List.map_filter (\<lambda>c.
       case node_pid (nc_id c) (w_sup w) of
         None \<Rightarrow> None
       | Some pid \<Rightarrow>
           if node_status (nc_id c) (w_sup w) = Inr Running then Some (nc_id c, pid, nc_data_dir c) else None)
       (list_nodes (w_reg w))"

definition sweep_respawn ::
    "node_config \<Rightarrow> sweep_candidate \<Rightarrow> sweep_candidate list \<Rightarrow> spawn_outcome \<Rightarrow> world \<Rightarrow> sweep_pc \<times> world" where
  "sweep_respawn config c rest out w =
     (case w_version w (nc_binary_path config) of
        Some disk_version \<Rightarrow>
          if disk_version \<noteq> nc_version config then
            (case respawn_spawn config out w of
               (Inr pid, w) \<Rightarrow> (SweepSpawned config pid c rest, w)
             | (Inl e, w) \<Rightarrow>
                 (SweepFailed c rest,
                  send (NodeErrored (fst c) (''Failed to respawn adopted node after upgrade: '' @ display_error e)) w))
          else (SweepStop c rest, w)
      | None \<Rightarrow> (SweepStop c rest, w))"

definition sweep_failed :: "sweep_candidate \<Rightarrow> world \<Rightarrow> world" where
  "sweep_failed c w =
     (case c of (nid, pid, dir) \<Rightarrow>
        remove_node_pid dir (update_sup (mark_owned nid) (update_sup (update_state nid Errored None (w_now w)) w)))"

definition sweep_stop :: "sweep_candidate \<Rightarrow> world \<Rightarrow> world" where
  "sweep_stop c w =
     (case c of (nid, pid, dir) \<Rightarrow>
        if \<not> liveness_should_stop (is_adopted nid (w_sup w)) pid (node_pid nid (w_sup w))
               (case node_status nid (w_sup w) of Inr s \<Rightarrow> Some s | Inl _ \<Rightarrow> None)
        then w
        else remove_node_pid dir
               (send (NodeStopped nid) (update_sup (update_state nid Stopped None (w_now w)) w)))"

definition sweep_step :: "sweep_pc \<Rightarrow> spawn_outcome \<Rightarrow> world \<Rightarrow> sweep_pc \<times> world" where
  "sweep_step pc out w =
     (case pc of
        SweepIdle \<Rightarrow> (SweepNext (sweep_candidates w), w)
      | SweepNext [] \<Rightarrow> (SweepIdle, w)
      | SweepNext (c # rest) \<Rightarrow>
          (if is_process_alive (fst (snd c)) w then SweepNext rest else SweepCheck c rest, w)
      | SweepCheck c rest \<Rightarrow>
          (if is_adopted (fst c) (w_sup w) then SweepConfig c rest else SweepStop c rest, w)
      | SweepConfig c rest \<Rightarrow>
          (case map_of (nodes (w_reg w)) (fst c) of
             Some config \<Rightarrow> SweepRespawn config c rest
           | None \<Rightarrow> SweepStop c rest, w)
      | SweepRespawn config c rest \<Rightarrow> sweep_respawn config c rest out w
      | SweepSpawned config pid c rest \<Rightarrow>
          (case respawn_record config w of
             (config', new_version, w) \<Rightarrow> (SweepRecorded config' pid (nc_version config) new_version c rest, w))
      | SweepRecorded config pid old_version new_version c rest \<Rightarrow>
          (SweepOwn config pid c rest, respawn_publish (nc_id config) pid old_version new_version w)
      | SweepOwn config pid c rest \<Rightarrow>
          (SweepNext rest,
           let w = update_sup (mark_owned (fst c)) w
           in w\<lparr>w_monitors := w_monitors w @ [\<lparr>m_config = config, m_pid = pid, m_pc = Waiting\<rparr>]\<rparr>)
      | SweepFailed c rest \<Rightarrow> (SweepNext rest, sweep_failed c w)
      | SweepStop c rest \<Rightarrow> (SweepNext rest, sweep_stop c w))"

section \<open>The eviction cycle\<close>

record eviction =
  ev_candidate :: node_disk_usage
  ev_available :: nat
  ev_at :: nat

datatype evict_pc =
    EvictIdle
  | EvictMeasure nat
  | EvictReport
  | EvictMark node_disk_usage nat nat
  | EvictPersist eviction nat
  | EvictStop eviction nat
  | EvictDelete eviction nat
  | EvictFinal eviction bool nat
  | EvictClose eviction nat string nat

definition evict_measure :: "disk_env \<Rightarrow> nat \<Rightarrow> world \<Rightarrow> evict_pc \<times> world" where
  "evict_measure env n w =
     (let partitions = partition_states env (running_nodes w)
      in case eviction_target default_thresholds partitions of
           None \<Rightarrow> (EvictIdle, publish_health (from_partitions partitions default_thresholds) w)
         | Some p \<Rightarrow>
             (case eviction_candidate p of
                None \<Rightarrow> (EvictReport, w)
              | Some c \<Rightarrow> (EvictMark c (ps_available_bytes p) n, w)))"

definition evict_close :: "eviction \<Rightarrow> nat \<Rightarrow> string \<Rightarrow> world \<Rightarrow> world" where
  "evict_close ev reclaimed reason w =
     (let nid = du_node_id (ev_candidate ev);
          w = update_sup (update_state nid Evicted None (w_now w)) w;
          w = update_sup (finish_evicting nid) w
      in send (NodeWasEvicted nid reason reclaimed) w)"

definition evict_step ::
    "evict_pc \<Rightarrow> disk_env \<Rightarrow> (nat \<Rightarrow> bool) \<Rightarrow> (nat \<Rightarrow> rm_result) \<Rightarrow> world \<Rightarrow> evict_pc \<times> world" where
  "evict_step pc env alive rm w =
     (case pc of
        EvictIdle \<Rightarrow> (EvictMeasure MAX_EVICTIONS_PER_CYCLE, w)
      | EvictMeasure 0 \<Rightarrow> (EvictReport, w)
      | EvictMeasure (Suc n) \<Rightarrow> evict_measure env n w
      | EvictReport \<Rightarrow>
          (EvictIdle,
           publish_health (from_partitions (partition_states env (running_nodes w)) default_thresholds) w)
      | EvictMark c available n \<Rightarrow>
          (EvictPersist \<lparr>ev_candidate = c, ev_available = available, ev_at = w_unix_secs w\<rparr> n,
           update_sup (begin_evicting (du_node_id c)) w)
      | EvictPersist ev n \<Rightarrow>
          (EvictStop ev n,
           persist_eviction_marker (du_node_id (ev_candidate ev))
             (pending_reason (ev_available ev) (du_size_bytes (ev_candidate ev)))
             (ev_at ev) (du_size_bytes (ev_candidate ev)) w)
      | EvictStop ev n \<Rightarrow> (EvictDelete ev n, snd (stop_node (du_node_id (ev_candidate ev)) alive w))
      | EvictDelete ev n \<Rightarrow>
          (case fst (remove_dir_all_with_retry rm) of
             Inr _ \<Rightarrow>
               (EvictFinal ev True n, w\<lparr>w_deleted := w_deleted w @ [du_data_dir (ev_candidate ev)]\<rparr>)
           | Inl _ \<Rightarrow> (EvictFinal ev False n, w))
      | EvictFinal ev deleted n \<Rightarrow>
          (case final_reason deleted (ev_available ev) (ev_candidate ev) of
             (reclaimed, reason) \<Rightarrow>
               (EvictClose ev reclaimed reason n,
                persist_eviction_marker (du_node_id (ev_candidate ev)) reason (ev_at ev) reclaimed w))
      | EvictClose ev reclaimed reason n \<Rightarrow> (EvictMeasure n, evict_close ev reclaimed reason w))"

section \<open>The server\<close>

subsection \<open>Reading the state\<close>

definition reported_status :: "node_config \<Rightarrow> world \<Rightarrow> node_status" where
  "reported_status c w =
     (if nc_eviction c \<noteq> None then Evicted
      else case node_status (nc_id c) (w_sup w) of Inr s \<Rightarrow> s | Inl _ \<Rightarrow> Stopped)"

definition summary_of :: "world \<Rightarrow> node_config \<Rightarrow> node_status_summary" where
  "summary_of w c =
     \<lparr>ss_node_id = nc_id c, ss_name = nc_service_name c, ss_version = nc_version c, ss_status = reported_status c w,
      ss_pid = (if nc_eviction c \<noteq> None then None else node_pid (nc_id c) (w_sup w)),
      ss_uptime_secs = (if nc_eviction c \<noteq> None then None else node_uptime_secs (nc_id c) (w_now w) (w_sup w)),
      ss_eviction = nc_eviction c\<rparr>"

definition get_nodes_status :: "world \<Rightarrow> node_status_result" where
  "get_nodes_status w =
     (let summaries = map (summary_of w) (list_nodes (w_reg w));
          running = length (filter (\<lambda>x. ss_status x \<in> {Running, Starting}) summaries)
      in \<lparr>sr_nodes = summaries, sr_total_running = running, sr_total_stopped = length summaries - running\<rparr>)"

record node_info =
  ni_config :: node_config
  ni_status :: node_status
  ni_pid :: "u32 option"
  ni_uptime_secs :: "nat option"

definition get_node_detail :: "u32 \<Rightarrow> world \<Rightarrow> (u32, node_info) result" where
  "get_node_detail nid w =
     (case map_of (nodes (w_reg w)) nid of
        None \<Rightarrow> Inl nid
      | Some c \<Rightarrow>
          Inr (if nc_eviction c \<noteq> None
               then \<lparr>ni_config = c, ni_status = Evicted, ni_pid = None, ni_uptime_secs = None\<rparr>
               else \<lparr>ni_config = c,
                     ni_status = (case node_status nid (w_sup w) of Inr s \<Rightarrow> s | Inl _ \<Rightarrow> Stopped),
                     ni_pid = node_pid nid (w_sup w),
                     ni_uptime_secs = node_uptime_secs nid (w_now w) (w_sup w)\<rparr>))"

record daemon_status =
  ds_nodes_total :: nat
  ds_nodes_running :: nat
  ds_nodes_stopped :: nat
  ds_nodes_errored :: nat

definition get_status :: "world \<Rightarrow> daemon_status" where
  "get_status w =
     (case node_counts (w_sup w) of (running, stopped, errored) \<Rightarrow>
        \<lparr>ds_nodes_total = registry_len (w_reg w), ds_nodes_running = running, ds_nodes_stopped = stopped,
         ds_nodes_errored = errored\<rparr>)"

subsection \<open>Requests\<close>

text \<open>
  A request is where its handler stands; the ones named after a route have just arrived. A handler
  that has loaded the registry file holds the file's lock until it has saved it.
\<close>

datatype api_request =
    PostStart u32
  | StartWith node_config
  | PostStartAll
  | StartAllWith "node_config list" "node_started list" "(u32 \<times> string \<times> node_error) list" "u32 list"
  | PostStop u32
  | StopWith node_config
  | PostStopAll
  | StopAllWith "(u32 \<times> string) list"
  | DeleteNode u32
  | DeleteAllowed u32
  | DeleteLoaded node_config node_registry
  | DeleteReload node_config
  | PostReset
  | ResetAllowed
  | ResetLoaded node_registry "path list" "path list"
  | ResetReload reset_result
  | PostNodes add_node_opts
  | NodesLoaded "node_config list" node_registry
  | NodesReload "node_config list"

datatype reply =
    ReplyStarted node_started
  | ReplyStartedAll "node_started list" "(u32 \<times> string \<times> node_error) list" "u32 list"
  | ReplyStopped u32 string
  | ReplyStoppedAll stop_node_result
  | ReplyRemoved node_config
  | ReplyReset reset_result
  | ReplyAdded "node_config list"
  | ReplyNotFound u32
  | ReplyConflict u32 node_status
  | ReplyStillRunning nat
  | ReplyBadRequest node_error
  | ReplyInternalError node_error

fun holds_file_lock :: "api_request \<Rightarrow> bool" where
  "holds_file_lock (DeleteLoaded _ _) = True"
| "holds_file_lock (ResetLoaded _ _ _) = True"
| "holds_file_lock (NodesLoaded _ _) = True"
| "holds_file_lock _ = False"

text \<open>The answers of the operating system to a handler.\<close>

record os_answer =
  oc_spawn :: spawn_outcome
  oc_check :: start_check
  oc_alive :: "u32 \<Rightarrow> nat \<Rightarrow> bool"
  oc_fs :: "node_registry option node_fs"
  oc_exists :: "path \<Rightarrow> bool"
  oc_rm :: "path \<Rightarrow> node_error option"

text \<open>Where a handler is after a step: at its next point, or it has replied.\<close>

type_synonym served = "(reply, api_request) result \<times> world"

definition serve_start :: "node_config \<Rightarrow> os_answer \<Rightarrow> world \<Rightarrow> served" where
  "serve_start config out w =
     (if is_running (nc_id config) (w_sup w) then (Inl (ReplyConflict (nc_id config) Running), w)
      else case start_node config (oc_spawn out) (oc_check out) w of
             (Inr started, w) \<Rightarrow> (Inl (ReplyStarted started), w)
           | (Inl (NodeAlreadyRunning nid), w) \<Rightarrow> (Inl (ReplyConflict nid Running), w)
           | (Inl e, w) \<Rightarrow> (Inl (ReplyInternalError e), w))"

fun serve_start_all ::
    "node_config list \<Rightarrow> node_started list \<Rightarrow> (u32 \<times> string \<times> node_error) list \<Rightarrow> u32 list \<Rightarrow> os_answer \<Rightarrow> world \<Rightarrow> served"
  where
  "serve_start_all [] started failed already out w = (Inl (ReplyStartedAll started failed already), w)"
| "serve_start_all (config # rest) started failed already out w =
     (if is_running (nc_id config) (w_sup w)
      then (Inr (StartAllWith rest started failed (already @ [nc_id config])), w)
      else case start_node config (oc_spawn out) (oc_check out) w of
             (Inr s, w) \<Rightarrow> (Inr (StartAllWith rest (started @ [s]) failed already), w)
           | (Inl (NodeAlreadyRunning nid), w) \<Rightarrow> (Inr (StartAllWith rest started failed (already @ [nid])), w)
           | (Inl e, w) \<Rightarrow>
               (Inr (StartAllWith rest started (failed @ [(nc_id config, nc_service_name config, e)]) already), w))"

definition serve_stop :: "node_config \<Rightarrow> os_answer \<Rightarrow> world \<Rightarrow> served" where
  "serve_stop config out w =
     (let nid = nc_id config;
          status = (\<lambda>w. case node_status nid (w_sup w) of Inr s \<Rightarrow> s | Inl _ \<Rightarrow> Stopped)
      in if \<not> is_running nid (w_sup w) then (Inl (ReplyConflict nid (status w)), w)
         else case stop_node nid (oc_alive out nid) w of
                (Inr _, w) \<Rightarrow> (Inl (ReplyStopped nid (nc_service_name config)), w)
              | (Inl (NodeNotRunning k), w) \<Rightarrow> (Inl (ReplyConflict k (status w)), w)
              | (Inl e, w) \<Rightarrow> (Inl (ReplyInternalError e), w))"

definition unevicted :: "world \<Rightarrow> node_config list" where
  "unevicted w = filter (\<lambda>c. nc_eviction c = None) (list_nodes (w_reg w))"

text \<open>The part of \<^verbatim>\<open>post_start_node\<close> and \<^verbatim>\<open>post_stop_node\<close> that reads the registry.\<close>

definition serve_lookup :: "(node_config \<Rightarrow> api_request) \<Rightarrow> u32 \<Rightarrow> world \<Rightarrow> served" where
  "serve_lookup k nid w =
     (case map_of (nodes (w_reg w)) nid of
        None \<Rightarrow> (Inl (ReplyNotFound nid), w)
      | Some config \<Rightarrow> (if nc_eviction config \<noteq> None then Inl (ReplyConflict nid Evicted) else Inr (k config), w))"

definition serve_delete :: "u32 \<Rightarrow> world \<Rightarrow> served" where
  "serve_delete nid w =
     (case remove (load (w_file w)) nid of
        Inl (NodeNotFound k) \<Rightarrow> (Inl (ReplyNotFound k), w)
      | Inl e \<Rightarrow> (Inl (ReplyInternalError e), w)
      | Inr (removed, reg) \<Rightarrow> (Inr (DeleteLoaded removed reg), w))"

text \<open>The directories of a reset, removed one by one; the state is the list of what is gone.\<close>

definition reset_fs :: "os_answer \<Rightarrow> path list node_fs" where
  "reset_fs out =
     \<lparr>platform_data_dir = [], resolve_binary = (\<lambda>_ _. err_op (BinaryError [])),
      load_locked = err_op (IoError []), save = (\<lambda>_. err_op (IoError [])), create_dir_all = (\<lambda>_. err_op (IoError [])),
      remove_dir_all = (\<lambda>p s. case oc_rm out p of None \<Rightarrow> (Inr (), s @ [p]) | Some e \<Rightarrow> (Inl e, s)),
      path_exists = (\<lambda>p s. oc_exists out p \<and> p \<notin> set s),
      copy_file = (\<lambda>_ _. err_op (IoError [])), set_executable = (\<lambda>_. err_op (IoError []))\<rparr>"

definition serve_reset_dirs :: "os_answer \<Rightarrow> world \<Rightarrow> served" where
  "serve_reset_dirs out w =
     (let reg = load (w_file w)
      in case remove_dirs (reset_fs out) (list_nodes reg) [] of
           (Inr (ds, ls), gone) \<Rightarrow> (Inr (ResetLoaded reg ds ls), w\<lparr>w_deleted := w_deleted w @ gone\<rparr>)
         | (Inl e, gone) \<Rightarrow> (Inl (ReplyInternalError e), w\<lparr>w_deleted := w_deleted w @ gone\<rparr>))"

text \<open>\<^verbatim>\<open>add_nodes\<close> up to its save, on the registry file as it is now.\<close>

definition capture_fs :: "os_answer \<Rightarrow> world \<Rightarrow> node_registry option node_fs" where
  "capture_fs out w =
     (oc_fs out)\<lparr>load_locked := (\<lambda>s. (Inr (load (w_file w)), s)), save := (\<lambda>reg s. (Inr (), Some reg))\<rparr>"

definition serve_add :: "add_node_opts \<Rightarrow> os_answer \<Rightarrow> world \<Rightarrow> served" where
  "serve_add opts out w =
     (case add_nodes (capture_fs out w) opts None of
        (Inr cs, Some reg) \<Rightarrow> (Inr (NodesLoaded cs reg), w)
      | (Inr cs, None) \<Rightarrow> (Inr (NodesReload cs), w)
      | (Inl e, _) \<Rightarrow> (Inl (ReplyBadRequest e), w))"

definition save_file :: "node_registry \<Rightarrow> api_request \<Rightarrow> (node_error \<Rightarrow> reply) \<Rightarrow> world \<Rightarrow> served" where
  "save_file reg k fail w =
     (if w_file_writable w then (Inr k, w\<lparr>w_file := Some reg\<rparr>) else (Inl (fail (IoError ''save'')), w))"

definition reload :: "world \<Rightarrow> world" where
  "reload w = w\<lparr>w_reg := load (w_file w)\<rparr>"

definition serve :: "api_request \<Rightarrow> os_answer \<Rightarrow> world \<Rightarrow> served" where
  "serve r out w =
     (case r of
        PostStart nid \<Rightarrow> serve_lookup StartWith nid w
      | StartWith config \<Rightarrow> serve_start config out w
      | PostStartAll \<Rightarrow> (Inr (StartAllWith (unevicted w) [] [] []), w)
      | StartAllWith configs started failed already \<Rightarrow> serve_start_all configs started failed already out w
      | PostStop nid \<Rightarrow> serve_lookup StopWith nid w
      | StopWith config \<Rightarrow> serve_stop config out w
      | PostStopAll \<Rightarrow> (Inr (StopAllWith (map (\<lambda>c. (nc_id c, nc_service_name c)) (unevicted w))), w)
      | StopAllWith ids \<Rightarrow> (case stop_all_nodes (oc_alive out) ids w of (r, w) \<Rightarrow> (Inl (ReplyStoppedAll r), w))
      | DeleteNode nid \<Rightarrow>
          (if is_running nid (w_sup w) then Inl (ReplyConflict nid Running) else Inr (DeleteAllowed nid), w)
      | DeleteAllowed nid \<Rightarrow> serve_delete nid w
      | DeleteLoaded removed reg \<Rightarrow> save_file reg (DeleteReload removed) ReplyInternalError w
      | DeleteReload removed \<Rightarrow> (Inl (ReplyRemoved removed), reload w)
      | PostReset \<Rightarrow>
          (case node_counts (w_sup w) of (running, _, _) \<Rightarrow>
             if 0 < running then Inl (ReplyStillRunning running) else Inr ResetAllowed, w)
      | ResetAllowed \<Rightarrow> serve_reset_dirs out w
      | ResetLoaded reg ds ls \<Rightarrow>
          save_file (clear reg)
            (ResetReload \<lparr>nodes_cleared = registry_len reg, data_dirs_removed = ds, log_dirs_removed = ls\<rparr>)
            ReplyInternalError w
      | ResetReload res \<Rightarrow> (Inl (ReplyReset res), reload w)
      | PostNodes opts \<Rightarrow> serve_add opts out w
      | NodesLoaded cs reg \<Rightarrow> save_file reg (NodesReload cs) ReplyBadRequest w
      | NodesReload cs \<Rightarrow> (Inl (ReplyAdded cs), reload w))"

fun takes_file_lock :: "api_request \<Rightarrow> bool" where
  "takes_file_lock (DeleteAllowed _) = True"
| "takes_file_lock ResetAllowed = True"
| "takes_file_lock (PostNodes _) = True"
| "takes_file_lock _ = False"

fun is_arrival :: "api_request \<Rightarrow> bool" where
  "is_arrival (PostStart _) = True"
| "is_arrival PostStartAll = True"
| "is_arrival (PostStop _) = True"
| "is_arrival PostStopAll = True"
| "is_arrival (DeleteNode _) = True"
| "is_arrival PostReset = True"
| "is_arrival (PostNodes _) = True"
| "is_arrival _ = False"

section \<open>The daemon\<close>

record daemon =
  d_world :: world
  d_sweep :: sweep_pc
  d_evict :: evict_pc
  d_requests :: "api_request list"
  d_replies :: "reply list"

text \<open>
  What can happen next: time passes, a process exits, a node replaces its binary, a request arrives,
  or one of the tasks takes a step.
\<close>

datatype label =
    Tick nat
  | ProcessExit u32
  | BinaryReplaced path string
  | Arrive api_request
  | MonitorStep nat "int option" spawn_outcome
  | SweepStep spawn_outcome
  | EvictStepping disk_env "nat \<Rightarrow> bool" "nat \<Rightarrow> rm_result"
  | Serve nat os_answer

text \<open>A spawned process gets a pid that no live process has.\<close>

fun fresh_spawn :: "spawn_outcome \<Rightarrow> world \<Rightarrow> bool" where
  "fresh_spawn (Spawned pid) w = (pid \<notin> set (w_alive w))"
| "fresh_spawn _ w = True"

fun exec :: "label \<Rightarrow> daemon \<Rightarrow> daemon option" where
  "exec (Tick n) d =
     (let w = d_world d in Some (d\<lparr>d_world := w\<lparr>w_now := w_now w + n, w_unix_secs := w_unix_secs w + n div NANOS_PER_SEC\<rparr>\<rparr>))"
| "exec (ProcessExit pid) d =
     (let w = d_world d in Some (d\<lparr>d_world := w\<lparr>w_alive := removeAll pid (w_alive w)\<rparr>\<rparr>))"
| "exec (BinaryReplaced p v) d =
     (let w = d_world d in Some (d\<lparr>d_world := w\<lparr>w_version := (w_version w)(p := Some v)\<rparr>\<rparr>))"
| "exec (Arrive r) d = (if is_arrival r then Some (d\<lparr>d_requests := d_requests d @ [r]\<rparr>) else None)"
| "exec (MonitorStep i code out) d =
     (let w = d_world d; ms = w_monitors w
      in if i < length ms \<and> fresh_spawn out w then
           (case monitor_step (ms ! i) code out w of
              None \<Rightarrow> None
            | Some (Some m, w) \<Rightarrow> Some (d\<lparr>d_world := w\<lparr>w_monitors := ms[i := m]\<rparr>\<rparr>)
            | Some (None, w) \<Rightarrow> Some (d\<lparr>d_world := w\<lparr>w_monitors := take i ms @ drop (Suc i) ms\<rparr>\<rparr>))
         else None)"
| "exec (SweepStep out) d =
     (if fresh_spawn out (d_world d) then
        (case sweep_step (d_sweep d) out (d_world d) of (pc, w) \<Rightarrow> Some (d\<lparr>d_sweep := pc, d_world := w\<rparr>))
      else None)"
| "exec (EvictStepping env alive rm) d =
     (case evict_step (d_evict d) env alive rm (d_world d) of (pc, w) \<Rightarrow> Some (d\<lparr>d_evict := pc, d_world := w\<rparr>))"
| "exec (Serve i out) d =
     (let rs = d_requests d
      in if i < length rs \<and> fresh_spawn (oc_spawn out) (d_world d) \<and>
            (takes_file_lock (rs ! i) \<longrightarrow> \<not> list_ex holds_file_lock rs) then
           (case serve (rs ! i) out (d_world d) of
              (Inr r, w) \<Rightarrow> Some (d\<lparr>d_requests := rs[i := r], d_world := w\<rparr>)
            | (Inl a, w) \<Rightarrow>
                Some (d\<lparr>d_requests := take i rs @ drop (Suc i) rs, d_replies := d_replies d @ [a], d_world := w\<rparr>))
         else None)"

fun run :: "label list \<Rightarrow> daemon \<Rightarrow> daemon option" where
  "run [] d = Some d"
| "run (l # ls) d = Option.bind (exec l d) (run ls)"

subsection \<open>Startup\<close>

text \<open>\<open>present p\<close> is whether the binary exists.\<close>

definition reconcile_one :: "(path \<Rightarrow> bool) \<Rightarrow> bool \<times> world \<Rightarrow> u32 \<Rightarrow> bool \<times> world" where
  "reconcile_one present acc nid =
     (case acc of (changed, w) \<Rightarrow>
        case map_of (nodes (w_reg w)) nid of
          None \<Rightarrow> (changed, w)
        | Some c \<Rightarrow>
            if \<not> present (nc_binary_path c) then (changed, w)
            else case w_version w (nc_binary_path c) of
                   None \<Rightarrow> (changed, w)
                 | Some v \<Rightarrow>
                     if v = nc_version c then (changed, w)
                     else (True, w\<lparr>w_reg := get_mut (w_reg w) nid (\<lambda>c. c\<lparr>nc_version := v\<rparr>)\<rparr>))"

definition reconcile_registry_versions :: "(path \<Rightarrow> bool) \<Rightarrow> world \<Rightarrow> world" where
  "reconcile_registry_versions present w =
     (case foldl (reconcile_one present) (False, w) (map nc_id (list_nodes (w_reg w))) of
        (changed, w) \<Rightarrow> if changed then save_registry w else w)"

definition start_daemon :: "(path \<Rightarrow> bool) \<Rightarrow> proc_info list \<Rightarrow> world \<Rightarrow> daemon" where
  "start_daemon present sys w =
     (let w = w\<lparr>w_sup := new_supervisor, w_health := healthy, w_monitors := []\<rparr>;
          w = reconcile_registry_versions present w;
          w = snd (adopt_from_registry sys w)
      in \<lparr>d_world = w, d_sweep = SweepIdle, d_evict = EvictIdle, d_requests = [], d_replies = []\<rparr>)"

end
