(* ===== verification/Daemon_Safety.thy ===== *)
theory Daemon_Safety
  imports Daemon
begin

text \<open>
  What holds over every schedule of the daemon's tasks: no running node is left unwatched, the
  registries keep their ids, a stop is final unless a restart was already under way, a node being
  evicted is not started; and the schedules in which two tasks undo each other's work.
\<close>

section \<open>What the operations leave alone\<close>

named_theorems frame "fields an operation does not change"

lemma frame_send [frame]:
  "w_sup (send e w) = w_sup w" "w_reg (send e w) = w_reg w" "w_file (send e w) = w_file w"
  "w_monitors (send e w) = w_monitors w" "w_now (send e w) = w_now w" "w_alive (send e w) = w_alive w"
  by (simp_all add: send_def)

lemma frame_update_sup [frame]:
  "w_sup (update_sup f w) = f (w_sup w)" "w_reg (update_sup f w) = w_reg w" "w_file (update_sup f w) = w_file w"
  "w_monitors (update_sup f w) = w_monitors w" "w_now (update_sup f w) = w_now w" "w_alive (update_sup f w) = w_alive w"
  by (simp_all add: update_sup_def)

lemma frame_pid_files [frame]:
  "w_sup (remove_node_pid p w) = w_sup w" "w_reg (remove_node_pid p w) = w_reg w" "w_file (remove_node_pid p w) = w_file w"
  "w_monitors (remove_node_pid p w) = w_monitors w" "w_now (remove_node_pid p w) = w_now w"
  "w_sup (write_node_pid p i w) = w_sup w" "w_reg (write_node_pid p i w) = w_reg w" "w_file (write_node_pid p i w) = w_file w"
  "w_monitors (write_node_pid p i w) = w_monitors w" "w_now (write_node_pid p i w) = w_now w"
  by (simp_all add: remove_node_pid_def write_node_pid_def Let_def)

lemma frame_save [frame]:
  "w_sup (save_registry w) = w_sup w" "w_reg (save_registry w) = w_reg w" "w_monitors (save_registry w) = w_monitors w"
  "w_now (save_registry w) = w_now w"
  by (simp_all add: save_registry_def)

lemma frame_kill [frame]:
  "w_sup (graceful_kill p a w) = w_sup w" "w_reg (graceful_kill p a w) = w_reg w" "w_file (graceful_kill p a w) = w_file w"
  "w_monitors (graceful_kill p a w) = w_monitors w"
  by (simp_all add: graceful_kill_def split: prod.splits)

lemma frame_health [frame]:
  "w_sup (publish_health h w) = w_sup w" "w_reg (publish_health h w) = w_reg w" "w_file (publish_health h w) = w_file w"
  "w_monitors (publish_health h w) = w_monitors w"
  by (simp_all add: publish_health_def Let_def frame)

lemma frame_marker [frame]:
  "w_sup (persist_eviction_marker n r t b w) = w_sup w"
  "w_monitors (persist_eviction_marker n r t b w) = w_monitors w"
  by (simp_all add: persist_eviction_marker_def frame)

lemma frame_spawn [frame]:
  assumes "spawn_node_from_config c out w = (r, w')"
  shows "w_sup w' = w_sup w" "w_reg w' = w_reg w" "w_file w' = w_file w" "w_monitors w' = w_monitors w" "w_now w' = w_now w"
  using assms by (auto simp: spawn_node_from_config_def frame split: spawn_outcome.splits)

lemma frame_respawn_spawn:
  assumes "respawn_spawn c out w = (r, w')"
  shows "w_sup w' = w_sup w" "w_reg w' = w_reg w" "w_file w' = w_file w" "w_monitors w' = w_monitors w" "w_now w' = w_now w"
proof -
  obtain r0 w0 where s: "spawn_node_from_config c out w = (r0, w0)" by fastforce
  then have "w' = w0" using assms by (auto simp: respawn_spawn_def split: sum.splits option.splits)
  then show "w_sup w' = w_sup w" "w_reg w' = w_reg w" "w_file w' = w_file w" "w_monitors w' = w_monitors w" "w_now w' = w_now w"
    using frame_spawn [OF s] by simp_all
qed

lemma frame_record:
  assumes "respawn_record c w = (c', v, w')"
  shows "w_sup w' = w_sup w" "w_monitors w' = w_monitors w" "nc_id c' = nc_id c"
  using assms by (auto simp: respawn_record_def frame split: option.splits if_splits)

lemma frame_publish [frame]:
  "w_sup (respawn_publish n p ov nv w) = modify_runtime n (\<lambda>rt. fresh_runtime Running (Some p) (Some (w_now w))) (w_sup w)"
  "w_reg (respawn_publish n p ov nv w) = w_reg w" "w_file (respawn_publish n p ov nv w) = w_file w"
  "w_monitors (respawn_publish n p ov nv w) = w_monitors w"
  by (simp_all add: respawn_publish_def Let_def frame split: option.splits)

section \<open>Every running node is watched\<close>

definition holding :: "monitor \<Rightarrow> u32 \<times> u32" where
  "holding m = (node_of m, m_pid m)"

fun sweep_holds :: "sweep_pc \<Rightarrow> u32 \<times> u32 \<Rightarrow> bool" where
  "sweep_holds (SweepOwn config pid c rest) h = (h = (nc_id config, pid))"
| "sweep_holds _ h = False"

text \<open>
  A node that is running and not adopted has its process held by a task; an adopted node has no
  monitor; and the process the sweep is about to hand over is the one recorded.
\<close>

definition good :: "supervisor \<Rightarrow> (u32 \<times> u32) set \<Rightarrow> sweep_pc \<Rightarrow> bool" where
  "good sv hs pc \<longleftrightarrow>
     (\<forall>n rt. runtime n sv = Some rt \<longrightarrow> rt_status rt = Running \<longrightarrow> n \<notin> set (adopted sv) \<longrightarrow>
        (\<exists>p. rt_pid rt = Some p \<and> ((n, p) \<in> hs \<or> sweep_holds pc (n, p)))) \<and>
     (\<forall>(n, p) \<in> hs. n \<notin> set (adopted sv)) \<and>
     (\<forall>n p rt. sweep_holds pc (n, p) \<longrightarrow> n \<in> set (adopted sv) \<longrightarrow> runtime n sv = Some rt \<longrightarrow> rt_status rt = Running \<longrightarrow>
        rt_pid rt = Some p)"

lemma goodI:
  assumes "\<And>n rt. runtime n sv = Some rt \<Longrightarrow> rt_status rt = Running \<Longrightarrow> n \<notin> set (adopted sv) \<Longrightarrow>
      \<exists>p. rt_pid rt = Some p \<and> ((n, p) \<in> hs \<or> sweep_holds pc (n, p))"
    and "\<And>n p. (n, p) \<in> hs \<Longrightarrow> n \<notin> set (adopted sv)"
    and "\<And>n p rt. sweep_holds pc (n, p) \<Longrightarrow> n \<in> set (adopted sv) \<Longrightarrow> runtime n sv = Some rt \<Longrightarrow>
      rt_status rt = Running \<Longrightarrow> rt_pid rt = Some p"
  shows "good sv hs pc"
  using assms unfolding good_def by blast

lemma good_watched:
  "good sv hs pc \<Longrightarrow> runtime n sv = Some rt \<Longrightarrow> rt_status rt = Running \<Longrightarrow> n \<notin> set (adopted sv) \<Longrightarrow>
   \<exists>p. rt_pid rt = Some p \<and> ((n, p) \<in> hs \<or> sweep_holds pc (n, p))"
  unfolding good_def by blast

lemma good_unadopted: "good sv hs pc \<Longrightarrow> (n, p) \<in> hs \<Longrightarrow> n \<notin> set (adopted sv)"
  unfolding good_def by blast

lemma good_handover:
  "good sv hs pc \<Longrightarrow> sweep_holds pc (n, p) \<Longrightarrow> n \<in> set (adopted sv) \<Longrightarrow> runtime n sv = Some rt \<Longrightarrow>
   rt_status rt = Running \<Longrightarrow> rt_pid rt = Some p"
  unfolding good_def by blast

text \<open>A change of one node's record is good when it is for that node and the others keep what held them.\<close>

lemma good_change:
  assumes g: "good sv hs pc"
    and same: "\<And>k. k \<noteq> n \<Longrightarrow> runtime k sv' = runtime k sv"
    and ad: "set (adopted sv') \<subseteq> set (adopted sv)" "set (adopted sv) \<subseteq> insert n (set (adopted sv'))"
    and others: "\<And>k p. k \<noteq> n \<Longrightarrow> (k, p) \<in> hs' \<longleftrightarrow> (k, p) \<in> hs"
    and pcs: "\<And>k p. k \<noteq> n \<Longrightarrow> sweep_holds pc' (k, p) \<longleftrightarrow> sweep_holds pc (k, p)"
    and self: "\<And>rt. runtime n sv' = Some rt \<Longrightarrow> rt_status rt = Running \<Longrightarrow> n \<notin> set (adopted sv') \<Longrightarrow>
      \<exists>p. rt_pid rt = Some p \<and> ((n, p) \<in> hs' \<or> sweep_holds pc' (n, p))"
    and own: "\<And>p. (n, p) \<in> hs' \<Longrightarrow> n \<notin> set (adopted sv')"
    and hand: "\<And>p rt. sweep_holds pc' (n, p) \<Longrightarrow> n \<in> set (adopted sv') \<Longrightarrow> runtime n sv' = Some rt \<Longrightarrow>
      rt_status rt = Running \<Longrightarrow> rt_pid rt = Some p"
  shows "good sv' hs' pc'"
proof (rule goodI)
  fix k rt
  assume rt: "runtime k sv' = Some rt" "rt_status rt = Running" "k \<notin> set (adopted sv')"
  show "\<exists>p. rt_pid rt = Some p \<and> ((k, p) \<in> hs' \<or> sweep_holds pc' (k, p))"
  proof (cases "k = n")
    case True
    then show ?thesis using self rt by blast
  next
    case False
    then have "k \<notin> set (adopted sv)" using rt(3) ad(2) by blast
    then obtain p where "rt_pid rt = Some p" "(k, p) \<in> hs \<or> sweep_holds pc (k, p)"
      using good_watched [OF g] rt same [OF False] by metis
    then show ?thesis using others [OF False] pcs [OF False] by blast
  qed
next
  fix k p
  assume "(k, p) \<in> hs'"
  then show "k \<notin> set (adopted sv')"
    using own others good_unadopted [OF g] ad(1) by (cases "k = n") blast+
next
  fix k p rt
  assume "sweep_holds pc' (k, p)" "k \<in> set (adopted sv')" "runtime k sv' = Some rt" "rt_status rt = Running"
  then show "rt_pid rt = Some p"
    using hand pcs good_handover [OF g] ad(1) same by (cases "k = n") (blast, metis subsetD)
qed

lemma good_less:
  assumes "good sv hs pc" and "hs' \<subseteq> hs" and "hs \<subseteq> insert (n, p) hs'" and "\<not> is_running n sv"
  shows "good sv hs' pc"
  using assms by (intro good_change [OF assms(1), where n = n])
    (auto simp: is_running_iff dest: good_unadopted good_handover)

lemma good_keep:
  assumes "good sv hs pc" and "\<And>rt. rt_status (f rt) = rt_status rt \<and> rt_pid (f rt) = rt_pid rt"
  shows "good (modify_runtime n f sv) hs pc"
  using assms(2)
  by (intro good_change [OF assms(1), where n = n])
     (auto simp: sup_rules dest: good_unadopted [OF assms(1)] good_handover [OF assms(1)] good_watched [OF assms(1)])

lemma good_down:
  assumes "good sv hs pc" and "\<And>rt. rt_status (f rt) \<noteq> Running"
  shows "good (modify_runtime n f sv) hs pc"
  using assms(2)
  by (intro good_change [OF assms(1), where n = n]) (auto simp: sup_rules dest: good_unadopted [OF assms(1)])

lemma down_not_running: "(\<And>rt. rt_status (f rt) \<noteq> Running) \<Longrightarrow> \<not> is_running n (modify_runtime n f sv)"
  by (auto simp: is_running_iff sup_rules)

lemma good_insert_down:
  assumes "good sv hs pc" and "rt_status rt \<noteq> Running"
  shows "good (insert_state n rt sv) hs pc"
  using assms(2)
  by (intro good_change [OF assms(1), where n = n]) (auto simp: sup_rules dest: good_unadopted [OF assms(1)])

lemma good_publish:
  assumes "good sv hs pc" and "hs \<subseteq> insert (n, p) hs'" and "hs' \<subseteq> insert (n, q) hs" and "(n, q) \<in> hs'" and "(n, p) \<in> hs"
    and "\<And>rt. rt_status (f rt) = Running \<and> rt_pid (f rt) = Some q"
  shows "good (modify_runtime n f sv) hs' pc"
proof -
  have un: "n \<notin> set (adopted sv)" using assms(1,5) by (rule good_unadopted)
  have "(k, x) \<in> hs' \<longleftrightarrow> (k, x) \<in> hs" if "k \<noteq> n" for k x using assms(2,3) that by blast
  then show ?thesis
    using assms(4,6) un by (intro good_change [OF assms(1), where n = n]) (auto simp: sup_rules)
qed

lemma good_start:
  assumes "good sv hs pc" and "rt_status rt = Running" and "rt_pid rt = Some q"
  shows "good (mark_owned n (insert_state n rt sv)) (insert (n, q) hs) pc"
  using assms(2,3) by (intro good_change [OF assms(1), where n = n]) (auto simp: sup_rules)

lemma good_own:
  assumes "good sv hs (SweepOwn config q c rest)" and "nc_id config = fst c"
  shows "good (mark_owned (fst c) sv) (insert (nc_id config, q) hs) (SweepNext rest)"
proof (rule good_change [OF assms(1), where n = "fst c"])
  fix rt
  assume rt: "runtime (fst c) (mark_owned (fst c) sv) = Some rt" "rt_status rt = Running"
  then have r: "runtime (fst c) sv = Some rt" by (simp add: sup_rules)
  have "\<exists>p. rt_pid rt = Some p \<and> (fst c, p) \<in> insert (nc_id config, q) hs"
  proof (cases "fst c \<in> set (adopted sv)")
    case True
    then have "rt_pid rt = Some q" using good_handover [OF assms(1) _ _ r rt(2), of q] assms(2) by simp
    then show ?thesis using assms(2) by simp
  next
    case False
    then show ?thesis using good_watched [OF assms(1) r rt(2)] by auto
  qed
  then show "\<exists>p. rt_pid rt = Some p \<and> ((fst c, p) \<in> insert (nc_id config, q) hs \<or> sweep_holds (SweepNext rest) (fst c, p))"
    by blast
qed (use assms(2) in \<open>auto simp: sup_rules\<close>)

lemma good_sweep_publish:
  assumes "good sv hs pc" and "\<And>h. \<not> sweep_holds pc h"
    and "\<And>rt. rt_status (f rt) = Running \<and> rt_pid (f rt) = Some q"
  shows "good (modify_runtime (nc_id config) f sv) hs (SweepOwn config q c rest)"
  using assms(2,3)
  by (intro good_change [OF assms(1), where n = "nc_id config"]) (auto simp: sup_rules dest: good_unadopted [OF assms(1)])

lemma good_pc:
  assumes "good sv hs pc" and "\<And>h. \<not> sweep_holds pc h" and "\<And>h. \<not> sweep_holds pc' h"
  shows "good sv hs pc'"
  using assms unfolding good_def by blast

lemma good_owned_down:
  assumes "good sv hs pc" and "\<And>h. \<not> sweep_holds pc h" and "\<And>rt. rt_status (f rt) \<noteq> Running"
  shows "good (mark_owned n (modify_runtime n f sv)) hs pc"
  using assms(2,3) by (intro good_change [OF assms(1), where n = n]) (auto simp: sup_rules)

subsection \<open>Steps of a monitor\<close>

definition holdings :: "monitor list \<Rightarrow> (u32 \<times> u32) set" where
  "holdings ms = holding ` set ms"

definition replaced :: "monitor list \<Rightarrow> nat \<Rightarrow> monitor option \<Rightarrow> monitor list" where
  "replaced ms i mo = (case mo of Some m \<Rightarrow> ms[i := m] | None \<Rightarrow> take i ms @ drop (Suc i) ms)"

lemma holdings_update:
  assumes "i < length ms"
  shows "holdings (replaced ms i (Some m)) \<subseteq> insert (holding m) (holdings ms)"
    and "holdings ms \<subseteq> insert (holding (ms ! i)) (holdings (replaced ms i (Some m)))"
    and "holding m \<in> holdings (replaced ms i (Some m))"
proof -
  have m: "holding ` set (ms[i := m]) = set ((map holding ms)[i := holding m])"
    by (simp flip: map_update)
  show "holdings (replaced ms i (Some m)) \<subseteq> insert (holding m) (holdings ms)"
    unfolding holdings_def replaced_def option.case m using set_update_subset_insert [of "map holding ms"] by simp
  show "holding m \<in> holdings (replaced ms i (Some m))"
    using set_update_memI [OF assms, of m] by (simp add: holdings_def replaced_def)
  have "x \<in> set (ms[i := m])" if "x \<in> set ms" "x \<noteq> ms ! i" for x
    using that by (metis in_set_conv_nth length_list_update nth_list_update_neq)
  then show "holdings ms \<subseteq> insert (holding (ms ! i)) (holdings (replaced ms i (Some m)))"
    by (auto simp: holdings_def replaced_def)
qed

lemma holdings_same:
  assumes "i < length ms" and "holding m = holding (ms ! i)"
  shows "holdings (replaced ms i (Some m)) = holdings ms"
proof -
  have "holding (ms ! i) \<in> holdings ms" using assms(1) by (simp add: holdings_def)
  then have "insert (holding m) (holdings ms) = holdings ms" using assms(2) by auto
  moreover have "insert (holding (ms ! i)) (holdings (replaced ms i (Some m))) = holdings (replaced ms i (Some m))"
    using holdings_update(3) [OF assms(1), of m] assms(2) by auto
  ultimately show ?thesis using holdings_update(1,2) [OF assms(1), of m] by (metis subset_antisym)
qed

lemma holdings_drop:
  assumes "i < length ms"
  shows "holdings (replaced ms i None) \<subseteq> holdings ms"
    and "holdings ms \<subseteq> insert (holding (ms ! i)) (holdings (replaced ms i None))"
proof -
  have "set ms = set (take i ms @ ms ! i # drop (Suc i) ms)"
    using id_take_nth_drop [OF assms] by simp
  then show "holdings (replaced ms i None) \<subseteq> holdings ms"
    and "holdings ms \<subseteq> insert (holding (ms ! i)) (holdings (replaced ms i None))"
    by (auto simp: holdings_def replaced_def)
qed

lemma good_ended:
  assumes "good sv (holdings ms) pc" and "i < length ms" and "\<not> is_running (node_of (ms ! i)) sv"
  shows "good sv (holdings (replaced ms i None)) pc"
  by (rule good_less [OF assms(1) holdings_drop(1) [OF assms(2)]
        holdings_drop(2) [OF assms(2), unfolded holding_def] assms(3)])

lemma good_renewed:
  assumes "good sv (holdings ms) pc" and "i < length ms" and "holding m = (node_of (ms ! i), q)"
    and "\<And>rt. rt_status (f rt) = Running \<and> rt_pid (f rt) = Some q"
  shows "good (modify_runtime (node_of (ms ! i)) f sv) (holdings (replaced ms i (Some m))) pc"
proof (rule good_publish [OF assms(1) _ _ _ _ assms(4)])
  show "(node_of (ms ! i), m_pid (ms ! i)) \<in> holdings ms"
    using assms(2) by (force simp: holdings_def holding_def)
  show "holdings ms \<subseteq> insert (node_of (ms ! i), m_pid (ms ! i)) (holdings (replaced ms i (Some m)))"
    using holdings_update(2) [OF assms(2), of m] by (simp only: holding_def)
  show "holdings (replaced ms i (Some m)) \<subseteq> insert (node_of (ms ! i), q) (holdings ms)"
    and "(node_of (ms ! i), q) \<in> holdings (replaced ms i (Some m))"
    using holdings_update(1,3) [OF assms(2), of m] by (simp_all only: assms(3))
qed

lemma crash_runtime_kept:
  assumes "crash_runtime now rt = ((True, a, b), rt')"
  shows "rt_status rt' = rt_status rt" and "rt_pid rt' = rt_pid rt"
  using assms by (auto simp: crash_runtime_def reset_if_stable_def Let_def split: if_splits option.splits)

lemma crash_runtime_down:
  assumes "crash_runtime now rt = ((False, a, b), rt')"
  shows "rt_status rt' = Errored"
  using assms by (auto simp: crash_runtime_def Let_def split: if_splits)

text \<open>Changing one record by the value it has: the state of one node after a crash.\<close>

lemma modify_state_value:
  assumes "runtime n sv = Some rt" and "f rt = g rt"
  shows "runtime k (modify_runtime n f sv) = runtime k (modify_runtime n g sv)"
  using assms by (simp add: sup_rules)

lemma good_cong:
  assumes "\<And>k. runtime k sv = runtime k sv'" and "set (adopted sv) = set (adopted sv')"
  shows "good sv hs pc = good sv' hs pc"
  using assms by (simp add: good_def)

lemma crashed_watched:
  assumes "good (w_sup w) (holdings ms) pc" and "i < length ms" and "crashed (ms ! i) w = (mo, w')"
  shows "good (w_sup w') (holdings (replaced ms i mo)) pc"
proof (cases "runtime (node_of (ms ! i)) (w_sup w)")
  case None
  then have "w_sup w' = w_sup w" "mo = None"
    using assms(3) by (auto simp: crashed_def record_crash_def monitor_ends_def frame)
  with None show ?thesis using good_ended [OF assms(1,2)] by (simp add: is_running_def)
next
  case (Some rt)
  obtain ok a b rt' where c: "crash_runtime (w_now w) rt = ((ok, a, b), rt')" by (metis prod_cases3 prod.collapse)
  have sv: "w_sup w' = modify_runtime (node_of (ms ! i)) (\<lambda>rt. snd (crash_runtime (w_now w) rt)) (w_sup w)"
    using assms(3) Some c
    by (auto simp: crashed_def record_crash_def monitor_ends_def monitor_at_def frame Let_def split: if_splits)
  define m where "m = (ms ! i)\<lparr>m_pc := Sleeping\<rparr>"
  have mo: "mo = (if ok then Some m else None)"
    using assms(3) Some c
    by (auto simp: crashed_def record_crash_def monitor_ends_def monitor_at_def Let_def m_def split: if_splits)
  have eq: "good (w_sup w') hs pc = good (modify_runtime (node_of (ms ! i)) (\<lambda>_. rt') (w_sup w)) hs pc" for hs
    by (rule good_cong) (use Some c in \<open>simp_all add: sv sup_rules\<close>)
  show ?thesis
  proof (cases ok)
    case True
    define f where "f = (\<lambda>r :: node_runtime. r\<lparr>rt_restart_count := rt_restart_count rt', rt_first_crash_at := rt_first_crash_at rt',
      rt_started_at := rt_started_at rt'\<rparr>)"
    have "f rt = rt'" using crash_runtime_kept [of "w_now w" rt a b rt'] c True by (simp add: f_def)
    then have "good (modify_runtime (node_of (ms ! i)) (\<lambda>_. rt') (w_sup w)) hs pc =
        good (modify_runtime (node_of (ms ! i)) f (w_sup w)) hs pc" for hs
      using Some by (intro good_cong) (simp_all add: sup_rules)
    moreover have "good (modify_runtime (node_of (ms ! i)) f (w_sup w)) (holdings ms) pc"
      by (rule good_keep [OF assms(1)]) (simp add: f_def)
    moreover have "holdings (replaced ms i (Some m)) = holdings ms"
      by (rule holdings_same [OF assms(2)]) (simp add: holding_def node_of_def m_def)
    ultimately show ?thesis using True by (simp add: mo eq)
  next
    case False
    then have "rt_status rt' = Errored" using c by (auto intro: crash_runtime_down)
    then have "good (modify_runtime (node_of (ms ! i)) (\<lambda>_. rt') (w_sup w)) (holdings (replaced ms i None)) pc"
      using down_not_running good_down assms(1)
      by (intro good_ended [OF _ assms(2)]) (metis node_status.distinct)+
    then show ?thesis using False by (simp add: mo eq)
  qed
qed

text \<open>A step that only moves the monitor on.\<close>

lemma moved_watched:
  assumes "good (w_sup w) (holdings ms) pc" and "i < length ms" and "w_sup w' = w_sup w"
  shows "good (w_sup w') (holdings (replaced ms i (Some ((ms ! i)\<lparr>m_pc := x\<rparr>)))) pc"
proof -
  have "holdings (replaced ms i (Some ((ms ! i)\<lparr>m_pc := x\<rparr>))) = holdings ms"
    by (rule holdings_same [OF assms(2)]) (simp add: holding_def node_of_def)
  then show ?thesis using assms(1,3) by simp
qed

lemma exit_seen_watched:
  assumes "good (w_sup w) (holdings ms) pc" and "i < length ms" and "exit_seen (ms ! i) code w = (mo, w')"
  shows "good (w_sup w') (holdings (replaced ms i mo)) pc"
proof (cases "node_status (node_of (ms ! i)) (w_sup w) \<in> {Inr Stopped, Inr Stopping, Inr Evicted}")
  case True
  then have "\<not> is_running (node_of (ms ! i)) (w_sup w)" by (auto simp: node_status_iff is_running_iff)
  moreover have "mo = None" "w_sup w' = w_sup w"
    using assms(3) True by (auto simp: exit_seen_def monitor_ends_def frame)
  ultimately show ?thesis using good_ended [OF assms(1,2)] by simp
next
  case False
  then obtain x where mo: "mo = Some ((ms ! i)\<lparr>m_pc := x\<rparr>)" and sv: "w_sup w' = w_sup w"
    using assms(3) by (auto simp: exit_seen_def monitor_at_def frame split: if_splits)
  show ?thesis unfolding mo by (rule moved_watched [OF assms(1,2) sv])
qed

lemma spawning_steps:
  "slept m out w = (mo, w') \<Longrightarrow> \<exists>x. mo = Some (m\<lparr>m_pc := x\<rparr>) \<and> w_sup w' = w_sup w"
  "read_version m code out w = (mo, w') \<Longrightarrow> \<exists>x. mo = Some (m\<lparr>m_pc := x\<rparr>) \<and> w_sup w' = w_sup w"
  by (auto simp: slept_def read_version_def monitor_at_def frame frame_spawn(1) frame_respawn_spawn(1)
      split: prod.splits sum.splits option.splits if_splits)

lemma monitor_step_watched:
  assumes "good (w_sup w) (holdings ms) pc" and "i < length ms" and "monitor_step (ms ! i) code out w = Some (mo, w')"
  shows "good (w_sup w') (holdings (replaced ms i mo)) pc"
proof (cases "m_pc (ms ! i)")
  case Waiting
  then show ?thesis using assms moved_watched [OF assms(1,2)] by (auto simp: monitor_step_def monitor_at_def split: if_splits)
next
  case (ExitSeen c)
  then show ?thesis using assms(3) exit_seen_watched [OF assms(1,2)] by (simp add: monitor_step_def)
next
  case (ReadVersion c)
  then have "read_version (ms ! i) c out w = (mo, w')" using assms(3) by (simp add: monitor_step_def)
  then show ?thesis using spawning_steps(2) moved_watched [OF assms(1,2)] by blast
next
  case Sleeping
  then have "slept (ms ! i) out w = (mo, w')" using assms(3) by (simp add: monitor_step_def)
  then show ?thesis using spawning_steps(1) moved_watched [OF assms(1,2)] by blast
next
  case Crashed
  then show ?thesis using assms(3) crashed_watched [OF assms(1,2)] by (simp add: monitor_step_def)
next
  case (UpgradeSpawned pid)
  then obtain c v w1 where r: "respawn_record (m_config (ms ! i)) w = (c, v, w1)"
    and mo: "mo = Some ((ms ! i)\<lparr>m_config := c, m_pc := UpgradeRecorded pid (nc_version (m_config (ms ! i))) v\<rparr>)" "w' = w1"
    using assms(3) by (auto simp: monitor_step_def upgrade_spawned_def split: prod.splits)
  have "holdings (replaced ms i mo) = holdings ms"
    unfolding mo by (rule holdings_same [OF assms(2)]) (simp add: holding_def node_of_def frame_record(3) [OF r])
  then show ?thesis using assms(1) frame_record(1) [OF r] mo(2) by simp
next
  case (UpgradeRecorded pid ov nv)
  then have mo: "mo = Some ((ms ! i)\<lparr>m_pid := pid, m_pc := Waiting\<rparr>)" "w' = respawn_publish (node_of (ms ! i)) pid ov nv w"
    using assms(3) by (simp_all add: monitor_step_def upgrade_recorded_def)
  show ?thesis unfolding mo frame
    by (rule good_renewed [OF assms(1,2)]) (simp_all add: holding_def node_of_def fresh_runtime_def)
next
  case (Respawned pid)
  then have mo: "mo = Some ((ms ! i)\<lparr>m_pid := pid, m_pc := Waiting\<rparr>)"
    "w_sup w' = update_state (node_of (ms ! i)) Running (Some pid) (w_now w) (w_sup w)"
    using assms(3) by (auto simp: monitor_step_def respawned_def frame)
  show ?thesis unfolding mo update_state_def
    by (rule good_renewed [OF assms(1,2)]) (simp_all add: holding_def node_of_def)
next
  case Failing
  then have mo: "mo = None" "w_sup w' = update_state (node_of (ms ! i)) Errored None (w_now w) (w_sup w)"
    using assms(3) by (auto simp: monitor_step_def failing_def monitor_ends_def frame)
  show ?thesis unfolding mo update_state_def
    by (rule good_ended [OF good_down [OF assms(1)] assms(2)]) (simp_all add: down_not_running)
qed

subsection \<open>Steps of the supervisor's operations\<close>

lemma stop_node_watched:
  assumes "good (w_sup w) hs pc" and "stop_node n alive w = (r, w')"
  shows "good (w_sup w') hs pc" and "w_monitors w' = w_monitors w" and "w_reg w' = w_reg w" and "w_file w' = w_file w"
proof -
  consider "w' = w" | rt where "runtime n (w_sup w) = Some rt" "w_sup w' =
      modify_runtime n (\<lambda>rt. rt\<lparr>rt_status := Stopped, rt_pid := None, rt_started_at := None\<rparr>)
        (modify_runtime n (\<lambda>rt. rt\<lparr>rt_status := Stopping\<rparr>) (w_sup w))"
    using assms(2) by (auto simp: stop_node_def Let_def frame split: option.splits if_splits)
  then show "good (w_sup w') hs pc"
    by cases (use assms(1) in \<open>auto intro!: good_down\<close>)
  show "w_monitors w' = w_monitors w" "w_reg w' = w_reg w" "w_file w' = w_file w"
    using assms(2) by (auto simp: stop_node_def Let_def frame split: option.splits if_splits)
qed

lemma stop_all_watched:
  assumes "good (w_sup w) hs pc" and "stop_all_nodes alive ids w = (r, w')"
  shows "good (w_sup w') hs pc \<and> w_monitors w' = w_monitors w \<and> w_reg w' = w_reg w \<and> w_file w' = w_file w"
proof -
  have "good (w_sup (snd (foldl (stop_one alive) acc ids))) hs pc \<and>
      w_monitors (snd (foldl (stop_one alive) acc ids)) = w_monitors (snd acc) \<and>
      w_reg (snd (foldl (stop_one alive) acc ids)) = w_reg (snd acc) \<and>
      w_file (snd (foldl (stop_one alive) acc ids)) = w_file (snd acc)"
    if "good (w_sup (snd acc)) hs pc" for acc
    using that
  proof (induction ids arbitrary: acc)
    case (Cons x ids)
    obtain r0 w0 n name where a: "acc = (r0, w0)" "x = (n, name)" by fastforce
    obtain r1 w1 where st: "stop_node n (alive n) w0 = (r1, w1)" by fastforce
    have "snd (stop_one alive acc x) = w0 \<or> snd (stop_one alive acc x) = w1"
      by (auto simp: stop_one_def a st split: sum.splits node_error.splits)
    then have "good (w_sup (snd (stop_one alive acc x))) hs pc \<and> w_monitors (snd (stop_one alive acc x)) = w_monitors (snd acc) \<and>
        w_reg (snd (stop_one alive acc x)) = w_reg (snd acc) \<and> w_file (snd (stop_one alive acc x)) = w_file (snd acc)"
      using stop_node_watched [OF _ st] Cons.prems a by auto
    then show ?case using Cons.IH [of "stop_one alive acc x"] by simp
  qed simp
  from this [of "(\<lparr>sn_stopped = [], sn_failed = [], sn_already_stopped = []\<rparr>, w)"] assms show ?thesis
    by (simp add: stop_all_nodes_def)
qed

lemma start_node_watched:
  assumes "good (w_sup w) (holdings (w_monitors w)) pc" and "start_node config out check w = (r, w')"
  shows "good (w_sup w') (holdings (w_monitors w')) pc" and "w_reg w' = w_reg w" and "w_file w' = w_file w"
proof -
  obtain s w0 where sp: "spawn_node_from_config config out (send (NodeStarting (nc_id config)) w) = (s, w0)" by fastforce
  have f: "w_sup w0 = w_sup w" "w_monitors w0 = w_monitors w" "w_reg w0 = w_reg w" "w_file w0 = w_file w"
    using frame_spawn [OF sp] by (simp_all add: frame)
  have "w_reg w' = w_reg w \<and> w_file w' = w_file w \<and>
     ((w_sup w' = w_sup w \<and> w_monitors w' = w_monitors w) \<or>
      (w_sup w' = insert_state (nc_id config) (fresh_runtime Errored None None) (w_sup w) \<and> w_monitors w' = w_monitors w) \<or>
      (\<exists>pid t. w_sup w' = mark_owned (nc_id config) (insert_state (nc_id config) (fresh_runtime Running (Some pid) t) (w_sup w)) \<and>
         w_monitors w' = w_monitors w @ [\<lparr>m_config = config, m_pid = pid, m_pc = Waiting\<rparr>]))"
    using assms(2) f
    by (auto simp: start_node_def Let_def sp frame split: if_splits sum.splits option.splits start_check.splits)
  then show "good (w_sup w') (holdings (w_monitors w')) pc" and "w_reg w' = w_reg w" and "w_file w' = w_file w"
    using assms(1) good_insert_down [OF assms(1)] good_start [OF assms(1)]
    by (auto simp: fresh_runtime_def holdings_def holding_def node_of_def)
qed

subsection \<open>Ids\<close>

text \<open>Every entry of a registry has the id it is filed under, wherever the daemon keeps a registry.\<close>

definition ids_match :: "node_registry \<Rightarrow> bool" where
  "ids_match reg \<longleftrightarrow> (\<forall>k c. map_of (nodes reg) k = Some c \<longrightarrow> nc_id c = k)"

named_theorems ids_rules

lemma ids_match_empty [ids_rules]: "ids_match empty_registry"
  by (simp add: ids_match_def empty_registry_def)

lemma ids_match_clear [ids_rules]: "ids_match (clear reg)"
  by (simp add: ids_match_def clear_def)

lemma ids_match_get_mut [ids_rules]:
  "ids_match reg \<Longrightarrow> (\<And>c. nc_id (f c) = nc_id c) \<Longrightarrow> ids_match (get_mut reg n f)"
  by (auto simp: ids_match_def map_of_get_mut)

lemma ids_match_remove [ids_rules]: "ids_match reg \<Longrightarrow> remove reg n = Inr (c, reg') \<Longrightarrow> ids_match reg'"
  by (auto simp: ids_match_def remove_def delete_conv' split: option.splits if_splits)

lemma ids_match_add [ids_rules]: "ids_match reg \<Longrightarrow> add reg c = (n, reg') \<Longrightarrow> ids_match reg'"
  by (auto simp: ids_match_def add_def Let_def update_conv' split: if_splits)

lemma ids_match_load [ids_rules]: "(\<And>reg. file = Some reg \<Longrightarrow> ids_match reg) \<Longrightarrow> ids_match (load file)"
  by (auto simp: load_def ids_match_empty split: option.splits)

lemma add_one_ids: "ids_match reg \<Longrightarrow> add_one fs opts rw bin reg i w = (Inr (c, reg'), w') \<Longrightarrow> ids_match reg'"
  by (auto simp: add_one_def Let_def results split: prod.splits intro!: ids_match_get_mut dest: ids_match_add)

lemma add_loop_ids:
  "ids_match reg \<Longrightarrow> add_loop fs opts rw bin reg ix w = (Inr (cs, reg'), w') \<Longrightarrow> ids_match reg'"
proof (induction ix arbitrary: reg w cs)
  case (Cons i ix)
  then obtain c reg1 w1 cs1 where one: "add_one fs opts rw bin reg i w = (Inr (c, reg1), w1)"
    and rest: "add_loop fs opts rw bin reg1 ix w1 = (Inr (cs1, reg'), w')"
    by (auto simp: results split: prod.splits)
  show ?case by (rule Cons.IH [OF add_one_ids [OF Cons.prems(1) one] rest])
qed simp

lemma captured_ids:
  assumes "add_nodes (capture_fs out w) opts None = (Inr cs, Some reg)" and "ids_match (load (w_file w))"
  shows "ids_match reg"
proof -
  have "add_checked (capture_fs out w) opts (trim (ao_rewards_address opts)) None = (Inr cs, Some reg)"
    using assms(1) by (auto simp: add_nodes_def Let_def split: sum.splits option.splits if_splits)
  then obtain bin s s' where "add_loop (capture_fs out w) opts (trim (ao_rewards_address opts)) bin (load (w_file w))
      (map of_nat [0 ..< unat (ao_count opts)]) s = (Inr (cs, reg), s')"
    by (auto simp: add_checked_def results capture_fs_def split: prod.splits)
  then show ?thesis by (rule add_loop_ids [OF assms(2)])
qed

fun sweep_wf :: "sweep_pc \<Rightarrow> bool" where
  "sweep_wf (SweepRespawn config c _) = (nc_id config = fst c)"
| "sweep_wf (SweepSpawned config _ c _) = (nc_id config = fst c)"
| "sweep_wf (SweepRecorded config _ _ _ c _) = (nc_id config = fst c)"
| "sweep_wf (SweepOwn config _ c _) = (nc_id config = fst c)"
| "sweep_wf _ = True"

fun request_wf :: "api_request \<Rightarrow> bool" where
  "request_wf (DeleteLoaded _ reg) = ids_match reg"
| "request_wf (ResetLoaded reg _ _) = ids_match reg"
| "request_wf (NodesLoaded _ reg) = ids_match reg"
| "request_wf _ = True"

definition registries_ok :: "world \<Rightarrow> bool" where
  "registries_ok w \<longleftrightarrow> ids_match (w_reg w) \<and> ids_match (load (w_file w))"

text \<open>The invariant of the daemon.\<close>

definition watched :: "daemon \<Rightarrow> bool" where
  "watched d \<longleftrightarrow>
     good (w_sup (d_world d)) (holdings (w_monitors (d_world d))) (d_sweep d) \<and>
     registries_ok (d_world d) \<and> sweep_wf (d_sweep d) \<and> (\<forall>r \<in> set (d_requests d). request_wf r)"

lemma registries_ok_cong: "w_reg w' = w_reg w \<Longrightarrow> w_file w' = w_file w \<Longrightarrow> registries_ok w' = registries_ok w"
  by (simp add: registries_ok_def)

lemma registries_ok_saved:
  assumes "registries_ok w" and "ids_match (w_reg w')" and "w_file w' = w_file w"
  shows "registries_ok (save_registry w')"
  using assms by (auto simp: registries_ok_def save_registry_def load_def)

lemma registries_ok_marker: "registries_ok w \<Longrightarrow> registries_ok (persist_eviction_marker n r t b w)"
  unfolding persist_eviction_marker_def
  by (rule registries_ok_saved) (auto simp: registries_ok_def intro!: ids_match_get_mut)

lemma registries_ok_record:
  assumes "registries_ok w" and "respawn_record c w = (c', v, w')"
  shows "registries_ok w'"
proof (cases "w' = w")
  case False
  then obtain ver where "w' = save_registry (w\<lparr>w_reg := get_mut (w_reg w) (nc_id c) (\<lambda>c. c\<lparr>nc_version := ver\<rparr>)\<rparr>)"
    using assms(2) by (auto simp: respawn_record_def split: option.splits if_splits)
  then have w': "w' = save_registry (w\<lparr>w_reg := get_mut (w_reg w) (nc_id c) (\<lambda>c. c\<lparr>nc_version := ver\<rparr>)\<rparr>)" .
  show ?thesis unfolding w'
    by (rule registries_ok_saved [OF assms(1)]) (use assms(1) in \<open>auto simp: registries_ok_def intro!: ids_match_get_mut\<close>)
qed (use assms in simp)

subsection \<open>Steps of the sweep and of the eviction cycle\<close>

lemma monitor_step_registries:
  assumes "monitor_step m code out w = Some (mo, w')" and "registries_ok w"
  shows "registries_ok w'"
proof (cases "m_pc m")
  case (UpgradeSpawned pid)
  then obtain c v where "respawn_record (m_config m) w = (c, v, w')"
    using assms(1) by (auto simp: monitor_step_def upgrade_spawned_def split: prod.splits)
  then show ?thesis by (rule registries_ok_record [OF assms(2)])
next
  case (ReadVersion c)
  then show ?thesis using assms
    by (auto simp: monitor_step_def read_version_def monitor_at_def registries_ok_def frame
        frame_respawn_spawn split: prod.splits sum.splits option.splits if_splits)
next
  case Sleeping
  then show ?thesis using assms
    by (auto simp: monitor_step_def slept_def monitor_at_def registries_ok_def frame frame_spawn
        split: prod.splits sum.splits option.splits if_splits)
qed (use assms in \<open>auto simp: monitor_step_def monitor_at_def monitor_ends_def exit_seen_def upgrade_recorded_def crashed_def
  respawned_def failing_def registries_ok_def frame Let_def split: if_splits prod.splits\<close>)

lemma sweep_step_watched:
  assumes g: "good (w_sup w) (holdings (w_monitors w)) pc" and wf: "sweep_wf pc" and reg: "registries_ok w"
    and step: "sweep_step pc out w = (pc', w')"
  shows "good (w_sup w') (holdings (w_monitors w')) pc' \<and> sweep_wf pc' \<and> registries_ok w'"
proof (cases pc)
  case SweepIdle
  then show ?thesis using assms good_pc [OF g] by (auto simp: sweep_step_def)
next
  case (SweepNext cs)
  then show ?thesis using assms good_pc [OF g] by (cases cs) (auto simp: sweep_step_def split: if_splits)
next
  case (SweepCheck c rest)
  then show ?thesis using assms good_pc [OF g] by (auto simp: sweep_step_def split: if_splits)
next
  case (SweepConfig c rest)
  then show ?thesis using assms good_pc [OF g]
    by (auto simp: sweep_step_def registries_ok_def ids_match_def split: option.splits)
next
  case (SweepRespawn config c rest)
  obtain r w1 where sp: "respawn_spawn config out w = (r, w1)" by fastforce
  have same: "w_sup w' = w_sup w" "w_monitors w' = w_monitors w" "w_reg w' = w_reg w" "w_file w' = w_file w"
    and pc': "\<And>h. \<not> sweep_holds pc' h" and "sweep_wf pc'"
    using step SweepRespawn wf frame_respawn_spawn [OF sp]
    by (auto simp: sweep_step_def sweep_respawn_def sp frame split: option.splits if_splits sum.splits)
  moreover have "good (w_sup w) (holdings (w_monitors w)) pc'"
    by (rule good_pc [OF g]) (simp_all add: SweepRespawn pc')
  ultimately show ?thesis using reg by (simp add: registries_ok_def)
next
  case (SweepSpawned config pid c rest)
  obtain config' v w1 where r: "respawn_record config w = (config', v, w1)" by (metis prod_cases3)
  then have "pc' = SweepRecorded config' pid (nc_version config) v c rest" "w' = w1"
    using step SweepSpawned by (auto simp: sweep_step_def)
  then show ?thesis
    using good_pc [OF g] SweepSpawned wf registries_ok_record [OF reg r] frame_record [OF r] by simp
next
  case (SweepRecorded config pid ov nv c rest)
  then have s: "pc' = SweepOwn config pid c rest" "w' = respawn_publish (nc_id config) pid ov nv w"
    using step by (auto simp: sweep_step_def)
  have "good (modify_runtime (nc_id config) (\<lambda>rt. fresh_runtime Running (Some pid) (Some (w_now w))) (w_sup w))
      (holdings (w_monitors w)) (SweepOwn config pid c rest)"
    by (rule good_sweep_publish [OF g]) (simp_all add: SweepRecorded fresh_runtime_def)
  then show ?thesis using wf reg SweepRecorded by (simp add: s frame registries_ok_def)
next
  case (SweepOwn config pid c rest)
  then have s: "pc' = SweepNext rest" "w_sup w' = mark_owned (fst c) (w_sup w)"
    "holdings (w_monitors w') = insert (nc_id config, pid) (holdings (w_monitors w))" "registries_ok w' = registries_ok w"
    using step by (auto simp: sweep_step_def Let_def frame holdings_def holding_def node_of_def registries_ok_def)
  show ?thesis using good_own [of "w_sup w" _ config pid c rest] g wf reg SweepOwn by (simp add: s)
next
  case (SweepFailed c rest)
  then show ?thesis
    using step reg good_pc [OF good_owned_down [OF g], where pc' = "SweepNext rest"]
    by (auto simp: sweep_step_def sweep_failed_def frame registries_ok_def update_state_def split: prod.splits)
next
  case (SweepStop c rest)
  then show ?thesis
    using step reg good_pc [OF g, where pc' = "SweepNext rest"] good_pc [OF good_down [OF g], where pc' = "SweepNext rest"]
    by (auto simp: sweep_step_def sweep_stop_def frame registries_ok_def update_state_def split: prod.splits if_splits)
qed

lemma evict_step_watched:
  assumes g: "good (w_sup w) (holdings (w_monitors w)) pc" and reg: "registries_ok w"
    and step: "evict_step epc env alive rm w = (epc', w')"
  shows "good (w_sup w') (holdings (w_monitors w')) pc \<and> registries_ok w'"
proof -
  have ev: "good (begin_evicting n (w_sup w)) hs pc = good (w_sup w) hs pc" "good (finish_evicting n sv) hs pc = good sv hs pc" for n hs sv
    by (rule good_cong; simp add: sup_rules)+
  show ?thesis
  proof (cases epc)
    case (EvictMeasure n)
    then show ?thesis using step g reg
      by (cases n) (auto simp: evict_step_def evict_measure_def Let_def frame registries_ok_def split: option.splits)
  next
    case (EvictStop e n)
    then have st: "stop_node (du_node_id (ev_candidate e)) alive w = (fst (stop_node (du_node_id (ev_candidate e)) alive w), w')"
      using step by (auto simp: evict_step_def)
    show ?thesis using stop_node_watched [OF g st] reg by (simp add: registries_ok_def)
  next
    case (EvictClose e b r n)
    then show ?thesis using step reg good_down [OF g]
      by (auto simp: evict_step_def evict_close_def Let_def frame ev registries_ok_def update_state_def)
  qed (use step g reg ev registries_ok_marker in \<open>auto simp: evict_step_def frame registries_ok_def split: sum.splits prod.splits\<close>)
qed

subsection \<open>Steps of the server\<close>

lemma serve_watched:
  assumes g: "good (w_sup w) (holdings (w_monitors w)) pc" and reg: "registries_ok w" and wf: "request_wf r"
    and step: "serve r out w = (a, w')"
  shows "good (w_sup w') (holdings (w_monitors w')) pc \<and> registries_ok w' \<and> (\<forall>r'. a = Inr r' \<longrightarrow> request_wf r')"
proof -
  have start: "good (w_sup w1) (holdings (w_monitors w1)) pc \<and> registries_ok w1"
    if "start_node c o1 o2 w = (x, w1)" for c o1 o2 x w1
    using start_node_watched [OF g that] reg by (simp add: registries_ok_def)
  have stop: "good (w_sup w1) (holdings (w_monitors w1)) pc \<and> registries_ok w1"
    if "stop_node n al w = (x, w1)" for n al x w1
    using stop_node_watched [OF g that] reg by (simp add: registries_ok_def)
  have saved: "good (w_sup w1) (holdings (w_monitors w1)) pc \<and> registries_ok w1 \<and> (\<forall>r'. b = Inr r' \<longrightarrow> request_wf r')"
    if "save_file rg k f w = (b, w1)" "ids_match rg" "request_wf k" for rg k f b w1
    using that g reg by (auto simp: save_file_def registries_ok_def load_def split: if_splits)
  show ?thesis
  proof (cases r)
    case (StartWith c)
    then show ?thesis using step g reg start
      by (auto simp: serve_def serve_start_def split: if_splits prod.splits sum.splits node_error.splits)
  next
    case (StartAllWith cs x y z)
    then show ?thesis using step g reg start
      by (cases cs) (auto simp: serve_def split: if_splits prod.splits sum.splits node_error.splits)
  next
    case (StopWith c)
    then show ?thesis using step g reg stop
      by (auto simp: serve_def serve_stop_def Let_def split: if_splits prod.splits sum.splits node_error.splits)
  next
    case (StopAllWith ids)
    then show ?thesis using step stop_all_watched [OF g] reg by (auto simp: serve_def registries_ok_def split: prod.splits)
  next
    case (DeleteAllowed n)
    then show ?thesis using step g reg
      by (auto simp: serve_def serve_delete_def registries_ok_def split: sum.splits node_error.splits prod.splits
          intro: ids_match_remove)
  next
    case (PostNodes opts)
    then show ?thesis using step g reg captured_ids [of out w opts]
      by (auto simp: serve_def serve_add_def registries_ok_def split: sum.splits prod.splits option.splits)
  next
    case (DeleteLoaded c rg)
    then show ?thesis using step wf saved by (auto simp: serve_def)
  next
    case (ResetLoaded rg x y)
    then have "save_file (clear rg)
        (ResetReload \<lparr>nodes_cleared = registry_len rg, data_dirs_removed = x, log_dirs_removed = y\<rparr>) ReplyInternalError w = (a, w')"
      using step by (simp add: serve_def)
    then show ?thesis by (rule saved) (simp_all add: ids_match_clear)
  next
    case (NodesLoaded cs rg)
    then show ?thesis using step wf saved by (auto simp: serve_def)
  qed (use step g reg in \<open>auto simp: serve_def serve_lookup_def serve_reset_dirs_def reload_def registries_ok_def Let_def
    split: option.splits prod.splits sum.splits if_splits\<close>)
qed

subsection \<open>The invariant over every schedule\<close>

definition daemon_step :: "daemon \<Rightarrow> daemon \<Rightarrow> bool" where
  "daemon_step d d' \<longleftrightarrow> (\<exists>l. exec l d = Some d')"

lemma arrival_wf: "is_arrival r \<Longrightarrow> request_wf r"
  by (cases r) simp_all

lemma exec_watched:
  assumes "watched d" and "exec l d = Some d'"
  shows "watched d'"
proof (cases l)
  case (MonitorStep i code out)
  define ms where "ms = w_monitors (d_world d)"
  have i: "i < length ms"
    using assms(2) MonitorStep by (simp add: ms_def Let_def split: if_splits)
  obtain mo w where step: "monitor_step (ms ! i) code out (d_world d) = Some (mo, w)"
    and d': "d' = d\<lparr>d_world := w\<lparr>w_monitors := replaced ms i mo\<rparr>\<rparr>"
    using assms(2) MonitorStep
    by (auto simp: ms_def Let_def replaced_def split: if_splits option.splits prod.splits)
  show ?thesis
    using assms(1) monitor_step_watched [OF _ i step] monitor_step_registries [OF step]
    by (simp add: watched_def d' registries_ok_def ms_def)
next
  case (SweepStep out)
  obtain pc w where step: "sweep_step (d_sweep d) out (d_world d) = (pc, w)" by fastforce
  then have "d' = d\<lparr>d_sweep := pc, d_world := w\<rparr>" using assms(2) SweepStep by (simp split: if_splits)
  then show ?thesis using assms(1) sweep_step_watched [OF _ _ _ step] by (simp add: watched_def)
next
  case (EvictStepping env alive rm)
  obtain pc w where step: "evict_step (d_evict d) env alive rm (d_world d) = (pc, w)" by fastforce
  then have "d' = d\<lparr>d_evict := pc, d_world := w\<rparr>" using assms(2) EvictStepping by simp
  then show ?thesis using assms(1) evict_step_watched [OF _ _ step, of "d_sweep d"] by (simp add: watched_def)
next
  case (Serve i out)
  obtain a w where step: "serve (d_requests d ! i) out (d_world d) = (a, w)" by fastforce
  have i: "i < length (d_requests d)" using assms(2) Serve by (simp add: Let_def split: if_splits)
  then have wf: "request_wf (d_requests d ! i)" using assms(1) by (simp add: watched_def)
  have "d_world d' = w" "d_sweep d' = d_sweep d"
    and "\<forall>r \<in> set (d_requests d'). r \<in> set (d_requests d) \<or> a = Inr r"
    using assms(2) Serve step
    by (auto simp: Let_def split: if_splits sum.splits dest!: subsetD [OF set_update_subset_insert]
        dest: in_set_takeD in_set_dropD)
  then show ?thesis using assms(1) serve_watched [OF _ _ wf step] by (auto simp: watched_def)
qed (use assms arrival_wf in \<open>auto simp: watched_def registries_ok_def Let_def split: if_splits\<close>)

interpretation watch: transition_invariant daemon_step watched
  by unfold_locales (auto simp: daemon_step_def intro: exec_watched)

lemma run_reaches: "run ls d = Some d' \<Longrightarrow> daemon_step\<^sup>*\<^sup>* d d'"
proof (induction ls arbitrary: d)
  case (Cons l ls)
  then obtain d1 where "exec l d = Some d1" "run ls d1 = Some d'" by (auto simp: bind_eq_Some_conv)
  then show ?case using Cons.IH by (meson converse_rtranclp_into_rtranclp daemon_step_def)
qed simp

lemma reconcile_one_frame:
  assumes "reconcile_one present (b, w) n = (b', w')" and "registries_ok w"
  shows "registries_ok w' \<and> w_sup w' = w_sup w \<and> w_monitors w' = w_monitors w"
  using assms
  by (auto simp: reconcile_one_def registries_ok_def split: option.splits if_splits intro!: ids_match_get_mut)

lemma reconcile_frame:
  assumes "registries_ok w"
  shows "registries_ok (reconcile_registry_versions present w) \<and>
    w_sup (reconcile_registry_versions present w) = w_sup w \<and>
    w_monitors (reconcile_registry_versions present w) = w_monitors w"
proof -
  have fold: "registries_ok (snd (foldl (reconcile_one present) acc ids)) \<and>
      w_sup (snd (foldl (reconcile_one present) acc ids)) = w_sup (snd acc) \<and>
      w_monitors (snd (foldl (reconcile_one present) acc ids)) = w_monitors (snd acc)"
    if "registries_ok (snd acc)" for acc ids
    using that
  proof (induction ids arbitrary: acc)
    case (Cons n ids)
    have "registries_ok (snd (reconcile_one present acc n)) \<and> w_sup (snd (reconcile_one present acc n)) = w_sup (snd acc) \<and>
        w_monitors (snd (reconcile_one present acc n)) = w_monitors (snd acc)"
      using reconcile_one_frame [of present "fst acc" "snd acc" n] Cons.prems by (metis prod.collapse)
    then show ?case using Cons.IH [of "reconcile_one present acc n"] by simp
  qed simp
  have save: "registries_ok (save_registry v)" if "registries_ok v" for v
    using that by (intro registries_ok_saved [OF that]) (auto simp: registries_ok_def)
  obtain c v where f: "foldl (reconcile_one present) (False, w) (map nc_id (list_nodes (w_reg w))) = (c, v)" by fastforce
  have "registries_ok v \<and> w_sup v = w_sup w \<and> w_monitors v = w_monitors w"
    using fold [of "(False, w)" "map nc_id (list_nodes (w_reg w))"] assms by (simp add: f)
  then show ?thesis using save [of v] by (simp add: reconcile_registry_versions_def f frame)
qed

text \<open>Adopting nodes makes only adopted nodes running.\<close>

lemma resolve_adopted_frame:
  assumes "resolve_adopted_pid config sys w = (r, w')"
  shows "w_sup w' = w_sup w \<and> w_monitors w' = w_monitors w \<and> w_reg w' = w_reg w \<and> w_file w' = w_file w"
  using assms by (auto simp: resolve_adopted_pid_def scan_for_pid_def frame split: option.splits if_splits)

definition all_adopted :: "world \<Rightarrow> bool" where
  "all_adopted w \<longleftrightarrow> w_monitors w = [] \<and> (\<forall>n. is_running n (w_sup w) \<longrightarrow> n \<in> set (adopted (w_sup w)))"

lemma adopt_nodes_frame:
  assumes "all_adopted w" and "registries_ok w"
  shows "all_adopted (snd (adopt_nodes sys cs w)) \<and> registries_ok (snd (adopt_nodes sys cs w))"
  using assms
proof (induction cs arbitrary: w)
  case (Cons c cs)
  obtain r w1 where r: "resolve_adopted_pid c sys w = (r, w1)" by fastforce
  have w1: "all_adopted w1" "registries_ok w1"
    using resolve_adopted_frame [OF r] Cons.prems by (simp_all add: all_adopted_def registries_ok_def)
  show ?case
  proof (cases r)
    case None
    then show ?thesis using Cons.IH [OF w1] r by simp
  next
    case (Some pid)
    define w2 where "w2 = send (NodeStarted (nc_id c) pid)
      (update_sup (\<lambda>sv. sv\<lparr>adopted := List.insert (nc_id c) (adopted sv)\<rparr>)
        (update_sup (insert_state (nc_id c) (fresh_runtime Running (Some pid)
          (Some (case process_started_at sys pid w1 of Some t \<Rightarrow> t | None \<Rightarrow> w_now w1)))) w1))"
    have "runtime n (sv\<lparr>adopted := a\<rparr>) = runtime n sv" for n a and sv :: supervisor by (simp add: runtime_def)
    then have "all_adopted w2" "registries_ok w2"
      using w1 by (auto simp: all_adopted_def w2_def frame is_running_iff registries_ok_def sup_rules split: if_splits)
    then have "all_adopted (snd (adopt_nodes sys cs w2)) \<and> registries_ok (snd (adopt_nodes sys cs w2))"
      by (rule Cons.IH)
    moreover have "snd (adopt_nodes sys (c # cs) w) = snd (adopt_nodes sys cs w2)"
      by (simp add: r Some Let_def w2_def split: prod.split)
    ultimately show ?thesis by simp
  qed
qed simp

lemma start_daemon_watched:
  assumes "registries_ok w"
  shows "watched (start_daemon present sys w)"
proof -
  define w1 where "w1 = reconcile_registry_versions present (w\<lparr>w_sup := new_supervisor, w_health := healthy, w_monitors := []\<rparr>)"
  have "registries_ok (w\<lparr>w_sup := new_supervisor, w_health := healthy, w_monitors := []\<rparr>)"
    using assms by (simp add: registries_ok_def)
  note r = reconcile_frame [OF this, of present, folded w1_def]
  have "all_adopted w1" using r by (simp add: all_adopted_def new_supervisor_def is_running_def runtime_def)
  then have a: "all_adopted (snd (adopt_from_registry sys w1)) \<and> registries_ok (snd (adopt_from_registry sys w1))"
    using r unfolding adopt_from_registry_def by (intro adopt_nodes_frame) simp_all
  then show ?thesis
    by (auto simp: start_daemon_def Let_def w1_def [symmetric] watched_def good_def holdings_def all_adopted_def is_running_iff)
qed

text \<open>
  C33: In every schedule of the daemon a node that is running is watched: it was adopted, and the sweep
  polls it, or the process recorded for it is held by a monitor or about to be handed to one.
\<close>

theorem every_running_node_is_watched:
  assumes "registries_ok w" and "run ls (start_daemon present sys w) = Some d" and "is_running n (w_sup (d_world d))"
  shows "is_adopted n (w_sup (d_world d)) \<or>
    (\<exists>p. node_pid n (w_sup (d_world d)) = Some p \<and>
      ((\<exists>m \<in> set (w_monitors (d_world d)). node_of m = n \<and> m_pid m = p) \<or> sweep_holds (d_sweep d) (n, p)))"
proof -
  have "watched d"
    by (rule watch.reachable_inv [OF run_reaches [OF assms(2)] start_daemon_watched [OF assms(1)]])
  then have g: "good (w_sup (d_world d)) (holdings (w_monitors (d_world d))) (d_sweep d)" by (simp add: watched_def)
  obtain rt where rt: "runtime n (w_sup (d_world d)) = Some rt" "rt_status rt = Running"
    using assms(3) by (auto simp: is_running_iff)
  show ?thesis
    using good_watched [OF g rt] rt(1) by (auto simp: is_adopted_def node_pid_def holdings_def holding_def)
qed

section \<open>A small daemon\<close>

text \<open>Two registered nodes, no process, and the answers of a well-behaved machine.\<close>

definition demo_config :: "u32 \<Rightarrow> node_config" where
  "demo_config n =
     \<lparr>nc_id = n, nc_service_name = service_name_of n, nc_rewards_address = ''0x'', nc_data_dir = ''/d'' @ show_nat (unat n),
      nc_log_dir = None, nc_node_port = None, nc_binary_path = ''/bin/ant-node'', nc_version = ''1'',
      nc_env_variables = [], nc_bootstrap_peers = [], nc_upgrade_channel = None, nc_evm_network = ArbitrumOne,
      nc_eviction = None\<rparr>"

definition demo_registry :: node_registry where
  "demo_registry = \<lparr>schema_version = 1, nodes = [(1, demo_config 1), (2, demo_config 2)], next_id = 3\<rparr>"

definition demo_world :: world where
  "demo_world =
     \<lparr>w_sup = new_supervisor, w_reg = demo_registry, w_file = Some demo_registry, w_file_writable = True, w_alive = [],
      w_pid_files = [], w_pid_writable = (\<lambda>_. True), w_version = (\<lambda>_. Some ''1''), w_now = 0, w_unix_secs = 0,
      w_events = [], w_health = healthy, w_deleted = [], w_monitors = []\<rparr>"

definition demo_daemon :: daemon where
  "demo_daemon = start_daemon (\<lambda>_. True) [] demo_world"

definition demo_outcome :: "spawn_outcome \<Rightarrow> os_answer" where
  "demo_outcome out =
     \<lparr>oc_spawn = out, oc_check = StillUp, oc_alive = (\<lambda>_ _. False), oc_fs = tiny_fs, oc_exists = (\<lambda>_. True), oc_rm = (\<lambda>_. None)\<rparr>"

lemma demo_registries: "registries_ok demo_world"
  by (auto simp: registries_ok_def demo_world_def demo_registry_def ids_match_def load_def demo_config_def)

text \<open>The daemon after its start: nothing runs and nothing was adopted.\<close>

definition demo_started :: daemon where
  "demo_started = \<lparr>d_world = demo_world, d_sweep = SweepIdle, d_evict = EvictIdle, d_requests = [], d_replies = []\<rparr>"

lemma demo_list: "list_nodes demo_registry = [demo_config 1, demo_config 2]"
  by (simp add: list_nodes_def demo_registry_def demo_config_def)

lemma demo_daemon_started: "demo_daemon = demo_started"
proof -
  have w: "demo_world\<lparr>w_sup := new_supervisor, w_health := healthy, w_monitors := []\<rparr> = demo_world"
    by (simp add: demo_world_def)
  have r: "reconcile_registry_versions (\<lambda>_. True) demo_world = demo_world"
    by (simp add: reconcile_registry_versions_def demo_world_def demo_list reconcile_one_def)
       (simp add: demo_registry_def demo_config_def)
  have "snd (adopt_from_registry [] demo_world) = demo_world"
    by (simp add: adopt_from_registry_def demo_world_def demo_list resolve_adopted_pid_def read_node_pid_def
        scan_for_pid_def find_running_node_process_def)
  then show ?thesis by (simp add: demo_daemon_def start_daemon_def demo_started_def w r Let_def)
qed

lemmas daemon_eval =
  demo_daemon_started demo_started_def demo_world_def demo_outcome_def Let_def serve_def serve_lookup_def serve_start_def serve_stop_def
  start_node_def stop_node_def spawn_node_from_config_def send_def update_sup_def insert_state_def modify_runtime_def mark_owned_def
  write_node_pid_def remove_node_pid_def is_running_def runtime_def node_status_def node_pid_def fresh_runtime_def new_supervisor_def
  monitor_step_def monitor_at_def monitor_ends_def exit_seen_def crashed_def slept_def respawned_def node_of_def update_state_def
  record_crash_def crash_runtime_def reset_if_stable_def is_upgrade_restart_exit_code_def RESTART_EXIT_CODE_def

text \<open>Starting a node, and its process dying.\<close>

definition start_labels :: "u32 \<Rightarrow> label list" where
  "start_labels pid =
     [Arrive (PostStart 1), Serve 0 (demo_outcome (SpawnFailed [])), Serve 0 (demo_outcome (Spawned pid))]"

theorem every_running_node_is_watched_witness:
  "\<exists>d. run (start_labels 7) demo_daemon = Some d \<and> is_running 1 (w_sup (d_world d)) \<and>
     (\<exists>m \<in> set (w_monitors (d_world d)). node_of m = 1 \<and> m_pid m = 7)"
proof -
  obtain d where d: "run (start_labels 7) demo_daemon = Some d" "is_running 1 (w_sup (d_world d))"
    "\<not> is_adopted 1 (w_sup (d_world d))" "node_pid 1 (w_sup (d_world d)) = Some 7" "d_sweep d = SweepIdle"
    by (simp add: start_labels_def daemon_eval demo_registry_def demo_config_def is_adopted_def)
  from every_running_node_is_watched [OF demo_registries d(1) [unfolded demo_daemon_def] d(2)] d show ?thesis by auto
qed

end
