(* ===== verification/Daemon_Stops.thy ===== *)
theory Daemon_Stops
  imports Daemon_Safety
begin

text \<open>
  When a stop of a node is final, and when it is not; nodes under eviction; and the schedules in
  which two tasks of the daemon undo each other's work.
\<close>

section \<open>When a stop is final\<close>

definition rests :: "u32 \<Rightarrow> supervisor \<Rightarrow> bool" where
  "rests n sv \<longleftrightarrow> (\<exists>rt. runtime n sv = Some rt \<and> rt_status rt \<in> {Stopped, Evicted})"

fun waits :: "monitor_pc \<Rightarrow> bool" where
  "waits Waiting = True"
| "waits (ExitSeen _) = True"
| "waits _ = False"

definition quiet_monitors :: "u32 \<Rightarrow> monitor list \<Rightarrow> bool" where
  "quiet_monitors n ms \<longleftrightarrow> (\<forall>m \<in> set ms. node_of m = n \<longrightarrow> waits (m_pc m))"

text \<open>The nodes the sweep still has to look at, and the one it may be respawning.\<close>

fun sweep_nodes :: "sweep_pc \<Rightarrow> u32 set" where
  "sweep_nodes SweepIdle = {}"
| "sweep_nodes (SweepNext cs) = fst ` set cs"
| "sweep_nodes (SweepCheck c rest) = fst ` set (c # rest)"
| "sweep_nodes (SweepConfig c rest) = fst ` set (c # rest)"
| "sweep_nodes (SweepRespawn _ c rest) = fst ` set (c # rest)"
| "sweep_nodes (SweepSpawned _ _ c rest) = fst ` set (c # rest)"
| "sweep_nodes (SweepRecorded _ _ _ _ c rest) = fst ` set (c # rest)"
| "sweep_nodes (SweepOwn _ _ c rest) = fst ` set (c # rest)"
| "sweep_nodes (SweepFailed c rest) = fst ` set (c # rest)"
| "sweep_nodes (SweepStop c rest) = fst ` set (c # rest)"

fun may_start :: "u32 \<Rightarrow> api_request \<Rightarrow> bool" where
  "may_start n (PostStart k) = (k = n)"
| "may_start n (StartWith c) = (nc_id c = n)"
| "may_start n PostStartAll = True"
| "may_start n (StartAllWith cs _ _ _) = (n \<in> nc_id ` set cs)"
| "may_start n _ = False"

definition at_rest :: "u32 \<Rightarrow> daemon \<Rightarrow> bool" where
  "at_rest n d \<longleftrightarrow>
     rests n (w_sup (d_world d)) \<and> quiet_monitors n (w_monitors (d_world d)) \<and> n \<notin> sweep_nodes (d_sweep d) \<and>
     (\<forall>r \<in> set (d_requests d). \<not> may_start n r)"

fun asks_start :: "u32 \<Rightarrow> label \<Rightarrow> bool" where
  "asks_start n (Arrive r) = may_start n r"
| "asks_start n _ = False"

lemma rests_cong: "runtime n sv' = runtime n sv \<Longrightarrow> rests n sv' = rests n sv"
  by (simp add: rests_def)

lemma rests_modify: "n \<noteq> k \<Longrightarrow> rests n (modify_runtime k f sv) = rests n sv"
  "n \<noteq> k \<Longrightarrow> rests n (insert_state k rt sv) = rests n sv"
  "rests n (mark_owned k sv) = rests n sv" "rests n (begin_evicting k sv) = rests n sv" "rests n (finish_evicting k sv) = rests n sv"
  by (auto intro!: rests_cong simp: sup_rules)

lemma stop_node_rests:
  assumes "rests n (w_sup w)" and "stop_node k alive w = (r, w')"
  shows "rests n (w_sup w')" and "w_monitors w' = w_monitors w"
  using assms
  by (auto simp: stop_node_def Let_def frame rests_modify rests_def sup_rules split: option.splits if_splits)

lemma stop_all_rests:
  assumes "rests n (w_sup w)" and "stop_all_nodes alive ids w = (r, w')"
  shows "rests n (w_sup w') \<and> w_monitors w' = w_monitors w"
proof -
  have "rests n (w_sup (snd (foldl (stop_one alive) acc ids))) \<and>
      w_monitors (snd (foldl (stop_one alive) acc ids)) = w_monitors (snd acc)" if "rests n (w_sup (snd acc))" for acc
    using that
  proof (induction ids arbitrary: acc)
    case (Cons x ids)
    obtain r0 w0 k name where a: "acc = (r0, w0)" "x = (k, name)" by fastforce
    obtain r1 w1 where st: "stop_node k (alive k) w0 = (r1, w1)" by fastforce
    have "snd (stop_one alive acc x) = w0 \<or> snd (stop_one alive acc x) = w1"
      by (auto simp: stop_one_def a st split: sum.splits node_error.splits)
    then have "rests n (w_sup (snd (stop_one alive acc x))) \<and> w_monitors (snd (stop_one alive acc x)) = w_monitors (snd acc)"
      using stop_node_rests [OF _ st] Cons.prems a by auto
    then show ?case using Cons.IH [of "stop_one alive acc x"] by simp
  qed simp
  from this [of "(\<lparr>sn_stopped = [], sn_failed = [], sn_already_stopped = []\<rparr>, w)"] assms show ?thesis
    by (simp add: stop_all_nodes_def)
qed

lemma start_node_rests:
  assumes "rests n (w_sup w)" and "quiet_monitors n (w_monitors w)" and "nc_id c \<noteq> n" and "start_node c out check w = (r, w')"
  shows "rests n (w_sup w') \<and> quiet_monitors n (w_monitors w')"
proof -
  obtain s w0 where sp: "spawn_node_from_config c out (send (NodeStarting (nc_id c)) w) = (s, w0)" by fastforce
  have f: "w_sup w0 = w_sup w" "w_monitors w0 = w_monitors w" using frame_spawn [OF sp] by (simp_all add: frame)
  show ?thesis using assms f
    by (auto simp: start_node_def Let_def sp frame rests_modify quiet_monitors_def split: if_splits sum.splits option.splits start_check.splits)
qed

lemma set_replaced: "x \<in> set (replaced ms i mo) \<Longrightarrow> x \<in> set ms \<or> mo = Some x"
  using set_update_subset_insert [of ms i "the mo"]
  by (cases mo) (auto simp: replaced_def dest: in_set_takeD in_set_dropD)

lemma quiet_replaced:
  assumes "quiet_monitors n ms" and "\<And>m. mo = Some m \<Longrightarrow> node_of m = n \<Longrightarrow> waits (m_pc m)"
  shows "quiet_monitors n (replaced ms i mo)"
  unfolding quiet_monitors_def
proof (intro ballI impI)
  fix m
  assume "m \<in> set (replaced ms i mo)" and "node_of m = n"
  then show "waits (m_pc m)" using set_replaced [of m ms i mo] assms by (auto simp: quiet_monitors_def)
qed

lemma monitor_step_rests:
  assumes "rests n (w_sup w)" and "quiet_monitors n ms" and i: "i < length ms"
    and step: "monitor_step (ms ! i) code out w = Some (mo, w')"
  shows "rests n (w_sup w') \<and> quiet_monitors n (replaced ms i mo)"
proof (cases "node_of (ms ! i) = n")
  case True
  then have "waits (m_pc (ms ! i))" using assms(2) i by (simp add: quiet_monitors_def)
  moreover have "node_status n (w_sup w) \<in> {Inr Stopped, Inr Evicted}"
    using assms(1) by (auto simp: rests_def node_status_iff)
  ultimately have "w_sup w' = w_sup w" and "mo = None \<or> (\<exists>c. mo = Some ((ms ! i)\<lparr>m_pc := ExitSeen c\<rparr>))"
    using step True
    by (cases "m_pc (ms ! i)"; auto simp: monitor_step_def exit_seen_def monitor_ends_def monitor_at_def frame split: if_splits)+
  then show ?thesis using assms(1) by (auto intro!: quiet_replaced [OF assms(2)])
next
  case False
  have sup: "rests n (w_sup w')"
  proof (cases "m_pc (ms ! i)")
    case (ReadVersion c)
    then show ?thesis using step assms(1) spawning_steps(2) by (fastforce simp: monitor_step_def)
  next
    case Sleeping
    then show ?thesis using step assms(1) spawning_steps(1) by (fastforce simp: monitor_step_def)
  next
    case (UpgradeSpawned pid)
    then show ?thesis using step assms(1) frame_record(1)
      by (fastforce simp: monitor_step_def upgrade_spawned_def split: prod.splits)
  qed (use step assms(1) False in \<open>auto simp: monitor_step_def monitor_at_def monitor_ends_def exit_seen_def upgrade_recorded_def
    crashed_def record_crash_def respawned_def failing_def update_state_def frame rests_modify Let_def
    split: if_splits prod.splits option.splits\<close>)
  have "node_of m = node_of (ms ! i)" if "mo = Some m" for m
    using step that frame_record(3)
    by (cases "m_pc (ms ! i)") (auto simp: monitor_step_def monitor_at_def monitor_ends_def exit_seen_def read_version_def
        upgrade_spawned_def upgrade_recorded_def crashed_def slept_def respawned_def failing_def node_of_def Let_def
        split: if_splits prod.splits option.splits sum.splits)
  then have "quiet_monitors n (replaced ms i mo)" using False by (intro quiet_replaced [OF assms(2)]) auto
  with sup show ?thesis by simp
qed

lemma sweep_candidates_running: "c \<in> set (sweep_candidates w) \<Longrightarrow> is_running (fst c) (w_sup w)"
  by (auto simp: sweep_candidates_def map_filter_def node_status_iff is_running_iff split: option.splits if_splits)

lemma sweep_step_rests:
  assumes rest: "rests n (w_sup w)" and quiet: "quiet_monitors n (w_monitors w)" and "n \<notin> sweep_nodes pc" and "sweep_wf pc"
    and step: "sweep_step pc out w = (pc', w')"
  shows "rests n (w_sup w') \<and> quiet_monitors n (w_monitors w') \<and> n \<notin> sweep_nodes pc'"
proof (cases pc)
  case SweepIdle
  have "n \<notin> fst ` set (sweep_candidates w)"
    using rest sweep_candidates_running [of _ w] by (fastforce simp: rests_def is_running_iff)
  then show ?thesis using SweepIdle assms by (auto simp: sweep_step_def)
next
  case (SweepNext cs)
  then show ?thesis using assms by (cases cs) (auto simp: sweep_step_def split: if_splits)
next
  case (SweepRespawn config c rest)
  obtain r w1 where sp: "respawn_spawn config out w = (r, w1)" by fastforce
  have "w_sup w' = w_sup w" "w_monitors w' = w_monitors w"
    and pcs: "pc' = SweepStop c rest \<or> pc' = SweepFailed c rest \<or> (\<exists>p. pc' = SweepSpawned config p c rest)"
    using step SweepRespawn frame_respawn_spawn [OF sp]
    by (auto simp: sweep_step_def sweep_respawn_def sp frame split: option.splits if_splits sum.splits)
  moreover have "sweep_nodes pc' = sweep_nodes pc" using pcs SweepRespawn by (elim disjE exE) simp_all
  ultimately show ?thesis using assms by simp
next
  case (SweepSpawned config pid c rest)
  obtain config' v w1 where r: "respawn_record config w = (config', v, w1)" by (metis prod_cases3)
  then show ?thesis using assms SweepSpawned frame_record [OF r] by (auto simp: sweep_step_def)
next
  case (SweepRecorded config pid ov nv c rest)
  then have "n \<noteq> nc_id config" using assms(3,4) by auto
  then show ?thesis using assms SweepRecorded by (auto simp: sweep_step_def frame rests_modify)
next
  case (SweepOwn config pid c rest)
  then show ?thesis using assms by (auto simp: sweep_step_def Let_def frame rests_modify quiet_monitors_def)
next
  case (SweepFailed c rest)
  then show ?thesis using assms
    by (auto simp: sweep_step_def sweep_failed_def frame rests_modify update_state_def split: prod.splits)
next
  case (SweepStop c rest)
  then show ?thesis using assms
    by (auto simp: sweep_step_def sweep_stop_def frame rests_modify update_state_def split: prod.splits if_splits)
qed (use assms in \<open>auto simp: sweep_step_def split: if_splits option.splits\<close>)

lemma evict_step_rests:
  assumes "rests n (w_sup w)" and "evict_step epc env alive rm w = (epc', w')"
  shows "rests n (w_sup w') \<and> w_monitors w' = w_monitors w"
proof (cases epc)
  case (EvictMeasure k)
  then show ?thesis using assms
    by (cases k) (auto simp: evict_step_def evict_measure_def Let_def frame split: option.splits)
next
  case (EvictStop e k)
  then have st: "stop_node (du_node_id (ev_candidate e)) alive w = (fst (stop_node (du_node_id (ev_candidate e)) alive w), w')"
    using assms(2) by (auto simp: evict_step_def)
  show ?thesis using stop_node_rests [OF assms(1) st] by simp
next
  case (EvictClose e b r k)
  then show ?thesis using assms
    by (auto simp: evict_step_def evict_close_def Let_def frame rests_modify update_state_def rests_def sup_rules)
qed (use assms in \<open>auto simp: evict_step_def frame rests_modify split: sum.splits prod.splits\<close>)

lemma serve_rests:
  assumes rest: "rests n (w_sup w)" and quiet: "quiet_monitors n (w_monitors w)" and req: "\<not> may_start n r"
    and reg: "registries_ok w" and step: "serve r out w = (a, w')"
  shows "rests n (w_sup w') \<and> quiet_monitors n (w_monitors w') \<and> (\<forall>r'. a = Inr r' \<longrightarrow> \<not> may_start n r')"
proof (cases r)
  case (PostStart k)
  then show ?thesis using assms
    by (auto simp: serve_def serve_lookup_def registries_ok_def ids_match_def split: option.splits if_splits)
next
  case (StartWith c)
  then show ?thesis using step rest quiet req start_node_rests [OF rest quiet]
    by (auto simp: serve_def serve_start_def split: if_splits prod.splits sum.splits node_error.splits)
next
  case (StartAllWith cs x y z)
  show ?thesis
  proof (cases cs)
    case Nil
    then show ?thesis using StartAllWith step rest quiet by (auto simp: serve_def)
  next
    case (Cons c cs')
    obtain e w1 where st: "start_node c (oc_spawn out) (oc_check out) w = (e, w1)" by fastforce
    have ne: "nc_id c \<noteq> n" "n \<notin> nc_id ` set cs'" using req StartAllWith Cons by auto
    have "w' = w \<or> w' = w1" and "\<exists>x y z. a = Inr (StartAllWith cs' x y z)"
      using step StartAllWith Cons st by (auto simp: serve_def split: if_splits sum.splits node_error.splits)
    then show ?thesis using start_node_rests [OF rest quiet ne(1) st] rest quiet ne(2) by auto
  qed
next
  case (StopWith c)
  then show ?thesis using step rest quiet stop_node_rests [OF rest]
    by (auto simp: serve_def serve_stop_def Let_def split: if_splits prod.splits sum.splits node_error.splits)
next
  case (StopAllWith ids)
  then show ?thesis using step quiet stop_all_rests [OF rest] by (auto simp: serve_def split: prod.splits)
qed (use assms in \<open>auto simp: serve_def serve_lookup_def serve_delete_def serve_add_def save_file_def serve_reset_dirs_def reload_def Let_def
  split: option.splits prod.splits sum.splits if_splits node_error.splits\<close>)

lemma exec_at_rest:
  assumes w: "watched d" and rest: "at_rest n d" and l: "\<not> asks_start n l" and exec: "exec l d = Some d'"
  shows "at_rest n d'"
proof (cases l)
  case (MonitorStep i code out)
  define ms where "ms = w_monitors (d_world d)"
  have i: "i < length ms"
    using exec MonitorStep by (simp add: ms_def Let_def split: if_splits)
  obtain mo w where step: "monitor_step (ms ! i) code out (d_world d) = Some (mo, w)"
    and d': "d' = d\<lparr>d_world := w\<lparr>w_monitors := replaced ms i mo\<rparr>\<rparr>"
    using exec MonitorStep
    by (auto simp: ms_def Let_def replaced_def split: if_splits option.splits prod.splits)
  show ?thesis using rest monitor_step_rests [OF _ _ i step] by (simp add: at_rest_def d' ms_def)
next
  case (SweepStep out)
  obtain pc w1 where step: "sweep_step (d_sweep d) out (d_world d) = (pc, w1)" by fastforce
  then have "d' = d\<lparr>d_sweep := pc, d_world := w1\<rparr>" using exec SweepStep by (simp split: if_splits)
  then show ?thesis using w rest sweep_step_rests [OF _ _ _ _ step, of n] by (simp add: at_rest_def watched_def)
next
  case (EvictStepping env alive rm)
  obtain pc w1 where step: "evict_step (d_evict d) env alive rm (d_world d) = (pc, w1)" by fastforce
  then have "d' = d\<lparr>d_evict := pc, d_world := w1\<rparr>" using exec EvictStepping by simp
  then show ?thesis using rest evict_step_rests [OF _ step, of n] by (simp add: at_rest_def)
next
  case (Serve i out)
  obtain a w1 where step: "serve (d_requests d ! i) out (d_world d) = (a, w1)" by fastforce
  have i: "i < length (d_requests d)" using exec Serve by (simp add: Let_def split: if_splits)
  then have req: "\<not> may_start n (d_requests d ! i)" using rest by (simp add: at_rest_def)
  have "d_world d' = w1" "d_sweep d' = d_sweep d"
    and "\<forall>r \<in> set (d_requests d'). r \<in> set (d_requests d) \<or> a = Inr r"
    using exec Serve step
    by (auto simp: Let_def split: if_splits sum.splits dest!: subsetD [OF set_update_subset_insert]
        dest: in_set_takeD in_set_dropD)
  then show ?thesis using w rest serve_rests [OF _ _ req _ step] by (auto simp: at_rest_def watched_def)
qed (use rest l exec in \<open>auto simp: at_rest_def Let_def split: if_splits\<close>)

text \<open>
  C34: A node that is stopped or evicted while its monitors only wait for their child, while the liveness
  sweep is not looking at it, and while nobody asks to start it, stays so in every schedule in
  which nobody asks to start it.
\<close>

theorem a_stop_is_final:
  assumes "registries_ok w" and "run ls (start_daemon present sys w) = Some d" and "at_rest n d"
    and "run ls' d = Some d'" and "\<And>l. l \<in> set ls' \<Longrightarrow> \<not> asks_start n l"
  shows "\<not> is_running n (w_sup (d_world d'))"
proof -
  have "watched d"
    by (rule watch.reachable_inv [OF run_reaches [OF assms(2)] start_daemon_watched [OF assms(1)]])
  then have "at_rest n d'" using assms(3,4,5)
  proof (induction ls' arbitrary: d)
    case (Cons l ls')
    then obtain d1 where e: "exec l d = Some d1" "run ls' d1 = Some d'" by (auto simp: bind_eq_Some_conv)
    show ?case
    proof (rule Cons.IH [OF _ _ e(2)])
      show "watched d1" using Cons.prems(1) e(1) by (rule exec_watched)
      show "at_rest n d1" using exec_at_rest [OF Cons.prems(1,2) _ e(1)] Cons.prems(4) by simp
    qed (use Cons.prems(4) in simp)
  qed simp
  then show ?thesis by (auto simp: at_rest_def rests_def is_running_iff)
qed

text \<open>The node of the small daemon is started, then stopped.\<close>

definition stop_labels :: "label list" where
  "stop_labels =
     [Arrive (PostStop 1), Serve 0 (demo_outcome (SpawnFailed [])), Serve 0 (demo_outcome (SpawnFailed []))]"

lemma demo_kill: "kill_sequence (\<lambda>t. False) = ([SIGTERM], 0, True)"
  by (simp add: kill_sequence_def wait_for_exit.simps)

theorem a_stop_is_final_witness:
  "\<exists>d d'. run (start_labels 7 @ stop_labels) demo_daemon = Some d \<and> at_rest 1 d \<and>
     run [MonitorStep 0 (Some 1) (SpawnFailed []), MonitorStep 0 None (SpawnFailed [])] d = Some d' \<and>
     \<not> is_running 1 (w_sup (d_world d'))"
proof -
  obtain d d' where d: "run (start_labels 7 @ stop_labels) demo_daemon = Some d" "at_rest 1 d"
    "run [MonitorStep 0 (Some 1) (SpawnFailed []), MonitorStep 0 None (SpawnFailed [])] d = Some d'"
    by (simp add: start_labels_def stop_labels_def daemon_eval demo_registry_def demo_config_def graceful_kill_def demo_kill
        at_rest_def rests_def quiet_monitors_def)
  have "\<not> is_running 1 (w_sup (d_world d'))"
    by (rule a_stop_is_final [OF demo_registries d(1) [unfolded demo_daemon_def] d(2,3)]) auto
  with d show ?thesis by blast
qed

section \<open>Stops that are undone\<close>

definition crash_labels :: "label list" where
  "crash_labels =
     [ProcessExit 7, MonitorStep 0 (Some 1) (SpawnFailed []), MonitorStep 0 None (SpawnFailed []),
      MonitorStep 0 None (SpawnFailed [])]"

definition wake_labels :: "label list" where
  "wake_labels = [Tick (secs 1), MonitorStep 0 None (Spawned 9), MonitorStep 0 None (SpawnFailed [])]"


end
