(* ===== verification/Daemon_Evictions.thy ===== *)
theory Daemon_Evictions
  imports Daemon_Safety
begin

text \<open>
  Evictions in the daemon: the bound of a cycle, what is evicted, that a node under eviction is not
  started, and how a registry saved by another task erases the marker of a finished eviction.
\<close>

section \<open>A node under eviction is not started\<close>

text \<open>The node the eviction task has marked and not yet released.\<close>

fun evicts :: "evict_pc \<Rightarrow> u32 option" where
  "evicts (EvictPersist ev _) = Some (du_node_id (ev_candidate ev))"
| "evicts (EvictStop ev _) = Some (du_node_id (ev_candidate ev))"
| "evicts (EvictDelete ev _) = Some (du_node_id (ev_candidate ev))"
| "evicts (EvictFinal ev _ _) = Some (du_node_id (ev_candidate ev))"
| "evicts (EvictClose ev _ _ _) = Some (du_node_id (ev_candidate ev))"
| "evicts _ = None"

definition guarded :: "daemon \<Rightarrow> bool" where
  "guarded d \<longleftrightarrow> (\<forall>n. evicts (d_evict d) = Some n \<longrightarrow> n \<in> set (evicting (w_sup (d_world d))))"

lemma start_node_evicting:
  assumes "start_node c out check w = (r, w')"
  shows "evicting (w_sup w') = evicting (w_sup w)"
proof -
  obtain s w0 where sp: "spawn_node_from_config c out (send (NodeStarting (nc_id c)) w) = (s, w0)" by fastforce
  have f: "w_sup w0 = w_sup w" using frame_spawn [OF sp] by (simp_all add: frame)
  show ?thesis using assms f
    by (auto simp: start_node_def Let_def sp frame sup_rules split: if_splits sum.splits option.splits start_check.splits)
qed

lemma stop_node_evicting: "stop_node k alive w = (r, w') \<Longrightarrow> evicting (w_sup w') = evicting (w_sup w)"
  by (auto simp: stop_node_def Let_def frame sup_rules split: option.splits if_splits)

lemma stop_all_evicting: "stop_all_nodes alive ids w = (r, w') \<Longrightarrow> evicting (w_sup w') = evicting (w_sup w)"
proof -
  have "evicting (w_sup (snd (foldl (stop_one alive) acc ids))) = evicting (w_sup (snd acc))" for acc
  proof (induction ids arbitrary: acc)
    case (Cons x ids)
    obtain r0 w0 k name where a: "acc = (r0, w0)" "x = (k, name)" by fastforce
    obtain r1 w1 where st: "stop_node k (alive k) w0 = (r1, w1)" by fastforce
    have "snd (stop_one alive acc x) = w0 \<or> snd (stop_one alive acc x) = w1"
      by (auto simp: stop_one_def a st split: sum.splits node_error.splits)
    then show ?case using Cons.IH [of "stop_one alive acc x"] stop_node_evicting [OF st] by (auto simp: a)
  qed simp
  from this [of "(\<lparr>sn_stopped = [], sn_failed = [], sn_already_stopped = []\<rparr>, w)"]
  show "stop_all_nodes alive ids w = (r, w') \<Longrightarrow> evicting (w_sup w') = evicting (w_sup w)"
    by (simp add: stop_all_nodes_def)
qed

lemma monitor_step_evicting:
  assumes "monitor_step m code out w = Some (mo, w')"
  shows "evicting (w_sup w') = evicting (w_sup w)"
proof (cases "m_pc m")
  case (ReadVersion c)
  then show ?thesis using assms spawning_steps(2) by (fastforce simp: monitor_step_def)
next
  case Sleeping
  then show ?thesis using assms spawning_steps(1) by (fastforce simp: monitor_step_def)
next
  case (UpgradeSpawned pid)
  then show ?thesis using assms frame_record(1)
    by (fastforce simp: monitor_step_def upgrade_spawned_def split: prod.splits)
qed (use assms in \<open>auto simp: monitor_step_def monitor_at_def monitor_ends_def exit_seen_def upgrade_recorded_def
  crashed_def record_crash_def respawned_def failing_def update_state_def frame sup_rules Let_def
  split: if_splits prod.splits option.splits\<close>)

lemma sweep_step_evicting:
  assumes step: "sweep_step pc out w = (pc', w')"
  shows "evicting (w_sup w') = evicting (w_sup w)"
proof (cases pc)
  case (SweepNext cs)
  then show ?thesis using assms by (cases cs) (auto simp: sweep_step_def)
next
  case (SweepRespawn config c rest)
  obtain r w1 where sp: "respawn_spawn config out w = (r, w1)" by fastforce
  show ?thesis using step SweepRespawn frame_respawn_spawn [OF sp]
    by (auto simp: sweep_step_def sweep_respawn_def sp frame split: option.splits if_splits sum.splits)
next
  case (SweepSpawned config pid c rest)
  obtain config' v w1 where r: "respawn_record config w = (config', v, w1)" by (metis prod_cases3)
  then show ?thesis using assms SweepSpawned frame_record [OF r] by (auto simp: sweep_step_def)
qed (use assms in \<open>auto simp: sweep_step_def sweep_failed_def sweep_stop_def update_state_def frame sup_rules Let_def
  split: prod.splits if_splits option.splits\<close>)

lemma serve_evicting:
  assumes step: "serve r out w = (a, w')"
  shows "evicting (w_sup w') = evicting (w_sup w)"
proof (cases r)
  case (StartWith c)
  obtain e w1 where st: "start_node c (oc_spawn out) (oc_check out) w = (e, w1)" by fastforce
  then have "w' = w \<or> w' = w1"
    using step StartWith by (auto simp: serve_def serve_start_def split: if_splits sum.splits node_error.splits)
  then show ?thesis using start_node_evicting [OF st] by auto
next
  case (StartAllWith cs x y z)
  show ?thesis
  proof (cases cs)
    case (Cons c cs')
    obtain e w1 where st: "start_node c (oc_spawn out) (oc_check out) w = (e, w1)" by fastforce
    then have "w' = w \<or> w' = w1"
      using step StartAllWith Cons by (auto simp: serve_def split: if_splits sum.splits node_error.splits)
    then show ?thesis using start_node_evicting [OF st] by auto
  qed (use step StartAllWith in \<open>auto simp: serve_def\<close>)
next
  case (StopWith c)
  obtain e w1 where st: "stop_node (nc_id c) (oc_alive out (nc_id c)) w = (e, w1)" by fastforce
  then have "w' = w \<or> w' = w1"
    using step StopWith by (auto simp: serve_def serve_stop_def Let_def split: if_splits sum.splits node_error.splits)
  then show ?thesis using stop_node_evicting [OF st] by auto
next
  case (StopAllWith ids)
  then show ?thesis using step stop_all_evicting by (auto simp: serve_def split: prod.splits)
qed (use step in \<open>auto simp: serve_def serve_lookup_def serve_delete_def serve_add_def save_file_def serve_reset_dirs_def reload_def Let_def
  split: option.splits prod.splits sum.splits if_splits node_error.splits\<close>)

lemma evict_step_guarded:
  assumes "\<And>n. evicts pc = Some n \<Longrightarrow> n \<in> set (evicting (w_sup w))" and "evict_step pc env alive rm w = (pc', w')"
    and "evicts pc' = Some n"
  shows "n \<in> set (evicting (w_sup w'))"
proof (cases pc)
  case (EvictMeasure k)
  then show ?thesis using assms
    by (cases k) (auto simp: evict_step_def evict_measure_def Let_def split: option.splits)
next
  case (EvictStop ev k)
  then have st: "stop_node (du_node_id (ev_candidate ev)) alive w = (fst (stop_node (du_node_id (ev_candidate ev)) alive w), w')"
    using assms(2) by (auto simp: evict_step_def)
  show ?thesis using assms EvictStop stop_node_evicting [OF st] by (auto simp: evict_step_def)
qed (use assms in \<open>auto simp: evict_step_def frame sup_rules split: sum.splits prod.splits\<close>)

lemma exec_guarded:
  assumes "guarded d" and "exec l d = Some d'"
  shows "guarded d'"
proof (cases l)
  case (MonitorStep i code out)
  then obtain mo w where "monitor_step (w_monitors (d_world d) ! i) code out (d_world d) = Some (mo, w)"
    and "w_sup (d_world d') = w_sup w" "d_evict d' = d_evict d"
    using assms(2) by (auto simp: Let_def split: if_splits option.splits prod.splits)
  then show ?thesis using assms(1) monitor_step_evicting by (simp add: guarded_def)
next
  case (SweepStep out)
  then show ?thesis using assms sweep_step_evicting
    by (auto simp: guarded_def split: if_splits prod.splits)
next
  case (EvictStepping env alive rm)
  then show ?thesis using assms evict_step_guarded [of "d_evict d" "d_world d" env alive rm]
    by (auto simp: guarded_def split: prod.splits)
next
  case (Serve i out)
  obtain a w1 where step: "serve (d_requests d ! i) out (d_world d) = (a, w1)" by fastforce
  have "d_world d' = w1" "d_evict d' = d_evict d"
    using assms(2) Serve step by (auto simp: Let_def split: if_splits sum.splits)
  then show ?thesis using assms(1) serve_evicting [OF step] by (simp add: guarded_def)
qed (use assms in \<open>auto simp: guarded_def Let_def split: if_splits\<close>)

interpretation guard: transition_invariant daemon_step guarded
  by unfold_locales (auto simp: daemon_step_def intro: exec_guarded)

text \<open>
  C35: From the moment the eviction task has marked a node until it has released it, over the stop and
  the deletion of its data directory, no request starts the node, even with a configuration read
  before the eviction.
\<close>

theorem node_under_eviction_is_not_started:
  assumes "run ls (start_daemon present sys w) = Some d" and "evicts (d_evict d) = Some (nc_id config)"
  shows "start_node config out check (d_world d) = (Inl (NodeEvicted (nc_id config)), d_world d)"
proof -
  have "guarded (start_daemon present sys w)" by (simp add: guarded_def start_daemon_def Let_def)
  with run_reaches [OF assms(1)] have "guarded d" by (rule guard.reachable_inv)
  then show ?thesis using assms(2) by (simp add: guarded_def start_node_def Let_def)
qed

text \<open>A full disk that both nodes of the small daemon share.\<close>

definition full_disk :: disk_env where
  "full_disk =
     \<lparr>exists_path = (\<lambda>_. True), device_of = (\<lambda>_. Some 1), canonicalize = (\<lambda>_. None), read_tree = (\<lambda>_. Some []),
      free_bytes = (\<lambda>_. Some 0)\<rparr>"

definition start_both :: "label list" where
  "start_both =
     [Arrive (PostStart 1), Serve 0 (demo_outcome (SpawnFailed [])), Serve 0 (demo_outcome (Spawned 7)),
      Arrive (PostStart 2), Serve 0 (demo_outcome (SpawnFailed [])), Serve 0 (demo_outcome (Spawned 8))]"

definition evict_steps :: "nat \<Rightarrow> label list" where
  "evict_steps n = replicate n (EvictStepping full_disk (\<lambda>_. False) (\<lambda>_. RmOk))"

lemma full_disk_partition:
  "partition_states full_disk [(1, p), (2, q)] =
     [\<lparr>ps_partition = ''dev:'' @ show_nat 1, ps_available_bytes = 0,
       ps_nodes = [\<lparr>du_node_id = 1, du_data_dir = p, du_size_bytes = 0\<rparr>, \<lparr>du_node_id = 2, du_data_dir = q, du_size_bytes = 0\<rparr>]\<rparr>]"
  by (simp add: partition_states_def group_nodes_def full_disk_def partition_key_def nearest_existing_ancestor_def
      nearest_existing.simps Let_def usage_of_def dir_size_is_the_space_below dir_bytes_def available_space_def map_filter_def
      del: show_nat.simps)

lemmas evict_eval = evict_step_def evict_measure_def MAX_EVICTIONS_PER_CYCLE_def running_nodes_def list_nodes_def
  full_disk_partition eviction_target_def eviction_candidate_def cmp_greater_def begin_evicting_def numeral_eq_Suc

theorem node_under_eviction_is_not_started_witness:
  "\<exists>d. run (start_both @ evict_steps 3) demo_daemon = Some d \<and> evicts (d_evict d) = Some 2 \<and>
     start_node (demo_config 2) (Spawned 9) StillUp (d_world d) = (Inl (NodeEvicted 2), d_world d)"
proof -
  obtain d where d: "run (start_both @ evict_steps 3) demo_daemon = Some d" "evicts (d_evict d) = Some 2"
    by (simp add: start_both_def evict_steps_def daemon_eval demo_registry_def demo_config_def evict_eval)
  have "nc_id (demo_config 2) = 2" by (simp add: demo_config_def)
  with node_under_eviction_is_not_started [OF d(1) [unfolded demo_daemon_def], of "demo_config 2" "Spawned 9" StillUp] d
  show ?thesis by simp
qed

section \<open>What a cycle evicts\<close>

text \<open>
  A node chosen for eviction is registered, running and not evicted; its partition is at or below the
  threshold and hosts a second running node; and its data directory is the smallest there.
\<close>

lemma evict_measure_choice:
  assumes "evict_measure env n w = (EvictMark c available k, w')"
  shows "\<exists>p \<in> set (partition_states env (running_nodes w)).
    available = ps_available_bytes p \<and> available \<le> eviction_bytes default_thresholds \<and> 2 \<le> length (ps_nodes p) \<and>
    c \<in> set (ps_nodes p) \<and> (\<forall>x \<in> set (ps_nodes p). evict_before c x) \<and> is_running (du_node_id c) (w_sup w)"
proof -
  obtain p where t: "eviction_target default_thresholds (partition_states env (running_nodes w)) = Some p"
    and c: "eviction_candidate p = Some c" and a: "available = ps_available_bytes p"
    using assms by (auto simp: evict_measure_def Let_def split: option.splits)
  have p: "p \<in> set (partition_states env (running_nodes w))" "available \<le> eviction_bytes default_thresholds" "2 \<le> length (ps_nodes p)"
    using t a by (auto simp: eviction_target_def find_Some_iff)
  note cs = eviction_candidate_spec [OF c]
  have "c \<in> usage_of env ` set (running_nodes w)" using partition_state_nodes(2) [OF p(1) cs(1)] by simp
  then have "is_running (du_node_id c) (w_sup w)"
    by (auto simp: running_nodes_def usage_of_def node_status_iff is_running_iff)
  then show ?thesis using p cs a by blast
qed

section \<open>A finished eviction can be forgotten\<close>

text \<open>
  The supervisor saves the registry without the lock that guards it in a file. A request that loaded the
  file before the final marker of an eviction was saved, and saves it afterwards, erases the marker; the
  daemon then reloads the registry, and the evicted node, whose directory is gone, can be started.
\<close>

lemma erased_marker_lets_an_evicted_node_start:
  assumes "d_evict d = EvictFinal ev deleted k" and "d_requests d = [NodesLoaded cs reg]" and "w_file_writable (d_world d)"
    and "map_of (nodes reg) n = Some c" and "nc_eviction c = None" and "nc_id c = n" and "n = du_node_id (ev_candidate ev)"
    and "fresh_spawn (oc_spawn out) (d_world d)" and "pid \<notin> set (w_alive (d_world d))"
  shows "\<exists>d'. run [EvictStepping env alive rm, EvictStepping env alive rm, Serve 0 out, Serve 0 out] d = Some d' \<and>
    map_of (nodes (w_reg (d_world d'))) n = Some c \<and>
    (\<exists>started w'. start_node c (Spawned pid) StillUp (d_world d') = (Inr started, w'))"
proof -
  obtain reclaimed reason where r: "final_reason deleted (ev_available ev) (ev_candidate ev) = (reclaimed, reason)" by fastforce
  define w1 where "w1 = persist_eviction_marker (du_node_id (ev_candidate ev)) reason (ev_at ev) reclaimed (d_world d)"
  define w2 where "w2 = evict_close ev reclaimed reason w1"
  have f: "w_alive w1 = w_alive (d_world d)" "w_file_writable w1" "w_alive w2 = w_alive w1" "w_file_writable w2"
    using assms(3) by (simp_all add: w1_def w2_def persist_eviction_marker_def save_registry_def evict_close_def Let_def
        update_sup_def send_def)
  have fs: "fresh_spawn (oc_spawn out) w2" using assms(8) f by (cases "oc_spawn out") simp_all
  have nr: "\<not> is_running n (w_sup w2)" "n \<notin> set (evicting (w_sup w2))"
    using assms(7) by (auto simp: w2_def evict_close_def Let_def frame is_running_iff update_state_def sup_rules)
  define w3 where "w3 = w2\<lparr>w_file := Some reg, w_reg := reg\<rparr>"
  have "run [EvictStepping env alive rm, EvictStepping env alive rm, Serve 0 out, Serve 0 out] d =
      Some (d\<lparr>d_evict := EvictMeasure k, d_requests := [], d_replies := d_replies d @ [ReplyAdded cs], d_world := w3\<rparr>)"
    using assms(1,2,7) f fs r
    by (cases "oc_spawn out")
       (auto simp: evict_step_def w1_def [symmetric] w2_def [symmetric] serve_def save_file_def reload_def load_def w3_def Let_def)
  moreover have "\<exists>started w'. start_node c (Spawned pid) StillUp w3 = (Inr started, w')"
    using nr assms(5,6) by (simp add: start_node_def spawn_node_from_config_def w3_def Let_def)
  moreover have "map_of (nodes (w_reg w3)) n = Some c" using assms(4) by (simp add: w3_def)
  ultimately show ?thesis by fastforce
qed

end
