(* ===== verification/Receipt_Cache.thy ===== *)
theory Receipt_Cache
  imports Rust_Text "HOL-Library.AList"
begin

text \<open>
  The cache of single-node payment receipts on disk (\<^verbatim>\<open>data/client/cached_single.rs\<close>). A
  receipt holds the proofs of the payments made for one source file; it is rewritten after every
  paid wave, under a name that carries the time, through a temporary file and a rename.

  The directory is an association list from names to files; its order stands for the unspecified
  order in which a directory is listed. A file is a receipt that decodes, bytes that do not (or
  cannot be read), or no regular file. Every change of the directory is recorded in
  \<open>dk_past\<close>, so that a crash at any moment is one of these directories. The operating system's
  answers to creating, writing and renaming are a stream, and the names that cannot be unlinked
  are a predicate.
\<close>

section \<open>The directory\<close>

record single_node_receipt =
  sr_version :: nat
  sr_proofs :: "(key \<times> bytes) list"
  sr_first_pay_timestamp :: nat
  sr_storage_cost_atto :: string
  sr_gas_cost_wei :: nat

datatype cache_file = ReceiptFile single_node_receipt | UnreadableFile | NotAFile

type_synonym cache_dir = "(string \<times> cache_file) list"

datatype cache_error = CacheIo

record disk =
  dk_files :: cache_dir
  dk_past :: "cache_dir list"
  dk_answers :: "nat \<Rightarrow> bool"
  dk_asked :: nat
  dk_listable :: bool
  dk_stuck :: "string \<Rightarrow> bool"

text \<open>The operations on amounts of the EVM library, on their decimal form.\<close>

record 'a amount_api =
  am_parse :: "string \<Rightarrow> 'a option"
  am_saturating_add :: "'a \<Rightarrow> 'a \<Rightarrow> 'a"
  am_to_string :: "'a \<Rightarrow> string"

definition ask :: "disk \<Rightarrow> bool \<times> disk" where
  "ask d = (dk_answers d (dk_asked d), d\<lparr>dk_asked := Suc (dk_asked d)\<rparr>)"

definition put_files :: "cache_dir \<Rightarrow> disk \<Rightarrow> disk" where
  "put_files fs d = d\<lparr>dk_files := fs, dk_past := dk_files d # dk_past d\<rparr>"

definition set_file :: "string \<Rightarrow> cache_file \<Rightarrow> disk \<Rightarrow> disk" where
  "set_file name f d = put_files (AList.update name f (dk_files d)) d"

definition unlink :: "string \<Rightarrow> disk \<Rightarrow> bool \<times> disk" where
  "unlink name d =
     (case map_of (dk_files d) name of
        None \<Rightarrow> (False, d)
      | Some NotAFile \<Rightarrow> (False, d)
      | Some _ \<Rightarrow>
          if dk_stuck d name then (False, d) else (True, put_files (AList.delete name (dk_files d)) d))"

definition rename_file :: "string \<Rightarrow> string \<Rightarrow> disk \<Rightarrow> bool \<times> disk" where
  "rename_file old new d =
     (case ask d of (ok, d) \<Rightarrow>
        case map_of (dk_files d) old of
          None \<Rightarrow> (False, d)
        | Some f \<Rightarrow>
            if \<not> ok \<or> map_of (dk_files d) new = Some NotAFile then (False, d)
            else (True, put_files (AList.update new f (AList.delete old (dk_files d))) d))"

section \<open>Names\<close>

definition PAYMENT_EXPIRATION_SECS :: nat where "PAYMENT_EXPIRATION_SECS = 24 * 60 * 60"
definition SCHEMA_VERSION :: nat where "SCHEMA_VERSION = 1"

fun contains :: "string \<Rightarrow> string \<Rightarrow> bool" where
  "contains k [] = (k = [])"
| "contains k (c # cs) = (take (length k) (c # cs) = k \<or> contains k cs)"

definition ends_with :: "string \<Rightarrow> string \<Rightarrow> bool" where
  "ends_with suffix s \<longleftrightarrow> length suffix \<le> length s \<and> drop (length s - length suffix) s = suffix"

definition hex_digit :: "nat \<Rightarrow> char" where
  "hex_digit n = char_of (if n < 10 then 48 + n else 87 + n)"

definition hex_byte :: "u8 \<Rightarrow> string" where
  "hex_byte b = [hex_digit (unat b div 16), hex_digit (unat b mod 16)]"

text \<open>\<open>blake3\<close> is the hash of the path.\<close>

definition file_hash_key :: "(string \<Rightarrow> bytes) \<Rightarrow> string \<Rightarrow> string" where
  "file_hash_key blake3 path = concat (map hex_byte (take 16 (blake3 path)))"

definition receipt_path :: "nat \<Rightarrow> string \<Rightarrow> string" where
  "receipt_path ts key = show_nat ts @ ''_'' @ key"

definition tmp_path_for :: "string \<Rightarrow> string" where
  "tmp_path_for name = name @ ''.tmp''"

definition lock_path :: "string \<Rightarrow> string" where
  "lock_path key = key @ ''.lock''"

definition parsed_timestamp :: "string \<Rightarrow> nat option" where
  "parsed_timestamp name =
     (case split_once ''_'' name of Some (ts, _) \<Rightarrow> parse_unsigned (2 ^ 64) ts | None \<Rightarrow> None)"

definition timestamp_of :: "string \<Rightarrow> nat" where
  "timestamp_of name = (case parsed_timestamp name of Some ts \<Rightarrow> ts | None \<Rightarrow> 0)"

definition is_expired_filename :: "nat \<Rightarrow> string \<Rightarrow> bool" where
  "is_expired_filename now name =
     (case parsed_timestamp name of Some ts \<Rightarrow> sat_add ts PAYMENT_EXPIRATION_SECS < now | None \<Rightarrow> False)"

definition is_receipt_name :: "string \<Rightarrow> bool" where
  "is_receipt_name name \<longleftrightarrow> \<not> ends_with ''.tmp'' name \<and> \<not> ends_with ''.lock'' name"

definition is_expired_entry :: "nat \<Rightarrow> string \<times> cache_file \<Rightarrow> bool" where
  "is_expired_entry now e \<longleftrightarrow> snd e \<noteq> NotAFile \<and> is_receipt_name (fst e) \<and> is_expired_filename now (fst e)"

section \<open>Reading and writing receipts\<close>

definition new_receipt :: "nat \<Rightarrow> single_node_receipt" where
  "new_receipt now =
     \<lparr>sr_version = SCHEMA_VERSION, sr_proofs = [], sr_first_pay_timestamp = now, sr_storage_cost_atto = ''0'',
      sr_gas_cost_wei = 0\<rparr>"

definition read_receipt :: "string \<Rightarrow> disk \<Rightarrow> (cache_error, single_node_receipt) result" where
  "read_receipt name d =
     (case map_of (dk_files d) name of
        Some (ReceiptFile r) \<Rightarrow> if SCHEMA_VERSION < sr_version r then Inl CacheIo else Inr r
      | _ \<Rightarrow> Inl CacheIo)"

text \<open>
  The steps of the write that can fail after the temporary file was created: encoding, the flush of
  the buffer, the flush of the file and its sync. A failing step unlinks the temporary file.
\<close>

definition give_up_write :: "string \<Rightarrow> disk \<Rightarrow> (cache_error, unit) result \<times> disk" where
  "give_up_write tmp d = (Inl CacheIo, snd (unlink tmp d))"

definition attempt ::
    "string \<Rightarrow> (disk \<Rightarrow> (cache_error, unit) result \<times> disk) \<Rightarrow> disk \<Rightarrow> (cache_error, unit) result \<times> disk" where
  "attempt tmp k d = (case ask d of (ok, d) \<Rightarrow> if ok then k d else give_up_write tmp d)"

definition write_receipt_atomic :: "string \<Rightarrow> single_node_receipt \<Rightarrow> disk \<Rightarrow> (cache_error, unit) result \<times> disk" where
  "write_receipt_atomic name r d =
     (let tmp = tmp_path_for name;
          encode = attempt tmp;
          flush_buffer = attempt tmp;
          flush = attempt tmp;
          sync_all = attempt tmp
      in case ask d of (created, d) \<Rightarrow>
           if \<not> created \<or> map_of (dk_files d) tmp = Some NotAFile then (Inl CacheIo, d)
           else encode (flush_buffer (\<lambda>d.
                  flush (sync_all (\<lambda>d.
                    case rename_file tmp name d of
                      (True, d) \<Rightarrow> (Inr (), d)
                    | (False, d) \<Rightarrow> give_up_write tmp d))
                  (set_file tmp (ReceiptFile r) d)))
                (set_file tmp UnreadableFile d))"

definition acquire :: "string \<Rightarrow> disk \<Rightarrow> bool \<times> disk" where
  "acquire key d =
     (case ask d of (opened, d) \<Rightarrow>
        if \<not> opened then (False, d)
        else ask (if map_of (dk_files d) (lock_path key) = None then set_file (lock_path key) UnreadableFile d else d))"

section \<open>Recovery\<close>

definition gas_add :: "nat \<Rightarrow> nat \<Rightarrow> nat" where
  "gas_add a b = min (a + b) (2 ^ 128 - 1)"

definition add_cost :: "'a amount_api \<Rightarrow> string \<Rightarrow> string \<Rightarrow> string" where
  "add_cost api prev added =
     (case (am_parse api prev, am_parse api added) of
        (Some p, Some a) \<Rightarrow> am_to_string api (am_saturating_add api p a)
      | _ \<Rightarrow> prev)"

definition or_insert :: "(key \<times> bytes) list \<Rightarrow> key \<times> bytes \<Rightarrow> (key \<times> bytes) list" where
  "or_insert m e = (if map_of m (fst e) = None then m @ [e] else m)"

definition merge_receipt :: "'a amount_api \<Rightarrow> single_node_receipt \<Rightarrow> single_node_receipt \<Rightarrow> single_node_receipt" where
  "merge_receipt api winner other =
     winner\<lparr>sr_proofs := foldl or_insert (sr_proofs winner) (sr_proofs other),
       sr_storage_cost_atto := add_cost api (sr_storage_cost_atto winner) (sr_storage_cost_atto other),
       sr_gas_cost_wei := gas_add (sr_gas_cost_wei winner) (sr_gas_cost_wei other),
       sr_first_pay_timestamp := min (sr_first_pay_timestamp winner) (sr_first_pay_timestamp other)\<rparr>"

definition newest_first :: "string list \<Rightarrow> string list" where
  "newest_first names = sort_key (\<lambda>n. - int (timestamp_of n)) names"

definition canonical_names :: "string \<Rightarrow> cache_dir \<Rightarrow> string list" where
  "canonical_names key fs =
     map fst (filter (\<lambda>e. snd e \<noteq> NotAFile \<and> is_receipt_name (fst e) \<and> contains key (fst e)) fs)"

fun merge_siblings ::
    "'a amount_api \<Rightarrow> string list \<Rightarrow> single_node_receipt \<times> nat \<Rightarrow> disk \<Rightarrow> (single_node_receipt \<times> nat) \<times> disk" where
  "merge_siblings api [] acc d = (acc, d)"
| "merge_siblings api (stale # rest) (winner, merged) d =
     (let acc = (case read_receipt stale d of
                   Inr other \<Rightarrow> (merge_receipt api winner other, merged + 1)
                 | Inl _ \<Rightarrow> (winner, merged))
      in merge_siblings api rest acc (snd (unlink stale d)))"

definition dedupe_merge :: "'a amount_api \<Rightarrow> string \<Rightarrow> single_node_receipt \<Rightarrow> string list \<Rightarrow> disk \<Rightarrow> disk" where
  "dedupe_merge api winner_path winner siblings d =
     (case merge_siblings api siblings (winner, 0) d of
        ((winner, merged), d) \<Rightarrow> if 0 < merged then snd (write_receipt_atomic winner_path winner d) else d)"

text \<open>\<open>None\<close> is a recursion that does not end.\<close>

partial_function (option) dedupe_canonical_receipts :: "'a amount_api \<Rightarrow> string \<Rightarrow> disk \<Rightarrow> disk option" where
  "dedupe_canonical_receipts api key d =
     (if \<not> dk_listable d then Some d
      else case newest_first (canonical_names key (dk_files d)) of
             winner_path # sibling # rest \<Rightarrow>
               (case read_receipt winner_path d of
                  Inr winner \<Rightarrow> Some (dedupe_merge api winner_path winner (sibling # rest) d)
                | Inl _ \<Rightarrow> dedupe_canonical_receipts api key (snd (unlink winner_path d)))
           | _ \<Rightarrow> Some d)"

declare dedupe_canonical_receipts.simps [code]

definition orphaned_tmps :: "string \<Rightarrow> disk \<Rightarrow> (string \<times> bool) list" where
  "orphaned_tmps key d =
     map (\<lambda>n. (n, \<not> isl (read_receipt n d)))
       (newest_first (filter (\<lambda>n. ends_with ''.tmp'' n \<and> contains key n) (map fst (dk_files d))))"

fun promote_tmps :: "(string \<times> bool) list \<Rightarrow> bool \<Rightarrow> disk \<Rightarrow> disk" where
  "promote_tmps [] recovered d = d"
| "promote_tmps ((name, readable) # rest) recovered d =
     (if recovered \<or> \<not> readable then promote_tmps rest recovered (snd (unlink name d))
      else case rename_file name (take (length name - 4) name) d of
             (True, d) \<Rightarrow> promote_tmps rest True d
           | (False, d) \<Rightarrow> promote_tmps rest recovered d)"

definition recover_orphaned_tmps :: "'a amount_api \<Rightarrow> string \<Rightarrow> disk \<Rightarrow> disk option" where
  "recover_orphaned_tmps api key d =
     (if \<not> dk_listable d then Some d
      else dedupe_canonical_receipts api key (promote_tmps (orphaned_tmps key d) False d))"

fun find_loop :: "nat \<Rightarrow> string list \<Rightarrow> disk \<Rightarrow> (string \<times> single_node_receipt) option \<times> disk" where
  "find_loop now [] d = (None, d)"
| "find_loop now (name # rest) d =
     (if is_expired_filename now name then find_loop now rest d
      else case read_receipt name d of
             Inr r \<Rightarrow> (Some (name, r), d)
           | Inl _ \<Rightarrow> find_loop now rest (snd (unlink name d)))"

definition find_existing :: "string \<Rightarrow> nat \<Rightarrow> disk \<Rightarrow> (string \<times> single_node_receipt) option \<times> disk" where
  "find_existing key now d =
     (if \<not> dk_listable d then (None, d) else find_loop now (canonical_names key (dk_files d)) d)"

section \<open>Operations\<close>

definition extend_receipt :: "(key \<times> bytes) list \<Rightarrow> (key \<times> bytes) list \<Rightarrow> (key \<times> bytes) list" where
  "extend_receipt m new = foldl (\<lambda>m e. AList.update (fst e) (snd e) m) m new"

text \<open>
  What the operations share: the directory exists, the lock is held and orphaned files are recovered.
\<close>

definition locked ::
    "'a amount_api \<Rightarrow> string \<Rightarrow> (disk \<Rightarrow> ((cache_error, 'b) result \<times> disk) option) \<Rightarrow> disk \<Rightarrow>
     ((cache_error, 'b) result \<times> disk) option" where
  "locked api key body d =
     (case acquire key d of
        (False, d) \<Rightarrow> Some (Inl CacheIo, d)
      | (True, d) \<Rightarrow> Option.bind (recover_orphaned_tmps api key d) body)"

definition appended ::
    "'a amount_api \<Rightarrow> nat \<Rightarrow> (key \<times> bytes) list \<Rightarrow> string \<Rightarrow> nat \<Rightarrow>
     (string \<times> single_node_receipt) option \<Rightarrow> single_node_receipt" where
  "appended api now new_proofs cost gas found =
     (let receipt = (case found of Some (_, r) \<Rightarrow> r | None \<Rightarrow> new_receipt now)
      in receipt\<lparr>sr_proofs := extend_receipt (sr_proofs receipt) new_proofs,
           sr_storage_cost_atto := add_cost api (sr_storage_cost_atto receipt) cost,
           sr_gas_cost_wei := gas_add (sr_gas_cost_wei receipt) gas\<rparr>)"

definition append_to ::
    "'a amount_api \<Rightarrow> nat \<Rightarrow> string \<Rightarrow> (key \<times> bytes) list \<Rightarrow> string \<Rightarrow> nat \<Rightarrow>
     (string \<times> single_node_receipt) option \<Rightarrow> disk \<Rightarrow> (cache_error, string) result \<times> disk" where
  "append_to api now key new_proofs cost gas found d =
     (let new_path = receipt_path now key
      in case write_receipt_atomic new_path (appended api now new_proofs cost gas found) d of
           (Inl e, d) \<Rightarrow> (Inl e, d)
         | (Inr _, d) \<Rightarrow>
             (Inr new_path,
              case found of
                Some (old, _) \<Rightarrow> if old \<noteq> new_path then snd (unlink old d) else d
              | None \<Rightarrow> d))"

definition append_wave ::
    "'a amount_api \<Rightarrow> (string \<Rightarrow> bytes) \<Rightarrow> string \<Rightarrow> (key \<times> bytes) list \<Rightarrow> string \<Rightarrow> nat \<Rightarrow> nat \<Rightarrow> disk \<Rightarrow>
     ((cache_error, string) result \<times> disk) option" where
  "append_wave api blake3 path new_proofs cost gas now d =
     (case ask d of
        (False, d) \<Rightarrow> Some (Inl CacheIo, d)
      | (True, d) \<Rightarrow>
          let key = file_hash_key blake3 path
          in locked api key (\<lambda>d.
               case find_existing key now d of
                 (found, d) \<Rightarrow> Some (append_to api now key new_proofs cost gas found d)) d)"

definition drop_unchanged :: "(key \<times> bytes) list \<Rightarrow> (key \<times> bytes) list \<Rightarrow> (key \<times> bytes) list" where
  "drop_unchanged expected m =
     foldl (\<lambda>m e. if map_of m (fst e) = Some (snd e) then AList.delete (fst e) m else m) m expected"

definition drop_from ::
    "(key \<times> bytes) list \<Rightarrow> (string \<times> single_node_receipt) option \<Rightarrow> disk \<Rightarrow> (cache_error, unit) result \<times> disk" where
  "drop_from expected found d =
     (case found of
        None \<Rightarrow> (Inr (), d)
      | Some (path, r) \<Rightarrow>
          let left = drop_unchanged expected (sr_proofs r); receipt = r\<lparr>sr_proofs := left\<rparr>
          in if length (sr_proofs r) - length left = 0 then (Inr (), d)
             else if left = [] then
               (case unlink path d of
                  (True, d) \<Rightarrow> (Inr (), d)
                | (False, d) \<Rightarrow> write_receipt_atomic path receipt d)
             else write_receipt_atomic path receipt d)"

definition drop_proofs_for_file ::
    "'a amount_api \<Rightarrow> (string \<Rightarrow> bytes) \<Rightarrow> string \<Rightarrow> (key \<times> bytes) list \<Rightarrow> nat \<Rightarrow> disk \<Rightarrow>
     ((cache_error, unit) result \<times> disk) option" where
  "drop_proofs_for_file api blake3 path expected now d =
     (if expected = [] then Some (Inr (), d)
      else case ask d of
             (False, d) \<Rightarrow> Some (Inl CacheIo, d)
           | (True, d) \<Rightarrow>
               let key = file_hash_key blake3 path
               in locked api key (\<lambda>d.
                    case find_existing key now d of (found, d) \<Rightarrow> Some (drop_from expected found d)) d)"

fun unlink_all :: "string list \<Rightarrow> disk \<Rightarrow> disk" where
  "unlink_all [] d = d"
| "unlink_all (n # ns) d = unlink_all ns (snd (unlink n d))"

definition cleanup_outdated :: "nat \<Rightarrow> disk \<Rightarrow> disk" where
  "cleanup_outdated now d =
     (case ask d of (ok, d) \<Rightarrow>
        if ok \<and> dk_listable d then unlink_all (map fst (filter (is_expired_entry now) (dk_files d))) d else d)"

definition load_for_file ::
    "'a amount_api \<Rightarrow> (string \<Rightarrow> bytes) \<Rightarrow> string \<Rightarrow> nat \<Rightarrow> disk \<Rightarrow>
     ((cache_error, (string \<times> single_node_receipt) option) result \<times> disk) option" where
  "load_for_file api blake3 path now d =
     (case ask (cleanup_outdated now d) of
        (False, d) \<Rightarrow> Some (Inl CacheIo, d)
      | (True, d) \<Rightarrow>
          let key = file_hash_key blake3 path
          in locked api key (\<lambda>d. case find_existing key now d of (found, d) \<Rightarrow> Some (Inr found, d)) d)"

definition delete_for_file ::
    "(string \<Rightarrow> bytes) \<Rightarrow> string \<Rightarrow> disk \<Rightarrow> (cache_error, unit) result \<times> disk" where
  "delete_for_file blake3 path d =
     (case ask d of
        (False, d) \<Rightarrow> (Inl CacheIo, d)
      | (True, d) \<Rightarrow>
          let key = file_hash_key blake3 path
          in case acquire key d of
               (False, d) \<Rightarrow> (Inl CacheIo, d)
             | (True, d) \<Rightarrow>
                 (Inr (),
                  if dk_listable d
                  then unlink_all (filter (\<lambda>n. \<not> ends_with ''.lock'' n \<and> contains key n) (map fst (dk_files d))) d
                  else d))"

end
