(* ===== verification/Receipt_Recovery.thy ===== *)
theory Receipt_Recovery
  imports Receipt_Cache
begin

text \<open>
  What the receipt cache promises over crashes: a proof that an appended wave acknowledged is
  returned by every later load within its lifetime, whatever operations on the same file come in
  between and wherever they are cut, unless the proof is paid for anew, dropped or deleted.
\<close>

section \<open>Names\<close>

lemma contains_append: "contains k (pre @ k @ post)"
proof (induction pre)
  case Nil
  show ?case
  proof (cases "k @ post")
    case (Cons c cs)
    then have "take (length k) (c # cs) = k" by (metis append_eq_conv_conj)
    with Cons show ?thesis by simp
  qed simp
qed simp

lemma ends_with_last: "ends_with suffix s \<Longrightarrow> suffix \<noteq> [] \<Longrightarrow> List.last s = List.last suffix"
  by (metis append_take_drop_id drop_all ends_with_def last_appendR)

definition key_ok :: "string \<Rightarrow> bool" where
  "key_ok key \<longleftrightarrow> key \<noteq> [] \<and> list_all is_ascii_hexdigit key"

lemma hex_digit_ok: "n < 16 \<Longrightarrow> is_ascii_hexdigit (hex_digit n)"
  by (simp add: is_ascii_hexdigit_def hex_digit_def Let_def)

lemma file_hash_key_ok:
  assumes "length (blake3 path) = 32"
  shows "key_ok (file_hash_key blake3 path)"
proof -
  obtain b bs where "take 16 (blake3 path) = b # bs"
    using assms by (cases "blake3 path") (auto simp: take_Cons')
  moreover have "list_all is_ascii_hexdigit (hex_byte b)" for b
  proof -
    have "unat b < 256" using unsigned_less [where 'a = nat, of b] by simp
    then have "unat b div 16 < 16" by (simp add: less_mult_imp_div_less)
    then show ?thesis by (simp add: hex_byte_def hex_digit_ok)
  qed
  ultimately show ?thesis
    by (simp add: key_ok_def file_hash_key_def list_all_iff hex_byte_def)
qed

lemma last_hex:
  assumes "key_ok key"
  shows "is_ascii_hexdigit (List.last (pre @ key))"
  using assms by (simp add: key_ok_def list_all_iff)

lemma receipt_path_is_receipt:
  assumes "key_ok key"
  shows "is_receipt_name (receipt_path ts key)"
  using last_hex [OF assms, of "show_nat ts @ ''_''"] ends_with_last [of "''.tmp''" "receipt_path ts key"]
    ends_with_last [of "''.lock''" "receipt_path ts key"]
  by (auto simp: is_receipt_name_def receipt_path_def is_ascii_hexdigit_def)

lemma tmp_ends: "ends_with ''.tmp'' (tmp_path_for n)" "\<not> ends_with ''.lock'' (tmp_path_for n)"
  "ends_with ''.lock'' (lock_path k)" "\<not> ends_with ''.tmp'' (lock_path k)"
  using ends_with_last [of "''.lock''" "tmp_path_for n"] ends_with_last [of "''.tmp''" "lock_path k"]
  by (auto simp: ends_with_def tmp_path_for_def lock_path_def)

lemma path_inject [simp]:
  "receipt_path ts key = receipt_path ts' key \<longleftrightarrow> ts = ts'"
  "tmp_path_for m = tmp_path_for n \<longleftrightarrow> m = n"
  by (auto simp: receipt_path_def tmp_path_for_def show_nat_inject)

lemma paths_differ [simp]:
  assumes "key_ok key"
  shows "receipt_path ts key \<noteq> tmp_path_for n" "tmp_path_for n \<noteq> receipt_path ts key"
    "receipt_path ts key \<noteq> lock_path k" "lock_path k \<noteq> receipt_path ts key"
  using receipt_path_is_receipt [OF assms, of ts] tmp_ends(1) [of n] tmp_ends(3) [of k]
  unfolding is_receipt_name_def by metis+

lemma tmp_not_lock [simp]: "tmp_path_for n \<noteq> lock_path k" "lock_path k \<noteq> tmp_path_for n"
  using tmp_ends by metis+

lemma stripped_tmp [simp]: "take (length (tmp_path_for n) - 4) (tmp_path_for n) = n"
  by (simp add: tmp_path_for_def)

lemma digit_not_underscore: "c \<in> set (show_nat n) \<Longrightarrow> c \<noteq> CHR ''_''"
  using show_nat_digits [of n] by (auto simp: list_all_iff is_ascii_digit_def)

lemma parsed_paths:
  assumes "ts < 2 ^ 64"
  shows "parsed_timestamp (receipt_path ts key) = Some ts" "parsed_timestamp (tmp_path_for (receipt_path ts key)) = Some ts"
  using assms split_once_at [of "show_nat ts" "CHR ''_''"] digit_not_underscore
  by (simp_all add: parsed_timestamp_def receipt_path_def tmp_path_for_def parse_show_nat)

lemma timestamp_paths:
  assumes "ts < 2 ^ 64"
  shows "timestamp_of (receipt_path ts key) = ts" "timestamp_of (tmp_path_for (receipt_path ts key)) = ts"
  using parsed_paths [OF assms] by (simp_all add: timestamp_of_def)

lemma paths_contain: "contains key (receipt_path ts key)" "contains key (tmp_path_for (receipt_path ts key))"
  using contains_append [of key "show_nat ts @ ''_''" "[]"] contains_append [of key "show_nat ts @ ''_''" "''.tmp''"]
  by (simp_all add: receipt_path_def tmp_path_for_def)

section \<open>Invariants of the directory\<close>

text \<open>
  The files of one key are the receipts and temporary files of times that have passed, and the lock.
\<close>

definition own_name :: "string \<Rightarrow> nat \<Rightarrow> string \<Rightarrow> bool" where
  "own_name key now n \<longleftrightarrow>
     n = lock_path key \<or> (\<exists>ts \<le> now. n = receipt_path ts key \<or> n = tmp_path_for (receipt_path ts key))"

definition dir_ok :: "string \<Rightarrow> nat \<Rightarrow> cache_dir \<Rightarrow> bool" where
  "dir_ok key now fs \<longleftrightarrow>
     key_ok key \<and> now < 2 ^ 64 \<and> distinct (map fst fs) \<and>
     (\<forall>n. contains key n \<longrightarrow> map_of fs n \<noteq> None \<longrightarrow> own_name key now n) \<and>
     (\<forall>n. contains key n \<longrightarrow> map_of fs n \<noteq> Some NotAFile)"

definition readable :: "cache_file option \<Rightarrow> bool" where
  "readable f \<longleftrightarrow> (case f of Some (ReceiptFile r) \<Rightarrow> sr_version r \<le> SCHEMA_VERSION | _ \<Rightarrow> False)"

lemma readableE: "readable f \<Longrightarrow> (\<And>r. f = Some (ReceiptFile r) \<Longrightarrow> sr_version r \<le> SCHEMA_VERSION \<Longrightarrow> P) \<Longrightarrow> P"
  by (auto simp: readable_def split: option.splits cache_file.splits)

lemma read_receipt_iff:
  "read_receipt n d = Inr r \<longleftrightarrow> map_of (dk_files d) n = Some (ReceiptFile r) \<and> sr_version r \<le> SCHEMA_VERSION"
  "isl (read_receipt n d) \<longleftrightarrow> \<not> readable (map_of (dk_files d) n)"
  "(\<exists>e. read_receipt n d = Inl e) \<longleftrightarrow> \<not> readable (map_of (dk_files d) n)"
  by (auto simp: read_receipt_def readable_def split: option.splits cache_file.splits)

lemma dir_ok_names:
  assumes "dir_ok key now fs"
  shows "n \<in> set (canonical_names key fs) \<longleftrightarrow> (\<exists>ts \<le> now. n = receipt_path ts key \<and> map_of fs n \<noteq> None)"
    and "distinct (canonical_names key fs)"
proof -
  have own: "\<exists>ts \<le> now. n = receipt_path ts key" if "n \<in> fst ` set fs" "is_receipt_name n" "contains key n"
  proof -
    have "own_name key now n" using that assms(1) unfolding dir_ok_def by (metis map_of_eq_None_iff)
    with that(2) show ?thesis by (auto simp: own_name_def is_receipt_name_def tmp_ends)
  qed
  have d: "distinct (map fst fs)" using assms(1) by (simp add: dir_ok_def)
  show "n \<in> set (canonical_names key fs) \<longleftrightarrow> (\<exists>ts \<le> now. n = receipt_path ts key \<and> map_of fs n \<noteq> None)"
  proof
    assume "n \<in> set (canonical_names key fs)"
    then have "n \<in> fst ` set fs" "is_receipt_name n" "contains key n" by (auto simp: canonical_names_def)
    with own show "\<exists>ts \<le> now. n = receipt_path ts key \<and> map_of fs n \<noteq> None"
      by (auto simp: map_of_eq_None_iff)
  next
    assume "\<exists>ts \<le> now. n = receipt_path ts key \<and> map_of fs n \<noteq> None"
    then obtain ts f where n: "n = receipt_path ts key" "map_of fs n = Some f" by auto
    moreover have "f \<noteq> NotAFile" using n assms(1) paths_contain by (auto simp: dir_ok_def)
    ultimately show "n \<in> set (canonical_names key fs)"
      using receipt_path_is_receipt [of key ts] assms paths_contain(1) map_of_SomeD [of fs n f]
      by (auto simp: canonical_names_def dir_ok_def intro!: image_eqI [of _ _ "(n, f)"])
  qed
  show "distinct (canonical_names key fs)"
    using d unfolding canonical_names_def by (induction fs) (auto simp: image_iff)
qed

lemma newest_first_set [simp]: "set (newest_first ns) = set ns" "distinct (newest_first ns) = distinct ns"
  "length (newest_first ns) = length ns"
  by (simp_all add: newest_first_def)

lemma newest_first_head:
  assumes "newest_first ns = w # rest" and "n \<in> set rest"
  shows "timestamp_of n \<le> timestamp_of w"
proof -
  have "sorted (map (\<lambda>n. - int (timestamp_of n)) (newest_first ns))" by (simp add: newest_first_def)
  then show ?thesis using assms by auto
qed

definition healthy_disk :: "disk \<Rightarrow> bool" where
  "healthy_disk d \<longleftrightarrow> dk_listable d \<and> (\<forall>n. \<not> dk_stuck d n)"

lemma ask_frame [simp]:
  "dk_files (snd (ask d)) = dk_files d" "dk_past (snd (ask d)) = dk_past d"
  "dk_listable (snd (ask d)) = dk_listable d" "dk_stuck (snd (ask d)) = dk_stuck d"
  by (simp_all add: ask_def)

lemma set_file_frame [simp]:
  "dk_files (set_file n f d) = AList.update n f (dk_files d)" "dk_past (set_file n f d) = dk_files d # dk_past d"
  "dk_listable (set_file n f d) = dk_listable d" "dk_stuck (set_file n f d) = dk_stuck d"
  by (simp_all add: set_file_def put_files_def)

lemma unlink_frame [simp]:
  "dk_listable (snd (unlink n d)) = dk_listable d" "dk_stuck (snd (unlink n d)) = dk_stuck d"
  "m \<noteq> n \<Longrightarrow> map_of (dk_files (snd (unlink n d))) m = map_of (dk_files d) m"
  by (auto simp: unlink_def put_files_def delete_conv split: option.splits cache_file.splits)

lemma unlink_done:
  assumes "healthy_disk d" and "map_of (dk_files d) n \<noteq> Some NotAFile"
  shows "map_of (dk_files (snd (unlink n d))) = (map_of (dk_files d))(n := None)"
  using assms by (auto simp: healthy_disk_def unlink_def put_files_def delete_conv fun_eq_iff split: option.splits cache_file.splits)

lemma rename_frame [simp]:
  "dk_listable (snd (rename_file m n d)) = dk_listable d" "dk_stuck (snd (rename_file m n d)) = dk_stuck d"
  "k \<noteq> m \<Longrightarrow> k \<noteq> n \<Longrightarrow> map_of (dk_files (snd (rename_file m n d))) k = map_of (dk_files d) k"
  by (auto simp: rename_file_def put_files_def update_conv delete_conv split_def split: option.splits)

lemma rename_cases:
  assumes "rename_file m n d = (ok, d')"
  obtains "\<not> ok" "dk_files d' = dk_files d" "dk_past d' = dk_past d"
  | f where "ok" "map_of (dk_files d) m = Some f" "dk_files d' = AList.update n f (AList.delete m (dk_files d))"
    "dk_past d' = dk_files d # dk_past d"
  using assms by (auto simp: rename_file_def put_files_def split_def split: option.splits if_splits)

text \<open>The effect of a write on the other files.\<close>

definition same_but :: "string \<Rightarrow> disk \<Rightarrow> disk \<Rightarrow> bool" where
  "same_but n d d' \<longleftrightarrow>
     dk_listable d' = dk_listable d \<and> dk_stuck d' = dk_stuck d \<and>
     (\<forall>m. m \<noteq> n \<longrightarrow> map_of (dk_files d') m = map_of (dk_files d) m)"

lemma same_but_simps [simp]:
  "same_but n d d" "same_but n d (snd (ask d')) = same_but n d d'" "same_but n d (set_file n f d') = same_but n d d'"
  by (auto simp: same_but_def update_conv)

lemma same_but_unlink: "same_but n d d' \<Longrightarrow> same_but n d (snd (unlink n d'))"
  by (simp add: same_but_def)

definition written :: "string \<Rightarrow> single_node_receipt \<Rightarrow> disk \<Rightarrow> (cache_error, unit) result \<Rightarrow> disk \<Rightarrow> bool" where
  "written name r d res d' \<longleftrightarrow>
     (case res of
        Inl _ \<Rightarrow> same_but (tmp_path_for name) d d'
      | Inr _ \<Rightarrow>
          dk_listable d' = dk_listable d \<and> dk_stuck d' = dk_stuck d \<and>
          map_of (dk_files d') = (map_of (dk_files d))(tmp_path_for name := None, name := Some (ReceiptFile r)))"

lemma tmp_longer [simp]: "tmp_path_for n \<noteq> n" "n \<noteq> tmp_path_for n"
  by (simp_all add: tmp_path_for_def)

lemma written_attempt:
  assumes "attempt (tmp_path_for name) k e = (res, d')" and "same_but (tmp_path_for name) d e"
    and "\<And>e' res d'. k e' = (res, d') \<Longrightarrow> same_but (tmp_path_for name) d e' \<Longrightarrow> dk_files e' = dk_files e \<Longrightarrow> written name r d res d'"
  shows "written name r d res d'"
  using assms(1,2) assms(3) [of "snd (ask e)" res d']
  by (auto simp: attempt_def split_def give_up_write_def same_but_unlink written_def split: if_splits)

lemma write_effect: "write_receipt_atomic name r d = (res, d') \<Longrightarrow> written name r d res d'"
proof -
  assume w: "write_receipt_atomic name r d = (res, d')"
  let ?tmp = "tmp_path_for name"
  let ?finish = "\<lambda>d. case rename_file ?tmp name d of (True, d) \<Rightarrow> (Inr (), d) | (False, d) \<Rightarrow> give_up_write ?tmp d"
  have finish: "written name r d res d'"
    if "?finish e = (res, d')" "same_but ?tmp d e" "map_of (dk_files e) ?tmp = Some (ReceiptFile r)" for e res d'
  proof -
    obtain ok e' where ren: "rename_file ?tmp name e = (ok, e')" by fastforce
    have env: "dk_listable e' = dk_listable e" "dk_stuck e' = dk_stuck e"
      using rename_frame(1,2) [of ?tmp name e] ren by simp_all
    from ren show ?thesis
    proof (cases rule: rename_cases)
      case 1
      then show ?thesis using that ren env
        by (auto simp: written_def give_up_write_def same_but_def)
    next
      case (2 f)
      then show ?thesis using that ren env
        by (auto simp: written_def same_but_def update_conv delete_conv fun_eq_iff)
    qed
  qed
  show ?thesis
  proof (cases "\<not> fst (ask d) \<or> map_of (dk_files d) ?tmp = Some NotAFile")
    case True
    then show ?thesis using w by (auto simp: write_receipt_atomic_def split_def written_def)
  next
    case False
    then have "attempt ?tmp (attempt ?tmp (\<lambda>d. attempt ?tmp (attempt ?tmp ?finish) (set_file ?tmp (ReceiptFile r) d)))
        (set_file ?tmp UnreadableFile (snd (ask d))) = (res, d')"
      using w by (simp add: write_receipt_atomic_def Let_def split_def)
    then show ?thesis
      by (elim written_attempt finish) (simp_all add: update_conv)
  qed
qed

text \<open>
  What a predicate on directories needs to hold at every moment of every operation: the laws of the
  changes that the operations make. \<open>good\<close> are the receipts that may be written.
\<close>

locale guarded_directory =
  fixes api :: "'a amount_api" and key :: string and now :: nat
    and I :: "cache_dir \<Rightarrow> bool" and good :: "single_node_receipt \<Rightarrow> bool"
  assumes wf: "I fs \<Longrightarrow> dir_ok key now fs"
    and newest_good: "I fs \<Longrightarrow> map_of fs (receipt_path ts key) = Some (ReceiptFile r) \<Longrightarrow> sr_version r \<le> SCHEMA_VERSION \<Longrightarrow>
      (\<And>ts'. ts < ts' \<Longrightarrow> map_of fs (receipt_path ts' key) = None) \<Longrightarrow> good r"
    and good_version: "good r \<Longrightarrow> sr_version r \<le> SCHEMA_VERSION"
    and good_merge: "good r \<Longrightarrow> good (merge_receipt api r other)"
    and lock: "I fs \<Longrightarrow> I (AList.update (lock_path key) UnreadableFile fs)"
    and start_tmp: "I fs \<Longrightarrow> ts \<le> now \<Longrightarrow> I (AList.update (tmp_path_for (receipt_path ts key)) UnreadableFile fs)"
    and fill_tmp: "I fs \<Longrightarrow> ts \<le> now \<Longrightarrow> good r \<Longrightarrow> I (AList.update (tmp_path_for (receipt_path ts key)) (ReceiptFile r) fs)"
    and drop_tmp: "I fs \<Longrightarrow> I (AList.delete (tmp_path_for (receipt_path ts key)) fs)"
    and promote: "I fs \<Longrightarrow> map_of fs (tmp_path_for (receipt_path ts key)) = Some f \<Longrightarrow> readable (Some f) \<Longrightarrow>
      I (AList.update (receipt_path ts key) f (AList.delete (tmp_path_for (receipt_path ts key)) fs))"
    and drop_older: "I fs \<Longrightarrow> map_of fs (receipt_path ts' key) \<noteq> None \<Longrightarrow> ts < ts' \<Longrightarrow> I (AList.delete (receipt_path ts key) fs)"
    and drop_unreadable: "I fs \<Longrightarrow> \<not> readable (map_of fs (receipt_path ts key)) \<Longrightarrow> I (AList.delete (receipt_path ts key) fs)"
begin

definition safe :: "disk \<Rightarrow> bool" where
  "safe d \<longleftrightarrow> I (dk_files d) \<and> list_all I (dk_past d)"

lemma safe_ask [simp]: "safe (snd (ask d)) = safe d"
  by (simp add: safe_def)

lemma safe_set: "safe d \<Longrightarrow> I (AList.update n f (dk_files d)) \<Longrightarrow> safe (set_file n f d)"
  by (simp add: safe_def)

lemma safe_unlink: "safe d \<Longrightarrow> I (AList.delete n (dk_files d)) \<Longrightarrow> safe (snd (unlink n d))"
  by (auto simp: unlink_def safe_def put_files_def split: option.splits cache_file.splits)

lemma safe_give_up:
  assumes "safe d"
  shows "safe (snd (give_up_write (tmp_path_for (receipt_path ts key)) d))"
  unfolding give_up_write_def snd_conv
  by (rule safe_unlink [OF assms]) (use assms in \<open>simp add: drop_tmp safe_def\<close>)

lemma key: "safe d \<Longrightarrow> key_ok key"
  using wf [of "dk_files d"] by (simp add: safe_def dir_ok_def)

text \<open>Before the rename a write touches only its temporary file.\<close>

lemma safe_tmp:
  assumes "safe d" and "ts \<le> now"
  shows "safe (set_file (tmp_path_for (receipt_path ts key)) UnreadableFile d)"
    and "good r \<Longrightarrow> safe (set_file (tmp_path_for (receipt_path ts key)) (ReceiptFile r) d)"
  using assms by (auto intro!: safe_set start_tmp fill_tmp simp: safe_def)

lemma safe_attempt:
  assumes "safe d" and "\<And>e. safe e \<Longrightarrow> dk_files e = dk_files d \<Longrightarrow> safe (snd (k e))"
  shows "safe (snd (attempt (tmp_path_for (receipt_path ts key)) k d))"
  using assms safe_give_up [of "snd (ask d)" ts] by (auto simp: attempt_def split_def)

lemma safe_rename:
  assumes "safe d" and "\<And>f. map_of (dk_files d) (tmp_path_for (receipt_path ts key)) = Some f \<Longrightarrow> readable (Some f)"
  shows "safe (snd (rename_file (tmp_path_for (receipt_path ts key)) (receipt_path ts key) d))"
proof -
  obtain ok d' where ren: "rename_file (tmp_path_for (receipt_path ts key)) (receipt_path ts key) d = (ok, d')" by fastforce
  then show ?thesis
    by (cases rule: rename_cases) (use assms ren promote in \<open>auto simp: safe_def\<close>)
qed

lemma safe_write:
  assumes "safe d" and "ts \<le> now" and "good r"
  shows "safe (snd (write_receipt_atomic (receipt_path ts key) r d))"
proof -
  let ?tmp = "tmp_path_for (receipt_path ts key)"
  let ?finish = "\<lambda>d. case rename_file ?tmp (receipt_path ts key) d of
      (True, d) \<Rightarrow> (Inr (), d) | (False, d) \<Rightarrow> give_up_write ?tmp d"
  have finish: "safe (snd (?finish d))" if "safe d" "map_of (dk_files d) ?tmp = Some (ReceiptFile r)" for d
  proof -
    have "safe (snd (rename_file ?tmp (receipt_path ts key) d))"
      using that good_version [OF assms(3)] by (intro safe_rename) (auto simp: readable_def)
    then show ?thesis using safe_give_up by (auto split: prod.splits bool.splits)
  qed
  have filled: "safe (snd (attempt ?tmp (attempt ?tmp ?finish) (set_file ?tmp (ReceiptFile r) d)))" if "safe d" for d
    using safe_tmp(2) [OF that assms(2,3)] by (intro safe_attempt finish) (simp_all add: update_conv)
  have "safe (snd (attempt ?tmp (attempt ?tmp (\<lambda>d. attempt ?tmp (attempt ?tmp ?finish) (set_file ?tmp (ReceiptFile r) d)))
      (set_file ?tmp UnreadableFile (snd (ask d)))))"
    using assms(1) by (intro safe_attempt filled safe_tmp(1) assms(2)) simp_all
  then show ?thesis using assms(1) by (simp add: write_receipt_atomic_def Let_def split_def)
qed

text \<open>Recovering temporary files.\<close>

lemma promote_tmps_safe:
  assumes "safe d" and "distinct (map fst cs)"
    and "\<And>n rd. (n, rd) \<in> set cs \<Longrightarrow>
      (\<exists>ts \<le> now. n = tmp_path_for (receipt_path ts key)) \<and> (rd \<longrightarrow> readable (map_of (dk_files d) n))"
  shows "safe (promote_tmps cs recovered d) \<and> dk_listable (promote_tmps cs recovered d) = dk_listable d \<and>
    dk_stuck (promote_tmps cs recovered d) = dk_stuck d"
  using assms
proof (induction cs arbitrary: recovered d)
  case (Cons c cs)
  obtain n rd where c: "c = (n, rd)" by fastforce
  obtain ts where n: "n = tmp_path_for (receipt_path ts key)" and rd: "rd \<longrightarrow> readable (map_of (dk_files d) n)"
    using Cons.prems(3) [of n rd] by (auto simp: c)
  have rest: "(\<exists>ts \<le> now. m = tmp_path_for (receipt_path ts key)) \<and> (rm \<longrightarrow> readable (map_of (dk_files d) m)) \<and> m \<noteq> n"
    if "(m, rm) \<in> set cs" for m rm
    using Cons.prems(3) [of m rm] Cons.prems(2) that by (force simp: c)
  have step: "safe (promote_tmps cs b e) \<and> dk_listable (promote_tmps cs b e) = dk_listable d \<and>
      dk_stuck (promote_tmps cs b e) = dk_stuck d"
    if "safe e" "dk_listable e = dk_listable d" "dk_stuck e = dk_stuck d"
      "\<And>m. m \<noteq> n \<Longrightarrow> (\<exists>ts. m = tmp_path_for (receipt_path ts key)) \<Longrightarrow> map_of (dk_files e) m = map_of (dk_files d) m" for e b
    using Cons.IH [OF that(1), of b] Cons.prems(2) rest that(2-4) by (force simp: c)
  show ?case
  proof (cases "recovered \<or> \<not> rd")
    case True
    have "safe (snd (unlink n d))"
      by (rule safe_unlink [OF Cons.prems(1)]) (use Cons.prems(1) in \<open>simp add: n drop_tmp safe_def\<close>)
    then show ?thesis using step [of "snd (unlink n d)"] True by (simp add: c)
  next
    case False
    obtain ok e where ren: "rename_file n (receipt_path ts key) d = (ok, e)" by fastforce
    have "safe (snd (rename_file n (receipt_path ts key) d))"
      unfolding n by (rule safe_rename [OF Cons.prems(1)]) (use rd False n in simp)
    then have "safe e" by (simp add: ren)
    moreover have "dk_listable e = dk_listable d" "dk_stuck e = dk_stuck d"
      "\<And>m. m \<noteq> n \<Longrightarrow> m \<noteq> receipt_path ts key \<Longrightarrow> map_of (dk_files e) m = map_of (dk_files d) m"
      using rename_frame(1,2) [of n "receipt_path ts key" d] rename_frame(3) [of _ n "receipt_path ts key" d] ren by simp_all
    ultimately have "safe (promote_tmps cs b e) \<and> dk_listable (promote_tmps cs b e) = dk_listable d \<and>
      dk_stuck (promote_tmps cs b e) = dk_stuck d" for b
      using step [of e b] key [OF Cons.prems(1)] by (metis paths_differ(2))
    then show ?thesis using False ren by (cases ok) (simp_all add: c n)
  qed
qed simp

text \<open>Merging receipts of the same key.\<close>

lemma merge_siblings_safe:
  assumes "safe d" and "healthy_disk d" and "good w" and "map_of (dk_files d) (receipt_path wts key) \<noteq> None"
    and "\<And>n. n \<in> set ns \<Longrightarrow> \<exists>ts < wts. n = receipt_path ts key"
    and "merge_siblings api ns (w, k) d = ((w', k'), d')"
  shows "safe d' \<and> healthy_disk d' \<and> good w' \<and>
    (\<forall>m. map_of (dk_files d') m = (if m \<in> set ns then None else map_of (dk_files d) m))"
  using assms
proof (induction ns arbitrary: w k d)
  case Nil
  then show ?case by simp
next
  case (Cons n ns)
  obtain ts where n: "n = receipt_path ts key" "ts < wts" using Cons.prems(5) [of n] by auto
  have "map_of (dk_files d) n \<noteq> Some NotAFile"
    using wf [of "dk_files d"] Cons.prems(1) paths_contain n(1) by (auto simp: safe_def dir_ok_def)
  note gone = unlink_done [OF Cons.prems(2) this]
  let ?e = "snd (unlink n d)"
  have e: "safe ?e" "healthy_disk ?e" "map_of (dk_files ?e) (receipt_path wts key) \<noteq> None"
  proof -
    show "safe ?e"
      by (rule safe_unlink [OF Cons.prems(1)])
         (use Cons.prems(1,4) n in \<open>auto simp: safe_def intro: drop_older\<close>)
    show "healthy_disk ?e" using Cons.prems(2) by (simp add: healthy_disk_def)
    show "map_of (dk_files ?e) (receipt_path wts key) \<noteq> None" using Cons.prems(4) n by (simp add: gone)
  qed
  obtain w1 k1 where acc: "(case read_receipt n d of Inr other \<Rightarrow> (merge_receipt api w other, k + 1) | Inl _ \<Rightarrow> (w, k)) = (w1, k1)"
    by fastforce
  then have "good w1" using Cons.prems(3) good_merge by (auto split: sum.splits)
  moreover have "merge_siblings api ns (w1, k1) ?e = ((w', k'), d')"
    using Cons.prems(6) acc by simp
  ultimately have "safe d' \<and> healthy_disk d' \<and> good w' \<and>
      (\<forall>m. map_of (dk_files d') m = (if m \<in> set ns then None else map_of (dk_files ?e) m))"
    using Cons.IH [OF e(1,2) _ e(3)] Cons.prems(5) by simp
  then show ?case by (simp add: gone)
qed

definition single :: "disk \<Rightarrow> bool" where
  "single d \<longleftrightarrow> (\<forall>ts ts'. map_of (dk_files d) (receipt_path ts key) \<noteq> None \<longrightarrow>
     map_of (dk_files d) (receipt_path ts' key) \<noteq> None \<longrightarrow> ts = ts')"

lemma names_iff:
  assumes "safe d"
  shows "n \<in> set (canonical_names key (dk_files d)) \<longleftrightarrow> (\<exists>ts \<le> now. n = receipt_path ts key \<and> map_of (dk_files d) n \<noteq> None)"
    and "distinct (canonical_names key (dk_files d))"
  using dir_ok_names [OF wf] assms by (simp_all add: safe_def)

lemma receipts_past:
  assumes "safe d" and "map_of (dk_files d) (receipt_path ts key) \<noteq> None"
  shows "ts \<le> now" "ts < 2 ^ 64"
proof -
  have "dir_ok key now (dk_files d)" using assms(1) wf by (simp add: safe_def)
  then have "own_name key now (receipt_path ts key)" and n: "now < 2 ^ 64"
    using assms(2) paths_contain unfolding dir_ok_def by blast+
  then show "ts \<le> now" using key [OF assms(1)] by (auto simp: own_name_def)
  with n show "ts < 2 ^ 64" by simp
qed

lemma dedupe_merge_safe:
  assumes "safe d" and "healthy_disk d"
    and names: "newest_first (canonical_names key (dk_files d)) = receipt_path wts key # siblings"
    and read: "read_receipt (receipt_path wts key) d = Inr w"
  shows "safe (dedupe_merge api (receipt_path wts key) w siblings d) \<and>
    healthy_disk (dedupe_merge api (receipt_path wts key) w siblings d) \<and>
    single (dedupe_merge api (receipt_path wts key) w siblings d)"
proof -
  have set: "set (canonical_names key (dk_files d)) = insert (receipt_path wts key) (set siblings)"
    and notin: "receipt_path wts key \<notin> set siblings"
    using names names_iff(2) [OF assms(1)] newest_first_set [of "canonical_names key (dk_files d)"] by auto
  have w: "map_of (dk_files d) (receipt_path wts key) = Some (ReceiptFile w)" "sr_version w \<le> SCHEMA_VERSION"
    using read by (simp_all add: read_receipt_iff)
  have wts: "wts \<le> now" "wts < 2 ^ 64" using receipts_past [OF assms(1), of wts] w by simp_all
  have other: "\<exists>ts < wts. n = receipt_path ts key" if n: "n \<in> set siblings" for n
  proof -
    obtain ts where ts: "n = receipt_path ts key" "map_of (dk_files d) n \<noteq> None"
      using names_iff(1) [OF assms(1), of n] set n by auto
    then have "ts \<noteq> wts" using n notin by auto
    moreover have "ts \<le> wts"
      using newest_first_head [OF names n] receipts_past(2) [OF assms(1), of ts] ts wts by (simp add: timestamp_paths)
    ultimately show ?thesis using ts by auto
  qed
  have none: "map_of (dk_files d) (receipt_path ts key) = None" if "receipt_path ts key \<notin> set siblings" "ts \<noteq> wts" for ts
  proof (rule ccontr)
    assume some: "map_of (dk_files d) (receipt_path ts key) \<noteq> None"
    then show False
      using names_iff(1) [OF assms(1), of "receipt_path ts key"] receipts_past(1) [OF assms(1) some] set that by auto
  qed
  have "good w"
  proof (rule newest_good [OF _ w])
    show "I (dk_files d)" using assms(1) by (simp add: safe_def)
    fix ts assume "wts < ts"
    then show "map_of (dk_files d) (receipt_path ts key) = None" using none [of ts] other [of "receipt_path ts key"] by force
  qed
  moreover obtain w' k' e where m: "merge_siblings api siblings (w, 0) d = ((w', k'), e)" by (metis prod.exhaust)
  ultimately have e: "safe e" "healthy_disk e" "good w'"
    "\<And>m. map_of (dk_files e) m = (if m \<in> set siblings then None else map_of (dk_files d) m)"
    using merge_siblings_safe [OF assms(1,2) _ _ other m] w by auto
  have only: "map_of (dk_files e) (receipt_path ts key) = None" if "ts \<noteq> wts" for ts
    using none [OF _ that] by (simp add: e(4))
  then have single: "single e" by (metis single_def)
  have "safe (snd (write_receipt_atomic (receipt_path wts key) w' e))" using safe_write [OF e(1) wts(1) e(3)] .
  moreover obtain res d' where wr: "write_receipt_atomic (receipt_path wts key) w' e = (res, d')" by fastforce
  moreover have "healthy_disk d' \<and> single d'"
    using write_effect [OF wr] e(2) key [OF assms(1)]
    by (auto simp: written_def same_but_def healthy_disk_def single_def only split: sum.splits if_splits)
       (metis only option.distinct(1))
  ultimately show ?thesis using e single by (simp add: dedupe_merge_def m)
qed

lemma dedupe_safe:
  assumes "safe d" and "healthy_disk d"
  shows "\<exists>d'. dedupe_canonical_receipts api key d = Some d' \<and> safe d' \<and> healthy_disk d' \<and> single d'"
  using assms
proof (induction "length (canonical_names key (dk_files d))" arbitrary: d rule: less_induct)
  case less
  have list: "dk_listable d" using less.prems(2) by (simp add: healthy_disk_def)
  note names = names_iff [OF less.prems(1)]
  have few: "single d" if "length (canonical_names key (dk_files d)) \<le> 1"
  proof -
    have "receipt_path ts key = receipt_path ts' key"
      if "receipt_path ts key \<in> set (canonical_names key (dk_files d))"
        "receipt_path ts' key \<in> set (canonical_names key (dk_files d))" for ts ts'
      using that \<open>length (canonical_names key (dk_files d)) \<le> 1\<close>
      by (cases "canonical_names key (dk_files d)") auto
    then show ?thesis using names(1) receipts_past(1) [OF less.prems(1)] by (auto simp: single_def)
  qed
  consider "length (newest_first (canonical_names key (dk_files d))) \<le> 1"
    | n m ns where "newest_first (canonical_names key (dk_files d)) = n # m # ns"
    by (metis One_nat_def le_simps(2) length_0_conv length_Suc_conv less_Suc_eq not_less_eq neq_Nil_conv zero_less_Suc)
  then show ?case
  proof cases
    case 1
    then have "single d" using few by simp
    moreover have "dedupe_canonical_receipts api key d = Some d"
      using 1 list by (subst dedupe_canonical_receipts.simps) (auto simp del: newest_first_set(3) split: list.splits)
    ultimately show ?thesis using less.prems by blast
  next
    case 3: (2 n m ns)
    then have "n \<in> set (canonical_names key (dk_files d))"
      by (metis list.set_intros(1) newest_first_set(1))
    then obtain ts where n: "n = receipt_path ts key" "map_of (dk_files d) n \<noteq> None" using names(1) by blast
    show ?thesis
    proof (cases "read_receipt n d")
      case (Inr w)
      then show ?thesis
        using dedupe_merge_safe [OF less.prems, of ts "m # ns" w] 3 n list
        by (subst dedupe_canonical_receipts.simps) simp
    next
      case (Inl err)
      let ?e = "snd (unlink n d)"
      have unreadable: "\<not> readable (map_of (dk_files d) n)" using Inl read_receipt_iff(3) by blast
      have "safe ?e"
        by (rule safe_unlink [OF less.prems(1)])
           (use less.prems(1) unreadable n in \<open>auto simp: safe_def intro: drop_unreadable\<close>)
      moreover have "healthy_disk ?e" using less.prems(2) by (simp add: healthy_disk_def)
      moreover have "length (canonical_names key (dk_files ?e)) < length (canonical_names key (dk_files d))"
      proof -
        have "map_of (dk_files d) n \<noteq> Some NotAFile"
          using wf [of "dk_files d"] less.prems(1) paths_contain n(1) by (auto simp: safe_def dir_ok_def)
        note gone = unlink_done [OF less.prems(2) this]
        have "set (canonical_names key (dk_files ?e)) \<subset> set (canonical_names key (dk_files d))"
          using names_iff(1) [OF \<open>safe ?e\<close>] names(1) \<open>n \<in> set (canonical_names key (dk_files d))\<close>
          by (auto simp: gone split: if_splits)
        then show ?thesis
          using names(2) names_iff(2) [OF \<open>safe ?e\<close>] by (metis distinct_card finite_set psubset_card_mono)
      qed
      ultimately obtain d' where "dedupe_canonical_receipts api key ?e = Some d'" "safe d'" "healthy_disk d'" "single d'"
        using less.hyps by blast
      then show ?thesis using 3 Inl list by (subst dedupe_canonical_receipts.simps) simp
    qed
  qed
qed

lemma tmp_names:
  assumes "safe d" and "(n, rd) \<in> set (orphaned_tmps key d)"
  shows "(\<exists>ts \<le> now. n = tmp_path_for (receipt_path ts key)) \<and> (rd \<longrightarrow> readable (map_of (dk_files d) n))"
proof -
  have "dir_ok key now (dk_files d)" using assms(1) wf by (simp add: safe_def)
  moreover have n: "n \<in> fst ` set (dk_files d)" "ends_with ''.tmp'' n" "contains key n" "rd \<longleftrightarrow> readable (map_of (dk_files d) n)"
    using assms(2) by (auto simp: orphaned_tmps_def read_receipt_iff(2))
  ultimately have "own_name key now n" unfolding dir_ok_def by (metis map_of_eq_None_iff)
  then show ?thesis
    using n receipt_path_is_receipt [OF key [OF assms(1)]] tmp_ends(4) by (auto simp: own_name_def is_receipt_name_def)
qed

lemma recover_safe:
  assumes "safe d" and "healthy_disk d"
  shows "\<exists>d'. recover_orphaned_tmps api key d = Some d' \<and> safe d' \<and> healthy_disk d' \<and> single d'"
proof -
  have "distinct (map fst (dk_files d))" using wf [of "dk_files d"] assms(1) by (simp add: safe_def dir_ok_def)
  then have "distinct (map fst (orphaned_tmps key d))" by (simp add: orphaned_tmps_def comp_def)
  note p = promote_tmps_safe [OF assms(1) this tmp_names [OF assms(1)], of False]
  then have "healthy_disk (promote_tmps (orphaned_tmps key d) False d)" using assms(2) by (simp add: healthy_disk_def)
  then show ?thesis
    using dedupe_safe p assms(2) by (simp add: recover_orphaned_tmps_def healthy_disk_def)
qed

lemma find_safe:
  assumes "safe d" and "healthy_disk d" and "single d" and "find_existing key t d = (found, d')"
  shows "safe d' \<and> healthy_disk d'"
    and "case found of
        Some (n, r) \<Rightarrow> d' = d \<and> good r \<and> (\<exists>ts. n = receipt_path ts key \<and> map_of (dk_files d) n = Some (ReceiptFile r) \<and>
          (\<forall>ts'. ts' \<noteq> ts \<longrightarrow> map_of (dk_files d) (receipt_path ts' key) = None))
      | None \<Rightarrow> \<forall>ts. readable (map_of (dk_files d) (receipt_path ts key)) \<longrightarrow> is_expired_filename t (receipt_path ts key)"
proof -
  note names = names_iff [OF assms(1)]
  have loop: "find_loop t (canonical_names key (dk_files d)) d = (found, d')"
    using assms(2,4) by (simp add: find_existing_def healthy_disk_def)
  consider "canonical_names key (dk_files d) = []" | ts where "canonical_names key (dk_files d) = [receipt_path ts key]"
      "map_of (dk_files d) (receipt_path ts key) \<noteq> None"
  proof (cases "canonical_names key (dk_files d)")
    case (Cons n ns)
    then obtain ts where n: "n = receipt_path ts key" "map_of (dk_files d) n \<noteq> None" using names(1) [of n] by auto
    have "m = n" if "m \<in> set ns" for m
      using names(1) [of m] that n assms(3) Cons by (auto simp: single_def)
    then have "ns = []" using names(2) Cons by (cases ns) auto
    with Cons n that(2) show ?thesis by simp
  qed
  then have "(safe d' \<and> healthy_disk d') \<and> (case found of
        Some (n, r) \<Rightarrow> d' = d \<and> good r \<and> (\<exists>ts. n = receipt_path ts key \<and> map_of (dk_files d) n = Some (ReceiptFile r) \<and>
          (\<forall>ts'. ts' \<noteq> ts \<longrightarrow> map_of (dk_files d) (receipt_path ts' key) = None))
      | None \<Rightarrow> \<forall>ts. readable (map_of (dk_files d) (receipt_path ts key)) \<longrightarrow> is_expired_filename t (receipt_path ts key))"
  proof cases
    case 1
    have "map_of (dk_files d) (receipt_path ts key) = None" for ts
      using names(1) [of "receipt_path ts key"] receipts_past(1) [OF assms(1), of ts] 1
      by (metis empty_iff list.set(1))
    then show ?thesis using loop 1 assms(1,2) by (auto simp: readable_def)
  next
    case (2 ts)
    have other: "map_of (dk_files d) (receipt_path ts' key) = None" if "ts' \<noteq> ts" for ts'
      using assms(3) 2(2) that by (auto simp: single_def)
    have only: "is_expired_filename t (receipt_path ts' key)"
      if "is_expired_filename t (receipt_path ts key) \<or> \<not> readable (map_of (dk_files d) (receipt_path ts key))"
        "readable (map_of (dk_files d) (receipt_path ts' key))" for ts'
      using other [of ts'] that by (cases "ts' = ts") (auto simp: readable_def)
    show ?thesis
    proof (cases "is_expired_filename t (receipt_path ts key)")
      case True
      then show ?thesis using loop 2 assms(1,2) only by auto
    next
      case fresh: False
      show ?thesis
      proof (cases "read_receipt (receipt_path ts key) d")
        case (Inr r)
        have r: "map_of (dk_files d) (receipt_path ts key) = Some (ReceiptFile r)" "sr_version r \<le> SCHEMA_VERSION"
          using Inr by (simp_all add: read_receipt_iff)
        have "good r" by (rule newest_good [OF _ r]) (use assms(1) other in \<open>auto simp: safe_def\<close>)
        then show ?thesis using loop 2 fresh Inr assms(1,2) r other by auto
      next
        case (Inl err)
        have unreadable: "\<not> readable (map_of (dk_files d) (receipt_path ts key))" using Inl read_receipt_iff(3) by blast
        have "safe (snd (unlink (receipt_path ts key) d))"
          by (rule safe_unlink [OF assms(1)]) (use assms(1) unreadable in \<open>auto simp: safe_def intro: drop_unreadable\<close>)
        then show ?thesis using loop 2 fresh Inl assms(2) only unreadable by (auto simp: healthy_disk_def)
      qed
    qed
  qed
  then show "safe d' \<and> healthy_disk d'"
    and "case found of
        Some (n, r) \<Rightarrow> d' = d \<and> good r \<and> (\<exists>ts. n = receipt_path ts key \<and> map_of (dk_files d) n = Some (ReceiptFile r) \<and>
          (\<forall>ts'. ts' \<noteq> ts \<longrightarrow> map_of (dk_files d) (receipt_path ts' key) = None))
      | None \<Rightarrow> \<forall>ts. readable (map_of (dk_files d) (receipt_path ts key)) \<longrightarrow> is_expired_filename t (receipt_path ts key)"
    by simp_all
qed

lemma find_Some:
  assumes "safe d" and "healthy_disk d" and "single d" and "find_existing key t d = (Some (n, r), d')"
  shows "d' = d" "good r" "\<exists>ts. n = receipt_path ts key \<and> map_of (dk_files d) n = Some (ReceiptFile r) \<and>
      (\<forall>ts'. ts' \<noteq> ts \<longrightarrow> map_of (dk_files d) (receipt_path ts' key) = None)"
  using find_safe(2) [OF assms] by simp_all

lemma acquire_safe:
  assumes "safe d"
  shows "safe (snd (acquire key d)) \<and> dk_listable (snd (acquire key d)) = dk_listable d \<and>
    dk_stuck (snd (acquire key d)) = dk_stuck d"
proof -
  have "safe (set_file (lock_path key) UnreadableFile (snd (ask d)))"
    using assms(1) by (intro safe_set) (simp_all add: safe_def lock)
  then show ?thesis using assms by (simp add: acquire_def split_def)
qed

text \<open>What every operation does before its own work.\<close>

lemma locked_safe:
  assumes "safe d" and "healthy_disk d"
  shows "(\<exists>d'. locked api key body d = Some (Inl CacheIo, d') \<and> safe d') \<or>
    (\<exists>e. locked api key body d = body e \<and> safe e \<and> healthy_disk e \<and> single e)"
proof (cases "acquire key d")
  case (Pair ok e)
  then have e: "safe e" "healthy_disk e" using acquire_safe [OF assms(1)] assms(2) by (simp_all add: healthy_disk_def)
  then show ?thesis using Pair recover_safe [OF e] by (cases ok) (auto simp: locked_def)
qed

lemma append_to_safe:
  assumes "safe d" and "healthy_disk d" and "single d" and "now < 2 ^ 64"
    and "find_existing key t d = (found, e)" and "good (appended api now new cost gas found)"
    and "append_to api now key new cost gas found e = (res, d')"
  shows "safe d' \<and> healthy_disk d'"
proof -
  have e: "safe e" "healthy_disk e" using find_safe(1) [OF assms(1-3,5)] by simp_all
  obtain r d1 where w: "write_receipt_atomic (receipt_path now key) (appended api now new cost gas found) e = (r, d1)" by fastforce
  have d1: "safe d1" using safe_write [OF e(1) le_refl assms(6)] by (simp add: w)
  have h1: "healthy_disk d1" and new: "r = Inr u \<Longrightarrow> map_of (dk_files d1) (receipt_path now key) \<noteq> None" for u
    using write_effect [OF w] e(2) by (auto simp: written_def same_but_def healthy_disk_def split: sum.splits)
  have old: "safe (snd (unlink n d1))" if f: "found = Some (n, x)" "n \<noteq> receipt_path now key" "r = Inr u" for n x u
  proof (rule safe_unlink [OF d1])
    obtain ts where ts: "n = receipt_path ts key" "map_of (dk_files d) n \<noteq> None"
      using find_Some(3) [OF assms(1-3), of t n x e] assms(5) f(1) by auto
    then have "ts < now" using receipts_past(1) [OF assms(1), of ts] that(2) by (cases "ts = now") auto
    then show "I (AList.delete n (dk_files d1))" using d1 new [OF that(3)] ts by (auto simp: safe_def intro: drop_older)
  qed
  show ?thesis
    using assms(7) w d1 h1 old
    by (auto simp: append_to_def Let_def healthy_disk_def split: sum.splits option.splits prod.splits if_splits)
qed

end

section \<open>A well-formed directory stays well-formed\<close>

lemma dir_ok_update:
  assumes "dir_ok key now fs" and "own_name key now n" and "f \<noteq> NotAFile"
  shows "dir_ok key now (AList.update n f fs)"
  using assms unfolding dir_ok_def by (auto simp: distinct_update update_conv)

lemma dir_ok_delete: "dir_ok key now fs \<Longrightarrow> dir_ok key now (AList.delete n fs)"
  unfolding dir_ok_def by (auto simp: delete_conv distinct_delete)

lemma dir_ok_later: "dir_ok key now fs \<Longrightarrow> now \<le> later \<Longrightarrow> later < 2 ^ 64 \<Longrightarrow> dir_ok key later fs"
  unfolding dir_ok_def own_name_def by (meson le_trans)

lemma dir_ok_known:
  assumes "dir_ok key now fs" and "map_of fs n \<noteq> None" and "contains key n"
  shows "own_name key now n"
  using assms unfolding dir_ok_def by blast

lemma known_tmp:
  assumes "dir_ok key now fs" and "map_of fs (tmp_path_for (receipt_path ts key)) \<noteq> None"
  shows "ts \<le> now"
  using dir_ok_known [OF assms paths_contain(2)] assms(1) by (auto simp: own_name_def dir_ok_def)

lemma own_names:
  "own_name key now (lock_path key)"
  "ts \<le> now \<Longrightarrow> own_name key now (receipt_path ts key)"
  "ts \<le> now \<Longrightarrow> own_name key now (tmp_path_for (receipt_path ts key))"
  by (auto simp: own_name_def)

interpretation well: guarded_directory api key now "dir_ok key now" "\<lambda>r. sr_version r \<le> SCHEMA_VERSION"
  for api :: "'a amount_api" and key now
proof unfold_locales
  fix fs ts f
  assume "dir_ok key now fs" "map_of fs (tmp_path_for (receipt_path ts key)) = Some f" "readable (Some f)"
  then show "dir_ok key now (AList.update (receipt_path ts key) f (AList.delete (tmp_path_for (receipt_path ts key)) fs))"
    using known_tmp [of key now fs ts]
    by (intro dir_ok_update dir_ok_delete own_names) (auto simp: readable_def)
qed (auto intro!: dir_ok_update dir_ok_delete own_names simp: merge_receipt_def)

section \<open>A paid proof stays in the newest receipt\<close>

definition holds :: "key \<Rightarrow> bytes \<Rightarrow> single_node_receipt \<Rightarrow> bool" where
  "holds a p r \<longleftrightarrow> map_of (sr_proofs r) a = Some p \<and> sr_version r \<le> SCHEMA_VERSION"

text \<open>
  The newest receipt holds the proof and is not older than \<open>since\<close>, and so does every readable
  temporary file that could replace it.
\<close>

definition newest_at :: "string \<Rightarrow> key \<Rightarrow> bytes \<Rightarrow> cache_dir \<Rightarrow> nat \<Rightarrow> bool" where
  "newest_at key a p fs ts \<longleftrightarrow>
     (\<exists>r. map_of fs (receipt_path ts key) = Some (ReceiptFile r) \<and> holds a p r) \<and>
     (\<forall>ts'. ts < ts' \<longrightarrow> map_of fs (receipt_path ts' key) = None) \<and>
     (\<forall>ts' r. ts \<le> ts' \<longrightarrow> map_of fs (tmp_path_for (receipt_path ts' key)) = Some (ReceiptFile r) \<longrightarrow>
        sr_version r \<le> SCHEMA_VERSION \<longrightarrow> holds a p r)"

definition kept :: "string \<Rightarrow> nat \<Rightarrow> nat \<Rightarrow> key \<Rightarrow> bytes \<Rightarrow> cache_dir \<Rightarrow> bool" where
  "kept key now since a p fs \<longleftrightarrow> dir_ok key now fs \<and> (\<exists>ts \<ge> since. newest_at key a p fs ts)"

lemma newest_atD:
  assumes "newest_at key a p fs ts"
  shows "\<exists>r. map_of fs (receipt_path ts key) = Some (ReceiptFile r) \<and> holds a p r"
    "ts < ts' \<Longrightarrow> map_of fs (receipt_path ts' key) = None"
    "ts \<le> ts' \<Longrightarrow> map_of fs (tmp_path_for (receipt_path ts' key)) = Some (ReceiptFile r) \<Longrightarrow>
       sr_version r \<le> SCHEMA_VERSION \<Longrightarrow> holds a p r"
  using assms by (auto simp: newest_at_def)

lemma newest_at_cong:
  assumes "newest_at key a p fs ts"
    and "map_of fs' (receipt_path ts key) = map_of fs (receipt_path ts key)"
    and "\<And>ts'. ts < ts' \<Longrightarrow> map_of fs' (receipt_path ts' key) = None"
    and "\<And>ts' r. ts \<le> ts' \<Longrightarrow> map_of fs' (tmp_path_for (receipt_path ts' key)) = Some (ReceiptFile r) \<Longrightarrow>
      holds a p r \<or> map_of fs (tmp_path_for (receipt_path ts' key)) = Some (ReceiptFile r)"
  shows "newest_at key a p fs' ts"
  using assms unfolding newest_at_def by metis

lemma or_insert_keeps: "map_of m a = Some p \<Longrightarrow> map_of (foldl or_insert m xs) a = Some p"
  by (induction xs arbitrary: m) (auto simp: or_insert_def map_add_def)

lemma kept_key: "kept key now since a p fs \<Longrightarrow> key_ok key"
  by (simp add: kept_def dir_ok_def)

lemma kept_update:
  assumes k: "kept key now since a p fs" and "own_name key now n" "f \<noteq> NotAFile" "\<And>ts. n \<noteq> receipt_path ts key"
    and "\<And>r. f = ReceiptFile r \<Longrightarrow> holds a p r"
  shows "kept key now since a p (AList.update n f fs)"
proof -
  obtain ts where n: "newest_at key a p fs ts" "since \<le> ts" using k by (auto simp: kept_def)
  have "newest_at key a p (AList.update n f fs) ts"
    using newest_atD(2) [OF n(1)] assms(4)
    by (intro newest_at_cong [OF n(1)]) (auto simp: update_conv split: if_splits intro: assms(5))
  then show ?thesis using k n(2) dir_ok_update [OF _ assms(2,3)] unfolding kept_def by blast
qed

lemma kept_delete:
  assumes k: "kept key now since a p fs" and "\<And>ts. newest_at key a p fs ts \<Longrightarrow> since \<le> ts \<Longrightarrow> n \<noteq> receipt_path ts key"
  shows "kept key now since a p (AList.delete n fs)"
proof -
  obtain ts where n: "newest_at key a p fs ts" "since \<le> ts" using k by (auto simp: kept_def)
  have "newest_at key a p (AList.delete n fs) ts"
    using newest_atD(2) [OF n(1)] assms(2) [OF n]
    by (intro newest_at_cong [OF n(1)]) (auto simp: delete_conv split: if_splits)
  then show ?thesis using k n(2) dir_ok_delete unfolding kept_def by blast
qed

interpretation paid: guarded_directory api key now "kept key now since a p" "holds a p"
  for api :: "'a amount_api" and key now since a p
proof unfold_locales
  fix fs assume "kept key now since a p fs"
  then show "dir_ok key now fs" by (simp add: kept_def)
next
  fix fs ts r
  assume k: "kept key now since a p fs" and r: "map_of fs (receipt_path ts key) = Some (ReceiptFile r)"
    and later: "\<And>ts'. ts < ts' \<Longrightarrow> map_of fs (receipt_path ts' key) = None"
  obtain ts0 where n: "newest_at key a p fs ts0" using k by (auto simp: kept_def)
  from newest_atD(1) [OF n] obtain r0 where r0: "map_of fs (receipt_path ts0 key) = Some (ReceiptFile r0)" "holds a p r0" by blast
  have "ts = ts0"
    using later [of ts0] newest_atD(2) [OF n, of ts] r r0 by (cases ts ts0 rule: linorder_cases) auto
  then show "holds a p r" using r r0 by simp
next
  fix r assume "holds a p r"
  then show "sr_version r \<le> SCHEMA_VERSION" by (simp add: holds_def)
next
  fix r other assume "holds a p r"
  then show "holds a p (merge_receipt api r other)" by (simp add: holds_def merge_receipt_def or_insert_keeps)
next
  fix fs assume k: "kept key now since a p fs"
  then show "kept key now since a p (AList.update (lock_path key) UnreadableFile fs)"
    using kept_key [OF k] by (intro kept_update own_names) simp_all
next
  fix fs ts assume k: "kept key now since a p fs" and t: "ts \<le> now"
  then show "kept key now since a p (AList.update (tmp_path_for (receipt_path ts key)) UnreadableFile fs)"
    using kept_key [OF k] by (intro kept_update own_names) simp_all
next
  fix fs ts r assume k: "kept key now since a p fs" and t: "ts \<le> now" and h: "holds a p r"
  then show "kept key now since a p (AList.update (tmp_path_for (receipt_path ts key)) (ReceiptFile r) fs)"
    using kept_key [OF k] by (intro kept_update own_names) simp_all
next
  fix fs ts assume k: "kept key now since a p fs"
  then show "kept key now since a p (AList.delete (tmp_path_for (receipt_path ts key)) fs)"
    using kept_key [OF k] by (intro kept_delete) simp_all
next
  fix fs ts f
  assume k: "kept key now since a p fs" and f: "map_of fs (tmp_path_for (receipt_path ts key)) = Some f" "readable (Some f)"
  let ?fs = "AList.update (receipt_path ts key) f (AList.delete (tmp_path_for (receipt_path ts key)) fs)"
  have ok: "dir_ok key now fs" using k by (simp add: kept_def)
  have ok': "dir_ok key now ?fs" using well.promote [OF ok f] .
  obtain ts0 where n: "newest_at key a p fs ts0" "since \<le> ts0" using k by (auto simp: kept_def)
  obtain r where r: "f = ReceiptFile r" "sr_version r \<le> SCHEMA_VERSION" using f(2) by (auto elim: readableE)
  show "kept key now since a p ?fs"
  proof (cases "ts0 \<le> ts")
    case True
    then have "holds a p r" using newest_atD(3) [OF n(1) True] f(1) r by simp
    then have "newest_at key a p ?fs ts"
      using True newest_atD [OF n(1)] kept_key [OF k] r
      by (auto simp: newest_at_def update_conv delete_conv split: if_splits
          intro: newest_atD(3) [OF n(1) order_trans [OF True]])
    then show ?thesis using ok' n(2) True unfolding kept_def by (meson le_trans)
  next
    case False
    then have "newest_at key a p ?fs ts0"
      using kept_key [OF k] newest_atD(2) [OF n(1)]
      by (intro newest_at_cong [OF n(1)]) (auto simp: update_conv delete_conv split: if_splits)
    then show ?thesis using ok' n(2) unfolding kept_def by blast
  qed
next
  fix fs ts' ts assume k: "kept key now since a p fs" and t: "map_of fs (receipt_path ts' key) \<noteq> None" "ts < ts'"
  have "ts < ts0" if n: "newest_at key a p fs ts0" for ts0
    using newest_atD(2) [OF n, of ts'] t by (cases "ts' \<le> ts0") auto
  then show "kept key now since a p (AList.delete (receipt_path ts key) fs)"
    using k by (intro kept_delete) fastforce+
next
  fix fs ts assume k: "kept key now since a p fs" and t: "\<not> readable (map_of fs (receipt_path ts key))"
  have "ts \<noteq> ts0" if n: "newest_at key a p fs ts0" for ts0
    using newest_atD(1) [OF n] t by (auto simp: readable_def holds_def)
  then show "kept key now since a p (AList.delete (receipt_path ts key) fs)"
    using k by (intro kept_delete) fastforce+
qed

section \<open>The operations keep a paid proof\<close>

lemma extend_keeps: "a \<notin> fst ` set new \<Longrightarrow> map_of (extend_receipt m new) a = map_of m a"
  unfolding extend_receipt_def by (induction new arbitrary: m) (auto simp: update_conv)

lemma extend_new: "distinct (map fst new) \<Longrightarrow> map_of new a = Some p \<Longrightarrow> map_of (extend_receipt m new) a = Some p"
proof (induction new arbitrary: m)
  case (Cons e new)
  then show ?case
    using extend_keeps [of a new "AList.update (fst e) (snd e) m"]
    by (auto simp: extend_receipt_def update_conv split: if_splits)
qed simp

lemma drop_keeps: "(a, p) \<notin> set expected \<Longrightarrow> map_of m a = Some p \<Longrightarrow> map_of (drop_unchanged expected m) a = Some p"
proof (induction expected arbitrary: m)
  case (Cons e expected)
  have "map_of (if map_of m (fst e) = Some (snd e) then AList.delete (fst e) m else m) a = Some p"
    using Cons.prems by (cases e) (auto simp: delete_conv)
  from Cons.IH [OF _ this] Cons.prems(1) show ?case by (simp add: drop_unchanged_def)
qed (simp add: drop_unchanged_def)

lemma holds_appended:
  assumes "holds a p r" and "a \<notin> fst ` set new"
  shows "holds a p (appended api now new cost gas (Some (n, r)))"
  using assms by (simp add: appended_def holds_def extend_keeps)

lemma not_expired:
  assumes "kept key now since a p fs" and "newest_at key a p fs ts" and "since \<le> ts" and "now \<le> since + PAYMENT_EXPIRATION_SECS"
  shows "\<not> is_expired_filename now (receipt_path ts key)"
proof -
  have ok: "dir_ok key now fs" using assms(1) by (simp add: kept_def)
  obtain r where "map_of fs (receipt_path ts key) = Some (ReceiptFile r)" using newest_atD(1) [OF assms(2)] by blast
  then have "own_name key now (receipt_path ts key)" using dir_ok_known [OF ok _ paths_contain(1), of ts] by simp
  then have "ts \<le> now" using ok by (auto simp: own_name_def dir_ok_def)
  moreover have "now < 2 ^ 64" using ok by (simp add: dir_ok_def)
  ultimately show ?thesis
    using assms(3,4) by (simp add: is_expired_filename_def parsed_paths sat_add_def usize_max_def)
qed

lemma unlink_all_safe:
  assumes "paid.safe key now since a p d" and "now \<le> since + PAYMENT_EXPIRATION_SECS"
    and "\<And>n. n \<in> set ns \<Longrightarrow> is_expired_filename now n"
  shows "paid.safe key now since a p (unlink_all ns d) \<and> dk_listable (unlink_all ns d) = dk_listable d \<and>
    dk_stuck (unlink_all ns d) = dk_stuck d"
  using assms(1,3)
proof (induction ns arbitrary: d)
  case (Cons n ns)
  have k: "kept key now since a p (dk_files d)" using Cons.prems(1) by (simp add: paid.safe_def)
  have "n \<noteq> receipt_path ts key" if "newest_at key a p (dk_files d) ts" "since \<le> ts" for ts
    using not_expired [OF k that assms(2)] Cons.prems(2) [of n] by auto
  then have "paid.safe key now since a p (snd (unlink n d))"
    by (intro paid.safe_unlink [OF Cons.prems(1)] kept_delete [OF k])
  from Cons.IH [OF this] Cons.prems(2) show ?case by simp
qed simp

lemma cleanup_safe:
  assumes "paid.safe key now since a p d" and "now \<le> since + PAYMENT_EXPIRATION_SECS"
  shows "paid.safe key now since a p (cleanup_outdated now d) \<and> (healthy_disk d \<longrightarrow> healthy_disk (cleanup_outdated now d))"
proof -
  let ?ns = "map fst (filter (is_expired_entry now) (dk_files d))"
  have "is_expired_filename now n" if "n \<in> set ?ns" for n using that by (auto simp: is_expired_entry_def)
  then have "paid.safe key now since a p (unlink_all ?ns (snd (ask d))) \<and>
      dk_listable (unlink_all ?ns (snd (ask d))) = dk_listable d \<and> dk_stuck (unlink_all ?ns (snd (ask d))) = dk_stuck d"
    using unlink_all_safe [of key now since a p "snd (ask d)" ?ns] assms by simp
  then show ?thesis using assms(1) by (simp add: cleanup_outdated_def split_def healthy_disk_def)
qed

text \<open>The receipt that a kept directory offers is found and holds the proof.\<close>

lemma find_kept:
  assumes "paid.safe key now since a p d" and "healthy_disk d"
    and "guarded_directory.single key d" and "now \<le> since + PAYMENT_EXPIRATION_SECS"
  shows "\<exists>ts r. find_existing key now d = (Some (receipt_path ts key, r), d) \<and> holds a p r \<and> ts \<le> now"
proof -
  obtain found e where f: "find_existing key now d = (found, e)" by fastforce
  have k: "kept key now since a p (dk_files d)" using assms(1) by (simp add: paid.safe_def)
  then obtain ts where n: "newest_at key a p (dk_files d) ts" "since \<le> ts" by (auto simp: kept_def)
  have "found \<noteq> None"
  proof
    assume "found = None"
    then have "readable (map_of (dk_files d) (receipt_path ts key)) \<longrightarrow> is_expired_filename now (receipt_path ts key)"
      using paid.find_safe(2) [OF assms(1-3) f] by simp
    then show False using newest_atD(1) [OF n(1)] not_expired [OF k n assms(4)] by (auto simp: readable_def holds_def)
  qed
  then obtain m r where found: "found = Some (m, r)" by auto
  note s = paid.find_Some [OF assms(1-3) f [unfolded found]]
  obtain ts' where "m = receipt_path ts' key" "map_of (dk_files d) m \<noteq> None" using s(3) by auto
  then show ?thesis using s(1,2) f found paid.receipts_past(1) [OF assms(1), of ts'] by auto
qed

text \<open>An operation returns, and the proof is kept at every moment of it.\<close>

lemma locked_kept:
  assumes "paid.safe key now since a p d" and "healthy_disk d"
    and "\<And>e. paid.safe key now since a p e \<Longrightarrow> healthy_disk e \<Longrightarrow> guarded_directory.single key e \<Longrightarrow>
      \<exists>res d'. body e = Some (res, d') \<and> paid.safe key now since a p d' \<and> Q res"
    and "Q (Inl CacheIo)"
  shows "\<exists>res d'. locked api key body d = Some (res, d') \<and> paid.safe key now since a p d' \<and> Q res"
  using paid.locked_safe [OF assms(1,2), of api body] assms(3,4) by (metis (no_types))

lemma append_kept:
  assumes "paid.safe (file_hash_key blake3 path) now since a p d" and "healthy_disk d"
    and "now \<le> since + PAYMENT_EXPIRATION_SECS" and "a \<notin> fst ` set new"
  shows "\<exists>res d'. append_wave api blake3 path new cost gas now d = Some (res, d') \<and>
    paid.safe (file_hash_key blake3 path) now since a p d'"
proof (cases "ask d")
  case (Pair ok d1)
  let ?key = "file_hash_key blake3 path"
  let ?body = "\<lambda>d. case find_existing ?key now d of (found, d) \<Rightarrow> Some (append_to api now ?key new cost gas found d)"
  have d1: "paid.safe ?key now since a p d1" "healthy_disk d1"
    using Pair paid.safe_ask [of ?key now since a p d] ask_frame [of d] assms(1,2) by (simp_all add: healthy_disk_def)
  have "\<exists>res d'. locked api ?key ?body d1 = Some (res, d') \<and> paid.safe ?key now since a p d' \<and> True"
  proof (rule locked_kept [OF d1])
    fix e assume e: "paid.safe ?key now since a p e" "healthy_disk e" "guarded_directory.single ?key e"
    obtain ts r where f: "find_existing ?key now e = (Some (receipt_path ts ?key, r), e)" "holds a p r"
      using find_kept [OF e assms(3)] by blast
    obtain res d' where ap: "append_to api now ?key new cost gas (Some (receipt_path ts ?key, r)) e = (res, d')" by fastforce
    have "now < 2 ^ 64" using e(1) by (simp add: paid.safe_def kept_def dir_ok_def)
    from paid.append_to_safe [OF e this f(1) holds_appended [OF f(2) assms(4)] ap] f(1) ap
    show "\<exists>res d'. ?body e = Some (res, d') \<and> paid.safe ?key now since a p d' \<and> True" by simp
  qed simp
  then show ?thesis using Pair d1 by (cases ok) (auto simp: append_wave_def)
qed

lemma drop_kept:
  assumes "paid.safe (file_hash_key blake3 path) now since a p d" and "healthy_disk d"
    and "now \<le> since + PAYMENT_EXPIRATION_SECS" and "(a, p) \<notin> set expected"
  shows "\<exists>res d'. drop_proofs_for_file api blake3 path expected now d = Some (res, d') \<and>
    paid.safe (file_hash_key blake3 path) now since a p d'"
proof (cases "ask d")
  case (Pair ok d1)
  let ?key = "file_hash_key blake3 path"
  let ?body = "\<lambda>d. case find_existing ?key now d of (found, d) \<Rightarrow> Some (drop_from expected found d)"
  have d1: "paid.safe ?key now since a p d1" "healthy_disk d1"
    using Pair paid.safe_ask [of ?key now since a p d] ask_frame [of d] assms(1,2) by (simp_all add: healthy_disk_def)
  have "\<exists>res d'. locked api ?key ?body d1 = Some (res, d') \<and> paid.safe ?key now since a p d' \<and> True"
  proof (rule locked_kept [OF d1])
    fix e assume e: "paid.safe ?key now since a p e" "healthy_disk e" "guarded_directory.single ?key e"
    obtain ts r where f: "find_existing ?key now e = (Some (receipt_path ts ?key, r), e)" "holds a p r" "ts \<le> now"
      using find_kept [OF e assms(3)] by blast
    let ?r = "r\<lparr>sr_proofs := drop_unchanged expected (sr_proofs r)\<rparr>"
    have h: "holds a p ?r" using drop_keeps [OF assms(4)] f(2) by (simp add: holds_def)
    then have ne: "drop_unchanged expected (sr_proofs r) \<noteq> []" by (auto simp: holds_def)
    have "paid.safe ?key now since a p (snd (write_receipt_atomic (receipt_path ts ?key) ?r e))"
      by (rule paid.safe_write [OF e(1) f(3) h])
    then have "paid.safe ?key now since a p (snd (drop_from expected (Some (receipt_path ts ?key, r)) e))"
      using e(1) ne by (simp add: drop_from_def Let_def)
    then show "\<exists>res d'. ?body e = Some (res, d') \<and> paid.safe ?key now since a p d' \<and> True"
      using f(1) by (cases "drop_from expected (Some (receipt_path ts ?key, r)) e") simp
  qed simp
  then show ?thesis using Pair d1 assms(1) by (cases ok) (auto simp: drop_proofs_for_file_def)
qed

lemma load_kept:
  assumes "paid.safe (file_hash_key blake3 path) now since a p d" and "healthy_disk d"
    and "now \<le> since + PAYMENT_EXPIRATION_SECS"
  shows "\<exists>res d'. load_for_file api blake3 path now d = Some (res, d') \<and>
    paid.safe (file_hash_key blake3 path) now since a p d' \<and>
    (case res of Inl _ \<Rightarrow> True | Inr found \<Rightarrow> \<exists>n r. found = Some (n, r) \<and> map_of (sr_proofs r) a = Some p)"
proof (cases "ask (cleanup_outdated now d)")
  case (Pair ok d1)
  let ?key = "file_hash_key blake3 path"
  let ?body = "\<lambda>d. case find_existing ?key now d of (found, d) \<Rightarrow> Some (Inr found, d)"
  let ?Q = "\<lambda>res. case res of Inl _ \<Rightarrow> True | Inr found \<Rightarrow> \<exists>n r. found = Some (n, r) \<and> map_of (sr_proofs r) a = Some p"
  have d1: "paid.safe ?key now since a p d1" "healthy_disk d1"
    using Pair paid.safe_ask [of ?key now since a p "cleanup_outdated now d"] ask_frame [of "cleanup_outdated now d"]
      cleanup_safe [OF assms(1,3)] assms(2) by (simp_all add: healthy_disk_def)
  have "\<exists>res d'. locked api ?key ?body d1 = Some (res, d') \<and> paid.safe ?key now since a p d' \<and> ?Q res"
  proof (rule locked_kept [OF d1])
    fix e assume e: "paid.safe ?key now since a p e" "healthy_disk e" "guarded_directory.single ?key e"
    show "\<exists>res d'. ?body e = Some (res, d') \<and> paid.safe ?key now since a p d' \<and> ?Q res"
      using find_kept [OF e assms(3)] e(1) by (auto simp: holds_def)
  qed simp
  then show ?thesis using Pair d1 by (cases ok) (auto simp: load_for_file_def)
qed

section \<open>Acknowledged waves\<close>

lemma well_newest:
  assumes "dir_ok key now fs" and "map_of fs (receipt_path now key) = Some (ReceiptFile r)" and "holds a p r"
    and "map_of fs (tmp_path_for (receipt_path now key)) = None"
  shows "kept key now now a p fs"
proof -
  have "map_of fs (receipt_path ts key) = None" if "now < ts" for ts
    using dir_ok_known [OF assms(1) _ paths_contain(1), of ts] assms(1) that
    by (cases "map_of fs (receipt_path ts key)") (auto simp: own_name_def dir_ok_def)
  moreover have "map_of fs (tmp_path_for (receipt_path ts key)) = None" if "now \<le> ts" for ts
    using known_tmp [OF assms(1), of ts] assms(4) that by (cases "ts = now") force+
  ultimately have "newest_at key a p fs now" using assms(2,3) by (simp add: newest_at_def)
  then show ?thesis using assms(1) by (auto simp: kept_def)
qed

lemma append_to_acknowledged:
  assumes e: "well.safe key now e" "healthy_disk e" "guarded_directory.single key e" and f: "find_existing key now e = (found, e')"
    and ap: "append_to api now key new cost gas found e' = (Inr n, d')"
    and new: "distinct (map fst new)" "map_of new a = Some p"
  shows "kept key now now a p (dk_files d')"
proof -
  have good: "sr_version (appended api now new cost gas found) \<le> SCHEMA_VERSION"
    using well.find_safe(2) [OF e f] by (auto simp: appended_def new_receipt_def Let_def split: option.splits)
  have now: "now < 2 ^ 64" using e(1) by (simp add: well.safe_def dir_ok_def)
  have "dir_ok key now (dk_files d')" using well.append_to_safe [OF e now f good ap] by (simp add: well.safe_def)
  moreover obtain d1 where w: "write_receipt_atomic (receipt_path now key) (appended api now new cost gas found) e' = (Inr (), d1)"
    and d': "d' = (case found of Some (old, _) \<Rightarrow> if old \<noteq> receipt_path now key then snd (unlink old d1) else d1 | None \<Rightarrow> d1)"
    using ap by (auto simp: append_to_def Let_def split: prod.splits sum.splits)
  have d1: "map_of (dk_files d1) (receipt_path now key) = Some (ReceiptFile (appended api now new cost gas found))"
    "map_of (dk_files d1) (tmp_path_for (receipt_path now key)) = None"
    using write_effect [OF w] by (simp_all add: written_def)
  have "map_of (dk_files d') (receipt_path now key) = Some (ReceiptFile (appended api now new cost gas found)) \<and>
    map_of (dk_files d') (tmp_path_for (receipt_path now key)) = None"
  proof (cases found)
    case (Some x)
    obtain old r where x: "x = (old, r)" by fastforce
    obtain ts where "old = receipt_path ts key" using well.find_Some(3) [OF e, of now old r e'] f Some x by auto
    then have "tmp_path_for (receipt_path now key) \<noteq> old" using well.key [OF e(1)] by simp
    then show ?thesis using d1 Some x unfolding d' by simp
  qed (use d1 in \<open>simp add: d'\<close>)
  moreover have "holds a p (appended api now new cost gas found)"
    using good extend_new [OF new] by (simp add: holds_def appended_def Let_def)
  ultimately show ?thesis using well_newest by blast
qed

text \<open>A disk on which the directory can be listed and its files unlinked; everything else may fail.\<close>

definition fresh_disk :: "(nat \<Rightarrow> bool) \<Rightarrow> cache_dir \<Rightarrow> disk" where
  "fresh_disk answers fs =
     \<lparr>dk_files = fs, dk_past = [], dk_answers = answers, dk_asked = 0, dk_listable = True, dk_stuck = (\<lambda>_. False)\<rparr>"

lemma fresh_disk_simps [simp]:
  "dk_files (fresh_disk answers fs) = fs" "healthy_disk (fresh_disk answers fs)"
  "well.safe key now (fresh_disk answers fs) = dir_ok key now fs"
  "paid.safe key now since a p (fresh_disk answers fs) = kept key now since a p fs"
  by (simp_all add: fresh_disk_def healthy_disk_def well.safe_def paid.safe_def)

lemma append_acknowledged:
  assumes "dir_ok (file_hash_key blake3 path) now fs" and "distinct (map fst new)" and "map_of new a = Some p"
    and "append_wave api blake3 path new cost gas now (fresh_disk answers fs) = Some (Inr n, d')"
  shows "kept (file_hash_key blake3 path) now now a p (dk_files d')"
proof (cases "ask (fresh_disk answers fs)")
  case (Pair ok d1)
  let ?key = "file_hash_key blake3 path"
  let ?body = "\<lambda>d. case find_existing ?key now d of (found, d) \<Rightarrow> Some (append_to api now ?key new cost gas found d)"
  have "healthy_disk d1 = healthy_disk (fresh_disk answers fs)"
    unfolding healthy_disk_def using Pair ask_frame [of "fresh_disk answers fs"] by simp
  then have d1: "well.safe ?key now d1" "healthy_disk d1"
    using Pair well.safe_ask [of ?key now "fresh_disk answers fs"] assms(1) by simp_all
  have "locked api ?key ?body d1 = Some (Inr n, d')"
    using assms(4) Pair by (cases ok) (simp_all add: append_wave_def Let_def)
  then obtain e where e: "well.safe ?key now e" "healthy_disk e" "guarded_directory.single ?key e" "?body e = Some (Inr n, d')"
    using well.locked_safe [OF d1, of api ?body] by auto
  obtain found e' where f: "find_existing ?key now e = (found, e')" by fastforce
  show ?thesis by (rule append_to_acknowledged [OF e(1-3) f _ assms(2,3)]) (use e(4) f in simp)
qed

section \<open>Sequences of operations with crashes\<close>

datatype cache_op = AppendWave "(key \<times> bytes) list" string nat | DropProofs "(key \<times> bytes) list" | LoadReceipt | DeleteReceipt

text \<open>An operation at a time, with the answers it gets, and the moment it is cut at, if it is.\<close>

record cache_event =
  ce_op :: cache_op
  ce_now :: nat
  ce_answers :: "nat \<Rightarrow> bool"
  ce_cut :: "nat option"

definition perform_op ::
    "'a amount_api \<Rightarrow> (string \<Rightarrow> bytes) \<Rightarrow> string \<Rightarrow> cache_op \<Rightarrow> nat \<Rightarrow> disk \<Rightarrow> disk option" where
  "perform_op api blake3 path oper now d =
     (case oper of
        AppendWave new cost gas \<Rightarrow> map_option snd (append_wave api blake3 path new cost gas now d)
      | DropProofs expected \<Rightarrow> map_option snd (drop_proofs_for_file api blake3 path expected now d)
      | LoadReceipt \<Rightarrow> map_option snd (load_for_file api blake3 path now d)
      | DeleteReceipt \<Rightarrow> Some (snd (delete_for_file blake3 path d)))"

definition moments :: "disk \<Rightarrow> cache_dir list" where
  "moments d = rev (dk_files d # dk_past d)"

definition left_behind :: "nat option \<Rightarrow> disk \<Rightarrow> cache_dir" where
  "left_behind cutoff d =
     (case cutoff of Some k \<Rightarrow> if k < length (moments d) then moments d ! k else dk_files d | None \<Rightarrow> dk_files d)"

fun run_events ::
    "'a amount_api \<Rightarrow> (string \<Rightarrow> bytes) \<Rightarrow> string \<Rightarrow> cache_event list \<Rightarrow> cache_dir \<Rightarrow> cache_dir option" where
  "run_events api blake3 path [] fs = Some fs"
| "run_events api blake3 path (ev # evs) fs =
     Option.bind (perform_op api blake3 path (ce_op ev) (ce_now ev) (fresh_disk (ce_answers ev) fs))
       (\<lambda>d. run_events api blake3 path evs (left_behind (ce_cut ev) d))"

fun leaves_proof :: "key \<Rightarrow> bytes \<Rightarrow> cache_op \<Rightarrow> bool" where
  "leaves_proof a p (AppendWave new _ _) \<longleftrightarrow> a \<notin> fst ` set new"
| "leaves_proof a p (DropProofs expected) \<longleftrightarrow> (a, p) \<notin> set expected"
| "leaves_proof a p LoadReceipt \<longleftrightarrow> True"
| "leaves_proof a p DeleteReceipt \<longleftrightarrow> False"

lemma perform_kept:
  assumes "kept (file_hash_key blake3 path) now since a p fs" and "now \<le> since + PAYMENT_EXPIRATION_SECS" and "leaves_proof a p oper"
  shows "\<exists>d. perform_op api blake3 path oper now (fresh_disk answers fs) = Some d \<and>
    paid.safe (file_hash_key blake3 path) now since a p d"
proof -
  have s: "paid.safe (file_hash_key blake3 path) now since a p (fresh_disk answers fs)" using assms(1) by simp
  show ?thesis
  proof (cases oper)
    case (AppendWave new cost gas)
    then show ?thesis using append_kept [OF s _ assms(2), of new api cost gas] assms(3) by (auto simp: perform_op_def)
  next
    case (DropProofs expected)
    then show ?thesis using drop_kept [OF s _ assms(2), of expected api] assms(3) by (auto simp: perform_op_def)
  next
    case LoadReceipt
    then show ?thesis using load_kept [OF s _ assms(2), of api] by (auto simp: perform_op_def)
  qed (use assms(3) in simp)
qed

lemma kept_left_behind:
  assumes "paid.safe key now since a p d"
  shows "kept key now since a p (left_behind cutoff d)"
proof -
  have all: "fs \<in> set (moments d) \<Longrightarrow> kept key now since a p fs" for fs
    using assms by (auto simp: moments_def paid.safe_def list_all_iff)
  have "left_behind cutoff d \<in> set (moments d)"
    by (auto simp: left_behind_def split: option.split) (auto simp: moments_def)
  then show ?thesis by (rule all)
qed

lemma kept_later: "kept key now since a p fs \<Longrightarrow> now \<le> later \<Longrightarrow> later < 2 ^ 64 \<Longrightarrow> kept key later since a p fs"
  using dir_ok_later unfolding kept_def by blast

lemma events_kept:
  assumes "kept (file_hash_key blake3 path) t since a p fs" and "sorted (t # map ce_now evs)"
    and "\<And>ev. ev \<in> set evs \<Longrightarrow> leaves_proof a p (ce_op ev) \<and> ce_now ev \<le> since + PAYMENT_EXPIRATION_SECS \<and> ce_now ev < 2 ^ 64"
  shows "\<exists>fs'. run_events api blake3 path evs fs = Some fs' \<and>
    kept (file_hash_key blake3 path) (List.last (t # map ce_now evs)) since a p fs'"
  using assms
proof (induction evs arbitrary: t fs)
  case (Cons ev evs)
  let ?key = "file_hash_key blake3 path"
  have ev: "leaves_proof a p (ce_op ev)" "ce_now ev \<le> since + PAYMENT_EXPIRATION_SECS" "ce_now ev < 2 ^ 64" "t \<le> ce_now ev"
    using Cons.prems(2,3) by auto
  have "kept ?key (ce_now ev) since a p fs" by (rule kept_later [OF Cons.prems(1) ev(4,3)])
  then obtain d where d: "perform_op api blake3 path (ce_op ev) (ce_now ev) (fresh_disk (ce_answers ev) fs) = Some d"
    "paid.safe ?key (ce_now ev) since a p d"
    using perform_kept [OF _ ev(2,1)] by blast
  have "\<exists>fs'. run_events api blake3 path evs (left_behind (ce_cut ev) d) = Some fs' \<and>
      kept ?key (List.last (ce_now ev # map ce_now evs)) since a p fs'"
    by (rule Cons.IH [OF kept_left_behind [OF d(2)]]) (use Cons.prems in auto)
  then show ?case using d(1) by simp
qed simp


section \<open>Examples\<close>

definition no_amounts :: "unit amount_api" where
  "no_amounts = \<lparr>am_parse = (\<lambda>_. None), am_saturating_add = (\<lambda>_ _. ()), am_to_string = (\<lambda>_. [])\<rparr>"

definition zero_hash :: "string \<Rightarrow> bytes" where
  "zero_hash path = replicate 32 0"

definition all_well :: "nat \<Rightarrow> bool" where
  "all_well n = True"

definition demo_key :: string where
  "demo_key = file_hash_key zero_hash ''file''"

lemma demo_key_ok: "key_ok demo_key"
  unfolding demo_key_def by (rule file_hash_key_ok) (simp add: zero_hash_def)

lemma demo_names [simp]:
  "is_receipt_name (receipt_path ts demo_key)" "\<not> is_receipt_name (tmp_path_for n)" "\<not> is_receipt_name (lock_path k)"
  "\<not> ends_with ''.tmp'' (receipt_path ts demo_key)" "contains demo_key (lock_path demo_key)"
  using receipt_path_is_receipt [OF demo_key_ok, of ts] tmp_ends contains_append [of demo_key "[]" "''.lock''"]
  by (auto simp: is_receipt_name_def lock_path_def)

lemmas cache_eval = append_wave_def locked_def acquire_def ask_def fresh_disk_def recover_orphaned_tmps_def
  orphaned_tmps_def canonical_names_def newest_first_def find_existing_def append_to_def appended_def new_receipt_def
  write_receipt_atomic_def attempt_def set_file_def put_files_def rename_file_def unlink_def read_receipt_def
  load_for_file_def cleanup_outdated_def is_expired_entry_def is_expired_filename_def parsed_paths timestamp_paths
  extend_receipt_def add_cost_def gas_add_def all_well_def no_amounts_def SCHEMA_VERSION_def PAYMENT_EXPIRATION_SECS_def
  sat_add_def usize_max_def demo_key_def [symmetric] demo_key_ok paths_contain tmp_ends Let_def

lemma dedupe_few:
  "canonical_names key (dk_files d) = [] \<or> canonical_names key (dk_files d) = [n] \<Longrightarrow>
   dedupe_canonical_receipts api key d = Some d"
  by (subst dedupe_canonical_receipts.simps) (auto simp: newest_first_def)

definition first_wave :: "((cache_error, string) result \<times> disk) option" where
  "first_wave = append_wave no_amounts zero_hash ''file'' [([1], [10])] ''0'' 3 100 (fresh_disk all_well [])"

definition first_receipt :: single_node_receipt where
  "first_receipt = \<lparr>sr_version = 1, sr_proofs = [([1], [10])], sr_first_pay_timestamp = 100, sr_storage_cost_atto = ''0'', sr_gas_cost_wei = 3\<rparr>"

lemma first_wave_done:
  "\<exists>d. first_wave = Some (Inr (receipt_path 100 demo_key), d) \<and>
     dk_files d = [(lock_path demo_key, UnreadableFile), (receipt_path 100 demo_key, ReceiptFile first_receipt)]"
  by (simp add: first_wave_def cache_eval first_receipt_def dedupe_few)

text \<open>A second wave, cut at one of its moments.\<close>

definition second_wave :: "nat option \<Rightarrow> cache_event" where
  "second_wave k = \<lparr>ce_op = AppendWave [([2], [20])] ''0'' 5, ce_now = 200, ce_answers = all_well, ce_cut = k\<rparr>"


definition loaded_gas :: "cache_event list \<Rightarrow> nat option" where
  "loaded_gas evs =
     (case first_wave of
        Some (Inr _, d) \<Rightarrow>
          (case Option.bind (run_events no_amounts zero_hash ''file'' evs (dk_files d))
                  (\<lambda>fs. load_for_file no_amounts zero_hash ''file'' 300 (fresh_disk all_well fs)) of
             Some (Inr (Some (_, r)), _) \<Rightarrow> Some (sr_gas_cost_wei r)
           | _ \<Rightarrow> None)
      | _ \<Rightarrow> None)"


text \<open>
  When the newest of several receipts cannot be read and cannot be unlinked either, the recursion
  that tries the next one finds the same directory again and does not end.
\<close>

lemma stuck_receipt_never_returns:
  assumes "dk_listable d" and "newest_first (canonical_names key (dk_files d)) = n # m # ns"
    and "isl (read_receipt n d)" and "dk_stuck d n"
  shows "dedupe_canonical_receipts api key d = None"
proof (rule ccontr)
  let ?C = "\<lambda>key d. dk_listable d \<and> (\<exists>n m ns. newest_first (canonical_names key (dk_files d)) = n # m # ns \<and>
      isl (read_receipt n d) \<and> dk_stuck d n)"
  assume "dedupe_canonical_receipts api key d \<noteq> None"
  then obtain y where "dedupe_canonical_receipts api key d = Some y" by blast
  then have "\<not> ?C key d"
  proof (rule dedupe_canonical_receipts.raw_induct [rotated])
    fix f :: "'a amount_api \<Rightarrow> string \<Rightarrow> disk \<Rightarrow> disk option" and api key d y
    assume IH: "\<And>api key d y. f api key d = Some y \<Longrightarrow> \<not> ?C key d"
      and body: "(if \<not> dk_listable d then Some d
        else case newest_first (canonical_names key (dk_files d)) of
               winner_path # sibling # rest \<Rightarrow>
                 (case read_receipt winner_path d of
                    Inr winner \<Rightarrow> Some (dedupe_merge api winner_path winner (sibling # rest) d)
                  | Inl _ \<Rightarrow> f api key (snd (unlink winner_path d)))
             | _ \<Rightarrow> Some d) = Some y"
    show "\<not> ?C key d"
    proof
      assume c: "?C key d"
      then obtain n m ns where n: "dk_listable d" "newest_first (canonical_names key (dk_files d)) = n # m # ns"
        "isl (read_receipt n d)" "dk_stuck d n" by blast
      have "snd (unlink n d) = d" using n(4) by (auto simp: unlink_def split: option.split cache_file.split)
      then have "f api key d = Some y" using body n by (auto split: sum.splits)
      from IH [OF this] c show False by blast
    qed
  qed
  with assms show False by blast
qed

end
