(* ===== verification/Msgpack.thy ===== *)
theory Msgpack
  imports Wire
begin

text \<open>
  Msgpack values as a manifest is made of them, and what the code relies on of the
  serialiser (the \<^verbatim>\<open>rmp_serde\<close> crate): the locale \<open>msgpack_writer\<close> says that the
  bytes of a value begin with a header the structural check of \<open>Wire\<close> reads as that value,
  followed by the bytes of its parts. Inside it the structural check is shown to accept every
  value of the right shape. \<open>mp_write\<close> and \<open>mp_read\<close> are a writer of the shortest forms of the
  msgpack specification, and its reader; the writer interprets the locale.
\<close>

datatype msg =
    MStr utext
  | MUint nat
  | MBin bytes
  | MArray "msg list"
  | MMap "(utext \<times> msg) list"

subsection \<open>UTF-8\<close>

definition utf8_char :: "nat \<Rightarrow> bytes" where
  "utf8_char c =
     (if c < 0x80 then [of_nat c]
      else if c < 0x800 then [of_nat (0xC0 + c div 64), of_nat (0x80 + c mod 64)]
      else if c < 0x10000 then [of_nat (0xE0 + c div 4096), of_nat (0x80 + c div 64 mod 64), of_nat (0x80 + c mod 64)]
      else [of_nat (0xF0 + c div 262144), of_nat (0x80 + c div 4096 mod 64), of_nat (0x80 + c div 64 mod 64),
            of_nat (0x80 + c mod 64)])"

definition utf8 :: "utext \<Rightarrow> bytes" where
  "utf8 s = concat (map utf8_char s)"

definition scalar_value :: "nat \<Rightarrow> bool" where
  "scalar_value c \<longleftrightarrow> c < 0x110000 \<and> \<not> (0xD800 \<le> c \<and> c < 0xE000)"

fun utf8_read :: "bytes \<Rightarrow> utext option" where
  "utf8_read [] = Some []"
| "utf8_read (a # bs) =
     (if unat a < 0x80 then map_option ((#) (unat a)) (utf8_read bs)
      else if unat a < 0xE0 then
        (case bs of b # rest \<Rightarrow> map_option ((#) ((unat a - 0xC0) * 64 + (unat b - 0x80))) (utf8_read rest) | _ \<Rightarrow> None)
      else if unat a < 0xF0 then
        (case bs of
           b # c # rest \<Rightarrow>
             map_option ((#) (((unat a - 0xE0) * 64 + (unat b - 0x80)) * 64 + (unat c - 0x80))) (utf8_read rest)
         | _ \<Rightarrow> None)
      else
        (case bs of
           b # c # d # rest \<Rightarrow>
             map_option ((#) ((((unat a - 0xF0) * 64 + (unat b - 0x80)) * 64 + (unat c - 0x80)) * 64 + (unat d - 0x80)))
               (utf8_read rest)
         | _ \<Rightarrow> None))"

lemma length_utf8_char: "length (utf8_char c) = utf8_len c"
  by (simp add: utf8_char_def utf8_len_def)

lemma length_utf8: "length (utf8 s) = str_len s"
  by (induction s) (simp_all add: utf8_def str_len_def length_utf8_char)

lemma utf8_of_ascii: "list_all (\<lambda>c. (of_char c :: nat) < 128) s \<Longrightarrow> utf8 (of_ascii s) = ascii s"
  by (induction s) (simp_all add: utf8_def of_ascii_def ascii_def utf8_char_def of_nat_of_char)

lemma digits_base_64: "(c :: nat) div 4096 = c div 64 div 64" "c div 262144 = c div 64 div 64 div 64"
  by (simp_all add: div_mult2_eq [symmetric])

lemma utf8_read_char:
  assumes "scalar_value c"
  shows "utf8_read (utf8_char c @ bs) = map_option ((#) c) (utf8_read bs)"
proof -
  have b: "unat (of_nat n :: u8) = n" if "n < 256" for n using that by (simp add: unat_of_nat_byte)
  define x y z where "x = c div 64" and "y = x div 64" and "z = y div 64"
  have e: "x * 64 + c mod 64 = c" "y * 64 + x mod 64 = x" "z * 64 + y mod 64 = y"
    by (simp_all add: x_def y_def z_def)
  have d: "c div 64 = x" "c div 4096 = y" "c div 262144 = z"
    by (simp_all add: digits_base_64 x_def y_def z_def)
  have "c < 0x110000" using assms by (simp add: scalar_value_def)
  then have bounds: "z < 8" "c < 0x10000 \<Longrightarrow> y < 16" "c < 0x800 \<Longrightarrow> x < 32"
    by (auto simp: x_def y_def z_def div_mult2_eq [symmetric] less_mult_imp_div_less)
  have m: "c mod 64 < 64" "x mod 64 < 64" "y mod 64 < 64" by simp_all
  have two: "utf8_read (a # b # bs) = map_option ((#) (p * 64 + q)) (utf8_read bs)"
    if "unat a = 0xC0 + p" "p < 32" "unat b = 0x80 + q" for a b p q
    using that by simp
  have three: "utf8_read (a # b # c # bs) = map_option ((#) ((p * 64 + q) * 64 + t)) (utf8_read bs)"
    if "unat a = 0xE0 + p" "p < 16" "unat b = 0x80 + q" "unat c = 0x80 + t" for a b c p q t
    using that by simp
  have four: "utf8_read (a # b # c # d # bs) = map_option ((#) (((p * 64 + q) * 64 + t) * 64 + w)) (utf8_read bs)"
    if "unat a = 0xF0 + p" "unat b = 0x80 + q" "unat c = 0x80 + t" "unat d = 0x80 + w" for a b c d p q t w
    using that by simp
  consider "c < 0x80" | "\<not> c < 0x80" "c < 0x800" | "\<not> c < 0x80" "\<not> c < 0x800" "c < 0x10000"
    | "\<not> c < 0x80" "\<not> c < 0x800" "\<not> c < 0x10000" by linarith
  then show ?thesis
  proof cases
    case 1
    then show ?thesis by (simp add: utf8_char_def b)
  next
    case 2
    have x: "x < 32" using bounds(3) 2 by simp
    have "utf8_char c = [of_nat (0xC0 + x), of_nat (0x80 + c mod 64)]"
      unfolding utf8_char_def d using 2 by (simp only: if_True if_False)
    moreover have "unat (of_nat (0xC0 + x) :: u8) = 0xC0 + x" "unat (of_nat (0x80 + c mod 64) :: u8) = 0x80 + c mod 64"
      using x m(1) by (intro b, linarith)+
    ultimately show ?thesis using two [of _ x _ "c mod 64"] x by (simp only: append.simps e)
  next
    case 3
    have y: "y < 16" using bounds(2) 3 by simp
    have "utf8_char c = [of_nat (0xE0 + y), of_nat (0x80 + x mod 64), of_nat (0x80 + c mod 64)]"
      unfolding utf8_char_def d using 3 by (simp only: if_True if_False)
    moreover have "unat (of_nat (0xE0 + y) :: u8) = 0xE0 + y" "unat (of_nat (0x80 + x mod 64) :: u8) = 0x80 + x mod 64"
      "unat (of_nat (0x80 + c mod 64) :: u8) = 0x80 + c mod 64" using y m(1,2) by (intro b, linarith)+
    ultimately show ?thesis using three [of _ y _ "x mod 64" _ "c mod 64"] y by (simp only: append.simps e)
  next
    case 4
    have "utf8_char c = [of_nat (0xF0 + z), of_nat (0x80 + y mod 64), of_nat (0x80 + x mod 64), of_nat (0x80 + c mod 64)]"
      unfolding utf8_char_def d using 4 by (simp only: if_True if_False)
    moreover have "unat (of_nat (0xF0 + z) :: u8) = 0xF0 + z" "unat (of_nat (0x80 + y mod 64) :: u8) = 0x80 + y mod 64"
      "unat (of_nat (0x80 + x mod 64) :: u8) = 0x80 + x mod 64" "unat (of_nat (0x80 + c mod 64) :: u8) = 0x80 + c mod 64"
      using bounds(1) m by (intro b, linarith)+
    ultimately show ?thesis using four [of _ z _ "y mod 64" _ "x mod 64" _ "c mod 64"] by (simp only: append.simps e)
  qed
qed

lemma utf8_read_utf8: "list_all scalar_value s \<Longrightarrow> utf8_read (utf8 s) = Some s"
  by (induction s) (simp_all add: utf8_def utf8_read_char)

subsection \<open>Values of a shape pass the structural check\<close>

text \<open>A value of the shape, nested less deeply than there is room.\<close>

fun conforms :: "nat \<Rightarrow> shape \<Rightarrow> msg \<Rightarrow> bool" where
  "conforms 0 sh v = False"
| "conforms (Suc room) sh (MArray vs) =
     (case sh of
        Any \<Rightarrow> list_all (conforms room Any) vs
      | ListOf item most \<Rightarrow> length vs \<le> most \<and> list_all (conforms room item) vs
      | _ \<Rightarrow> False)"
| "conforms (Suc room) sh (MMap kvs) =
     (case sh of
        Struct fs \<Rightarrow> list_all (\<lambda>kv. conforms room (field_shape fs (Some (utf8 (fst kv)))) (snd kv)) kvs
      | Variant fs \<Rightarrow> list_all (\<lambda>kv. conforms room (field_shape fs (Some (utf8 (fst kv)))) (snd kv)) kvs
      | _ \<Rightarrow> list_all (\<lambda>kv. conforms room Any (snd kv)) kvs)"
| "conforms (Suc room) sh v = True"

definition is_entry :: "(msg \<Rightarrow> bytes option) \<Rightarrow> utext \<times> msg \<Rightarrow> bytes \<Rightarrow> bool" where
  "is_entry emit kv p \<longleftrightarrow> (\<exists>a b. emit (MStr (fst kv)) = Some a \<and> emit (snd kv) = Some b \<and> p = a @ b)"

locale msgpack_writer =
  fixes emit :: "msg \<Rightarrow> bytes option"
  assumes write_str: "emit (MStr s) = Some bs \<Longrightarrow> rd_header (bs @ r) = Inr (Str (length (utf8 s)), utf8 s @ r)"
    and write_uint: "emit (MUint n) = Some bs \<Longrightarrow> rd_header (bs @ r) = Inr (Scalar, r)"
    and write_bin: "emit (MBin b) = Some bs \<Longrightarrow> rd_header (bs @ r) = Inr (Scalar, r)"
    and write_array: "emit (MArray vs) = Some bs \<Longrightarrow>
      \<exists>ps. list_all2 (\<lambda>v p. emit v = Some p) vs ps \<and>
        (\<forall>r. rd_header (bs @ r) = Inr (Array (length vs), concat ps @ r))"
    and write_map: "emit (MMap kvs) = Some bs \<Longrightarrow>
      \<exists>ps. list_all2 (is_entry emit) kvs ps \<and> (\<forall>r. rd_header (bs @ r) = Inr (Map (length kvs), concat ps @ r))"
begin

lemma repeat_accepts:
  assumes "list_all2 R vs ps" and "\<And>v p r. v \<in> set vs \<Longrightarrow> R v p \<Longrightarrow> f (p @ r) = Inr r"
  shows "repeat_read (length vs) f (concat ps @ r) = Inr r"
  using assms
proof (induction arbitrary: r rule: list_all2_induct)
  case (Cons v vs p ps)
  have "f (p @ (concat ps @ r)) = Inr (concat ps @ r)" using Cons.prems Cons.hyps(1) by (meson list.set_intros(1))
  moreover have "repeat_read (length vs) f (concat ps @ r) = Inr r" using Cons.prems by (intro Cons.IH) auto
  ultimately show ?case by simp
qed simp

lemma key_read:
  assumes "emit (MStr k) = Some a"
  shows "rd_key item (a @ r) = Inr (Some (utf8 k), r)"
  by (simp add: rd_key_def write_str [OF assms] rd_take_def)

lemma check_str:
  assumes "emit (MStr k) = Some a"
  shows "rd_check (Suc room) Any (a @ r) = Inr r"
  by (simp add: write_str [OF assms] rd_take_def)

theorem check_accepts:
  assumes "emit v = Some bs" and "conforms room sh v"
  shows "rd_check room sh (bs @ r) = Inr r"
  using assms
proof (induction room arbitrary: sh v bs r)
  case (Suc room)
  note IH = Suc.IH and wr = Suc.prems(1) and ok = Suc.prems(2)
  show ?case
  proof (cases v)
    case (MStr s)
    then show ?thesis using write_str [of s bs r] wr
      by (cases sh) (simp_all add: rd_take_def)
  next
    case (MUint n)
    then show ?thesis using write_uint [of n bs r] wr by (cases sh) simp_all
  next
    case (MBin b)
    then show ?thesis using write_bin [of b bs r] wr by (cases sh) simp_all
  next
    case (MArray vs)
    with wr write_array obtain ps where ps: "list_all2 (\<lambda>v p. emit v = Some p) vs ps"
      and h: "\<And>r. rd_header (bs @ r) = Inr (Array (length vs), concat ps @ r)" by blast
    have rep: "repeat_read (length vs) (\<lambda>b. rd_check room item b) (concat ps @ r) = Inr r"
      if "list_all (conforms room item) vs" for item
      using that by (intro repeat_accepts [OF ps]) (auto simp: list_all_iff intro: IH)
    show ?thesis using ok rep by (cases sh) (simp_all add: MArray h)
  next
    case (MMap kvs)
    with wr write_map obtain ps where ps: "list_all2 (is_entry emit) kvs ps"
      and h: "\<And>r. rd_header (bs @ r) = Inr (Map (length kvs), concat ps @ r)" by blast
    have rep: "repeat_read (length kvs) (\<lambda>b. bind_result (rd_key item b)
        (\<lambda>(key, b'). rd_check room (field_shape fs key) b')) (concat ps @ r) = Inr r"
      if "list_all (\<lambda>kv. conforms room (field_shape fs (Some (utf8 (fst kv)))) (snd kv)) kvs" for item fs
      using that by (intro repeat_accepts [OF ps]) (fastforce simp: list_all_iff is_entry_def key_read intro: IH)
    have skip: "repeat_read (length kvs) (\<lambda>b. bind_result (rd_check room Any b) (rd_check room Any)) (concat ps @ r) = Inr r"
      if c: "list_all (\<lambda>kv. conforms room Any (snd kv)) kvs"
      using ps
    proof (rule repeat_accepts)
      fix kv p r
      assume kv: "kv \<in> set kvs" "is_entry emit kv p"
      then obtain a b where w: "emit (MStr (fst kv)) = Some a" "emit (snd kv) = Some b" "p = a @ b"
        by (auto simp: is_entry_def)
      have cv: "conforms room Any (snd kv)" using c kv(1) by (simp add: list_all_iff)
      then obtain room' where "room = Suc room'" by (cases room) auto
      with check_str [OF w(1)] have "rd_check room Any (a @ (b @ r)) = Inr (b @ r)" by simp
      with IH [OF w(2) cv] show "bind_result (rd_check room Any (p @ r)) (rd_check room Any) = Inr r"
        by (simp add: w(3))
    qed
    show ?thesis using ok rep skip by (cases sh) (simp_all add: MMap h)
  qed
qed simp

end

subsection \<open>A writer and a reader of the specification's shortest forms\<close>

fun be_bytes :: "nat \<Rightarrow> nat \<Rightarrow> bytes" where
  "be_bytes 0 n = []"
| "be_bytes (Suc k) n = be_bytes k (n div 256) @ [of_nat n]"

datatype head = HUint | HStr | HBin | HArray | HMap

text \<open>The marker of a short value, its bound, and the markers of the sized forms.\<close>

fun short_form :: "head \<Rightarrow> nat \<times> u8" where
  "short_form HUint = (0x80, 0)"
| "short_form HStr = (0x20, 0xa0)"
| "short_form HBin = (0, 0)"
| "short_form HArray = (0x10, 0x90)"
| "short_form HMap = (0x10, 0x80)"

fun sized_forms :: "head \<Rightarrow> (u8 \<times> nat) list" where
  "sized_forms HUint = [(0xcc, 1), (0xcd, 2), (0xce, 4), (0xcf, 8)]"
| "sized_forms HStr = [(0xd9, 1), (0xda, 2), (0xdb, 4)]"
| "sized_forms HBin = [(0xc4, 1), (0xc5, 2), (0xc6, 4)]"
| "sized_forms HArray = [(0xdc, 2), (0xdd, 4)]"
| "sized_forms HMap = [(0xde, 2), (0xdf, 4)]"

definition head_bytes :: "head \<Rightarrow> nat \<Rightarrow> bytes option" where
  "head_bytes h n =
     (if n < fst (short_form h) then Some [snd (short_form h) + of_nat n]
      else map_option (\<lambda>(marker, width). marker # be_bytes width n)
             (find (\<lambda>(marker, width). n < 256 ^ width) (sized_forms h)))"

fun mp_write :: "msg \<Rightarrow> bytes option" where
  "mp_write (MStr s) = map_option (\<lambda>h. h @ utf8 s) (head_bytes HStr (length (utf8 s)))"
| "mp_write (MUint n) = head_bytes HUint n"
| "mp_write (MBin b) = map_option (\<lambda>h. h @ b) (head_bytes HBin (length b))"
| "mp_write (MArray vs) =
     (case head_bytes HArray (length vs) of
        None \<Rightarrow> None
      | Some h \<Rightarrow> map_option (\<lambda>ps. h @ concat ps) (those (map mp_write vs)))"
| "mp_write (MMap kvs) =
     (case head_bytes HMap (length kvs) of
        None \<Rightarrow> None
      | Some h \<Rightarrow> map_option (\<lambda>ps. h @ concat ps)
          (those (map (\<lambda>(k, v).
             case map_option (\<lambda>h. h @ utf8 k) (head_bytes HStr (length (utf8 k))) of
               None \<Rightarrow> None
             | Some a \<Rightarrow> map_option ((@) a) (mp_write v)) kvs)))"

definition all_heads :: "head list" where
  "all_heads = [HUint, HStr, HBin, HArray, HMap]"

definition all_forms :: "(u8 \<times> head \<times> nat) list" where
  "all_forms = concat (map (\<lambda>h. map (\<lambda>(marker, width). (marker, h, width)) (sized_forms h)) all_heads)"

definition mp_head :: "bytes \<Rightarrow> (head \<times> nat \<times> bytes) option" where
  "mp_head bs =
     (case bs of
        [] \<Rightarrow> None
      | m # rest \<Rightarrow>
          (case find (\<lambda>h. unat (snd (short_form h)) \<le> unat m \<and> unat m < unat (snd (short_form h)) + fst (short_form h)) all_heads of
             Some h \<Rightarrow> Some (h, unat m - unat (snd (short_form h)), rest)
           | None \<Rightarrow>
               (case map_of all_forms m of
                  None \<Rightarrow> None
                | Some (h, width) \<Rightarrow>
                    (case rd_uint width rest of Inl _ \<Rightarrow> None | Inr (n, rest') \<Rightarrow> Some (h, n, rest')))))"

fun read_many :: "(bytes \<Rightarrow> ('a \<times> bytes) option) \<Rightarrow> nat \<Rightarrow> bytes \<Rightarrow> ('a list \<times> bytes) option" where
  "read_many f 0 bs = Some ([], bs)"
| "read_many f (Suc n) bs =
     (case f bs of
        None \<Rightarrow> None
      | Some (x, rest) \<Rightarrow> map_option (\<lambda>(xs, rest'). (x # xs, rest')) (read_many f n rest))"

definition mp_text :: "bytes \<Rightarrow> (utext \<times> bytes) option" where
  "mp_text bs =
     (case mp_head bs of
        Some (HStr, n, rest) \<Rightarrow> map_option (\<lambda>s. (s, drop n rest)) (utf8_read (take n rest))
      | _ \<Rightarrow> None)"

fun mp_read :: "nat \<Rightarrow> bytes \<Rightarrow> (msg \<times> bytes) option" where
  "mp_read 0 bs = None"
| "mp_read (Suc room) bs =
     (case mp_head bs of
        None \<Rightarrow> None
      | Some (h, n, rest) \<Rightarrow>
          (case h of
             HUint \<Rightarrow> Some (MUint n, rest)
           | HStr \<Rightarrow> map_option (\<lambda>s. (MStr s, drop n rest)) (utf8_read (take n rest))
           | HBin \<Rightarrow> Some (MBin (take n rest), drop n rest)
           | HArray \<Rightarrow> map_option (\<lambda>(vs, rest'). (MArray vs, rest')) (read_many (mp_read room) n rest)
           | HMap \<Rightarrow> map_option (\<lambda>(kvs, rest'). (MMap kvs, rest'))
               (read_many (\<lambda>b. case mp_text b of
                   None \<Rightarrow> None
                 | Some (k, b') \<Rightarrow> map_option (\<lambda>(v, b''). ((k, v), b'')) (mp_read room b')) n rest)))"

text \<open>A value of Rust texts, nested less deeply than there is room.\<close>

fun readable :: "nat \<Rightarrow> msg \<Rightarrow> bool" where
  "readable 0 v = False"
| "readable (Suc room) (MStr s) = list_all scalar_value s"
| "readable (Suc room) (MArray vs) = list_all (readable room) vs"
| "readable (Suc room) (MMap kvs) = list_all (\<lambda>kv. list_all scalar_value (fst kv) \<and> readable room (snd kv)) kvs"
| "readable (Suc room) v = True"

lemma length_be_bytes [simp]: "length (be_bytes k n) = k"
  by (induction k arbitrary: n) simp_all

lemma or_shifted:
  assumes "unat (a :: u64) < 2 ^ 56"
  shows "unat (push_bit 8 a OR ucast (b :: u8)) = unat a * 256 + unat b"
proof -
  have "push_bit 8 a AND ucast b = 0"
    by (rule bit_eqI) (auto simp: bit_simps dest: bit_imp_le_length)
  then have "push_bit 8 a OR ucast b = push_bit 8 a + ucast b"
    by (simp add: disjunctive_add_eq_or)
  moreover have "push_bit 8 a = a * 256" by (simp add: push_bit_eq_mult)
  moreover have "unat (a * 256 + (ucast b :: u64)) = unat a * 256 + unat b"
  proof -
    have "unat b < 256" by (rule byte_less)
    then have "unat (of_nat (unat a * 256 + unat b) :: u64) = unat a * 256 + unat b"
      using assms by (simp add: unat_of_nat del: of_nat_add of_nat_mult of_nat_unat)
    moreover have "(of_nat (unat a * 256 + unat b) :: u64) = a * 256 + ucast b"
      by simp
    ultimately show ?thesis by simp
  qed
  ultimately show ?thesis by simp
qed

lemma rd_uint_be:
  assumes "n < 256 ^ k" and "k \<le> 8"
  shows "rd_uint k (be_bytes k n @ r) = Inr (n, r)"
proof -
  have "unat (foldl (\<lambda>acc b. push_bit 8 acc OR ucast b) (0 :: u64) (be_bytes k n)) = n"
    using assms
  proof (induction k arbitrary: n)
    case (Suc k)
    let ?acc = "foldl (\<lambda>acc b. push_bit 8 acc OR ucast b) (0 :: u64) (be_bytes k (n div 256))"
    have q: "n div 256 < 256 ^ k" using Suc.prems(1) by (simp add: less_mult_imp_div_less mult.commute)
    have u: "unat ?acc = n div 256" using Suc.IH [OF q] Suc.prems(2) by simp
    have "(256 :: nat) ^ k \<le> 256 ^ 7" using Suc.prems(2) by (intro power_increasing) simp_all
    with q u have "unat ?acc < 2 ^ 56" by simp
    from or_shifted [OF this, of "of_nat n"] show ?case by (simp add: u unat_of_nat_byte)
  qed simp
  then show ?thesis by (simp add: rd_uint_def rd_take_def)
qed


lemma short_str: "list_all (\<lambda>n. let m = 0xa0 + of_nat n :: u8 in
    \<not> m \<le> 0x7f \<and> \<not> m \<le> 0x8f \<and> \<not> m \<le> 0x9f \<and> m \<le> 0xbf \<and> unat (m AND 0x1f) = n) [0..<0x20]"
  by code_simp

lemma short_array: "list_all (\<lambda>n. let m = 0x90 + of_nat n :: u8 in
    \<not> m \<le> 0x7f \<and> \<not> m \<le> 0x8f \<and> m \<le> 0x9f \<and> unat (m AND 0x0f) = n) [0..<0x10]"
  by code_simp

lemma short_map: "list_all (\<lambda>n. let m = 0x80 + of_nat n :: u8 in
    \<not> m \<le> 0x7f \<and> m \<le> 0x8f \<and> unat (m AND 0x0f) = n) [0..<0x10]"
  by code_simp

definition header_of :: "head \<Rightarrow> nat \<Rightarrow> bytes \<Rightarrow> (manifest_error, header \<times> bytes) result" where
  "header_of h n r = (case h of
      HUint \<Rightarrow> Inr (Scalar, r) | HStr \<Rightarrow> Inr (Str n, r) | HBin \<Rightarrow> rd_skip n r
    | HArray \<Rightarrow> Inr (Array n, r) | HMap \<Rightarrow> Inr (Map n, r))"

lemma rd_header_short:
  assumes "n < fst (short_form h)"
  shows "rd_header ((snd (short_form h) + of_nat n) # r) = header_of h n r"
proof (cases h)
  case HUint
  with assms have "(of_nat n :: u8) \<le> 0x7f" by (simp add: word_le_nat_alt unat_of_nat_byte)
  then show ?thesis by (simp add: HUint rd_header_def rd_take_def header_of_def)
next
  case HStr
  with assms have "n \<in> set [0..<0x20]" by simp
  with short_str [unfolded list_all_iff] show ?thesis
    by (simp add: HStr rd_header_def rd_take_def header_of_def Let_def del: set_upt)
next
  case HArray
  with assms have "n \<in> set [0..<0x10]" by simp
  with short_array [unfolded list_all_iff] show ?thesis
    by (simp add: HArray rd_header_def rd_take_def header_of_def Let_def del: set_upt)
next
  case HMap
  with assms have "n \<in> set [0..<0x10]" by simp
  with short_map [unfolded list_all_iff] show ?thesis
    by (simp add: HMap rd_header_def rd_take_def header_of_def Let_def del: set_upt)
qed (use assms in simp)

lemma rd_uint_skip: "n < 256 ^ k \<Longrightarrow> k \<le> 8 \<Longrightarrow> rd_skip k (be_bytes k n @ r) = Inr (Scalar, r)"
  by (simp add: rd_skip_def rd_take_def)

lemma rd_header_sized:
  assumes "(marker, width) \<in> set (sized_forms h)" and "n < 256 ^ width"
  shows "rd_header (marker # be_bytes width n @ r) = header_of h n r"
proof -
  have w: "width \<le> 8" using assms(1) by (cases h) auto
  have small: "n < 2 ^ 64"
    using assms(2) power_increasing [OF w, of "256 :: nat"] by simp
  note read = rd_uint_be [OF assms(2) w] and skip = rd_uint_skip [OF assms(2) w]
  have sat: "sat_add 0 n = n" using small by (simp add: sat_add_def usize_max_def)
  show ?thesis
  proof (cases h)
    case HUint
    with assms(1) consider "marker = 0xcc \<and> width = 1" | "marker = 0xcd \<and> width = 2" | "marker = 0xce \<and> width = 4"
      | "marker = 0xcf \<and> width = 8" by auto
    then show ?thesis using skip by cases (simp_all add: HUint rd_header_def rd_take_def header_of_def)
  next
    case HStr
    with assms(1) consider "marker = 0xd9 \<and> width = 1" | "marker = 0xda \<and> width = 2" | "marker = 0xdb \<and> width = 4" by auto
    then show ?thesis using read by cases (simp_all add: HStr rd_header_def rd_take_def header_of_def rd_sized_def)
  next
    case HBin
    with assms(1) consider "marker = 0xc4 \<and> width = 1" | "marker = 0xc5 \<and> width = 2" | "marker = 0xc6 \<and> width = 4" by auto
    then show ?thesis using read by cases (simp_all add: HBin rd_header_def rd_take_def header_of_def rd_blob_def sat)
  next
    case HArray
    with assms(1) consider "marker = 0xdc \<and> width = 2" | "marker = 0xdd \<and> width = 4" by auto
    then show ?thesis using read by cases (simp_all add: HArray rd_header_def rd_take_def header_of_def rd_sized_def)
  next
    case HMap
    with assms(1) consider "marker = 0xde \<and> width = 2" | "marker = 0xdf \<and> width = 4" by auto
    then show ?thesis using read by cases (simp_all add: HMap rd_header_def rd_take_def header_of_def rd_sized_def)
  qed
qed

lemma rd_header_head:
  assumes "head_bytes h n = Some bs"
  shows "rd_header (bs @ r) = header_of h n r"
proof (cases "n < fst (short_form h)")
  case True
  with assms rd_header_short [OF True] show ?thesis by (auto simp: head_bytes_def)
next
  case False
  with assms obtain marker width where f: "find (\<lambda>(marker, width). n < 256 ^ width) (sized_forms h) = Some (marker, width)"
    and bs: "bs = marker # be_bytes width n" by (auto simp: head_bytes_def)
  from f have "(marker, width) \<in> set (sized_forms h)" "n < 256 ^ width"
    by (auto simp: find_Some_iff dest: nth_mem)
  then show ?thesis using rd_header_sized by (simp add: bs)
qed

lemma those_Some: "those xs = Some ys \<longleftrightarrow> xs = map Some ys"
proof (induction xs arbitrary: ys)
  case (Cons x xs)
  then show ?case by (cases x; cases ys) auto
qed auto

lemma those_map_Some: "those (map f xs) = Some ys \<longleftrightarrow> list_all2 (\<lambda>x y. f x = Some y) xs ys"
  unfolding those_Some by (induction xs arbitrary: ys) (auto simp: list_all2_Cons1 Cons_eq_map_conv)

lemma mp_write_map:
  assumes "mp_write (MMap kvs) = Some bs"
  obtains h ps where "head_bytes HMap (length kvs) = Some h" "list_all2 (is_entry mp_write) kvs ps" "bs = h @ concat ps"
proof -
  define entry where "entry = (\<lambda>(k, v). case map_option (\<lambda>h. h @ utf8 k) (head_bytes HStr (length (utf8 k))) of
      None \<Rightarrow> None | Some a \<Rightarrow> map_option ((@) a) (mp_write v))"
  have e: "is_entry mp_write kv p" if "entry kv = Some p" for kv p
    using that by (cases kv) (auto simp: entry_def is_entry_def split: option.splits)
  from assms obtain h ps where "head_bytes HMap (length kvs) = Some h" "those (map entry kvs) = Some ps" "bs = h @ concat ps"
    by (auto simp: entry_def split: option.splits)
  moreover from this(2) have "list_all2 (is_entry mp_write) kvs ps"
    unfolding those_map_Some by (rule list_all2_mono) (rule e)
  ultimately show ?thesis using that by blast
qed

interpretation mp: msgpack_writer mp_write
proof
  fix s bs r assume "mp_write (MStr s) = Some bs"
  then show "rd_header (bs @ r) = Inr (Str (length (utf8 s)), utf8 s @ r)"
    by (auto simp: rd_header_head header_of_def)
next
  fix n bs r assume "mp_write (MUint n) = Some bs"
  then show "rd_header (bs @ r) = Inr (Scalar, r)" by (simp add: rd_header_head header_of_def)
next
  fix b bs r assume "mp_write (MBin b) = Some bs"
  then show "rd_header (bs @ r) = Inr (Scalar, r)" by (auto simp: rd_header_head header_of_def rd_skip_def rd_take_def)
next
  fix vs bs assume "mp_write (MArray vs) = Some bs"
  then obtain h ps where "head_bytes HArray (length vs) = Some h" "those (map mp_write vs) = Some ps" "bs = h @ concat ps"
    by (auto split: option.splits)
  then show "\<exists>ps. list_all2 (\<lambda>v p. mp_write v = Some p) vs ps \<and>
      (\<forall>r. rd_header (bs @ r) = Inr (Array (length vs), concat ps @ r))"
    by (auto simp: rd_header_head header_of_def those_map_Some)
next
  fix kvs bs assume "mp_write (MMap kvs) = Some bs"
  then show "\<exists>ps. list_all2 (is_entry mp_write) kvs ps \<and> (\<forall>r. rd_header (bs @ r) = Inr (Map (length kvs), concat ps @ r))"
    by (rule mp_write_map) (auto simp: rd_header_head header_of_def)
qed

lemma mp_head_head:
  assumes "head_bytes h n = Some bs"
  shows "mp_head (bs @ r) = Some (h, n, r)"
proof (cases "n < fst (short_form h)")
  case True
  then have bs: "bs = [snd (short_form h) + of_nat n]" using assms by (simp add: head_bytes_def)
  have "n < 256" using True by (cases h) simp_all
  then have u: "unat (snd (short_form h) + of_nat n :: u8) = unat (snd (short_form h)) + n"
    using True by (cases h) (simp_all add: unat_word_ariths unat_of_nat_byte)
  show ?thesis unfolding bs using True u by (cases h) (simp_all add: mp_head_def all_heads_def)
next
  case False
  with assms obtain marker width where f: "find (\<lambda>(marker, width). n < 256 ^ width) (sized_forms h) = Some (marker, width)"
    and bs: "bs = marker # be_bytes width n" by (auto simp: head_bytes_def)
  from f have m: "(marker, width) \<in> set (sized_forms h)" "n < 256 ^ width"
    by (auto simp: find_Some_iff dest: nth_mem)
  then have "width \<le> 8" by (cases h) auto
  note u = rd_uint_be [OF m(2) this]
  show ?thesis using m(1) u unfolding bs
    by (cases h) (auto simp: mp_head_def all_heads_def all_forms_def)
qed

lemma read_many_parts:
  assumes "list_all2 R vs ps" and "\<And>v p r. v \<in> set vs \<Longrightarrow> R v p \<Longrightarrow> f (p @ r) = Some (v, r)"
  shows "read_many f (length vs) (concat ps @ r) = Some (vs, r)"
  using assms
proof (induction arbitrary: r rule: list_all2_induct)
  case (Cons v vs p ps)
  have "f (p @ (concat ps @ r)) = Some (v, concat ps @ r)" using Cons.prems Cons.hyps(1) by (meson list.set_intros(1))
  moreover have "read_many f (length vs) (concat ps @ r) = Some (vs, r)" using Cons.prems by (intro Cons.IH) auto
  ultimately show ?case by simp
qed simp

lemma mp_text_write: "mp_write (MStr k) = Some a \<Longrightarrow> list_all scalar_value k \<Longrightarrow> mp_text (a @ r) = Some (k, r)"
  by (auto simp: mp_text_def mp_head_head utf8_read_utf8)

theorem mp_read_write:
  assumes "mp_write v = Some bs" and "readable room v"
  shows "mp_read room (bs @ r) = Some (v, r)"
  using assms
proof (induction room arbitrary: v bs r)
  case (Suc room)
  note IH = Suc.IH and wr = Suc.prems(1) and ok = Suc.prems(2)
  show ?case
  proof (cases v)
    case (MArray vs)
    with wr obtain h ps where "head_bytes HArray (length vs) = Some h" "list_all2 (\<lambda>v p. mp_write v = Some p) vs ps"
      "bs = h @ concat ps" by (auto simp: those_map_Some split: option.splits)
    moreover have "read_many (mp_read room) (length vs) (concat ps @ r) = Some (vs, r)"
      using ok MArray by (intro read_many_parts [OF calculation(2)]) (auto simp: list_all_iff intro: IH)
    ultimately show ?thesis by (simp add: MArray mp_head_head)
  next
    case (MMap kvs)
    from wr MMap have "mp_write (MMap kvs) = Some bs" by simp
    then obtain h ps where ps: "head_bytes HMap (length kvs) = Some h" "list_all2 (is_entry mp_write) kvs ps" "bs = h @ concat ps"
      by (rule mp_write_map)
    let ?f = "\<lambda>b. case mp_text b of None \<Rightarrow> None | Some (k, b') \<Rightarrow> map_option (\<lambda>(v, b''). ((k, v), b'')) (mp_read room b')"
    have "read_many ?f (length kvs) (concat ps @ r) = Some (kvs, r)"
      using ps(2)
    proof (rule read_many_parts)
      fix kv p r assume kv: "kv \<in> set kvs" "is_entry mp_write kv p"
      obtain k v where k: "kv = (k, v)" by fastforce
      with kv(2) obtain a b where w: "mp_write (MStr k) = Some a" "mp_write v = Some b" "p = a @ b"
        unfolding is_entry_def by auto
      from ok MMap kv(1) k have "list_all scalar_value k" "readable room v" by (auto simp: list_all_iff)
      with mp_text_write [OF w(1), of "b @ r"] IH [OF w(2), of r] show "?f (p @ r) = Some (kv, r)" by (simp add: w(3) k)
    qed
    with ps show ?thesis by (simp add: MMap mp_head_head)
  qed (use wr ok in \<open>auto simp: mp_head_head utf8_read_utf8\<close>)
qed simp

end
