(* ===== verification/Manifest_Doc.thy ===== *)
theory Manifest_Doc
  imports Msgpack
begin

text \<open>
  File manifests, \<^verbatim>\<open>ant-core/src/data/manifest/mod.rs\<close>: the document, torrent references,
  the identity of an entry, validation, the canonical order and the byte form. A manifest is
  polymorphic in what it embeds: a DataMap of \<^verbatim>\<open>self_encryption\<close> in memory, and the fields
  of \<open>data_map_out\<close> at the serde boundary, where \<open>Wire\<close> turns one into the other.
  \<open>doc_msg\<close> is the value a manifest is written as, the schema of
  \<^verbatim>\<open>docs/adr/ADR-0006-file-manifests-and-links.md\<close>.

  The operations of other crates are the fields of \<open>doc_env\<close>: the DataMap, its shrinking and
  serialisation, the chunk address, Unicode, hex digits, and the msgpack serialiser and typed
  deserialiser. Rust orders texts by their UTF-8 bytes, which is the order of the code points.
\<close>

definition MANIFEST_MAGIC :: bytes where "MANIFEST_MAGIC = [0xC1, 0x41, 0x4E, 0x54]"
definition MANIFEST_FORMAT_VERSION :: u8 where "MANIFEST_FORMAT_VERSION = 1"
definition MANIFEST_HEADER_LEN :: nat where "MANIFEST_HEADER_LEN = length MANIFEST_MAGIC + 1"
definition MAX_MANIFEST_BYTES :: nat where "MAX_MANIFEST_BYTES = 64 * 1024 * 1024"
definition ADDRESS_LEN :: nat where "ADDRESS_LEN = 32"
definition MAX_EMBEDDED_ROOT_MAP_BYTES :: nat where "MAX_EMBEDDED_ROOT_MAP_BYTES = 64 * 1024"
definition MAX_PUBLISHED_MAP_CHUNKS :: nat where "MAX_PUBLISHED_MAP_CHUNKS = 3"
definition TORRENT_INFO_HASH_V1_LEN :: nat where "TORRENT_INFO_HASH_V1_LEN = 20"
definition TORRENT_INFO_HASH_V2_LEN :: nat where "TORRENT_INFO_HASH_V2_LEN = 32"
definition SHA256_LEN :: nat where "SHA256_LEN = 32"

subsection \<open>The document\<close>

record torrent_reference =
  info_hash_v1 :: "bytes option"
  info_hash_v2 :: "bytes option"

datatype 'm content_ref = Embedded 'm | Public key

record 'm manifest_entry =
  me_path :: "utext option"
  me_size :: "nat option"
  me_sha256 :: "bytes option"
  me_source :: "'m content_ref"

record 'm manifest =
  mf_name :: "utext option"
  mf_torrent :: "torrent_reference option"
  mf_entries :: "'m manifest_entry list"

record 'm doc_env =
  de_map :: "'m data_map_api"
  de_shrink :: "'m \<Rightarrow> 'm option"
  de_to_vec :: "'m \<Rightarrow> bytes option"
  de_address :: "bytes \<Rightarrow> key"
  de_nfc :: "utext \<Rightarrow> utext"
  de_upper :: "utext \<Rightarrow> utext"
  de_lower :: "utext \<Rightarrow> utext"
  de_hex :: "bytes \<Rightarrow> utext"
  de_unhex :: "utext \<Rightarrow> bytes option"
  de_emit :: "msg \<Rightarrow> bytes option"
  de_parse :: "nat \<Rightarrow> bytes \<Rightarrow> data_map_out manifest option"

definition new_manifest :: "utext option \<Rightarrow> 'm manifest" where
  "new_manifest name = \<lparr>mf_name = name, mf_torrent = None, mf_entries = []\<rparr>"

subsection \<open>Torrent references\<close>

definition torrent_is_empty :: "torrent_reference \<Rightarrow> bool" where
  "torrent_is_empty t \<longleftrightarrow> info_hash_v1 t = None \<and> info_hash_v2 t = None"

text \<open>\<^verbatim>\<open>str::trim\<close>: the code points with Unicode's White\_Space property.\<close>

definition is_whitespace :: "nat \<Rightarrow> bool" where
  "is_whitespace c \<longleftrightarrow> (9 \<le> c \<and> c \<le> 13) \<or> c = 0x20 \<or> c = 0x85 \<or> c = 0xA0 \<or> c = 0x1680 \<or>
     (0x2000 \<le> c \<and> c \<le> 0x200A) \<or> c = 0x2028 \<or> c = 0x2029 \<or> c = 0x202F \<or> c = 0x205F \<or> c = 0x3000"

definition trim_text :: "utext \<Rightarrow> utext" where
  "trim_text s = trim_end_matches is_whitespace (dropWhile is_whitespace s)"

definition parse_hex :: "'m doc_env \<Rightarrow> utext \<Rightarrow> (manifest_error, torrent_reference) result" where
  "parse_hex env hex_str =
     bind_result (ok_or (de_unhex env (trim_text hex_str)) InvalidTorrentHash)
       (\<lambda>bs. if length bs = TORRENT_INFO_HASH_V1_LEN then Inr \<lparr>info_hash_v1 = Some bs, info_hash_v2 = None\<rparr>
             else if length bs = TORRENT_INFO_HASH_V2_LEN then Inr \<lparr>info_hash_v1 = None, info_hash_v2 = Some bs\<rparr>
             else Inl InvalidTorrentHash)"

fun pick :: "bytes option \<Rightarrow> bytes option \<Rightarrow> (manifest_error, bytes option) result" where
  "pick (Some x) (Some y) = (if x \<noteq> y then Inl InvalidTorrentHash else Inr (Some x))"
| "pick (Some x) None = Inr (Some x)"
| "pick None y = Inr y"

definition torrent_merge ::
  "torrent_reference \<Rightarrow> torrent_reference \<Rightarrow> (manifest_error, torrent_reference) result" where
  "torrent_merge t other =
     bind_result (pick (info_hash_v1 t) (info_hash_v1 other))
       (\<lambda>v1. bind_result (pick (info_hash_v2 t) (info_hash_v2 other))
         (\<lambda>v2. Inr \<lparr>info_hash_v1 = v1, info_hash_v2 = v2\<rparr>))"

subsection \<open>Identity\<close>

definition is_child :: "'m doc_env \<Rightarrow> 'm \<Rightarrow> bool" where
  "is_child env data_map \<longleftrightarrow> dm_child (de_map env) data_map \<noteq> None"

definition published_data_map :: "'m doc_env \<Rightarrow> 'm \<Rightarrow> (manifest_error, 'm) result" where
  "published_data_map env data_map = ok_or (de_shrink env data_map) Encode"

definition data_map_address :: "'m doc_env \<Rightarrow> 'm \<Rightarrow> (manifest_error, key) result" where
  "data_map_address env data_map =
     bind_result (published_data_map env data_map)
       (\<lambda>published. bind_result (ok_or (de_to_vec env published) Encode) (\<lambda>bs. Inr (de_address env bs)))"

definition content_address :: "'m doc_env \<Rightarrow> 'm content_ref \<Rightarrow> (manifest_error, key) result" where
  "content_address env source =
     (case source of Public address \<Rightarrow> Inr address | Embedded data_map \<Rightarrow> data_map_address env data_map)"

fun checked_sum :: "nat \<Rightarrow> nat option list \<Rightarrow> nat option" where
  "checked_sum acc [] = Some acc"
| "checked_sum acc (None # xs) = None"
| "checked_sum acc (Some x # xs) = (if 2 ^ 64 \<le> acc + x then None else checked_sum (acc + x) xs)"

definition known_size :: "'m doc_env \<Rightarrow> 'm manifest_entry \<Rightarrow> nat option" where
  "known_size env entry =
     (case me_source entry of
        Embedded data_map \<Rightarrow>
          if is_child env data_map then None
          else checked_sum 0 (map (\<lambda>info. Some (ci_src_size info)) (dm_infos (de_map env) data_map))
      | Public _ \<Rightarrow> None)"

definition effective_name_with :: "'m doc_env \<Rightarrow> 'm manifest_entry \<Rightarrow> key \<Rightarrow> utext" where
  "effective_name_with env entry address =
     (case me_path entry of Some path \<Rightarrow> path | None \<Rightarrow> de_hex env address)"

definition effective_name :: "'m doc_env \<Rightarrow> 'm manifest_entry \<Rightarrow> (manifest_error, utext) result" where
  "effective_name env entry =
     (case me_path entry of
        Some path \<Rightarrow> Inr path
      | None \<Rightarrow> bind_result (content_address env (me_source entry))
          (\<lambda>address. Inr (effective_name_with env entry address)))"

definition total_size :: "'m manifest \<Rightarrow> nat option" where
  "total_size m = checked_sum 0 (map me_size (mf_entries m))"

subsection \<open>Validation and the canonical order\<close>

definition entry_name :: "'m doc_env \<Rightarrow> 'm manifest_entry \<Rightarrow> (manifest_error, utext) result" where
  "entry_name env entry =
     bind_result
       (case me_path entry of
          Some p \<Rightarrow> map_err (InvalidPath p) (validate_path p)
        | None \<Rightarrow> Inr ())
       (\<lambda>_. effective_name env entry)"

definition validated_names :: "'m doc_env \<Rightarrow> 'm manifest \<Rightarrow> (manifest_error, utext list) result" where
  "validated_names env m =
     (if MAX_MANIFEST_ENTRIES < length (mf_entries m)
      then Inl (TooManyEntries (length (mf_entries m)) MAX_MANIFEST_ENTRIES)
      else bind_result
        (case mf_name m of Some name \<Rightarrow> map_err InvalidName (validate_component name) | None \<Rightarrow> Inr ())
        (\<lambda>_. if (case mf_torrent m of Some t \<Rightarrow> torrent_is_empty t | None \<Rightarrow> False) then Inl InvalidTorrentHash
             else bind_result (collect_result (entry_name env) (mf_entries m))
               (\<lambda>names. bind_result
                  (map_err Conflict (check_collisions (de_nfc env) (de_upper env) (de_lower env) names))
                  (\<lambda>_. Inr names))))"

definition validate :: "'m doc_env \<Rightarrow> 'm manifest \<Rightarrow> (manifest_error, unit) result" where
  "validate env m = bind_result (validated_names env m) (\<lambda>_. Inr ())"

definition canonicalize :: "'m doc_env \<Rightarrow> 'm manifest \<Rightarrow> (manifest_error, 'm manifest) result" where
  "canonicalize env m =
     bind_result (validated_names env m)
       (\<lambda>names. Inr (m\<lparr>mf_entries := map snd (sort_key fst (zip names (mf_entries m)))\<rparr>))"

subsection \<open>The byte form\<close>

text \<open>A manifest with what it embeds replaced; the first failure fails the whole.\<close>

definition on_source :: "('m \<Rightarrow> (manifest_error, 'n) result) \<Rightarrow> 'm content_ref \<Rightarrow> (manifest_error, 'n content_ref) result" where
  "on_source f source =
     (case source of
        Embedded data_map \<Rightarrow> bind_result (f data_map) (\<lambda>n. Inr (Embedded n))
      | Public address \<Rightarrow> Inr (Public address))"

definition on_entry :: "('m \<Rightarrow> (manifest_error, 'n) result) \<Rightarrow> 'm manifest_entry \<Rightarrow> (manifest_error, 'n manifest_entry) result" where
  "on_entry f e =
     bind_result (on_source f (me_source e))
       (\<lambda>source. Inr \<lparr>me_path = me_path e, me_size = me_size e, me_sha256 = me_sha256 e, me_source = source\<rparr>)"

definition on_maps :: "('m \<Rightarrow> (manifest_error, 'n) result) \<Rightarrow> 'm manifest \<Rightarrow> (manifest_error, 'n manifest) result" where
  "on_maps f m =
     bind_result (collect_result (on_entry f) (mf_entries m))
       (\<lambda>es. Inr \<lparr>mf_name = mf_name m, mf_torrent = mf_torrent m, mf_entries = es\<rparr>)"

text \<open>An optional field is omitted when it is absent.\<close>

definition field :: "string \<Rightarrow> ('a \<Rightarrow> msg) \<Rightarrow> 'a option \<Rightarrow> (utext \<times> msg) list" where
  "field key f x = (case x of None \<Rightarrow> [] | Some v \<Rightarrow> [(of_ascii key, f v)])"

definition map_msg :: "data_map_out \<Rightarrow> msg" where
  "map_msg out = MMap (field ''chunks'' MBin (Some (out_chunks out)) @ field ''child'' MUint (out_child out))"

definition source_msg :: "data_map_out content_ref \<Rightarrow> msg" where
  "source_msg source =
     (case source of
        Embedded out \<Rightarrow> MMap (field ''Embedded'' (\<lambda>out. MMap (field ''data_map'' map_msg (Some out))) (Some out))
      | Public address \<Rightarrow> MMap (field ''Public'' (\<lambda>a. MMap (field ''address'' MBin (Some a))) (Some address)))"

definition entry_msg :: "data_map_out manifest_entry \<Rightarrow> msg" where
  "entry_msg e =
     MMap (field ''path'' MStr (me_path e) @ field ''size'' MUint (me_size e) @
           field ''sha256'' MBin (me_sha256 e) @ field ''source'' source_msg (Some (me_source e)))"

definition torrent_msg :: "torrent_reference \<Rightarrow> msg" where
  "torrent_msg t = MMap (field ''info_hash_v1'' MBin (info_hash_v1 t) @ field ''info_hash_v2'' MBin (info_hash_v2 t))"

definition doc_msg :: "data_map_out manifest \<Rightarrow> msg" where
  "doc_msg m =
     MMap (field ''name'' MStr (mf_name m) @ field ''torrent'' torrent_msg (mf_torrent m) @
           field ''entries'' (\<lambda>es. MArray (map entry_msg es)) (Some (mf_entries m)))"

definition embedded_len :: "'m doc_env \<Rightarrow> 'm \<Rightarrow> (manifest_error, nat) result" where
  "embedded_len env data_map =
     bind_result (wire_serialize (de_map env) data_map)
       (\<lambda>out. bind_result (ok_or (de_emit env (map_msg out)) Encode) (\<lambda>bs. Inr (length bs)))"

definition is_embeddable :: "'m doc_env \<Rightarrow> 'm \<Rightarrow> (manifest_error, bool) result" where
  "is_embeddable env data_map =
     (if is_child env data_map then Inr (length (dm_infos (de_map env) data_map) \<le> MAX_PUBLISHED_MAP_CHUNKS)
      else bind_result (embedded_len env data_map) (\<lambda>n. Inr (n \<le> MAX_EMBEDDED_ROOT_MAP_BYTES)))"

definition link_form :: "'m doc_env \<Rightarrow> 'm manifest \<Rightarrow> (manifest_error, 'm manifest) result" where
  "link_form env m = on_maps (published_data_map env) m"

definition encode_canonical :: "'m doc_env \<Rightarrow> 'm manifest \<Rightarrow> (manifest_error, bytes) result" where
  "encode_canonical env m =
     bind_result (on_maps (wire_serialize (de_map env)) m)
       (\<lambda>out. bind_result (ok_or (de_emit env (doc_msg out)) Encode)
         (\<lambda>body. let bs = MANIFEST_MAGIC @ [MANIFEST_FORMAT_VERSION] @ body
                 in if MAX_MANIFEST_BYTES < length bs then Inl (TooLarge (length bs) MAX_MANIFEST_BYTES) else Inr bs))"

definition encode :: "'m doc_env \<Rightarrow> 'm manifest \<Rightarrow> (manifest_error, bytes) result" where
  "encode env m = bind_result (canonicalize env m) (encode_canonical env)"

definition decode :: "'m doc_env \<Rightarrow> bytes \<Rightarrow> (manifest_error, 'm manifest) result" where
  "decode env bs =
     (if MAX_MANIFEST_BYTES < length bs then Inl (TooLarge (length bs) MAX_MANIFEST_BYTES)
      else if length bs < MANIFEST_HEADER_LEN \<or> take (length MANIFEST_MAGIC) bs \<noteq> MANIFEST_MAGIC then Inl BadHeader
      else let version = bs ! length MANIFEST_MAGIC; body = drop MANIFEST_HEADER_LEN bs
           in if version \<noteq> MANIFEST_FORMAT_VERSION then Inl (UnsupportedVersion version)
              else bind_result (check_structure body)
                (\<lambda>_. bind_result (ok_or (de_parse env MAX_DECODE_DEPTH body) Decode)
                  (\<lambda>out. bind_result (on_maps (wire_deserialize (de_map env)) out)
                    (\<lambda>m. bind_result (validate env m) (\<lambda>_. Inr m)))))"

definition has_magic :: "bytes \<Rightarrow> bool" where
  "has_magic bs \<longleftrightarrow> take (length MANIFEST_MAGIC) bs = MANIFEST_MAGIC"

subsection \<open>The value of a manifest has the shape the decoder checks\<close>

lemma utf8_names:
  "utf8 (of_ascii ''torrent'') = ascii ''torrent''" "utf8 (of_ascii ''entries'') = ascii ''entries''"
  "utf8 (of_ascii ''source'') = ascii ''source''" "utf8 (of_ascii ''Embedded'') = ascii ''Embedded''"
  "utf8 (of_ascii ''Public'') = ascii ''Public''" "utf8 (of_ascii ''data_map'') = ascii ''data_map''"
  "utf8 (of_ascii ''name'') = ascii ''name''" "utf8 (of_ascii ''path'') = ascii ''path''"
  "utf8 (of_ascii ''size'') = ascii ''size''" "utf8 (of_ascii ''sha256'') = ascii ''sha256''"
  by (rule utf8_of_ascii, simp)+

lemma unat_of_char: "unat (of_char c :: u8) = of_char c"
  by (metis of_char_mod_256 of_nat_of_char unat_of_nat_byte)

lemma ascii_eq: "ascii s = ascii t \<longleftrightarrow> s = t"
proof -
  have "inj (of_char :: char \<Rightarrow> u8)"
    by (rule injI) (metis of_char_eq_iff unat_of_char)
  then show ?thesis by (simp add: ascii_def inj_map_eq_map)
qed

lemma conforms_leaf: "conforms (Suc room) sh (MBin b)" "conforms (Suc room) sh (MUint n)" "conforms (Suc room) sh (MStr t)"
  by simp_all

lemma list_all_field: "list_all P (field key f x) \<longleftrightarrow> (\<forall>v. x = Some v \<longrightarrow> P (of_ascii key, f v))"
  by (cases x) (simp_all add: field_def)

lemma conforms_torrent: "conforms (Suc (Suc room)) (Struct []) (torrent_msg t)"
  by (simp add: torrent_msg_def list_all_field)

lemma conforms_map: "conforms (Suc (Suc room)) (Struct []) (map_msg out)"
  by (simp add: map_msg_def list_all_field)

lemma conforms_source:
  "conforms (Suc (Suc (Suc (Suc room))))
     (Variant [(ascii ''Embedded'', Struct [(ascii ''data_map'', Struct [])]), (ascii ''Public'', Struct [])]) (source_msg source)"
  using conforms_map
  by (cases source) (simp_all add: source_msg_def list_all_field field_shape_def utf8_names ascii_eq del: conforms.simps(2))

lemma conforms_entry: "conforms (Suc (Suc (Suc (Suc (Suc room))))) ENTRY (entry_msg e)"
  using conforms_source
  by (simp add: ENTRY_def entry_msg_def list_all_field field_shape_def utf8_names ascii_eq)

lemma conforms_doc:
  assumes "length (mf_entries m) \<le> MAX_MANIFEST_ENTRIES"
  shows "conforms (Suc (Suc (Suc (Suc (Suc (Suc (Suc room))))))) MANIFEST (doc_msg m)"
  using assms conforms_entry conforms_torrent
  by (simp add: MANIFEST_def doc_msg_def list_all_field field_shape_def utf8_names ascii_eq list.pred_map comp_def list.pred_True)

lemma check_structure_doc:
  assumes "msgpack_writer emit" and "emit (doc_msg m) = Some bs" and "length (mf_entries m) \<le> MAX_MANIFEST_ENTRIES"
  shows "check_structure bs = Inr ()"
proof -
  have "conforms (MAX_DECODE_DEPTH + 1) MANIFEST (doc_msg m)"
    using conforms_doc [OF assms(3), of 10] by (simp only: MAX_DECODE_DEPTH_def) simp
  from msgpack_writer.check_accepts [OF assms(1,2) this, of "[]"] show ?thesis
    by (simp add: check_structure_def)
qed

subsection \<open>Validation does not depend on the order of the entries\<close>

definition is_ok :: "('e, 'a) result \<Rightarrow> bool" where
  "is_ok r \<longleftrightarrow> (\<exists>x. r = Inr x)"

lemma collect_result_is_ok:
  "collect_result f xs = Inr ys \<longleftrightarrow> (\<forall>x \<in> set xs. is_ok (f x)) \<and> ys = map (\<lambda>x. projr (f x)) xs"
  by (induction xs arbitrary: ys) (auto simp: results is_ok_def)

definition collision_free :: "'m doc_env \<Rightarrow> utext list \<Rightarrow> bool" where
  "collision_free env names \<longleftrightarrow> check_collisions (de_nfc env) (de_upper env) (de_lower env) names = Inr ()"

lemma collision_free_iff:
  "collision_free env names \<longleftrightarrow>
     distinct (map (fold_path (de_nfc env) (de_upper env) (de_lower env)) names) \<and>
     \<not> (\<exists>dir file rest. dir \<in> set names \<and> file \<in> set names \<and>
            fold_path (de_nfc env) (de_upper env) (de_lower env) file =
            fold_path (de_nfc env) (de_upper env) (de_lower env) dir @ PATH_SEPARATOR # rest)"
  unfolding collision_free_def by (rule check_collisions_exact)

lemma collision_free_sub:
  assumes "collision_free env names" and "mset names' \<subseteq># mset names"
  shows "collision_free env names'"
proof -
  let ?f = "fold_path (de_nfc env) (de_upper env) (de_lower env)"
  obtain others where "mset names = mset (names' @ others)"
    using assms(2) by (metis ex_mset mset_append mset_subset_eq_exists_conv)
  then have "mset (map ?f names) = mset (map ?f (names' @ others))" by (metis mset_map)
  moreover have "distinct (map ?f names)" using assms(1) unfolding collision_free_iff by blast
  ultimately have "distinct (map ?f (names' @ others))" by (metis mset_eq_imp_distinct_iff)
  then have "distinct (map ?f names')" by simp
  moreover have "set names' \<subseteq> set names" using assms(2) by (metis set_mset_mono set_mset_mset)
  ultimately show ?thesis using assms(1) unfolding collision_free_iff by blast
qed

lemma collision_free_distinct: "collision_free env names \<Longrightarrow> distinct names"
  by (auto simp: collision_free_iff distinct_map)

definition name_of :: "'m doc_env \<Rightarrow> 'm manifest_entry \<Rightarrow> utext" where
  "name_of env e = projr (entry_name env e)"

text \<open>A valid manifest: what \<open>validate\<close> accepts.\<close>

definition valid :: "'m doc_env \<Rightarrow> 'm manifest \<Rightarrow> bool" where
  "valid env m \<longleftrightarrow>
     length (mf_entries m) \<le> MAX_MANIFEST_ENTRIES \<and>
     (\<forall>name. mf_name m = Some name \<longrightarrow> validate_component name = Inr ()) \<and>
     (\<forall>t. mf_torrent m = Some t \<longrightarrow> \<not> torrent_is_empty t) \<and>
     (\<forall>e \<in> set (mf_entries m). is_ok (entry_name env e)) \<and>
     collision_free env (map (name_of env) (mf_entries m))"

lemma validated_names_iff:
  "validated_names env m = Inr names \<longleftrightarrow> valid env m \<and> names = map (name_of env) (mf_entries m)"
  by (cases "mf_name m"; cases "mf_torrent m")
    (auto simp: validated_names_def valid_def collision_free_def name_of_def [abs_def] results collect_result_is_ok not_less
      simp del: collect_result_Inr_iff split: if_splits)

lemma validate_iff: "validate env m = Inr () \<longleftrightarrow> valid env m"
  by (auto simp: validate_def results validated_names_iff)

lemma zip_map_self: "zip (map g xs) xs = map (\<lambda>x. (g x, x)) xs"
  by (induction xs) simp_all

lemma sort_key_decorated: "map snd (sort_key fst (map (\<lambda>x. (g x, x)) xs)) = sort_key g xs"
proof -
  have "insort_key fst (g x, x) (map (\<lambda>x. (g x, x)) ys) = map (\<lambda>x. (g x, x)) (insort_key g x ys)" for x ys
    by (induction ys) simp_all
  then have "sort_key fst (map (\<lambda>x. (g x, x)) xs) = map (\<lambda>x. (g x, x)) (sort_key g xs)"
    by (induction xs) (simp_all add: sort_key_simps)
  then show ?thesis by (simp add: comp_def)
qed

lemma canonicalize_iff:
  "canonicalize env m = Inr c \<longleftrightarrow>
     valid env m \<and> c = m\<lparr>mf_entries := sort_key (name_of env) (mf_entries m)\<rparr>"
  by (auto simp: canonicalize_def results validated_names_iff zip_map_self sort_key_decorated)

lemma valid_permuted:
  assumes "valid env m" and "mset es = mset (mf_entries m)"
  shows "valid env (m\<lparr>mf_entries := es\<rparr>)"
proof -
  have "set es = set (mf_entries m)" "length es = length (mf_entries m)"
    using assms(2) by (metis set_mset_mset, metis size_mset)
  moreover have "mset (map (name_of env) es) \<subseteq># mset (map (name_of env) (mf_entries m))"
    using assms(2) by simp
  then have "collision_free env (map (name_of env) es)"
    by (rule collision_free_sub [rotated]) (use assms(1) in \<open>simp add: valid_def\<close>)
  ultimately show ?thesis using assms(1) by (simp add: valid_def)
qed

lemma valid_canonical: "canonicalize env m = Inr c \<Longrightarrow> valid env c"
  using valid_permuted [of env m "sort_key (name_of env) (mf_entries m)"] by (auto simp: canonicalize_iff)

lemma effective_name_ok: "is_ok (entry_name env e) \<Longrightarrow> effective_name env e = Inr (name_of env e)"
  by (auto simp: is_ok_def name_of_def entry_name_def results)

subsection \<open>Encoding and decoding\<close>

text \<open>
  Rust's types of a manifest at the serde boundary: texts of Unicode scalar values, arrays of
  their length, 64-bit sizes.
\<close>

definition has_len :: "nat \<Rightarrow> bytes option \<Rightarrow> bool" where
  "has_len n b \<longleftrightarrow> (case b of None \<Rightarrow> True | Some x \<Rightarrow> length x = n)"

definition typed_text :: "utext option \<Rightarrow> bool" where
  "typed_text t \<longleftrightarrow> (case t of None \<Rightarrow> True | Some s \<Rightarrow> list_all scalar_value s)"

definition typed_entry :: "('m \<Rightarrow> bool) \<Rightarrow> 'm manifest_entry \<Rightarrow> bool" where
  "typed_entry ok e \<longleftrightarrow>
     typed_text (me_path e) \<and> (case me_size e of None \<Rightarrow> True | Some n \<Rightarrow> n < 2 ^ 64) \<and>
     has_len SHA256_LEN (me_sha256 e) \<and>
     (case me_source e of Embedded m \<Rightarrow> ok m | Public a \<Rightarrow> length a = ADDRESS_LEN)"

definition typed :: "('m \<Rightarrow> bool) \<Rightarrow> 'm manifest \<Rightarrow> bool" where
  "typed ok m \<longleftrightarrow>
     typed_text (mf_name m) \<and>
     (case mf_torrent m of None \<Rightarrow> True
      | Some t \<Rightarrow> has_len TORRENT_INFO_HASH_V1_LEN (info_hash_v1 t) \<and> has_len TORRENT_INFO_HASH_V2_LEN (info_hash_v2 t)) \<and>
     list_all (typed_entry ok) (mf_entries m)"

definition typed_out :: "data_map_out \<Rightarrow> bool" where
  "typed_out out \<longleftrightarrow> (case out_child out of None \<Rightarrow> True | Some n \<Rightarrow> n < 2 ^ 64)"

text \<open>
  The typed deserialiser reads back what the serialiser wrote, and a DataMap is its chunk
  list, of hashes of thirty-two bytes, and its child level.
\<close>

definition reads_back :: "'m doc_env \<Rightarrow> bool" where
  "reads_back env \<longleftrightarrow> (\<forall>out bs. typed typed_out out \<longrightarrow> de_emit env (doc_msg out) = Some bs \<longrightarrow>
     de_parse env MAX_DECODE_DEPTH bs = Some out)"

definition is_data_map :: "'m data_map_api \<Rightarrow> 'm \<Rightarrow> bool" where
  "is_data_map api m \<longleftrightarrow> hashes_ok (dm_infos api m) \<and> dm_make api (dm_infos api m) (dm_child api m) = m"

lemma on_source_inverse:
  assumes "on_source f x = Inr y" and "\<And>m n. x = Embedded m \<Longrightarrow> f m = Inr n \<Longrightarrow> g n = Inr m"
  shows "on_source g y = Inr x"
  using assms by (auto simp: on_source_def results split: content_ref.splits)

lemma on_entry_inverse:
  assumes "on_entry f x = Inr y" and "\<And>m n. me_source x = Embedded m \<Longrightarrow> f m = Inr n \<Longrightarrow> g n = Inr m"
  shows "on_entry g y = Inr x"
  using assms on_source_inverse [of f "me_source x" _ g] by (auto simp: on_entry_def results)

lemma collect_inverse:
  assumes "collect_result f xs = Inr ys" and "\<And>x y. x \<in> set xs \<Longrightarrow> f x = Inr y \<Longrightarrow> g y = Inr x"
  shows "collect_result g ys = Inr xs"
  using assms by (induction xs arbitrary: ys) (auto simp: results list_all2_Cons1)

lemma on_maps_inverse:
  assumes "on_maps f x = Inr y"
    and "\<And>e m n. e \<in> set (mf_entries x) \<Longrightarrow> me_source e = Embedded m \<Longrightarrow> f m = Inr n \<Longrightarrow> g n = Inr m"
  shows "on_maps g y = Inr x"
proof -
  from assms(1) obtain es where es: "collect_result (on_entry f) (mf_entries x) = Inr es"
    and y: "y = \<lparr>mf_name = mf_name x, mf_torrent = mf_torrent x, mf_entries = es\<rparr>"
    unfolding on_maps_def bind_result_Inr_iff by blast
  have "collect_result (on_entry g) es = Inr (mf_entries x)"
    using es by (rule collect_inverse) (metis assms(2) on_entry_inverse)
  then show ?thesis by (simp add: on_maps_def y)
qed

lemma on_maps_typed:
  assumes "on_maps f x = Inr y" and "typed ok x" and "\<And>m n. ok m \<Longrightarrow> f m = Inr n \<Longrightarrow> ok' n"
  shows "typed ok' y"
proof -
  have "typed_entry ok' e'" if "on_entry f e = Inr e'" "typed_entry ok e" for e e'
    using that assms(3) by (auto simp: on_entry_def on_source_def typed_entry_def results split: content_ref.splits)
  then have "list_all (typed_entry ok') es'" if "list_all2 (\<lambda>e e'. on_entry f e = Inr e') es es'" "list_all (typed_entry ok) es"
    for es es' using that by (auto simp: list_all2_conv_all_nth list_all_length)
  with assms(1,2) show ?thesis by (auto simp: on_maps_def typed_def results)
qed

lemma on_maps_length: "on_maps f x = Inr y \<Longrightarrow> length (mf_entries y) = length (mf_entries x)"
  by (auto simp: on_maps_def results dest: list_all2_lengthD)

lemma decode_encoded:
  assumes "msgpack_writer (de_emit env)" and "reads_back env" and "valid env m"
    and "typed (is_data_map (de_map env)) m" and "encode_canonical env m = Inr bs"
  shows "decode env bs = Inr m"
proof -
  from assms(5) obtain out body where out: "on_maps (wire_serialize (de_map env)) m = Inr out"
    and body: "de_emit env (doc_msg out) = Some body"
    and bs: "bs = MANIFEST_MAGIC @ [MANIFEST_FORMAT_VERSION] @ body" and len: "length bs \<le> MAX_MANIFEST_BYTES"
    by (auto simp: encode_canonical_def results Let_def not_less split: if_splits)
  have "length (mf_entries out) \<le> MAX_MANIFEST_ENTRIES"
    using assms(3) on_maps_length [OF out] by (simp add: valid_def)
  with assms(1) body have shaped: "check_structure body = Inr ()" by (rule check_structure_doc)
  have "typed typed_out out"
    using out assms(4)
    by (rule on_maps_typed) (auto simp: wire_serialize_def typed_out_def results split: if_splits option.splits)
  with assms(2) body have parsed: "de_parse env MAX_DECODE_DEPTH body = Some out" by (simp add: reads_back_def)
  have maps: "on_maps (wire_deserialize (de_map env)) out = Inr m"
    using out
  proof (rule on_maps_inverse)
    fix e x n
    assume e: "e \<in> set (mf_entries m)" "me_source e = Embedded x" and n: "wire_serialize (de_map env) x = Inr n"
    from assms(4) e have "is_data_map (de_map env) x" by (fastforce simp: typed_def typed_entry_def list_all_iff)
    with n show "wire_deserialize (de_map env) n = Inr x" unfolding is_data_map_def by (blast intro: wire_round_trip)
  qed
  have head: "take (length MANIFEST_MAGIC) bs = MANIFEST_MAGIC" "bs ! length MANIFEST_MAGIC = MANIFEST_FORMAT_VERSION"
    "drop MANIFEST_HEADER_LEN bs = body" "\<not> length bs < MANIFEST_HEADER_LEN"
    by (simp_all add: bs MANIFEST_HEADER_LEN_def nth_append)
  show ?thesis
    using len assms(3) by (simp add: decode_def head shaped parsed maps validate_iff [symmetric])
qed

text \<open>
  C7: what a manifest is encoded to, it is decoded from. Decoding the bytes of any manifest
  that encodes gives that manifest in its canonical order: the same name, the same torrent
  reference and the same entries, sorted by their effective names, which are distinct. So the
  encoder writes nothing that the decoder's structural check, its limits or its validation
  reject.
\<close>

theorem manifest_bytes_round_trip:
  assumes "msgpack_writer (de_emit env)" and "reads_back env"
    and "typed (is_data_map (de_map env)) m" and "encode env m = Inr bs"
  shows "\<exists>c names. decode env bs = Inr c \<and> mf_name c = mf_name m \<and> mf_torrent c = mf_torrent m \<and>
    mset (mf_entries c) = mset (mf_entries m) \<and>
    collect_result (effective_name env) (mf_entries c) = Inr names \<and> sorted names \<and> distinct names"
proof -
  from assms(4) obtain c where can: "canonicalize env m = Inr c" and enc: "encode_canonical env c = Inr bs"
    by (auto simp: encode_def results)
  then have c: "c = m\<lparr>mf_entries := sort_key (name_of env) (mf_entries m)\<rparr>" "valid env c"
    using valid_canonical by (auto simp: canonicalize_iff)
  have "typed (is_data_map (de_map env)) c" using assms(3) by (simp add: c(1) typed_def list_all_iff)
  with assms(1,2) c(2) enc have "decode env bs = Inr c" by (intro decode_encoded)
  moreover have "collect_result (effective_name env) (mf_entries c) = Inr (map (name_of env) (mf_entries c))"
    using c(2) by (intro collect_result_all_ok effective_name_ok) (simp add: valid_def)
  moreover have "sorted (map (name_of env) (mf_entries c))" by (simp add: c(1))
  moreover have "distinct (map (name_of env) (mf_entries c))"
    using c(2) collision_free_distinct by (auto simp: valid_def)
  ultimately show ?thesis by (auto simp: c(1))
qed

text \<open>
  The bytes of a manifest do not depend on the order in which its entries were
  collected, so that the same files give the same link.
\<close>

theorem encoding_ignores_entry_order:
  assumes "encode env m = Inr bs" and "mset es = mset (mf_entries m)"
  shows "encode env (m\<lparr>mf_entries := es\<rparr>) = Inr bs"
proof -
  from assms(1) obtain c where can: "canonicalize env m = Inr c" and enc: "encode_canonical env c = Inr bs"
    by (auto simp: encode_def results)
  then have v: "valid env m" and c: "c = m\<lparr>mf_entries := sort_key (name_of env) (mf_entries m)\<rparr>"
    by (auto simp: canonicalize_iff)
  have "distinct (map (name_of env) (mf_entries m))" using v collision_free_distinct by (auto simp: valid_def)
  then have "inj_on (name_of env) (set es)" using assms(2) by (metis distinct_map set_mset_mset)
  then have "sort_key (name_of env) es = sort_key (name_of env) (mf_entries m)"
    using assms(2) by (intro sort_key_inj_key_eq) simp_all
  then have "canonicalize env (m\<lparr>mf_entries := es\<rparr>) = Inr c"
    using valid_permuted [OF v assms(2)] by (simp add: canonicalize_iff c)
  then show ?thesis by (simp add: encode_def enc)
qed

subsection \<open>A concrete environment\<close>

text \<open>
  DataMaps as their chunk lists, hex digits written out, and the msgpack reader and writer of
  \<open>Msgpack\<close>, with a deserialiser of the schema.
\<close>

definition opt_field :: "string \<Rightarrow> (msg \<Rightarrow> 'a option) \<Rightarrow> (utext \<times> msg) list \<Rightarrow> 'a option option" where
  "opt_field key f fs =
     (case map_of fs (of_ascii key) of None \<Rightarrow> Some None | Some v \<Rightarrow> map_option Some (f v))"

definition req_field :: "string \<Rightarrow> (msg \<Rightarrow> 'a option) \<Rightarrow> (utext \<times> msg) list \<Rightarrow> 'a option" where
  "req_field key f fs = (case map_of fs (of_ascii key) of None \<Rightarrow> None | Some v \<Rightarrow> f v)"

fun as_bin :: "msg \<Rightarrow> bytes option" where "as_bin (MBin b) = Some b" | "as_bin _ = None"
fun as_uint :: "msg \<Rightarrow> nat option" where "as_uint (MUint n) = Some n" | "as_uint _ = None"
fun as_str :: "msg \<Rightarrow> utext option" where "as_str (MStr t) = Some t" | "as_str _ = None"
fun as_map :: "msg \<Rightarrow> (utext \<times> msg) list option" where "as_map (MMap kvs) = Some kvs" | "as_map _ = None"
fun as_array :: "msg \<Rightarrow> msg list option" where "as_array (MArray vs) = Some vs" | "as_array _ = None"

definition read_map :: "msg \<Rightarrow> data_map_out option" where
  "read_map v = Option.bind (as_map v) (\<lambda>fs.
     Option.bind (req_field ''chunks'' as_bin fs) (\<lambda>chunks.
     Option.bind (opt_field ''child'' as_uint fs) (\<lambda>child. Some \<lparr>out_chunks = chunks, out_child = child\<rparr>)))"

definition read_source :: "msg \<Rightarrow> data_map_out content_ref option" where
  "read_source v = Option.bind (as_map v) (\<lambda>fs.
     Option.bind (opt_field ''Embedded'' as_map fs) (\<lambda>e. case e of
         Some es \<Rightarrow> map_option Embedded (req_field ''data_map'' read_map es)
       | None \<Rightarrow> Option.bind (req_field ''Public'' as_map fs) (\<lambda>ps. map_option Public (req_field ''address'' as_bin ps))))"

definition read_entry :: "msg \<Rightarrow> data_map_out manifest_entry option" where
  "read_entry v = Option.bind (as_map v) (\<lambda>fs.
     Option.bind (opt_field ''path'' as_str fs) (\<lambda>path. Option.bind (opt_field ''size'' as_uint fs) (\<lambda>n.
     Option.bind (opt_field ''sha256'' as_bin fs) (\<lambda>sha. Option.bind (req_field ''source'' read_source fs) (\<lambda>source.
       Some \<lparr>me_path = path, me_size = n, me_sha256 = sha, me_source = source\<rparr>)))))"

definition read_torrent :: "msg \<Rightarrow> torrent_reference option" where
  "read_torrent v = Option.bind (as_map v) (\<lambda>fs.
     Option.bind (opt_field ''info_hash_v1'' as_bin fs) (\<lambda>v1. Option.bind (opt_field ''info_hash_v2'' as_bin fs) (\<lambda>v2.
       Some \<lparr>info_hash_v1 = v1, info_hash_v2 = v2\<rparr>)))"

definition read_doc :: "msg \<Rightarrow> data_map_out manifest option" where
  "read_doc v = Option.bind (as_map v) (\<lambda>fs.
     Option.bind (opt_field ''name'' as_str fs) (\<lambda>name. Option.bind (opt_field ''torrent'' read_torrent fs) (\<lambda>t.
     Option.bind (req_field ''entries'' as_array fs) (\<lambda>vs. Option.bind (those (map read_entry vs)) (\<lambda>es.
       Some \<lparr>mf_name = name, mf_torrent = t, mf_entries = es\<rparr>)))))"

definition hex_char :: "nat \<Rightarrow> nat" where
  "hex_char d = (if d < 10 then 0x30 + d else 0x57 + d)"

definition hex_text :: "bytes \<Rightarrow> utext" where
  "hex_text bs = concat (map (\<lambda>b. [hex_char (unat b div 16), hex_char (unat b mod 16)]) bs)"

definition hex_value :: "nat \<Rightarrow> nat option" where
  "hex_value c =
     (if 0x30 \<le> c \<and> c \<le> 0x39 then Some (c - 0x30) else if 0x61 \<le> c \<and> c \<le> 0x66 then Some (c - 0x57)
      else if 0x41 \<le> c \<and> c \<le> 0x46 then Some (c - 0x37) else None)"

fun unhex_text :: "utext \<Rightarrow> bytes option" where
  "unhex_text [] = Some []"
| "unhex_text [c] = None"
| "unhex_text (c # d # cs) =
     Option.bind (hex_value c) (\<lambda>x. Option.bind (hex_value d) (\<lambda>y. map_option ((#) (of_nat (x * 16 + y))) (unhex_text cs)))"

definition plain_env :: "(chunk_info list \<times> nat option) doc_env" where
  "plain_env = \<lparr>de_map = plain_map_api, de_shrink = (\<lambda>(infos, child). Some (if length infos \<le> 3 then (infos, child) else (take 3 infos, Some 0))),
     de_to_vec = (\<lambda>m. map_option (\<lambda>cs. cs) (case encode_records 0 (fst m) of Inr cs \<Rightarrow> Some cs | Inl _ \<Rightarrow> None)),
     de_address = (\<lambda>bs. take 32 (bs @ replicate 32 0)), de_nfc = (\<lambda>t. t), de_upper = (\<lambda>t. t),
     de_lower = map to_ascii_lowercase, de_hex = hex_text, de_unhex = unhex_text, de_emit = mp_write,
     de_parse = (\<lambda>depth bs. Option.bind (mp_read depth bs) (\<lambda>(v, _). read_doc v))\<rparr>"

lemma of_ascii_eq: "of_ascii s = of_ascii t \<longleftrightarrow> s = t"
  by (simp add: of_ascii_def inj_map_eq_map inj_of_char)

lemma map_of_field: "map_of (field key f x) k = (if k = of_ascii key then map_option f x else None)"
  by (cases x) (simp_all add: field_def)

lemmas read_fields = opt_field_def req_field_def map_of_append map_add_def map_of_field of_ascii_eq

lemma read_map_msg: "read_map (map_msg out) = Some out"
  by (cases "out_child out") (simp_all add: read_map_def map_msg_def read_fields)

lemma read_source_msg: "read_source (source_msg x) = Some x"
  by (cases x) (simp_all add: read_source_def source_msg_def read_fields read_map_msg)

lemma read_entry_msg: "read_entry (entry_msg e) = Some e"
  by (cases "me_path e"; cases "me_size e"; cases "me_sha256 e")
    (simp_all add: read_entry_def entry_msg_def read_fields read_source_msg)

lemma read_torrent_msg: "read_torrent (torrent_msg t) = Some t"
  by (cases "info_hash_v1 t"; cases "info_hash_v2 t") (simp_all add: read_torrent_def torrent_msg_def read_fields)

lemma read_doc_msg: "read_doc (doc_msg m) = Some m"
proof -
  have "those (map read_entry (map entry_msg es)) = Some es" for es
    by (simp add: those_map_Some read_entry_msg list_all2_same list.rel_map(1))
  then show ?thesis
    by (cases "mf_name m"; cases "mf_torrent m") (simp_all add: read_doc_def doc_msg_def read_fields read_torrent_msg)
qed

definition demo_manifest :: "(chunk_info list \<times> nat option) manifest" where
  "demo_manifest = \<lparr>mf_name = Some (of_ascii ''r''), mf_torrent = None, mf_entries =
     [\<lparr>me_path = Some (of_ascii ''b/c''), me_size = Some 5, me_sha256 = None, me_source = Public (replicate 32 17)\<rparr>,
      \<lparr>me_path = Some (of_ascii ''a''), me_size = None, me_sha256 = None,
       me_source = Embedded ([\<lparr>ci_index = 0, ci_dst_hash = replicate 32 34, ci_src_hash = replicate 32 51,
         ci_src_size = 258\<rparr>], None)\<rparr>]\<rparr>"

lemma ascii_scalars: "list_all scalar_value (of_ascii s)"
proof -
  have "scalar_value (of_char c)" for c
  proof -
    have "(of_char c :: nat) < 256" using of_char_mod_256 [of c] by (metis mod_less_divisor zero_less_numeral)
    then show ?thesis unfolding scalar_value_def by linarith
  qed
  then show ?thesis by (simp add: of_ascii_def list_all_iff)
qed

lemma readable_field:
  "list_all (\<lambda>kv. list_all scalar_value (fst kv) \<and> readable room (snd kv)) (field key f x) \<longleftrightarrow>
     (\<forall>v. x = Some v \<longrightarrow> readable room (f v))"
  by (cases x) (simp_all add: field_def ascii_scalars)

lemma readable_map: "readable (Suc (Suc room)) (map_msg out)"
  by (simp add: map_msg_def readable_field)

lemma readable_source: "readable (Suc (Suc (Suc (Suc room)))) (source_msg x)"
  using readable_map by (cases x) (simp_all add: source_msg_def readable_field)

lemma readable_entry: "typed_text (me_path e) \<Longrightarrow> readable (Suc (Suc (Suc (Suc (Suc room))))) (entry_msg e)"
  using readable_source by (auto simp: entry_msg_def typed_text_def readable_field)

lemma readable_doc:
  assumes "typed ok m"
  shows "readable (Suc (Suc (Suc (Suc (Suc (Suc (Suc room))))))) (doc_msg m)"
proof -
  have "list_all (readable (Suc (Suc (Suc (Suc (Suc room)))))) (map entry_msg (mf_entries m))"
    using assms readable_entry by (auto simp: typed_def typed_entry_def list_all_iff)
  moreover have "readable (Suc (Suc (Suc (Suc (Suc (Suc room)))))) (torrent_msg t)" for t
    by (simp add: torrent_msg_def readable_field)
  ultimately show ?thesis using assms by (auto simp: doc_msg_def typed_def typed_text_def readable_field)
qed

lemma plain_reads_back: "reads_back plain_env"
  unfolding reads_back_def
proof (intro allI impI)
  fix out bs assume t: "typed typed_out out" and "de_emit plain_env (doc_msg out) = Some bs"
  then have "mp_write (doc_msg out) = Some bs" by (simp add: plain_env_def)
  from mp_read_write [OF this, of MAX_DECODE_DEPTH "[]"] readable_doc [OF t, of 9]
  show "de_parse plain_env MAX_DECODE_DEPTH bs = Some out"
    by (simp add: plain_env_def MAX_DECODE_DEPTH_def eval_nat_numeral read_doc_msg del: readable.simps mp_read.simps)
qed

lemma demo_paths:
  "validate_path (of_ascii ''b/c'') = Inr ()" "validate_path (of_ascii ''a'') = Inr ()"
  "validate_component (of_ascii ''r'') = Inr ()"
  by code_simp+

lemma demo_collisions:
  "check_collisions (\<lambda>t. t) (\<lambda>t. t) (map to_ascii_lowercase) [of_ascii ''b/c'', of_ascii ''a''] = Inr ()"
  by code_simp

lemma demo_valid: "valid plain_env demo_manifest"
  using demo_paths demo_collisions
  by (simp add: valid_def demo_manifest_def name_of_def entry_name_def effective_name_def collision_free_def
      MAX_MANIFEST_ENTRIES_def is_ok_def plain_env_def)

lemma demo_sorted: "sort_key (name_of plain_env) (mf_entries demo_manifest) = rev (mf_entries demo_manifest)"
  using demo_paths
  by (simp add: demo_manifest_def name_of_def entry_name_def effective_name_def of_ascii_def)

lemma demo_encodes: "\<exists>bs. encode plain_env demo_manifest = Inr bs"
proof -
  have c: "canonicalize plain_env demo_manifest = Inr (demo_manifest\<lparr>mf_entries := rev (mf_entries demo_manifest)\<rparr>)"
    by (simp add: canonicalize_iff demo_sorted demo_valid)
  have "\<exists>bs. encode_canonical plain_env (demo_manifest\<lparr>mf_entries := rev (mf_entries demo_manifest)\<rparr>) = Inr bs"
    by (simp add: encode_canonical_def demo_manifest_def on_maps_def on_entry_def on_source_def plain_env_def plain_map_api_def
        wire_serialize_def u32_to_be_bytes_def doc_msg_def field_def entry_msg_def source_msg_def map_msg_def
        head_bytes_def utf8_names length_utf8 str_len_def utf8_len_def of_ascii_def MANIFEST_MAGIC_def MAX_MANIFEST_BYTES_def)
  then show ?thesis by (simp add: encode_def c)
qed

lemma demo_typed: "typed (is_data_map (de_map plain_env)) demo_manifest"
  by (simp add: demo_manifest_def typed_def typed_entry_def typed_text_def has_len_def ascii_scalars ADDRESS_LEN_def
      is_data_map_def plain_env_def plain_map_api_def hashes_ok_def HASH_LEN_def)

lemma plain_writer: "msgpack_writer (de_emit plain_env)"
  using mp.msgpack_writer_axioms by (simp add: plain_env_def)

theorem manifest_bytes_round_trip_witness:
  "\<exists>bs c names. encode plain_env demo_manifest = Inr bs \<and> decode plain_env bs = Inr c \<and> mf_name c = Some (of_ascii ''r'') \<and>
     mset (mf_entries c) = mset (mf_entries demo_manifest) \<and>
     collect_result (effective_name plain_env) (mf_entries c) = Inr names \<and> sorted names \<and> distinct names"
proof -
  obtain bs where bs: "encode plain_env demo_manifest = Inr bs" using demo_encodes by blast
  have "mf_name demo_manifest = Some (of_ascii ''r'')" by (simp add: demo_manifest_def)
  with manifest_bytes_round_trip [OF plain_writer plain_reads_back demo_typed bs] bs show ?thesis by auto
qed

theorem encoding_ignores_entry_order_witness:
  "\<exists>bs. encode plain_env demo_manifest = Inr bs \<and>
     encode plain_env (demo_manifest\<lparr>mf_entries := rev (mf_entries demo_manifest)\<rparr>) = Inr bs"
proof -
  obtain bs where bs: "encode plain_env demo_manifest = Inr bs" using demo_encodes by blast
  with encoding_ignores_entry_order [OF bs, of "rev (mf_entries demo_manifest)"] show ?thesis by auto
qed

end
