(* ===== verification/Manifest_Links.thy ===== *)
theory Manifest_Links
  imports Manifest_Doc
begin

text \<open>
  How manifests travel: \<^verbatim>\<open>ant-core/src/data/manifest/link.rs\<close> (links),
  \<^verbatim>\<open>file.rs\<close> (files), \<^verbatim>\<open>embed.rs\<close> (the choice of the embedded map) and
  \<^verbatim>\<open>compact.rs\<close> (replacing embedded maps by public addresses). The \<^verbatim>\<open>base64\<close> crate is
  the record \<open>base64_api\<close>. A client call is an operation on a state of any type; the world of a
  publication adds the list of the maps it asked the client to store, which is what is paid.
\<close>

subsection \<open>Links\<close>

definition LINK_SCHEME :: utext where "LINK_SCHEME = of_ascii ''ant://''"
definition MANIFEST_AUTHORITY :: utext where "MANIFEST_AUTHORITY = of_ascii ''manifest''"
definition MANIFEST_LINK_PREFIX :: utext where "MANIFEST_LINK_PREFIX = of_ascii ''ant://manifest/''"
definition FILE_LINK_TERMINATORS :: "nat list" where "FILE_LINK_TERMINATORS = [0x2F, 0x3F, 0x23]"
definition ADDRESS_HEX_LEN :: nat where "ADDRESS_HEX_LEN = ADDRESS_LEN * 2"

datatype 'm link = LinkFile key | LinkManifest "'m manifest"

record base64_api =
  b64_encode :: "bytes \<Rightarrow> utext"
  b64_decode_slice :: "utext \<Rightarrow> nat \<Rightarrow> bytes option"

text \<open>The text before and after a byte position, if that is a character boundary.\<close>

fun split_at_byte :: "nat \<Rightarrow> utext \<Rightarrow> (utext \<times> utext) option" where
  "split_at_byte 0 s = Some ([], s)"
| "split_at_byte (Suc n) [] = None"
| "split_at_byte (Suc n) (c # s) =
     (if utf8_len c \<le> Suc n then map_option (\<lambda>(a, b). (c # a, b)) (split_at_byte (Suc n - utf8_len c) s) else None)"

definition is_link :: "utext \<Rightarrow> bool" where
  "is_link inp =
     (case split_at_byte (str_len LINK_SCHEME) inp of
        Some (prefix, _) \<Rightarrow> eq_ignore_ascii_case prefix LINK_SCHEME
      | None \<Rightarrow> False)"

definition after_scheme :: "utext \<Rightarrow> utext" where
  "after_scheme inp = (case split_at_byte (str_len LINK_SCHEME) inp of Some (_, rest) \<Rightarrow> rest | None \<Rightarrow> [])"

definition parse_address :: "'m doc_env \<Rightarrow> utext \<Rightarrow> (manifest_error, key) result" where
  "parse_address env hex_str =
     (if str_len hex_str \<noteq> ADDRESS_HEX_LEN then Inl Link else ok_or (de_unhex env hex_str) Link)"

definition manifest_payload_len :: "nat \<Rightarrow> nat \<Rightarrow> (manifest_error, nat) result" where
  "manifest_payload_len encoded_len most =
     (let rem = encoded_len mod 4
      in if rem = 1 then Inl Link
         else let groups = encoded_len div 4 * 3; n = groups + rem * 3 div 4
              in if 2 ^ 64 \<le> groups \<or> 2 ^ 64 \<le> n then Inl Link
                 else if most < n then Inl (TooLarge n most) else Inr n)"

definition decode_manifest_payload :: "base64_api \<Rightarrow> utext \<Rightarrow> nat \<Rightarrow> (manifest_error, bytes) result" where
  "decode_manifest_payload b64 payload most =
     bind_result (manifest_payload_len (str_len payload) most)
       (\<lambda>n. ok_or (b64_decode_slice b64 payload n) Link)"

definition parse_link :: "'m doc_env \<Rightarrow> base64_api \<Rightarrow> utext \<Rightarrow> (manifest_error, 'm link) result" where
  "parse_link env b64 input =
     (let inp = trim_text input
      in if \<not> is_link inp then bind_result (parse_address env inp) (\<lambda>a. Inr (LinkFile a))
         else let rest = after_scheme inp;
                  authority = takeWhile (\<lambda>c. c \<notin> set FILE_LINK_TERMINATORS) rest;
                  remainder = dropWhile (\<lambda>c. c \<notin> set FILE_LINK_TERMINATORS) rest
              in if eq_ignore_ascii_case authority MANIFEST_AUTHORITY then
                   (case remainder of
                      c # payload \<Rightarrow>
                        if c = 0x2F then
                          bind_result (decode_manifest_payload b64 payload MAX_MANIFEST_BYTES)
                            (\<lambda>bs. bind_result (decode env bs) (\<lambda>m. Inr (LinkManifest m)))
                        else Inl Link
                    | [] \<Rightarrow> Inl Link)
                 else if remainder \<noteq> [] then Inl Link
                 else bind_result (parse_address env authority) (\<lambda>a. Inr (LinkFile a)))"

definition file_link :: "'m doc_env \<Rightarrow> key \<Rightarrow> utext" where
  "file_link env address = LINK_SCHEME @ de_hex env address"

definition manifest_link_bytes :: "'m doc_env \<Rightarrow> 'm manifest \<Rightarrow> (manifest_error, bytes) result" where
  "manifest_link_bytes env m = bind_result (link_form env m) (encode env)"

definition manifest_link_from_bytes :: "base64_api \<Rightarrow> bytes \<Rightarrow> utext" where
  "manifest_link_from_bytes b64 bs = MANIFEST_LINK_PREFIX @ b64_encode b64 bs"

definition manifest_link :: "'m doc_env \<Rightarrow> base64_api \<Rightarrow> 'm manifest \<Rightarrow> (manifest_error, utext) result" where
  "manifest_link env b64 m =
     bind_result (manifest_link_bytes env m) (\<lambda>bs. Inr (manifest_link_from_bytes b64 bs))"

subsection \<open>Files\<close>

definition manifest_filename_for :: "utext option \<Rightarrow> utext" where
  "manifest_filename_for name =
     (case name of Some n \<Rightarrow> n | None \<Rightarrow> of_ascii ''manifest'') @ of_ascii ''.'' @ of_ascii ''ant''"

text \<open>
  Which of the system calls of a write succeed. A temporary file that is not persisted is
  removed when it is dropped, so a failed write leaves the files as they were.
\<close>

record write_faults =
  wf_create_dir :: bool
  wf_tempfile :: bool
  wf_write_all :: bool
  wf_sync_all :: bool
  wf_persist :: bool

definition write_manifest_file ::
  "'m doc_env \<Rightarrow> write_faults \<Rightarrow> ('p \<rightharpoonup> bytes) \<Rightarrow> 'p \<Rightarrow> 'm manifest \<Rightarrow> bool \<Rightarrow>
     (manifest_error, unit) result \<times> ('p \<rightharpoonup> bytes)" where
  "write_manifest_file env faults files path m overwrite =
     (case encode env m of
        Inl e \<Rightarrow> (Inl e, files)
      | Inr bs \<Rightarrow>
          if wf_create_dir faults \<or> wf_tempfile faults \<or> wf_write_all faults \<or> wf_sync_all faults then (Inl Io, files)
          else if \<not> overwrite \<and> files path \<noteq> None then (Inl Io, files)
          else if wf_persist faults then (Inl Io, files)
          else (Inr (), files(path \<mapsto> bs)))"

definition read_manifest_file :: "'m doc_env \<Rightarrow> ('p \<rightharpoonup> bytes) \<Rightarrow> 'p \<Rightarrow> (manifest_error, 'm manifest) result" where
  "read_manifest_file env files path =
     (case files path of
        None \<Rightarrow> Inl Io
      | Some bs \<Rightarrow>
          if MAX_MANIFEST_BYTES < length bs then Inl (TooLarge (length bs) MAX_MANIFEST_BYTES) else decode env bs)"

subsection \<open>Embedding\<close>

definition embeddable_data_map ::
  "'m doc_env \<Rightarrow> ('m \<Rightarrow> ('s, error, 'm) op) \<Rightarrow> 'm \<Rightarrow> ('s, manifest_error, 'm) op" where
  "embeddable_data_map env resolve_root data_map s =
     (if \<not> is_child env data_map then (Inr data_map, s)
      else case resolve_root data_map s of
        (Inl e, s') \<Rightarrow> (Inl (Data e), s')
      | (Inr root, s') \<Rightarrow>
          (bind_result (is_embeddable env root) (\<lambda>ok. Inr (if ok then root else data_map)), s'))"

subsection \<open>Compaction\<close>

record embedded_entry =
  ee_index :: nat
  ee_name :: utext
  ee_address :: key

record compact_plan =
  cp_already_public :: "embedded_entry list"
  cp_needs_publish :: "embedded_entry list"

definition is_free :: "compact_plan \<Rightarrow> bool" where
  "is_free plan \<longleftrightarrow> cp_needs_publish plan = []"

definition all_indices :: "compact_plan \<Rightarrow> nat set" where
  "all_indices plan = set (map ee_index (cp_already_public plan @ cp_needs_publish plan))"

fun embedded_entries :: "'m doc_env \<Rightarrow> nat \<Rightarrow> 'm manifest_entry list \<Rightarrow> (manifest_error, embedded_entry list) result" where
  "embedded_entries env i [] = Inr []"
| "embedded_entries env i (e # es) =
     (case me_source e of
        Embedded _ \<Rightarrow>
          bind_result (effective_name env e) (\<lambda>name.
          bind_result (content_address env (me_source e)) (\<lambda>address.
          bind_result (embedded_entries env (i + 1) es) (\<lambda>rest.
            Inr (\<lparr>ee_index = i, ee_name = name, ee_address = address\<rparr> # rest))))
      | Public _ \<Rightarrow> embedded_entries env (i + 1) es)"

text \<open>
  The existence checks run concurrently and are sorted by index when all have been
  answered; \<open>answer i\<close> is what the network answered for entry \<open>i\<close>.
\<close>

fun sort_answers ::
  "(nat \<Rightarrow> (error, bool) result) \<Rightarrow> embedded_entry list \<Rightarrow> compact_plan \<Rightarrow> (manifest_error, compact_plan) result" where
  "sort_answers answer [] plan = Inr plan"
| "sort_answers answer (e # es) plan =
     (case answer (ee_index e) of
        Inl err \<Rightarrow> Inl (Data err)
      | Inr True \<Rightarrow> sort_answers answer es (plan\<lparr>cp_already_public := cp_already_public plan @ [e]\<rparr>)
      | Inr False \<Rightarrow> sort_answers answer es (plan\<lparr>cp_needs_publish := cp_needs_publish plan @ [e]\<rparr>))"

definition plan_compaction ::
  "'m doc_env \<Rightarrow> (nat \<Rightarrow> (error, bool) result) \<Rightarrow> bool \<Rightarrow> 'm manifest \<Rightarrow> (manifest_error, compact_plan) result" where
  "plan_compaction env answer cancelled m =
     bind_result (embedded_entries env 0 (mf_entries m))
       (\<lambda>embedded. if cancelled then Inl Cancelled
                    else sort_answers answer embedded \<lparr>cp_already_public = [], cp_needs_publish = []\<rparr>)"

record ('s, 'm) publish_world =
  pw_net :: 's
  pw_stored :: "'m list"

record ('s, 'm) publish_client =
  pc_cancelled :: "'s \<Rightarrow> bool \<times> 's"
  pc_chunk_exists :: "key \<Rightarrow> ('s, error, bool) op"
  pc_data_map_store :: "'m \<Rightarrow> ('s, error, key) op"

definition poll_cancel :: "('s, 'm) publish_client \<Rightarrow> (('s, 'm) publish_world, manifest_error, unit) op" where
  "poll_cancel client w =
     (let (c, s) = pc_cancelled client (pw_net w)
      in (if c then Inl Cancelled else Inr (), w\<lparr>pw_net := s\<rparr>))"

definition ask_exists :: "('s, 'm) publish_client \<Rightarrow> key \<Rightarrow> (('s, 'm) publish_world, manifest_error, bool) op" where
  "ask_exists client address w =
     (let (r, s) = pc_chunk_exists client address (pw_net w) in (map_err Data r, w\<lparr>pw_net := s\<rparr>))"

definition store_map :: "('s, 'm) publish_client \<Rightarrow> 'm \<Rightarrow> (('s, 'm) publish_world, manifest_error, key) op" where
  "store_map client data_map w =
     (let (r, s) = pc_data_map_store client data_map (pw_net w)
      in (map_err Data r, w\<lparr>pw_net := s, pw_stored := pw_stored w @ [data_map]\<rparr>))"

fun check_wrappers :: "('s, 'm) publish_client \<Rightarrow> chunk_info list \<Rightarrow> (('s, 'm) publish_world, manifest_error, unit) op" where
  "check_wrappers client [] = ok_op ()"
| "check_wrappers client (info # infos) =
     bind_op (ask_exists client (ci_dst_hash info))
       (\<lambda>exists. if \<not> exists then err_op Build else check_wrappers client infos)"

definition check_entry ::
  "'m doc_env \<Rightarrow> ('s, 'm) publish_client \<Rightarrow> 'm manifest \<Rightarrow> embedded_entry \<Rightarrow>
     (('s, 'm) publish_world, manifest_error, embedded_entry \<times> 'm) op" where
  "check_entry env client m embedded =
     bind_op (poll_cancel client) (\<lambda>_.
       if length (mf_entries m) \<le> ee_index embedded then err_op Build
       else let entry = mf_entries m ! ee_index embedded
            in case content_address env (me_source entry) of
                 Inl e \<Rightarrow> err_op e
               | Inr address \<Rightarrow>
                   if address \<noteq> ee_address embedded then err_op Build
                   else (case me_source entry of
                           Public _ \<Rightarrow> err_op Build
                         | Embedded data_map \<Rightarrow>
                             (case published_data_map env data_map of
                                Inl e \<Rightarrow> err_op e
                              | Inr published \<Rightarrow>
                                  bind_op (if is_child env published then check_wrappers client (dm_infos (de_map env) published)
                                           else ok_op ())
                                    (\<lambda>_. ok_op (embedded, published)))))"

fun each_op :: "('a \<Rightarrow> ('s, 'e, 'b) op) \<Rightarrow> 'a list \<Rightarrow> ('s, 'e, 'b list) op" where
  "each_op f [] = ok_op []"
| "each_op f (x # xs) = bind_op (f x) (\<lambda>y. bind_op (each_op f xs) (\<lambda>ys. ok_op (y # ys)))"

definition store_entry ::
  "('s, 'm) publish_client \<Rightarrow> embedded_entry \<times> 'm \<Rightarrow> (('s, 'm) publish_world, manifest_error, key) op" where
  "store_entry client ep =
     bind_op (poll_cancel client) (\<lambda>_.
       bind_op (store_map client (snd ep))
         (\<lambda>address. if address \<noteq> ee_address (fst ep) then err_op Build else ok_op address))"

definition publish_data_maps ::
  "'m doc_env \<Rightarrow> ('s, 'm) publish_client \<Rightarrow> 'm manifest \<Rightarrow> embedded_entry list \<Rightarrow>
     (('s, 'm) publish_world, manifest_error, key list) op" where
  "publish_data_maps env client m entries =
     bind_op (each_op (check_entry env client m) entries) (each_op (store_entry client))"

fun compact_entries :: "'m doc_env \<Rightarrow> nat set \<Rightarrow> nat \<Rightarrow> 'm manifest_entry list \<Rightarrow> (manifest_error, 'm manifest_entry list) result" where
  "compact_entries env indices i [] = Inr []"
| "compact_entries env indices i (e # es) =
     bind_result
       (if i \<notin> indices then Inr e
        else (case me_source e of
                Embedded _ \<Rightarrow> bind_result (content_address env (me_source e)) (\<lambda>a. Inr (e\<lparr>me_source := Public a\<rparr>))
              | Public _ \<Rightarrow> Inr e))
       (\<lambda>e'. bind_result (compact_entries env indices (i + 1) es) (\<lambda>es'. Inr (e' # es')))"

definition apply_compaction :: "'m doc_env \<Rightarrow> nat set \<Rightarrow> 'm manifest \<Rightarrow> (manifest_error, 'm manifest) result" where
  "apply_compaction env indices m =
     bind_result (compact_entries env indices 0 (mf_entries m)) (\<lambda>es. Inr (m\<lparr>mf_entries := es\<rparr>))"

subsection \<open>Links lead back\<close>

definition is_hex_digit :: "nat \<Rightarrow> bool" where
  "is_hex_digit c \<longleftrightarrow> (0x30 \<le> c \<and> c \<le> 0x39) \<or> (0x61 \<le> c \<and> c \<le> 0x66)"

definition is_url_safe :: "nat \<Rightarrow> bool" where
  "is_url_safe c \<longleftrightarrow> (0x30 \<le> c \<and> c \<le> 0x39) \<or> (0x41 \<le> c \<and> c \<le> 0x5A) \<or> (0x61 \<le> c \<and> c \<le> 0x7A) \<or> c = 0x2D \<or> c = 0x5F"

text \<open>What the two crates promise: digits of the alphabet, their number, and that they are read back.\<close>

definition hex_laws :: "'m doc_env \<Rightarrow> bool" where
  "hex_laws env \<longleftrightarrow> (\<forall>bs. de_unhex env (de_hex env bs) = Some bs \<and> length (de_hex env bs) = 2 * length bs \<and>
     list_all is_hex_digit (de_hex env bs))"

definition base64_laws :: "base64_api \<Rightarrow> bool" where
  "base64_laws b64 \<longleftrightarrow> (\<forall>bs. length (b64_encode b64 bs) = (4 * length bs + 2) div 3 \<and>
     list_all is_url_safe (b64_encode b64 bs) \<and>
     (\<forall>n \<ge> length bs. b64_decode_slice b64 (b64_encode b64 bs) n = Some bs))"

text \<open>Shrinking a map twice is shrinking it once, and gives a map.\<close>

definition shrink_laws :: "'m doc_env \<Rightarrow> bool" where
  "shrink_laws env \<longleftrightarrow> (\<forall>x y. is_data_map (de_map env) x \<longrightarrow> de_shrink env x = Some y \<longrightarrow>
     is_data_map (de_map env) y \<and> de_shrink env y = Some y)"

lemma str_len_ascii: "list_all (\<lambda>c. c < 0x80) s \<Longrightarrow> str_len s = length s"
  by (induction s) (simp_all add: str_len_def utf8_len_def)

lemma hex_ascii: "list_all is_hex_digit s \<Longrightarrow> list_all (\<lambda>c. c < 0x80) s"
  by (auto simp: list_all_iff is_hex_digit_def)

lemma url_ascii: "list_all is_url_safe s \<Longrightarrow> list_all (\<lambda>c. c < 0x80) s"
  by (auto simp: list_all_iff is_url_safe_def)

lemma trim_text_id: "s \<noteq> [] \<Longrightarrow> \<not> is_whitespace (hd s) \<Longrightarrow> \<not> is_whitespace (List.last s) \<Longrightarrow> trim_text s = s"
  by (cases s) (auto simp: trim_text_def intro!: trim_end_id)

lemma scheme_len: "str_len LINK_SCHEME = 6" "LINK_SCHEME = [0x61, 0x6E, 0x74, 0x3A, 0x2F, 0x2F]"
  by (simp_all add: LINK_SCHEME_def of_ascii_def str_len_def utf8_len_def)

lemma split_scheme: "split_at_byte 6 (LINK_SCHEME @ s) = Some (LINK_SCHEME, s)"
  by (simp add: scheme_len eval_nat_numeral utf8_len_def)

lemma is_link_scheme: "is_link (LINK_SCHEME @ s)" "after_scheme (LINK_SCHEME @ s) = s"
  by (simp_all add: is_link_def after_scheme_def scheme_len(1) split_scheme eq_ignore_ascii_case_def)

lemma hex_no_link:
  assumes "list_all is_hex_digit s"
  shows "\<not> is_link s"
proof
  assume "is_link s"
  then obtain prefix rest where sp: "split_at_byte (Suc 5) s = Some (prefix, rest)" and eq: "eq_ignore_ascii_case prefix LINK_SCHEME"
    by (auto simp: is_link_def scheme_len(1) eval_nat_numeral split: option.splits)
  have take: "split_at_byte n t = Some (a, b) \<Longrightarrow> t = a @ b" for n t a b
    by (induction n t arbitrary: a b rule: split_at_byte.induct) (auto split: if_splits)
  from eq obtain c d e f g h where p: "prefix = [c, d, e, f, g, h]" and f: "to_ascii_lowercase f = 0x3A"
    by (auto simp: eq_ignore_ascii_case_def scheme_len(2) map_eq_Cons_conv to_ascii_lowercase_def)
  have "is_hex_digit f" using assms take [OF sp] p by simp
  with f show False by (auto simp: is_hex_digit_def to_ascii_lowercase_def split: if_splits)
qed

lemma hex_address:
  assumes "hex_laws env" and "length a = ADDRESS_LEN"
  shows "parse_address env (de_hex env a) = Inr a"
  using assms str_len_ascii [OF hex_ascii, of "de_hex env a"]
  by (simp add: parse_address_def hex_laws_def ADDRESS_HEX_LEN_def)

lemma takeWhile_authority:
  assumes "list_all is_hex_digit s"
  shows "takeWhile (\<lambda>c. c \<notin> set FILE_LINK_TERMINATORS) s = s" "dropWhile (\<lambda>c. c \<notin> set FILE_LINK_TERMINATORS) s = []"
  using assms by (auto simp: takeWhile_eq_all_conv list_all_iff is_hex_digit_def FILE_LINK_TERMINATORS_def)

lemma parse_file_link:
  assumes "hex_laws env" and "length a = ADDRESS_LEN"
  shows "parse_link env b64 (file_link env a) = Inr (LinkFile a)" "parse_link env b64 (de_hex env a) = Inr (LinkFile a)"
proof -
  define h where "h = de_hex env a"
  have hex: "list_all is_hex_digit h" "length h = 64" "parse_address env h = Inr a"
    using assms hex_address [OF assms] by (auto simp: h_def hex_laws_def ADDRESS_LEN_def)
  then have ne: "h \<noteq> []" by auto
  have ws: "\<not> is_whitespace c" if "is_hex_digit c" for c
    using that by (auto simp: is_hex_digit_def is_whitespace_def)
  have ends: "is_hex_digit (hd h)" "is_hex_digit (List.last h)" using hex(1) ne by (auto simp: list_all_iff)
  have t: "trim_text h = h" using ne ends ws by (intro trim_text_id) auto
  have "trim_text (LINK_SCHEME @ h) = LINK_SCHEME @ h"
    using ne ends(2) ws by (intro trim_text_id) (auto simp: scheme_len is_whitespace_def)
  moreover have "\<not> eq_ignore_ascii_case h MANIFEST_AUTHORITY"
    using hex(2) by (auto simp: eq_ignore_ascii_case_def MANIFEST_AUTHORITY_def of_ascii_def dest: map_eq_imp_length_eq)
  ultimately show "parse_link env b64 (file_link env a) = Inr (LinkFile a)"
    using hex
    by (simp add: parse_link_def file_link_def h_def [symmetric] is_link_scheme takeWhile_authority [OF hex(1)] Let_def
        del: takeWhile_eq_all_conv dropWhile_eq_Nil_conv)
  show "parse_link env b64 (de_hex env a) = Inr (LinkFile a)"
    using hex hex_no_link [OF hex(1)] t by (simp add: parse_link_def h_def [symmetric])
qed

lemma payload_len:
  assumes "n \<le> MAX_MANIFEST_BYTES"
  shows "manifest_payload_len ((4 * n + 2) div 3) MAX_MANIFEST_BYTES = Inr n"
proof -
  obtain q r where n: "n = 3 * q + r" "r < 3" by (metis div_mod_decomp mod_less_divisor mult.commute zero_less_numeral)
  then consider "r = 0" | "r = 1" | "r = 2" by linarith
  then have "(4 * n + 2) div 3 = 4 * q + (if r = 0 then 0 else r + 1)" by cases (simp_all add: n)
  then have "(4 * n + 2) div 3 mod 4 = (if r = 0 then 0 else r + 1) \<and> (4 * n + 2) div 3 div 4 = q"
    using n(2) by simp
  moreover have "n < 2 ^ 64" using assms by (simp add: MAX_MANIFEST_BYTES_def)
  ultimately show ?thesis using assms n by (auto simp: manifest_payload_len_def Let_def)
qed

lemma decode_payload:
  assumes "base64_laws b64" and "length bs \<le> MAX_MANIFEST_BYTES"
  shows "decode_manifest_payload b64 (b64_encode b64 bs) MAX_MANIFEST_BYTES = Inr bs"
  using assms payload_len str_len_ascii [OF url_ascii, of "b64_encode b64 bs"]
  by (simp add: decode_manifest_payload_def base64_laws_def)

lemma manifest_prefix: "MANIFEST_LINK_PREFIX = LINK_SCHEME @ MANIFEST_AUTHORITY @ [0x2F]"
  by (simp add: MANIFEST_LINK_PREFIX_def LINK_SCHEME_def MANIFEST_AUTHORITY_def of_ascii_def)

lemma parse_manifest_link:
  assumes "base64_laws b64" and "length bs \<le> MAX_MANIFEST_BYTES" and "bs \<noteq> []"
  shows "parse_link env b64 (manifest_link_from_bytes b64 bs) = bind_result (decode env bs) (\<lambda>m. Inr (LinkManifest m))"
proof -
  let ?p = "b64_encode b64 bs"
  let ?t = "LINK_SCHEME @ MANIFEST_AUTHORITY @ [0x2F] @ ?p"
  have safe: "list_all is_url_safe ?p" "length ?p = (4 * length bs + 2) div 3" using assms(1) by (simp_all add: base64_laws_def)
  then have ne: "?p \<noteq> []" using assms(3) by (cases bs) auto
  then have "is_url_safe (List.last ?p)" using safe(1) by (simp add: list_all_iff)
  then have "\<not> is_whitespace (List.last ?p)" by (auto simp: is_url_safe_def is_whitespace_def)
  then have trim: "trim_text ?t = ?t"
    using ne by (intro trim_text_id) (auto simp: scheme_len is_whitespace_def)
  have "takeWhile (\<lambda>c. c \<notin> set FILE_LINK_TERMINATORS) (MANIFEST_AUTHORITY @ [0x2F] @ ?p) = MANIFEST_AUTHORITY"
    "dropWhile (\<lambda>c. c \<notin> set FILE_LINK_TERMINATORS) (MANIFEST_AUTHORITY @ [0x2F] @ ?p) = 0x2F # ?p"
    by (simp_all add: MANIFEST_AUTHORITY_def of_ascii_def FILE_LINK_TERMINATORS_def)
  then show ?thesis
    using decode_payload [OF assms(1,2)]
    by (simp add: parse_link_def manifest_link_from_bytes_def manifest_prefix trim is_link_scheme Let_def
        eq_ignore_ascii_case_def del: append.simps)
qed

definition same_content :: "'m doc_env \<Rightarrow> 'm manifest_entry \<Rightarrow> 'm manifest_entry \<Rightarrow> bool" where
  "same_content env e e' \<longleftrightarrow>
     me_path e' = me_path e \<and> me_size e' = me_size e \<and> me_sha256 e' = me_sha256 e \<and>
     content_address env (me_source e') = content_address env (me_source e)"

lemma same_content_name:
  assumes "same_content env e e'"
  shows "effective_name env e' = effective_name env e" "entry_name env e' = entry_name env e"
proof -
  show *: "effective_name env e' = effective_name env e"
    using assms by (cases "me_path e") (simp_all add: same_content_def effective_name_def effective_name_with_def)
  show "entry_name env e' = entry_name env e"
    using assms * by (simp add: same_content_def entry_name_def)
qed

lemma same_content_valid:
  assumes "list_all2 (same_content env) (mf_entries m) es" and "valid env m"
  shows "valid env (m\<lparr>mf_entries := es\<rparr>)"
proof -
  have "map (entry_name env) es = map (entry_name env) (mf_entries m)"
    using assms(1) by (induction rule: list_all2_induct) (simp_all add: same_content_name)
  then have n: "map (name_of env) es = map (name_of env) (mf_entries m)"
    and ok: "map (\<lambda>e. is_ok (entry_name env e)) es = map (\<lambda>e. is_ok (entry_name env e)) (mf_entries m)"
    by (auto simp: list_eq_iff_nth_eq name_of_def)
  from ok have "(\<forall>e \<in> set es. is_ok (entry_name env e)) \<longleftrightarrow> (\<forall>e \<in> set (mf_entries m). is_ok (entry_name env e))"
    by (metis (no_types, lifting) in_set_conv_nth length_map nth_map)
  with assms n show ?thesis by (auto simp: valid_def dest: list_all2_lengthD)
qed

lemma shrink_lawsD:
  assumes "shrink_laws env" and "is_data_map (de_map env) x" and "de_shrink env x = Some y"
  shows "is_data_map (de_map env) y" "de_shrink env y = Some y"
  using assms unfolding shrink_laws_def by blast+

lemma shrunk_same_content:
  assumes "shrink_laws env" and "on_entry (published_data_map env) e = Inr e'"
    and "typed_entry (is_data_map (de_map env)) e"
  shows "same_content env e e'"
proof (cases "me_source e")
  case (Public a)
  with assms(2) show ?thesis by (auto simp: on_entry_def on_source_def same_content_def)
next
  case (Embedded x)
  with assms(2) obtain y where y: "de_shrink env x = Some y"
    and e': "e' = \<lparr>me_path = me_path e, me_size = me_size e, me_sha256 = me_sha256 e, me_source = Embedded y\<rparr>"
    by (auto simp: on_entry_def on_source_def published_data_map_def results)
  from assms(3) Embedded have "is_data_map (de_map env) x" by (simp add: typed_entry_def)
  with shrink_lawsD(2) [OF assms(1) _ y] have "de_shrink env y = Some y" by simp
  with y show ?thesis
    by (simp add: e' Embedded same_content_def content_address_def data_map_address_def published_data_map_def)
qed

lemma link_form_same_content:
  assumes "shrink_laws env" and "link_form env m = Inr l" and "typed (is_data_map (de_map env)) m"
  shows "list_all2 (same_content env) (mf_entries m) (mf_entries l)"
    "mf_name l = mf_name m" "mf_torrent l = mf_torrent m" "typed (is_data_map (de_map env)) l"
proof -
  from assms(2) show "mf_name l = mf_name m" "mf_torrent l = mf_torrent m"
    by (auto simp: link_form_def on_maps_def results)
  from assms(2) have "list_all2 (\<lambda>e e'. on_entry (published_data_map env) e = Inr e') (mf_entries m) (mf_entries l)"
    by (auto simp: link_form_def on_maps_def results)
  then show "list_all2 (same_content env) (mf_entries m) (mf_entries l)"
    using assms(3) shrunk_same_content [OF assms(1)]
    by (auto simp: list_all2_conv_all_nth typed_def list_all_length)
  show "typed (is_data_map (de_map env)) l"
    using assms(2) [unfolded link_form_def] assms(3)
    by (rule on_maps_typed) (auto simp: published_data_map_def results intro: shrink_lawsD(1) [OF assms(1)])
qed

text \<open>
  C8: links lead back to what they were made from. The link of an address and the bare
  address parse to that address, and the link of a manifest parses to its link form in
  canonical order: the entries keep their paths, sizes, hashes and content addresses when their
  maps are shrunk. A manifest whose link can be formed is never refused by the parser.
\<close>

theorem links_lead_back:
  assumes "hex_laws env" and "base64_laws b64" and "shrink_laws env"
    and "msgpack_writer (de_emit env)" and "reads_back env" and "typed (is_data_map (de_map env)) m"
  shows "(length a = ADDRESS_LEN \<longrightarrow>
       parse_link env b64 (file_link env a) = Inr (LinkFile a) \<and> parse_link env b64 (de_hex env a) = Inr (LinkFile a)) \<and>
     (manifest_link env b64 m = Inr t \<longrightarrow>
       (\<exists>l c. link_form env m = Inr l \<and> canonicalize env l = Inr c \<and> parse_link env b64 t = Inr (LinkManifest c) \<and>
          list_all2 (same_content env) (mf_entries m) (mf_entries l)))"
proof (intro conjI impI)
  assume "length a = ADDRESS_LEN"
  then show "parse_link env b64 (file_link env a) = Inr (LinkFile a)" "parse_link env b64 (de_hex env a) = Inr (LinkFile a)"
    by (rule parse_file_link [OF assms(1)])+
next
  assume "manifest_link env b64 m = Inr t"
  then obtain l c bs where l: "link_form env m = Inr l" and c: "canonicalize env l = Inr c"
    and bs: "encode_canonical env c = Inr bs" and t: "t = manifest_link_from_bytes b64 bs"
    by (auto simp: manifest_link_def manifest_link_bytes_def encode_def results)
  note keep = link_form_same_content [OF assms(3) l assms(6)]
  have "typed (is_data_map (de_map env)) c"
    using keep(4) c by (auto simp: canonicalize_iff typed_def list_all_iff)
  with assms(4,5) valid_canonical [OF c] bs have d: "decode env bs = Inr c" by (intro decode_encoded)
  have "length bs \<le> MAX_MANIFEST_BYTES" "bs \<noteq> []"
    using bs by (auto simp: encode_canonical_def results Let_def not_less MANIFEST_MAGIC_def split: if_splits)
  from parse_manifest_link [OF assms(2) this, of env] have "parse_link env b64 t = Inr (LinkManifest c)" by (simp add: t d)
  with l c keep(1) show "\<exists>l c. link_form env m = Inr l \<and> canonicalize env l = Inr c \<and>
      parse_link env b64 t = Inr (LinkManifest c) \<and> list_all2 (same_content env) (mf_entries m) (mf_entries l)" by blast
qed

lemma manifest_file_round_trip:
  assumes "msgpack_writer (de_emit env)" and "reads_back env" and "typed (is_data_map (de_map env)) m"
    and "write_manifest_file env faults files path m overwrite = (Inr (), files')"
  shows "\<exists>c. canonicalize env m = Inr c \<and> read_manifest_file env files' path = Inr c"
proof -
  from assms(4) obtain bs where bs: "encode env m = Inr bs" and f: "files' = files(path \<mapsto> bs)"
    by (auto simp: write_manifest_file_def split: sum.splits if_splits)
  then obtain c where c: "canonicalize env m = Inr c" and e: "encode_canonical env c = Inr bs"
    by (auto simp: encode_def results)
  have "typed (is_data_map (de_map env)) c" using assms(3) c by (auto simp: canonicalize_iff typed_def list_all_iff)
  with assms(1,2) valid_canonical [OF c] e have "decode env bs = Inr c" by (intro decode_encoded)
  moreover have "length bs \<le> MAX_MANIFEST_BYTES"
    using e by (auto simp: encode_canonical_def results Let_def not_less split: if_splits)
  ultimately show ?thesis using c by (simp add: read_manifest_file_def f)
qed

subsection \<open>Compaction keeps a manifest's files\<close>

lemma compact_entries_iff:
  assumes "compact_entries env indices i es = Inr es'"
  shows "length es' = length es \<and> (\<forall>k < length es. same_content env (es ! k) (es' ! k) \<and>
    (i + k \<notin> indices \<longrightarrow> es' ! k = es ! k) \<and> (i + k \<in> indices \<longrightarrow> (\<exists>a. me_source (es' ! k) = Public a)))"
  using assms
proof (induction es arbitrary: i es')
  case (Cons e es)
  from Cons.prems obtain e' rest where e': "(if i \<notin> indices then Inr e
      else (case me_source e of
              Embedded _ \<Rightarrow> bind_result (content_address env (me_source e)) (\<lambda>a. Inr (e\<lparr>me_source := Public a\<rparr>))
            | Public _ \<Rightarrow> Inr e)) = Inr e'"
    and r: "compact_entries env indices (i + 1) es = Inr rest" and es': "es' = e' # rest"
    unfolding compact_entries.simps bind_result_Inr_iff by blast
  have first: "same_content env e e' \<and> (i \<notin> indices \<longrightarrow> e' = e) \<and> (i \<in> indices \<longrightarrow> (\<exists>a. me_source e' = Public a))"
    using e' by (cases "me_source e") (auto simp: same_content_def content_address_def results split: if_splits)
  show ?case
  proof (intro conjI allI impI)
    show "length es' = length (e # es)" using Cons.IH [OF r] es' by simp
  next
    fix k assume "k < length (e # es)"
    then show "same_content env ((e # es) ! k) (es' ! k)"
      using first Cons.IH [OF r] es' by (cases k) auto
  next
    fix k assume "k < length (e # es)" "i + k \<notin> indices"
    then show "es' ! k = (e # es) ! k" using first Cons.IH [OF r] es' by (cases k) auto
  next
    fix k assume "k < length (e # es)" "i + k \<in> indices"
    then show "\<exists>a. me_source (es' ! k) = Public a" using first Cons.IH [OF r] es' by (cases k) auto
  qed
qed simp

text \<open>
  Compaction changes how files are fetched and nothing else. Every entry keeps its path,
  size, hash and content address, the entries at the given indices become public, the others
  are untouched, and the compacted manifest of a valid one is valid.
\<close>

theorem compaction_keeps_the_files:
  assumes "apply_compaction env indices m = Inr m'"
  shows "mf_name m' = mf_name m \<and> mf_torrent m' = mf_torrent m \<and>
    list_all2 (same_content env) (mf_entries m) (mf_entries m') \<and>
    (\<forall>k < length (mf_entries m).
       (k \<notin> indices \<longrightarrow> mf_entries m' ! k = mf_entries m ! k) \<and>
       (k \<in> indices \<longrightarrow> (\<exists>a. me_source (mf_entries m' ! k) = Public a \<and>
          content_address env (me_source (mf_entries m ! k)) = Inr a))) \<and>
    (validate env m = Inr () \<longrightarrow> validate env m' = Inr ())"
proof -
  from assms obtain es where es: "compact_entries env indices 0 (mf_entries m) = Inr es" and m': "m' = m\<lparr>mf_entries := es\<rparr>"
    by (auto simp: apply_compaction_def results)
  note all = compact_entries_iff [OF es]
  then have same: "list_all2 (same_content env) (mf_entries m) es" by (simp add: list_all2_conv_all_nth)
  have "content_address env (me_source (mf_entries m ! k)) = Inr a"
    if "k < length (mf_entries m)" "me_source (es ! k) = Public a" for k a
    using all that by (auto simp: same_content_def content_address_def)
  with all same same_content_valid [OF same] show ?thesis by (fastforce simp: m' validate_iff)
qed

subsection \<open>Nothing is paid before everything is checked\<close>

definition can_publish :: "'m doc_env \<Rightarrow> 'm manifest \<Rightarrow> embedded_entry \<Rightarrow> 'm \<Rightarrow> bool" where
  "can_publish env m embedded published \<longleftrightarrow>
     ee_index embedded < length (mf_entries m) \<and>
     (\<exists>data_map. me_source (mf_entries m ! ee_index embedded) = Embedded data_map \<and>
        published_data_map env data_map = Inr published \<and> data_map_address env data_map = Inr (ee_address embedded))"

lemma check_wrappers_stored: "check_wrappers client infos w = (r, w') \<Longrightarrow> pw_stored w' = pw_stored w"
  by (induction infos arbitrary: w)
    (auto simp: bind_op_def ask_exists_def split: prod.splits sum.splits if_splits)

lemma check_entry_stored:
  assumes "check_entry env client m ee w = (r, w')"
  shows "pw_stored w' = pw_stored w \<and> (\<forall>p. r = Inr p \<longrightarrow> fst p = ee \<and> can_publish env m ee (snd p))"
proof -
  obtain c s where c: "pc_cancelled client (pw_net w) = (c, s)" by fastforce
  show ?thesis
    using assms check_wrappers_stored
    by (auto simp: check_entry_def bind_op_def poll_cancel_def c can_publish_def content_address_def Let_def not_le
        split: if_splits sum.splits content_ref.splits prod.splits dest!: check_wrappers_stored)
qed

lemma check_all_stored:
  assumes "each_op (check_entry env client m) ees w = (r, w')"
  shows "pw_stored w' = pw_stored w \<and>
    (\<forall>ps. r = Inr ps \<longrightarrow> map fst ps = ees \<and> (\<forall>p \<in> set ps. can_publish env m (fst p) (snd p)))"
  using assms
proof (induction ees arbitrary: r w w')
  case (Cons ee ees)
  obtain r1 w1 where 1: "check_entry env client m ee w = (r1, w1)" by fastforce
  note c1 = check_entry_stored [OF 1]
  show ?case
  proof (cases r1)
    case (Inl e)
    with Cons.prems 1 c1 show ?thesis by (auto simp: bind_op_def)
  next
    case (Inr p)
    obtain r2 w2 where 2: "each_op (check_entry env client m) ees w1 = (r2, w2)" by fastforce
    note c2 = Cons.IH [OF 2]
    from Cons.prems have "w' = w2" "r = bind_result r2 (\<lambda>ps. Inr (p # ps))"
      by (auto simp: bind_op_def 1 2 Inr split: sum.splits)
    with c1 c2 Inr show ?thesis by (cases r2) auto
  qed
qed simp

lemma store_all_stored:
  assumes "each_op (store_entry client) ps w = (r, w')"
  shows "\<exists>k. pw_stored w' = pw_stored w @ map snd (take k ps) \<and>
    (\<forall>addrs. r = Inr addrs \<longrightarrow> addrs = map (ee_address \<circ> fst) ps \<and> pw_stored w' = pw_stored w @ map snd ps)"
  using assms
proof (induction ps arbitrary: r w w')
  case (Cons p ps)
  obtain r1 w1 where 1: "store_entry client p w = (r1, w1)" by fastforce
  have one: "(pw_stored w1 = pw_stored w \<and> (\<exists>e. r1 = Inl e)) \<or>
      (pw_stored w1 = pw_stored w @ [snd p] \<and> (\<forall>a. r1 = Inr a \<longrightarrow> a = ee_address (fst p)))"
    using 1 by (auto simp: store_entry_def bind_op_def poll_cancel_def store_map_def split: prod.splits sum.splits if_splits)
  show ?case
  proof (cases r1)
    case (Inl e)
    then have "r = Inl e" "w' = w1" using Cons.prems 1 by (auto simp: bind_op_def)
    with one Inl show ?thesis
      by (elim disjE) (rule exI [of _ 0], simp, rule exI [of _ 1], simp)
  next
    case (Inr a)
    obtain r2 w2 where 2: "each_op (store_entry client) ps w1 = (r2, w2)" by fastforce
    from Cons.IH [OF 2] obtain k where k: "pw_stored w2 = pw_stored w1 @ map snd (take k ps)"
      "\<forall>addrs. r2 = Inr addrs \<longrightarrow> addrs = map (ee_address \<circ> fst) ps \<and> pw_stored w2 = pw_stored w1 @ map snd ps" by blast
    from Cons.prems have "w' = w2" "r = bind_result r2 (\<lambda>as. Inr (a # as))"
      by (auto simp: bind_op_def 1 2 Inr split: sum.splits)
    with one k Inr show ?thesis by (intro exI [of _ "Suc k"]) (cases r2, auto)
  qed
qed (auto intro: exI [of _ 0])


subsection \<open>Concrete digits\<close>

definition b64_char :: "nat \<Rightarrow> nat" where
  "b64_char d =
     (if d < 26 then 0x41 + d else if d < 52 then 0x61 + (d - 26) else if d < 62 then 0x30 + (d - 52)
      else if d = 62 then 0x2D else 0x5F)"

definition b64_value :: "nat \<Rightarrow> nat option" where
  "b64_value c =
     (if 0x41 \<le> c \<and> c \<le> 0x5A then Some (c - 0x41) else if 0x61 \<le> c \<and> c \<le> 0x7A then Some (c - 0x61 + 26)
      else if 0x30 \<le> c \<and> c \<le> 0x39 then Some (c - 0x30 + 52) else if c = 0x2D then Some 62
      else if c = 0x5F then Some 63 else None)"

fun b64_text :: "bytes \<Rightarrow> utext" where
  "b64_text [] = []"
| "b64_text [a] = [b64_char (unat a div 4), b64_char (unat a mod 4 * 16)]"
| "b64_text [a, b] =
     [b64_char (unat a div 4), b64_char (unat a mod 4 * 16 + unat b div 16), b64_char (unat b mod 16 * 4)]"
| "b64_text (a # b # c # bs) =
     [b64_char (unat a div 4), b64_char (unat a mod 4 * 16 + unat b div 16), b64_char (unat b mod 16 * 4 + unat c div 64),
      b64_char (unat c mod 64)] @ b64_text bs"

fun b64_read :: "nat list \<Rightarrow> bytes option" where
  "b64_read [] = Some []"
| "b64_read [x] = None"
| "b64_read [x, y] = (if y mod 16 = 0 then Some [of_nat (x * 4 + y div 16)] else None)"
| "b64_read [x, y, z] =
     (if z mod 4 = 0 then Some [of_nat (x * 4 + y div 16), of_nat (y mod 16 * 16 + z div 4)] else None)"
| "b64_read (x # y # z # w # ds) =
     map_option (\<lambda>bs. [of_nat (x * 4 + y div 16), of_nat (y mod 16 * 16 + z div 4), of_nat (z mod 4 * 64 + w)] @ bs)
       (b64_read ds)"

definition plain_base64 :: base64_api where
  "plain_base64 = \<lparr>b64_encode = b64_text, b64_decode_slice = (\<lambda>t n.
     Option.bind (those (map b64_value t)) (\<lambda>ds. Option.bind (b64_read ds) (\<lambda>bs. if n < length bs then None else Some bs)))\<rparr>"

lemma b64_char_value: "d < 64 \<Longrightarrow> b64_value (b64_char d) = Some d" "d < 64 \<Longrightarrow> is_url_safe (b64_char d)"
  by (auto simp: b64_value_def b64_char_def is_url_safe_def)

lemma byte_digits:
  "unat (a :: u8) div 4 < 64" "unat a mod 4 * 16 < 64" "unat a mod 4 * 16 + unat (b :: u8) div 16 < 64"
  "unat b mod 16 * 4 < 64" "unat b mod 16 * 4 + unat (c :: u8) div 64 < 64" "unat c mod 64 < 64"
proof -
  have l: "unat a < 256" "unat b < 256" "unat c < 256" by (rule byte_less)+
  have m: "unat a mod 4 < 4" "unat b mod 16 < 16" by simp_all
  have d: "unat b div 16 < 16" "unat c div 64 < 4" using l by simp_all
  show "unat a div 4 < 64" using l(1) by simp
  show "unat a mod 4 * 16 < 64" "unat a mod 4 * 16 + unat b div 16 < 64" "unat b mod 16 * 4 < 64"
    "unat b mod 16 * 4 + unat c div 64 < 64" using m d by linarith+
  show "unat c mod 64 < 64" by simp
qed

lemma digit_bytes:
  "of_nat (unat a div 4 * 4 + unat a mod 4 * 16 div 16) = (a :: u8)"
  "of_nat (unat a div 4 * 4 + (unat a mod 4 * 16 + unat b div 16) div 16) = a"
  "of_nat ((unat a mod 4 * 16 + unat b div 16) mod 16 * 16 + unat b mod 16 * 4 div 4) = (b :: u8)"
  "of_nat ((unat a mod 4 * 16 + unat b div 16) mod 16 * 16 + (unat b mod 16 * 4 + unat c div 64) div 4) = b"
  "of_nat ((unat b mod 16 * 4 + unat c div 64) mod 4 * 64 + unat c mod 64) = (c :: u8)"
proof -
  have l: "unat b div 16 < 16" "unat c div 64 < 4" using byte_less [of b] byte_less [of c] by simp_all
  have w: "of_nat (unat x) = x" for x :: u8 using of_nat_low_byte [of 0 x] by simp
  have e: "x div 4 * 4 + x mod 4 = x" "x div 16 * 16 + x mod 16 = x" "x div 64 * 64 + x mod 64 = x" for x :: nat by simp_all
  show "of_nat (unat a div 4 * 4 + unat a mod 4 * 16 div 16) = a"
    using e(1) [of "unat a"] by (metis nonzero_mult_div_cancel_right w zero_neq_numeral)
  have "(unat a mod 4 * 16 + unat b div 16) div 16 = unat a mod 4" using l by simp
  then show "of_nat (unat a div 4 * 4 + (unat a mod 4 * 16 + unat b div 16) div 16) = a" by (simp only: e w)
  have m: "(unat a mod 4 * 16 + unat b div 16) mod 16 = unat b div 16" using l by simp
  have "unat b mod 16 * 4 div 4 = unat b mod 16" "(unat b mod 16 * 4 + unat c div 64) div 4 = unat b mod 16" using l by simp_all
  with m show "of_nat ((unat a mod 4 * 16 + unat b div 16) mod 16 * 16 + unat b mod 16 * 4 div 4) = b"
    "of_nat ((unat a mod 4 * 16 + unat b div 16) mod 16 * 16 + (unat b mod 16 * 4 + unat c div 64) div 4) = b"
    by (simp_all only: e w)
  have "(unat b mod 16 * 4 + unat c div 64) mod 4 = unat c div 64" using l by simp
  then show "of_nat ((unat b mod 16 * 4 + unat c div 64) mod 4 * 64 + unat c mod 64) = c" by (simp only: e w)
qed

lemma b64_read_text: "\<exists>ds. map b64_value (b64_text bs) = map Some ds \<and> b64_read ds = Some bs"
proof (induction bs rule: b64_text.induct)
  case (2 a)
  show ?case
    by (rule exI [of _ "[unat a div 4, unat a mod 4 * 16]"]) (simp add: b64_char_value byte_digits digit_bytes)
next
  case (3 a b)
  have "of_nat (unat b div 16 mod 16 * 16 + unat b mod 16) = b"
    using digit_bytes(3) [of a b] by (simp del: of_nat_add of_nat_mult)
  then show ?case
    by (intro exI [of _ "[unat a div 4, unat a mod 4 * 16 + unat b div 16, unat b mod 16 * 4]"])
      (simp add: b64_char_value byte_digits digit_bytes del: of_nat_add of_nat_mult div_mult_self3)
next
  case (4 a b c bs)
  then obtain ds where "map b64_value (b64_text bs) = map Some ds" "b64_read ds = Some bs" by blast
  moreover have "of_nat (unat b div 16 mod 16 * 16 + (unat b mod 16 * 4 + unat c div 64) div 4) = b"
    "of_nat (unat c div 64 mod 4 * 64 + unat c mod 64) = c"
    using digit_bytes(4) [of a b c] digit_bytes(5) [of b c] by (simp_all del: of_nat_add of_nat_mult div_mult_self3)
  ultimately show ?case
    by (intro exI [of _ "[unat a div 4, unat a mod 4 * 16 + unat b div 16, unat b mod 16 * 4 + unat c div 64, unat c mod 64] @ ds"])
      (simp add: b64_char_value byte_digits digit_bytes del: of_nat_add of_nat_mult div_mult_self3)
qed simp

lemma plain_base64_laws: "base64_laws plain_base64"
  unfolding base64_laws_def
proof (intro allI conjI impI)
  fix bs
  show "length (b64_encode plain_base64 bs) = (4 * length bs + 2) div 3"
    by (simp add: plain_base64_def) (induction bs rule: b64_text.induct, auto)
  show "list_all is_url_safe (b64_encode plain_base64 bs)"
    by (simp add: plain_base64_def) (induction bs rule: b64_text.induct, auto simp: b64_char_value byte_digits)
  fix n assume "length bs \<le> n"
  moreover have "those (map Some ds) = Some ds" for ds :: "nat list" by (simp add: those_Some)
  ultimately show "b64_decode_slice plain_base64 (b64_encode plain_base64 bs) n = Some bs"
    using b64_read_text [of bs] by (auto simp: plain_base64_def)
qed

lemma plain_hex_laws: "hex_laws plain_env"
proof -
  have digit: "hex_value (hex_char d) = Some d \<and> is_hex_digit (hex_char d)" if "d < 16" for d
    using that by (auto simp: hex_value_def hex_char_def is_hex_digit_def)
  have hi: "unat b div 16 < 16" for b :: u8 using byte_less [of b] by simp
  have byte: "of_nat (unat b div 16 * 16 + unat b mod 16) = b" for b :: u8
    using of_nat_low_byte [of 0 b] by (simp del: of_nat_add of_nat_mult)
  have "unhex_text (hex_text bs) = Some bs \<and> length (hex_text bs) = 2 * length bs \<and> list_all is_hex_digit (hex_text bs)" for bs
    by (induction bs) (simp_all add: hex_text_def digit hi byte del: of_nat_add of_nat_mult)
  then show ?thesis by (simp add: hex_laws_def plain_env_def)
qed

lemma plain_shrink_laws: "shrink_laws plain_env"
proof -
  have "hashes_ok (take 3 infos)" if "hashes_ok infos" for infos
    using that by (auto simp: hashes_ok_def dest: in_set_takeD)
  then show ?thesis
    by (auto simp: shrink_laws_def plain_env_def plain_map_api_def is_data_map_def split: if_splits)
qed

lemma demo_link: "\<exists>t. manifest_link plain_env plain_base64 demo_manifest = Inr t"
proof -
  have "link_form plain_env demo_manifest = Inr demo_manifest"
    by (simp add: link_form_def on_maps_def on_entry_def on_source_def published_data_map_def demo_manifest_def plain_env_def)
  with demo_encodes show ?thesis by (auto simp: manifest_link_def manifest_link_bytes_def)
qed

theorem links_lead_back_witness:
  "\<exists>t l c. manifest_link plain_env plain_base64 demo_manifest = Inr t \<and> link_form plain_env demo_manifest = Inr l \<and>
     canonicalize plain_env l = Inr c \<and> parse_link plain_env plain_base64 t = Inr (LinkManifest c) \<and>
     list_all2 (same_content plain_env) (mf_entries demo_manifest) (mf_entries l) \<and>
     parse_link plain_env plain_base64 (file_link plain_env (replicate 32 7)) = Inr (LinkFile (replicate 32 7))"
proof -
  obtain t where t: "manifest_link plain_env plain_base64 demo_manifest = Inr t" using demo_link by blast
  have "length (replicate 32 (7 :: u8)) = ADDRESS_LEN" by (simp add: ADDRESS_LEN_def)
  with links_lead_back [OF plain_hex_laws plain_base64_laws plain_shrink_laws plain_writer plain_reads_back demo_typed,
      of "replicate 32 7" t] t show ?thesis by blast
qed

lemma demo_compacts: "\<exists>m'. apply_compaction plain_env {1} demo_manifest = Inr m'"
  by (simp add: apply_compaction_def demo_manifest_def content_address_def data_map_address_def published_data_map_def
      plain_env_def u32_to_be_bytes_def)

theorem compaction_keeps_the_files_witness:
  "\<exists>m'. apply_compaction plain_env {1} demo_manifest = Inr m' \<and>
     list_all2 (same_content plain_env) (mf_entries demo_manifest) (mf_entries m') \<and>
     mf_entries m' ! 0 = mf_entries demo_manifest ! 0 \<and> (\<exists>a. me_source (mf_entries m' ! 1) = Public a) \<and>
     validate plain_env m' = Inr ()"
proof -
  obtain m' where m': "apply_compaction plain_env {1} demo_manifest = Inr m'" using demo_compacts by blast
  have l: "length (mf_entries demo_manifest) = 2" by (simp add: demo_manifest_def)
  note facts = compaction_keeps_the_files [OF m', unfolded l]
  note each = conjunct1 [OF conjunct2 [OF conjunct2 [OF conjunct2 [OF facts]]]]
  have "mf_entries m' ! 0 = mf_entries demo_manifest ! 0" "\<exists>a. me_source (mf_entries m' ! 1) = Public a"
    using each [rule_format, of 0] each [rule_format, of 1] by auto
  with facts demo_valid m' show ?thesis by (intro exI [of _ m']) (simp add: validate_iff)
qed

definition quiet_client :: "(nat, chunk_info list \<times> nat option) publish_client" where
  "quiet_client = \<lparr>pc_cancelled = (\<lambda>s. (False, s)), pc_chunk_exists = (\<lambda>_ s. (Inr True, s)),
     pc_data_map_store = (\<lambda>m s. (case data_map_address plain_env m of Inr a \<Rightarrow> Inr a | Inl _ \<Rightarrow> Inr [], s + 1))\<rparr>"

lemma demo_publishes:
  "\<exists>plan addrs w'. plan_compaction plain_env (\<lambda>_. Inr False) False demo_manifest = Inr plan \<and>
     length (cp_needs_publish plan) = 1 \<and>
     publish_data_maps plain_env quiet_client demo_manifest (cp_needs_publish plan) \<lparr>pw_net = 0, pw_stored = []\<rparr> = (Inr addrs, w')"
  by (simp add: plan_compaction_def demo_manifest_def content_address_def data_map_address_def published_data_map_def
      plain_env_def u32_to_be_bytes_def effective_name_def publish_data_maps_def bind_op_def check_entry_def poll_cancel_def
      quiet_client_def is_child_def plain_map_api_def store_entry_def store_map_def)


end
