(* ===== verification/Manifest_Build.thy ===== *)
theory Manifest_Build
  imports Manifest_Links Rust_Text
begin

text \<open>
  Building a manifest from local files, \<^verbatim>\<open>ant-core/src/data/manifest/build.rs\<close>: the
  builder, its directory walk, the preflight and the upload loop with its partial results. The
  local files are a tree of \<open>local_node\<close>s, names of files are byte strings that may fail to be
  texts, and the client's calls are operations on a state of any type; the options that only
  the upload reads, visibility and payment mode, are part of its call. Progress events are
  dropped. A failed build is \<open>WithPartial\<close>, the source's \<^verbatim>\<open>BuildFailed\<close> with the partial
  result it carries.
\<close>

datatype reference_mode = ModeEmbedded | Compact

type_synonym os_path = "bytes list"

text \<open>
  What is at a path: a regular file, a directory with its children in the order of
  \<^verbatim>\<open>read_dir\<close> or \<open>None\<close> if they cannot be read, a symlink and whether it leads to a regular
  file or \<open>None\<close> if it leads nowhere, something else, or an error of its metadata.
\<close>

datatype local_node =
    LFile
  | LDir "(bytes \<times> local_node) list option"
  | LLink "bool option"
  | LOther
  | LError

record pending_file =
  pf_local :: os_path
  pf_path :: utext

record build_options =
  bo_name :: "utext option"
  bo_torrent :: "torrent_reference option"
  bo_reference_mode :: reference_mode
  bo_follow_symlinks :: bool

record 'm builder =
  mb_options :: build_options
  mb_pending :: "pending_file list"
  mb_entries :: "'m manifest_entry list"
  mb_skipped :: "os_path list"

record 'm build_result =
  br_manifest :: "'m manifest"
  br_cancelled :: bool
  br_skipped_symlinks :: "os_path list"
  br_files_uploaded :: nat
  br_total_to_upload :: nat
  br_chunks_stored :: nat
  br_storage_cost_atto :: nat
  br_gas_cost_wei :: nat

datatype 'm build_error = Plain manifest_error | WithPartial utext manifest_error "'m build_result"

record 'm file_upload_result =
  fu_data_map :: 'm
  fu_data_map_address :: "key option"
  fu_sha256 :: bytes
  fu_chunks_stored :: nat
  fu_storage_cost_atto :: string
  fu_gas_cost_wei :: nat

text \<open>An upload in flight is abandoned when the build is cancelled.\<close>

datatype 'm upload_end = UploadCancelled | UploadFailed error | Uploaded "'m file_upload_result"

record ('s, 'm) build_client =
  bc_min_encryptable_bytes :: nat
  bc_cancelled :: "'s \<Rightarrow> bool \<times> 's"
  bc_metadata_len :: "os_path \<Rightarrow> 's \<Rightarrow> nat option \<times> 's"
  bc_upload :: "os_path \<Rightarrow> 's \<Rightarrow> 'm upload_end \<times> 's"
  bc_resolve_root :: "'m \<Rightarrow> ('s, error, 'm) op"
  bc_chunk_exists :: "key \<Rightarrow> ('s, error, bool) op"

subsection \<open>Collecting\<close>

definition new_builder :: "build_options \<Rightarrow> 'm builder" where
  "new_builder options = \<lparr>mb_options = options, mb_pending = [], mb_entries = [], mb_skipped = []\<rparr>"

definition pending_count :: "'m builder \<Rightarrow> nat" where
  "pending_count b = length (mb_pending b)"

definition file_name_utf8 :: "(bytes \<Rightarrow> utext option) \<Rightarrow> os_path \<Rightarrow> (manifest_error, utext) result" where
  "file_name_utf8 to_str path = (if path = [] then Inl Build else ok_or (to_str (List.last path)) Build)"

definition add_file :: "os_path \<Rightarrow> utext \<Rightarrow> 'm builder \<Rightarrow> (manifest_error, unit) result \<times> 'm builder" where
  "add_file local path b =
     (case validate_path path of
        Inl reason \<Rightarrow> (Inl (InvalidPath path reason), b)
      | Inr _ \<Rightarrow> (Inr (), b\<lparr>mb_pending := mb_pending b @ [\<lparr>pf_local = local, pf_path = path\<rparr>]\<rparr>))"

fun tree_size :: "local_node \<Rightarrow> nat" where
  "tree_size (LDir (Some children)) = Suc (sum_list (map (\<lambda>c. Suc (tree_size (snd c))) children))"
| "tree_size _ = 1"

definition forest_size :: "(bytes \<times> local_node) list \<Rightarrow> nat" where
  "forest_size children = sum_list (map (\<lambda>c. Suc (tree_size (snd c))) children)"

lemma forest_size_sort: "forest_size (sort_key fst children) = forest_size children"
proof -
  have "mset (map (\<lambda>c. Suc (tree_size (snd c))) (sort_key fst children)) = mset (map (\<lambda>c. Suc (tree_size (snd c))) children)"
    by simp
  then show ?thesis unfolding forest_size_def by (metis sum_mset_sum_list)
qed

type_synonym walk_state = "pending_file list \<times> os_path list"

text \<open>
  The children of a directory in the order of their names; \<open>out\<close> collects the files and the
  second component the skipped symlinks, which are kept when the walk fails.
\<close>

function (sequential) walk_children ::
  "(bytes \<Rightarrow> utext option) \<Rightarrow> bool \<Rightarrow> os_path \<Rightarrow> utext \<Rightarrow> (bytes \<times> local_node) list \<Rightarrow> walk_state \<Rightarrow>
     (manifest_error, unit) result \<times> walk_state" where
  "walk_children to_str follow dir prefix [] st = (Inr (), st)"
| "walk_children to_str follow dir prefix ((n, node) # rest) (out, skipped) =
     (case to_str n of
        None \<Rightarrow> (Inl Build, (out, skipped))
      | Some name \<Rightarrow>
          let path = (if prefix = [] then name else prefix @ [PATH_SEPARATOR] @ name);
              local = dir @ [n]
          in case node of
               LError \<Rightarrow> (Inl Io, (out, skipped))
             | LLink target \<Rightarrow>
                 if follow then
                   (case target of
                      None \<Rightarrow> (Inl Io, (out, skipped))
                    | Some True \<Rightarrow>
                        walk_children to_str follow dir prefix rest (out @ [\<lparr>pf_local = local, pf_path = path\<rparr>], skipped)
                    | Some False \<Rightarrow> walk_children to_str follow dir prefix rest (out, skipped @ [local]))
                 else walk_children to_str follow dir prefix rest (out, skipped @ [local])
             | LDir None \<Rightarrow> (Inl Io, (out, skipped))
             | LDir (Some children) \<Rightarrow>
                 (case walk_children to_str follow local path (sort_key fst children) (out, skipped) of
                    (Inl e, st) \<Rightarrow> (Inl e, st)
                  | (Inr _, st) \<Rightarrow> walk_children to_str follow dir prefix rest st)
             | LFile \<Rightarrow> walk_children to_str follow dir prefix rest (out @ [\<lparr>pf_local = local, pf_path = path\<rparr>], skipped)
             | LOther \<Rightarrow> walk_children to_str follow dir prefix rest (out, skipped))"
  by pat_completeness auto

termination
  by (relation "measure (\<lambda>(to_str, follow, dir, prefix, children, st). forest_size children)")
    (simp_all add: forest_size_sort, simp_all add: forest_size_def)

fun add_files :: "pending_file list \<Rightarrow> 'm builder \<Rightarrow> (manifest_error, unit) result \<times> 'm builder" where
  "add_files [] b = (Inr (), b)"
| "add_files (f # fs) b =
     (case add_file (pf_local f) (pf_path f) b of
        (Inl e, b') \<Rightarrow> (Inl e, b')
      | (Inr _, b') \<Rightarrow> add_files fs b')"

definition add_directory ::
  "(bytes \<Rightarrow> utext option) \<Rightarrow> os_path \<Rightarrow> local_node \<Rightarrow> utext option \<Rightarrow> 'm builder \<Rightarrow>
     (manifest_error, unit) result \<times> 'm builder" where
  "add_directory to_str root node prefix b =
     (case node of
        LDir (Some children) \<Rightarrow>
          (case walk_children to_str (bo_follow_symlinks (mb_options b)) root (case prefix of Some p \<Rightarrow> p | None \<Rightarrow> [])
                  (sort_key fst children) ([], mb_skipped b) of
             (Inl e, (_, skipped)) \<Rightarrow> (Inl e, b\<lparr>mb_skipped := skipped\<rparr>)
           | (Inr _, (files, skipped)) \<Rightarrow> add_files (sort_key pf_path files) (b\<lparr>mb_skipped := skipped\<rparr>))
      | _ \<Rightarrow> (Inl Io, b))"

definition add_path ::
  "(bytes \<Rightarrow> utext option) \<Rightarrow> os_path \<Rightarrow> local_node \<Rightarrow> 'm builder \<Rightarrow> (manifest_error, unit) result \<times> 'm builder" where
  "add_path to_str local node b =
     (if node = LError then (Inl Io, b)
      else case file_name_utf8 to_str local of
        Inl e \<Rightarrow> (Inl e, b)
      | Inr name \<Rightarrow>
          (case node of
             LDir _ \<Rightarrow> add_directory to_str local node (Some name) b
           | LLink target \<Rightarrow>
               if bo_follow_symlinks (mb_options b) then
                 (case target of
                    None \<Rightarrow> (Inl Io, b)
                  | Some True \<Rightarrow> add_file local name b
                  | Some False \<Rightarrow> (Inr (), b\<lparr>mb_skipped := mb_skipped b @ [local]\<rparr>))
               else (Inr (), b\<lparr>mb_skipped := mb_skipped b @ [local]\<rparr>)
           | _ \<Rightarrow> add_file local name b))"

definition add_source ::
  "'m content_ref \<Rightarrow> utext option \<Rightarrow> nat option \<Rightarrow> 'm builder \<Rightarrow> (manifest_error, unit) result \<times> 'm builder" where
  "add_source source path size_hint b =
     (case (case path of Some p \<Rightarrow> map_err (InvalidPath p) (validate_path p) | None \<Rightarrow> Inr ()) of
        Inl e \<Rightarrow> (Inl e, b)
      | Inr _ \<Rightarrow>
          (Inr (), b\<lparr>mb_entries := mb_entries b @
             [\<lparr>me_path = path, me_size = size_hint, me_sha256 = None, me_source = source\<rparr>]\<rparr>))"

definition add_embedded ::
  "'m \<Rightarrow> utext option \<Rightarrow> nat option \<Rightarrow> 'm builder \<Rightarrow> (manifest_error, unit) result \<times> 'm builder" where
  "add_embedded data_map = add_source (Embedded data_map)"

definition add_public ::
  "key \<Rightarrow> utext option \<Rightarrow> nat option \<Rightarrow> 'm builder \<Rightarrow> (manifest_error, unit) result \<times> 'm builder" where
  "add_public address = add_source (Public address)"

subsection \<open>Preflight\<close>

fun pending_names ::
  "('s, 'm) build_client \<Rightarrow> pending_file list \<Rightarrow> ('s, manifest_error, utext list) op" where
  "pending_names client [] = ok_op []"
| "pending_names client (f # fs) =
     (\<lambda>s. case bc_metadata_len client (pf_local f) s of
        (None, s') \<Rightarrow> (Inl Io, s')
      | (Some n, s') \<Rightarrow>
          if n < bc_min_encryptable_bytes client then (Inl Build, s')
          else bind_op (pending_names client fs) (\<lambda>names. ok_op (pf_path f # names)) s')"

definition build_preflight :: "'m doc_env \<Rightarrow> ('s, 'm) build_client \<Rightarrow> 'm builder \<Rightarrow> ('s, manifest_error, unit) op" where
  "build_preflight env client b s =
     (let count = sat_add (length (mb_pending b)) (length (mb_entries b))
      in if MAX_MANIFEST_ENTRIES < count then (Inl (TooManyEntries count MAX_MANIFEST_ENTRIES), s)
         else case (case bo_name (mb_options b) of
                      Some name \<Rightarrow> map_err InvalidName (validate_component name) | None \<Rightarrow> Inr ()) of
           Inl e \<Rightarrow> (Inl e, s)
         | Inr _ \<Rightarrow>
             if (case bo_torrent (mb_options b) of Some t \<Rightarrow> torrent_is_empty t | None \<Rightarrow> False)
             then (Inl InvalidTorrentHash, s)
             else bind_op (pending_names client (mb_pending b))
               (\<lambda>names. \<lambda>s'. (bind_result (collect_result (effective_name env) (mb_entries b))
                  (\<lambda>others. map_err Conflict
                     (check_collisions (de_nfc env) (de_upper env) (de_lower env) (names @ others))), s')) s)"

subsection \<open>Uploading\<close>

definition reference_for ::
  "'m doc_env \<Rightarrow> ('s, 'm) build_client \<Rightarrow> reference_mode \<Rightarrow> 'm \<Rightarrow> key option \<Rightarrow> ('s, manifest_error, 'm content_ref) op" where
  "reference_for env client mode data_map public_address =
     (let embed = bind_op (embeddable_data_map env (bc_resolve_root client) data_map) (\<lambda>m. ok_op (Embedded m))
      in if mode \<noteq> Compact then embed
         else case public_address of
           Some address \<Rightarrow> ok_op (Public address)
         | None \<Rightarrow>
             (case data_map_address env data_map of
                Inl e \<Rightarrow> err_op e
              | Inr address \<Rightarrow>
                  (\<lambda>s. case bc_chunk_exists client address s of
                     (Inl e, s') \<Rightarrow> (Inl (Data e), s')
                   | (Inr True, s') \<Rightarrow> (Inr (Public address), s')
                   | (Inr False, s') \<Rightarrow> embed s')))"

definition parse_atto :: "string \<Rightarrow> (manifest_error, nat) result" where
  "parse_atto s = ok_or (parse_unsigned (2 ^ 128) s) Build"

definition sat_add_u128 :: "nat \<Rightarrow> nat \<Rightarrow> nat" where
  "sat_add_u128 a b = min (a + b) (2 ^ 128 - 1)"

record 'm upload_loop =
  ul_entries :: "'m manifest_entry list"
  ul_files_uploaded :: nat
  ul_chunks_stored :: nat
  ul_storage_cost :: nat
  ul_gas_cost :: nat
  ul_cancelled :: bool
  ul_failure :: "(utext \<times> manifest_error) option"

definition upload_entry :: "utext \<Rightarrow> nat \<Rightarrow> 'm file_upload_result \<Rightarrow> 'm manifest_entry" where
  "upload_entry path n r =
     \<lparr>me_path = Some path, me_size = Some n, me_sha256 = Some (fu_sha256 r), me_source = Embedded (fu_data_map r)\<rparr>"

definition book_upload :: "utext \<Rightarrow> nat \<Rightarrow> 'm file_upload_result \<Rightarrow> 'm upload_loop \<Rightarrow> 'm upload_loop" where
  "book_upload path n r l =
     l\<lparr>ul_entries := ul_entries l @ [upload_entry path n r], ul_files_uploaded := ul_files_uploaded l + 1,
       ul_chunks_stored := ul_chunks_stored l + fu_chunks_stored r,
       ul_gas_cost := sat_add_u128 (ul_gas_cost l) (fu_gas_cost_wei r)\<rparr>"

definition set_last_source :: "'m content_ref \<Rightarrow> 'm upload_loop \<Rightarrow> 'm upload_loop" where
  "set_last_source source l =
     (if ul_entries l = [] then l
      else l\<lparr>ul_entries := butlast (ul_entries l) @ [(List.last (ul_entries l))\<lparr>me_source := source\<rparr>]\<rparr>)"

text \<open>
  One file of the loop. The flag says whether the loop goes on; where the source breaks it is
  \<open>False\<close>. \<open>settle_upload\<close> is what follows an upload that succeeded.
\<close>

definition settle_upload ::
  "'m doc_env \<Rightarrow> ('s, 'm) build_client \<Rightarrow> reference_mode \<Rightarrow> utext \<Rightarrow> nat \<Rightarrow> 'm file_upload_result \<Rightarrow> 'm upload_loop \<Rightarrow> 's \<Rightarrow>
     (bool \<times> 'm upload_loop) \<times> 's" where
  "settle_upload env client mode path n r l s =
     (let l1 = book_upload path n r l
      in case parse_atto (fu_storage_cost_atto r) of
           Inl e \<Rightarrow> ((False, l1\<lparr>ul_failure := Some (path, e)\<rparr>), s)
         | Inr cost \<Rightarrow>
             let l2 = l1\<lparr>ul_storage_cost := sat_add_u128 (ul_storage_cost l1) cost\<rparr>
             in case reference_for env client mode (fu_data_map r) (fu_data_map_address r) s of
                  (Inl e, s') \<Rightarrow> ((False, l2\<lparr>ul_failure := Some (path, e)\<rparr>), s')
                | (Inr source, s') \<Rightarrow> ((True, set_last_source source l2), s'))"

definition upload_one ::
  "'m doc_env \<Rightarrow> ('s, 'm) build_client \<Rightarrow> reference_mode \<Rightarrow> pending_file \<Rightarrow> 'm upload_loop \<Rightarrow> 's \<Rightarrow>
     (bool \<times> 'm upload_loop) \<times> 's" where
  "upload_one env client mode f l s =
     (case bc_cancelled client s of
        (True, s1) \<Rightarrow> ((False, l\<lparr>ul_cancelled := True\<rparr>), s1)
      | (False, s1) \<Rightarrow>
          (case bc_metadata_len client (pf_local f) s1 of
             (None, s2) \<Rightarrow> ((False, l\<lparr>ul_failure := Some (pf_path f, Io)\<rparr>), s2)
           | (Some n, s2) \<Rightarrow>
               (case bc_upload client (pf_local f) s2 of
                  (UploadCancelled, s3) \<Rightarrow> ((False, l\<lparr>ul_cancelled := True\<rparr>), s3)
                | (UploadFailed e, s3) \<Rightarrow> ((False, l\<lparr>ul_failure := Some (pf_path f, Data e)\<rparr>), s3)
                | (Uploaded r, s3) \<Rightarrow> settle_upload env client mode (pf_path f) n r l s3)))"

fun upload_files ::
  "'m doc_env \<Rightarrow> ('s, 'm) build_client \<Rightarrow> reference_mode \<Rightarrow> pending_file list \<Rightarrow> 'm upload_loop \<Rightarrow> 's \<Rightarrow>
     'm upload_loop \<times> 's" where
  "upload_files env client mode [] l s = (l, s)"
| "upload_files env client mode (f # fs) l s =
     (case upload_one env client mode f l s of
        ((True, l'), s') \<Rightarrow> upload_files env client mode fs l' s'
      | ((False, l'), s') \<Rightarrow> (l', s'))"

definition build_finish ::
  "'m doc_env \<Rightarrow> ('s, 'm) build_client \<Rightarrow> 'm builder \<Rightarrow> 's \<Rightarrow> ('m build_error, 'm build_result) result \<times> 's" where
  "build_finish env client b s =
     (case build_preflight env client b s of
        (Inl e, s1) \<Rightarrow> (Inl (Plain e), s1)
      | (Inr _, s1) \<Rightarrow>
          let (l, s2) = upload_files env client (bo_reference_mode (mb_options b)) (mb_pending b)
                \<lparr>ul_entries = mb_entries b, ul_files_uploaded = 0, ul_chunks_stored = 0, ul_storage_cost = 0, ul_gas_cost = 0,
                 ul_cancelled = False, ul_failure = None\<rparr> s1
          in case canonicalize env
                \<lparr>mf_name = bo_name (mb_options b), mf_torrent = bo_torrent (mb_options b), mf_entries = ul_entries l\<rparr> of
               Inl e \<Rightarrow> (Inl (Plain e), s2)
             | Inr m \<Rightarrow>
                 let result = \<lparr>br_manifest = m, br_cancelled = ul_cancelled l, br_skipped_symlinks = mb_skipped b,
                       br_files_uploaded = ul_files_uploaded l, br_total_to_upload = length (mb_pending b),
                       br_chunks_stored = ul_chunks_stored l, br_storage_cost_atto = ul_storage_cost l,
                       br_gas_cost_wei = ul_gas_cost l\<rparr>
                 in case ul_failure l of
                      Some (path, cause) \<Rightarrow> (Inl (WithPartial path cause result), s2)
                    | None \<Rightarrow> (Inr result, s2))"

subsection \<open>The builder's paths are portable\<close>

definition builder_ok :: "'m builder \<Rightarrow> bool" where
  "builder_ok b \<longleftrightarrow>
     (\<forall>f \<in> set (mb_pending b). validate_path (pf_path f) = Inr ()) \<and>
     (\<forall>e \<in> set (mb_entries b). \<forall>p. me_path e = Some p \<longrightarrow> validate_path p = Inr ())"

lemma builder_ok_new: "builder_ok (new_builder options)"
  by (simp add: builder_ok_def new_builder_def)

lemma builder_ok_skipped [simp]: "builder_ok (b\<lparr>mb_skipped := x\<rparr>) \<longleftrightarrow> builder_ok b"
  by (simp add: builder_ok_def)

lemma builder_ok_add_file: "builder_ok b \<Longrightarrow> add_file local path b = (r, b') \<Longrightarrow> builder_ok b'"
  by (auto simp: add_file_def builder_ok_def split: sum.splits)

lemma builder_ok_add_files: "builder_ok b \<Longrightarrow> add_files fs b = (r, b') \<Longrightarrow> builder_ok b'"
  by (induction fs arbitrary: b) (auto split: prod.splits sum.splits dest: builder_ok_add_file)

lemma builder_ok_add_directory: "builder_ok b \<Longrightarrow> add_directory to_str root node prefix b = (r, b') \<Longrightarrow> builder_ok b'"
  by (auto simp: add_directory_def split: local_node.splits option.splits prod.splits sum.splits
      intro: builder_ok_add_files [rotated])

lemma builder_ok_add_path: "builder_ok b \<Longrightarrow> add_path to_str local node b = (r, b') \<Longrightarrow> builder_ok b'"
  by (auto simp: add_path_def split: if_splits sum.splits local_node.splits option.splits bool.splits
      intro: builder_ok_add_file [rotated] builder_ok_add_directory [rotated])

lemma builder_ok_add_source: "builder_ok b \<Longrightarrow> add_source source path n b = (r, b') \<Longrightarrow> builder_ok b'"
  by (cases path) (auto simp: add_source_def builder_ok_def results split: sum.splits)

subsection \<open>No upload is lost\<close>

text \<open>
  \<open>paid\<close> reads, from the client's state, the uploads that have succeeded; no other call adds
  one. The two forms of a DataMap have the same address, and a public upload stores the map at
  the address it reports.
\<close>

definition logs ::
  "('s, 'm) build_client \<Rightarrow> ('s \<Rightarrow> (os_path \<times> 'm file_upload_result) list) \<Rightarrow> bool" where
  "logs client paid \<longleftrightarrow>
     (\<forall>s. paid (snd (bc_cancelled client s)) = paid s) \<and>
     (\<forall>p s. paid (snd (bc_metadata_len client p s)) = paid s) \<and>
     (\<forall>p s. paid (snd (bc_upload client p s)) =
        paid s @ (case fst (bc_upload client p s) of Uploaded r \<Rightarrow> [(p, r)] | _ \<Rightarrow> [])) \<and>
     (\<forall>m s. paid (snd (bc_resolve_root client m s)) = paid s) \<and>
     (\<forall>a s. paid (snd (bc_chunk_exists client a s)) = paid s)"

definition addresses_agree :: "'m doc_env \<Rightarrow> ('s, 'm) build_client \<Rightarrow> bool" where
  "addresses_agree env client \<longleftrightarrow>
     (\<forall>m s root s'. bc_resolve_root client m s = (Inr root, s') \<longrightarrow> data_map_address env root = data_map_address env m) \<and>
     (\<forall>p s r s' a. bc_upload client p s = (Uploaded r, s') \<longrightarrow> fu_data_map_address r = Some a \<longrightarrow>
        data_map_address env (fu_data_map r) = Inr a)"

definition for_upload :: "'m doc_env \<Rightarrow> pending_file \<times> 'm file_upload_result \<Rightarrow> 'm manifest_entry \<Rightarrow> bool" where
  "for_upload env fr e \<longleftrightarrow>
     me_path e = Some (pf_path (fst fr)) \<and> me_sha256 e = Some (fu_sha256 (snd fr)) \<and>
     content_address env (me_source e) = data_map_address env (fu_data_map (snd fr))"

lemma logs_steps:
  assumes "logs client paid"
  shows "bc_cancelled client s = (c, s') \<Longrightarrow> paid s' = paid s"
    and "bc_metadata_len client p s = (n, s') \<Longrightarrow> paid s' = paid s"
    and "bc_upload client p s = (u, s') \<Longrightarrow> paid s' = paid s @ (case u of Uploaded r \<Rightarrow> [(p, r)] | _ \<Rightarrow> [])"
    and "bc_resolve_root client m s = (q, s') \<Longrightarrow> paid s' = paid s"
    and "bc_chunk_exists client a s = (x, s') \<Longrightarrow> paid s' = paid s"
  using assms unfolding logs_def by (metis snd_conv, metis snd_conv, metis fst_conv snd_conv, metis snd_conv, metis snd_conv)

lemma embeddable_logs:
  assumes "logs client paid" and "addresses_agree env client"
    and "embeddable_data_map env (bc_resolve_root client) m s = (r, s')"
  shows "paid s' = paid s \<and> (\<forall>x. r = Inr x \<longrightarrow> data_map_address env x = data_map_address env m)"
proof (cases "is_child env m")
  case False
  with assms(3) show ?thesis by (auto simp: embeddable_data_map_def)
next
  case True
  obtain q s1 where q: "bc_resolve_root client m s = (q, s1)" by fastforce
  note p = logs_steps(4) [OF assms(1) q]
  show ?thesis
  proof (cases q)
    case (Inl e)
    with assms(3) True q p show ?thesis by (auto simp: embeddable_data_map_def)
  next
    case (Inr root)
    with assms(2) q have "data_map_address env root = data_map_address env m" unfolding addresses_agree_def by blast
    with assms(3) True q p Inr show ?thesis by (auto simp: embeddable_data_map_def results split: if_splits)
  qed
qed

lemma reference_logs:
  assumes "logs client paid" and "addresses_agree env client"
    and "reference_for env client mode m public s = (r, s')"
    and "\<And>a. public = Some a \<Longrightarrow> data_map_address env m = Inr a"
  shows "paid s' = paid s \<and> (\<forall>x. r = Inr x \<longrightarrow> content_address env x = data_map_address env m)"
proof -
  have embed: "paid t' = paid t \<and> (\<forall>x. q = Inr x \<longrightarrow> content_address env x = data_map_address env m)"
    if "bind_op (embeddable_data_map env (bc_resolve_root client) m) (\<lambda>m. ok_op (Embedded m)) t = (q, t')" for q t t'
    using that embeddable_logs [OF assms(1,2), of m t]
    by (auto simp: bind_op_def content_address_def split: prod.splits sum.splits)
  show ?thesis
  proof (cases "mode \<noteq> Compact")
    case True
    with assms(3) embed show ?thesis by (simp add: reference_for_def)
  next
    case compact: False
    show ?thesis
    proof (cases public)
      case (Some a)
      with compact assms(3,4) show ?thesis by (auto simp: reference_for_def content_address_def)
    next
      case None
      show ?thesis
      proof (cases "data_map_address env m")
        case (Inl e)
        with compact None assms(3) show ?thesis by (auto simp: reference_for_def)
      next
        case (Inr a)
        obtain x s1 where x: "bc_chunk_exists client a s = (x, s1)" by fastforce
        note p = logs_steps(5) [OF assms(1) x]
        from compact None Inr x assms(3) p embed show ?thesis
          by (auto simp: reference_for_def content_address_def split: sum.splits bool.splits)
      qed
    qed
  qed
qed

definition loop_kept ::
  "'m doc_env \<Rightarrow> pending_file list \<Rightarrow> 'm upload_loop \<Rightarrow> 'm upload_loop \<Rightarrow> (os_path \<times> 'm file_upload_result) list \<Rightarrow> bool" where
  "loop_kept env fs l l' ups \<longleftrightarrow>
     length ups \<le> length fs \<and> map fst ups = map pf_local (take (length ups) fs) \<and>
     (\<exists>new. ul_entries l' = ul_entries l @ new \<and> list_all2 (for_upload env) (zip (take (length ups) fs) (map snd ups)) new) \<and>
     ul_files_uploaded l' = ul_files_uploaded l + length ups \<and>
     ul_gas_cost l' = foldl sat_add_u128 (ul_gas_cost l) (map (\<lambda>u. fu_gas_cost_wei (snd u)) ups) \<and>
     (length ups = length fs \<or> ul_cancelled l' \<or> ul_failure l' \<noteq> None)"

definition booked :: "'m doc_env \<Rightarrow> pending_file \<Rightarrow> 'm file_upload_result \<Rightarrow> 'm upload_loop \<Rightarrow> 'm upload_loop \<Rightarrow> bool" where
  "booked env f r l l' \<longleftrightarrow>
     (\<exists>e. ul_entries l' = ul_entries l @ [e] \<and> for_upload env (f, r) e) \<and>
     ul_files_uploaded l' = ul_files_uploaded l + 1 \<and>
     ul_gas_cost l' = sat_add_u128 (ul_gas_cost l) (fu_gas_cost_wei r)"

lemma loop_kept_stop:
  assumes "ul_entries l' = ul_entries l" "ul_files_uploaded l' = ul_files_uploaded l" "ul_gas_cost l' = ul_gas_cost l"
    and "ul_cancelled l' \<or> ul_failure l' \<noteq> None"
  shows "loop_kept env fs l l' []"
  using assms by (simp add: loop_kept_def)

lemma loop_kept_booked:
  "booked env f r l l' \<Longrightarrow> ul_failure l' \<noteq> None \<Longrightarrow> loop_kept env (f # fs) l l' [(pf_local f, r)]"
  by (auto simp: loop_kept_def booked_def)

lemma loop_kept_Cons:
  "booked env f r l l1 \<Longrightarrow> loop_kept env fs l1 l' ups \<Longrightarrow> loop_kept env (f # fs) l l' ((pf_local f, r) # ups)"
  by (auto simp: loop_kept_def booked_def)

lemma for_upload_entry: "for_upload env (f, r) (upload_entry (pf_path f) n r)"
  by (simp add: for_upload_def upload_entry_def content_address_def)

lemma booked_book_upload: "booked env f r l (book_upload (pf_path f) n r l)"
  by (simp add: booked_def book_upload_def for_upload_entry)

lemma booked_last_source:
  assumes "content_address env source = data_map_address env (fu_data_map r)"
  shows "booked env f r l (set_last_source source ((book_upload (pf_path f) n r l)\<lparr>ul_storage_cost := cost\<rparr>))"
  using assms by (simp add: booked_def set_last_source_def book_upload_def for_upload_def upload_entry_def)

lemma booked_more [simp]:
  "booked env f r l (l'\<lparr>ul_failure := x\<rparr>) \<longleftrightarrow> booked env f r l l'"
  "booked env f r l (l'\<lparr>ul_storage_cost := c\<rparr>) \<longleftrightarrow> booked env f r l l'"
  by (simp_all add: booked_def)

lemma settle_upload_booked:
  assumes "logs client paid" and "addresses_agree env client"
    and "\<And>a. fu_data_map_address r = Some a \<Longrightarrow> data_map_address env (fu_data_map r) = Inr a"
    and "settle_upload env client mode (pf_path f) n r l s = ((go, l'), s')"
  shows "paid s' = paid s \<and> booked env f r l l' \<and> (go \<or> ul_failure l' \<noteq> None)"
proof (cases "parse_atto (fu_storage_cost_atto r)")
  case (Inl e)
  with assms(4) show ?thesis by (auto simp: settle_upload_def booked_book_upload)
next
  case (Inr cost)
  obtain q s1 where q: "reference_for env client mode (fu_data_map r) (fu_data_map_address r) s = (q, s1)" by fastforce
  note kept = reference_logs [OF assms(1,2) q assms(3)]
  show ?thesis
  proof (cases q)
    case Inl': (Inl e)
    with Inr q kept assms(4) show ?thesis by (auto simp: settle_upload_def Let_def booked_book_upload)
  next
    case Inr': (Inr source)
    with Inr q kept assms(4) show ?thesis by (auto simp: settle_upload_def Let_def booked_last_source)
  qed
qed

lemma upload_one_kept:
  assumes "logs client paid" and "addresses_agree env client" and "upload_one env client mode f l s = ((go, l'), s')"
  shows "(\<not> go \<and> paid s' = paid s \<and> loop_kept env (f # fs) l l' []) \<or>
    (\<exists>r. paid s' = paid s @ [(pf_local f, r)] \<and> booked env f r l l' \<and> (go \<or> ul_failure l' \<noteq> None))"
proof -
  note steps = logs_steps [OF assms(1)]
  obtain c s1 where c: "bc_cancelled client s = (c, s1)" by fastforce
  obtain n s2 where n: "bc_metadata_len client (pf_local f) s1 = (n, s2)" by fastforce
  obtain u s3 where u: "bc_upload client (pf_local f) s2 = (u, s3)" by fastforce
  note paid = steps(1) [OF c] steps(2) [OF n] steps(3) [OF u]
  show ?thesis
  proof (cases "\<exists>len r. \<not> c \<and> n = Some len \<and> u = Uploaded r")
    case True
    then obtain len r where go: "\<not> c" "n = Some len" "u = Uploaded r" by blast
    with assms(3) c n u have "settle_upload env client mode (pf_path f) len r l s3 = ((go, l'), s')"
      by (simp add: upload_one_def)
    moreover have "data_map_address env (fu_data_map r) = Inr a" if "fu_data_map_address r = Some a" for a
      using assms(2) u go(3) that unfolding addresses_agree_def by blast
    ultimately have "paid s' = paid s3 \<and> booked env f r l l' \<and> (go \<or> ul_failure l' \<noteq> None)"
      by (intro settle_upload_booked [OF assms(1,2)])
    with paid go show ?thesis by auto
  next
    case False
    with assms(3) c n u paid show ?thesis
      by (auto simp: upload_one_def split: bool.splits option.splits upload_end.splits intro!: loop_kept_stop)
  qed
qed

lemma upload_files_kept:
  assumes "logs client paid" and "addresses_agree env client" and "upload_files env client mode fs l s = (l', s')"
  shows "\<exists>ups. paid s' = paid s @ ups \<and> loop_kept env fs l l' ups"
  using assms(3)
proof (induction fs arbitrary: l s)
  case Nil
  then show ?case by (auto simp: loop_kept_def)
next
  case (Cons f fs)
  obtain go l1 s1 where one: "upload_one env client mode f l s = ((go, l1), s1)" by (metis prod.collapse)
  from upload_one_kept [OF assms(1,2) one, of fs]
  consider "\<not> go" "paid s1 = paid s" "loop_kept env (f # fs) l l1 []"
    | r where "paid s1 = paid s @ [(pf_local f, r)]" "booked env f r l l1" "go \<or> ul_failure l1 \<noteq> None" by blast
  then show ?case
  proof cases
    case 1
    with Cons.prems one show ?thesis by (intro exI [of _ "[]"]) simp
  next
    case (2 r)
    show ?thesis
    proof (cases go)
      case True
      with Cons.prems one have "upload_files env client mode fs l1 s1 = (l', s')" by simp
      from Cons.IH [OF this] 2(1,2) show ?thesis by (auto intro: loop_kept_Cons)
    next
      case False
      with Cons.prems one 2 show ?thesis
        by (intro exI [of _ "[(pf_local f, r)]"]) (auto intro: loop_kept_booked)
    qed
  qed
qed

lemma pending_names_logs:
  assumes "logs client paid" and "pending_names client fs s = (r, s')"
  shows "paid s' = paid s \<and> (\<forall>names. r = Inr names \<longrightarrow> names = map pf_path fs)"
  using assms(2)
proof (induction fs arbitrary: s r s')
  case (Cons f fs)
  obtain n s1 where n: "bc_metadata_len client (pf_local f) s = (n, s1)" by fastforce
  note p1 = logs_steps(2) [OF assms(1) n]
  obtain r2 s2 where r2: "pending_names client fs s1 = (r2, s2)" by fastforce
  from Cons.IH [OF r2] Cons.prems p1 show ?case
    by (auto simp: n r2 bind_op_def split: option.splits if_splits sum.splits)
qed simp

lemma preflight_logs:
  assumes "logs client paid" and "build_preflight env client b s = (r, s')"
  shows "paid s' = paid s"
  using assms(2) pending_names_logs [OF assms(1), of "mb_pending b" s]
  by (auto simp: build_preflight_def Let_def bind_op_def split: if_splits sum.splits prod.splits)

lemma preflight_ok:
  assumes "logs client paid" and "build_preflight env client b s = (Inr (), s')"
  shows "length (mb_pending b) + length (mb_entries b) \<le> MAX_MANIFEST_ENTRIES"
    and "bo_name (mb_options b) = Some name \<Longrightarrow> validate_component name = Inr ()"
    and "bo_torrent (mb_options b) = Some t \<Longrightarrow> \<not> torrent_is_empty t"
    and "\<exists>others. collect_result (effective_name env) (mb_entries b) = Inr others \<and>
      collision_free env (map pf_path (mb_pending b) @ others)"
proof -
  obtain r2 s2 where r2: "pending_names client (mb_pending b) s = (r2, s2)" by fastforce
  note n = pending_names_logs [OF assms(1) r2]
  have "sat_add (length (mb_pending b)) (length (mb_entries b)) \<le> MAX_MANIFEST_ENTRIES"
    using assms(2) by (auto simp: build_preflight_def Let_def split: if_splits)
  then show "length (mb_pending b) + length (mb_entries b) \<le> MAX_MANIFEST_ENTRIES"
    by (simp add: sat_add_def usize_max_def MAX_MANIFEST_ENTRIES_def)
  show "validate_component name = Inr ()" if "bo_name (mb_options b) = Some name"
    using assms(2) that by (auto simp: build_preflight_def Let_def results split: if_splits sum.splits)
  show "\<not> torrent_is_empty t" if "bo_torrent (mb_options b) = Some t"
    using assms(2) that by (auto simp: build_preflight_def Let_def split: if_splits sum.splits)
  have "bind_result r2 (\<lambda>names. bind_result (collect_result (effective_name env) (mb_entries b))
      (\<lambda>others. map_err Conflict (check_collisions (de_nfc env) (de_upper env) (de_lower env) (names @ others)))) = Inr ()"
    using assms(2) by (auto simp: build_preflight_def Let_def r2 bind_op_def split: if_splits sum.splits)
  then show "\<exists>others. collect_result (effective_name env) (mb_entries b) = Inr others \<and>
      collision_free env (map pf_path (mb_pending b) @ others)"
    using n unfolding bind_result_Inr_iff map_err_Inr_iff collision_free_def by metis
qed

lemma entry_name_valid:
  assumes "\<And>p. me_path e = Some p \<Longrightarrow> validate_path p = Inr ()"
  shows "entry_name env e = effective_name env e"
  using assms by (cases "me_path e") (simp_all add: entry_name_def)

lemma uploaded_names:
  assumes "list_all2 (for_upload env) (zip fs rs) new" and "length rs = length fs"
  shows "collect_result (effective_name env) new = Inr (map pf_path fs)"
proof -
  have "list_all2 (\<lambda>e p. effective_name env e = Inr p) new (map pf_path fs)"
    using assms by (auto simp: list_all2_conv_all_nth for_upload_def effective_name_def)
  then show ?thesis by (simp add: collect_result_Inr_iff)
qed

lemma uploaded_paths:
  assumes "list_all2 (for_upload env) (zip fs rs) new" and "e \<in> set new" and "me_path e = Some p"
  shows "\<exists>f \<in> set fs. p = pf_path f"
proof -
  from assms(1,2) obtain fr where "fr \<in> set (zip fs rs)" "for_upload env fr e"
    by (metis (no_types, lifting) in_set_conv_nth list_all2_conv_all_nth)
  with assms(3) show ?thesis by (cases fr) (auto simp: for_upload_def dest: set_zip_leftD)
qed

lemma built_manifest_valid:
  assumes "logs client paid" and "build_preflight env client b s = (Inr (), s1)" and "builder_ok b"
    and "loop_kept env (mb_pending b) l l' ups" and "ul_entries l = mb_entries b"
  shows "valid env \<lparr>mf_name = bo_name (mb_options b), mf_torrent = bo_torrent (mb_options b), mf_entries = ul_entries l'\<rparr>"
proof -
  note pre = preflight_ok [OF assms(1,2)]
  define fs where "fs = take (length ups) (mb_pending b)"
  from assms(4,5) obtain new where new: "ul_entries l' = mb_entries b @ new"
    "list_all2 (for_upload env) (zip fs (map snd ups)) new" and len: "length ups \<le> length (mb_pending b)" "length fs = length ups"
    by (auto simp: loop_kept_def fs_def)
  obtain others where o: "collect_result (effective_name env) (mb_entries b) = Inr others"
    and free: "collision_free env (map pf_path (mb_pending b) @ others)" using pre(4) by blast
  have "validate_path p = Inr ()" if "e \<in> set (ul_entries l')" "me_path e = Some p" for e p
    using that new(1) uploaded_paths [OF new(2)] assms(3) by (auto simp: builder_ok_def fs_def dest: in_set_takeD)
  then have same: "entry_name env e = effective_name env e" if "e \<in> set (ul_entries l')" for e
    using that by (intro entry_name_valid) blast
  from o uploaded_names [OF new(2)] len have all: "\<forall>e \<in> set (ul_entries l'). is_ok (effective_name env e)"
    "others @ map pf_path fs = map (\<lambda>e. projr (effective_name env e)) (ul_entries l')"
    unfolding new(1) collect_result_is_ok by auto
  have named: "\<forall>e \<in> set (ul_entries l'). is_ok (entry_name env e)"
    "map (name_of env) (ul_entries l') = others @ map pf_path fs"
    unfolding all(2) using all(1) same by (simp_all add: name_of_def)
  have "map pf_path (mb_pending b) = map pf_path fs @ map pf_path (drop (length ups) (mb_pending b))"
    by (metis append_take_drop_id fs_def map_append)
  then have "mset (others @ map pf_path fs) \<subseteq># mset (map pf_path (mb_pending b) @ others)" by simp
  with free have "collision_free env (others @ map pf_path fs)" by (rule collision_free_sub)
  moreover have "length new = length ups" using list_all2_lengthD [OF new(2)] len by simp
  ultimately show ?thesis using named pre len by (auto simp: valid_def new(1))
qed

text \<open>
  C5: a build never loses an upload it paid for. A build either stops before the first
  upload with the error of its preflight, or ends with a result, complete or partial: the
  error of a file carries the partial result. That result counts every upload that succeeded
  and its manifest, which is valid, holds exactly the entries that were there before and one
  for each upload, under the file's path, with the hash and the content address of what was
  uploaded. A build that ends without an error and was not cancelled has uploaded every file.
\<close>

theorem builds_keep_every_upload:
  assumes "logs client paid" and "addresses_agree env client" and "builder_ok b"
    and "build_finish env client b s = (r, s')"
  shows "\<exists>ups. paid s' = paid s @ ups \<and>
    ((\<exists>e. r = Inl (Plain e) \<and> ups = [] \<and> build_preflight env client b s = (Inl e, s')) \<or>
     (\<exists>result new.
        (r = Inr result \<and> (br_cancelled result \<or> length ups = length (mb_pending b)) \<or>
         (\<exists>path cause. r = Inl (WithPartial path cause result))) \<and>
        br_files_uploaded result = length ups \<and> br_total_to_upload result = length (mb_pending b) \<and>
        br_gas_cost_wei result = foldl sat_add_u128 0 (map (\<lambda>u. fu_gas_cost_wei (snd u)) ups) \<and>
        map fst ups = map pf_local (take (length ups) (mb_pending b)) \<and>
        validate env (br_manifest result) = Inr () \<and>
        mset (mf_entries (br_manifest result)) = mset (mb_entries b @ new) \<and>
        list_all2 (for_upload env) (zip (take (length ups) (mb_pending b)) (map snd ups)) new))"
proof -
  obtain q s1 where q: "build_preflight env client b s = (q, s1)" by fastforce
  note p1 = preflight_logs [OF assms(1) q]
  show ?thesis
  proof (cases q)
    case (Inl e)
    with assms(4) q p1 show ?thesis by (auto simp: build_finish_def)
  next
    case (Inr unit)
    let ?l0 = "\<lparr>ul_entries = mb_entries b, ul_files_uploaded = 0, ul_chunks_stored = 0, ul_storage_cost = 0, ul_gas_cost = 0,
      ul_cancelled = False, ul_failure = None\<rparr>"
    obtain l s2 where l: "upload_files env client (bo_reference_mode (mb_options b)) (mb_pending b) ?l0 s1 = (l, s2)" by fastforce
    from upload_files_kept [OF assms(1,2) l] obtain ups where ups: "paid s2 = paid s1 @ ups"
      and kept: "loop_kept env (mb_pending b) ?l0 l ups" by blast
    let ?m = "\<lparr>mf_name = bo_name (mb_options b), mf_torrent = bo_torrent (mb_options b), mf_entries = ul_entries l\<rparr>"
    have v: "valid env ?m"
      using built_manifest_valid [OF assms(1) _ assms(3) kept] q Inr by simp
    then obtain c where c: "canonicalize env ?m = Inr c" "mset (mf_entries c) = mset (ul_entries l)"
      by (simp add: canonicalize_iff)
    then have vc: "validate env c = Inr ()" by (simp add: validate_iff valid_canonical)
    from kept obtain new where new: "ul_entries l = mb_entries b @ new"
      "list_all2 (for_upload env) (zip (take (length ups) (mb_pending b)) (map snd ups)) new"
      by (auto simp: loop_kept_def)
    define result where "result = \<lparr>br_manifest = c, br_cancelled = ul_cancelled l, br_skipped_symlinks = mb_skipped b,
      br_files_uploaded = ul_files_uploaded l, br_total_to_upload = length (mb_pending b),
      br_chunks_stored = ul_chunks_stored l, br_storage_cost_atto = ul_storage_cost l, br_gas_cost_wei = ul_gas_cost l\<rparr>"
    have run: "r = (case ul_failure l of Some (path, cause) \<Rightarrow> Inl (WithPartial path cause result) | None \<Rightarrow> Inr result) \<and> s' = s2"
      using assms(4) q Inr l c(1) by (auto simp: build_finish_def Let_def result_def split: option.splits)
    then have "r = Inr result \<and> (br_cancelled result \<or> length ups = length (mb_pending b)) \<or>
        (\<exists>path cause. r = Inl (WithPartial path cause result))"
      using kept by (auto simp: loop_kept_def result_def split: option.splits)
    moreover have "paid s' = paid s @ ups" using run ups p1 by simp
    moreover have "br_files_uploaded result = length ups" "br_total_to_upload result = length (mb_pending b)"
      "br_gas_cost_wei result = foldl sat_add_u128 0 (map (\<lambda>u. fu_gas_cost_wei (snd u)) ups)"
      "map fst ups = map pf_local (take (length ups) (mb_pending b))"
      "validate env (br_manifest result) = Inr ()" "mset (mf_entries (br_manifest result)) = mset (mb_entries b @ new)"
      using kept vc c(2) new(1) by (simp_all add: loop_kept_def result_def)
    ultimately show ?thesis using new(2) by blast
  qed
qed

text \<open>
  A client that uploads one file, whose state is the log of the uploads and the number of calls
  after which the build is cancelled.
\<close>

definition demo_upload :: "(chunk_info list \<times> nat option) file_upload_result" where
  "demo_upload = \<lparr>fu_data_map = ([\<lparr>ci_index = 0, ci_dst_hash = replicate 32 1, ci_src_hash = replicate 32 2,
     ci_src_size = 9\<rparr>], None), fu_data_map_address = None, fu_sha256 = replicate 32 3, fu_chunks_stored = 1,
     fu_storage_cost_atto = ''12'', fu_gas_cost_wei = 7\<rparr>"

definition demo_build_client ::
  "((os_path \<times> (chunk_info list \<times> nat option) file_upload_result) list, chunk_info list \<times> nat option) build_client" where
  "demo_build_client = \<lparr>bc_min_encryptable_bytes = 3, bc_cancelled = (\<lambda>s. (False, s)), bc_metadata_len = (\<lambda>p s. (Some 9, s)),
     bc_upload = (\<lambda>p s. if s = [] then (Uploaded demo_upload, s @ [(p, demo_upload)]) else (UploadFailed Timeout, s)),
     bc_resolve_root = (\<lambda>m s. (Inr m, s)), bc_chunk_exists = (\<lambda>a s. (Inr True, s))\<rparr>"

definition demo_builder :: "(chunk_info list \<times> nat option) builder" where
  "demo_builder = \<lparr>mb_options = \<lparr>bo_name = None, bo_torrent = None, bo_reference_mode = ModeEmbedded, bo_follow_symlinks = False\<rparr>,
     mb_pending = [\<lparr>pf_local = [[98]], pf_path = of_ascii ''b/c''\<rparr>, \<lparr>pf_local = [[97]], pf_path = of_ascii ''a''\<rparr>],
     mb_entries = [], mb_skipped = []\<rparr>"

lemma demo_logs: "logs demo_build_client (\<lambda>s. s)"
  by (auto simp: logs_def demo_build_client_def)

lemma demo_addresses: "addresses_agree plain_env demo_build_client"
  by (auto simp: addresses_agree_def demo_build_client_def demo_upload_def split: if_splits)

lemma demo_builder_ok: "builder_ok demo_builder"
  using demo_paths by (simp add: builder_ok_def demo_builder_def)

lemma demo_preflight: "build_preflight plain_env demo_build_client demo_builder [] = (Inr (), [])"
  using demo_collisions
  by (simp add: build_preflight_def demo_builder_def demo_build_client_def Let_def bind_op_def sat_add_def usize_max_def
      MAX_MANIFEST_ENTRIES_def plain_env_def)

lemma demo_cost: "parse_atto ''12'' = Inr 12"
  by (simp add: parse_atto_def parse_unsigned_def is_ascii_digit_def digits_value_def)

lemma demo_upload_files:
  "\<exists>l. upload_files plain_env demo_build_client ModeEmbedded (mb_pending demo_builder)
      \<lparr>ul_entries = [], ul_files_uploaded = 0, ul_chunks_stored = 0, ul_storage_cost = 0, ul_gas_cost = 0,
       ul_cancelled = False, ul_failure = None\<rparr> [] = (l, [([[98]], demo_upload)]) \<and> ul_failure l = Some (of_ascii ''a'', Data Timeout)"
  by (simp add: demo_builder_def demo_build_client_def demo_upload_def demo_cost Let_def reference_for_def bind_op_def
      embeddable_data_map_def is_child_def plain_env_def plain_map_api_def book_upload_def set_last_source_def
      upload_one_def settle_upload_def)

lemma demo_projections: "bo_reference_mode (mb_options demo_builder) = ModeEmbedded" "mb_entries demo_builder = []"
  "length (mb_pending demo_builder) = 2"
  by (simp_all add: demo_builder_def)

lemma demo_finish:
  assumes "build_finish plain_env demo_build_client demo_builder [] = (r, s')"
  shows "s' = [([[98]], demo_upload)]" "\<And>result. r \<noteq> Inr result"
  using assms demo_upload_files
  by (auto simp: build_finish_def demo_preflight Let_def demo_projections split: sum.splits)

theorem builds_keep_every_upload_witness:
  "\<exists>path cause result s'. build_finish plain_env demo_build_client demo_builder [] = (Inl (WithPartial path cause result), s') \<and>
     s' = [([[98]], demo_upload)] \<and> br_files_uploaded result = 1 \<and> length (mf_entries (br_manifest result)) = 1 \<and>
     validate plain_env (br_manifest result) = Inr ()"
proof -
  obtain r s' where run: "build_finish plain_env demo_build_client demo_builder [] = (r, s')" by fastforce
  note f = demo_finish [OF run]
  from builds_keep_every_upload [OF demo_logs demo_addresses demo_builder_ok run] f demo_preflight
  obtain path cause result new z where r: "r = Inl (WithPartial path cause result)" "br_files_uploaded result = 1"
    "validate plain_env (br_manifest result) = Inr ()"
    and m: "mset (mf_entries (br_manifest result)) = mset (mb_entries demo_builder @ new)"
    and new: "list_all2 (for_upload plain_env) [(z, demo_upload)] new"
    by auto
  have "length new = 1" using list_all2_lengthD [OF new] by simp
  with m have "length (mf_entries (br_manifest result)) = 1" by (metis append_Nil demo_projections(2) size_mset)
  with r run f(1) show ?thesis by blast
qed

end
