(* ===== verification/Manifest_Extract.thy ===== *)
theory Manifest_Extract
  imports Manifest_Links
begin

text \<open>
  Extracting a manifest, \<^verbatim>\<open>ant-core/src/data/manifest/extract.rs\<close>: selection, the
  containment checks around the download of an entry, and the report. The file system maps a
  physical path, a list of names from its top, to what is there; a path the code forms is a list
  of names below the output root, which the system resolves name by name and through symlinks.
  Where a symlink leads is the argument \<open>leads\<close>. While a download runs, anything else may
  change the files: \<open>dr_meanwhile\<close> is that change, of any kind. The temporary file an entry
  is downloaded into has a reserved name and is not part of the model.
\<close>

type_synonym fs_path = "utext list"

datatype fs_node = FDir | FFile bytes | FLink

type_synonym fs = "fs_path \<rightharpoonup> fs_node"
type_synonym leads_to = "fs \<Rightarrow> fs_path \<Rightarrow> fs_path option"

definition DOT :: utext where "DOT = [0x2E]"
definition DOTDOT :: utext where "DOTDOT = [0x2E, 0x2E]"

datatype located = At fs_path | LNotFound | LNotDir

text \<open>The directory a path leads to from the physical directory \<open>d\<close>.\<close>

fun locate :: "leads_to \<Rightarrow> fs \<Rightarrow> fs_path \<Rightarrow> utext list \<Rightarrow> located" where
  "locate leads f d [] = At d"
| "locate leads f d (c # cs) =
     (if c = [] \<or> c = DOT then locate leads f d cs
      else if c = DOTDOT then locate leads f (butlast d) cs
      else case f (d @ [c]) of
        None \<Rightarrow> LNotFound
      | Some FDir \<Rightarrow> locate leads f (d @ [c]) cs
      | Some (FFile _) \<Rightarrow> LNotDir
      | Some FLink \<Rightarrow> (case leads f (d @ [c]) of Some d' \<Rightarrow> locate leads f d' cs | None \<Rightarrow> LNotFound))"

datatype metadata = MetaNotFound | MetaError | Meta fs_node

definition is_special :: "utext \<Rightarrow> bool" where
  "is_special c \<longleftrightarrow> c = [] \<or> c = DOT \<or> c = DOTDOT"

definition symlink_metadata :: "leads_to \<Rightarrow> fs \<Rightarrow> fs_path \<Rightarrow> utext list \<Rightarrow> metadata" where
  "symlink_metadata leads f root cs =
     (case locate leads f root (butlast cs) of
        LNotFound \<Rightarrow> MetaNotFound
      | LNotDir \<Rightarrow> MetaError
      | At p \<Rightarrow>
          if is_special (List.last cs) then Meta FDir
          else (case f (p @ [List.last cs]) of None \<Rightarrow> MetaNotFound | Some n \<Rightarrow> Meta n))"

definition create_dir :: "leads_to \<Rightarrow> fs \<Rightarrow> fs_path \<Rightarrow> utext list \<Rightarrow> fs" where
  "create_dir leads f root cs =
     (case locate leads f root (butlast cs) of
        At p \<Rightarrow> if is_special (List.last cs) \<or> f (p @ [List.last cs]) \<noteq> None then f else f(p @ [List.last cs] \<mapsto> FDir)
      | _ \<Rightarrow> f)"

text \<open>Renaming the downloaded file over its target, which is replaced and never followed.\<close>

definition persist ::
  "leads_to \<Rightarrow> bool \<Rightarrow> bytes \<Rightarrow> fs \<Rightarrow> fs_path \<Rightarrow> utext list \<Rightarrow> (manifest_error, unit) result \<times> fs" where
  "persist leads overwrite content f root cs =
     (case locate leads f root (butlast cs) of
        At p \<Rightarrow>
          let target = p @ [List.last cs]
          in if is_special (List.last cs) \<or> f target = Some FDir \<or> (\<not> overwrite \<and> f target \<noteq> None) then (Inl Io, f)
             else (Inr (), f(target \<mapsto> FFile content))
      | _ \<Rightarrow> (Inl Io, f))"

subsection \<open>Containment\<close>

fun verify_directory :: "fs_node \<Rightarrow> (manifest_error, unit) result" where
  "verify_directory FDir = Inr ()"
| "verify_directory FLink = Inl Build"
| "verify_directory (FFile _) = Inl Build"

text \<open>\<open>deny cs\<close>: the system refuses to create the directory.\<close>

definition ensure_real_directory ::
  "leads_to \<Rightarrow> (utext list \<Rightarrow> bool) \<Rightarrow> fs \<Rightarrow> fs_path \<Rightarrow> utext list \<Rightarrow> (manifest_error, unit) result \<times> fs" where
  "ensure_real_directory leads deny f root cs =
     (case symlink_metadata leads f root cs of
        Meta meta \<Rightarrow> (verify_directory meta, f)
      | MetaError \<Rightarrow> (Inl Io, f)
      | MetaNotFound \<Rightarrow>
          if deny cs then (Inl Io, f)
          else let f' = create_dir leads f root cs
               in case symlink_metadata leads f' root cs of
                    Meta meta \<Rightarrow> (verify_directory meta, f')
                  | _ \<Rightarrow> (Inl Io, f'))"

definition check_target ::
  "leads_to \<Rightarrow> bool \<Rightarrow> fs \<Rightarrow> fs_path \<Rightarrow> utext list \<Rightarrow> (manifest_error, unit) result" where
  "check_target leads overwrite f root target =
     (case symlink_metadata leads f root target of
        MetaNotFound \<Rightarrow> Inr ()
      | MetaError \<Rightarrow> Inl Io
      | Meta meta \<Rightarrow>
          if meta = FLink then Inl Build
          else if \<not> overwrite then Inl Build
          else (case meta of FFile _ \<Rightarrow> Inr () | _ \<Rightarrow> Inl Build))"

fun prepare_components ::
  "leads_to \<Rightarrow> (utext list \<Rightarrow> bool) \<Rightarrow> bool \<Rightarrow> fs_path \<Rightarrow> utext list \<Rightarrow> utext list \<Rightarrow> fs \<Rightarrow>
     (manifest_error, utext list) result \<times> fs" where
  "prepare_components leads deny overwrite root current [] f = (Inl Build, f)"
| "prepare_components leads deny overwrite root current [c] f =
     (bind_result (check_target leads overwrite f root (current @ [c])) (\<lambda>_. Inr (current @ [c])), f)"
| "prepare_components leads deny overwrite root current (c # cs) f =
     (case ensure_real_directory leads deny f root (current @ [c]) of
        (Inl e, f') \<Rightarrow> (Inl e, f')
      | (Inr _, f') \<Rightarrow> prepare_components leads deny overwrite root (current @ [c]) cs f')"

definition prepare_target ::
  "leads_to \<Rightarrow> (utext list \<Rightarrow> bool) \<Rightarrow> fs_path \<Rightarrow> utext \<Rightarrow> bool \<Rightarrow> fs \<Rightarrow> (manifest_error, utext list) result \<times> fs" where
  "prepare_target leads deny root name overwrite f =
     prepare_components leads deny overwrite root [] (split_on PATH_SEPARATOR name) f"

fun verify_chain ::
  "leads_to \<Rightarrow> fs \<Rightarrow> fs_path \<Rightarrow> utext list \<Rightarrow> utext list \<Rightarrow> (manifest_error, unit) result" where
  "verify_chain leads f root current [] = Inr ()"
| "verify_chain leads f root current [c] = Inr ()"
| "verify_chain leads f root current (c # cs) =
     (case symlink_metadata leads f root (current @ [c]) of
        Meta meta \<Rightarrow> bind_result (verify_directory meta) (\<lambda>_. verify_chain leads f root (current @ [c]) cs)
      | _ \<Rightarrow> Inl Io)"

definition verify_parent_chain :: "leads_to \<Rightarrow> fs \<Rightarrow> fs_path \<Rightarrow> utext \<Rightarrow> (manifest_error, unit) result" where
  "verify_parent_chain leads f root name = verify_chain leads f root [] (split_on PATH_SEPARATOR name)"

subsection \<open>Selection\<close>

definition selector_matches :: "utext \<Rightarrow> utext \<Rightarrow> bool" where
  "selector_matches selector name \<longleftrightarrow>
     (let sel = trim_end_matches (\<lambda>c. c = PATH_SEPARATOR) selector
      in name = sel \<or> (take (length sel) name = sel \<and> length sel < length name \<and> name ! length sel = PATH_SEPARATOR))"

definition select_entries ::
  "'m doc_env \<Rightarrow> 'm manifest \<Rightarrow> utext list \<Rightarrow> (manifest_error, (utext \<times> 'm manifest_entry) list) result" where
  "select_entries env m selection =
     bind_result (collect_result (\<lambda>e. bind_result (effective_name env e) (\<lambda>name. Inr (name, e))) (mf_entries m))
       (\<lambda>named. if selection = [] then Inr named
                else if list_ex (\<lambda>sel. \<not> list_ex (\<lambda>ne. selector_matches sel (fst ne)) named) selection then Inl Build
                else Inr (filter (\<lambda>ne. list_ex (\<lambda>sel. selector_matches sel (fst ne)) selection) named))"

subsection \<open>Downloading an entry\<close>

text \<open>
  What happens outside while one entry is downloaded: the answers of the client for the
  DataMap and its root, the free space, the reserved temporary file, the downloaded bytes, the
  reading of the file for its hash, and what else changes the files meanwhile.
\<close>

record 'm download_run =
  dr_data_map_fetch :: "key \<Rightarrow> (error, 'm) result"
  dr_resolve_root :: "'m \<Rightarrow> (error, 'm) result"
  dr_available_space :: "nat option"
  dr_tempfile :: bool
  dr_download :: "'m \<Rightarrow> (error, bytes) result"
  dr_hashing :: bool
  dr_meanwhile :: "fs \<Rightarrow> fs"
  dr_deny :: "utext list \<Rightarrow> bool"
  dr_cancelled_before :: bool
  dr_cancelled_during :: "bool option"

definition original_file_size :: "'m doc_env \<Rightarrow> 'm \<Rightarrow> nat" where
  "original_file_size env data_map = sum_list (map ci_src_size (dm_infos (de_map env) data_map))"

definition ensure_space :: "nat option \<Rightarrow> nat \<Rightarrow> (manifest_error, unit) result" where
  "ensure_space available needed =
     (case available of
        None \<Rightarrow> Inr ()
      | Some free \<Rightarrow> if free < min needed (2 ^ 64 - 1) then Inl (Data InsufficientDiskSpace) else Inr ())"

definition resolve_data_map :: "'m download_run \<Rightarrow> 'm content_ref \<Rightarrow> (manifest_error, 'm) result" where
  "resolve_data_map dr source =
     (case source of
        Embedded data_map \<Rightarrow> Inr data_map
      | Public address \<Rightarrow> map_err Data (dr_data_map_fetch dr address))"

definition check_sha256 :: "(bytes \<Rightarrow> bytes) \<Rightarrow> bool \<Rightarrow> bytes option \<Rightarrow> bytes \<Rightarrow> (manifest_error, unit) result" where
  "check_sha256 sha256 hashing expected content =
     (case expected of
        None \<Rightarrow> Inr ()
      | Some hash \<Rightarrow>
          if \<not> hashing then Inl Io
          else if sha256 content \<noteq> hash then Inl Sha256Mismatch else Inr ())"

text \<open>What is downloaded before anything takes its name: the bytes, checked.\<close>

definition fetch_entry ::
  "'m doc_env \<Rightarrow> (bytes \<Rightarrow> bytes) \<Rightarrow> 'm download_run \<Rightarrow> 'm manifest_entry \<Rightarrow> (manifest_error, bytes) result" where
  "fetch_entry env sha256 dr entry =
     bind_result (resolve_data_map dr (me_source entry)) (\<lambda>data_map.
     bind_result (map_err Data (dr_resolve_root dr data_map)) (\<lambda>root_map.
     bind_result (ensure_space (dr_available_space dr) (original_file_size env root_map)) (\<lambda>_.
       if \<not> dr_tempfile dr then Inl Io
       else bind_result (map_err Data (dr_download dr root_map)) (\<lambda>content.
         bind_result (check_sha256 sha256 (dr_hashing dr) (me_sha256 entry) content) (\<lambda>_. Inr content)))))"

definition download_entry ::
  "'m doc_env \<Rightarrow> (bytes \<Rightarrow> bytes) \<Rightarrow> leads_to \<Rightarrow> fs_path \<Rightarrow> bool \<Rightarrow> 'm download_run \<Rightarrow> 'm manifest_entry \<Rightarrow> utext \<Rightarrow> fs \<Rightarrow>
     (manifest_error, nat) result \<times> fs" where
  "download_entry env sha256 leads root overwrite dr entry name f =
     (case prepare_target leads (dr_deny dr) root name overwrite f of
        (Inl e, f1) \<Rightarrow> (Inl e, f1)
      | (Inr target, f1) \<Rightarrow>
          let g = dr_meanwhile dr f1
          in case fetch_entry env sha256 dr entry of
               Inl e \<Rightarrow> (Inl e, g)
             | Inr content \<Rightarrow>
                 (case bind_result (verify_parent_chain leads g root name) (\<lambda>_. check_target leads overwrite g root target) of
                    Inl e \<Rightarrow> (Inl e, g)
                  | Inr _ \<Rightarrow>
                      (case persist leads overwrite content g root target of
                         (Inl e, g') \<Rightarrow> (Inl e, g')
                       | (Inr _, g') \<Rightarrow> (Inr (length content), g'))))"

datatype entry_status = Written nat | Failed | ECancelled

text \<open>
  A cancelled entry is dropped where it waits, which is never between the last check and the
  rename. \<open>dr_cancelled_during\<close> says whether it had prepared its directories by then.
\<close>

definition extract_entry ::
  "'m doc_env \<Rightarrow> (bytes \<Rightarrow> bytes) \<Rightarrow> leads_to \<Rightarrow> fs_path \<Rightarrow> bool \<Rightarrow> 'm download_run \<Rightarrow> 'm manifest_entry \<Rightarrow> utext \<Rightarrow> fs \<Rightarrow>
     entry_status \<times> fs" where
  "extract_entry env sha256 leads root overwrite dr entry name f =
     (if dr_cancelled_before dr then (ECancelled, f)
      else case dr_cancelled_during dr of
        Some prepared \<Rightarrow>
          (ECancelled, if prepared then dr_meanwhile dr (snd (prepare_target leads (dr_deny dr) root name overwrite f)) else f)
      | None \<Rightarrow>
          (case download_entry env sha256 leads root overwrite dr entry name f of
             (Inr n, f') \<Rightarrow> (Written n, f')
           | (Inl e, f') \<Rightarrow> (Failed, f')))"

text \<open>
  The entries finish in the order \<open>order\<close>, a list of indices of selected entries; what the
  others do to the files while one is running is part of its \<open>dr_meanwhile\<close>. The report is
  sorted by index.
\<close>

fun run_entries ::
  "(nat \<Rightarrow> fs \<Rightarrow> entry_status \<times> fs) \<Rightarrow> nat list \<Rightarrow> fs \<Rightarrow> (nat \<times> entry_status) list \<times> fs" where
  "run_entries run [] f = ([], f)"
| "run_entries run (i # order) f =
     (let (status, f') = run i f; (rest, f'') = run_entries run order f' in ((i, status) # rest, f''))"

definition extract_manifest ::
  "'m doc_env \<Rightarrow> (bytes \<Rightarrow> bytes) \<Rightarrow> leads_to \<Rightarrow> fs_path \<Rightarrow> utext list \<Rightarrow> bool \<Rightarrow> bool \<Rightarrow> (nat \<Rightarrow> 'm download_run) \<Rightarrow>
     nat list \<Rightarrow> 'm manifest \<Rightarrow> fs \<Rightarrow> (manifest_error, (utext \<times> entry_status) list) result \<times> fs" where
  "extract_manifest env sha256 leads root selection overwrite root_created runs order m f =
     (case bind_result (validate env m) (\<lambda>_. select_entries env m selection) of
        Inl e \<Rightarrow> (Inl e, f)
      | Inr selected \<Rightarrow>
          if \<not> root_created then (Inl Io, f)
          else let (outcomes, f') = run_entries (\<lambda>i. extract_entry env sha256 leads root overwrite (runs i)
                      (snd (selected ! i)) (fst (selected ! i))) order f
               in (Inr (map (\<lambda>(i, status). (fst (selected ! i), status)) (sort_key fst outcomes)), f'))"

definition report_count :: "(entry_status \<Rightarrow> bool) \<Rightarrow> (utext \<times> entry_status) list \<Rightarrow> nat" where
  "report_count P report = length (filter (\<lambda>r. P (snd r)) report)"

subsection \<open>Paths without symlinks stay where they are\<close>

definition plain :: "utext list \<Rightarrow> bool" where
  "plain cs \<longleftrightarrow> (\<forall>c \<in> set cs. \<not> is_special c)"

definition real_dirs :: "fs \<Rightarrow> fs_path \<Rightarrow> utext list \<Rightarrow> bool" where
  "real_dirs f root cs \<longleftrightarrow> (\<forall>k. 0 < k \<longrightarrow> k \<le> length cs \<longrightarrow> f (root @ take k cs) = Some FDir)"

lemma plain_simps [simp]: "plain []" "plain (c # cs) \<longleftrightarrow> \<not> is_special c \<and> plain cs"
  "plain (cs @ ds) \<longleftrightarrow> plain cs \<and> plain ds"
  by (auto simp: plain_def)

lemma real_dirs_Nil [simp]: "real_dirs f root []"
  by (simp add: real_dirs_def)

lemma real_dirs_snoc: "real_dirs f root (cs @ [c]) \<longleftrightarrow> real_dirs f root cs \<and> f (root @ cs @ [c]) = Some FDir"
proof
  assume *: "real_dirs f root (cs @ [c])"
  have "f (root @ take k cs) = Some FDir" if "0 < k" "k \<le> length cs" for k
    using * that unfolding real_dirs_def by (auto dest!: spec [of _ k])
  moreover have "f (root @ cs @ [c]) = Some FDir"
    using * unfolding real_dirs_def by (auto dest!: spec [of _ "Suc (length cs)"])
  ultimately show "real_dirs f root cs \<and> f (root @ cs @ [c]) = Some FDir" by (simp add: real_dirs_def)
next
  assume "real_dirs f root cs \<and> f (root @ cs @ [c]) = Some FDir"
  then show "real_dirs f root (cs @ [c])" by (auto simp: real_dirs_def le_Suc_eq)
qed

lemma real_dirs_Cons: "real_dirs f root (c # cs) \<longleftrightarrow> f (root @ [c]) = Some FDir \<and> real_dirs f (root @ [c]) cs"
proof
  assume *: "real_dirs f root (c # cs)"
  then have "f (root @ [c]) = Some FDir" unfolding real_dirs_def by (auto dest!: spec [of _ 1])
  moreover have "f ((root @ [c]) @ take k cs) = Some FDir" if "0 < k" "k \<le> length cs" for k
    using * that unfolding real_dirs_def by (auto dest!: spec [of _ "Suc k"])
  ultimately show "f (root @ [c]) = Some FDir \<and> real_dirs f (root @ [c]) cs" by (simp add: real_dirs_def)
next
  assume *: "f (root @ [c]) = Some FDir \<and> real_dirs f (root @ [c]) cs"
  have "f (root @ take k (c # cs)) = Some FDir" if k: "0 < k" "k \<le> length (c # cs)" for k
  proof (cases "k = 1")
    case False
    with k obtain j where "k = Suc j" "0 < j" "j \<le> length cs" by (cases k) auto
    with * show ?thesis by (simp add: real_dirs_def)
  qed (use * in simp)
  then show "real_dirs f root (c # cs)" by (simp add: real_dirs_def)
qed

lemma locate_real: "plain cs \<Longrightarrow> real_dirs f root cs \<Longrightarrow> locate leads f root cs = At (root @ cs)"
  by (induction cs arbitrary: root) (simp_all add: real_dirs_Cons is_special_def)

lemma metadata_real:
  assumes "plain (cs @ [c])" and "real_dirs f root cs"
  shows "symlink_metadata leads f root (cs @ [c]) =
    (case f (root @ cs @ [c]) of None \<Rightarrow> MetaNotFound | Some n \<Rightarrow> Meta n)"
  using assms locate_real [of cs f root leads] by (simp add: symlink_metadata_def)

lemma verify_chain_real:
  assumes "verify_chain leads f root current rest = Inr ()" and "plain (current @ rest)" and "real_dirs f root current"
  shows "real_dirs f root (current @ butlast rest)"
  using assms
proof (induction leads f root current rest rule: verify_chain.induct)
  case (3 leads f root current c d cs)
  from "3.prems" have m: "symlink_metadata leads f root (current @ [c]) =
      (case f (root @ current @ [c]) of None \<Rightarrow> MetaNotFound | Some n \<Rightarrow> Meta n)" by (intro metadata_real) auto
  then have dir: "f (root @ current @ [c]) = Some FDir"
    and go: "verify_chain leads f root (current @ [c]) (d # cs) = Inr ()"
    using "3.prems"(1) by (auto simp: results split: option.splits elim: verify_directory.elims)
  have "real_dirs f root ((current @ [c]) @ butlast (d # cs))"
    using "3.IH" [of FDir] m dir go "3.prems" by (simp add: real_dirs_snoc)
  then show ?case by simp
qed simp_all

definition only_directories_added :: "fs \<Rightarrow> fs \<Rightarrow> fs_path \<Rightarrow> utext list \<Rightarrow> bool" where
  "only_directories_added f f' root cs \<longleftrightarrow>
     (\<forall>p. f' p \<noteq> f p \<longrightarrow> f p = None \<and> f' p = Some FDir \<and> (\<exists>k. 0 < k \<and> k < length cs \<and> p = root @ take k cs))"

lemma only_directories_refl [simp]: "only_directories_added f f root cs"
  by (simp add: only_directories_added_def)

lemma only_directories_trans:
  "only_directories_added f g root cs \<Longrightarrow> only_directories_added g h root cs \<Longrightarrow> only_directories_added f h root cs"
  unfolding only_directories_added_def by metis

lemma only_directories_real:
  "only_directories_added f f' root cs \<Longrightarrow> real_dirs f root ds \<Longrightarrow> real_dirs f' root ds"
  unfolding only_directories_added_def real_dirs_def by (metis option.distinct(1))

lemma only_directories_one:
  assumes "f (root @ current @ [c]) = None" and "ds \<noteq> []"
  shows "only_directories_added f (f(root @ current @ [c] \<mapsto> FDir)) root (current @ c # ds)"
  using assms by (auto simp: only_directories_added_def split: if_splits intro!: exI [of _ "Suc (length current)"])

lemma ensure_real:
  assumes "ensure_real_directory leads deny f root (current @ [c]) = (r, f')"
    and "plain (current @ [c])" and "real_dirs f root current"
  shows "f' = f \<or> (f (root @ current @ [c]) = None \<and> f' = f(root @ current @ [c] \<mapsto> FDir))"
    and "r = Inr () \<Longrightarrow> real_dirs f' root (current @ [c])"
proof -
  let ?p = "root @ current @ [c]"
  have m: "symlink_metadata leads f root (current @ [c]) = (case f ?p of None \<Rightarrow> MetaNotFound | Some n \<Rightarrow> Meta n)"
    using assms(2,3) by (rule metadata_real)
  have created: "create_dir leads f root (current @ [c]) = f(?p \<mapsto> FDir)" if "f ?p = None"
    using that assms(2,3) locate_real [of current f root leads] by (simp add: create_dir_def)
  show "f' = f \<or> (f ?p = None \<and> f' = f(?p \<mapsto> FDir))"
    using assms(1) m created
    by (auto simp: ensure_real_directory_def Let_def split: option.splits if_splits metadata.splits)
  show "real_dirs f' root (current @ [c])" if r: "r = Inr ()"
  proof (cases "f ?p")
    case None
    then have "only_directories_added f (f(?p \<mapsto> FDir)) root (current @ [c, c])" by (simp add: only_directories_one)
    then have "real_dirs (f(?p \<mapsto> FDir)) root current" using assms(3) by (rule only_directories_real)
    moreover have "f' = f(?p \<mapsto> FDir)"
      using assms(1) m None created r by (auto simp: ensure_real_directory_def Let_def split: if_splits metadata.splits)
    ultimately show ?thesis by (simp add: real_dirs_snoc)
  next
    case (Some n)
    with assms(1) m r have "verify_directory n = Inr ()" "f' = f" by (auto simp: ensure_real_directory_def)
    with Some assms(3) show ?thesis by (cases n) (auto simp: real_dirs_snoc)
  qed
qed

lemma prepare_adds_directories:
  assumes "prepare_components leads deny overwrite root current rest f = (r, f')"
    and "plain (current @ rest)" and "real_dirs f root current"
  shows "only_directories_added f f' root (current @ rest) \<and> (\<forall>t. r = Inr t \<longrightarrow> t = current @ rest)"
  using assms
proof (induction leads deny overwrite root current rest f rule: prepare_components.induct)
  case (3 leads deny overwrite root current c d cs f)
  obtain q g where q: "ensure_real_directory leads deny f root (current @ [c]) = (q, g)" by fastforce
  note e = ensure_real [OF q]
  have one: "only_directories_added f g root (current @ c # d # cs)"
    using e(1) "3.prems"(2,3) by (auto simp: only_directories_one)
  show ?case
  proof (cases q)
    case (Inl x)
    with "3.prems"(1) q one show ?thesis by auto
  next
    case (Inr u)
    with e(2) "3.prems" have "real_dirs g root (current @ [c])" by simp
    with "3.IH" [of q g u] q Inr "3.prems" have "only_directories_added g f' root ((current @ [c]) @ d # cs) \<and>
        (\<forall>t. r = Inr t \<longrightarrow> t = (current @ [c]) @ d # cs)" by simp
    with only_directories_trans [OF one] show ?thesis by simp
  qed
qed (auto simp: results)

subsection \<open>Extraction stays inside the output directory\<close>

lemma validate_all_iff: "validate_all cs = Inr () \<longleftrightarrow> (\<forall>c \<in> set cs. validate_component c = Inr ())"
  by (induction cs) (auto simp: results)

lemma valid_path_plain:
  assumes "validate_path name = Inr ()"
  shows "plain (split_on PATH_SEPARATOR name)" "split_on PATH_SEPARATOR name \<noteq> []"
proof -
  have "validate_all (split_on PATH_SEPARATOR name) = Inr ()" using assms by (auto simp: validate_path_def split: if_splits)
  then show "plain (split_on PATH_SEPARATOR name)"
    by (auto simp: validate_all_iff validate_component_ok plain_def is_special_def DOT_def DOTDOT_def)
  show "split_on PATH_SEPARATOR name \<noteq> []" by (cases name) (auto split: list.splits)
qed

lemma check_target_real:
  assumes "check_target leads overwrite f root (cs @ [c]) = Inr ()" and "plain (cs @ [c])" and "real_dirs f root cs"
  shows "f (root @ cs @ [c]) = None \<or> (overwrite \<and> (\<exists>old. f (root @ cs @ [c]) = Some (FFile old)))"
  using assms(1) metadata_real [OF assms(2,3), of leads]
  by (auto simp: check_target_def split: option.splits if_splits fs_node.splits)

lemma persist_real:
  assumes "persist leads overwrite content f root (cs @ [c]) = (Inr u, f')" and "plain (cs @ [c])" and "real_dirs f root cs"
  shows "f' = f(root @ cs @ [c] \<mapsto> FFile content)"
  using assms locate_real [of cs f root leads] by (auto simp: persist_def Let_def split: if_splits)

lemma persist_failed: "persist leads overwrite content f root cs = (Inl e, f') \<Longrightarrow> f' = f"
  by (auto simp: persist_def Let_def split: located.splits if_splits)

lemma download_contained:
  assumes "validate_path name = Inr ()"
    and "download_entry env sha256 leads root overwrite dr entry name f = (r, f')"
  defines "cs \<equiv> split_on PATH_SEPARATOR name"
    and "f1 \<equiv> snd (prepare_target leads (dr_deny dr) root name overwrite f)"
  shows "only_directories_added f f1 root cs \<and>
    (\<forall>e. r = Inl e \<longrightarrow> f' = f1 \<or> f' = dr_meanwhile dr f1) \<and>
    (\<forall>n. r = Inr n \<longrightarrow> (\<exists>content. n = length content \<and>
       fetch_entry env sha256 dr entry = Inr content \<and>
       (\<forall>hash. me_sha256 entry = Some hash \<longrightarrow> sha256 content = hash) \<and>
       real_dirs (dr_meanwhile dr f1) root (butlast cs) \<and>
       (dr_meanwhile dr f1 (root @ cs) = None \<or> (overwrite \<and> (\<exists>old. dr_meanwhile dr f1 (root @ cs) = Some (FFile old)))) \<and>
       f' = (dr_meanwhile dr f1)(root @ cs \<mapsto> FFile content)))"
proof -
  have plain: "plain cs" "cs \<noteq> []" using valid_path_plain [OF assms(1)] by (simp_all add: cs_def)
  then obtain ds c where cs: "cs = ds @ [c]" by (metis append_butlast_last_id)
  obtain q where q: "prepare_target leads (dr_deny dr) root name overwrite f = (q, f1)"
    by (metis f1_def prod.collapse)
  then have "prepare_components leads (dr_deny dr) overwrite root [] cs f = (q, f1)" by (simp add: prepare_target_def cs_def)
  from prepare_adds_directories [OF this] plain(1) have added: "only_directories_added f f1 root cs"
    and target: "\<And>t. q = Inr t \<Longrightarrow> t = cs" by simp_all
  let ?g = "dr_meanwhile dr f1"
  show ?thesis
  proof (cases q)
    case (Inl e)
    with assms(2) q added show ?thesis by (auto simp: download_entry_def)
  next
    case (Inr t)
    then have t: "t = cs" by (rule target)
    show ?thesis
    proof (cases "\<exists>content. fetch_entry env sha256 dr entry = Inr content \<and> verify_parent_chain leads ?g root name = Inr () \<and>
        check_target leads overwrite ?g root cs = Inr ()")
      case False
      with assms(2) q Inr t added show ?thesis
        by (auto simp: download_entry_def Let_def results split: sum.splits)
    next
      case True
      then obtain content where content: "fetch_entry env sha256 dr entry = Inr content"
        and chain: "verify_chain leads ?g root [] cs = Inr ()" and free: "check_target leads overwrite ?g root cs = Inr ()"
        by (auto simp: verify_parent_chain_def cs_def)
      have dirs: "real_dirs ?g root ds" using verify_chain_real [OF chain] plain(1) by (simp add: cs)
      obtain u g' where u: "persist leads overwrite content ?g root cs = (u, g')" by fastforce
      have run: "r = bind_result u (\<lambda>_. Inr (length content)) \<and> f' = g'"
        using assms(2) q Inr t content chain free u
        by (auto simp: download_entry_def Let_def verify_parent_chain_def cs_def [symmetric] split: sum.splits)
      have hash: "sha256 content = hash" if "me_sha256 entry = Some hash" for hash
        using content that by (auto simp: fetch_entry_def check_sha256_def results split: if_splits)
      show ?thesis
      proof (cases u)
        case Inl': (Inl e)
        with run persist_failed u added show ?thesis by auto
      next
        case Inr': (Inr x)
        have "g' = ?g(root @ cs \<mapsto> FFile content)"
          using persist_real [of leads overwrite content ?g root ds c x g'] u Inr' plain(1) dirs by (simp add: cs)
        with run Inr' content hash dirs check_target_real [of leads overwrite ?g root ds c] free plain(1) added show ?thesis
          by (auto simp: cs)
      qed
    qed
  qed
qed


text \<open>
  A symlink takes the place of the directory while the entry is downloaded: the run fails and
  leaves it alone. Without that, the entry is written.
\<close>

definition demo_run :: "(fs \<Rightarrow> fs) \<Rightarrow> (chunk_info list \<times> nat option) download_run" where
  "demo_run meanwhile = \<lparr>dr_data_map_fetch = (\<lambda>a. Inr ([], None)), dr_resolve_root = Inr, dr_available_space = None,
     dr_tempfile = True, dr_download = (\<lambda>m. Inr [1, 2, 3]), dr_hashing = True, dr_meanwhile = meanwhile, dr_deny = (\<lambda>p. False),
     dr_cancelled_before = False, dr_cancelled_during = None\<rparr>"

definition demo_entry :: "(chunk_info list \<times> nat option) manifest_entry" where
  "demo_entry = \<lparr>me_path = Some (of_ascii ''b/c''), me_size = None, me_sha256 = Some [3, 2, 1], me_source = Public (replicate 32 5)\<rparr>"

lemma demo_split: "split_on PATH_SEPARATOR (of_ascii ''b/c'') = [[98], [99]]"
  by (simp add: PATH_SEPARATOR_def of_ascii_def)

lemma demo_download:
  "download_entry plain_env rev (\<lambda>f p. None) [] False (demo_run (\<lambda>f. f)) demo_entry (of_ascii ''b/c'') Map.empty =
     (Inr 3, [[[98]] \<mapsto> FDir, [[98], [99]] \<mapsto> FFile [1, 2, 3]])"
  "fst (download_entry plain_env rev (\<lambda>f p. None) [] False (demo_run (\<lambda>f. f([[98]] \<mapsto> FLink))) demo_entry
     (of_ascii ''b/c'') Map.empty) = Inl Build"
  by (simp_all add: download_entry_def prepare_target_def demo_split ensure_real_directory_def symlink_metadata_def
      is_special_def DOT_def DOTDOT_def create_dir_def check_target_def demo_run_def demo_entry_def fetch_entry_def
      resolve_data_map_def ensure_space_def check_sha256_def verify_parent_chain_def persist_def Let_def)


subsection \<open>The report\<close>

lemma run_entries_indices: "map fst (fst (run_entries run order f)) = order"
  by (induction order arbitrary: f) (simp_all add: case_prod_beta Let_def)

lemma report_in_manifest_order:
  assumes "extract_manifest env sha256 leads root selection overwrite root_created runs order m f = (Inr report, f')"
    and "select_entries env m selection = Inr selected" and "mset order = mset [0..<length selected]"
  shows "map fst report = map fst selected"
proof -
  define run where "run = (\<lambda>i. extract_entry env sha256 leads root overwrite (runs i) (snd (selected ! i)) (fst (selected ! i)))"
  define outcomes where "outcomes = fst (run_entries run order f)"
  have "report = map (\<lambda>(i, status). (fst (selected ! i), status)) (sort_key fst outcomes)"
    using assms(1,2) by (auto simp: extract_manifest_def results outcomes_def run_def case_prod_beta Let_def
        split: sum.splits if_splits)
  then have r: "map fst report = map (\<lambda>i. fst (selected ! i)) (map fst (sort_key fst outcomes))"
    by (simp add: comp_def case_prod_beta)
  have "mset (map fst (sort_key fst outcomes)) = mset (map fst outcomes)" by simp
  also have "\<dots> = mset [0..<length selected]" using run_entries_indices [of run order f] assms(3) by (simp add: outcomes_def)
  finally have idx: "map fst (sort_key fst outcomes) = [0..<length selected]"
    by (metis mset_eq_setD properties_for_sort sorted_sort_key sorted_upt)
  show ?thesis unfolding r idx by (rule nth_equalityI) simp_all
qed

end
