(* ===== verification/Spec2Isabelle.thy ===== *)
theory Spec2Isabelle
  imports Prelude Payment_Policy Quote_Policy Data_Error Pointer Pointer_Client Float64 Adaptive
    Read_Budget Wire Path_Rules History Quote_Validation Merkle_Plan Merkle_Pools Merkle_Pay Engine
    Merkle_Store Batch Upload_State Native_Payment Upload Upload_Accounts
    Node_Registry Node_Disk Supervisor Daemon Daemon_Safety Daemon_Stops Daemon_Evictions
    Receipt_Cache Receipt_Recovery
    Msgpack Manifest_Doc Manifest_Links Manifest_Build Manifest_Extract
begin

text \<open>
  Verification library of the Autonomi client (\<^verbatim>\<open>ant-client\<close>). Sources are named below
  \<^verbatim>\<open>src/ant-core/src/\<close>.

  \<^bold>\<open>The program.\<close> The client stores chunks and pointers on the close group of an address (the
  seven nodes nearest to it by XOR) and pays for storage on a chain. It asks the group for
  quotes, lets the nodes witness one another, pays the median quote, and stores with the
  peers that witnessed the paid node. Large uploads pay for whole merkle trees of chunks at
  once. An upload keeps its plans, proofs and payment attempts in a state that is saved before
  and after every payment, so that it can be resumed. Pointers are signed mutable records; they are read and
  written by quorums of answers, and can be transferred or burned, after which they are
  final. Transfers are paced by an adaptive concurrency controller, and reads are admitted by
  a byte budget. Files are described by manifests: documents of portable paths and embedded
  data maps, recorded locally in an upload history. On the machines that host the network, a
  daemon manages nodes: a registry in a file, one process per node, restarts after crashes and
  upgrades, and evictions when a disk is full.

  \<^bold>\<open>Theories and the code they model.\<close>

  \<^item> \<open>Prelude\<close>: results with an error (\<open>bind_result\<close>, \<open>ok_or\<close>), operations that pass
    an environment (\<open>op\<close>, \<open>bind_op\<close>), saturating machine arithmetic on 64-bit sizes, the
    stable sort facts, and the locale \<open>transition_invariant\<close> of step relations, whose one
    lemma carries an invariant along every run.

  \<^item> \<open>Payment_Policy\<close> (\<^verbatim>\<open>payment_policy.rs\<close>): ranking of prices, the paid median, the
    tripled amount with its overflow error, and the payment plan. The amount type is a word
    of any width. The lemmas show what a plan pays, which rank is paid, and when planning
    fails.

  \<^item> \<open>Quote_Policy\<close> (\<^verbatim>\<open>quote_policy.rs\<close>): votes of responders for peers, consensus, the
    two discovery widths, the storage votes, the search over subsets of quotes and the PUT
    order. The locale \<open>vote_box\<close> states what a table of votes promises and is interpreted
    on the model's association lists, so that the results do not depend on the iteration
    order of the hash map. The lemmas show that the search is an exhaustive optimum and that
    the issuer paid for the selection is one with enough witnesses.

  \<^item> \<open>Data_Error\<close> (\<^verbatim>\<open>data/error.rs\<close>, \<^verbatim>\<open>transfer_policy.rs\<close>,
    \<^verbatim>\<open>data/client/mod.rs\<close>): the client's errors, texts dropped, their failure kinds and the
    outcomes they are to the limiters.

  \<^item> \<open>Pointer\<close> (\<^verbatim>\<open>data/client/pointer.rs\<close>, pure part): quorums, tallies of answers, the
    choice of a state, verdicts on reads, writes and finality, and the readers of wire
    replies. The locale \<open>tally\<close> is the contract between the answers of a group and the
    tally they are folded into. The main result is the refinement of a register: after a
    write quorum holds the newest state, every read with a read quorum of answers returns it,
    for every order of arrival and every point at which the read may settle early.

  \<^item> \<open>Pointer_Client\<close> (the same file, operations): reads, finality reports, resolving,
    recipient checks, signing of transfers, paid writes with their retry rounds. The
    environment (peers, transport, clock) is a state of any type that the exchanges thread
    through; records are reached through \<open>pointer_api\<close>, the operations of the wire crate,
    whose laws are hypotheses of the theorems that use them.

  \<^item> \<open>Float64\<close>: the fragment of IEEE binary64 and of \<^verbatim>\<open>Duration\<close> the controller computes
    with: round to nearest even on exact rationals, NaN and infinities, saturating casts, and
    \<open>mul_f64\<close> with its panic as \<open>None\<close>.

  \<^item> \<open>Adaptive\<close> (\<^verbatim>\<open>data/client/adaptive.rs\<close>): configuration and its repair, windows and
    percentiles, the AIMD limiter, the hill climbing limiter, the controller with warm start
    and snapshot, and the rolling schedulers with the order of completions as a parameter.
    The locale \<open>transition_invariant\<close> is interpreted on limiter steps: the caps stay in
    their bounds for every sequence of observations.

  \<^item> \<open>Read_Budget\<close> (\<^verbatim>\<open>client_engine/read_budget.rs\<close>): one pass of the admission loop,
    permits and queue entries as destructors see them, processing feedback and shutdown;
    \<open>world_step\<close> interleaves them in every order and \<open>transition_invariant\<close> gives the
    exact accounting.

  \<^item> \<open>Wire\<close> (\<^verbatim>\<open>data/manifest/wire.rs\<close>): the layout of embedded data maps and the check
    of the structure of untrusted msgpack bytes.

  \<^item> \<open>Path_Rules\<close> (\<^verbatim>\<open>data/manifest/path.rs\<close>): portable paths, repair of names and
    collisions under folding.

  \<^item> \<open>Msgpack\<close>: msgpack values and the locale \<open>msgpack_writer\<close>, what the manifest code relies
    on of the serialiser; it is interpreted on a writer of the specification's shortest forms.
    Its main lemma is that the structural check accepts every value of the right shape.

  \<^item> \<open>Manifest_Doc\<close> (\<^verbatim>\<open>data/manifest/mod.rs\<close>): manifests as documents: identity of
    entries, validation, canonical order, encoding and decoding. The lemmas show the round trip
    of the bytes and that they do not depend on the order of the entries.

  \<^item> \<open>Manifest_Links\<close> (\<^verbatim>\<open>link.rs\<close>, \<^verbatim>\<open>file.rs\<close>, \<^verbatim>\<open>embed.rs\<close>,
    \<^verbatim>\<open>compact.rs\<close> in the same directory): links, files and compaction. Links and files lead
    back to the manifest, compaction keeps names and content addresses, and publishing pays for
    nothing before every entry has been checked.

  \<^item> \<open>Manifest_Build\<close>, \<open>Manifest_Extract\<close> (\<^verbatim>\<open>build.rs\<close>, \<^verbatim>\<open>extract.rs\<close>): the builder,
    whose result holds every upload that succeeded whatever fails later, and the extraction over a
    file system with symlinks that may change during a download, which writes below the output
    root and nowhere else.

  \<^item> \<open>History\<close> (\<^verbatim>\<open>data/manifest/history.rs\<close>): calendar arithmetic, record ids and the
    allocation of an id in a directory.

  \<^item> \<open>Quote_Validation\<close> (\<^verbatim>\<open>quote_validation.rs\<close>): the checks of a single-node quote
    and of the commitment it names. The lemmas show what an accepted quote is bound to.

  \<^item> \<open>Merkle_Plan\<close>, \<open>Merkle_Pools\<close>, \<open>Merkle_Pay\<close>, \<open>Merkle_Store\<close>
    (\<^verbatim>\<open>data/client/merkle.rs\<close>): the split of an upload into trees; the collection and
    validation of candidate pools with the count of peers that refuse; the payment of one
    tree and of several, wallet and external signer alike; and the storing of the paid chunks
    with the deferred rounds. The lemmas show that the trees partition the chunks, which
    candidates a pool holds, that a failing later tree keeps the proofs of the paid ones, and
    that every chunk is reported at most once.

  \<^item> \<open>Engine\<close> (\<^verbatim>\<open>client_engine.rs\<close>): the quorum operation with fallbacks, the rolling
    scheduler with the order of completions as a parameter, the byte bound on concurrent
    stores, retry delays, and the cache of failed endpoints. The locale
    \<open>completing_run\<close> states what a scheduler promises its clients and is interpreted on
    the rolling one; \<open>Batch\<close> and \<open>Merkle_Store\<close> rest on it.

  \<^item> \<open>Batch\<close> (\<^verbatim>\<open>data/client/batch.rs\<close>): plans, payment intents, proofs, waves of stores
    with their retries, and the pruning of cached proofs.

  \<^item> \<open>Receipt_Cache\<close>, \<open>Receipt_Recovery\<close> (\<^verbatim>\<open>data/client/cached_single.rs\<close>): the receipts
    of paid waves on disk. The model records every directory an operation passes through; the
    locale \<open>guarded_directory\<close> states which changes a predicate on directories has to
    survive and is interpreted on well-formed directories and on directories that keep a
    paid proof, so that an acknowledged proof is found again after any crash.

  \<^item> \<open>Upload_State\<close> (\<^verbatim>\<open>data/client/upload_state.rs\<close>): the resumable state of an upload,
    its checks when it is restored, confirmation of payments. \<open>transition_invariant\<close> is
    interpreted on the calls of its methods: no evidence of a payment is dropped.

  \<^item> \<open>Native_Payment\<close> (\<^verbatim>\<open>data/client/native_payment.rs\<close>): the journal of a native
    payment. A session may be cut at any checkpoint; the locale \<open>durable_adapter\<close> states
    what a checkpoint promises and is interpreted on the file adapter. The invariant
    \<open>journal_inv\<close> gives at most one live transaction over any sequence of sessions.

  \<^item> \<open>Upload\<close>, \<open>Upload_Accounts\<close> (\<^verbatim>\<open>data/client/upload.rs\<close>, \<^verbatim>\<open>record.rs\<close>):
    the coordinator that composes the components above over an adapter: preflight, recovery of a
    pending payment, merkle payment and storage, waves of single-node payments, and the errors
    an upload ends with. The second theory shows its accounts: an invariant kept by every step,
    errors included, relates what the outcome books to what the adapter was told, so that a
    failed upload reports exactly what was spent and stored and a successful one stored all.
    The locale \<open>completing_run\<close> is interpreted on the streams that can be dropped early.

  \<^item> \<open>Rust_Text\<close>: the decimal numbers, trimming, splitting and path joining of the
    standard library that the texts of the client use.

  \<^item> \<open>Node_Registry\<close> (\<^verbatim>\<open>node/types.rs\<close>, \<^verbatim>\<open>registry.rs\<close>, \<^verbatim>\<open>mod.rs\<close>): node
    configurations, port ranges, the registry, and adding, removing and resetting nodes. The
    lemmas show the registry's invariant and that added nodes have ids, directories and ports
    of their own.

  \<^item> \<open>Node_Disk\<close> (\<^verbatim>\<open>node/daemon/disk.rs\<close>, \<^verbatim>\<open>health.rs\<close>): the walk over a data
    directory, with its termination and its sum as a reference; partitions, the eviction
    candidate and the health report.

  \<^item> \<open>Supervisor\<close> (\<^verbatim>\<open>node/daemon/supervisor.rs\<close>): the operations of the supervisor on a
    \<open>world\<close>, the state they share (runtimes, registry and its file, processes, pid files,
    events): adoption, start, stop, crash accounting, kills, respawns, eviction markers.

  \<^item> \<open>Daemon\<close> (the tasks of the same file, \<^verbatim>\<open>server.rs\<close>): the monitor of a node, the
    liveness sweep, the eviction cycle and the handlers of requests as step functions between
    the points at which the tasks release a lock or wait; \<open>exec\<close> takes one step of any of
    them, \<open>run\<close> a schedule. The answers of the operating system are in the labels.

  \<^item> \<open>Daemon_Safety\<close>, \<open>Daemon_Stops\<close>, \<open>Daemon_Evictions\<close>: invariants of all schedules,
    each an interpretation of \<open>transition_invariant\<close>: a running node is watched by somebody;
    a stopped node stays stopped until somebody asks to start it, unless it was stopped during
    the backoff after a crash, where a schedule shows the restart; a node under eviction cannot
    be started.

  \<^bold>\<open>Bounds and fuel.\<close> No loop of the model is cut short. Resolving and recipient checks
  follow at most sixteen pointers because the code does, a paid write makes at most four
  rounds because the code does, and the nesting limit of the wire check is the source's depth
  of sixteen turned around (\<open>room = MAX_DECODE_DEPTH + 1 - depth\<close>). Waves make four
  attempts per chunk and merkle stores three deferred rounds, as the source does. The
  observation of a transaction sleeps one second between two looks and is cut by a timeout of
  thirty seconds, so its loop has thirty looks. Sizes are natural
  numbers bounded as 64-bit ones where the source saturates or wraps; amounts are words.

  \<^bold>\<open>Parameters.\<close> Code outside the repository enters as arguments: the signed pointer record,
  the data map of \<^verbatim>\<open>self_encryption\<close>, Unicode normalisation and case mapping, the
  transport, the order in which concurrent operations finish, the file system. The texts of
  errors and the log lines are dropped.

  \<^bold>\<open>Not modelled.\<close> Quote collection over the network, the
  file and data uploads that stage records for the coordinator, the chunk client and its cache,
  the asynchronous read engine, the browser transport, the
  installation of node binaries, the daemon's HTTP client and log forwarding, and the command
  line.
\<close>

end
